(* ===== verification/Prelude.thy ===== *)
theory Prelude imports Main "HOL-Library.Word" "HOL-Library.Sublist" "HOL-Library.Monad_Syntax" begin

text \<open>
  What the component theories share: the machine-integer types, byte strings read in
  little-endian order with explicit bounds checks, the few string operations the C++ code
  takes from the standard library, and ordered association lists that stand for
  \<open>std::map\<close>.  A read outside its buffer is the value \<open>None\<close>, so that "no input makes the
  parser read out of bounds" is a statement about the model.
\<close>

section \<open>Machine integers\<close>

type_synonym u8 = "8 word"
type_synonym u16 = "16 word"
type_synonym u32 = "32 word"
type_synonym u64 = "64 word"

type_synonym bytes = "u8 list"

named_theorems word_nat "comparisons and sums of words as statements about their values"

lemma u64_less [word_nat]: "(a :: u64) < b \<longleftrightarrow> unat a < unat b"
  by (simp add: word_less_nat_alt)

lemma u64_le [word_nat]: "(a :: u64) \<le> b \<longleftrightarrow> unat a \<le> unat b"
  by (simp add: word_le_nat_alt)

lemma u64_bound [simp]: "unat (a :: u64) < 18446744073709551616"
  using unsigned_less [where w = a and 'a = nat] by simp

lemma u32_bound [simp]: "unat (a :: u32) < 4294967296"
  using unsigned_less [where w = a and 'a = nat] by simp

lemma unat_add_u64:
  "unat ((a :: u64) + b) = (unat a + unat b) mod 18446744073709551616"
  by (simp add: unat_word_ariths)

lemma unat_add_u64_exact:
  "unat a + unat b < 18446744073709551616 \<Longrightarrow> unat ((a :: u64) + b) = unat a + unat b"
  by (simp add: unat_add_u64)

lemma unat_sub_u64: "b \<le> a \<Longrightarrow> unat ((a :: u64) - b) = unat a - unat b"
  by (rule unat_sub)

lemma unat_eq_u64: "(a :: u64) = b \<longleftrightarrow> unat a = unat b"
  by (simp add: word_unat_eq_iff)

section \<open>Bytes in little-endian order\<close>

primrec le_value :: "bytes \<Rightarrow> nat" where
  "le_value [] = 0"
| "le_value (b # bs) = unat b + 256 * le_value bs"

primrec le_bytes :: "nat \<Rightarrow> nat \<Rightarrow> bytes" where
  "le_bytes 0 v = []"
| "le_bytes (Suc n) v = of_nat (v mod 256) # le_bytes n (v div 256)"

lemma length_le_bytes [simp]: "length (le_bytes n v) = n"
  by (induction n arbitrary: v) simp_all

lemma unat_byte_of_nat: "unat (of_nat (v mod 256) :: u8) = v mod 256"
  by (simp add: unat_of_nat)

lemma le_value_bound: "le_value bs < 256 ^ length bs"
proof (induction bs)
  case Nil
  then show ?case by simp
next
  case (Cons b bs)
  have "unat b < 256" using unsigned_less [where w = b and 'a = nat] by simp
  moreover have "256 * le_value bs + 256 \<le> 256 * 256 ^ length bs"
    using Cons.IH by (simp add: Suc_le_eq [symmetric])
  ultimately show ?case by simp
qed

lemma le_value_le_bytes: "v < 256 ^ n \<Longrightarrow> le_value (le_bytes n v) = v"
proof (induction n arbitrary: v)
  case 0
  then show ?case by simp
next
  case (Suc n)
  from Suc.prems have "v div 256 < 256 ^ n"
    by (simp add: less_mult_imp_div_less mult.commute)
  with Suc.IH show ?case by (simp add: unat_byte_of_nat)
qed

lemma le_bytes_le_value: "le_bytes (length bs) (le_value bs) = bs"
proof (induction bs)
  case Nil
  then show ?case by simp
next
  case (Cons b bs)
  have "unat b < 256" using unsigned_less [where w = b and 'a = nat] by simp
  then have "(unat b + 256 * le_value bs) mod 256 = unat b"
    "(unat b + 256 * le_value bs) div 256 = le_value bs" by simp_all
  then show ?case using Cons.IH by (simp only: length_Cons le_bytes.simps le_value.simps) simp
qed

text \<open>
  \<open>memcpy\<close> of a field out of a buffer: \<open>None\<close> is a read past the end.
\<close>

definition slice :: "bytes \<Rightarrow> nat \<Rightarrow> nat \<Rightarrow> bytes option" where
  "slice bs off n = (if off + n \<le> length bs then Some (take n (drop off bs)) else None)"

definition read_le :: "nat \<Rightarrow> bytes \<Rightarrow> nat \<Rightarrow> nat option" where
  "read_le n bs off = map_option le_value (slice bs off n)"

lemma slice_eq_Some [simp]:
  "slice bs off n = Some s \<longleftrightarrow> off + n \<le> length bs \<and> s = take n (drop off bs)"
  by (auto simp: slice_def)

lemma slice_in_range: "off + n \<le> length bs \<Longrightarrow> \<exists>s. slice bs off n = Some s \<and> length s = n"
  by (simp add: slice_def)

lemma read_le_in_range:
  "off + n \<le> length bs \<Longrightarrow> read_le n bs off = Some (le_value (take n (drop off bs)))"
  by (simp add: read_le_def slice_def)

lemma read_le_eq_None: "read_le n bs off = None \<longleftrightarrow> length bs < off + n"
  by (auto simp: read_le_def slice_def)

lemma read_le_bound: "read_le n bs off = Some v \<Longrightarrow> v < 256 ^ n"
  using le_value_bound [of "take n (drop off bs)"]
  by (auto simp: read_le_def slice_def split: if_splits)

lemma read_le_append_left:
  "off + n \<le> length xs \<Longrightarrow> read_le n (xs @ ys) off = read_le n xs off"
  by (simp add: read_le_def slice_def)

lemma read_le_append_right:
  "length xs \<le> off \<Longrightarrow> read_le n (xs @ ys) off = read_le n ys (off - length xs)"
  by (auto simp: read_le_def slice_def)

lemma read_le_le_bytes:
  "v < 256 ^ n \<Longrightarrow> read_le n (le_bytes n v @ ys) 0 = Some v"
  by (simp add: read_le_def slice_def le_value_le_bytes)

section \<open>Strings\<close>

definition char_byte :: "u8 \<Rightarrow> char" where
  "char_byte b = char_of (unat b)"

definition byte_char :: "char \<Rightarrow> u8" where
  "byte_char c = of_nat (of_char c :: nat)"

definition bytes_of_string :: "string \<Rightarrow> bytes" where
  "bytes_of_string s = map byte_char s"

definition string_of_bytes :: "bytes \<Rightarrow> string" where
  "string_of_bytes bs = map char_byte bs"

lemma char_byte_byte_char [simp]: "char_byte (byte_char c) = c"
proof -
  have "(of_char c :: nat) < 256" by (rule nat_of_char_less_256)
  then show ?thesis by (simp add: char_byte_def byte_char_def unat_of_nat)
qed

lemma byte_char_char_byte [simp]: "byte_char (char_byte b) = b"
  using unsigned_less [where w = b and 'a = nat] by (simp add: char_byte_def byte_char_def)

lemma length_bytes_of_string [simp]: "length (bytes_of_string s) = length s"
  by (simp add: bytes_of_string_def)

lemma string_of_bytes_of_string [simp]: "string_of_bytes (bytes_of_string s) = s"
  by (induction s) (simp_all add: string_of_bytes_def bytes_of_string_def)

lemma length_string_of_bytes [simp]: "length (string_of_bytes bs) = length bs"
  by (simp add: string_of_bytes_def)

text \<open>
  \<open>std::string::find\<close>: the least position at or after the given one where the needle
  occurs, \<open>None\<close> for \<open>npos\<close>; \<open>starts_with\<close> is \<open>rfind(prefix, 0) == 0\<close>.
\<close>

definition starts_with :: "'a list \<Rightarrow> 'a list \<Rightarrow> bool" where
  "starts_with s pre = (take (length pre) s = pre)"

fun find_sub :: "'a list \<Rightarrow> 'a list \<Rightarrow> nat option" where
  "find_sub needle [] = (if needle = [] then Some 0 else None)"
| "find_sub needle (c # cs) =
     (if starts_with (c # cs) needle then Some 0 else map_option Suc (find_sub needle cs))"

definition find_from :: "'a list \<Rightarrow> 'a list \<Rightarrow> nat \<Rightarrow> nat option" where
  "find_from needle s pos =
     (if pos \<le> length s then map_option ((+) pos) (find_sub needle (drop pos s)) else None)"

definition contains_sub :: "'a list \<Rightarrow> 'a list \<Rightarrow> bool" where
  "contains_sub s needle = (find_sub needle s \<noteq> None)"

lemma starts_with_iff_prefix: "starts_with s pre \<longleftrightarrow> prefix pre s"
  by (auto simp: starts_with_def prefix_def) (metis append_take_drop_id)

lemma find_sub_Some:
  "find_sub needle s = Some i \<Longrightarrow> i + length needle \<le> length s \<and>
     take (length needle) (drop i s) = needle"
proof (induction s arbitrary: i)
  case Nil
  then show ?case by (auto split: if_splits)
next
  case (Cons c cs)
  show ?case
  proof (cases "starts_with (c # cs) needle")
    case True
    with Cons.prems have "i = 0" by simp
    moreover from True have "length needle \<le> length (c # cs)"
      by (metis starts_with_def length_take min.cobounded1 take_all_iff nat_le_linear min_def)
    ultimately show ?thesis using True by (simp add: starts_with_def)
  next
    case False
    with Cons.prems obtain j where "find_sub needle cs = Some j" "i = Suc j" by auto
    with Cons.IH show ?thesis by simp
  qed
qed

lemma contains_sub_iff_sublist: "contains_sub s needle \<longleftrightarrow> sublist needle s"
proof (induction s)
  case Nil
  then show ?case by (simp add: contains_sub_def)
next
  case (Cons c cs)
  then show ?case
    by (auto simp: contains_sub_def starts_with_iff_prefix sublist_Cons_right)
qed

text \<open>\<open>std::to_string\<close> of an unsigned value.\<close>

definition digit_char :: "nat \<Rightarrow> char" where
  "digit_char d = char_of (48 + d)"

fun show_nat :: "nat \<Rightarrow> string" where
  "show_nat n = (if n < 10 then [digit_char n] else show_nat (n div 10) @ [digit_char (n mod 10)])"

declare show_nat.simps [simp del]

definition is_digit_char :: "char \<Rightarrow> bool" where
  "is_digit_char c = (48 \<le> (of_char c :: nat) \<and> (of_char c :: nat) \<le> 57)"

fun parse_nat_acc :: "nat \<Rightarrow> string \<Rightarrow> nat" where
  "parse_nat_acc v [] = v"
| "parse_nat_acc v (c # cs) = parse_nat_acc (10 * v + (of_char c - 48)) cs"

lemma parse_nat_acc_append:
  "parse_nat_acc v (xs @ ys) = parse_nat_acc (parse_nat_acc v xs) ys"
  by (induction xs arbitrary: v) simp_all

lemma of_char_digit_char: "d < 10 \<Longrightarrow> (of_char (digit_char d) :: nat) = 48 + d"
  by (simp add: digit_char_def)

lemma parse_show_nat: "parse_nat_acc 0 (show_nat n) = n"
proof (induction n rule: show_nat.induct)
  case (1 n)
  show ?case
  proof (cases "n < 10")
    case True
    then show ?thesis by (subst show_nat.simps) (simp add: of_char_digit_char)
  next
    case False
    with "1.IH" have "parse_nat_acc 0 (show_nat (n div 10)) = n div 10" by simp
    with False show ?thesis
      by (subst show_nat.simps) (simp add: parse_nat_acc_append of_char_digit_char)
  qed
qed

lemma show_nat_inject [simp]: "show_nat m = show_nat n \<longleftrightarrow> m = n"
  by (metis parse_show_nat)

section \<open>Ordered maps\<close>

text \<open>
  \<open>std::map\<close> iterates in key order; it is an association list kept strictly ascending.
\<close>

type_synonym ('k, 'v) omap = "('k \<times> 'v) list"

definition omap_ok :: "('k :: linorder, 'v) omap \<Rightarrow> bool" where
  "omap_ok m = sorted_wrt (\<lambda>x y. fst x < fst y) m"

fun omap_put :: "'k :: linorder \<Rightarrow> 'v \<Rightarrow> ('k, 'v) omap \<Rightarrow> ('k, 'v) omap" where
  "omap_put k v [] = [(k, v)]"
| "omap_put k v ((k', v') # m) =
     (if k < k' then (k, v) # (k', v') # m
      else if k = k' then (k, v) # m
      else (k', v') # omap_put k v m)"

text \<open>
  \<open>lower_bound\<close> and \<open>upper_bound\<close> split the map in two: the entries before the returned
  iterator, and the entries from it on.
\<close>

definition below :: "'k :: linorder \<Rightarrow> ('k, 'v) omap \<Rightarrow> ('k, 'v) omap" where
  "below k m = takeWhile (\<lambda>x. fst x < k) m"

definition from_key :: "'k :: linorder \<Rightarrow> ('k, 'v) omap \<Rightarrow> ('k, 'v) omap" where
  "from_key k m = dropWhile (\<lambda>x. fst x < k) m"

definition up_to :: "'k :: linorder \<Rightarrow> ('k, 'v) omap \<Rightarrow> ('k, 'v) omap" where
  "up_to k m = takeWhile (\<lambda>x. fst x \<le> k) m"

lemma below_from_key [simp]: "below k m @ from_key k m = m"
  by (simp add: below_def from_key_def)

lemma set_below: "x \<in> set (below k m) \<Longrightarrow> fst x < k"
  by (auto simp: below_def dest: set_takeWhileD)

lemma sorted_dropWhile_all:
  "sorted_wrt (\<lambda>x y. fst x < (fst y :: 'k :: linorder)) m \<Longrightarrow>
     x \<in> set (dropWhile (\<lambda>x. fst x < k) m) \<Longrightarrow> k \<le> fst x"
  by (induction m) (fastforce split: if_splits)+

lemma set_from_key: "omap_ok m \<Longrightarrow> x \<in> set (from_key k m) \<Longrightarrow> k \<le> fst x"
  by (simp add: omap_ok_def from_key_def sorted_dropWhile_all)

lemma set_up_to: "omap_ok m \<Longrightarrow> x \<in> set (up_to k m) \<longleftrightarrow> x \<in> set m \<and> fst x \<le> k"
  unfolding omap_ok_def up_to_def
  by (induction m) (fastforce split: if_splits)+

lemma omap_put_split:
  assumes "omap_ok m" "k \<notin> fst ` set m"
  shows "omap_put k v m = below k m @ (k, v) # from_key k m"
  using assms unfolding omap_ok_def below_def from_key_def
  by (induction m) auto

lemma sorted_last_max:
  "sorted_wrt r xs \<Longrightarrow> x \<in> set xs \<Longrightarrow> x = last xs \<or> r x (last xs)"
  by (induction xs) (auto split: if_splits)

end
