(* ===== verification/Allocation.thy ===== *)
theory Allocation imports Prelude begin

text \<open>
  The allocation table of the runtime, \<open>runtime/rt/allocation_table.{h,cpp}\<close>: which address
  ranges belong to which Metal buffer.  Addresses and sizes are 64-bit words, so the sums
  \<open>address + size\<close> wrap exactly as \<open>std::uintptr_t\<close> does.  The \<open>std::map\<close> is an ordered
  association list; a \<open>shared_ptr\<close> is the number of its buffer, \<open>None\<close> when null.  Every method
  runs under the table's lock, so a call is one atomic step on the table.
\<close>

section \<open>State\<close>

datatype AllocationKind = KDevice | KHost

record Entry =
  e_size :: u64
  e_kind :: AllocationKind
  e_flags :: u32
  e_buffer :: nat
  e_alias :: bool

record ResolvedAllocation =
  r_buffer :: nat
  r_offset :: u64
  r_remaining :: u64
  r_kind :: AllocationKind
  r_flags :: u32

type_synonym table = "(u64, Entry) omap"

section \<open>Operations\<close>

definition empty_table :: table where
  "empty_table = []"

text \<open>\<open>Inl\<close> carries the error message of a rejected insertion, \<open>Inr\<close> the new table.\<close>

definition table_insert ::
  "u64 \<Rightarrow> u64 \<Rightarrow> AllocationKind \<Rightarrow> u32 \<Rightarrow> nat option \<Rightarrow> bool \<Rightarrow> table \<Rightarrow> string + table" where
  "table_insert base sz kind flags buffer al t =
     (case buffer of
        None \<Rightarrow> Inl ''allocation table insert received invalid arguments''
      | Some b \<Rightarrow>
          if base = 0 \<or> sz = 0
          then Inl ''allocation table insert received invalid arguments''
          else if from_key base t \<noteq> [] \<and> fst (hd (from_key base t)) < base + sz
          then Inl ''allocation overlaps existing entry''
          else if below base t \<noteq> [] \<and>
                  base < fst (last (below base t)) + e_size (snd (last (below base t)))
          then Inl ''allocation overlaps previous entry''
          else Inr (omap_put base
                      \<lparr>e_size = sz, e_kind = kind, e_flags = flags, e_buffer = b,
                       e_alias = al\<rparr> t))"

definition table_erase :: "u64 \<Rightarrow> table \<Rightarrow> bool \<times> table" where
  "table_erase base t =
     (if base = 0 then (False, t)
      else case map_of t base of
             None \<Rightarrow> (False, t)
           | Some found \<Rightarrow> (True, filter (\<lambda>x. e_buffer (snd x) \<noteq> e_buffer found) t))"

definition table_resolve :: "u64 \<Rightarrow> table \<Rightarrow> ResolvedAllocation option" where
  "table_resolve address t =
     (if address = 0 \<or> up_to address t = [] then None
      else let base = fst (last (up_to address t)); entry = snd (last (up_to address t))
           in if address < base \<or> base + e_size entry \<le> address then None
              else Some \<lparr>r_buffer = e_buffer entry, r_offset = address - base,
                         r_remaining = e_size entry - (address - base),
                         r_kind = e_kind entry, r_flags = e_flags entry\<rparr>)"

fun table_total :: "table \<Rightarrow> u64" where
  "table_total [] = 0"
| "table_total ((a, e) # t) = (if e_alias e then 0 else e_size e) + table_total t"

definition table_clear :: "table \<Rightarrow> table" where
  "table_clear t = []"

section \<open>The invariant\<close>

text \<open>
  Every entry is a non-empty range that ends before the top of the address space, and the
  ranges lie one after the other.
\<close>

definition entry_end :: "u64 \<times> Entry \<Rightarrow> nat" where
  "entry_end x = unat (fst x) + unat (e_size (snd x))"

definition entry_ok :: "u64 \<times> Entry \<Rightarrow> bool" where
  "entry_ok x \<longleftrightarrow> fst x \<noteq> 0 \<and> e_size (snd x) \<noteq> 0 \<and> entry_end x < 18446744073709551616"

definition table_inv :: "table \<Rightarrow> bool" where
  "table_inv t \<longleftrightarrow> (\<forall>x \<in> set t. entry_ok x) \<and> sorted_wrt (\<lambda>x y. entry_end x \<le> unat (fst y)) t"

definition covers :: "u64 \<times> Entry \<Rightarrow> u64 \<Rightarrow> bool" where
  "covers x p \<longleftrightarrow> unat (fst x) \<le> unat p \<and> unat p < entry_end x"

definition overlaps :: "u64 \<Rightarrow> u64 \<Rightarrow> u64 \<times> Entry \<Rightarrow> bool" where
  "overlaps base sz x \<longleftrightarrow> unat (fst x) < unat base + unat sz \<and> unat base < entry_end x"

named_theorems table_defs "definitions of the table's operations"

lemmas [table_defs] = table_insert_def table_erase_def table_resolve_def table_clear_def

lemma entry_ok_pos: "entry_ok x \<Longrightarrow> unat (fst x) < entry_end x"
  by (simp add: entry_ok_def entry_end_def unat_gt_0)

lemma entry_ok_end: "entry_ok x \<Longrightarrow> unat (fst x + e_size (snd x)) = entry_end x"
  by (simp add: entry_ok_def entry_end_def unat_add_u64_exact)

lemma table_inv_Cons:
  "table_inv (x # t) \<longleftrightarrow> entry_ok x \<and> (\<forall>y \<in> set t. entry_end x \<le> unat (fst y)) \<and> table_inv t"
  by (auto simp: table_inv_def)

lemma table_inv_append:
  "table_inv (s @ t) \<longleftrightarrow> table_inv s \<and> table_inv t \<and>
     (\<forall>x \<in> set s. \<forall>y \<in> set t. entry_end x \<le> unat (fst y))"
  by (auto simp: table_inv_def sorted_wrt_append)

lemma table_inv_entry: "table_inv t \<Longrightarrow> x \<in> set t \<Longrightarrow> entry_ok x"
  by (simp add: table_inv_def)

lemma table_inv_omap_ok: "table_inv t \<Longrightarrow> omap_ok t"
proof (induction t)
  case Nil
  then show ?case by (simp add: omap_ok_def)
next
  case (Cons x t)
  then show ?case
    by (fastforce simp: table_inv_Cons omap_ok_def word_nat dest: entry_ok_pos)
qed

lemma table_inv_keys: "table_inv t \<Longrightarrow> distinct (map fst t)"
  using table_inv_omap_ok unfolding omap_ok_def
  by (induction t) (fastforce simp: table_inv_Cons dest: entry_ok_pos)+

lemma table_inv_filter: "table_inv t \<Longrightarrow> table_inv (filter p t)"
  by (auto simp: table_inv_def sorted_wrt_filter)

lemma covers_unique:
  "table_inv t \<Longrightarrow> x \<in> set t \<Longrightarrow> y \<in> set t \<Longrightarrow> covers x p \<Longrightarrow> covers y p \<Longrightarrow> x = y"
proof (induction t)
  case Nil
  then show ?case by simp
next
  case (Cons z t)
  then show ?case by (fastforce simp: table_inv_Cons covers_def)
qed

lemma total_split: "table_total (s @ t) = table_total s + table_total t"
  by (induction s rule: table_total.induct) (simp_all add: add.assoc)

section \<open>Lookup\<close>

lemma up_to_last:
  assumes "table_inv t" "x \<in> set t" "covers x p"
  shows "up_to p t \<noteq> [] \<and> last (up_to p t) = x"
proof -
  have ok: "omap_ok t" by (rule table_inv_omap_ok [OF assms(1)])
  from assms(2,3) have x: "x \<in> set (up_to p t)"
    by (simp add: set_up_to [OF ok] covers_def word_nat)
  then have ne: "up_to p t \<noteq> []" by auto
  let ?l = "last (up_to p t)"
  from ne have "?l \<in> set (up_to p t)" by simp
  then have l: "?l \<in> set t" "unat (fst ?l) \<le> unat p"
    by (simp_all add: set_up_to [OF ok] word_nat)
  have "table_inv (up_to p t)"
    using assms(1) unfolding up_to_def table_inv_def
    by (meson set_takeWhileD sorted_wrt_append takeWhile_dropWhile_id
        sorted_wrt_takeWhile)
  then have "x = ?l \<or> entry_end x \<le> unat (fst ?l)"
    using x sorted_last_max [of "\<lambda>x y. entry_end x \<le> unat (fst y)"] by (simp add: table_inv_def)
  with assms(3) l ne show ?thesis by (auto simp: covers_def)
qed

text \<open>What a pointer into an entry resolves to.\<close>

definition resolved_at :: "u64 \<times> Entry \<Rightarrow> u64 \<Rightarrow> ResolvedAllocation" where
  "resolved_at x p =
     \<lparr>r_buffer = e_buffer (snd x), r_offset = p - fst x,
      r_remaining = e_size (snd x) - (p - fst x),
      r_kind = e_kind (snd x), r_flags = e_flags (snd x)\<rparr>"

lemma resolve_covered:
  assumes "table_inv t" "x \<in> set t" "covers x p"
  shows "table_resolve p t = Some (resolved_at x p)"
proof -
  have ok: "entry_ok x" using assms(1,2) by (rule table_inv_entry)
  from ok have "unat (fst x) \<noteq> 0" by (simp add: entry_ok_def unat_eq_0)
  then have "p \<noteq> 0" using assms(3) by (auto simp: covers_def)
  with up_to_last [OF assms] assms(3) ok show ?thesis
    by (simp add: table_resolve_def resolved_at_def Let_def word_nat covers_def entry_ok_end)
qed

lemma resolve_None_iff:
  assumes "table_inv t"
  shows "table_resolve p t = None \<longleftrightarrow> (\<forall>x \<in> set t. \<not> covers x p)"
proof
  assume none: "table_resolve p t = None"
  show "\<forall>x \<in> set t. \<not> covers x p"
    using resolve_covered [OF assms] none by fastforce
next
  assume nc: "\<forall>x \<in> set t. \<not> covers x p"
  show "table_resolve p t = None"
  proof (cases "up_to p t = []")
    case True
    then show ?thesis by (simp add: table_resolve_def)
  next
    case False
    let ?l = "last (up_to p t)"
    from False have "?l \<in> set (up_to p t)" by simp
    then have l: "?l \<in> set t" "unat (fst ?l) \<le> unat p"
      by (simp_all add: set_up_to [OF table_inv_omap_ok [OF assms]] word_nat)
    with nc have "entry_end ?l \<le> unat p" by (auto simp: covers_def)
    with l table_inv_entry [OF assms l(1)] show ?thesis
      by (simp add: table_resolve_def Let_def word_nat entry_ok_end)
  qed
qed

lemma resolve_Some_iff:
  assumes "table_inv t"
  shows "table_resolve p t = Some r \<longleftrightarrow> (\<exists>x \<in> set t. covers x p \<and> r = resolved_at x p)"
proof (cases "\<exists>x \<in> set t. covers x p")
  case True
  then obtain x where x: "x \<in> set t" "covers x p" by blast
  have "table_resolve p t = Some (resolved_at x p)" using resolve_covered [OF assms x] .
  with x covers_unique [OF assms _ x(1) _ x(2)] show ?thesis by (metis option.inject)
next
  case False
  then have "table_resolve p t = None" by (simp add: resolve_None_iff [OF assms])
  with False show ?thesis by auto
qed

section \<open>Insertion\<close>

lemma from_key_hd_le:
  assumes "table_inv t" "x \<in> set (from_key k t)"
  shows "unat (fst (hd (from_key k t))) \<le> unat (fst x)"
proof -
  from assms(1) have "table_inv (below k t @ from_key k t)" by simp
  then have "table_inv (from_key k t)" by (simp only: table_inv_append)
  with assms(2) show ?thesis
    by (cases "from_key k t") (fastforce simp: table_inv_Cons dest: entry_ok_pos)+
qed

lemma below_last_end:
  assumes "table_inv t" "x \<in> set (below k t)"
  shows "entry_end x \<le> entry_end (last (below k t))"
proof -
  from assms(1) have "table_inv (below k t @ from_key k t)" by simp
  then have inv: "table_inv (below k t)" by (simp only: table_inv_append)
  then have "x = last (below k t) \<or> entry_end x \<le> unat (fst (last (below k t)))"
    using assms(2) sorted_last_max [of "\<lambda>x y. entry_end x \<le> unat (fst y)"]
    by (simp add: table_inv_def)
  moreover have "entry_ok (last (below k t))"
    using table_inv_entry [OF inv] assms(2) by (cases "below k t") auto
  ultimately show ?thesis by (auto dest: entry_ok_pos)
qed

lemma below_last_in: "below k t \<noteq> [] \<Longrightarrow> last (below k t) \<in> set t"
  by (metis below_from_key UnCI last_in_set set_append)

lemma from_key_hd_in: "from_key k t \<noteq> [] \<Longrightarrow> hd (from_key k t) \<in> set t"
  by (metis below_from_key UnCI hd_in_set set_append)

lemma set_split_table: "x \<in> set t \<longleftrightarrow> x \<in> set (below k t) \<or> x \<in> set (from_key k t)"
  by (metis below_from_key Un_iff set_append)

text \<open>
  The two neighbour checks of \<open>insert\<close> reject exactly the ranges that meet an entry, as
  long as the new range does not wrap.
\<close>

lemma insert_next_check:
  assumes "table_inv t" "unat base + unat sz < 18446744073709551616"
  shows "from_key base t \<noteq> [] \<and> fst (hd (from_key base t)) < base + sz \<longleftrightarrow>
         (\<exists>x \<in> set (from_key base t). unat (fst x) < unat base + unat sz)"
  using from_key_hd_le [OF assms(1), of _ base] assms(2)
  by (cases "from_key base t") (force simp: word_nat unat_add_u64_exact)+

lemma insert_prev_check:
  assumes "table_inv t"
  shows "below base t \<noteq> [] \<and>
           base < fst (last (below base t)) + e_size (snd (last (below base t))) \<longleftrightarrow>
         (\<exists>x \<in> set (below base t). unat base < entry_end x)"
proof (cases "below base t = []")
  case True
  then show ?thesis by simp
next
  case False
  then have "unat (fst (last (below base t)) + e_size (snd (last (below base t))))
      = entry_end (last (below base t))"
    by (simp add: entry_ok_end table_inv_entry [OF assms] below_last_in)
  with False below_last_end [OF assms, of _ base] show ?thesis
    by (auto simp: word_nat intro: less_le_trans bexI [of _ "last (below base t)"])
qed

lemma overlaps_split:
  assumes "table_inv t" "sz \<noteq> 0"
  shows "(\<exists>x \<in> set t. overlaps base sz x) \<longleftrightarrow>
    (\<exists>x \<in> set (from_key base t). unat (fst x) < unat base + unat sz) \<or>
    (\<exists>x \<in> set (below base t). unat base < entry_end x)"
proof -
  have hi: "unat base < entry_end x" if "x \<in> set (from_key base t)" for x
    using set_from_key [OF table_inv_omap_ok [OF assms(1)] that]
      entry_ok_pos [OF table_inv_entry [OF assms(1)]] that
    by (metis le_less_trans set_split_table u64_le)
  have lo: "unat (fst x) < unat base + unat sz" if "x \<in> set (below base t)" for x
    using set_below [OF that] by (simp add: word_nat)
  have "set t = set (below base t) \<union> set (from_key base t)"
    by (auto simp: set_split_table [of _ t base])
  then show ?thesis
    using hi lo unfolding overlaps_def by (simp only: bex_Un) blast
qed

lemma table_insert_Inr_iff:
  assumes "table_inv t" "unat base + unat sz < 18446744073709551616"
  shows "(\<exists>t'. table_insert base sz kind flags buffer al t = Inr t') \<longleftrightarrow>
         buffer \<noteq> None \<and> base \<noteq> 0 \<and> sz \<noteq> 0 \<and> (\<forall>x \<in> set t. \<not> overlaps base sz x)"
  using overlaps_split [OF assms(1), of sz base]
    insert_next_check [OF assms] insert_prev_check [OF assms(1), of base]
  by (auto simp: table_insert_def split: option.splits)

lemma table_insert_shape:
  assumes "table_inv t" "unat base + unat sz < 18446744073709551616"
    and ins: "table_insert base sz kind flags buffer al t = Inr t'"
  shows "\<exists>b. buffer = Some b \<and> base \<noteq> 0 \<and> sz \<noteq> 0 \<and>
    (\<forall>x \<in> set t. \<not> overlaps base sz x) \<and>
    t' = below base t @
      (base, \<lparr>e_size = sz, e_kind = kind, e_flags = flags, e_buffer = b, e_alias = al\<rparr>)
      # from_key base t"
proof -
  obtain b where b: "buffer = Some b" and nz: "base \<noteq> 0" "sz \<noteq> 0"
    and no: "\<forall>x \<in> set t. \<not> overlaps base sz x"
    using table_insert_Inr_iff [OF assms(1,2), of kind flags buffer al] ins by blast
  have "base \<notin> fst ` set t"
  proof
    assume "base \<in> fst ` set t"
    then obtain x where x: "x \<in> set t" "fst x = base" by auto
    then have "overlaps base sz x"
      using entry_ok_pos [OF table_inv_entry [OF assms(1) x(1)]] nz
      by (auto simp: overlaps_def unat_gt_0)
    with no x(1) show False by blast
  qed
  then have put: "omap_put base v t = below base t @ (base, v) # from_key base t" for v
    by (rule omap_put_split [OF table_inv_omap_ok [OF assms(1)]])
  show ?thesis
    using ins b nz no by (simp add: table_insert_def put split: if_splits)
qed

lemma table_insert_set:
  assumes "table_inv t" "unat base + unat sz < 18446744073709551616"
    and "table_insert base sz kind flags (Some b) al t = Inr t'"
  shows "set t' = insert (base, \<lparr>e_size = sz, e_kind = kind, e_flags = flags, e_buffer = b,
                                 e_alias = al\<rparr>) (set t)"
  using table_insert_shape [OF assms] by (auto simp: set_split_table [of _ t base])

lemma table_insert_inv:
  assumes "table_inv t" "unat base + unat sz < 18446744073709551616"
    and ins: "table_insert base sz kind flags buffer al t = Inr t'"
  shows "table_inv t'"
proof -
  obtain e where nz: "base \<noteq> 0" "e_size e \<noteq> 0" "e_size e = sz"
    and no: "\<forall>x \<in> set t. \<not> overlaps base sz x"
    and t': "t' = below base t @ (base, e) # from_key base t"
    using table_insert_shape [OF assms] by force
  have ok: "entry_ok (base, e)" using nz assms(2) by (simp add: entry_ok_def entry_end_def)
  have inv: "table_inv (below base t)" "table_inv (from_key base t)"
    "\<forall>x \<in> set (below base t). \<forall>y \<in> set (from_key base t). entry_end x \<le> unat (fst y)"
    using assms(1) by (metis below_from_key table_inv_append)+
  have before: "entry_end x \<le> unat base" if "x \<in> set (below base t)" for x
    using no overlaps_split [OF assms(1), of sz base] nz that by (meson not_less)
  have after: "entry_end (base, e) \<le> unat (fst x)" if "x \<in> set (from_key base t)" for x
    using no overlaps_split [OF assms(1), of sz base] nz that
    by (metis entry_end_def fst_conv not_less snd_conv)
  show ?thesis
    using ok inv before after unfolding t' by (simp add: table_inv_append table_inv_Cons)
qed

section \<open>Release, totals\<close>

lemma table_erase_inv: "table_inv t \<Longrightarrow> table_inv (snd (table_erase base t))"
  by (simp add: table_erase_def table_inv_filter split: option.splits)

lemma map_of_table: "table_inv t \<Longrightarrow> map_of t base = Some e \<longleftrightarrow> (base, e) \<in> set t"
  by (simp add: table_inv_keys)

lemma table_erase_set:
  assumes "table_inv t" "(base, e) \<in> set t"
  shows "table_erase base t = (True, filter (\<lambda>x. e_buffer (snd x) \<noteq> e_buffer e) t)"
proof -
  have "map_of t base = Some e" using assms by (simp add: map_of_table)
  moreover have "base \<noteq> 0" using table_inv_entry [OF assms] by (simp add: entry_ok_def)
  ultimately show ?thesis by (simp add: table_erase_def)
qed

lemma table_erase_False:
  assumes "table_inv t"
  shows "fst (table_erase base t) \<longleftrightarrow> base \<in> fst ` set t"
proof -
  have "0 \<notin> fst ` set t" using table_inv_entry [OF assms] by (auto simp: entry_ok_def)
  then show ?thesis
    by (auto simp: table_erase_def map_of_eq_None_iff split: option.splits dest!: map_of_SomeD intro: rev_image_eqI)
qed

primrec live_bytes :: "table \<Rightarrow> nat" where
  "live_bytes [] = 0"
| "live_bytes (x # t) = (if e_alias (snd x) then 0 else unat (e_size (snd x))) + live_bytes t"

lemma live_bytes_bound:
  "table_inv (x # t) \<Longrightarrow> unat (fst x) + live_bytes (x # t) < 18446744073709551616"
proof (induction t arbitrary: x)
  case Nil
  then show ?case by (simp add: table_inv_Cons entry_ok_def entry_end_def)
next
  case (Cons y t)
  have "unat (fst y) + live_bytes (y # t) < 18446744073709551616"
    using Cons by (simp add: table_inv_Cons)
  moreover have "entry_end x \<le> unat (fst y)" using Cons.prems by (simp add: table_inv_Cons)
  ultimately show ?case by (simp add: entry_end_def)
qed

lemma live_bytes_fits: "table_inv t \<Longrightarrow> live_bytes t < 18446744073709551616"
  using live_bytes_bound by (cases t) fastforce+

lemma table_total_live:
  "table_inv t \<Longrightarrow> unat (table_total t) = live_bytes t"
proof (induction t)
  case Nil
  then show ?case by simp
next
  case (Cons x t)
  then have "unat (table_total t) = live_bytes t" by (simp add: table_inv_Cons)
  with live_bytes_fits [OF Cons.prems] show ?case
    by (cases x) (auto simp: unat_add_u64)
qed

section \<open>The interface its callers rely on\<close>

text \<open>
  What the runtime needs of the table: which buffer an address belongs to (\<open>owner\<close>), which
  addresses were registered as the start of a range (\<open>bases\<close>), and how insertion and release
  change the two.
\<close>

definition in_range :: "u64 \<Rightarrow> u64 \<Rightarrow> u64 \<Rightarrow> bool" where
  "in_range base sz p \<longleftrightarrow> unat base \<le> unat p \<and> unat p < unat base + unat sz"

definition fits :: "u64 \<Rightarrow> u64 \<Rightarrow> bool" where
  "fits base sz \<longleftrightarrow> unat base + unat sz < 18446744073709551616"

locale allocation_map =
  fixes inv :: "'t \<Rightarrow> bool"
    and ins :: "u64 \<Rightarrow> u64 \<Rightarrow> 'm \<Rightarrow> nat \<Rightarrow> 't \<Rightarrow> 't option"
    and del :: "u64 \<Rightarrow> 't \<Rightarrow> 't option"
    and owner :: "'t \<Rightarrow> u64 \<Rightarrow> nat option"
    and bases :: "'t \<Rightarrow> u64 set"
  assumes ins_inv: "inv t \<Longrightarrow> fits b n \<Longrightarrow> ins b n m k t = Some t' \<Longrightarrow> inv t'"
    and del_inv: "inv t \<Longrightarrow> del b t = Some t' \<Longrightarrow> inv t'"
    and ins_defined: "inv t \<Longrightarrow> fits b n \<Longrightarrow> ins b n m k t \<noteq> None \<longleftrightarrow>
      b \<noteq> 0 \<and> n \<noteq> 0 \<and> (\<forall>p. in_range b n p \<longrightarrow> owner t p = None)"
    and ins_owner: "inv t \<Longrightarrow> fits b n \<Longrightarrow> ins b n m k t = Some t' \<Longrightarrow>
      owner t' p = (if in_range b n p then Some k else owner t p)"
    and ins_bases: "inv t \<Longrightarrow> fits b n \<Longrightarrow> ins b n m k t = Some t' \<Longrightarrow> bases t' = insert b (bases t)"
    and del_defined: "inv t \<Longrightarrow> del b t \<noteq> None \<longleftrightarrow> b \<in> bases t"
    and bases_owned: "inv t \<Longrightarrow> b \<in> bases t \<Longrightarrow> owner t b \<noteq> None"
    and del_owner: "inv t \<Longrightarrow> del b t = Some t' \<Longrightarrow>
      owner t' p = (if owner t p = owner t b then None else owner t p)"
    and del_bases: "inv t \<Longrightarrow> del b t = Some t' \<Longrightarrow> bases t' = {c \<in> bases t. owner t c \<noteq> owner t b}"
begin

lemma ins_bound: "inv t \<Longrightarrow> fits b n \<Longrightarrow> ins b n m k t = Some t' \<Longrightarrow> in_range b n b"
  using ins_defined [of t b n m k] by (auto simp: in_range_def unat_gt_0)

text \<open>A fresh buffer released through its base leaves the table as it was.\<close>

lemma ins_del:
  assumes "inv t" "fits b n" "ins b n m k t = Some t'" "\<And>p. owner t p \<noteq> Some k"
  shows "\<exists>t''. del b t' = Some t'' \<and> inv t'' \<and> owner t'' = owner t \<and> bases t'' = bases t"
proof -
  have inv': "inv t'" by (rule ins_inv [OF assms(1-3)])
  have b: "in_range b n b" by (rule ins_bound [OF assms(1-3)])
  have "b \<in> bases t'" by (simp add: ins_bases [OF assms(1-3)])
  then obtain t'' where t'': "del b t' = Some t''" using del_defined [OF inv'] by blast
  have free: "in_range b n p \<Longrightarrow> owner t p = None" for p
    using ins_defined [OF assms(1,2), of m k] assms(3) by blast
  have "owner t'' p = owner t p" for p
    using assms(4) [of p] free [of p]
    by (simp add: del_owner [OF inv' t''] ins_owner [OF assms(1-3)] b)
  moreover have "bases t'' = bases t"
  proof -
    have "\<not> in_range b n c" if "c \<in> bases t" for c
      using bases_owned [OF assms(1) that] free [of c] by auto
    then show ?thesis
      using assms(4) b
      by (auto simp: del_bases [OF inv' t''] ins_bases [OF assms(1-3)] ins_owner [OF assms(1-3)])
  qed
  ultimately show ?thesis using t'' del_inv [OF inv' t''] by (auto simp: fun_eq_iff)
qed

text \<open>
  One buffer registered under two addresses (the public pointer and its alias): both resolve
  to it, and releasing either one releases both.
\<close>

lemma alias_pair:
  assumes "inv t" "fits b n" "fits a n" "ins b n m k t = Some t1" "ins a n m' k t1 = Some t2"
  shows "in_range b n p \<or> in_range a n p \<Longrightarrow> owner t2 p = Some k"
    and "c = a \<or> c = b \<Longrightarrow> \<exists>t3. del c t2 = Some t3 \<and> inv t3 \<and> (\<forall>p. owner t3 p \<noteq> Some k)"
proof -
  have i1: "inv t1" by (rule ins_inv [OF assms(1,2,4)])
  have i2: "inv t2" by (rule ins_inv [OF i1 assms(3,5)])
  have own: "owner t2 p = (if in_range a n p then Some k
      else if in_range b n p then Some k else owner t p)" for p
    by (simp add: ins_owner [OF i1 assms(3,5)] ins_owner [OF assms(1,2,4)])
  then show "in_range b n p \<or> in_range a n p \<Longrightarrow> owner t2 p = Some k" by auto
  have bas: "a \<in> bases t2" "b \<in> bases t2"
    by (simp_all add: ins_bases [OF i1 assms(3,5)] ins_bases [OF assms(1,2,4)])
  have oc: "c = a \<or> c = b \<Longrightarrow> owner t2 c = Some k"
    using own ins_bound [OF assms(1,2,4)] ins_bound [OF i1 assms(3,5)] by auto
  assume c: "c = a \<or> c = b"
  with bas obtain t3 where t3: "del c t2 = Some t3" using del_defined [OF i2] by blast
  show "\<exists>t3. del c t2 = Some t3 \<and> inv t3 \<and> (\<forall>p. owner t3 p \<noteq> Some k)"
    using t3 del_inv [OF i2 t3] by (auto simp: del_owner [OF i2 t3] oc [OF c] split: if_splits)
qed

text \<open>A second release of the same address is refused.\<close>

lemma del_twice: "inv t \<Longrightarrow> del b t = Some t' \<Longrightarrow> del b t' = None"
  using del_inv del_defined [of t' b] by (auto simp: del_bases)

end

section \<open>The table provides it\<close>

definition table_ins :: "u64 \<Rightarrow> u64 \<Rightarrow> AllocationKind \<times> u32 \<times> bool \<Rightarrow> nat \<Rightarrow> table \<Rightarrow> table option" where
  "table_ins base sz m buffer t =
     (case table_insert base sz (fst m) (fst (snd m)) (Some buffer) (snd (snd m)) t of
        Inl msg \<Rightarrow> None | Inr t' \<Rightarrow> Some t')"

definition table_del :: "u64 \<Rightarrow> table \<Rightarrow> table option" where
  "table_del base t = (if fst (table_erase base t) then Some (snd (table_erase base t)) else None)"

definition table_owner :: "table \<Rightarrow> u64 \<Rightarrow> nat option" where
  "table_owner t p = map_option r_buffer (table_resolve p t)"

definition table_bases :: "table \<Rightarrow> u64 set" where
  "table_bases t = fst ` set t"

lemma table_ins_Some:
  "table_ins base sz m k t = Some t' \<longleftrightarrow>
     table_insert base sz (fst m) (fst (snd m)) (Some k) (snd (snd m)) t = Inr t'"
  by (auto simp: table_ins_def split: sum.splits)

lemma table_owner_Some_iff:
  "table_inv t \<Longrightarrow> table_owner t p = Some k \<longleftrightarrow>
     (\<exists>x \<in> set t. covers x p \<and> e_buffer (snd x) = k)"
  by (fastforce simp: table_owner_def resolve_Some_iff resolved_at_def)

lemma table_owner_None_iff:
  "table_inv t \<Longrightarrow> table_owner t p = None \<longleftrightarrow> (\<forall>x \<in> set t. \<not> covers x p)"
  by (simp add: table_owner_def resolve_None_iff)

lemma covers_base: "entry_ok x \<Longrightarrow> covers x (fst x)"
  by (simp add: covers_def entry_ok_pos)

lemma no_overlap_iff_free:
  assumes "table_inv t" "sz \<noteq> 0"
  shows "(\<forall>x \<in> set t. \<not> overlaps base sz x) \<longleftrightarrow>
         (\<forall>p. in_range base sz p \<longrightarrow> table_owner t p = None)"
proof
  assume "\<forall>x \<in> set t. \<not> overlaps base sz x"
  then show "\<forall>p. in_range base sz p \<longrightarrow> table_owner t p = None"
    by (fastforce simp: table_owner_None_iff [OF assms(1)] overlaps_def in_range_def covers_def)
next
  assume free: "\<forall>p. in_range base sz p \<longrightarrow> table_owner t p = None"
  show "\<forall>x \<in> set t. \<not> overlaps base sz x"
  proof
    fix x assume x: "x \<in> set t"
    note ok = table_inv_entry [OF assms(1) x]
    have "\<not> in_range base sz (fst x)" "in_range base sz base"
      using free x covers_base [OF ok] table_owner_None_iff [OF assms(1)] assms(2)
      by (auto simp: in_range_def unat_gt_0)
    then have "\<not> covers x base"
      using free x table_owner_None_iff [OF assms(1)] by blast
    with \<open>\<not> in_range base sz (fst x)\<close> show "\<not> overlaps base sz x"
      by (auto simp: overlaps_def covers_def in_range_def)
  qed
qed

lemma table_insert_owner:
  assumes "table_inv t" "fits base sz"
    and ins: "table_insert base sz kind flags (Some k) al t = Inr t'"
  shows "table_owner t' p = (if in_range base sz p then Some k else table_owner t p)"
proof -
  note set' = table_insert_set [OF assms(1) assms(2) [unfolded fits_def] ins]
  have inv': "table_inv t'"
    using table_insert_inv [OF assms(1) assms(2) [unfolded fits_def] ins] .
  have new: "covers (base, e) p \<longleftrightarrow> in_range base sz p" if "e_size e = sz" for e
    using that by (simp add: covers_def in_range_def entry_end_def)
  show ?thesis
  proof (cases "in_range base sz p")
    case True
    then show ?thesis using new by (auto simp: table_owner_Some_iff [OF inv'] set')
  next
    case False
    have "table_owner t' p = Some j \<longleftrightarrow> table_owner t p = Some j" for j
      using False new
      by (auto simp: table_owner_Some_iff [OF inv'] table_owner_Some_iff [OF assms(1)] set')
    with False show ?thesis by (metis option.exhaust)
  qed
qed

lemma table_erase_owner:
  assumes "table_inv t" "table_del base t = Some t'"
  shows "table_owner t' p = (if table_owner t p = table_owner t base then None else table_owner t p)"
    and "table_bases t' = {c \<in> table_bases t. table_owner t c \<noteq> table_owner t base}"
proof -
  from assms(2) have "fst (table_erase base t)" by (simp add: table_del_def split: if_splits)
  then obtain e where e: "(base, e) \<in> set t" using table_erase_False [OF assms(1)] by auto
  note er = table_erase_set [OF assms(1) e]
  have ob: "table_owner t base = Some (e_buffer e)"
    using e covers_base [OF table_inv_entry [OF assms(1) e]]
    by (auto simp: table_owner_Some_iff [OF assms(1)])
  have t': "t' = filter (\<lambda>x. e_buffer (snd x) \<noteq> e_buffer e) t"
    using assms(2) er by (simp add: table_del_def)
  have inv': "table_inv t'" unfolding t' by (rule table_inv_filter [OF assms(1)])
  have set': "set t' = {x \<in> set t. e_buffer (snd x) \<noteq> e_buffer e}" unfolding t' by auto
  have own: "table_owner t' p = Some j \<longleftrightarrow> table_owner t p = Some j \<and> j \<noteq> e_buffer e" for p j
  proof -
    have "table_owner t' p = Some j \<longleftrightarrow> (\<exists>x. x \<in> set t \<and> covers x p \<and> e_buffer (snd x) = j \<and> j \<noteq> e_buffer e)"
      by (subst table_owner_Some_iff [OF inv']) (auto simp only: set' mem_Collect_eq Bex_def)
    then show ?thesis by (subst table_owner_Some_iff [OF assms(1)]) blast
  qed
  show "table_owner t' p = (if table_owner t p = table_owner t base then None else table_owner t p)"
  proof (cases "table_owner t p")
    case None
    then have "table_owner t' p \<noteq> Some j" for j using own [of p j] by simp
    then have "table_owner t' p = None" by (metis not_None_eq)
    then show ?thesis by (simp add: None)
  next
    case (Some i)
    show ?thesis
    proof (cases "i = e_buffer e")
      case True
      then have "table_owner t' p \<noteq> Some j" for j using own [of p j] Some by simp
      then have "table_owner t' p = None" by (metis not_None_eq)
      then show ?thesis using True Some ob by simp
    next
      case False
      then show ?thesis using own [of p i] Some ob by simp
    qed
  qed
  have oc: "table_owner t (fst x) = Some (e_buffer (snd x))" if "x \<in> set t" for x
    using that covers_base [OF table_inv_entry [OF assms(1) that]]
    by (auto simp: table_owner_Some_iff [OF assms(1)])
  show "table_bases t' = {c \<in> table_bases t. table_owner t c \<noteq> table_owner t base}"
    using oc ob by (auto simp: table_bases_def t')
qed

interpretation am: allocation_map table_inv table_ins table_del table_owner table_bases
proof (unfold_locales, goal_cases)
  case (1 t b n m k t')
  then show ?case by (auto simp: table_ins_Some fits_def intro: table_insert_inv)
next
  case (2 t b t')
  then show ?case using table_erase_inv [of t b] by (auto simp: table_del_def split: if_splits)
next
  case (3 t b n m k)
  then have "table_ins b n m k t \<noteq> None \<longleftrightarrow> b \<noteq> 0 \<and> n \<noteq> 0 \<and> (\<forall>x \<in> set t. \<not> overlaps b n x)"
    using table_insert_Inr_iff [of t b n "fst m" "fst (snd m)" "Some k" "snd (snd m)"]
    by (simp add: table_ins_Some fits_def)
  with 3 no_overlap_iff_free [of t n b] show ?case by blast
next
  case (4 t b n m k t' p)
  then show ?case unfolding table_ins_Some by (rule table_insert_owner)
next
  case (5 t b n m k t')
  then show ?case using table_insert_set [of t b n "fst m" "fst (snd m)" k "snd (snd m)" t']
    by (simp add: table_ins_Some fits_def table_bases_def)
next
  case (6 t b)
  then show ?case using table_erase_False [of t b] by (simp add: table_del_def table_bases_def)
next
  case (7 t b)
  then obtain x where x: "x \<in> set t" "b = fst x" by (auto simp: table_bases_def)
  then have "covers x b" using covers_base [OF table_inv_entry [OF 7(1) x(1)]] by simp
  with x(1) show ?case by (auto simp: table_owner_None_iff [OF 7(1)])
next
  case (8 t b t' p)
  then show ?case by (rule table_erase_owner)
next
  case (9 t b t')
  then show ?case by (rule table_erase_owner)
qed


section \<open>Histories\<close>

text \<open>
  The contract over time: the owner map and the set of bases that a sequence of insertions and
  releases leaves, stated without the table.
\<close>

datatype 'm map_op = Ins u64 u64 'm nat | Del u64

definition spec_step ::
  "'m map_op \<Rightarrow> (u64 \<Rightarrow> nat option) \<times> u64 set \<Rightarrow> (u64 \<Rightarrow> nat option) \<times> u64 set" where
  "spec_step op st = (case st of (own, bas) \<Rightarrow>
     (case op of
        Ins b n m k \<Rightarrow>
          if b \<noteq> 0 \<and> n \<noteq> 0 \<and> (\<forall>p. in_range b n p \<longrightarrow> own p = None)
          then ((\<lambda>p. if in_range b n p then Some k else own p), insert b bas)
          else (own, bas)
      | Del b \<Rightarrow>
          if b \<in> bas
          then ((\<lambda>p. if own p = own b then None else own p), {c \<in> bas. own c \<noteq> own b})
          else (own, bas)))"

fun op_fits :: "'m map_op \<Rightarrow> bool" where
  "op_fits (Ins b n m k) = fits b n"
| "op_fits (Del b) = True"

context allocation_map begin

primrec impl_step :: "'m map_op \<Rightarrow> 't \<Rightarrow> 't" where
  "impl_step (Ins b n m k) t = (case ins b n m k t of None \<Rightarrow> t | Some t' \<Rightarrow> t')"
| "impl_step (Del b) t = (case del b t of None \<Rightarrow> t | Some t' \<Rightarrow> t')"

lemma impl_step_inv: "inv t \<Longrightarrow> op_fits op \<Longrightarrow> inv (impl_step op t)"
  by (cases op) (auto split: option.splits intro: ins_inv del_inv)

lemma impl_step_refines:
  assumes "inv t" "op_fits op"
  shows "(owner (impl_step op t), bases (impl_step op t)) = spec_step op (owner t, bases t)"
proof (cases op)
  case (Ins b n m k)
  then have f: "fits b n" using assms(2) by simp
  show ?thesis
  proof (cases "ins b n m k t")
    case None
    then show ?thesis
      using ins_defined [OF assms(1) f, of m k] Ins by (auto simp: spec_step_def)
  next
    case (Some t')
    then show ?thesis
      using ins_defined [OF assms(1) f, of m k] Ins ins_owner [OF assms(1) f Some]
        ins_bases [OF assms(1) f Some] by (auto simp: spec_step_def)
  qed
next
  case (Del b)
  show ?thesis
  proof (cases "del b t")
    case None
    then show ?thesis using del_defined [OF assms(1), of b] Del by (auto simp: spec_step_def)
  next
    case (Some t')
    then show ?thesis
      using del_defined [OF assms(1), of b] Del del_owner [OF assms(1) Some]
        del_bases [OF assms(1) Some] by (auto simp: spec_step_def)
  qed
qed

lemma run_refines:
  "inv t \<Longrightarrow> \<forall>op \<in> set ops. op_fits op \<Longrightarrow>
     inv (fold impl_step ops t) \<and>
     (owner (fold impl_step ops t), bases (fold impl_step ops t)) = fold spec_step ops (owner t, bases t)"
proof (induction ops arbitrary: t)
  case Nil
  then show ?case by simp
next
  case (Cons op ops)
  then have f: "op_fits op" by simp
  have i: "inv (impl_step op t)" by (rule impl_step_inv [OF Cons.prems(1) f])
  from Cons.IH [OF i] Cons.prems(2) impl_step_refines [OF Cons.prems(1) f] show ?case by simp
qed

end

text \<open>The table's own steps: a rejected call leaves the table as it is.\<close>

definition table_step :: "(AllocationKind \<times> u32 \<times> bool) map_op \<Rightarrow> table \<Rightarrow> table" where
  "table_step op t = (case op of
     Ins b n m k \<Rightarrow> (case table_insert b n (fst m) (fst (snd m)) (Some k) (snd (snd m)) t of
                       Inl _ \<Rightarrow> t | Inr t' \<Rightarrow> t')
   | Del b \<Rightarrow> snd (table_erase b t))"

lemma table_step_impl: "table_step = allocation_map.impl_step table_ins table_del"
proof (intro ext)
  fix op :: "(AllocationKind \<times> u32 \<times> bool) map_op" and t
  show "table_step op t = allocation_map.impl_step table_ins table_del op t"
    by (cases op)
       (auto simp: table_step_def table_ins_def table_del_def table_erase_def am.impl_step.simps
         split: sum.splits option.splits)
qed

lemma table_history:
  assumes "\<forall>op \<in> set ops. op_fits op"
  shows "table_inv (fold table_step ops empty_table)"
    and "(table_owner (fold table_step ops empty_table), table_bases (fold table_step ops empty_table))
       = fold spec_step ops ((\<lambda>_. None), {})"
proof -
  have i: "table_inv empty_table" by (simp add: table_inv_def empty_table_def)
  have e: "table_owner empty_table = (\<lambda>_. None)" "table_bases empty_table = {}"
    by (auto simp: table_owner_def table_resolve_def up_to_def empty_table_def table_bases_def)
  from am.run_refines [OF i assms]
  show "table_inv (fold table_step ops empty_table)"
    "(table_owner (fold table_step ops empty_table), table_bases (fold table_step ops empty_table))
       = fold spec_step ops ((\<lambda>_. None), {})"
    by (simp_all add: table_step_impl e)
qed

text \<open>
  C1: after any history of insertions and releases whose ranges end below the top of the
  address space, the table assigns every address the buffer the abstract contract assigns it
  and answers releases for exactly the bases of that contract: a range is accepted exactly when
  none of its addresses is taken, and releasing one base releases every range of its buffer.
\<close>

theorem table_refines_contract:
  assumes "\<forall>op \<in> set ops. op_fits op"
  shows "(table_owner (fold table_step ops empty_table), table_bases (fold table_step ops empty_table))
       = fold spec_step ops ((\<lambda>_. None), {}) \<and>
     unat (table_total (fold table_step ops empty_table)) = live_bytes (fold table_step ops empty_table)"
  using table_history [OF assms] table_total_live by blast

theorem table_refines_contract_witness:
  "table_owner (fold table_step [Ins 4096 64 (KDevice, 0, False) 7, Ins 8192 64 (KDevice, 0, True) 7,
      Ins 4100 8 (KDevice, 0, False) 9, Del 8192] empty_table) 4100 = None"
proof -
  let ?ops = "[Ins 4096 64 (KDevice, 0, False) 7, Ins 8192 64 (KDevice, 0, True) 7,
      Ins 4100 8 (KDevice, 0, False) 9, Del 8192]"
  have f: "\<forall>op \<in> set ?ops. op_fits op" by (simp add: fits_def)
  have "fst (fold spec_step ?ops ((\<lambda>_. None), {})) 4100 = None"
    by (auto simp: spec_step_def in_range_def intro: exI [of _ "4100 :: u64"])
  with table_refines_contract [OF f] show ?thesis by (metis fst_conv)
qed

text \<open>
  What \<open>resolve\<close> answers, after any such history: the address lies at the given offset from
  a base in use, the reported remainder is the distance to the end of that allocation without
  wrap-around, and every address in the remainder resolves to the same buffer with the same kind
  and flags.
\<close>

lemma table_resolve_exact:
  assumes "\<forall>op \<in> set ops. op_fits op"
    and res: "table_resolve p (fold table_step ops empty_table) = Some r"
  shows "p - r_offset r \<in> table_bases (fold table_step ops empty_table) \<and> r_offset r \<le> p \<and>
    r_remaining r \<noteq> 0 \<and> fits p (r_remaining r) \<and>
    (\<forall>q. in_range p (r_remaining r) q \<longrightarrow>
      table_resolve q (fold table_step ops empty_table) =
        Some (r\<lparr>r_offset := r_offset r + (q - p), r_remaining := r_remaining r - (q - p)\<rparr>))"
proof -
  let ?t = "fold table_step ops empty_table"
  note inv = table_history(1) [OF assms(1)]
  from res obtain x where x: "x \<in> set ?t" "covers x p" and r: "r = resolved_at x p"
    by (auto simp: resolve_Some_iff [OF inv])
  have le: "fst x \<le> p" and lt: "unat p < entry_end x" using x(2) by (auto simp: covers_def word_nat)
  have off: "unat (p - fst x) = unat p - unat (fst x)" by (rule unat_sub_u64 [OF le])
  have "p - fst x \<le> e_size (snd x)"
    using lt off le by (simp add: word_nat entry_end_def)
  then have rem: "unat (r_remaining r) = entry_end x - unat p"
    using off le lt by (simp add: r resolved_at_def unat_sub_u64 entry_end_def word_nat)
  have "entry_end x < 18446744073709551616"
    using table_inv_entry [OF inv x(1)] by (simp add: entry_ok_def)
  then have "fits p (r_remaining r)" "r_remaining r \<noteq> 0"
    using rem lt by (auto simp: fits_def)
  moreover have "p - r_offset r = fst x" "r_offset r \<le> p"
    using off by (auto simp: r resolved_at_def word_nat)
  moreover have "table_resolve q ?t =
      Some (r\<lparr>r_offset := r_offset r + (q - p), r_remaining := r_remaining r - (q - p)\<rparr>)"
    if q: "in_range p (r_remaining r) q" for q
  proof -
    have "covers x q" using q rem x(2) by (auto simp: in_range_def covers_def)
    from resolve_covered [OF inv x(1) this] show ?thesis
      by (simp add: r resolved_at_def algebra_simps)
  qed
  ultimately show ?thesis using x(1) by (auto simp: table_bases_def)
qed

lemma table_resolve_exact_witness:
  "table_resolve 4150 (fold table_step [Ins 4096 64 (KHost, 5, False) 7] empty_table) =
     Some \<lparr>r_buffer = 7, r_offset = 54, r_remaining = 10, r_kind = KHost, r_flags = 5\<rparr>"
proof -
  let ?ops = "[Ins 4096 64 (KHost, 5, False) 7]"
  have f: "\<forall>op \<in> set ?ops. op_fits op" by (simp add: fits_def)
  have r: "table_resolve 4106 (fold table_step ?ops empty_table) =
      Some \<lparr>r_buffer = 7, r_offset = 10, r_remaining = 54, r_kind = KHost, r_flags = 5\<rparr>"
    by (simp add: table_step_def empty_table_def table_insert_def table_resolve_def up_to_def
        below_def from_key_def Let_def)
  have "in_range 4106 54 4150" by (simp add: in_range_def)
  with table_resolve_exact [OF f r] show ?thesis by simp
qed

text \<open>
  The overlap test of \<open>insert\<close> adds the size to the base in 64 bits.  A range whose end
  wraps past the top of the address space is accepted although it contains the whole of an
  existing allocation, and an address of the new range then still resolves to the old buffer.
\<close>

lemma table_insert_wrapped_overlap:
  "\<exists>t t'. table_insert 16 16 KDevice 0 (Some 1) False empty_table = Inr t \<and>
     table_insert 8 18446744073709551612 KDevice 0 (Some 2) False t = Inr t' \<and>
     t \<noteq> [] \<and> overlaps 8 18446744073709551612 (hd t) \<and>
     table_owner t' 20 = Some 1 \<and> table_resolve 8 t' = None"
  by (simp add: empty_table_def table_insert_def table_resolve_def up_to_def table_owner_def
      below_def from_key_def Let_def overlaps_def entry_end_def)

end
