(* ===== verification/RuntimeMemory.thy ===== *)
theory RuntimeMemory imports Allocation begin

text \<open>
  The memory calls of the CUDA runtime in \<open>runtime/rt/cuda_runtime.cpp\<close>: allocation and
  release, the pinned-host variants, the pointer queries, the choice of a copy direction, the
  bounds checks of pitched and three-dimensional copies, and the allocations a graph owns
  while it runs.  They are clients of the allocation table (theory \<open>Allocation\<close>).

  The Metal backend is not code this theory translates: a \<open>backend\<close> record holds what one call
  of the runtime gets from it (its status, the buffer it hands out, the two addresses of a
  buffer, the environment variable), and every theorem holds for all of them.
\<close>

section \<open>State\<close>

datatype cudaError =
    cudaSuccess
  | cudaErrorInvalidValue
  | cudaErrorMemoryAllocation
  | cudaErrorInvalidDevicePointer
  | cudaErrorInvalidResourceHandle
  | cudaErrorNotSupported
  | cudaErrorLaunchTimeout | cudaErrorNotReady | cudaErrorPeerAccessAlreadyEnabled
  | cudaErrorPeerAccessNotEnabled | cudaErrorDevicesUnavailable | cudaErrorIllegalAddress
  | cudaErrorLaunchOutOfResources | cudaErrorLaunchFailure | cudaErrorCooperativeLaunchTooLarge
  | cudaErrorNotPermitted | cudaErrorCallRequiresNewerDriver | cudaErrorGraphExecUpdateFailure
  | cudaErrorUnknown | cudaErrorAssert | cudaErrorInvalidDeviceFunction
  | cudaErrorInvalidConfiguration | cudaErrorInvalidDevice | cudaErrorInvalidMemcpyDirection
  | cudaErrorInsufficientDriver | cudaErrorNoDevice | cudaErrorOperatingSystem
  | cudaErrorCudartUnloading | cudaErrorInitializationError
  | cudaErrorBackend nat

record backend =
  be_init :: cudaError
  be_alloc :: "u64 \<Rightarrow> cudaError \<times> nat option"
  be_sync :: cudaError
  be_contents :: "nat \<Rightarrow> u64"
  be_device_address :: "nat \<Rightarrow> u64"
  be_env_addresses :: "string option"
  be_query :: cudaError
  be_total_mem :: u64

record GraphAllocationState =
  ga_buffer :: "nat option"
  ga_base :: u64
  ga_alias :: u64
  ga_size :: u64
  ga_active :: bool
  ga_reserved :: bool

text \<open>
  \<open>graph_objects\<close> is the store of the shared \<open>GraphAllocationState\<close> objects, by number; a
  \<open>weak_ptr\<close> whose object is gone finds \<open>None\<close> there.
\<close>

record runtime =
  last_error :: cudaError
  allocations :: table
  graph_objects :: "nat \<Rightarrow> GraphAllocationState option"
  graph_allocations :: "u64 \<Rightarrow> nat option"
  live_graph_allocations :: "u64 \<Rightarrow> nat option"
  graph_used_current :: u64
  graph_used_high :: u64
  graph_reserved_current :: u64
  graph_reserved_high :: u64

definition set_last_error :: "cudaError \<Rightarrow> runtime \<Rightarrow> runtime" where
  "set_last_error e s = s\<lparr>last_error := e\<rparr>"

text \<open>\<open>return fail(e)\<close>: the error becomes the thread's last error and the call's result; the
  second component is what the call stored through its output pointer.\<close>

definition fail :: "cudaError \<Rightarrow> 'o option \<Rightarrow> runtime \<Rightarrow> cudaError \<times> 'o option \<times> runtime" where
  "fail e out s = (e, out, set_last_error e s)"

definition use_metal_device_addresses :: "string option \<Rightarrow> bool" where
  "use_metal_device_addresses value =
     (case value of None \<Rightarrow> False
      | Some v \<Rightarrow> v \<noteq> [] \<and> v \<noteq> ''0'' \<and> v \<noteq> ''false'' \<and> v \<noteq> ''FALSE'')"

section \<open>Allocation and release\<close>

definition cudaMalloc :: "backend \<Rightarrow> bool \<Rightarrow> u64 \<Rightarrow> runtime \<Rightarrow> cudaError \<times> u64 option \<times> runtime" where
  "cudaMalloc be dev_ptr_null sz s =
     (if dev_ptr_null \<or> sz = 0 then fail cudaErrorInvalidValue None s
      else if be_init be \<noteq> cudaSuccess then fail (be_init be) None s
      else case be_alloc be sz of (alloc_status, buffer) \<Rightarrow>
        (case buffer of
           None \<Rightarrow> fail (if alloc_status = cudaSuccess then cudaErrorMemoryAllocation
                        else alloc_status) None s
         | Some b \<Rightarrow>
             if alloc_status \<noteq> cudaSuccess then fail alloc_status None s
             else let host_base = be_contents be b; device_base = be_device_address be b;
                      metal = use_metal_device_addresses (be_env_addresses be);
                      base = (if metal then device_base else host_base);
                      al = (if base = host_base then device_base else host_base)
             in if host_base = 0 \<or> metal \<and> device_base = 0
                then fail cudaErrorMemoryAllocation None s
                else (case table_insert base sz KDevice 0 (Some b) False (allocations s) of
                        Inl _ \<Rightarrow> fail cudaErrorMemoryAllocation None s
                      | Inr t1 \<Rightarrow>
                          if al \<noteq> 0 \<and> al \<noteq> base then
                            (case table_insert al sz KDevice 0 (Some b) True t1 of
                               Inl _ \<Rightarrow> fail cudaErrorMemoryAllocation None
                                         (s\<lparr>allocations := snd (table_erase base t1)\<rparr>)
                             | Inr t2 \<Rightarrow> fail cudaSuccess (Some base) (s\<lparr>allocations := t2\<rparr>))
                          else fail cudaSuccess (Some base) (s\<lparr>allocations := t1\<rparr>))))"

definition cudaMallocManaged ::
  "backend \<Rightarrow> bool \<Rightarrow> u64 \<Rightarrow> u32 \<Rightarrow> runtime \<Rightarrow> cudaError \<times> u64 option \<times> runtime" where
  "cudaMallocManaged be dev_ptr_null sz flags s =
     (if flags \<noteq> 0 \<and> flags \<noteq> 1 \<and> flags \<noteq> 2 then fail cudaErrorInvalidValue None s
      else cudaMalloc be dev_ptr_null sz s)"

unbundle bit_operations_syntax

text \<open>\<open>(width + kAlign - 1) & ~(kAlign - 1)\<close> with \<open>kAlign = 512\<close>.\<close>

definition pitch_of :: "u64 \<Rightarrow> u64" where
  "pitch_of width = (width + 512 - 1) AND NOT (512 - 1)"

text \<open>The output is the pitch, which is stored first, and the device pointer.\<close>

definition cudaMallocPitch ::
  "backend \<Rightarrow> bool \<Rightarrow> bool \<Rightarrow> u64 \<Rightarrow> u64 \<Rightarrow> runtime \<Rightarrow>
     cudaError \<times> (u64 \<times> u64 option) option \<times> runtime" where
  "cudaMallocPitch be dev_ptr_null pitch_null width height s =
     (if dev_ptr_null \<or> pitch_null then fail cudaErrorInvalidValue None s
      else case cudaMalloc be dev_ptr_null (pitch_of width * height) s of
             (e, p, s') \<Rightarrow> (e, Some (pitch_of width, p), s'))"

record cudaPitchedPtr =
  pp_ptr :: u64
  pp_pitch :: u64
  pp_xsize :: u64
  pp_ysize :: u64

record cudaExtent =
  ex_width :: u64
  ex_height :: u64
  ex_depth :: u64

definition cudaMalloc3D ::
  "backend \<Rightarrow> bool \<Rightarrow> cudaExtent \<Rightarrow> runtime \<Rightarrow> cudaError \<times> cudaPitchedPtr option \<times> runtime" where
  "cudaMalloc3D be ptr_null ext s =
     (if ptr_null then fail cudaErrorInvalidValue None s
      else if ex_width ext = 0 \<or> ex_height ext = 0 \<or> ex_depth ext = 0
      then fail cudaSuccess (Some \<lparr>pp_ptr = 0, pp_pitch = 0, pp_xsize = ex_width ext,
                                  pp_ysize = ex_height ext\<rparr>) s
      else let pitch = pitch_of (ex_width ext) in
        case cudaMalloc be False (pitch * ex_height ext * ex_depth ext) s of
          (err, p, s') \<Rightarrow>
            (case p of
               None \<Rightarrow> (err, None, s')
             | Some ptr \<Rightarrow>
                 if err \<noteq> cudaSuccess then (err, None, s')
                 else fail cudaSuccess (Some \<lparr>pp_ptr = ptr, pp_pitch = pitch,
                        pp_xsize = ex_width ext, pp_ysize = ex_height ext\<rparr>) s'))"

definition validate_host_alloc_flags :: "u32 \<Rightarrow> cudaError" where
  "validate_host_alloc_flags flags =
     (if flags AND NOT (1 OR 2 OR 4) \<noteq> 0 then cudaErrorInvalidValue else cudaSuccess)"

definition cudaHostAlloc ::
  "backend \<Rightarrow> bool \<Rightarrow> u64 \<Rightarrow> u32 \<Rightarrow> runtime \<Rightarrow> cudaError \<times> u64 option \<times> runtime" where
  "cudaHostAlloc be ptr_null sz flags s =
     (if ptr_null \<or> sz = 0 then fail cudaErrorInvalidValue None s
      else if validate_host_alloc_flags flags \<noteq> cudaSuccess
      then fail (validate_host_alloc_flags flags) None s
      else if be_init be \<noteq> cudaSuccess then fail (be_init be) None s
      else case be_alloc be sz of (alloc_status, buffer) \<Rightarrow>
        (case buffer of
           None \<Rightarrow> fail (if alloc_status = cudaSuccess then cudaErrorMemoryAllocation
                        else alloc_status) None s
         | Some b \<Rightarrow>
             if alloc_status \<noteq> cudaSuccess then fail alloc_status None s
             else let base = be_contents be b; device_alias = be_device_address be b
             in if base = 0 then fail cudaErrorMemoryAllocation None s
                else (case table_insert base sz KHost flags (Some b) False (allocations s) of
                        Inl _ \<Rightarrow> fail cudaErrorMemoryAllocation None s
                      | Inr t1 \<Rightarrow>
                          if device_alias \<noteq> 0 \<and> device_alias \<noteq> base then
                            (case table_insert device_alias sz KHost flags (Some b) True t1 of
                               Inl _ \<Rightarrow> fail cudaErrorMemoryAllocation None
                                         (s\<lparr>allocations := snd (table_erase base t1)\<rparr>)
                             | Inr t2 \<Rightarrow> fail cudaSuccess (Some base) (s\<lparr>allocations := t2\<rparr>))
                          else fail cudaSuccess (Some base) (s\<lparr>allocations := t1\<rparr>))))"

definition cudaMallocHost :: "backend \<Rightarrow> bool \<Rightarrow> u64 \<Rightarrow> runtime \<Rightarrow> cudaError \<times> u64 option \<times> runtime" where
  "cudaMallocHost be ptr_null sz s = cudaHostAlloc be ptr_null sz 0 s"

definition validate_host_register_flags :: "u32 \<Rightarrow> cudaError" where
  "validate_host_register_flags flags =
     (if flags AND NOT (1 OR 2 OR 4 OR 8) \<noteq> 0 then cudaErrorInvalidValue else cudaSuccess)"

definition cudaHostRegister ::
  "backend \<Rightarrow> u64 \<Rightarrow> u64 \<Rightarrow> u32 \<Rightarrow> runtime \<Rightarrow> cudaError \<times> unit option \<times> runtime" where
  "cudaHostRegister be ptr sz flags s =
     (if ptr = 0 \<or> sz = 0 then fail cudaErrorInvalidValue None s
      else if validate_host_register_flags flags \<noteq> cudaSuccess
      then fail (validate_host_register_flags flags) None s
      else if be_init be \<noteq> cudaSuccess then fail (be_init be) None s
      else fail cudaSuccess None s)"

definition cudaHostUnregister :: "backend \<Rightarrow> u64 \<Rightarrow> runtime \<Rightarrow> cudaError \<times> unit option \<times> runtime" where
  "cudaHostUnregister be ptr s =
     (if ptr = 0 then fail cudaErrorInvalidValue None s
      else if be_init be \<noteq> cudaSuccess then fail (be_init be) None s
      else fail cudaSuccess None s)"

section \<open>Graph-owned allocations\<close>

definition activate_graph_allocation :: "nat option \<Rightarrow> runtime \<Rightarrow> cudaError \<times> runtime" where
  "activate_graph_allocation allocation s =
     (case allocation of
        None \<Rightarrow> (cudaErrorInvalidValue, s)
      | Some i \<Rightarrow>
        (case graph_objects s i of
           None \<Rightarrow> (cudaErrorInvalidValue, s)
         | Some g \<Rightarrow>
           if ga_buffer g = None \<or> ga_base g = 0 \<or> ga_size g = 0 then (cudaErrorInvalidValue, s)
           else if ga_active g then (cudaErrorInvalidValue, s)
           else (case table_insert (ga_base g) (ga_size g) KDevice 0 (ga_buffer g) False (allocations s) of
                   Inl _ \<Rightarrow> (cudaErrorMemoryAllocation, s)
                 | Inr t1 \<Rightarrow>
                     (case (if ga_alias g \<noteq> 0 \<and> ga_alias g \<noteq> ga_base g
                            then table_insert (ga_alias g) (ga_size g) KDevice 0 (ga_buffer g) True t1
                            else Inr t1) of
                        Inl _ \<Rightarrow> (cudaErrorMemoryAllocation,
                                  s\<lparr>allocations := snd (table_erase (ga_base g) t1)\<rparr>)
                      | Inr t2 \<Rightarrow>
                          let used = graph_used_current s + ga_size g
                          in (cudaSuccess,
                              s\<lparr>allocations := t2,
                                graph_objects := (graph_objects s)(i \<mapsto> g\<lparr>ga_active := True\<rparr>),
                                live_graph_allocations := (live_graph_allocations s)(ga_base g \<mapsto> i),
                                graph_used_current := used,
                                graph_used_high := max (graph_used_high s) used\<rparr>)))))"

definition deactivate_graph_allocation :: "nat option \<Rightarrow> runtime \<Rightarrow> cudaError \<times> runtime" where
  "deactivate_graph_allocation allocation s =
     (case allocation of
        None \<Rightarrow> (cudaErrorInvalidValue, s)
      | Some i \<Rightarrow>
        (case graph_objects s i of
           None \<Rightarrow> (cudaErrorInvalidValue, s)
         | Some g \<Rightarrow>
           if \<not> ga_active g then (cudaErrorInvalidValue, s)
           else if \<not> fst (table_erase (ga_base g) (allocations s))
           then (cudaErrorInvalidDevicePointer, s)
           else (cudaSuccess,
                 s\<lparr>allocations := snd (table_erase (ga_base g) (allocations s)),
                   graph_objects := (graph_objects s)(i \<mapsto> g\<lparr>ga_active := False\<rparr>),
                   live_graph_allocations := (live_graph_allocations s)(ga_base g := None),
                   graph_used_current := (if graph_used_current s < ga_size g then 0
                                          else graph_used_current s - ga_size g)\<rparr>)))"

text \<open>The destructor of a graph allocation; the object itself goes away with it.\<close>

definition release_graph_allocation :: "nat option \<Rightarrow> runtime \<Rightarrow> runtime" where
  "release_graph_allocation allocation s =
     (case allocation of
        None \<Rightarrow> s
      | Some i \<Rightarrow>
        (case graph_objects s i of
           None \<Rightarrow> s
         | Some g \<Rightarrow>
           let s1 = (if ga_active g
                     then s\<lparr>allocations := snd (table_erase (ga_base g) (allocations s)),
                            graph_used_current := (if graph_used_current s < ga_size g then 0
                                                   else graph_used_current s - ga_size g)\<rparr>
                     else s);
               s2 = (if ga_reserved g
                     then s1\<lparr>graph_reserved_current :=
                               (if graph_reserved_current s1 < ga_size g then 0
                                else graph_reserved_current s1 - ga_size g)\<rparr>
                     else s1)
           in s2\<lparr>graph_allocations := (graph_allocations s2)(ga_base g := None),
                 live_graph_allocations := (live_graph_allocations s2)(ga_base g := None),
                 graph_objects := (graph_objects s2)(i := None)\<rparr>))"

text \<open>
  \<open>cudaFree\<close>: an address a graph allocation owns is released through that object, an expired
  weak pointer is dropped from the map, and every other address goes to the table.
\<close>

definition cudaFree :: "backend \<Rightarrow> u64 \<Rightarrow> runtime \<Rightarrow> cudaError \<times> unit option \<times> runtime" where
  "cudaFree be dev_ptr s =
     (if dev_ptr = 0 then fail cudaSuccess None s
      else if be_init be \<noteq> cudaSuccess then fail (be_init be) None s
      else if be_sync be \<noteq> cudaSuccess then fail (be_sync be) None s
      else case graph_allocations s dev_ptr of
             Some i \<Rightarrow>
               (case graph_objects s i of
                  Some _ \<Rightarrow> (case deactivate_graph_allocation (Some i) s of
                              (status, s') \<Rightarrow> fail status None s')
                | None \<Rightarrow>
                    let s1 = s\<lparr>graph_allocations := (graph_allocations s)(dev_ptr := None)\<rparr>
                    in if \<not> fst (table_erase dev_ptr (allocations s1))
                       then fail cudaErrorInvalidDevicePointer None s1
                       else fail cudaSuccess None
                              (s1\<lparr>allocations := snd (table_erase dev_ptr (allocations s1))\<rparr>))
           | None \<Rightarrow>
               if \<not> fst (table_erase dev_ptr (allocations s))
               then fail cudaErrorInvalidDevicePointer None s
               else fail cudaSuccess None
                      (s\<lparr>allocations := snd (table_erase dev_ptr (allocations s))\<rparr>))"

definition cudaFreeHost :: "backend \<Rightarrow> u64 \<Rightarrow> runtime \<Rightarrow> cudaError \<times> unit option \<times> runtime" where
  "cudaFreeHost be ptr s = cudaFree be ptr s"

section \<open>Pointer queries\<close>

definition is_device_pointer :: "u64 \<Rightarrow> runtime \<Rightarrow> bool" where
  "is_device_pointer ptr s = (ptr \<noteq> 0 \<and> table_resolve ptr (allocations s) \<noteq> None)"

text \<open>\<open>None\<close> is the null pointer: the range asked for does not fit in the allocation.\<close>

definition host_accessible_pointer :: "backend \<Rightarrow> u64 \<Rightarrow> u64 \<Rightarrow> runtime \<Rightarrow> u64 option" where
  "host_accessible_pointer be ptr cnt s =
     (if ptr = 0 then None
      else case table_resolve ptr (allocations s) of
             None \<Rightarrow> Some ptr
           | Some r \<Rightarrow>
               if r_remaining r < cnt \<or> be_contents be (r_buffer r) = 0 then None
               else Some (be_contents be (r_buffer r) + r_offset r))"

definition cudaHostGetDevicePointer ::
  "backend \<Rightarrow> bool \<Rightarrow> u64 \<Rightarrow> u32 \<Rightarrow> runtime \<Rightarrow> cudaError \<times> u64 option \<times> runtime" where
  "cudaHostGetDevicePointer be dev_ptr_null host_ptr flags s =
     (if dev_ptr_null \<or> host_ptr = 0 \<or> flags \<noteq> 0 then fail cudaErrorInvalidValue None s
      else if be_init be \<noteq> cudaSuccess then fail (be_init be) None s
      else case table_resolve host_ptr (allocations s) of
             None \<Rightarrow> fail cudaErrorInvalidValue None s
           | Some r \<Rightarrow>
               if r_kind r \<noteq> KHost then fail cudaErrorInvalidValue None s
               else fail cudaSuccess
                      (Some (if use_metal_device_addresses (be_env_addresses be)
                             then be_device_address be (r_buffer r) + r_offset r
                             else host_ptr)) s)"

definition cudaHostGetFlags ::
  "backend \<Rightarrow> bool \<Rightarrow> u64 \<Rightarrow> runtime \<Rightarrow> cudaError \<times> u32 option \<times> runtime" where
  "cudaHostGetFlags be flags_null host_ptr s =
     (if flags_null \<or> host_ptr = 0 then fail cudaErrorInvalidValue None s
      else if be_init be \<noteq> cudaSuccess then fail (be_init be) None s
      else case table_resolve host_ptr (allocations s) of
             None \<Rightarrow> fail cudaErrorInvalidValue None s
           | Some r \<Rightarrow>
               if r_offset r \<noteq> 0 \<or> r_kind r \<noteq> KHost then fail cudaErrorInvalidValue None s
               else fail cudaSuccess (Some (r_flags r)) s)"

text \<open>The two outputs are the start and the size of the containing allocation.\<close>

definition cumetalRuntimeGetAllocationInfo :: "u64 \<Rightarrow> runtime \<Rightarrow> (u64 \<times> u64) option" where
  "cumetalRuntimeGetAllocationInfo ptr s =
     (if ptr = 0 then None
      else case table_resolve ptr (allocations s) of
             None \<Rightarrow> None
           | Some r \<Rightarrow> Some (ptr - r_offset r, r_offset r + r_remaining r))"

definition cudaMemGetInfo ::
  "backend \<Rightarrow> bool \<Rightarrow> runtime \<Rightarrow> cudaError \<times> (u64 \<times> u64) option \<times> runtime" where
  "cudaMemGetInfo be out_null s =
     (if out_null then fail cudaErrorInvalidValue None s
      else if be_init be \<noteq> cudaSuccess then fail (be_init be) None s
      else if be_query be \<noteq> cudaSuccess then fail (be_query be) None s
      else let allocated = table_total (allocations s); total = be_total_mem be
           in fail cudaSuccess
                (Some (if total \<le> allocated then 0 else total - allocated, total)) s)"

section \<open>Copies\<close>

datatype cudaMemcpyKind =
    cudaMemcpyHostToHost | cudaMemcpyHostToDevice | cudaMemcpyDeviceToHost
  | cudaMemcpyDeviceToDevice | cudaMemcpyDefault | MemcpyKindOther nat

definition validate_memcpy_kind :: "cudaMemcpyKind \<Rightarrow> cudaError" where
  "validate_memcpy_kind kind =
     (case kind of MemcpyKindOther _ \<Rightarrow> cudaErrorInvalidValue | _ \<Rightarrow> cudaSuccess)"

definition resolve_memcpy_kind ::
  "u64 \<Rightarrow> u64 \<Rightarrow> cudaMemcpyKind \<Rightarrow> runtime \<Rightarrow> cudaError + cudaMemcpyKind" where
  "resolve_memcpy_kind dst src kind s =
     (if validate_memcpy_kind kind \<noteq> cudaSuccess then Inl (validate_memcpy_kind kind)
      else let dst_is_device = is_device_pointer dst s; src_is_device = is_device_pointer src s
      in case kind of
           cudaMemcpyDefault \<Rightarrow>
             Inr (if dst_is_device \<and> src_is_device then cudaMemcpyDeviceToDevice
                  else if dst_is_device \<and> \<not> src_is_device then cudaMemcpyHostToDevice
                  else if \<not> dst_is_device \<and> src_is_device then cudaMemcpyDeviceToHost
                  else cudaMemcpyHostToHost)
         | cudaMemcpyHostToDevice \<Rightarrow>
             if \<not> dst_is_device then Inl cudaErrorInvalidDevicePointer else Inr kind
         | cudaMemcpyDeviceToHost \<Rightarrow>
             if \<not> src_is_device then Inl cudaErrorInvalidDevicePointer else Inr kind
         | cudaMemcpyDeviceToDevice \<Rightarrow>
             if \<not> dst_is_device \<or> \<not> src_is_device then Inl cudaErrorInvalidDevicePointer
             else Inr kind
         | _ \<Rightarrow> Inr kind)"

definition checked_multiply :: "u64 \<Rightarrow> u64 \<Rightarrow> u64 option" where
  "checked_multiply lhs rhs =
     (if lhs \<noteq> 0 \<and> (- 1) div lhs < rhs then None else Some (lhs * rhs))"

record cudaPos =
  pos_x :: u64
  pos_y :: u64
  pos_z :: u64

definition linear_3d_span ::
  "cudaPitchedPtr \<Rightarrow> cudaPos \<Rightarrow> u64 \<Rightarrow> u64 \<Rightarrow> u64 \<Rightarrow> u64 option" where
  "linear_3d_span pointer position width_bytes height depth =
     (if pp_ptr pointer = 0 then None
      else let pitch = (if pp_pitch pointer = 0 then width_bytes else pp_pitch pointer);
               plane_height = (if pp_ysize pointer = 0 then height else pp_ysize pointer)
      in if pitch < pos_x position \<or> pitch - pos_x position < width_bytes \<or>
            plane_height < pos_y position \<or> plane_height - pos_y position < height then None
      else case checked_multiply pitch plane_height of
             None \<Rightarrow> None
           | Some plane_size \<Rightarrow>
             let maximum = (- 1 :: u64)
             in if maximum - (depth - 1) < pos_z position \<or>
                   maximum - (height - 1) < pos_y position then None
             else let last_plane = pos_z position + depth - 1;
                      last_row = pos_y position + height - 1
             in case checked_multiply last_plane plane_size of
                  None \<Rightarrow> None
                | Some plane_offset \<Rightarrow>
                    (case checked_multiply last_row pitch of
                       None \<Rightarrow> None
                     | Some row_offset \<Rightarrow>
                         if maximum - row_offset < plane_offset \<or>
                            maximum - pos_x position < plane_offset + row_offset \<or>
                            maximum - width_bytes < plane_offset + row_offset + pos_x position
                         then None
                         else Some (plane_offset + row_offset + pos_x position + width_bytes)))"

record cudaMemsetParams =
  ms_dst :: u64
  ms_pitch :: u64
  ms_value :: u32
  ms_elementSize :: u32
  ms_width :: u64
  ms_height :: u64

definition validate_graph_memset_params :: "cudaMemsetParams option \<Rightarrow> bool" where
  "validate_graph_memset_params params =
     (case params of
        None \<Rightarrow> False
      | Some p \<Rightarrow>
          if ms_dst p = 0 \<or> ms_width p = 0 \<or> ms_height p = 0 \<or>
             (ms_elementSize p \<noteq> 1 \<and> ms_elementSize p \<noteq> 2 \<and> ms_elementSize p \<noteq> 4) \<or>
             (- 1) div ucast (ms_elementSize p) < ms_width p
          then False
          else let row_bytes = ms_width p * ucast (ms_elementSize p);
                   pitch = (if ms_pitch p = 0 then row_bytes else ms_pitch p)
               in row_bytes \<le> pitch \<and> ms_height p - 1 \<le> (- 1 - row_bytes) div pitch)"

section \<open>Pointers embedded in copied data\<close>

text \<open>
  A copied aggregate may hold device pointers.  On the way to the device every aligned
  eight-byte field that resolves is moved to the buffer's GPU address, on the way back to its
  host address.  Fields are little-endian on the platform.
\<close>

definition relocate_word :: "backend \<Rightarrow> table \<Rightarrow> u64 \<Rightarrow> u64" where
  "relocate_word be t candidate =
     (if candidate = 0 then candidate
      else case table_resolve candidate t of
             None \<Rightarrow> candidate
           | Some r \<Rightarrow>
               let gpu_base = be_device_address be (r_buffer r)
               in if gpu_base = 0 \<or> - 1 - r_offset r < gpu_base then candidate
                  else gpu_base + r_offset r)"

definition restore_word :: "backend \<Rightarrow> table \<Rightarrow> u64 \<Rightarrow> u64" where
  "restore_word be t candidate =
     (if candidate = 0 then candidate
      else case table_resolve candidate t of
             None \<Rightarrow> candidate
           | Some r \<Rightarrow>
               let host_base = be_contents be (r_buffer r)
               in if host_base = 0 \<or> - 1 - r_offset r < host_base then candidate
                  else host_base + r_offset r)"

function map_words :: "(u64 \<Rightarrow> u64) \<Rightarrow> bytes \<Rightarrow> bytes" where
  "map_words f bs =
     (if length bs < 8 then bs
      else le_bytes 8 (unat (f (of_nat (le_value (take 8 bs))))) @ map_words f (drop 8 bs))"
  by pat_completeness auto
termination
  by (relation "measure (\<lambda>(f, bs). length bs)") auto

declare map_words.simps [simp del]

definition relocate_embedded_device_pointers :: "backend \<Rightarrow> table \<Rightarrow> bytes \<Rightarrow> bytes" where
  "relocate_embedded_device_pointers be t bs = map_words (relocate_word be t) bs"

definition restore_embedded_host_pointers :: "backend \<Rightarrow> table \<Rightarrow> bytes \<Rightarrow> bytes" where
  "restore_embedded_host_pointers be t bs = map_words (restore_word be t) bs"

section \<open>Arithmetic of the copy checks\<close>

lemma and_not_511: "(w :: u64) AND NOT 511 = w - w mod 512"
proof -
  have m: "(511 :: u64) = mask 9" by (simp add: mask_eq_exp_minus_1)
  have "w mod 512 = take_bit 9 w" by (simp add: take_bit_eq_mod)
  moreover have "w - take_bit 9 w = w AND NOT (take_bit 9 w)"
    by (rule disjunctive_diff) (simp add: bit_take_bit_iff)
  moreover have "w AND NOT (take_bit 9 w) = w AND NOT (mask 9)"
    by (rule bit_eqI) (auto simp: bit_and_iff bit_not_iff bit_take_bit_iff bit_mask_iff)
  ultimately show ?thesis using m by simp
qed

lemma unat_pitch_of:
  assumes "unat width + 511 < 18446744073709551616"
  shows "unat (pitch_of width) = (unat width + 511) - (unat width + 511) mod 512"
proof -
  have "width + 512 - 1 = width + 511" by simp
  moreover have u: "unat (width + 511) = unat width + 511"
    using assms by (simp add: unat_add_u64)
  moreover have "(width + 511) mod 512 \<le> width + 511"
    by (simp add: word_nat unat_mod)
  moreover have "(512 :: u64) - 1 = 511" by simp
  ultimately show ?thesis
    unfolding pitch_of_def by (simp only: and_not_511 unat_sub_u64 unat_mod) simp
qed

lemma unat_max_u64: "unat (- 1 :: u64) = 18446744073709551615"
  by (simp add: unsigned_minus_1_eq_mask mask_eq_exp_minus_1)

lemma checked_multiply_Some:
  "checked_multiply a b = Some c \<longleftrightarrow> unat a * unat b < 18446744073709551616 \<and> c = a * b"
proof -
  have "unat b \<le> 18446744073709551615 div unat a \<longleftrightarrow> unat a * unat b < 18446744073709551616"
    if "a \<noteq> 0"
    using that by (simp add: less_eq_div_iff_mult_less_eq unat_gt_0 mult.commute) linarith
  moreover have "unat ((- 1 :: u64) div a) = 18446744073709551615 div unat a"
    by (simp add: unat_div unat_max_u64)
  ultimately show ?thesis
    by (cases "a = 0") (auto simp: checked_multiply_def word_nat not_less)
qed

lemma unat_mult_u64: "unat a * unat b < 18446744073709551616 \<Longrightarrow> unat (a * b :: u64) = unat a * unat b"
  by (simp add: unat_word_ariths)

lemma u64_max_sub: "unat (- 1 - a :: u64) = 18446744073709551615 - unat a"
proof -
  have "unat a \<le> 18446744073709551615" using u64_bound [of a] by linarith
  then show ?thesis by (subst unat_sub_u64) (simp_all add: unat_max_u64 word_nat)
qed

lemma not_less_max_sub:
  "\<not> - 1 - a < (b :: u64) \<Longrightarrow> unat b \<le> 18446744073709551615 - unat a"
  by (simp only: u64_less u64_max_sub not_less)

lemma unat_pred_u64: "a \<noteq> 0 \<Longrightarrow> unat (a - 1 :: u64) = unat a - 1"
  by (subst unat_sub_u64) (simp_all add: word_nat unat_gt_0 Suc_le_eq)

text \<open>The value of \<open>linear_3d_span\<close>, as an exact sum.\<close>

lemma linear_3d_span_value:
  assumes "linear_3d_span pointer position width_bytes height depth = Some span"
    and "height \<noteq> 0" "depth \<noteq> 0"
  defines "pitch \<equiv> (if pp_pitch pointer = 0 then width_bytes else pp_pitch pointer)"
    and "plane \<equiv> (if pp_ysize pointer = 0 then height else pp_ysize pointer)"
  shows "unat span = (unat (pos_z position) + unat depth - 1) * (unat pitch * unat plane)
      + (unat (pos_y position) + unat height - 1) * unat pitch
      + unat (pos_x position) + unat width_bytes"
    and "unat (pos_x position) + unat width_bytes \<le> unat pitch"
    and "unat (pos_y position) + unat height \<le> unat plane"
proof -
  obtain plane_size plane_offset row_offset where
      fit: "\<not> pitch < pos_x position" "\<not> pitch - pos_x position < width_bytes"
        "\<not> plane < pos_y position" "\<not> plane - pos_y position < height"
      and ps: "checked_multiply pitch plane = Some plane_size"
      and top: "\<not> - 1 - (depth - 1) < pos_z position" "\<not> - 1 - (height - 1) < pos_y position"
      and po: "checked_multiply (pos_z position + depth - 1) plane_size = Some plane_offset"
      and ro: "checked_multiply (pos_y position + height - 1) pitch = Some row_offset"
      and sums: "\<not> - 1 - row_offset < plane_offset"
        "\<not> - 1 - pos_x position < plane_offset + row_offset"
        "\<not> - 1 - width_bytes < plane_offset + row_offset + pos_x position"
      and span: "span = plane_offset + row_offset + pos_x position + width_bytes"
    using assms(1) unfolding linear_3d_span_def Let_def pitch_def [symmetric] plane_def [symmetric]
    by (auto split: if_splits option.splits)
  have z: "unat (pos_z position + depth - 1) = unat (pos_z position) + unat depth - 1"
  proof -
    have "unat (pos_z position) + (unat depth - 1) \<le> 18446744073709551615"
      using not_less_max_sub [OF top(1)] unat_pred_u64 [OF assms(3)] u64_bound [of depth] by linarith
    moreover have "0 < unat depth" using assms(3) by (simp add: unat_gt_0)
    ultimately have "unat (pos_z position + (depth - 1)) = unat (pos_z position) + unat depth - 1"
      using unat_pred_u64 [OF assms(3)] unat_add_u64_exact [of "pos_z position" "depth - 1"] by linarith
    then show ?thesis by (simp only: add_diff_eq)
  qed
  have y: "unat (pos_y position + height - 1) = unat (pos_y position) + unat height - 1"
  proof -
    have "unat (pos_y position) + (unat height - 1) \<le> 18446744073709551615"
      using not_less_max_sub [OF top(2)] unat_pred_u64 [OF assms(2)] u64_bound [of height] by linarith
    moreover have "0 < unat height" using assms(2) by (simp add: unat_gt_0)
    ultimately have "unat (pos_y position + (height - 1)) = unat (pos_y position) + unat height - 1"
      using unat_pred_u64 [OF assms(2)] unat_add_u64_exact [of "pos_y position" "height - 1"] by linarith
    then show ?thesis by (simp only: add_diff_eq)
  qed
  have ps': "unat plane_size = unat pitch * unat plane"
    using ps by (simp add: checked_multiply_Some unat_mult_u64)
  have po': "unat plane_offset = (unat (pos_z position) + unat depth - 1) * (unat pitch * unat plane)"
    using po by (simp add: checked_multiply_Some unat_mult_u64 z ps')
  have ro': "unat row_offset = (unat (pos_y position) + unat height - 1) * unat pitch"
    using ro by (simp add: checked_multiply_Some unat_mult_u64 y)
  have s1: "unat (plane_offset + row_offset) = unat plane_offset + unat row_offset"
    using not_less_max_sub [OF sums(1)] u64_bound [of row_offset]
    by (intro unat_add_u64_exact) linarith
  have s2: "unat (plane_offset + row_offset + pos_x position)
      = unat plane_offset + unat row_offset + unat (pos_x position)"
    using not_less_max_sub [OF sums(2)] u64_bound [of "pos_x position"] s1
    by (subst unat_add_u64_exact) linarith+
  have s3: "unat span = unat plane_offset + unat row_offset + unat (pos_x position) + unat width_bytes"
    unfolding span
    using not_less_max_sub [OF sums(3)] u64_bound [of width_bytes] s2
    by (subst unat_add_u64_exact) linarith+
  then show "unat span = (unat (pos_z position) + unat depth - 1) * (unat pitch * unat plane)
      + (unat (pos_y position) + unat height - 1) * unat pitch
      + unat (pos_x position) + unat width_bytes"
    by (simp only: po' ro')
  show "unat (pos_x position) + unat width_bytes \<le> unat pitch"
    using fit(1,2) by (simp add: word_nat not_less unat_sub_u64)
  show "unat (pos_y position) + unat height \<le> unat plane"
    using fit(3,4) by (simp add: word_nat not_less unat_sub_u64)
qed

text \<open>
  C3: a byte span that \<open>linear_3d_span\<close> returns covers every byte of the copied box: for
  every column, row and plane of the box, the byte offset computed without wrap-around lies
  below the span.
\<close>

theorem linear_3d_span_covers:
  assumes "linear_3d_span pointer position width_bytes height depth = Some span"
    and "x < unat width_bytes" "y < unat height" "z < unat depth"
  defines "pitch \<equiv> unat (if pp_pitch pointer = 0 then width_bytes else pp_pitch pointer)"
    and "plane \<equiv> unat (if pp_ysize pointer = 0 then height else pp_ysize pointer)"
  shows "(unat (pos_z position) + z) * (pitch * plane) + (unat (pos_y position) + y) * pitch
       + unat (pos_x position) + x < unat span"
proof -
  have nz: "height \<noteq> 0" "depth \<noteq> 0" using assms(3,4) by auto
  note val = linear_3d_span_value(1) [OF assms(1) nz, folded pitch_def plane_def]
  have "unat (pos_z position) + z \<le> unat (pos_z position) + unat depth - 1" using assms(4) by simp
  then have "(unat (pos_z position) + z) * (pitch * plane)
      \<le> (unat (pos_z position) + unat depth - 1) * (pitch * plane)" by (rule mult_le_mono1)
  moreover have "unat (pos_y position) + y \<le> unat (pos_y position) + unat height - 1" using assms(3) by simp
  then have "(unat (pos_y position) + y) * pitch
      \<le> (unat (pos_y position) + unat height - 1) * pitch" by (rule mult_le_mono1)
  ultimately show ?thesis using assms(2) unfolding val by linarith
qed

theorem linear_3d_span_covers_witness:
  "linear_3d_span \<lparr>pp_ptr = 16, pp_pitch = 8, pp_xsize = 8, pp_ysize = 2\<rparr>
      \<lparr>pos_x = 1, pos_y = 0, pos_z = 0\<rparr> 4 2 2 = Some 29 \<and>
   (0 + 1) * (8 * 2) + (0 + 1) * 8 + 1 + 3 < (29 :: nat)"
proof -
  let ?p = "\<lparr>pp_ptr = 16, pp_pitch = 8, pp_xsize = 8, pp_ysize = 2\<rparr>"
  let ?o = "\<lparr>pos_x = 1, pos_y = 0, pos_z = 0\<rparr>"
  have r: "linear_3d_span ?p ?o 4 2 2 = Some 29"
    by (simp add: linear_3d_span_def checked_multiply_def Let_def)
  show ?thesis using linear_3d_span_covers [OF r, of 3 1 1] r by simp
qed



section \<open>Allocation and release\<close>

text \<open>A buffer the backend hands out is new, and its two address ranges do not wrap.\<close>

definition fresh_buffer :: "nat \<Rightarrow> table \<Rightarrow> bool" where
  "fresh_buffer b t \<longleftrightarrow> (\<forall>x \<in> set t. e_buffer (snd x) \<noteq> b)"

definition backend_ok :: "backend \<Rightarrow> u64 \<Rightarrow> table \<Rightarrow> bool" where
  "backend_ok be sz t \<longleftrightarrow> (\<forall>b. snd (be_alloc be sz) = Some b \<longrightarrow>
     fresh_buffer b t \<and> fits (be_contents be b) sz \<and> fits (be_device_address be b) sz)"

lemma fresh_owner: "table_inv t \<Longrightarrow> fresh_buffer b t \<Longrightarrow> table_owner t p \<noteq> Some b"
  by (auto simp: table_owner_Some_iff fresh_buffer_def)

lemma filter_below_from [simp]: "filter P (below k t) @ filter P (from_key k t) = filter P t"
  by (metis below_from_key filter_append)

lemma insert_erase_fresh:
  assumes "table_inv t" "fits base sz" "fresh_buffer b t"
    and ins: "table_insert base sz kind flags (Some b) al t = Inr t1"
  shows "table_erase base t1 = (True, t)"
proof -
  have shape: "t1 = below base t @ (base, \<lparr>e_size = sz, e_kind = kind, e_flags = flags, e_buffer = b,
      e_alias = al\<rparr>) # from_key base t"
    using table_insert_shape [OF assms(1) assms(2) [unfolded fits_def] ins] by auto
  have inv1: "table_inv t1" using table_insert_inv [OF assms(1) assms(2) [unfolded fits_def] ins] .
  have keep: "filter (\<lambda>x. e_buffer (snd x) \<noteq> b) t = t"
    using assms(3) by (simp add: fresh_buffer_def)
  have "filter (\<lambda>x. e_buffer (snd x) \<noteq> b) t1 = t"
    unfolding shape using keep by simp
  moreover have "(base, \<lparr>e_size = sz, e_kind = kind, e_flags = flags, e_buffer = b, e_alias = al\<rparr>) \<in> set t1"
    unfolding shape by simp
  ultimately show ?thesis using table_erase_set [OF inv1] by fastforce
qed

lemma insert_pair_erase:
  assumes "table_inv t" "fits b n" "fits a n" "fresh_buffer k t"
    and i1: "table_insert b n kind flags (Some k) al t = Inr t1"
    and i2: "table_insert a n kind' flags' (Some k) al' t1 = Inr t2"
  shows "table_erase b t2 = (True, t)" and "table_erase a t2 = (True, t)"
proof -
  have inv1: "table_inv t1" using table_insert_inv [OF assms(1) assms(2) [unfolded fits_def] i1] .
  have inv2: "table_inv t2" using table_insert_inv [OF inv1 assms(3) [unfolded fits_def] i2] .
  have keep: "filter (\<lambda>x. e_buffer (snd x) \<noteq> k) t = t"
    using assms(4) by (simp add: fresh_buffer_def)
  have f1: "filter (\<lambda>x. e_buffer (snd x) \<noteq> k) t1 = filter (\<lambda>x. e_buffer (snd x) \<noteq> k) t"
    using table_insert_shape [OF assms(1) assms(2) [unfolded fits_def] i1] by auto
  have "filter (\<lambda>x. e_buffer (snd x) \<noteq> k) t2 = filter (\<lambda>x. e_buffer (snd x) \<noteq> k) t1"
    using table_insert_shape [OF inv1 assms(3) [unfolded fits_def] i2] by auto
  then have f2: "filter (\<lambda>x. e_buffer (snd x) \<noteq> k) t2 = t"
    by (simp only: f1 keep)
  note s2 = table_insert_set [OF inv1 assms(3) [unfolded fits_def] i2]
  note s1 = table_insert_set [OF assms(1) assms(2) [unfolded fits_def] i1]
  have "(b, \<lparr>e_size = n, e_kind = kind, e_flags = flags, e_buffer = k, e_alias = al\<rparr>) \<in> set t2"
    by (simp add: s2 s1)
  from table_erase_set [OF inv2 this] f2 show "table_erase b t2 = (True, t)" by simp
  have "(a, \<lparr>e_size = n, e_kind = kind', e_flags = flags', e_buffer = k, e_alias = al'\<rparr>) \<in> set t2"
    by (simp add: s2)
  from table_erase_set [OF inv2 this] f2 show "table_erase a t2 = (True, t)" by simp
qed

text \<open>The part of \<open>cudaMalloc\<close> after the backend call, as the three ways it can end.\<close>

lemma cudaMalloc_cases:
  assumes "cudaMalloc be False sz s = (e, out, s')"
  shows "(e \<noteq> cudaSuccess \<and> out = None \<and> allocations s' = allocations s) \<or>
    (\<exists>b base t1 al. be_alloc be sz = (cudaSuccess, Some b) \<and> e \<noteq> cudaSuccess \<and> out = None \<and>
       {base, al} = {be_contents be b, be_device_address be b} \<and>
       table_insert base sz KDevice 0 (Some b) False (allocations s) = Inr t1 \<and>
       allocations s' = snd (table_erase base t1)) \<or>
    (\<exists>b base t1. be_alloc be sz = (cudaSuccess, Some b) \<and> e = cudaSuccess \<and> out = Some base \<and>
       base \<in> {be_contents be b, be_device_address be b} \<and>
       table_insert base sz KDevice 0 (Some b) False (allocations s) = Inr t1 \<and>
       (allocations s' = t1 \<or>
        (\<exists>al \<in> {be_contents be b, be_device_address be b}. al \<noteq> base \<and>
           table_insert al sz KDevice 0 (Some b) True t1 = Inr (allocations s'))))"
  using assms
  by (auto simp: cudaMalloc_def fail_def set_last_error_def Let_def
      split: if_splits prod.splits option.splits sum.splits)

lemma cudaMalloc_table:
  assumes inv: "table_inv (allocations s)" and ok: "backend_ok be sz (allocations s)"
    and call: "cudaMalloc be False sz s = (e, out, s')"
  shows "e \<noteq> cudaSuccess \<Longrightarrow> out = None \<and> allocations s' = allocations s"
    and "e = cudaSuccess \<Longrightarrow> \<exists>p b. out = Some p \<and> fits p sz \<and> fresh_buffer b (allocations s) \<and>
      (\<exists>t1. table_insert p sz KDevice 0 (Some b) False (allocations s) = Inr t1 \<and>
        (allocations s' = t1 \<or> (\<exists>al. fits al sz \<and> al \<noteq> p \<and>
           table_insert al sz KDevice 0 (Some b) True t1 = Inr (allocations s'))))"
proof -
  note cs = cudaMalloc_cases [OF call]
  have fit: "fits x sz \<and> fresh_buffer b (allocations s)"
    if "be_alloc be sz = (cudaSuccess, Some b)" "x \<in> {be_contents be b, be_device_address be b}" for b x
    using ok that by (auto simp: backend_ok_def)
  show "out = None \<and> allocations s' = allocations s" if "e \<noteq> cudaSuccess"
    using cs
  proof (elim disjE exE conjE)
    fix b base t1 al
    assume a: "be_alloc be sz = (cudaSuccess, Some b)" "out = None"
      "{base, al} = {be_contents be b, be_device_address be b}"
      "table_insert base sz KDevice 0 (Some b) False (allocations s) = Inr t1"
      "allocations s' = snd (table_erase base t1)"
    from a(3) have "base \<in> {be_contents be b, be_device_address be b}" by auto
    from insert_erase_fresh [OF inv _ _ a(4)] fit [OF a(1) this] a(2,5)
    show ?thesis by simp
  qed (use that in auto)
  show "\<exists>p b. out = Some p \<and> fits p sz \<and> fresh_buffer b (allocations s) \<and>
      (\<exists>t1. table_insert p sz KDevice 0 (Some b) False (allocations s) = Inr t1 \<and>
        (allocations s' = t1 \<or> (\<exists>al. fits al sz \<and> al \<noteq> p \<and>
           table_insert al sz KDevice 0 (Some b) True t1 = Inr (allocations s'))))"
    if "e = cudaSuccess"
    using cs
  proof (elim disjE exE conjE)
    fix b base t1
    assume a: "be_alloc be sz = (cudaSuccess, Some b)" "out = Some base"
      "base \<in> {be_contents be b, be_device_address be b}"
      "table_insert base sz KDevice 0 (Some b) False (allocations s) = Inr t1"
      "allocations s' = t1"
    then show ?thesis using fit [OF a(1,3)] by auto
  next
    fix b base t1
    assume a: "be_alloc be sz = (cudaSuccess, Some b)" "out = Some base"
      "base \<in> {be_contents be b, be_device_address be b}"
      "table_insert base sz KDevice 0 (Some b) False (allocations s) = Inr t1"
      "\<exists>al \<in> {be_contents be b, be_device_address be b}. al \<noteq> base \<and>
         table_insert al sz KDevice 0 (Some b) True t1 = Inr (allocations s')"
    then obtain al where "al \<in> {be_contents be b, be_device_address be b}" "al \<noteq> base"
      "table_insert al sz KDevice 0 (Some b) True t1 = Inr (allocations s')" by blast
    then show ?thesis using fit [OF a(1)] a by blast
  qed (use that in auto)
qed

lemma insert_resolve_base:
  assumes "table_inv t" "fits p sz"
    and ins: "table_insert p sz kind flags (Some b) al t = Inr t'"
    and inv2: "table_inv t2" "set t' \<subseteq> set t2"
  shows "table_resolve p t2 = Some \<lparr>r_buffer = b, r_offset = 0, r_remaining = sz,
           r_kind = kind, r_flags = flags\<rparr>"
proof -
  let ?x = "(p, \<lparr>e_size = sz, e_kind = kind, e_flags = flags, e_buffer = b, e_alias = al\<rparr>)"
  have "?x \<in> set t'"
    using table_insert_set [OF assms(1) assms(2) [unfolded fits_def] ins] by simp
  then have x: "?x \<in> set t2" using inv2(2) by blast
  have "covers ?x p" using covers_base [OF table_inv_entry [OF inv2(1) x]] by simp
  from resolve_covered [OF inv2(1) x this] show ?thesis by (simp add: resolved_at_def)
qed

lemma cudaMalloc_inv:
  assumes inv: "table_inv (allocations s)" and ok: "backend_ok be sz (allocations s)"
    and call: "cudaMalloc be False sz s = (e, out, s')"
  shows "table_inv (allocations s')"
proof (cases "e = cudaSuccess")
  case False
  then show ?thesis using cudaMalloc_table(1) [OF inv ok call] inv by simp
next
  case True
  from cudaMalloc_table(2) [OF inv ok call True] obtain p b t1 where
      fp: "fits p sz"
      and i1: "table_insert p sz KDevice 0 (Some b) False (allocations s) = Inr t1"
      and rest: "allocations s' = t1 \<or> (\<exists>al. fits al sz \<and> al \<noteq> p \<and>
          table_insert al sz KDevice 0 (Some b) True t1 = Inr (allocations s'))" by blast
  have "table_inv t1" using table_insert_inv [OF inv fp [unfolded fits_def] i1] .
  then show ?thesis using rest table_insert_inv by (auto simp: fits_def)
qed

text \<open>
  A failing \<open>cudaMalloc\<close> stores no pointer and leaves the allocation table as it was, and
  a successful one returns a pointer that resolves to the new buffer at offset 0 with the whole
  size remaining; no address of the new range belonged to an allocation before, and every
  address that did keeps its buffer.
\<close>

lemma cudaMalloc_correct:
  assumes inv: "table_inv (allocations s)" and ok: "backend_ok be sz (allocations s)"
    and call: "cudaMalloc be False sz s = (e, out, s')"
  shows "table_inv (allocations s') \<and>
    (if e \<noteq> cudaSuccess then out = None \<and> allocations s' = allocations s
     else \<exists>p b. out = Some p \<and> p \<noteq> 0 \<and>
      table_resolve p (allocations s') = Some \<lparr>r_buffer = b, r_offset = 0, r_remaining = sz,
                                              r_kind = KDevice, r_flags = 0\<rparr> \<and>
      (\<forall>q. in_range p sz q \<longrightarrow> table_owner (allocations s) q = None \<and>
                             table_owner (allocations s') q = Some b) \<and>
      (\<forall>q. table_owner (allocations s) q \<noteq> None \<longrightarrow>
           table_owner (allocations s') q = table_owner (allocations s) q))"
proof (cases "e = cudaSuccess")
  case False
  then show ?thesis using cudaMalloc_table(1) [OF inv ok call] inv by simp
next
  case True
  let ?t = "allocations s" and ?t' = "allocations s'"
  from cudaMalloc_table(2) [OF inv ok call True] obtain p b t1 where
      out: "out = Some p" and fp: "fits p sz" and fresh: "fresh_buffer b ?t"
      and i1: "table_insert p sz KDevice 0 (Some b) False ?t = Inr t1"
      and rest: "?t' = t1 \<or> (\<exists>al. fits al sz \<and> al \<noteq> p \<and>
          table_insert al sz KDevice 0 (Some b) True t1 = Inr ?t')" by blast
  have inv1: "table_inv t1" using table_insert_inv [OF inv fp [unfolded fits_def] i1] .
  have o1: "table_owner t1 q = (if in_range p sz q then Some b else table_owner ?t q)" for q
    by (rule table_insert_owner [OF inv fp i1])
  have free: "in_range p sz q \<Longrightarrow> table_owner ?t q = None" for q
    using am.ins_defined [OF inv fp, of "(KDevice, 0, False)" b] i1
    by (auto simp: table_ins_def)
  have nz: "p \<noteq> 0" using table_insert_shape [OF inv fp [unfolded fits_def] i1] by auto
  have later: "table_inv ?t' \<and> set t1 \<subseteq> set ?t' \<and>
      (\<forall>q. table_owner t1 q \<noteq> None \<longrightarrow> table_owner ?t' q = table_owner t1 q)"
    using rest
  proof (elim disjE exE conjE)
    assume "?t' = t1"
    then show ?thesis using inv1 by simp
  next
    fix al
    assume a: "fits al sz" "table_insert al sz KDevice 0 (Some b) True t1 = Inr ?t'"
    have "table_owner ?t' q = (if in_range al sz q then Some b else table_owner t1 q)" for q
      by (rule table_insert_owner [OF inv1 a])
    moreover have "in_range al sz q \<Longrightarrow> table_owner t1 q = None" for q
      using am.ins_defined [OF inv1 a(1), of "(KDevice, 0, True)" b] a(2)
      by (auto simp: table_ins_def)
    ultimately show ?thesis
      using table_insert_inv [OF inv1 a(1) [unfolded fits_def] a(2)]
        table_insert_set [OF inv1 a(1) [unfolded fits_def] a(2)] by auto
  qed
  have "table_resolve p ?t' = Some \<lparr>r_buffer = b, r_offset = 0, r_remaining = sz,
      r_kind = KDevice, r_flags = 0\<rparr>"
    using insert_resolve_base [OF inv fp i1] later by blast
  moreover have "in_range p sz q \<Longrightarrow> table_owner ?t' q = Some b" for q
    using later o1 [of q] by simp
  moreover have "table_owner ?t q \<noteq> None \<Longrightarrow> table_owner ?t' q = table_owner ?t q" for q
    using later o1 [of q] free [of q] by (cases "in_range p sz q") simp_all
  ultimately show ?thesis using True out nz free later by auto
qed

text \<open>A backend whose buffers live at 4096 (host) and 8192 (GPU), and an idle runtime.\<close>

definition sample_backend :: backend where
  "sample_backend = \<lparr>be_init = cudaSuccess, be_alloc = (\<lambda>sz. (cudaSuccess, Some 7)),
     be_sync = cudaSuccess, be_contents = (\<lambda>b. 4096), be_device_address = (\<lambda>b. 8192),
     be_env_addresses = None, be_query = cudaSuccess, be_total_mem = 1048576\<rparr>"

definition sample_runtime :: runtime where
  "sample_runtime = \<lparr>last_error = cudaSuccess, allocations = [], graph_objects = (\<lambda>_. None),
     graph_allocations = (\<lambda>_. None), live_graph_allocations = (\<lambda>_. None),
     graph_used_current = 0, graph_used_high = 0, graph_reserved_current = 0,
     graph_reserved_high = 0\<rparr>"

definition sample_table :: table where
  "sample_table =
     [(4096, \<lparr>e_size = 64, e_kind = KDevice, e_flags = 0, e_buffer = 7, e_alias = False\<rparr>),
      (8192, \<lparr>e_size = 64, e_kind = KDevice, e_flags = 0, e_buffer = 7, e_alias = True\<rparr>)]"

lemma sample_empty: "table_inv (allocations sample_runtime)"
    "backend_ok sample_backend 64 (allocations sample_runtime)"
  by (simp_all add: table_inv_def sample_runtime_def backend_ok_def sample_backend_def
      fresh_buffer_def fits_def)

lemma sample_malloc:
  "cudaMalloc sample_backend False 64 sample_runtime =
     (cudaSuccess, Some 4096, sample_runtime\<lparr>allocations := sample_table\<rparr>)"
  by (simp add: cudaMalloc_def sample_backend_def sample_runtime_def sample_table_def
      use_metal_device_addresses_def fail_def set_last_error_def table_insert_def
      below_def from_key_def Let_def)

lemma cudaMalloc_correct_witness:
  "\<exists>b. table_resolve 4096 sample_table = Some \<lparr>r_buffer = b, r_offset = 0, r_remaining = 64,
     r_kind = KDevice, r_flags = 0\<rparr> \<and> table_owner sample_table 4100 = Some b"
proof -
  have "in_range 4096 64 4100" by (simp add: in_range_def)
  with cudaMalloc_correct [OF sample_empty sample_malloc] show ?thesis by auto
qed

lemma cudaMalloc_frame:
  "cudaMalloc be dn sz s = (e, out, s') \<Longrightarrow> graph_allocations s' = graph_allocations s \<and>
     graph_objects s' = graph_objects s \<and> graph_used_current s' = graph_used_current s"
  by (auto simp: cudaMalloc_def fail_def set_last_error_def Let_def
      split: if_splits prod.splits option.splits sum.splits)

lemma cudaFree_plain:
  assumes "dev_ptr \<noteq> 0" "be_init be = cudaSuccess" "be_sync be = cudaSuccess"
    and "graph_allocations s dev_ptr = None"
  shows "cudaFree be dev_ptr s =
    (if fst (table_erase dev_ptr (allocations s))
     then (cudaSuccess, None, s\<lparr>allocations := snd (table_erase dev_ptr (allocations s)),
                                last_error := cudaSuccess\<rparr>)
     else (cudaErrorInvalidDevicePointer, None, s\<lparr>last_error := cudaErrorInvalidDevicePointer\<rparr>))"
  using assms by (simp add: cudaFree_def fail_def set_last_error_def)

lemma cudaMalloc_erase:
  assumes inv: "table_inv (allocations s)" and ok: "backend_ok be sz (allocations s)"
    and call: "cudaMalloc be False sz s = (cudaSuccess, Some p, s')"
    and q: "q \<in> table_bases (allocations s')"
      "table_owner (allocations s') q = table_owner (allocations s') p"
  shows "q \<noteq> 0 \<and> table_erase q (allocations s') = (True, allocations s) \<and>
    q \<notin> table_bases (allocations s)"
proof -
  let ?t = "allocations s" and ?t' = "allocations s'"
  from cudaMalloc_table(2) [OF inv ok call refl] obtain b t1 where
      fp: "fits p sz" and fresh: "fresh_buffer b ?t"
      and i1: "table_insert p sz KDevice 0 (Some b) False ?t = Inr t1"
      and rest: "?t' = t1 \<or> (\<exists>al. fits al sz \<and> al \<noteq> p \<and>
          table_insert al sz KDevice 0 (Some b) True t1 = Inr ?t')" by blast
  have inv1: "table_inv t1" using table_insert_inv [OF inv fp [unfolded fits_def] i1] .
  have inv': "table_inv ?t'" by (rule cudaMalloc_inv [OF inv ok call])
  have ep: "table_erase p ?t' = (True, ?t)"
    using rest insert_erase_fresh [OF inv fp fresh i1] insert_pair_erase [OF inv fp _ fresh i1] by blast
  have pin: "table_owner ?t' p = Some b"
  proof -
    have "set t1 \<subseteq> set ?t'"
      using rest table_insert_set [OF inv1] by (auto simp: fits_def)
    from insert_resolve_base [OF inv fp i1 inv' this] show ?thesis by (simp add: table_owner_def)
  qed
  from q(1) obtain e where e: "(q, e) \<in> set ?t'" by (auto simp: table_bases_def)
  note oke = table_inv_entry [OF inv' e]
  have "table_owner ?t' q = Some (e_buffer e)"
    using e covers_base [OF oke] by (auto simp: table_owner_Some_iff [OF inv'])
  with q(2) pin have eb: "e_buffer e = b" by simp
  have "p \<in> table_bases ?t'"
    using ep table_erase_False [OF inv', of p] by (simp add: table_bases_def)
  then obtain f where f: "(p, f) \<in> set ?t'" by (auto simp: table_bases_def)
  have "e_buffer f = b"
    using pin f covers_base [OF table_inv_entry [OF inv' f]] table_owner_Some_iff [OF inv', of p "e_buffer f"]
    by auto
  then have "table_erase q ?t' = (True, ?t)"
    using table_erase_set [OF inv' e] table_erase_set [OF inv' f] ep eb by simp
  moreover have "q \<noteq> 0" using oke by (simp add: entry_ok_def)
  moreover have "q \<notin> table_bases ?t"
  proof
    assume "q \<in> table_bases ?t"
    moreover have "?t = filter (\<lambda>x. e_buffer (snd x) \<noteq> b) ?t'"
      using ep table_erase_set [OF inv' f] \<open>e_buffer f = b\<close> by simp
    ultimately obtain g where "(q, g) \<in> set ?t'" "e_buffer g \<noteq> b"
      unfolding table_bases_def by fastforce
    then show False using map_of_table [OF inv', of q] e eb by (metis option.inject)
  qed
  ultimately show ?thesis by blast
qed

text \<open>
  C2: freeing what \<open>cudaMalloc\<close> returned, through the returned pointer or through the alias
  registered for the same buffer, restores the allocation table exactly, and freeing any such
  pointer a second time reports an invalid device pointer and changes no allocation.
\<close>

theorem cudaMalloc_cudaFree:
  assumes inv: "table_inv (allocations s)" and ok: "backend_ok be sz (allocations s)"
    and call: "cudaMalloc be False sz s = (cudaSuccess, Some p, s')"
    and q: "q \<in> table_bases (allocations s')"
      "table_owner (allocations s') q = table_owner (allocations s') p"
    and plain: "graph_allocations s q = None"
    and up: "be_init be' = cudaSuccess" "be_sync be' = cudaSuccess"
  shows "\<exists>s''. cudaFree be' q s' = (cudaSuccess, None, s'') \<and> allocations s'' = allocations s \<and>
    cudaFree be' q s'' = (cudaErrorInvalidDevicePointer, None,
                           s''\<lparr>last_error := cudaErrorInvalidDevicePointer\<rparr>)"
proof -
  note er = cudaMalloc_erase [OF inv ok call q]
  have g: "graph_allocations s' q = None" using cudaMalloc_frame [OF call] plain by simp
  have "\<not> fst (table_erase q (allocations s))"
    using er table_erase_False [OF inv, of q] by (simp add: table_bases_def)
  then show ?thesis
    using er g up by (simp add: cudaFree_plain)
qed

theorem cudaMalloc_cudaFree_witness:
  "\<exists>s''. cudaFree sample_backend 8192 (sample_runtime\<lparr>allocations := sample_table\<rparr>)
       = (cudaSuccess, None, s'') \<and> allocations s'' = [] \<and>
     cudaFree sample_backend 8192 s'' = (cudaErrorInvalidDevicePointer, None,
        s''\<lparr>last_error := cudaErrorInvalidDevicePointer\<rparr>)"
proof -
  let ?s = "sample_runtime\<lparr>allocations := sample_table\<rparr>"
  have q: "8192 \<in> table_bases (allocations ?s)"
    "table_owner (allocations ?s) 8192 = table_owner (allocations ?s) 4096"
    by (simp_all add: table_bases_def sample_table_def table_owner_def table_resolve_def up_to_def)
  have p: "graph_allocations sample_runtime 8192 = None" "be_init sample_backend = cudaSuccess"
    "be_sync sample_backend = cudaSuccess" "allocations sample_runtime = []"
    by (simp_all add: sample_runtime_def sample_backend_def)
  from cudaMalloc_cudaFree [OF sample_empty sample_malloc q p(1-3)] p(4) show ?thesis by simp
qed

text \<open>
  \<open>host_accessible_pointer\<close> hands out a host address for a known allocation only when the
  requested byte count ends inside that allocation, and then at the same byte offset.
\<close>

lemma host_accessible_pointer_bounds:
  assumes "table_inv (allocations s)" "x \<in> set (allocations s)" "covers x ptr"
    and "host_accessible_pointer be ptr cnt s = Some h"
  shows "unat ptr + unat cnt \<le> entry_end x \<and>
    h = be_contents be (e_buffer (snd x)) + (ptr - fst x) \<and> be_contents be (e_buffer (snd x)) \<noteq> 0"
proof -
  note r = resolve_covered [OF assms(1-3)]
  have le: "unat (ptr - fst x) = unat ptr - unat (fst x)" "unat (fst x) \<le> unat ptr"
    using assms(3) by (simp_all add: covers_def unat_sub_u64 word_nat)
  have "ptr - fst x \<le> e_size (snd x)"
    using assms(3) le by (simp add: word_nat covers_def entry_end_def)
  then have "unat (e_size (snd x) - (ptr - fst x)) = unat (e_size (snd x)) - (unat ptr - unat (fst x))"
    by (simp add: unat_sub_u64 le)
  then show ?thesis
    using assms(3,4) r le
    by (auto simp: host_accessible_pointer_def resolved_at_def covers_def entry_end_def word_nat
        split: if_splits)
qed

lemma sample_table_inv: "table_inv sample_table"
  by (simp add: table_inv_def sample_table_def entry_ok_def entry_end_def)

lemma host_accessible_pointer_bounds_witness:
  "unat (8200 :: u64) + 40 \<le> entry_end (sample_table ! 1) \<and>
   host_accessible_pointer sample_backend 8200 40
     (sample_runtime\<lparr>allocations := sample_table\<rparr>) = Some 4104"
proof -
  let ?s = "sample_runtime\<lparr>allocations := sample_table\<rparr>"
  have c: "sample_table ! 1 \<in> set (allocations ?s)" "covers (sample_table ! 1) 8200"
    and h: "host_accessible_pointer sample_backend 8200 40 ?s = Some 4104"
    by (simp_all add: sample_table_def covers_def entry_end_def host_accessible_pointer_def
        table_resolve_def up_to_def sample_backend_def)
  have "table_inv (allocations ?s)" by (simp add: sample_table_inv)
  from host_accessible_pointer_bounds [OF this c h] h show ?thesis by simp
qed

text \<open>
  Activating a graph allocation and deactivating it again returns the table and the
  used-memory counter of the graph pool to what they were.
\<close>

lemma graph_allocation_roundtrip:
  assumes inv: "table_inv (allocations s)"
    and g: "graph_objects s i = Some g" "ga_buffer g = Some b" "fresh_buffer b (allocations s)"
    and fit: "fits (ga_base g) (ga_size g)" "fits (ga_alias g) (ga_size g)"
    and room: "unat (graph_used_current s) + unat (ga_size g) < 18446744073709551616"
    and act: "activate_graph_allocation (Some i) s = (cudaSuccess, s1)"
  shows "\<exists>s2. deactivate_graph_allocation (Some i) s1 = (cudaSuccess, s2) \<and>
    allocations s2 = allocations s \<and> graph_used_current s2 = graph_used_current s \<and>
    graph_objects s2 i = Some (g\<lparr>ga_active := False\<rparr>) \<and> graph_used_current s \<le> graph_used_high s1"
proof -
  from act g obtain t1 t2 where
      i1: "table_insert (ga_base g) (ga_size g) KDevice 0 (Some b) False (allocations s) = Inr t1"
      and i2: "(if ga_alias g \<noteq> 0 \<and> ga_alias g \<noteq> ga_base g
           then table_insert (ga_alias g) (ga_size g) KDevice 0 (Some b) True t1 else Inr t1) = Inr t2"
      and s1: "s1 = s\<lparr>allocations := t2, graph_objects := (graph_objects s)(i \<mapsto> g\<lparr>ga_active := True\<rparr>),
           live_graph_allocations := (live_graph_allocations s)(ga_base g \<mapsto> i),
           graph_used_current := graph_used_current s + ga_size g,
           graph_used_high := max (graph_used_high s) (graph_used_current s + ga_size g)\<rparr>"
    by (auto simp: activate_graph_allocation_def Let_def split: if_splits sum.splits)
  have er: "table_erase (ga_base g) t2 = (True, allocations s)"
    using i2 insert_erase_fresh [OF inv fit(1) g(3) i1] insert_pair_erase(1) [OF inv fit g(3) i1]
    by (auto split: if_splits)
  have sum: "unat (graph_used_current s + ga_size g) = unat (graph_used_current s) + unat (ga_size g)"
    using room by (rule unat_add_u64_exact)
  then have "\<not> graph_used_current s + ga_size g < ga_size g"
    "graph_used_current s \<le> graph_used_current s + ga_size g" by (simp_all add: word_nat)
  then show ?thesis
    using er unfolding s1 by (auto simp: deactivate_graph_allocation_def le_max_iff_disj)
qed

lemma graph_allocation_roundtrip_witness:
  "\<exists>s1 s2. deactivate_graph_allocation (Some 0) s1 = (cudaSuccess, s2) \<and>
     allocations s1 = sample_table \<and> allocations s2 = [] \<and> graph_used_current s2 = 0"
proof -
  let ?g = "\<lparr>ga_buffer = Some 7, ga_base = 4096, ga_alias = 8192, ga_size = 64,
     ga_active = False, ga_reserved = False\<rparr>"
  let ?s = "sample_runtime\<lparr>graph_objects := [0 \<mapsto> ?g]\<rparr>"
  have a: "activate_graph_allocation (Some 0) ?s = (cudaSuccess,
      ?s\<lparr>allocations := sample_table, graph_objects := [0 \<mapsto> ?g\<lparr>ga_active := True\<rparr>],
        live_graph_allocations := [4096 \<mapsto> 0], graph_used_current := 64, graph_used_high := 64\<rparr>)"
    by (simp add: activate_graph_allocation_def sample_runtime_def sample_table_def
        table_insert_def below_def from_key_def Let_def max_def)
  have "\<exists>s2. deactivate_graph_allocation (Some 0) (?s\<lparr>allocations := sample_table,
        graph_objects := [0 \<mapsto> ?g\<lparr>ga_active := True\<rparr>],
        live_graph_allocations := [4096 \<mapsto> 0], graph_used_current := 64, graph_used_high := 64\<rparr>)
      = (cudaSuccess, s2) \<and> allocations s2 = [] \<and> graph_used_current s2 = 0"
    using graph_allocation_roundtrip [OF _ _ _ _ _ _ _ a, of ?g 7]
    by (auto simp: sample_runtime_def table_inv_def fresh_buffer_def fits_def)
  then show ?thesis by fastforce
qed

section \<open>Pitched allocations\<close>

lemma cudaMalloc_owned:
  assumes inv: "table_inv (allocations s)" and ok: "backend_ok be sz (allocations s)"
    and call: "cudaMalloc be False sz s = (cudaSuccess, out, s')"
  shows "\<exists>p b. out = Some p \<and> fits p sz \<and>
    (\<forall>q. in_range p sz q \<longrightarrow> table_owner (allocations s') q = Some b)"
proof -
  from cudaMalloc_table(2) [OF inv ok call refl] obtain p b t1 where
      out: "out = Some p" and fp: "fits p sz"
      and i1: "table_insert p sz KDevice 0 (Some b) False (allocations s) = Inr t1"
      and rest: "allocations s' = t1 \<or> (\<exists>al. fits al sz \<and> al \<noteq> p \<and>
          table_insert al sz KDevice 0 (Some b) True t1 = Inr (allocations s'))" by blast
  have inv1: "table_inv t1" using table_insert_inv [OF inv fp [unfolded fits_def] i1] .
  let ?x = "(p, \<lparr>e_size = sz, e_kind = KDevice, e_flags = 0, e_buffer = b, e_alias = False\<rparr>)"
  have "?x \<in> set t1" using table_insert_set [OF inv fp [unfolded fits_def] i1] by simp
  then have "?x \<in> set (allocations s')"
    using rest table_insert_set [OF inv1] by (auto simp: fits_def)
  moreover have "in_range p sz q \<Longrightarrow> covers ?x q" for q
    by (simp add: in_range_def covers_def entry_end_def)
  ultimately have "in_range p sz q \<Longrightarrow> table_owner (allocations s') q = Some b" for q
    using cudaMalloc_inv [OF inv ok call] by (force simp: table_owner_Some_iff)
  then show ?thesis using out fp by blast
qed

lemma unat_of_nat_u64: "n < 18446744073709551616 \<Longrightarrow> unat (of_nat n :: u64) = n"
  by (simp add: unat_of_nat)

lemma row_column_bound:
  assumes "(x :: nat) < w" "w \<le> p" "y < h"
  shows "y * p + x < p * h"
proof -
  have "y * p + x < (y + 1) * p" using assms by simp
  also have "\<dots> \<le> h * p" using assms(3) by (intro mult_le_mono1) simp
  finally show ?thesis by (simp add: mult.commute)
qed

text \<open>
  When the size of the padded rows times their number does not wrap, a successful
  \<open>cudaMallocPitch\<close> returns a pitch that is the least multiple of 512 not below the width, and
  the address of every byte of every row resolves to the one buffer it allocated.
\<close>

lemma cudaMallocPitch_correct:
  assumes inv: "table_inv (allocations s)"
    and ok: "backend_ok be (pitch_of width * height) (allocations s)"
    and small: "unat width + 511 < 18446744073709551616"
      "unat (pitch_of width) * unat height < 18446744073709551616"
    and call: "cudaMallocPitch be False False width height s = (cudaSuccess, out, s')"
  shows "\<exists>pitch p b. out = Some (pitch, Some p) \<and> 512 dvd unat pitch \<and>
    unat width \<le> unat pitch \<and> unat pitch < unat width + 512 \<and>
    (\<forall>y x. y < unat height \<longrightarrow> x < unat width \<longrightarrow>
      unat p + y * unat pitch + x < 18446744073709551616 \<and>
      table_owner (allocations s') (p + of_nat (y * unat pitch + x)) = Some b)"
proof -
  let ?pitch = "pitch_of width"
  note pv = unat_pitch_of [OF small(1)]
  have dvd: "512 dvd unat ?pitch" unfolding pv by (simp add: dvd_minus_mod)
  have lo: "unat width \<le> unat ?pitch" and hi: "unat ?pitch < unat width + 512"
    unfolding pv using mod_less_divisor [of 512 "unat width + 511"] by linarith+
  from call obtain q where m: "cudaMalloc be False (?pitch * height) s = (cudaSuccess, q, s')"
    and out: "out = Some (?pitch, q)"
    by (auto simp: cudaMallocPitch_def split: prod.splits)
  from cudaMalloc_owned [OF inv ok m] obtain p b where
      q: "q = Some p" and fp: "fits p (?pitch * height)"
      and own: "\<And>a. in_range p (?pitch * height) a \<Longrightarrow> table_owner (allocations s') a = Some b" by blast
  have sz: "unat (?pitch * height) = unat ?pitch * unat height"
    by (rule unat_mult_u64 [OF small(2)])
  have "unat p + y * unat ?pitch + x < 18446744073709551616 \<and>
      table_owner (allocations s') (p + of_nat (y * unat ?pitch + x)) = Some b"
    if "y < unat height" "x < unat width" for y x
  proof -
    have n: "y * unat ?pitch + x < unat ?pitch * unat height"
      by (rule row_column_bound [OF that(2) lo that(1)])
    then have u: "unat (of_nat (y * unat ?pitch + x) :: u64) = y * unat ?pitch + x"
      using small(2) by (intro unat_of_nat_u64) linarith
    have b: "unat p + (y * unat ?pitch + x) < 18446744073709551616"
      using fp n by (simp add: fits_def sz)
    then have "unat (p + of_nat (y * unat ?pitch + x)) = unat p + (y * unat ?pitch + x)"
      by (subst unat_add_u64_exact) (simp_all only: u)
    then have "in_range p (?pitch * height) (p + of_nat (y * unat ?pitch + x))"
      using n by (simp add: in_range_def sz)
    with own b show ?thesis by simp
  qed
  then show ?thesis using out q dvd lo hi by blast
qed

lemma cudaMallocPitch_correct_witness:
  "\<exists>pitch p b s'. cudaMallocPitch sample_backend False False 5 4 sample_runtime =
       (cudaSuccess, Some (pitch, Some p), s') \<and> 512 dvd unat pitch \<and>
     table_owner (allocations s') (p + of_nat (3 * unat pitch + 4)) = Some b"
proof -
  have sz: "pitch_of 5 = 512" by (simp add: pitch_of_def)
  let ?t = "[(4096, \<lparr>e_size = 2048, e_kind = KDevice, e_flags = 0, e_buffer = 7, e_alias = False\<rparr>),
      (8192, \<lparr>e_size = 2048, e_kind = KDevice, e_flags = 0, e_buffer = 7, e_alias = True\<rparr>)]"
  have c: "cudaMallocPitch sample_backend False False 5 4 sample_runtime =
      (cudaSuccess, Some (512, Some 4096), sample_runtime\<lparr>allocations := ?t\<rparr>)"
    by (simp add: cudaMallocPitch_def sz cudaMalloc_def sample_backend_def sample_runtime_def
      use_metal_device_addresses_def fail_def set_last_error_def table_insert_def
      below_def from_key_def Let_def)
  have ok: "backend_ok sample_backend (pitch_of 5 * 4) (allocations sample_runtime)"
    by (simp add: backend_ok_def sample_backend_def fresh_buffer_def fits_def sample_runtime_def sz)
  have "unat (5 :: u64) + 511 < 18446744073709551616"
    "unat (pitch_of 5) * unat (4 :: u64) < 18446744073709551616" by (simp_all add: sz)
  note r = cudaMallocPitch_correct [OF sample_empty(1) ok this c]
  obtain pitch p b where
      o: "Some (512, Some 4096) = Some (pitch :: u64, Some p)" "512 dvd unat pitch"
      "\<forall>y x. y < unat (4 :: u64) \<longrightarrow> x < unat (5 :: u64) \<longrightarrow>
         unat p + y * unat pitch + x < 18446744073709551616 \<and>
         table_owner (allocations (sample_runtime\<lparr>allocations := ?t\<rparr>))
           (p + of_nat (y * unat pitch + x)) = Some b"
    using r by blast
  have "table_owner (allocations (sample_runtime\<lparr>allocations := ?t\<rparr>))
      (p + of_nat (3 * unat pitch + 4)) = Some b"
    using o(3) [rule_format, of 3 4] by simp
  with c o(1,2) show ?thesis by metis
qed

text \<open>
  Without that bound the product wraps.  A request for \<open>2 ^ 55 + 1\<close> rows of 512 bytes
  succeeds with an allocation of 512 bytes, so already the second row lies outside it; the
  three-dimensional call has the same defect.
\<close>

lemma cudaMallocPitch_undersized:
  "\<exists>s'. cudaMallocPitch sample_backend False False 512 36028797018963969 sample_runtime =
       (cudaSuccess, Some (512, Some 4096), s') \<and>
     table_resolve (4096 + 512) (allocations s') = None \<and>
     cudaMalloc3D sample_backend False
       \<lparr>ex_width = 512, ex_height = 36028797018963969, ex_depth = 1\<rparr> sample_runtime =
       (cudaSuccess, Some \<lparr>pp_ptr = 4096, pp_pitch = 512, pp_xsize = 512,
                          pp_ysize = 36028797018963969\<rparr>, s')"
proof -
  have sz: "pitch_of 512 = 512" by (simp add: pitch_of_def)
  show ?thesis
    by (simp add: cudaMallocPitch_def cudaMalloc3D_def sz cudaMalloc_def sample_backend_def
        sample_runtime_def use_metal_device_addresses_def fail_def set_last_error_def
        table_insert_def table_resolve_def up_to_def below_def from_key_def Let_def)
qed

section \<open>Embedded pointers\<close>

lemma length_map_words [simp]: "length (map_words f bs) = length bs"
proof (induction f bs rule: map_words.induct)
  case (1 f bs)
  then show ?case by (subst map_words.simps) auto
qed

function word_fields :: "bytes \<Rightarrow> u64 list" where
  "word_fields bs =
     (if length bs < 8 then [] else of_nat (le_value (take 8 bs)) # word_fields (drop 8 bs))"
  by pat_completeness auto
termination
  by (relation "measure length") auto

declare word_fields.simps [simp del]

lemma map_words_map_words: "map_words f (map_words g bs) = map_words (f \<circ> g) bs"
proof (induction g bs rule: map_words.induct)
  case (1 g bs)
  show ?case
  proof (cases "length bs < 8")
    case True
    then show ?thesis by (simp add: map_words.simps [of _ bs])
  next
    case False
    let ?w = "g (of_nat (le_value (take 8 bs)))"
    have "unat ?w < 256 ^ 8" using u64_bound [of ?w] by simp
    then have "le_value (le_bytes 8 (unat ?w)) = unat ?w" by (rule le_value_le_bytes)
    with False 1 show ?thesis
      by (simp add: map_words.simps [of _ bs] map_words.simps [of f "_ @ _"])
  qed
qed

lemma map_words_id: "\<forall>w \<in> set (word_fields bs). f w = w \<Longrightarrow> map_words f bs = bs"
proof (induction f bs rule: map_words.induct)
  case (1 f bs)
  show ?case
  proof (cases "length bs < 8")
    case True
    then show ?thesis by (simp add: map_words.simps [of _ bs])
  next
    case False
    then have fs: "word_fields bs = of_nat (le_value (take 8 bs)) # word_fields (drop 8 bs)"
      by (subst word_fields.simps) simp
    with "1.prems" have id: "f (of_nat (le_value (take 8 bs))) = of_nat (le_value (take 8 bs))" by simp
    have "le_value (take 8 bs) < 18446744073709551616"
      using le_value_bound [of "take 8 bs"] False by simp
    then have "unat (of_nat (le_value (take 8 bs)) :: u64) = le_value (take 8 bs)"
      by (simp add: unat_of_nat)
    moreover have "le_bytes 8 (le_value (take 8 bs)) = take 8 bs"
      using le_bytes_le_value [of "take 8 bs"] False by simp
    ultimately show ?thesis
      using False "1.IH" "1.prems" fs id by (simp add: map_words.simps [of _ bs])
  qed
qed

text \<open>
  Every buffer is registered under both of its addresses with one size, which is what
  \<open>cudaMalloc\<close> leaves when the two differ.
\<close>

definition mirrored :: "backend \<Rightarrow> table \<Rightarrow> bool" where
  "mirrored be t \<longleftrightarrow> (\<forall>x \<in> set t.
     \<exists>h d. (be_contents be (e_buffer (snd x)), h) \<in> set t \<and>
           (be_device_address be (e_buffer (snd x)), d) \<in> set t \<and>
           e_buffer h = e_buffer (snd x) \<and> e_buffer d = e_buffer (snd x) \<and>
           e_size h = e_size (snd x) \<and> e_size d = e_size (snd x))"

text \<open>The word is no pointer into an allocation, or one in terms of the host address.\<close>

definition host_field :: "backend \<Rightarrow> table \<Rightarrow> u64 \<Rightarrow> bool" where
  "host_field be t w \<longleftrightarrow> (\<forall>x \<in> set t. covers x w \<longrightarrow> fst x = be_contents be (e_buffer (snd x)))"

lemma shifted_cover:
  assumes ok: "entry_ok (a, e)" "entry_ok (b, f)" and same: "e_size f = e_size e"
    and c: "covers (a, e) w"
  shows "covers (b, f) (b + (w - a)) \<and> \<not> - 1 - (w - a) < b \<and> b + (w - a) - b = w - a \<and> b + (w - a) \<noteq> 0"
proof -
  have le: "a \<le> w" and off: "unat (w - a) = unat w - unat a"
    using c by (simp_all add: covers_def word_nat unat_sub_u64)
  have lt: "unat (w - a) < unat (e_size e)"
    using c off by (simp add: covers_def entry_end_def) linarith
  have b: "unat b + unat (e_size e) < 18446744073709551616" "0 < unat b"
    using ok(2) same by (simp_all add: entry_ok_def entry_end_def unat_gt_0)
  have s: "unat (b + (w - a)) = unat b + unat (w - a)"
    using lt b by (intro unat_add_u64_exact) linarith
  have "covers (b, f) (b + (w - a))"
    using s lt same by (simp add: covers_def entry_end_def)
  moreover have "\<not> - 1 - (w - a) < b"
    unfolding u64_less u64_max_sub not_less using lt b by linarith
  moreover have "b + (w - a) \<noteq> 0" using s b(2) by (metis add_gr_0 unat_0 less_irrefl)
  ultimately show ?thesis by simp
qed

lemma restore_relocate_word:
  assumes inv: "table_inv t" and mir: "mirrored be t" and h: "host_field be t w"
  shows "restore_word be t (relocate_word be t w) = w"
proof (cases "w = 0 \<or> table_resolve w t = None")
  case True
  then show ?thesis by (auto simp: relocate_word_def restore_word_def)
next
  case False
  then obtain r where "table_resolve w t = Some r" "w \<noteq> 0" by auto
  then obtain x where x: "x \<in> set t" "covers x w"
    and res: "table_resolve w t = Some (resolved_at x w)" by (auto simp: resolve_Some_iff [OF inv])
  obtain a e where xa: "x = (a, e)" by (cases x)
  have a: "a = be_contents be (e_buffer e)" using h x xa by (auto simp: host_field_def)
  obtain d where d: "(be_device_address be (e_buffer e), d) \<in> set t"
      "e_buffer d = e_buffer e" "e_size d = e_size e"
    using mir x(1) xa unfolding mirrored_def by fastforce
  let ?b = "be_device_address be (e_buffer e)"
  have ok: "entry_ok (a, e)" "entry_ok (?b, d)"
    using table_inv_entry [OF inv] x(1) xa d(1) by auto
  note sc = shifted_cover [OF ok d(3) x(2) [unfolded xa]]
  have "?b \<noteq> 0" "a \<noteq> 0" using ok by (simp_all add: entry_ok_def)
  then have rel: "relocate_word be t w = ?b + (w - a)"
    using sc \<open>w \<noteq> 0\<close> by (simp add: relocate_word_def res xa resolved_at_def Let_def)
  have res2: "table_resolve (?b + (w - a)) t = Some (resolved_at (?b, d) (?b + (w - a)))"
    using resolve_covered [OF inv d(1)] sc by blast
  have "\<not> - 1 - (w - a) < a"
    using shifted_cover [OF ok(1) ok(1) refl x(2) [unfolded xa]] by blast
  then show ?thesis
    using sc \<open>a \<noteq> 0\<close> unfolding rel
    by (simp add: restore_word_def res2 resolved_at_def d(2) a [symmetric] Let_def)
qed

text \<open>
  C4: an aggregate copied to the device and back is unchanged: relocating the pointers embedded
  in it and restoring them returns the same bytes, whatever else the aggregate holds, when every
  buffer is registered under both its addresses and the aggregate's pointers are host ones.
\<close>

theorem embedded_pointers_roundtrip:
  assumes "table_inv t" "mirrored be t" "\<forall>w \<in> set (word_fields bs). host_field be t w"
  shows "restore_embedded_host_pointers be t (relocate_embedded_device_pointers be t bs) = bs"
  unfolding restore_embedded_host_pointers_def relocate_embedded_device_pointers_def map_words_map_words
  using restore_relocate_word [OF assms(1,2)] assms(3) by (intro map_words_id) simp

theorem embedded_pointers_roundtrip_witness:
  "relocate_embedded_device_pointers sample_backend sample_table
       [8, 16, 0, 0, 0, 0, 0, 0, 1, 2] = [8, 32, 0, 0, 0, 0, 0, 0, 1, 2] \<and>
   restore_embedded_host_pointers sample_backend sample_table
       (relocate_embedded_device_pointers sample_backend sample_table
          [8, 16, 0, 0, 0, 0, 0, 0, 1, 2]) = [8, 16, 0, 0, 0, 0, 0, 0, 1, 2]"
proof -
  let ?bs = "[8, 16, 0, 0, 0, 0, 0, 0, 1, 2] :: bytes"
  have m: "mirrored sample_backend sample_table"
    by (auto simp: mirrored_def sample_table_def sample_backend_def)
  have h: "\<forall>w \<in> set (word_fields ?bs). host_field sample_backend sample_table w"
    by (simp add: word_fields.simps host_field_def sample_table_def sample_backend_def
        covers_def entry_end_def)
  have w: "relocate_word sample_backend sample_table 4104 = 8200"
    by (simp add: relocate_word_def sample_table_def sample_backend_def table_resolve_def up_to_def
        Let_def)
  have "relocate_embedded_device_pointers sample_backend sample_table ?bs
      = [8, 32, 0, 0, 0, 0, 0, 0, 1, 2]"
  proof -
    have l: "le_bytes 8 8200 = [8, 32, 0, 0, 0, 0, 0, 0]" by code_simp
    have t: "take 8 ?bs = [8, 16, 0, 0, 0, 0, 0, 0]" "drop 8 ?bs = [1, 2]" by simp_all
    have v: "le_value [8, 16, 0, 0, 0, 0, 0, 0] = 4104" by simp
    have "map_words (relocate_word sample_backend sample_table) [1, 2] = [1, 2]"
      by (subst map_words.simps) simp
    then show ?thesis
      unfolding relocate_embedded_device_pointers_def
      by (subst map_words.simps) (simp only: t v, simp add: w l)
  qed
  with embedded_pointers_roundtrip [OF sample_table_inv m h] show ?thesis by simp
qed

end
