(* ===== verification/IrTypes.thy ===== *)
theory IrTypes imports Prelude begin

text \<open>
  The typed SSA intermediate representation of the compiler: the data model of
  \<open>compiler/ir/include/cumetal/ir/ir.h\<close> and the small functions of \<open>compiler/ir/src/ir.cpp\<close>
  on it.  Enumerations are datatypes in the order of the source, structures are records, a
  \<open>Type\<close>, which contains types, is a datatype with the structure's fields as selectors.  An
  \<open>unordered_map\<close> that is only looked up is a map; the attributes of an operation, which the
  printer iterates over, are an association list in an arbitrary order with distinct keys.
\<close>

section \<open>Enumerations\<close>

type_synonym ValueId = u32
type_synonym BlockId = u32

datatype AddressSpace = AsNone | AsDevice | AsConstant | AsThreadgroup | AsPrivate

datatype MemoryScope = MsNone | MsSimdgroup | MsThreadgroup | MsDevice | MsSystem

datatype MemoryOrdering =
  MoNone | MoRelaxed | MoAcquire | MoRelease | MoAcquireRelease | MoSequentiallyConsistent

datatype TypeKind =
  TkVoid | TkPredicate | TkInteger | TkFloat | TkVector | TkPointer | TkAggregate

datatype ArgumentKind = AkPointer | AkScalar | AkAggregate | AkDynamicThreadgroupMemory

datatype BindingKind = BkBuffer | BkBytes | BkThreadgroupMemory | BkBuiltin

datatype PointerBaseKind =
  PbUnknown | PbKernelArgument | PbAllocation | PbDynamicThreadgroupMemory | PbIntegerRoundTrip

datatype SemanticQuality =
  SqExact | SqToleranceBounded | SqSemanticEmulation | SqPerformanceDegraded | SqCpuFallback
  | SqUnsupported

datatype IrStage = GpuSemantic | MetalLegalized

datatype OperandKind = OkValue | OkImmediate | OkSymbol

datatype OpCode =
    kInvalid | kConstant | kParameter | kAdd | kSub | kMul | kDiv | kRemainder | kFma | kNegate
    | kBitAnd | kBitOr | kBitXor | kShiftLeft | kShiftRight | kCompare | kSelect
    | kAggregateConstruct | kAggregateExtract | kConvert | kAddressSpaceCast | kAlloca
    | kPointerOffset | kLoad | kStore | kCall | kPrintf | kThreadId | kThreadgroupId
    | kThreadgroupSize | kGridSize | kLaneId | kSimdgroupSize | kBarrier | kFence | kAtomic
    | kShuffle | kBallot | kVote | kReduction | kBranch | kCondBranch | kReturn | kTrap
    | kMetalThreadPosition | kMetalThreadgroupPosition | kMetalThreadsPerThreadgroup
    | kMetalThreadgroupsPerGrid | kMetalLaneId | kMetalBarrier | kMetalFence | kMetalAtomic
    | kMetalShuffle | kMetalBallot | kMetalVote | kMetalReduction | kMetalBufferArgument
    | kMetalThreadgroupArgument

primrec opcode_index :: "OpCode \<Rightarrow> nat" where
  "opcode_index kInvalid = 0"
| "opcode_index kConstant = 1"
| "opcode_index kParameter = 2"
| "opcode_index kAdd = 3"
| "opcode_index kSub = 4"
| "opcode_index kMul = 5"
| "opcode_index kDiv = 6"
| "opcode_index kRemainder = 7"
| "opcode_index kFma = 8"
| "opcode_index kNegate = 9"
| "opcode_index kBitAnd = 10"
| "opcode_index kBitOr = 11"
| "opcode_index kBitXor = 12"
| "opcode_index kShiftLeft = 13"
| "opcode_index kShiftRight = 14"
| "opcode_index kCompare = 15"
| "opcode_index kSelect = 16"
| "opcode_index kAggregateConstruct = 17"
| "opcode_index kAggregateExtract = 18"
| "opcode_index kConvert = 19"
| "opcode_index kAddressSpaceCast = 20"
| "opcode_index kAlloca = 21"
| "opcode_index kPointerOffset = 22"
| "opcode_index kLoad = 23"
| "opcode_index kStore = 24"
| "opcode_index kCall = 25"
| "opcode_index kPrintf = 26"
| "opcode_index kThreadId = 27"
| "opcode_index kThreadgroupId = 28"
| "opcode_index kThreadgroupSize = 29"
| "opcode_index kGridSize = 30"
| "opcode_index kLaneId = 31"
| "opcode_index kSimdgroupSize = 32"
| "opcode_index kBarrier = 33"
| "opcode_index kFence = 34"
| "opcode_index kAtomic = 35"
| "opcode_index kShuffle = 36"
| "opcode_index kBallot = 37"
| "opcode_index kVote = 38"
| "opcode_index kReduction = 39"
| "opcode_index kBranch = 40"
| "opcode_index kCondBranch = 41"
| "opcode_index kReturn = 42"
| "opcode_index kTrap = 43"
| "opcode_index kMetalThreadPosition = 44"
| "opcode_index kMetalThreadgroupPosition = 45"
| "opcode_index kMetalThreadsPerThreadgroup = 46"
| "opcode_index kMetalThreadgroupsPerGrid = 47"
| "opcode_index kMetalLaneId = 48"
| "opcode_index kMetalBarrier = 49"
| "opcode_index kMetalFence = 50"
| "opcode_index kMetalAtomic = 51"
| "opcode_index kMetalShuffle = 52"
| "opcode_index kMetalBallot = 53"
| "opcode_index kMetalVote = 54"
| "opcode_index kMetalReduction = 55"
| "opcode_index kMetalBufferArgument = 56"
| "opcode_index kMetalThreadgroupArgument = 57"

definition all_opcodes :: "OpCode list" where
  "all_opcodes =
     [kInvalid, kConstant, kParameter, kAdd, kSub, kMul, kDiv, kRemainder, kFma, kNegate
     , kBitAnd, kBitOr, kBitXor, kShiftLeft, kShiftRight, kCompare, kSelect, kAggregateConstruct
     , kAggregateExtract, kConvert, kAddressSpaceCast, kAlloca, kPointerOffset, kLoad, kStore
     , kCall, kPrintf, kThreadId, kThreadgroupId, kThreadgroupSize, kGridSize, kLaneId
     , kSimdgroupSize, kBarrier, kFence, kAtomic, kShuffle, kBallot, kVote, kReduction, kBranch
     , kCondBranch, kReturn, kTrap, kMetalThreadPosition, kMetalThreadgroupPosition
     , kMetalThreadsPerThreadgroup, kMetalThreadgroupsPerGrid, kMetalLaneId, kMetalBarrier
     , kMetalFence, kMetalAtomic, kMetalShuffle, kMetalBallot, kMetalVote, kMetalReduction
     , kMetalBufferArgument, kMetalThreadgroupArgument]"

primrec opcode_name :: "OpCode \<Rightarrow> string" where
  "opcode_name kInvalid = ''invalid''"
| "opcode_name kConstant = ''constant''"
| "opcode_name kParameter = ''parameter''"
| "opcode_name kAdd = ''add''"
| "opcode_name kSub = ''sub''"
| "opcode_name kMul = ''mul''"
| "opcode_name kDiv = ''div''"
| "opcode_name kRemainder = ''rem''"
| "opcode_name kFma = ''fma''"
| "opcode_name kNegate = ''neg''"
| "opcode_name kBitAnd = ''and''"
| "opcode_name kBitOr = ''or''"
| "opcode_name kBitXor = ''xor''"
| "opcode_name kShiftLeft = ''shl''"
| "opcode_name kShiftRight = ''shr''"
| "opcode_name kCompare = ''compare''"
| "opcode_name kSelect = ''select''"
| "opcode_name kAggregateConstruct = ''aggregate_construct''"
| "opcode_name kAggregateExtract = ''aggregate_extract''"
| "opcode_name kConvert = ''convert''"
| "opcode_name kAddressSpaceCast = ''addrspace_cast''"
| "opcode_name kAlloca = ''alloca''"
| "opcode_name kPointerOffset = ''pointer_offset''"
| "opcode_name kLoad = ''load''"
| "opcode_name kStore = ''store''"
| "opcode_name kCall = ''call''"
| "opcode_name kPrintf = ''gpu.printf''"
| "opcode_name kThreadId = ''gpu.thread_id''"
| "opcode_name kThreadgroupId = ''gpu.threadgroup_id''"
| "opcode_name kThreadgroupSize = ''gpu.threadgroup_size''"
| "opcode_name kGridSize = ''gpu.grid_size''"
| "opcode_name kLaneId = ''gpu.lane_id''"
| "opcode_name kSimdgroupSize = ''gpu.simdgroup_size''"
| "opcode_name kBarrier = ''gpu.barrier''"
| "opcode_name kFence = ''gpu.fence''"
| "opcode_name kAtomic = ''gpu.atomic''"
| "opcode_name kShuffle = ''gpu.shuffle''"
| "opcode_name kBallot = ''gpu.ballot''"
| "opcode_name kVote = ''gpu.vote''"
| "opcode_name kReduction = ''gpu.reduction''"
| "opcode_name kBranch = ''branch''"
| "opcode_name kCondBranch = ''cond_branch''"
| "opcode_name kReturn = ''return''"
| "opcode_name kTrap = ''trap''"
| "opcode_name kMetalThreadPosition = ''metal.thread_position''"
| "opcode_name kMetalThreadgroupPosition = ''metal.threadgroup_position''"
| "opcode_name kMetalThreadsPerThreadgroup = ''metal.threads_per_threadgroup''"
| "opcode_name kMetalThreadgroupsPerGrid = ''metal.threadgroups_per_grid''"
| "opcode_name kMetalLaneId = ''metal.lane_id''"
| "opcode_name kMetalBarrier = ''metal.barrier''"
| "opcode_name kMetalFence = ''metal.fence''"
| "opcode_name kMetalAtomic = ''metal.atomic''"
| "opcode_name kMetalShuffle = ''metal.shuffle''"
| "opcode_name kMetalBallot = ''metal.ballot''"
| "opcode_name kMetalVote = ''metal.vote''"
| "opcode_name kMetalReduction = ''metal.reduction''"
| "opcode_name kMetalBufferArgument = ''metal.buffer_argument''"
| "opcode_name kMetalThreadgroupArgument = ''metal.threadgroup_argument''"

text \<open>The enumerators compare by position, as \<open>enum class : std::uint16_t\<close> does.\<close>

lemma opcode_at_index: "all_opcodes ! opcode_index x = x"
  by (cases x) (simp_all add: all_opcodes_def)

lemma opcode_index_inject: "opcode_index x = opcode_index y \<longleftrightarrow> x = y"
  by (metis opcode_at_index)

instantiation OpCode :: linorder
begin

definition less_eq_OpCode :: "OpCode \<Rightarrow> OpCode \<Rightarrow> bool" where
  "less_eq_OpCode x y \<longleftrightarrow> opcode_index x \<le> opcode_index y"

definition less_OpCode :: "OpCode \<Rightarrow> OpCode \<Rightarrow> bool" where
  "less_OpCode x y \<longleftrightarrow> opcode_index x < opcode_index y"

instance
  by standard (auto simp: less_eq_OpCode_def less_OpCode_def opcode_index_inject)

end

definition is_gpu_semantic_opcode :: "OpCode \<Rightarrow> bool" where
  "is_gpu_semantic_opcode opcode = (kThreadId \<le> opcode \<and> opcode \<le> kReduction)"

definition is_metal_opcode :: "OpCode \<Rightarrow> bool" where
  "is_metal_opcode opcode = (kMetalThreadPosition \<le> opcode \<and> opcode \<le> kMetalThreadgroupArgument)"

lemma metal_not_gpu: "is_metal_opcode opcode \<Longrightarrow> \<not> is_gpu_semantic_opcode opcode"
  by (auto simp: is_metal_opcode_def is_gpu_semantic_opcode_def less_eq_OpCode_def)

primrec address_space_name :: "AddressSpace \<Rightarrow> string" where
  "address_space_name AsNone = ''none''"
| "address_space_name AsDevice = ''device''"
| "address_space_name AsConstant = ''constant''"
| "address_space_name AsThreadgroup = ''threadgroup''"
| "address_space_name AsPrivate = ''private''"

primrec memory_scope_name :: "MemoryScope \<Rightarrow> string" where
  "memory_scope_name MsNone = ''none''"
| "memory_scope_name MsSimdgroup = ''simdgroup''"
| "memory_scope_name MsThreadgroup = ''threadgroup''"
| "memory_scope_name MsDevice = ''device''"
| "memory_scope_name MsSystem = ''system''"

primrec memory_ordering_name :: "MemoryOrdering \<Rightarrow> string" where
  "memory_ordering_name MoNone = ''none''"
| "memory_ordering_name MoRelaxed = ''relaxed''"
| "memory_ordering_name MoAcquire = ''acquire''"
| "memory_ordering_name MoRelease = ''release''"
| "memory_ordering_name MoAcquireRelease = ''acq_rel''"
| "memory_ordering_name MoSequentiallyConsistent = ''seq_cst''"

section \<open>Types\<close>

datatype Type =
  MkType (t_kind: TypeKind) (t_bit_width: u32) (t_lanes: u32) (t_space: AddressSpace)
    (t_elements: "Type list") (t_name: string)

definition void_type :: Type where
  "void_type = MkType TkVoid 0 1 AsNone [] []"

definition integer_type :: "u32 \<Rightarrow> Type" where
  "integer_type bits = MkType TkInteger bits 1 AsNone [] []"

definition predicate_type :: Type where
  "predicate_type = integer_type 1"

definition floating_type :: "u32 \<Rightarrow> Type" where
  "floating_type bits = MkType TkFloat bits 1 AsNone [] []"

definition vector_type :: "Type \<Rightarrow> u32 \<Rightarrow> Type" where
  "vector_type element lanes = MkType TkVector (t_bit_width element) lanes AsNone [element] []"

definition pointer_type :: "Type \<Rightarrow> AddressSpace \<Rightarrow> Type" where
  "pointer_type pointee sp = MkType TkPointer 64 1 sp [pointee] []"

definition aggregate_type :: "Type list \<Rightarrow> string \<Rightarrow> Type" where
  "aggregate_type elements name = MkType TkAggregate 0 1 AsNone elements name"

definition is_scalar :: "Type \<Rightarrow> bool" where
  "is_scalar t = (t_kind t = TkPredicate \<or> t_kind t = TkInteger \<or> t_kind t = TkFloat)"

definition is_pointer :: "Type \<Rightarrow> bool" where
  "is_pointer t = (t_kind t = TkPointer)"

definition pointee :: "Type \<Rightarrow> Type option" where
  "pointee t = (if is_pointer t \<and> t_elements t \<noteq> [] then Some (hd (t_elements t)) else None)"

fun joined :: "string \<Rightarrow> string list \<Rightarrow> string" where
  "joined sep [] = []"
| "joined sep [x] = x"
| "joined sep (x # y # xs) = x @ sep @ joined sep (y # xs)"

definition show_u32 :: "u32 \<Rightarrow> string" where
  "show_u32 v = show_nat (unat v)"

definition quoted :: "string \<Rightarrow> string" where
  "quoted s = CHR 0x27 # s @ [CHR 0x27]"

fun type_str :: "Type \<Rightarrow> string" where
  "type_str (MkType TkVoid w l sp es n) = ''void''"
| "type_str (MkType TkPredicate w l sp es n) = ''pred''"
| "type_str (MkType TkInteger w l sp es n) = ''i'' @ show_u32 w"
| "type_str (MkType TkFloat w l sp es n) = ''f'' @ show_u32 w"
| "type_str (MkType TkVector w l sp [] n) = ''vector<'' @ show_u32 l @ ''x'' @ ''?'' @ ''>''"
| "type_str (MkType TkVector w l sp (e # es) n) =
     ''vector<'' @ show_u32 l @ ''x'' @ type_str e @ ''>''"
| "type_str (MkType TkPointer w l sp [] n) =
     ''ptr<'' @ address_space_name sp @ '', '' @ ''?'' @ ''>''"
| "type_str (MkType TkPointer w l sp (e # es) n) =
     ''ptr<'' @ address_space_name sp @ '', '' @ type_str e @ ''>''"
| "type_str (MkType TkAggregate w l sp es n) =
     ''struct<'' @ joined '', '' (map type_str es) @ ''>''"

text \<open>Sizes are 32-bit: the sum over an aggregate and the product with the lanes wrap.\<close>

fun natural_size :: "Type \<Rightarrow> u32" where
  "natural_size (MkType TkPointer w l sp es n) = 8"
| "natural_size (MkType TkPredicate w l sp es n) = 1"
| "natural_size (MkType TkInteger w l sp es n) = max 1 (w div 8)"
| "natural_size (MkType TkFloat w l sp es n) = max 1 (w div 8)"
| "natural_size (MkType TkVector w l sp (e # es) n) = natural_size e * l"
| "natural_size (MkType TkVector w l sp [] n) = 0"
| "natural_size (MkType TkAggregate w l sp es n) = sum_list (map natural_size es)"
| "natural_size (MkType TkVoid w l sp es n) = 0"

section \<open>Modules\<close>

record SourceLocation =
  loc_file :: string
  loc_line :: u32
  loc_column :: u32

definition no_location :: SourceLocation where
  "no_location = \<lparr>loc_file = [], loc_line = 0, loc_column = 0\<rparr>"

definition location_str :: "SourceLocation \<Rightarrow> string" where
  "location_str l =
     (if loc_file l = []
      then (if loc_line l = 0 then [] else ''line '' @ show_u32 (loc_line l))
      else loc_file l @
        (if loc_line l \<noteq> 0
         then '':'' @ show_u32 (loc_line l) @
              (if loc_column l \<noteq> 0 then '':'' @ show_u32 (loc_column l) else [])
         else []))"

record ArgumentDescriptor =
  ad_name :: string
  ad_kind :: ArgumentKind
  ad_type :: Type
  ad_size :: u32
  ad_alignment :: u32
  ad_space :: AddressSpace
  ad_binding_indices :: "u32 list"
  ad_hidden_role :: "string option"

record BindingDescriptor =
  bd_kind :: BindingKind
  bd_index :: u32
  bd_argument_index :: u32
  bd_type :: Type
  bd_size :: u32
  bd_alignment :: u32
  bd_hidden_role :: "string option"

record KernelAbi =
  ka_arguments :: "ArgumentDescriptor list"
  ka_bindings :: "BindingDescriptor list"
  ka_static_threadgroup_memory :: u32
  ka_required_simd_width :: u32
  ka_required_metal_features :: "string list"

record PointerProvenance =
  pv_base_kind :: PointerBaseKind
  pv_base_name :: string
  pv_memory_layout :: string
  pv_known_byte_offset :: "int option"
  pv_known_layout_offset :: "int option"
  pv_alignment :: u32
  pv_no_alias :: bool
  pv_escaped :: bool

record Operand =
  opd_kind :: OperandKind
  opd_value :: ValueId
  opd_type :: Type
  opd_text :: string

definition value_ref :: "ValueId \<Rightarrow> Type \<Rightarrow> Operand" where
  "value_ref v t = \<lparr>opd_kind = OkValue, opd_value = v, opd_type = t, opd_text = []\<rparr>"

definition immediate :: "string \<Rightarrow> Type \<Rightarrow> Operand" where
  "immediate s t = \<lparr>opd_kind = OkImmediate, opd_value = 0, opd_type = t, opd_text = s\<rparr>"

definition symbol :: "string \<Rightarrow> Type \<Rightarrow> Operand" where
  "symbol s t = \<lparr>opd_kind = OkSymbol, opd_value = 0, opd_type = t, opd_text = s\<rparr>"

record Successor =
  su_block :: BlockId
  su_arguments :: "ValueId list"

record Operation =
  op_opcode :: OpCode
  op_results :: "ValueId list"
  op_result_types :: "Type list"
  op_operands :: "Operand list"
  op_successors :: "Successor list"
  op_attributes :: "(string \<times> string) list"
  op_scope :: MemoryScope
  op_ordering :: MemoryOrdering
  op_location :: SourceLocation

definition is_terminator :: "Operation \<Rightarrow> bool" where
  "is_terminator operation =
     (op_opcode operation = kBranch \<or> op_opcode operation = kCondBranch \<or>
      op_opcode operation = kReturn \<or> op_opcode operation = kTrap)"

record BlockArgument =
  ba_value :: ValueId
  ba_type :: Type
  ba_name :: string

record BasicBlock =
  bb_id :: BlockId
  bb_name :: string
  bb_arguments :: "BlockArgument list"
  bb_operations :: "Operation list"

record FunctionArgument =
  fa_value :: ValueId
  fa_name :: string
  fa_type :: Type

record Function =
  fn_name :: string
  fn_is_kernel :: bool
  fn_return_type :: Type
  fn_arguments :: "FunctionArgument list"
  fn_blocks :: "BasicBlock list"
  fn_kernel_abi :: "KernelAbi option"
  fn_pointer_provenance :: "ValueId \<Rightarrow> PointerProvenance option"
  fn_generic_pointer_values :: "ValueId set"
  fn_generic_null_pointer_values :: "ValueId set"
  fn_mixed_pointer_address_spaces :: "ValueId \<Rightarrow> u8 option"
  fn_mixed_pointer_return_spaces :: u8
  fn_generic_pointer_return :: bool

definition find_block :: "Function \<Rightarrow> BlockId \<Rightarrow> BasicBlock option" where
  "find_block f i = find (\<lambda>b. bb_id b = i) (fn_blocks f)"

record GlobalConstant =
  gc_name :: string
  gc_bytes :: bytes
  gc_alignment :: u32

record GlobalThreadgroup =
  gt_name :: string
  gt_byte_size :: u64
  gt_alignment :: u32
  gt_is_dynamic :: bool

record ExternalSymbol =
  es_name :: string
  es_byte_size :: u64
  es_alignment :: u32
  es_constant_offset :: u64
  es_constant :: bool
  es_module_private :: bool
  es_initializer :: bytes

record Module =
  md_source_name :: string
  md_stage :: IrStage
  md_semantic_quality :: SemanticQuality
  md_semantic_caveats :: "string list"
  md_global_constants :: "GlobalConstant list"
  md_global_threadgroups :: "GlobalThreadgroup list"
  md_external_symbols :: "ExternalSymbol list"
  md_functions :: "Function list"
  md_attributes :: "(string \<times> string) list"

record Diagnostic =
  dg_location :: SourceLocation
  dg_message :: string

record VerifyResult =
  vr_ok :: bool
  vr_diagnostics :: "Diagnostic list"

text \<open>Fresh numbers; the counters wrap, so after \<open>2 ^ 32 - 1\<close> values the invalid one follows.\<close>

record Builder =
  bl_next_value :: ValueId
  bl_next_block :: BlockId

definition new_builder :: Builder where
  "new_builder = \<lparr>bl_next_value = 1, bl_next_block = 1\<rparr>"

definition next_value :: "Builder \<Rightarrow> ValueId \<times> Builder" where
  "next_value b = (bl_next_value b, b\<lparr>bl_next_value := bl_next_value b + 1\<rparr>)"

definition next_block :: "Builder \<Rightarrow> BlockId \<times> Builder" where
  "next_block b = (bl_next_block b, b\<lparr>bl_next_block := bl_next_block b + 1\<rparr>)"

end
