(* ===== verification/IrDominators.thy ===== *)
theory IrDominators imports IrTypes begin

text \<open>
  The dominator analysis of the verifier (\<open>verify\<close> in \<open>compiler/ir/src/ir.cpp\<close>): the data-flow
  loop over the blocks of a function, in its Gauss-Seidel order, and the proof that the sets it
  stops with are the dominators of the control-flow graph.
\<close>

section \<open>The loop\<close>

text \<open>
  \<open>predecessors\<close> is a vector with one list of block indices per block, \<open>dominators\<close> one set of
  block indices per block.
\<close>

definition initial_dominators :: "nat \<Rightarrow> nat set list" where
  "initial_dominators n = map (\<lambda>i. if i = 0 then {0} else set [0..<n]) [0..<n]"

definition next_dominators :: "nat list list \<Rightarrow> nat set list \<Rightarrow> nat \<Rightarrow> nat set" where
  "next_dominators preds doms i =
     insert i (case preds ! i of
                 [] \<Rightarrow> {}
               | p # ps \<Rightarrow> fold (\<lambda>q nx. Set.filter (\<lambda>c. c \<in> doms ! q) nx) (p # ps) (doms ! p))"

definition dominator_step ::
  "nat list list \<Rightarrow> nat \<Rightarrow> nat set list \<times> bool \<Rightarrow> nat set list \<times> bool" where
  "dominator_step preds i st = (case st of (doms, changed) \<Rightarrow>
     (if next_dominators preds doms i \<noteq> doms ! i
      then (doms[i := next_dominators preds doms i], True) else (doms, changed)))"

definition dominator_sweep :: "nat list list \<Rightarrow> nat set list \<Rightarrow> nat set list \<times> bool" where
  "dominator_sweep preds doms = fold (dominator_step preds) [1..<length preds] (doms, False)"

partial_function (option) dominator_loop ::
  "nat list list \<Rightarrow> nat set list \<Rightarrow> nat set list option" where
  "dominator_loop preds doms =
     (let next = dominator_sweep preds doms
      in if snd next then dominator_loop preds (fst next) else Some (fst next))"

declare dominator_loop.simps [code]

definition compute_dominators :: "nat list list \<Rightarrow> nat set list option" where
  "compute_dominators preds = dominator_loop preds (initial_dominators (length preds))"

section \<open>Dominance\<close>

definition graph_ok :: "nat list list \<Rightarrow> bool" where
  "graph_ok preds \<longleftrightarrow> preds \<noteq> [] \<and> (\<forall>ps \<in> set preds. \<forall>p \<in> set ps. p < length preds)"

text \<open>Walks along control-flow edges that start at the entry block 0.\<close>

inductive walk :: "nat list list \<Rightarrow> nat list \<Rightarrow> bool" for preds where
  walk_entry: "walk preds [0]"
| walk_edge: "walk preds w \<Longrightarrow> j < length preds \<Longrightarrow> last w \<in> set (preds ! j) \<Longrightarrow> walk preds (w @ [j])"

definition reachable :: "nat list list \<Rightarrow> nat \<Rightarrow> bool" where
  "reachable preds i \<longleftrightarrow> (\<exists>w. walk preds w \<and> last w = i)"

definition dominates :: "nat list list \<Rightarrow> nat \<Rightarrow> nat \<Rightarrow> bool" where
  "dominates preds j i \<longleftrightarrow> (\<forall>w. walk preds w \<longrightarrow> last w = i \<longrightarrow> j \<in> set w)"

lemma walk_start: "walk preds w \<Longrightarrow> 0 \<in> set w \<and> w \<noteq> []"
  by (induction rule: walk.induct) auto

lemma dominates_refl: "dominates preds i i"
  unfolding dominates_def using walk_start last_in_set by metis

lemma dominates_entry: "dominates preds j 0 \<Longrightarrow> j = 0"
  unfolding dominates_def using walk_entry [of preds] by force

lemma dominates_pred:
  assumes "dominates preds j i" "j \<noteq> i" "i < length preds" "p \<in> set (preds ! i)"
  shows "dominates preds j p"
  unfolding dominates_def
proof (intro allI impI)
  fix w assume "walk preds w" "last w = p"
  then have "walk preds (w @ [i])" using assms(3,4) by (simp add: walk_edge)
  then have "j \<in> set (w @ [i])" using assms(1) unfolding dominates_def by (metis last_snoc)
  then show "j \<in> set w" using assms(2) by simp
qed

section \<open>The data-flow equations\<close>

lemma fold_filter: "fold (\<lambda>q nx. Set.filter (\<lambda>c. c \<in> doms ! q) nx) ps D = {c \<in> D. \<forall>q \<in> set ps. c \<in> doms ! q}"
  by (induction ps arbitrary: D) auto

lemma next_dominators_eq:
  "next_dominators preds doms i =
     insert i (if preds ! i = [] then {} else \<Inter>q \<in> set (preds ! i). doms ! q)"
  by (cases "preds ! i") (auto simp: next_dominators_def fold_filter)

lemma next_dominators_mono:
  assumes "\<And>q. q \<in> set (preds ! i) \<Longrightarrow> doms' ! q \<subseteq> doms ! q"
  shows "next_dominators preds doms' i \<subseteq> next_dominators preds doms i"
  using assms unfolding next_dominators_eq by auto

text \<open>What every state of the loop satisfies: the sets only shrink.\<close>

definition dom_inv :: "nat list list \<Rightarrow> nat set list \<Rightarrow> bool" where
  "dom_inv preds doms \<longleftrightarrow> length doms = length preds \<and> doms ! 0 = {0} \<and>
     (\<forall>i < length preds. doms ! i \<subseteq> {..< length preds}) \<and>
     (\<forall>i. 0 < i \<longrightarrow> i < length preds \<longrightarrow> next_dominators preds doms i \<subseteq> doms ! i)"

lemma initial_nth:
  "i < n \<Longrightarrow> initial_dominators n ! i = (if i = 0 then {0} else {..< n})"
  by (auto simp: initial_dominators_def)

lemma graph_ok_pred: "graph_ok preds \<Longrightarrow> i < length preds \<Longrightarrow> p \<in> set (preds ! i) \<Longrightarrow> p < length preds"
  by (auto simp: graph_ok_def)

lemma dom_inv_initial:
  assumes "graph_ok preds"
  shows "dom_inv preds (initial_dominators (length preds))"
proof -
  let ?n = "length preds"
  have n: "0 < ?n" using assms by (simp add: graph_ok_def)
  have range: "initial_dominators ?n ! i \<subseteq> {..< ?n}" if "i < ?n" for i
    using that n by (simp add: initial_nth)
  have "next_dominators preds (initial_dominators ?n) i \<subseteq> initial_dominators ?n ! i"
    if i: "0 < i" "i < ?n" for i
  proof
    fix j assume j: "j \<in> next_dominators preds (initial_dominators ?n) i"
    have "j < ?n"
    proof (cases "preds ! i")
      case Nil
      then show ?thesis using j i by (simp add: next_dominators_eq)
    next
      case (Cons p ps)
      then have "p < ?n" using graph_ok_pred [OF assms i(2)] by simp
      then show ?thesis using j i range [of p] Cons by (auto simp: next_dominators_eq)
    qed
    then show "j \<in> initial_dominators ?n ! i" using i by (simp add: initial_nth)
  qed
  moreover have "length (initial_dominators ?n) = ?n" by (simp add: initial_dominators_def)
  ultimately show ?thesis using range n by (simp add: dom_inv_def initial_nth)
qed

lemma dom_inv_update:
  assumes "dom_inv preds doms" "0 < i" "i < length preds"
  shows "dom_inv preds (doms[i := next_dominators preds doms i])"
proof -
  let ?d = "doms[i := next_dominators preds doms i]"
  have len: "length doms = length preds" using assms(1) by (simp add: dom_inv_def)
  have small: "?d ! j \<subseteq> doms ! j" for j
    using assms len by (cases "j = i") (auto simp: dom_inv_def)
  have "next_dominators preds ?d j \<subseteq> ?d ! j" if "0 < j" "j < length preds" for j
  proof -
    have m: "next_dominators preds ?d j \<subseteq> next_dominators preds doms j"
      by (rule next_dominators_mono) (rule small)
    show ?thesis
    proof (cases "j = i")
      case True
      with m show ?thesis using assms(3) len by simp
    next
      case False
      have "next_dominators preds doms j \<subseteq> doms ! j"
        using assms(1) that by (simp add: dom_inv_def)
      with m False show ?thesis by simp
    qed
  qed
  moreover have "?d ! j \<subseteq> {..< length preds}" if "j < length preds" for j
    using small [of j] assms(1) that by (auto simp: dom_inv_def)
  ultimately show ?thesis
    using assms(1,2) len by (simp add: dom_inv_def)
qed

definition dom_weight :: "nat set list \<Rightarrow> nat" where
  "dom_weight doms = (\<Sum>i < length doms. card (doms ! i))"

lemma dom_weight_update:
  assumes "dom_inv preds doms" "0 < i" "i < length preds" "next_dominators preds doms i \<noteq> doms ! i"
  shows "dom_weight (doms[i := next_dominators preds doms i]) < dom_weight doms"
proof -
  let ?d = "doms[i := next_dominators preds doms i]"
  have len: "length doms = length preds" using assms(1) by (simp add: dom_inv_def)
  have fin: "finite (doms ! i)"
    using assms(1,3) finite_subset [of "doms ! i" "{..< length preds}"] by (simp add: dom_inv_def)
  have "next_dominators preds doms i \<subseteq> doms ! i"
    using assms(1-3) unfolding dom_inv_def by blast
  with assms(4) have "next_dominators preds doms i \<subset> doms ! i" by blast
  then have "card (next_dominators preds doms i) < card (doms ! i)"
    by (rule psubset_card_mono [OF fin])
  then have lt: "card (?d ! i) < card (doms ! i)" using assms(3) len by simp
  have le: "card (?d ! j) \<le> card (doms ! j)" for j
    using lt by (cases "j = i") simp_all
  have "(\<Sum>j < length doms. card (?d ! j)) < (\<Sum>j < length doms. card (doms ! j))"
  proof (rule sum_strict_mono_ex1)
    show "finite {..< length doms}" by simp
    show "\<forall>j \<in> {..< length doms}. card (?d ! j) \<le> card (doms ! j)" using le by blast
    show "\<exists>j \<in> {..< length doms}. card (?d ! j) < card (doms ! j)"
      using lt assms(3) len lessThan_iff by metis
  qed
  then show ?thesis by (simp add: dom_weight_def)
qed

lemma dominator_step_same:
  "next_dominators preds doms i = doms ! i \<Longrightarrow> dominator_step preds i (doms, ch) = (doms, ch)"
  by (simp add: dominator_step_def)

lemma dominator_step_change:
  "next_dominators preds doms i \<noteq> doms ! i \<Longrightarrow>
     dominator_step preds i (doms, ch) = (doms[i := next_dominators preds doms i], True)"
  by (simp add: dominator_step_def)

lemma sweep_facts:
  assumes "dom_inv preds doms" "\<forall>i \<in> set is. 0 < i \<and> i < length preds"
    and "fold (dominator_step preds) is (doms, ch) = (doms', ch')"
  shows "dom_inv preds doms' \<and> dom_weight doms' \<le> dom_weight doms \<and> (ch \<longrightarrow> ch') \<and>
    (ch' \<longrightarrow> ch \<or> dom_weight doms' < dom_weight doms) \<and>
    (\<not> ch' \<longrightarrow> doms' = doms \<and> (\<forall>i \<in> set is. next_dominators preds doms i = doms ! i))"
  using assms
proof (induction "is" arbitrary: doms ch)
  case Nil
  then show ?case by simp
next
  case (Cons i "is")
  show ?case
  proof (cases "next_dominators preds doms i = doms ! i")
    case True
    then have "fold (dominator_step preds) is (doms, ch) = (doms', ch')"
      using Cons.prems(3) by (simp add: dominator_step_same)
    from Cons.IH [OF Cons.prems(1) _ this] Cons.prems(2) True show ?thesis by auto
  next
    case False
    let ?d = "doms[i := next_dominators preds doms i]"
    have i: "0 < i" "i < length preds" using Cons.prems(2) by simp_all
    have "fold (dominator_step preds) is (?d, True) = (doms', ch')"
      using Cons.prems(3) False by (simp add: dominator_step_change)
    from Cons.IH [OF dom_inv_update [OF Cons.prems(1) i] _ this]
      dom_weight_update [OF Cons.prems(1) i False] Cons.prems(2)
    show ?thesis by auto
  qed
qed

definition solves :: "nat list list \<Rightarrow> nat set list \<Rightarrow> bool" where
  "solves preds doms \<longleftrightarrow> dom_inv preds doms \<and>
     (\<forall>i. 0 < i \<longrightarrow> i < length preds \<longrightarrow> doms ! i = next_dominators preds doms i)"

lemma dominator_loop_solves:
  "dom_inv preds doms \<Longrightarrow> \<exists>ds. dominator_loop preds doms = Some ds \<and> solves preds ds"
proof (induction "dom_weight doms" arbitrary: doms rule: less_induct)
  case less
  obtain d ch where sw: "dominator_sweep preds doms = (d, ch)" by fastforce
  then have f: "fold (dominator_step preds) [1..<length preds] (doms, False) = (d, ch)"
    by (simp add: dominator_sweep_def)
  note facts = sweep_facts [OF less.prems _ f]
  show ?case
  proof (cases ch)
    case True
    with facts have "dom_inv preds d" "dom_weight d < dom_weight doms" by auto
    then obtain ds where "dominator_loop preds d = Some ds" "solves preds ds"
      using less.hyps by blast
    with True sw show ?thesis by (subst dominator_loop.simps) simp
  next
    case False
    with facts have "d = doms" "\<forall>i \<in> set [1..<length preds]. next_dominators preds doms i = doms ! i"
      by auto
    then have "solves preds d" using less.prems by (auto simp: solves_def)
    with False sw show ?thesis by (subst dominator_loop.simps) simp
  qed
qed

text \<open>A solution names only blocks that every walk meets.\<close>

lemma solves_sound:
  assumes "solves preds ds" "walk preds w"
  shows "ds ! last w \<subseteq> set w"
  using assms(2)
proof (induction rule: walk.induct)
  case walk_entry
  then show ?case using assms(1) by (simp add: solves_def dom_inv_def)
next
  case (walk_edge w j)
  show ?case
  proof (cases "j = 0")
    case True
    then show ?thesis
      using assms(1) by (simp add: solves_def dom_inv_def)
  next
    case False
    then have "ds ! j = next_dominators preds ds j"
      using assms(1) walk_edge.hyps(2) by (simp add: solves_def)
    also have "\<dots> \<subseteq> insert j (ds ! last w)"
      using walk_edge.hyps(3) unfolding next_dominators_eq by auto
    finally show ?thesis using walk_edge.IH by auto
  qed
qed

text \<open>The loop never drops a true dominator while every block is reachable.\<close>

definition keeps :: "nat list list \<Rightarrow> nat set list \<Rightarrow> bool" where
  "keeps preds doms \<longleftrightarrow> (\<forall>i < length preds. \<forall>j < length preds. dominates preds j i \<longrightarrow> j \<in> doms ! i)"

lemma keeps_next:
  assumes "graph_ok preds" "keeps preds doms" "0 < i" "i < length preds" "reachable preds i"
    and "dominates preds j i" "j < length preds"
  shows "j \<in> next_dominators preds doms i"
proof (cases "j = i")
  case True
  then show ?thesis by (simp add: next_dominators_eq)
next
  case False
  obtain w where w: "walk preds w" "last w = i" using assms(5) by (auto simp: reachable_def)
  then have "preds ! i \<noteq> []" using assms(3) by (cases rule: walk.cases) auto
  moreover have "j \<in> doms ! p" if p: "p \<in> set (preds ! i)" for p
  proof -
    have "p < length preds" using assms(1,4) p by (auto simp: graph_ok_def dest: nth_mem)
    then show ?thesis
      using assms(2,7) dominates_pred [OF assms(6) False assms(4) p] by (simp add: keeps_def)
  qed
  ultimately show ?thesis by (simp add: next_dominators_eq)
qed

lemma keeps_sweep:
  assumes "graph_ok preds" "\<forall>i < length preds. reachable preds i"
    and "keeps preds doms" "length doms = length preds" "\<forall>i \<in> set is. 0 < i \<and> i < length preds"
    and "fold (dominator_step preds) is (doms, ch) = (doms', ch')"
  shows "keeps preds doms' \<and> length doms' = length preds"
  using assms(3-)
proof (induction "is" arbitrary: doms ch)
  case Nil
  then show ?case by simp
next
  case (Cons i "is")
  have i: "0 < i" "i < length preds" using Cons.prems(3) by simp_all
  have k: "keeps preds (doms[i := next_dominators preds doms i])"
    using keeps_next [OF assms(1) Cons.prems(1) i] assms(2) i Cons.prems(1,2)
    by (auto simp: keeps_def nth_list_update)
  show ?case
  proof (cases "next_dominators preds doms i = doms ! i")
    case True
    then show ?thesis using Cons by (simp add: dominator_step_same)
  next
    case False
    then show ?thesis
      using Cons.IH [OF k] Cons.prems by (simp add: dominator_step_change)
  qed
qed

lemma keeps_loop:
  assumes "graph_ok preds" "\<forall>i < length preds. reachable preds i"
    and "dom_inv preds doms" "keeps preds doms" "dominator_loop preds doms = Some ds"
  shows "keeps preds ds"
  using assms(3-)
proof (induction "dom_weight doms" arbitrary: doms rule: less_induct)
  case less
  obtain d ch where sw: "dominator_sweep preds doms = (d, ch)" by fastforce
  then have f: "fold (dominator_step preds) [1..<length preds] (doms, False) = (d, ch)"
    by (simp add: dominator_sweep_def)
  have len: "length doms = length preds" using less.prems(1) by (simp add: dom_inv_def)
  have k: "keeps preds d"
    using keeps_sweep [OF assms(1,2) less.prems(2) len _ f] by simp
  show ?case
  proof (cases ch)
    case True
    then have "dom_inv preds d" "dom_weight d < dom_weight doms"
      using sweep_facts [OF less.prems(1) _ f] by auto
    moreover have "dominator_loop preds d = Some ds"
      using less.prems(3) True sw by (subst (asm) dominator_loop.simps) simp
    ultimately show ?thesis using less.hyps k by blast
  next
    case False
    then have "ds = d" using less.prems(3) sw by (subst (asm) dominator_loop.simps) simp
    with k show ?thesis by simp
  qed
qed

lemma keeps_initial:
  "graph_ok preds \<Longrightarrow> keeps preds (initial_dominators (length preds))"
  using dominates_entry by (auto simp: keeps_def initial_dominators_def graph_ok_def)

lemma compute_dominators_solves:
  "graph_ok preds \<Longrightarrow> \<exists>ds. compute_dominators preds = Some ds \<and> solves preds ds"
  unfolding compute_dominators_def by (rule dominator_loop_solves [OF dom_inv_initial])

text \<open>
  C5: on every control-flow graph the dominator loop stops, and a block it lists for a reachable
  block lies on every path from the entry to it; when all blocks are reachable the sets are
  exactly the dominators.
\<close>

theorem compute_dominators_correct:
  assumes "graph_ok preds"
  shows "\<exists>ds. compute_dominators preds = Some ds \<and>
    (\<forall>i j. reachable preds i \<longrightarrow> j \<in> ds ! i \<longrightarrow> dominates preds j i) \<and>
    ((\<forall>i < length preds. reachable preds i) \<longrightarrow>
      (\<forall>i < length preds. ds ! i = {j. j < length preds \<and> dominates preds j i}))"
proof -
  obtain ds where ds: "compute_dominators preds = Some ds" and sol: "solves preds ds"
    using compute_dominators_solves [OF assms] by blast
  have sound: "j \<in> ds ! i \<Longrightarrow> dominates preds j i" for i j
    unfolding dominates_def using solves_sound [OF sol] by blast
  have "ds ! i = {j. j < length preds \<and> dominates preds j i}"
    if all: "\<forall>i < length preds. reachable preds i" and i: "i < length preds" for i
  proof -
    have "keeps preds ds"
      using keeps_loop [OF assms all dom_inv_initial [OF assms] keeps_initial [OF assms]] ds
      by (simp add: compute_dominators_def)
    moreover have "ds ! i \<subseteq> {..< length preds}" using sol i by (simp add: solves_def dom_inv_def)
    ultimately show ?thesis using sound i by (auto simp: keeps_def)
  qed
  with ds sound show ?thesis by blast
qed

text \<open>A diamond: both arms are dominated by the entry, the join only by the entry and itself.\<close>

theorem compute_dominators_correct_witness:
  "\<exists>ds. compute_dominators [[], [0], [0], [1, 2]] = Some ds \<and> 1 \<notin> ds ! 3 \<and>
     dominates [[], [0], [0], [1, 2]] 0 3 \<and> \<not> dominates [[], [0], [0], [1, 2]] 1 3"
proof -
  let ?p = "[[], [0], [0], [1, 2]] :: nat list list"
  have ok: "graph_ok ?p" by (simp add: graph_ok_def)
  have w0: "walk ?p [0]" by (rule walk_entry)
  have w1: "walk ?p ([0] @ [1])" by (rule walk_edge [OF w0]) simp_all
  have w2: "walk ?p ([0] @ [2])" by (rule walk_edge [OF w0]) simp_all
  have w3: "walk ?p (([0] @ [2]) @ [3])" by (rule walk_edge [OF w2]) simp_all
  have "reachable ?p 0" "reachable ?p 1" "reachable ?p 2" "reachable ?p 3"
    unfolding reachable_def using w0 w1 w2 w3 by force+
  then have r: "\<forall>i < length ?p. reachable ?p i"
    by (simp add: less_Suc_eq numeral_eq_Suc)
  have ev: "compute_dominators ?p = Some [{0}, {0, 1}, {0, 2}, {0, 3}]"
    by code_simp
  from compute_dominators_correct [OF ok] r obtain ds where
      c: "compute_dominators ?p = Some ds"
      "\<forall>i < length ?p. ds ! i = {j. j < length ?p \<and> dominates ?p j i}" by blast
  have "ds = [{0}, {0, 1}, {0, 2}, {0, 3}]" using c(1) ev by (simp only: option.inject)
  then have "{0, 3} = {j. j < length ?p \<and> dominates ?p j 3}"
    using c(2) [rule_format, of 3] by simp
  moreover have "0 \<in> {0, 3 :: nat}" "1 \<notin> {0, 3 :: nat}" by simp_all
  ultimately have "0 \<in> {j. j < length ?p \<and> dominates ?p j 3}"
    "1 \<notin> {j. j < length ?p \<and> dominates ?p j 3}" by (simp_all only: not_False_eq_True)
  with ev show ?thesis by simp
qed

end
