(* ===== verification/IrCallGraph.thy ===== *)
theory IrCallGraph imports IrTypes begin

text \<open>
  The recursion check at the end of \<open>verify\<close> (\<open>compiler/ir/src/ir.cpp\<close>): a depth-first search
  with three colours over the direct device calls of a module.  Recursion that need not stop is
  a partial function into \<open>option\<close>; that it does stop is proved.
\<close>

section \<open>The search\<close>

datatype VisitState = kUnvisited | kVisiting | kVisited

type_synonym search = "(string \<Rightarrow> VisitState) \<times> Diagnostic list"

definition cycle_diagnostic :: "string \<Rightarrow> Diagnostic" where
  "cycle_diagnostic callee =
     \<lparr>dg_location = no_location,
      dg_message = ''recursive device-call cycle involving '' @ quoted callee @ '' is unsupported''\<rparr>"

text \<open>
  The loop over the callees of the function being visited; \<open>callees\<close> gives the callees of a
  function in the order its hash set iterates.  The nested call is \<open>visit\<close> of an unvisited
  callee: mark, loop over its callees, mark.
\<close>

partial_function (option) visit_callees ::
  "(string \<Rightarrow> string list) \<Rightarrow> string list \<Rightarrow> search \<Rightarrow> search option" where
  "visit_callees callees cs st =
     (case cs of
        [] \<Rightarrow> Some st
      | c # rest \<Rightarrow>
          if fst st c = kVisiting
          then visit_callees callees rest (fst st, snd st @ [cycle_diagnostic c])
          else if fst st c = kUnvisited
          then Option.bind (visit_callees callees (callees c) ((fst st)(c := kVisiting), snd st))
                 (\<lambda>st'. visit_callees callees rest ((fst st')(c := kVisited), snd st'))
          else visit_callees callees rest st)"

declare visit_callees.simps [code]

definition visit :: "(string \<Rightarrow> string list) \<Rightarrow> string \<Rightarrow> search \<Rightarrow> search option" where
  "visit callees f st =
     Option.bind (visit_callees callees (callees f) ((fst st)(f := kVisiting), snd st))
       (\<lambda>st'. Some ((fst st')(f := kVisited), snd st'))"

primrec visit_roots :: "(string \<Rightarrow> string list) \<Rightarrow> string list \<Rightarrow> search \<Rightarrow> search option" where
  "visit_roots callees [] st = Some st"
| "visit_roots callees (f # fs) st =
     (if fst st f = kUnvisited then Option.bind (visit callees f st) (visit_roots callees fs)
      else visit_roots callees fs st)"

definition search_calls :: "(string \<Rightarrow> string list) \<Rightarrow> string list \<Rightarrow> Diagnostic list option" where
  "search_calls callees names = map_option snd (visit_roots callees names (\<lambda>_. kUnvisited, []))"

section \<open>Unfolding\<close>

lemma visit_callees_Nil [simp]: "visit_callees callees [] st = Some st"
  by (subst visit_callees.simps) simp

lemma visit_callees_visiting:
  "fst st c = kVisiting \<Longrightarrow>
     visit_callees callees (c # cs) st = visit_callees callees cs (fst st, snd st @ [cycle_diagnostic c])"
  by (subst visit_callees.simps) simp

lemma visit_callees_visited:
  "fst st c = kVisited \<Longrightarrow> visit_callees callees (c # cs) st = visit_callees callees cs st"
  by (subst visit_callees.simps) simp

lemma visit_callees_unvisited:
  "fst st c = kUnvisited \<Longrightarrow>
     visit_callees callees (c # cs) st = Option.bind (visit callees c st) (visit_callees callees cs)"
  by (subst visit_callees.simps) (simp add: visit_def)

section \<open>It stops\<close>

definition marked :: "VisitState \<Rightarrow> search \<Rightarrow> string set" where
  "marked v st = {f. fst st f = v}"

definition closed_under :: "(string \<Rightarrow> string list) \<Rightarrow> string set \<Rightarrow> bool" where
  "closed_under callees V \<longleftrightarrow> (\<forall>f \<in> V. set (callees f) \<subseteq> V)"

text \<open>
  What one run of the loop leaves: the functions being visited are the same, finished ones
  stay finished, and diagnostics are only appended.
\<close>

definition extends :: "search \<Rightarrow> search \<Rightarrow> bool" where
  "extends st st' \<longleftrightarrow> marked kVisiting st' = marked kVisiting st \<and>
     marked kVisited st \<subseteq> marked kVisited st' \<and> (\<exists>ds. snd st' = snd st @ ds)"

lemma extends_refl: "extends st st"
  by (simp add: extends_def)

lemma extends_trans: "extends st st' \<Longrightarrow> extends st' st'' \<Longrightarrow> extends st st''"
  by (fastforce simp: extends_def)

lemma extends_visiting: "extends st st' \<Longrightarrow> fst st' f = kVisiting \<longleftrightarrow> fst st f = kVisiting"
  unfolding extends_def marked_def by blast

lemma extends_visited: "extends st st' \<Longrightarrow> fst st f = kVisited \<Longrightarrow> fst st' f = kVisited"
  unfolding extends_def marked_def by blast

lemma extends_unvisited:
  assumes "extends st st'"
  shows "marked kUnvisited st' \<subseteq> marked kUnvisited st"
proof
  fix f assume "f \<in> marked kUnvisited st'"
  then show "f \<in> marked kUnvisited st"
    using extends_visiting [OF assms, of f] extends_visited [OF assms, of f]
    by (cases "fst st f") (simp_all add: marked_def)
qed

lemma extends_visit:
  assumes "fst st c = kUnvisited" "extends ((fst st)(c := kVisiting), snd st) st'"
  shows "extends st ((fst st')(c := kVisited), snd st')"
  using assms by (auto simp: extends_def marked_def set_eq_iff split: if_splits)

lemma visit_callees_total:
  assumes "finite V" "closed_under callees V" "set cs \<subseteq> V"
  shows "\<exists>st'. visit_callees callees cs st = Some st' \<and> extends st st'"
  using assms(3)
proof (induction "(card (marked kUnvisited st \<inter> V), length cs)" arbitrary: cs st
    rule: wf_induct_rule [OF wf_lex_prod [OF wf_less wf_less]])
  case 1
  have ih: "\<exists>st'. visit_callees callees cs' st0 = Some st' \<and> extends st0 st'"
    if "card (marked kUnvisited st0 \<inter> V) < card (marked kUnvisited st \<inter> V) \<or>
        card (marked kUnvisited st0 \<inter> V) = card (marked kUnvisited st \<inter> V) \<and> length cs' < length cs"
      "set cs' \<subseteq> V" for cs' st0
    using 1(1) [of st0 cs'] that by auto
  show ?case
  proof (cases cs)
    case Nil
    then show ?thesis by (simp add: extends_refl)
  next
    case (Cons c rest)
    have tail: "\<exists>st2. visit_callees callees rest st1 = Some st2 \<and> extends st1 st2"
      if "extends st st1" for st1
    proof -
      have "card (marked kUnvisited st1 \<inter> V) \<le> card (marked kUnvisited st \<inter> V)"
        using extends_unvisited [OF that] assms(1) by (intro card_mono) auto
      then show ?thesis using ih [of st1 rest] 1(2) Cons by (simp add: le_eq_less_or_eq)
    qed
    show ?thesis
    proof (cases "fst st c")
      case kVisited
      with tail [OF extends_refl] Cons show ?thesis by (simp add: visit_callees_visited)
    next
      case kVisiting
      have e: "extends st (fst st, snd st @ [cycle_diagnostic c])"
        by (simp add: extends_def marked_def)
      from tail [OF e] extends_trans [OF e] kVisiting Cons show ?thesis
        by (auto simp: visit_callees_visiting)
    next
      case kUnvisited
      let ?st = "((fst st)(c := kVisiting), snd st)"
      have c: "c \<in> V" using 1(2) Cons by simp
      have "marked kUnvisited ?st \<inter> V \<subset> marked kUnvisited st \<inter> V"
        using c kUnvisited by (auto simp: marked_def)
      then have "card (marked kUnvisited ?st \<inter> V) < card (marked kUnvisited st \<inter> V)"
        using assms(1) by (intro psubset_card_mono) auto
      moreover have "set (callees c) \<subseteq> V" using assms(2) c by (simp add: closed_under_def)
      ultimately obtain st1 where st1: "visit_callees callees (callees c) ?st = Some st1" "extends ?st st1"
        using ih [of ?st "callees c"] by blast
      let ?st1 = "((fst st1)(c := kVisited), snd st1)"
      have e: "extends st ?st1" by (rule extends_visit [OF kUnvisited st1(2)])
      from tail [OF e] obtain st2 where "visit_callees callees rest ?st1 = Some st2" "extends ?st1 st2"
        by blast
      with st1 Cons kUnvisited extends_trans [OF e] show ?thesis
        by (auto simp: visit_callees_unvisited visit_def)
    qed
  qed
qed

section \<open>What it finds\<close>

lemma visit_callees_induct [consumes 1, case_names Nil visiting visited unvisited]:
  assumes run: "visit_callees callees cs st = Some st'"
    and n: "\<And>st. P [] st st"
    and g: "\<And>c cs st st'. fst st c = kVisiting \<Longrightarrow> P cs (fst st, snd st @ [cycle_diagnostic c]) st' \<Longrightarrow>
      P (c # cs) st st'"
    and b: "\<And>c cs st st'. fst st c = kVisited \<Longrightarrow> P cs st st' \<Longrightarrow> P (c # cs) st st'"
    and w: "\<And>c cs st st1 st'. fst st c = kUnvisited \<Longrightarrow>
      P (callees c) ((fst st)(c := kVisiting), snd st) st1 \<Longrightarrow>
      P cs ((fst st1)(c := kVisited), snd st1) st' \<Longrightarrow> P (c # cs) st st'"
  shows "P cs st st'"
proof -
  have "h = callees \<longrightarrow> P cs st st'" if "visit_callees h cs st = Some st'" for h
  proof (rule visit_callees.raw_induct [where P = "\<lambda>h cs st st'. h = callees \<longrightarrow> P cs st st'", OF _ that])
    fix vc :: "(string \<Rightarrow> string list) \<Rightarrow> string list \<Rightarrow> search \<Rightarrow> search option" and h cs st st'
    assume 1: "\<And>h cs st st'. vc h cs st = Some st' \<Longrightarrow> h = callees \<longrightarrow> P cs st st'"
      "(case cs of [] \<Rightarrow> Some st
        | c # rest \<Rightarrow>
          if fst st c = kVisiting then vc h rest (fst st, snd st @ [cycle_diagnostic c])
          else if fst st c = kUnvisited
          then Option.bind (vc h (h c) ((fst st)(c := kVisiting), snd st))
                 (\<lambda>st'. vc h rest ((fst st')(c := kVisited), snd st'))
          else vc h rest st) = Some st'"
    show "h = callees \<longrightarrow> P cs st st'"
    proof
      assume h: "h = callees"
      show "P cs st st'"
      proof (cases cs)
        case Nil
        with 1(2) n show ?thesis by simp
      next
        case (Cons c rest)
        show ?thesis
        proof (cases "fst st c")
          case kVisiting
          then show ?thesis using 1(1) [of h rest] 1(2) Cons h g by simp
        next
          case kVisited
          then show ?thesis using 1(1) [of h rest] 1(2) Cons h b by simp
        next
          case kUnvisited
          then obtain st1 where "vc h (callees c) ((fst st)(c := kVisiting), snd st) = Some st1"
            "vc h rest ((fst st1)(c := kVisited), snd st1) = Some st'"
            using 1(2) Cons h by (auto simp: bind_eq_Some_conv)
          then show ?thesis using 1(1) [THEN mp, OF _ h] w [OF kUnvisited, of st1 rest st'] Cons by blast
        qed
      qed
    qed
  qed
  with run show ?thesis by blast
qed

lemma visit_callees_extends: "visit_callees callees cs st = Some st' \<Longrightarrow> extends st st'"
proof (induction rule: visit_callees_induct)
  case (Nil st)
  show ?case by (rule extends_refl)
next
  case (visiting c cs st st')
  have "extends st (fst st, snd st @ [cycle_diagnostic c])" by (simp add: extends_def marked_def)
  from extends_trans [OF this visiting.IH] show ?case .
next
  case (visited c cs st st')
  then show ?case by simp
next
  case (unvisited c cs st st1 st')
  from extends_trans [OF extends_visit [OF unvisited.hyps unvisited.IH(1)] unvisited.IH(2)]
  show ?case .
qed

definition call_edges :: "(string \<Rightarrow> string list) \<Rightarrow> (string \<times> string) set" where
  "call_edges callees = {(f, g). g \<in> set (callees f)}"

text \<open>The finished functions are closed under calls and have no recursion among them.\<close>

definition settled :: "(string \<Rightarrow> string list) \<Rightarrow> string set \<Rightarrow> bool" where
  "settled callees B \<longleftrightarrow> closed_under callees B \<and> acyclic (call_edges callees \<inter> B \<times> B)"

lemma acyclic_source:
  assumes "c \<notin> Range R" "acyclic {(u, v) \<in> R. u \<noteq> c}"
  shows "acyclic R"
proof -
  let ?S = "{(u, v) \<in> R. u \<noteq> c}"
  have "(x, y) \<in> ?S\<^sup>+" if "(x, y) \<in> R\<^sup>+" "x \<noteq> c" for x y
    using that(1)
  proof (induction rule: trancl_induct)
    case (base y)
    then show ?case using that(2) by (intro r_into_trancl) simp
  next
    case (step y z)
    have "y \<noteq> c" using step.hyps(1) assms(1) by (metis RangeI trancl_range)
    then show ?case using step by (intro trancl_into_trancl [OF step.IH]) simp
  qed
  moreover have "x \<noteq> c" if "(x, x) \<in> R\<^sup>+" for x
    using that assms(1) by (metis RangeI trancl_range)
  ultimately show ?thesis using assms(2) unfolding acyclic_def by blast
qed

lemma settled_insert:
  assumes "settled callees B" "c \<notin> B" "set (callees c) \<subseteq> B"
  shows "settled callees (insert c B)"
proof -
  let ?E = "call_edges callees \<inter> insert c B \<times> insert c B"
  have "c \<notin> Range ?E"
    using assms by (auto simp: call_edges_def settled_def closed_under_def)
  moreover have "{(u, v) \<in> ?E. u \<noteq> c} \<subseteq> call_edges callees \<inter> B \<times> B"
    using assms by (auto simp: call_edges_def settled_def closed_under_def)
  then have "acyclic {(u, v) \<in> ?E. u \<noteq> c}"
    using assms(1) acyclic_subset unfolding settled_def by blast
  ultimately have "acyclic ?E" by (rule acyclic_source)
  then show ?thesis
    using assms by (auto simp: settled_def closed_under_def)
qed

lemma marked_visited_upd:
  "marked kVisited ((fst st)(c := kVisited), ds) = insert c (marked kVisited st)"
  "fst st c = kUnvisited \<Longrightarrow> marked kVisited ((fst st)(c := kVisiting), ds) = marked kVisited st"
  by (auto simp: marked_def)

lemma visit_callees_silent:
  "visit_callees callees cs st = Some st' \<Longrightarrow> extends st st' \<and>
     (snd st' = snd st \<longrightarrow> settled callees (marked kVisited st) \<longrightarrow>
       settled callees (marked kVisited st') \<and> set cs \<subseteq> marked kVisited st')"
proof (induction rule: visit_callees_induct)
  case (Nil st)
  then show ?case by (simp add: extends_refl)
next
  case (visiting c cs st st')
  have "extends st (fst st, snd st @ [cycle_diagnostic c])" by (simp add: extends_def marked_def)
  with visiting.IH have e: "extends st st'" using extends_trans by blast
  moreover have "snd st' \<noteq> snd st" using visiting.IH by (auto simp: extends_def)
  ultimately show ?case by simp
next
  case (visited c cs st st')
  then show ?case using extends_visited by (fastforce simp: marked_def)
next
  case (unvisited c cs st st1 st')
  let ?s0 = "((fst st)(c := kVisiting), snd st)" and ?s1 = "((fst st1)(c := kVisited), snd st1)"
  have e0: "extends ?s0 st1" and e2: "extends ?s1 st'" using unvisited.IH by auto
  have e1: "extends st ?s1" by (rule extends_visit [OF unvisited.hyps e0])
  show ?case
  proof (intro conjI impI)
    show "extends st st'" by (rule extends_trans [OF e1 e2])
  next
    assume quiet: "snd st' = snd st" and set0: "settled callees (marked kVisited st)"
    obtain d0 d2 where "snd st1 = snd st @ d0" "snd st' = snd st1 @ d2"
      using e0 e2 by (auto simp: extends_def)
    with quiet have q: "snd st1 = snd st" "snd st' = snd st1" by simp_all
    have "settled callees (marked kVisited ?s0)"
      using set0 unvisited.hyps by (simp add: marked_visited_upd)
    then have s1: "settled callees (marked kVisited st1)" "set (callees c) \<subseteq> marked kVisited st1"
      using unvisited.IH(1) q(1) by simp_all
    have "c \<notin> marked kVisited st1"
      using extends_visiting [OF e0, of c] by (simp add: marked_def)
    from settled_insert [OF s1(1) this s1(2)]
    have "settled callees (marked kVisited ?s1)" by (simp add: marked_visited_upd)
    then have "settled callees (marked kVisited st')" "set cs \<subseteq> marked kVisited st'"
      using unvisited.IH(2) q(2) by simp_all
    moreover have "c \<in> marked kVisited st'"
      using extends_visited [OF e2, of c] by (simp add: marked_def)
    ultimately show "settled callees (marked kVisited st')" "set (c # cs) \<subseteq> marked kVisited st'"
      by simp_all
  qed
qed

text \<open>A diagnostic names a function that can call itself.\<close>

definition on_cycle :: "(string \<Rightarrow> string list) \<Rightarrow> Diagnostic \<Rightarrow> bool" where
  "on_cycle callees d \<longleftrightarrow> (\<exists>c. d = cycle_diagnostic c \<and> (c, c) \<in> (call_edges callees)\<^sup>+)"

definition calls_all :: "(string \<Rightarrow> string list) \<Rightarrow> string set \<Rightarrow> string list \<Rightarrow> bool" where
  "calls_all callees G cs \<longleftrightarrow> (\<forall>g \<in> G. \<forall>c \<in> set cs. (g, c) \<in> (call_edges callees)\<^sup>+)"

lemma calls_all_nested:
  assumes "calls_all callees G (c # cs)"
  shows "calls_all callees (insert c G) (callees c)"
proof -
  have "(c, d) \<in> call_edges callees" if "d \<in> set (callees c)" for d
    using that by (simp add: call_edges_def)
  then show ?thesis
    using assms unfolding calls_all_def by (auto intro: trancl_into_trancl)
qed

lemma visit_callees_sound:
  "visit_callees callees cs st = Some st' \<Longrightarrow> extends st st' \<and>
     (calls_all callees (marked kVisiting st) cs \<longrightarrow>
       (\<exists>ds. snd st' = snd st @ ds \<and> (\<forall>d \<in> set ds. on_cycle callees d)))"
proof (induction rule: visit_callees_induct)
  case (Nil st)
  then show ?case by (simp add: extends_refl)
next
  case (visiting c cs st st')
  let ?s = "(fst st, snd st @ [cycle_diagnostic c])"
  have m: "marked kVisiting ?s = marked kVisiting st" by (simp add: marked_def)
  have e: "extends st ?s" by (simp add: extends_def marked_def)
  show ?case
  proof (intro conjI impI)
    show "extends st st'" using extends_trans [OF e] visiting.IH by blast
  next
    assume all: "calls_all callees (marked kVisiting st) (c # cs)"
    then have "(c, c) \<in> (call_edges callees)\<^sup>+"
      using visiting.hyps by (simp add: calls_all_def marked_def)
    then have "on_cycle callees (cycle_diagnostic c)" by (auto simp: on_cycle_def)
    moreover have "calls_all callees (marked kVisiting ?s) cs" using all m by (simp add: calls_all_def)
    ultimately show "\<exists>ds. snd st' = snd st @ ds \<and> (\<forall>d \<in> set ds. on_cycle callees d)"
      using visiting.IH by auto
  qed
next
  case (visited c cs st st')
  then show ?case by (simp add: calls_all_def)
next
  case (unvisited c cs st st1 st')
  let ?s0 = "((fst st)(c := kVisiting), snd st)" and ?s1 = "((fst st1)(c := kVisited), snd st1)"
  have e0: "extends ?s0 st1" and e2: "extends ?s1 st'" using unvisited.IH by auto
  have e1: "extends st ?s1" by (rule extends_visit [OF unvisited.hyps e0])
  have m0: "marked kVisiting ?s0 = insert c (marked kVisiting st)" by (auto simp: marked_def)
  have m1: "marked kVisiting ?s1 = marked kVisiting st" using e1 by (simp add: extends_def)
  show ?case
  proof (intro conjI impI)
    show "extends st st'" by (rule extends_trans [OF e1 e2])
  next
    assume all: "calls_all callees (marked kVisiting st) (c # cs)"
    have "calls_all callees (marked kVisiting ?s0) (callees c)"
      unfolding m0 by (rule calls_all_nested [OF all])
    then obtain d0 where d0: "snd st1 = snd st @ d0" "\<forall>d \<in> set d0. on_cycle callees d"
      using unvisited.IH(1) by auto
    have "calls_all callees (marked kVisiting ?s1) cs" using all m1 by (simp add: calls_all_def)
    then obtain d1 where "snd st' = snd st1 @ d1" "\<forall>d \<in> set d1. on_cycle callees d"
      using unvisited.IH(2) by auto
    with d0 show "\<exists>ds. snd st' = snd st @ ds \<and> (\<forall>d \<in> set ds. on_cycle callees d)" by auto
  qed
qed

lemma visit_as_loop: "fst st f = kUnvisited \<Longrightarrow> visit callees f st = visit_callees callees [f] st"
  by (cases "visit callees f st") (simp_all add: visit_callees_unvisited)

lemma visit_roots_facts:
  assumes "finite V" "closed_under callees V" "set fs \<subseteq> V" "marked kVisiting st = {}"
  shows "\<exists>st' ds. visit_roots callees fs st = Some st' \<and> marked kVisiting st' = {} \<and>
    marked kVisited st \<subseteq> marked kVisited st' \<and>
    snd st' = snd st @ ds \<and> (\<forall>d \<in> set ds. on_cycle callees d) \<and>
    (ds = [] \<longrightarrow> settled callees (marked kVisited st) \<longrightarrow>
      settled callees (marked kVisited st') \<and> set fs \<subseteq> marked kVisited st')"
  using assms(3,4)
proof (induction fs arbitrary: st)
  case Nil
  then show ?case by simp
next
  case (Cons f fs)
  show ?case
  proof (cases "fst st f = kUnvisited")
    case False
    have "fst st f \<noteq> kVisiting" using Cons.prems(2) by (auto simp: marked_def)
    with False have f: "f \<in> marked kVisited st" by (cases "fst st f") (simp_all add: marked_def)
    have "set fs \<subseteq> V" using Cons.prems(1) by simp
    from Cons.IH [OF this Cons.prems(2)] obtain st2 d2 where
        "visit_roots callees fs st = Some st2" "marked kVisiting st2 = {}"
        and b: "marked kVisited st \<subseteq> marked kVisited st2"
        and "snd st2 = snd st @ d2" "\<forall>d \<in> set d2. on_cycle callees d"
        "d2 = [] \<longrightarrow> settled callees (marked kVisited st) \<longrightarrow>
           settled callees (marked kVisited st2) \<and> set fs \<subseteq> marked kVisited st2" by blast
    moreover have "f \<in> marked kVisited st2" using f b by blast
    ultimately show ?thesis using False by (intro exI [of _ st2] exI [of _ d2]) simp
  next
    case True
    obtain st1 where run: "visit_callees callees [f] st = Some st1" and e: "extends st st1"
      using visit_callees_total [OF assms(1,2), of "[f]" st] Cons.prems(1) by auto
    have g: "marked kVisiting st1 = {}" using e Cons.prems(2) by (simp add: extends_def)
    obtain d1 where d1: "snd st1 = snd st @ d1" "\<forall>d \<in> set d1. on_cycle callees d"
      using visit_callees_sound [OF run] Cons.prems(2) by (auto simp: calls_all_def)
    have "set fs \<subseteq> V" using Cons.prems(1) by simp
    from Cons.IH [OF this g] obtain st2 d2 where
        s2: "visit_roots callees fs st1 = Some st2" "marked kVisiting st2 = {}"
          "marked kVisited st1 \<subseteq> marked kVisited st2" "snd st2 = snd st1 @ d2"
          "\<forall>d \<in> set d2. on_cycle callees d"
          "d2 = [] \<longrightarrow> settled callees (marked kVisited st1) \<longrightarrow>
             settled callees (marked kVisited st2) \<and> set fs \<subseteq> marked kVisited st2" by blast
    have "visit_roots callees (f # fs) st = Some st2"
      using True run s2(1) by (simp add: visit_as_loop)
    moreover have "marked kVisited st \<subseteq> marked kVisited st2"
      using e s2(3) by (auto simp: extends_def)
    moreover have "snd st2 = snd st @ (d1 @ d2)" "\<forall>d \<in> set (d1 @ d2). on_cycle callees d"
      using d1 s2(4,5) by auto
    moreover have "settled callees (marked kVisited st2) \<and> set (f # fs) \<subseteq> marked kVisited st2"
      if "d1 @ d2 = []" "settled callees (marked kVisited st)"
      using visit_callees_silent [OF run] d1(1) that s2(3,6) by auto
    ultimately show ?thesis using s2(2) by blast
  qed
qed

definition calls_within :: "(string \<Rightarrow> string list) \<Rightarrow> string list \<Rightarrow> bool" where
  "calls_within callees names \<longleftrightarrow>
     (\<forall>f. set (callees f) \<subseteq> set names \<and> (callees f \<noteq> [] \<longrightarrow> f \<in> set names))"

lemma search_calls_facts:
  assumes "calls_within callees names"
  shows "\<exists>ds. search_calls callees names = Some ds \<and> (\<forall>d \<in> set ds. on_cycle callees d) \<and>
    (ds = [] \<longleftrightarrow> acyclic (call_edges callees))"
proof -
  let ?s = "(\<lambda>_. kUnvisited, []) :: search"
  have cl: "closed_under callees (set names)"
    using assms by (simp add: calls_within_def closed_under_def)
  have none: "marked kVisiting ?s = {}" "marked kVisited ?s = {}" by (simp_all add: marked_def)
  obtain st' ds where st': "visit_roots callees names ?s = Some st'" "snd st' = ds"
      "\<forall>d \<in> set ds. on_cycle callees d"
      "ds = [] \<longrightarrow> settled callees {} \<longrightarrow>
         settled callees (marked kVisited st') \<and> set names \<subseteq> marked kVisited st'"
    using visit_roots_facts [OF finite_set cl subset_refl none(1)] none(2) by auto
  have "acyclic (call_edges callees)" if "ds = []"
  proof -
    have "settled callees {}" by (simp add: settled_def closed_under_def acyclic_def)
    with st'(4) that have b: "acyclic (call_edges callees \<inter> marked kVisited st' \<times> marked kVisited st')"
      "set names \<subseteq> marked kVisited st'" by (simp_all add: settled_def)
    have "call_edges callees \<subseteq> set names \<times> set names"
      using assms by (fastforce simp: call_edges_def calls_within_def)
    with b show ?thesis by (metis Int_absorb2 Sigma_mono subset_trans)
  qed
  moreover have "ds = []" if "acyclic (call_edges callees)"
  proof (rule ccontr)
    assume "ds \<noteq> []"
    then have "on_cycle callees (hd ds)" using st'(3) by simp
    then show False using that by (auto simp: on_cycle_def acyclic_def)
  qed
  moreover have "search_calls callees names = Some ds"
    using st'(1,2) by (simp add: search_calls_def)
  ultimately show ?thesis using st'(3) by blast
qed

text \<open>
  C6: the three-colour search stops on every module whose calls stay inside it, reports nothing
  exactly when no function can call itself directly or indirectly, and every function it
  reports does lie on such a cycle, whatever order the hash sets iterate in.
\<close>

theorem search_calls_correct:
  assumes "calls_within callees names"
  shows "\<exists>ds. search_calls callees names = Some ds \<and> (ds = [] \<longleftrightarrow> acyclic (call_edges callees)) \<and>
    (\<forall>d \<in> set ds. \<exists>c. d = cycle_diagnostic c \<and> (c, c) \<in> (call_edges callees)\<^sup>+)"
  using search_calls_facts [OF assms] unfolding on_cycle_def by blast

theorem search_calls_correct_witness:
  "\<exists>ds. search_calls (\<lambda>f. if f = ''a'' then [''b''] else if f = ''b'' then [''a''] else [])
      [''a'', ''b'', ''c''] = Some ds \<and> ds \<noteq> []"
proof -
  let ?g = "\<lambda>f. if f = ''a'' then [''b''] else if f = ''b'' then [''a''] else []"
  have w: "calls_within ?g [''a'', ''b'', ''c'']" by (simp add: calls_within_def)
  have ab: "(''a'', ''b'') \<in> call_edges ?g" and ba: "(''b'', ''a'') \<in> call_edges ?g"
    by (simp_all add: call_edges_def)
  have "(''a'', ''a'') \<in> (call_edges ?g)\<^sup>+"
    by (rule trancl_into_trancl [OF r_into_trancl [OF ab] ba])
  then have "\<not> acyclic (call_edges ?g)" unfolding acyclic_def by blast
  then show ?thesis using search_calls_correct [OF w] by (elim exE conjE) (rule exI, rule conjI, assumption, simp only: simp_thms)
qed

end
