(* ===== verification/IrVerify.thy ===== *)
theory IrVerify imports IrDominators IrCallGraph begin

text \<open>
  \<open>verify\<close> of \<open>compiler/ir/src/ir.cpp\<close>: every diagnostic of every check, in the order the code
  appends them.  Each pass over a function is a recursive function that returns what the pass
  builds (the block table, the predecessor lists, the value definitions) with the diagnostics
  of the pass.  The order in which a hash set iterates is the argument \<open>order\<close>.
\<close>

section \<open>Passes over one function\<close>

definition dg :: "SourceLocation \<Rightarrow> string \<Rightarrow> Diagnostic" where
  "dg l msg = \<lparr>dg_location = l, dg_message = msg\<rparr>"

definition guard_dg :: "bool \<Rightarrow> SourceLocation \<Rightarrow> string \<Rightarrow> Diagnostic list" where
  "guard_dg c l msg = (if c then [dg l msg] else [])"

text \<open>\<open>function_names\<close> in insertion order, and the diagnostics of the insertion loop.\<close>

fun collect_names :: "Function list \<Rightarrow> string list \<Rightarrow> string list \<times> Diagnostic list" where
  "collect_names [] names = (names, [])"
| "collect_names (f # fs) names =
     (if fn_name f = [] \<or> fn_name f \<in> set names
      then (case collect_names fs names of (names', ds) \<Rightarrow>
              (names', dg no_location ''function names must be non-empty and unique'' # ds))
      else collect_names fs (names @ [fn_name f]))"

definition header_diagnostics :: "Function \<Rightarrow> Diagnostic list" where
  "header_diagnostics f =
     guard_dg (fn_is_kernel f \<and> fn_kernel_abi f = None) no_location
       (''kernel '' @ quoted (fn_name f) @ '' is missing ABI metadata'') @
     guard_dg (\<exists>abi \<in> set_option (fn_kernel_abi f). ka_required_simd_width abi \<noteq> 32) no_location
       (''kernel '' @ quoted (fn_name f) @ '' must require SIMD width 32'') @
     concat (map (\<lambda>a. guard_dg (is_pointer (fa_type a) \<and> fn_pointer_provenance f (fa_value a) = None)
       no_location (''pointer argument '' @ quoted (fa_name a) @ '' is missing pointer provenance''))
       (fn_arguments f))"

type_synonym block_table = "BlockId \<Rightarrow> nat option"

text \<open>The first loop over the blocks: indices by number, names, terminators.\<close>

definition terminator_diagnostics :: "BasicBlock \<Rightarrow> Diagnostic list" where
  "terminator_diagnostics b =
     guard_dg (bb_operations b = [] \<or> \<not> is_terminator (last (bb_operations b))) no_location
       (''block '' @ quoted (bb_name b) @ '' is missing a terminator'') @
     concat (map (\<lambda>x. guard_dg (is_terminator x) (op_location x)
       (''terminator must be the final operation in block '' @ quoted (bb_name b)))
       (butlast (bb_operations b)))"

fun register_blocks ::
  "string \<Rightarrow> nat \<Rightarrow> BasicBlock list \<Rightarrow> block_table \<Rightarrow> string set \<Rightarrow> block_table \<times> Diagnostic list" where
  "register_blocks fname i [] table names = (table, [])"
| "register_blocks fname i (b # bs) table names =
     (let bad_id = (bb_id b = 0 \<or> table (bb_id b) \<noteq> None);
          bad_name = (bb_name b = [] \<or> bb_name b \<in> names)
      in case register_blocks fname (Suc i) bs
                (if bad_id then table else table(bb_id b \<mapsto> i))
                (if bad_name then names else insert (bb_name b) names) of
           (table', ds) \<Rightarrow> (table',
             guard_dg bad_id no_location
               (''function '' @ quoted fname @ '' has duplicate/invalid block IDs'') @
             guard_dg bad_name no_location
               (''function '' @ quoted fname @ '' has duplicate/empty block names'') @
             terminator_diagnostics b @ ds))"

text \<open>Every control-flow edge, in the order the nested loops reach it.\<close>

definition edges_of :: "BasicBlock list \<Rightarrow> (nat \<times> BasicBlock \<times> Operation \<times> Successor) list" where
  "edges_of bs = concat (map (\<lambda>(i, b). concat (map (\<lambda>x. map (\<lambda>s. (i, b, x, s)) (op_successors x))
                   (bb_operations b))) (List.enumerate 0 bs))"

fun register_edges ::
  "block_table \<Rightarrow> BasicBlock list \<Rightarrow> (nat \<times> BasicBlock \<times> Operation \<times> Successor) list \<Rightarrow>
     nat list list \<Rightarrow> nat list list \<times> Diagnostic list" where
  "register_edges table bs [] preds = (preds, [])"
| "register_edges table bs ((i, b, x, s) # es) preds =
     (case table (su_block s) of
        None \<Rightarrow> (case register_edges table bs es preds of (preds', ds) \<Rightarrow> (preds',
                   dg (op_location x) (''operation in block '' @ quoted (bb_name b) @
                     '' targets an unknown block'') # ds))
      | Some t \<Rightarrow>
          (case register_edges table bs es (preds[t := preds ! t @ [i]]) of (preds', ds) \<Rightarrow> (preds',
             guard_dg (length (su_arguments s) \<noteq> length (bb_arguments (bs ! t))) (op_location x)
               (''edge to block '' @ quoted (bb_name (bs ! t)) @
                '' supplies the wrong number of block arguments'') @ ds)))"

record ValueDefinition =
  vd_type :: Type
  vd_block :: BlockId
  vd_operation_index :: nat
  vd_function_argument :: bool
  vd_block_argument :: bool

type_synonym value_table = "ValueId \<Rightarrow> ValueDefinition option"

text \<open>
  What the definition pass meets: a diagnostic of its own, or a value to enter into the table
  with the diagnostic for the case that it is invalid or already there.
\<close>

datatype definition_item = Report Diagnostic | Define ValueId ValueDefinition Diagnostic

definition argument_items :: "Function \<Rightarrow> definition_item list" where
  "argument_items f = map (\<lambda>a. Define (fa_value a)
     \<lparr>vd_type = fa_type a, vd_block = 0, vd_operation_index = 0, vd_function_argument = True,
      vd_block_argument = False\<rparr>
     (dg no_location (''function '' @ quoted (fn_name f) @ '' has duplicate/invalid argument values'')))
     (fn_arguments f)"

definition result_type :: "Operation \<Rightarrow> nat \<Rightarrow> Type" where
  "result_type x r = (if r < length (op_result_types x) then op_result_types x ! r else void_type)"

definition operation_items :: "BasicBlock \<Rightarrow> nat \<times> Operation \<Rightarrow> definition_item list" where
  "operation_items b kx = (case kx of (k, x) \<Rightarrow>
     map Report (guard_dg (length (op_results x) \<noteq> length (op_result_types x)) (op_location x)
                   ''operation result/type arity mismatch'') @
     map (\<lambda>(r, v). Define v
            \<lparr>vd_type = result_type x r, vd_block = bb_id b, vd_operation_index = k,
             vd_function_argument = False, vd_block_argument = False\<rparr>
            (dg (op_location x) ''operation defines a duplicate/invalid value''))
       (List.enumerate 0 (op_results x)))"

definition block_items :: "BasicBlock \<Rightarrow> definition_item list" where
  "block_items b =
     map (\<lambda>a. Define (ba_value a)
        \<lparr>vd_type = ba_type a, vd_block = bb_id b, vd_operation_index = 0,
         vd_function_argument = False, vd_block_argument = True\<rparr>
        (dg no_location (''block '' @ quoted (bb_name b) @ '' has duplicate/invalid argument values'')))
       (bb_arguments b) @
     concat (map (operation_items b) (List.enumerate 0 (bb_operations b)))"

definition function_items :: "Function \<Rightarrow> definition_item list" where
  "function_items f = argument_items f @ concat (map block_items (fn_blocks f))"

fun define_values :: "definition_item list \<Rightarrow> value_table \<Rightarrow> value_table \<times> Diagnostic list" where
  "define_values [] defs = (defs, [])"
| "define_values (Report d # is) defs =
     (case define_values is defs of (defs', ds) \<Rightarrow> (defs', d # ds))"
| "define_values (Define v vd d # is) defs =
     (if v = 0 \<or> defs v \<noteq> None
      then (case define_values is defs of (defs', ds) \<Rightarrow> (defs', d # ds))
      else define_values is (defs(v \<mapsto> vd)))"

text \<open>The checks on one operand: defined, of the recorded type, defined before, dominating.\<close>

definition operand_diagnostics ::
  "block_table \<Rightarrow> nat set list \<Rightarrow> value_table \<Rightarrow> nat \<Rightarrow> nat \<Rightarrow> Operation \<Rightarrow> Operand \<Rightarrow> Diagnostic list" where
  "operand_diagnostics table doms defs i k x operand =
     (if opd_kind operand \<noteq> OkValue then []
      else case defs (opd_value operand) of
        None \<Rightarrow> [dg (op_location x) (''operation uses undefined value %'' @ show_u32 (opd_value operand))]
      | Some vd \<Rightarrow>
          guard_dg (opd_type operand \<noteq> vd_type vd) (op_location x)
            (''operand type '' @ type_str (opd_type operand) @ '' does not match value %'' @
             show_u32 (opd_value operand) @ '' type '' @ type_str (vd_type vd)) @
          (if vd_function_argument vd then []
           else case table (vd_block vd) of
             None \<Rightarrow> []
           | Some d \<Rightarrow>
               if d = i
               then guard_dg (\<not> vd_block_argument vd \<and> k \<le> vd_operation_index vd) (op_location x)
                      (''value %'' @ show_u32 (opd_value operand) @ '' is used before its definition'')
               else guard_dg (d \<notin> doms ! i) (op_location x)
                      (''value %'' @ show_u32 (opd_value operand) @ '' does not dominate its use'')))"

definition attribute :: "Operation \<Rightarrow> string \<Rightarrow> string option" where
  "attribute x k = map_of (op_attributes x) k"

text \<open>The rules of the single opcodes, before the call rule.\<close>

definition opcode_diagnostics :: "IrStage \<Rightarrow> Operation \<Rightarrow> Diagnostic list" where
  "opcode_diagnostics stage x =
     guard_dg (op_opcode x = kAddressSpaceCast \<and> op_operands x \<noteq> [] \<and> op_result_types x \<noteq> [] \<and>
         (\<not> is_pointer (opd_type (hd (op_operands x))) \<or> \<not> is_pointer (hd (op_result_types x)) \<or>
          t_space (opd_type (hd (op_operands x))) = AsNone \<or> t_space (hd (op_result_types x)) = AsNone))
       (op_location x) ''address-space casts require explicit pointer address spaces'' @
     guard_dg (op_opcode x = kBarrier \<and> attribute x ''predicate'' \<noteq> None) (op_location x)
       ''predicated barriers are not legal in CuMetal GPU IR'' @
     (if op_opcode x = kAtomic then
        guard_dg (op_ordering x = MoNone \<or> op_scope x = MsNone) (op_location x)
          ''atomic operation requires typed memory ordering and scope'' @
        guard_dg (op_scope x = MsSystem \<and> attribute x ''metal_uma_system_scope'' \<noteq> Some ''true'')
          (op_location x) ''system-scope atomics require an explicit backend policy'' @
        guard_dg (op_ordering x = MoSequentiallyConsistent) (op_location x)
          ''sequentially-consistent atomics require an explicit backend policy''
      else []) @
     guard_dg (stage = GpuSemantic \<and> is_metal_opcode (op_opcode x)) (op_location x)
       ''Metal operation is illegal before Metal legalization'' @
     guard_dg (stage = MetalLegalized \<and> is_gpu_semantic_opcode (op_opcode x)) (op_location x)
       ''GPU semantic operation survived Metal legalization''"

text \<open>The call rule: diagnostics, and the callee it enters into the call graph.\<close>

definition call_check :: "string list \<Rightarrow> Operation \<Rightarrow> Diagnostic list \<times> string list" where
  "call_check names x =
     (if op_opcode x \<noteq> kCall then ([], [])
      else case attribute x ''callee'' of
        None \<Rightarrow> ([dg (op_location x) ''device calls must be direct and resolve within the module''], [])
      | Some callee \<Rightarrow>
          if attribute x ''indirect'' = Some ''true''
          then ([dg (op_location x) ''device calls must be direct and resolve within the module''], [])
          else if attribute x ''builtin'' \<noteq> Some ''true'' \<and> callee \<notin> set names
          then ([dg (op_location x) (''device call target '' @ quoted callee @
                   '' is not defined in the module'')], [])
          else if attribute x ''builtin'' \<noteq> Some ''true'' then ([], [callee])
          else ([], []))"

definition operation_diagnostics ::
  "IrStage \<Rightarrow> string list \<Rightarrow> block_table \<Rightarrow> nat set list \<Rightarrow> value_table \<Rightarrow> nat \<Rightarrow> nat \<times> Operation \<Rightarrow>
     Diagnostic list" where
  "operation_diagnostics stage names table doms defs i kx = (case kx of (k, x) \<Rightarrow>
     concat (map (operand_diagnostics table doms defs i k x) (op_operands x)) @
     opcode_diagnostics stage x @ fst (call_check names x))"

definition abi_diagnostics :: "Function \<Rightarrow> Diagnostic list" where
  "abi_diagnostics f = (case fn_kernel_abi f of None \<Rightarrow> [] | Some abi \<Rightarrow>
     concat (map (\<lambda>a.
       guard_dg (ad_size a = 0 \<or> ad_alignment a = 0) no_location
         (''kernel argument '' @ quoted (ad_name a) @ '' has invalid size/alignment'') @
       guard_dg (is_pointer (ad_type a) \<and> ad_space a = AsNone) no_location
         (''pointer kernel argument '' @ quoted (ad_name a) @ '' is missing an address space'') @
       guard_dg (ad_size a < natural_size (ad_type a) \<and> \<not> is_pointer (ad_type a)) no_location
         (''kernel argument '' @ quoted (ad_name a) @ '' is smaller than its type''))
     (ka_arguments abi)))"

section \<open>The verifier\<close>

text \<open>One iteration of the main loop: diagnostics, and the calls it enters.\<close>

definition function_calls :: "string list \<Rightarrow> Function \<Rightarrow> string list" where
  "function_calls names f =
     concat (map (\<lambda>b. concat (map (\<lambda>x. snd (call_check names x)) (bb_operations b))) (fn_blocks f))"

definition verify_function ::
  "IrStage \<Rightarrow> string list \<Rightarrow> Function \<Rightarrow> (Diagnostic list \<times> string list) option" where
  "verify_function stage names f =
     (if fn_name f = [] then Some ([], [])
      else if fn_blocks f = []
      then Some ([dg no_location (''function '' @ quoted (fn_name f) @ '' has no basic blocks'')], [])
      else case register_blocks (fn_name f) 0 (fn_blocks f) (\<lambda>_. None) {} of (table, block_ds) \<Rightarrow>
        (case register_edges table (fn_blocks f) (edges_of (fn_blocks f))
                (replicate (length (fn_blocks f)) []) of (preds, edge_ds) \<Rightarrow>
         (case compute_dominators preds of
            None \<Rightarrow> None
          | Some doms \<Rightarrow>
              (case define_values (function_items f) (\<lambda>_. None) of (defs, def_ds) \<Rightarrow>
                 Some (header_diagnostics f @ block_ds @ edge_ds @ def_ds @
                   concat (map (\<lambda>(i, b). concat (map
                       (operation_diagnostics stage names table doms defs i)
                       (List.enumerate 0 (bb_operations b))))
                     (List.enumerate 0 (fn_blocks f))) @
                   abi_diagnostics f,
                   function_calls names f)))))"

text \<open>\<open>call_graph[function.name].insert(callee)\<close> over all functions.\<close>

type_synonym call_graph = "string \<Rightarrow> string list"

definition add_calls :: "string \<Rightarrow> string list \<Rightarrow> call_graph \<Rightarrow> call_graph" where
  "add_calls f cs g = g(f := g f @ filter (\<lambda>c. c \<notin> set (g f)) (remdups cs))"

fun verify_functions ::
  "IrStage \<Rightarrow> string list \<Rightarrow> Function list \<Rightarrow> call_graph \<Rightarrow> (Diagnostic list \<times> call_graph) option" where
  "verify_functions stage names [] g = Some ([], g)"
| "verify_functions stage names (f # fs) g =
     (case verify_function stage names f of
        None \<Rightarrow> None
      | Some (ds, cs) \<Rightarrow>
          map_option (\<lambda>(ds', g'). (ds @ ds', g'))
            (verify_functions stage names fs (add_calls (fn_name f) cs g)))"

definition verify :: "(string list \<Rightarrow> string list) \<Rightarrow> Module \<Rightarrow> VerifyResult option" where
  "verify order m =
     (case collect_names (md_functions m) [] of (names, name_ds) \<Rightarrow>
      (case verify_functions (md_stage m) names (md_functions m) (\<lambda>_. []) of
         None \<Rightarrow> None
       | Some (ds, g) \<Rightarrow>
           map_option (\<lambda>cycle_ds. let all_ds = name_ds @ ds @ cycle_ds
                                  in \<lparr>vr_ok = (all_ds = []), vr_diagnostics = all_ds\<rparr>)
             (search_calls (\<lambda>f. order (g f)) (order names))))"

section \<open>What the passes build\<close>

lemma guard_dg_Nil [simp]: "guard_dg c l msg = [] \<longleftrightarrow> \<not> c"
  by (simp add: guard_dg_def)

lemma collect_names_clean:
  "collect_names fs names = (names', []) \<Longrightarrow>
     names' = names @ map fn_name fs \<and> (\<forall>f \<in> set fs. fn_name f \<noteq> []) \<and>
     distinct (map fn_name fs) \<and> set names \<inter> set (map fn_name fs) = {}"
proof (induction fs arbitrary: names)
  case Nil
  then show ?case by simp
next
  case (Cons f fs)
  from Cons.prems have ok: "fn_name f \<noteq> []" "fn_name f \<notin> set names"
    and rest: "collect_names fs (names @ [fn_name f]) = (names', [])"
    by (auto split: if_splits prod.splits)
  from Cons.IH [OF rest] ok show ?case by simp
qed

lemma collect_names_set:
  "set (fst (collect_names fs names)) = set names \<union> (set (map fn_name fs) - {[]})"
  by (induction fs names rule: collect_names.induct) (auto split: prod.splits)

lemma register_blocks_range:
  "register_blocks fname i bs table names = (table', ds) \<Longrightarrow> table' q = Some j \<Longrightarrow>
     table q = Some j \<or> (i \<le> j \<and> j < i + length bs \<and> bb_id (bs ! (j - i)) = q)"
proof (induction bs arbitrary: i table names ds)
  case Nil
  then show ?case by simp
next
  case (Cons b bs)
  let ?t = "if bb_id b = 0 \<or> table (bb_id b) \<noteq> None then table else table(bb_id b \<mapsto> i)"
  obtain ns ds' where rest: "register_blocks fname (Suc i) bs ?t ns = (table', ds')"
    using Cons.prems(1) by (auto simp: Let_def split: prod.splits)
  have "?t q = Some j \<Longrightarrow> table q = Some j \<or> j = i \<and> bb_id b = q" by (auto split: if_splits)
  moreover have "(b # bs) ! (j - i) = bs ! (j - Suc i)" if "Suc i \<le> j"
    using that by (simp add: nth_Cons' Suc_le_eq)
  ultimately show ?case using Cons.IH [OF rest Cons.prems(2)] by fastforce
qed

lemma register_blocks_clean:
  "register_blocks fname i bs table names = (table', []) \<Longrightarrow>
     (\<forall>j < length bs. bb_id (bs ! j) \<noteq> 0 \<and> table (bb_id (bs ! j)) = None \<and>
        table' (bb_id (bs ! j)) = Some (i + j) \<and>
        bb_name (bs ! j) \<noteq> [] \<and> terminator_diagnostics (bs ! j) = []) \<and>
     (\<forall>q. table q \<noteq> None \<longrightarrow> table' q = table q) \<and>
     distinct (map bb_id bs) \<and> distinct (map bb_name bs) \<and> names \<inter> set (map bb_name bs) = {}"
proof (induction bs arbitrary: i table names)
  case Nil
  then show ?case by simp
next
  case (Cons b bs)
  let ?t = "table(bb_id b \<mapsto> i)" and ?n = "insert (bb_name b) names"
  from Cons.prems have ok: "bb_id b \<noteq> 0" "table (bb_id b) = None" "bb_name b \<noteq> []" "bb_name b \<notin> names"
      "terminator_diagnostics b = []"
    and rest: "register_blocks fname (Suc i) bs ?t ?n = (table', [])"
    by (auto simp: Let_def split: prod.splits if_splits)
  note ih = Cons.IH [OF rest]
  have t: "table' (bb_id b) = Some i" using ih by (metis fun_upd_same option.distinct(1))
  have keep: "table' q = table q" if "table q \<noteq> None" for q
    using ih ok(2) that by (metis fun_upd_other)
  have other: "bb_id (bs ! j) \<noteq> bb_id b" if "j < length bs" for j
    using ih that by (metis fun_upd_same option.distinct(1))
  have fresh: "bb_id b \<notin> set (map bb_id bs)"
  proof
    assume "bb_id b \<in> set (map bb_id bs)"
    then obtain j where "j < length bs" "bb_id (bs ! j) = bb_id b" by (force simp: in_set_conv_nth)
    then show False using other by blast
  qed
  have none: "\<forall>j < length bs. table (bb_id (bs ! j)) = None"
    using ih other by (metis fun_upd_other)
  have "\<forall>j < length (b # bs). bb_id ((b # bs) ! j) \<noteq> 0 \<and> table (bb_id ((b # bs) ! j)) = None \<and>
        table' (bb_id ((b # bs) ! j)) = Some (i + j) \<and>
        bb_name ((b # bs) ! j) \<noteq> [] \<and> terminator_diagnostics ((b # bs) ! j) = []"
    using ih ok t none by (auto simp: nth_Cons split: nat.splits)
  moreover have "bb_name b \<notin> set (map bb_name bs)" "names \<inter> set (map bb_name (b # bs)) = {}"
    using ih ok(4) by auto
  ultimately show ?case using ih keep fresh by simp
qed

lemma register_edges_length:
  "length (fst (register_edges table bs es preds)) = length preds"
  by (induction table bs es preds rule: register_edges.induct) (auto split: option.splits prod.splits)

lemma register_edges_preds:
  assumes "\<And>q t. table q = Some t \<Longrightarrow> t < length preds" "j < length preds"
  shows "set (fst (register_edges table bs es preds) ! j) =
     set (preds ! j) \<union> {i. \<exists>b x s. (i, b, x, s) \<in> set es \<and> table (su_block s) = Some j}"
  using assms
proof (induction table bs es preds rule: register_edges.induct)
  case (1 table bs preds)
  then show ?case by simp
next
  case (2 table bs i b x s es preds)
  show ?case
  proof (cases "table (su_block s)")
    case None
    then have "{i. \<exists>b x s. (i, b, x, s) \<in> set es \<and> table (su_block s) = Some j} =
        {ia. \<exists>ba xa sa. (ia, ba, xa, sa) \<in> set ((i, b, x, s) # es) \<and> table (su_block sa) = Some j}"
      by auto
    then show ?thesis using None "2.IH"(1) "2.prems" by (simp add: case_prod_beta)
  next
    case (Some t)
    then have t: "t < length preds" using "2.prems"(1) by blast
    have "set (fst (register_edges table bs es (preds[t := preds ! t @ [i]])) ! j) =
      set (preds[t := preds ! t @ [i]] ! j) \<union>
      {i. \<exists>b x s. (i, b, x, s) \<in> set es \<and> table (su_block s) = Some j}"
      using "2.IH"(2) [OF Some] "2.prems" by simp
    moreover have "{ia. \<exists>ba xa sa. (ia, ba, xa, sa) \<in> set ((i, b, x, s) # es) \<and> table (su_block sa) = Some j}
        = (if t = j then {i} else {}) \<union> {i. \<exists>b x s. (i, b, x, s) \<in> set es \<and> table (su_block s) = Some j}"
      using Some by auto
    ultimately show ?thesis
      using Some t by (cases "t = j") (simp_all add: case_prod_beta)
  qed
qed

lemma register_edges_clean:
  "register_edges table bs es preds = (preds', []) \<Longrightarrow> (i, b, x, s) \<in> set es \<Longrightarrow>
     \<exists>t. table (su_block s) = Some t \<and> length (su_arguments s) = length (bb_arguments (bs ! t))"
proof (induction table bs es preds arbitrary: preds' rule: register_edges.induct)
  case (1 table bs preds)
  then show ?case by simp
next
  case (2 table bs i b x s es preds)
  then show ?case by (fastforce split: option.splits prod.splits)
qed

lemma edges_of_iff:
  "(i, b, x, s) \<in> set (edges_of bs) \<longleftrightarrow>
     i < length bs \<and> b = bs ! i \<and> x \<in> set (bb_operations b) \<and> s \<in> set (op_successors x)"
proof
  assume "(i, b, x, s) \<in> set (edges_of bs)"
  then show "i < length bs \<and> b = bs ! i \<and> x \<in> set (bb_operations b) \<and> s \<in> set (op_successors x)"
    by (auto simp: edges_of_def in_set_enumerate_eq)
next
  assume a: "i < length bs \<and> b = bs ! i \<and> x \<in> set (bb_operations b) \<and> s \<in> set (op_successors x)"
  then have "(i, b) \<in> set (List.enumerate 0 bs)" by (simp add: in_set_enumerate_eq)
  with a show "(i, b, x, s) \<in> set (edges_of bs)" unfolding edges_of_def by fastforce
qed

fun item_values :: "definition_item list \<Rightarrow> ValueId list" where
  "item_values [] = []"
| "item_values (Report d # is) = item_values is"
| "item_values (Define v vd d # is) = v # item_values is"

lemma item_values_append [simp]: "item_values (xs @ ys) = item_values xs @ item_values ys"
  by (induction xs rule: item_values.induct) simp_all

lemma define_values_clean:
  "define_values is defs = (defs', []) \<Longrightarrow>
     distinct (item_values is) \<and> 0 \<notin> set (item_values is) \<and>
     (\<forall>v \<in> set (item_values is). defs v = None) \<and> (\<forall>d. Report d \<notin> set is) \<and>
     (\<forall>v vd. defs' v = Some vd \<longleftrightarrow> defs v = Some vd \<or> (\<exists>d. Define v vd d \<in> set is))"
proof (induction "is" defs arbitrary: defs' rule: define_values.induct)
  case (1 defs)
  then show ?case by simp
next
  case (2 d "is" defs)
  then show ?case by (auto split: prod.splits)
next
  case (3 v vd d "is" defs)
  from "3.prems" have ok: "v \<noteq> 0" "defs v = None" and rest: "define_values is (defs(v \<mapsto> vd)) = (defs', [])"
    by (auto split: prod.splits if_splits)
  from "3.IH"(2) [OF _ rest] ok have ih: "distinct (item_values is)" "0 \<notin> set (item_values is)"
      "\<forall>w \<in> set (item_values is). (defs(v \<mapsto> vd)) w = None" "\<forall>d. Report d \<notin> set is"
      "\<forall>w wd. defs' w = Some wd \<longleftrightarrow> (defs(v \<mapsto> vd)) w = Some wd \<or> (\<exists>d. Define w wd d \<in> set is)"
    by auto
  have "v \<notin> set (item_values is)" using ih(3) by (metis fun_upd_same option.distinct(1))
  moreover have "\<forall>w \<in> set (item_values is). defs w = None"
    using ih(3) ok(2) by (metis fun_upd_apply)
  moreover have "defs' w = Some wd \<longleftrightarrow> defs w = Some wd \<or> (\<exists>e. Define w wd e \<in> set (Define v vd d # is))" for w wd
    using ih(5) ok(2) by auto
  ultimately show ?case using ih(1,2,4) ok by auto
qed

section \<open>What a verified function satisfies\<close>

definition cfg_edge :: "BasicBlock list \<Rightarrow> nat \<Rightarrow> nat \<Rightarrow> bool" where
  "cfg_edge bs i j \<longleftrightarrow> i < length bs \<and> j < length bs \<and>
     (\<exists>x \<in> set (bb_operations (bs ! i)). \<exists>s \<in> set (op_successors x). su_block s = bb_id (bs ! j))"

inductive block_walk :: "BasicBlock list \<Rightarrow> nat list \<Rightarrow> bool" for bs where
  block_entry: "block_walk bs [0]"
| block_edge: "block_walk bs w \<Longrightarrow> cfg_edge bs (last w) j \<Longrightarrow> block_walk bs (w @ [j])"

definition block_dominates :: "BasicBlock list \<Rightarrow> nat \<Rightarrow> nat \<Rightarrow> bool" where
  "block_dominates bs d i \<longleftrightarrow> (\<forall>w. block_walk bs w \<longrightarrow> last w = i \<longrightarrow> d \<in> set w)"

definition defined_values :: "Function \<Rightarrow> ValueId list" where
  "defined_values f = map fa_value (fn_arguments f) @
     concat (map (\<lambda>b. map ba_value (bb_arguments b) @ concat (map op_results (bb_operations b)))
       (fn_blocks f))"

text \<open>Value \<open>v\<close> of type \<open>t\<close> is defined before operation \<open>k\<close> of block \<open>i\<close> on every path to it.\<close>

definition available :: "Function \<Rightarrow> nat \<Rightarrow> nat \<Rightarrow> ValueId \<Rightarrow> Type \<Rightarrow> bool" where
  "available f i k v t \<longleftrightarrow>
     (\<exists>a \<in> set (fn_arguments f). fa_value a = v \<and> fa_type a = t) \<or>
     (\<exists>d < length (fn_blocks f). block_dominates (fn_blocks f) d i \<and>
        (\<exists>a \<in> set (bb_arguments (fn_blocks f ! d)). ba_value a = v \<and> ba_type a = t)) \<or>
     (\<exists>d < length (fn_blocks f). \<exists>j < length (bb_operations (fn_blocks f ! d)).
        (if d = i then j < k else block_dominates (fn_blocks f) d i) \<and>
        (\<exists>r < length (op_results (bb_operations (fn_blocks f ! d) ! j)).
           op_results (bb_operations (fn_blocks f ! d) ! j) ! r = v \<and>
           op_result_types (bb_operations (fn_blocks f ! d) ! j) ! r = t))"

definition ssa_function :: "Function \<Rightarrow> bool" where
  "ssa_function f \<longleftrightarrow> distinct (defined_values f) \<and> 0 \<notin> set (defined_values f) \<and>
     (\<forall>i < length (fn_blocks f). \<forall>k < length (bb_operations (fn_blocks f ! i)).
        \<forall>a \<in> set (op_operands (bb_operations (fn_blocks f ! i) ! k)).
          opd_kind a = OkValue \<longrightarrow> available f i k (opd_value a) (opd_type a))"

definition shaped_function :: "Function \<Rightarrow> bool" where
  "shaped_function f \<longleftrightarrow> fn_blocks f \<noteq> [] \<and>
     distinct (map bb_id (fn_blocks f)) \<and> 0 \<notin> set (map bb_id (fn_blocks f)) \<and>
     distinct (map bb_name (fn_blocks f)) \<and> [] \<notin> set (map bb_name (fn_blocks f)) \<and>
     (\<forall>b \<in> set (fn_blocks f). bb_operations b \<noteq> [] \<and> is_terminator (last (bb_operations b)) \<and>
        (\<forall>x \<in> set (butlast (bb_operations b)). \<not> is_terminator x) \<and>
        (\<forall>x \<in> set (bb_operations b). length (op_results x) = length (op_result_types x) \<and>
           (\<forall>s \<in> set (op_successors x). \<exists>t \<in> set (fn_blocks f).
              bb_id t = su_block s \<and> length (bb_arguments t) = length (su_arguments s))))"

lemma block_walk_range: "block_walk bs w \<Longrightarrow> bs \<noteq> [] \<Longrightarrow> last w < length bs"
  by (induction rule: block_walk.induct) (auto simp: cfg_edge_def)

text \<open>The clean run of one iteration, taken apart.\<close>

lemma verify_function_clean:
  assumes "verify_function stage names f = Some ([], cs)" "fn_name f \<noteq> []"
  obtains table preds doms defs where
    "fn_blocks f \<noteq> []"
    "register_blocks (fn_name f) 0 (fn_blocks f) (\<lambda>_. None) {} = (table, [])"
    "register_edges table (fn_blocks f) (edges_of (fn_blocks f)) (replicate (length (fn_blocks f)) [])
       = (preds, [])"
    "compute_dominators preds = Some doms"
    "define_values (function_items f) (\<lambda>_. None) = (defs, [])"
    "\<And>i k. i < length (fn_blocks f) \<Longrightarrow> k < length (bb_operations (fn_blocks f ! i)) \<Longrightarrow>
       operation_diagnostics stage names table doms defs i (k, bb_operations (fn_blocks f ! i) ! k) = []"
    "header_diagnostics f = []" "abi_diagnostics f = []" "cs = function_calls names f"
proof -
  have ne: "fn_blocks f \<noteq> []" using assms by (auto simp: verify_function_def)
  obtain table bds where t: "register_blocks (fn_name f) 0 (fn_blocks f) (\<lambda>_. None) {} = (table, bds)"
    by fastforce
  obtain preds eds where p: "register_edges table (fn_blocks f) (edges_of (fn_blocks f))
      (replicate (length (fn_blocks f)) []) = (preds, eds)" by fastforce
  obtain doms where d: "compute_dominators preds = Some doms"
    using assms ne by (cases "compute_dominators preds") (auto simp: verify_function_def t p)
  obtain defs dds where v: "define_values (function_items f) (\<lambda>_. None) = (defs, dds)" by fastforce
  have all: "header_diagnostics f = []" "bds = []" "eds = []" "dds = []" "abi_diagnostics f = []"
      "cs = function_calls names f"
    and ops: "concat (map (\<lambda>(i, b). concat (map
                       (operation_diagnostics stage names table doms defs i)
                       (List.enumerate 0 (bb_operations b))))
                     (List.enumerate 0 (fn_blocks f))) = []"
    using assms ne by (simp_all add: verify_function_def t p d v)
  have "operation_diagnostics stage names table doms defs i (k, bb_operations (fn_blocks f ! i) ! k) = []"
    if "i < length (fn_blocks f)" "k < length (bb_operations (fn_blocks f ! i))" for i k
  proof -
    have "(i, fn_blocks f ! i) \<in> set (List.enumerate 0 (fn_blocks f))"
      "(k, bb_operations (fn_blocks f ! i) ! k) \<in> set (List.enumerate 0 (bb_operations (fn_blocks f ! i)))"
      using that by (simp_all add: in_set_enumerate_eq)
    with ops show ?thesis unfolding concat_eq_Nil_conv by fastforce
  qed
  with that [OF ne t [unfolded all] p [unfolded all] d v [unfolded all] _ all(1,5,6)]
  show thesis .
qed

lemma item_values_function: "item_values (function_items f) = defined_values f"
proof -
  have rep: "item_values (map Report ds) = []" for ds
    by (induction ds) simp_all
  have res: "item_values (map (\<lambda>(r, v). Define v (g r) d) (List.enumerate n vs)) = vs" for g d n vs
    by (induction vs arbitrary: n) simp_all
  have args: "item_values (map (\<lambda>a. Define (h a) (g a) d) as) = map h as" for h g d as
    by (induction as) simp_all
  have op: "item_values (operation_items b kx) = op_results (snd kx)" for b kx
    by (cases kx) (simp add: operation_items_def rep res)
  have ops: "item_values (concat (map (operation_items b) kxs)) = concat (map (op_results \<circ> snd) kxs)" for b kxs
    by (induction kxs) (simp_all add: op)
  have blk: "item_values (block_items b) =
      map ba_value (bb_arguments b) @ concat (map op_results (bb_operations b))" for b
    by (simp add: block_items_def args ops) (simp flip: map_map)
  have blks: "item_values (concat (map block_items bs)) = concat (map (\<lambda>b.
      map ba_value (bb_arguments b) @ concat (map op_results (bb_operations b))) bs)" for bs
    by (induction bs) (simp_all add: blk)
  show ?thesis by (simp add: function_items_def argument_items_def defined_values_def args blks)
qed

text \<open>Where an entry of the definition pass comes from.\<close>

lemma define_in_function:
  assumes "Define v vd d \<in> set (function_items f)"
  shows "(vd_function_argument vd \<and> (\<exists>a \<in> set (fn_arguments f). fa_value a = v \<and> fa_type a = vd_type vd)) \<or>
    (\<not> vd_function_argument vd \<and> (\<exists>n < length (fn_blocks f). vd_block vd = bb_id (fn_blocks f ! n) \<and>
      (vd_block_argument vd \<and>
         (\<exists>a \<in> set (bb_arguments (fn_blocks f ! n)). ba_value a = v \<and> ba_type a = vd_type vd) \<or>
       \<not> vd_block_argument vd \<and>
         (\<exists>j < length (bb_operations (fn_blocks f ! n)). vd_operation_index vd = j \<and>
           (\<exists>r < length (op_results (bb_operations (fn_blocks f ! n) ! j)).
             op_results (bb_operations (fn_blocks f ! n) ! j) ! r = v \<and>
             vd_type vd = result_type (bb_operations (fn_blocks f ! n) ! j) r)))))"
proof (cases "Define v vd d \<in> set (argument_items f)")
  case True
  then show ?thesis by (auto simp: argument_items_def)
next
  case False
  then obtain b where b: "b \<in> set (fn_blocks f)" "Define v vd d \<in> set (block_items b)"
    using assms by (auto simp: function_items_def)
  then obtain n where n: "n < length (fn_blocks f)" "b = fn_blocks f ! n"
    by (auto simp: in_set_conv_nth)
  from b(2) consider
      (arg) a where "a \<in> set (bb_arguments b)" "ba_value a = v" "vd_type vd = ba_type a"
        "vd_block vd = bb_id b" "\<not> vd_function_argument vd" "vd_block_argument vd"
    | (op) kx where "kx \<in> set (List.enumerate 0 (bb_operations b))" "Define v vd d \<in> set (operation_items b kx)"
    by (auto simp: block_items_def)
  then show ?thesis
  proof cases
    case arg
    then show ?thesis using n by auto
  next
    case op
    obtain k x where kx: "kx = (k, x)" by (cases kx)
    then have k: "k < length (bb_operations b)" "x = bb_operations b ! k"
      using op(1) by (simp_all add: in_set_enumerate_eq)
    from op(2) obtain r where "r < length (op_results x)" "op_results x ! r = v"
        "vd_type vd = result_type x r" "vd_block vd = bb_id b" "vd_operation_index vd = k"
        "\<not> vd_function_argument vd" "\<not> vd_block_argument vd"
      unfolding kx operation_items_def by (auto simp: guard_dg_def in_set_enumerate_eq split: if_splits)
    with n k show ?thesis by blast
  qed
qed

lemma graph_of_function:
  assumes "register_blocks fname 0 bs (\<lambda>_. None) {} = (table, ds)" "bs \<noteq> []"
    and "register_edges table bs (edges_of bs) (replicate (length bs) []) = (preds, ds')"
  shows "graph_ok preds" "length preds = length bs"
    "j < length bs \<Longrightarrow> i \<in> set (preds ! j) \<longleftrightarrow>
       (i < length bs \<and> (\<exists>x \<in> set (bb_operations (bs ! i)). \<exists>s \<in> set (op_successors x).
          table (su_block s) = Some j))"
proof -
  have r: "table q = Some t \<Longrightarrow> t < length bs" for q t
    using register_blocks_range [OF assms(1), of q t] by simp
  have p: "preds = fst (register_edges table bs (edges_of bs) (replicate (length bs) []))"
    using assms(3) by simp
  show len: "length preds = length bs" unfolding p by (simp add: register_edges_length)
  show mem: "i \<in> set (preds ! j) \<longleftrightarrow>
       (i < length bs \<and> (\<exists>x \<in> set (bb_operations (bs ! i)). \<exists>s \<in> set (op_successors x).
          table (su_block s) = Some j))" if "j < length bs" for i j
    unfolding p using register_edges_preds [of table "replicate (length bs) []" j bs "edges_of bs"] r that
    by (auto simp: edges_of_iff)
  show "graph_ok preds"
    unfolding graph_ok_def
  proof (intro conjI ballI)
    show "preds \<noteq> []" using len assms(2) by auto
    fix ps p assume a: "ps \<in> set preds" "p \<in> set ps"
    then obtain j where "j < length bs" "ps = preds ! j" using len by (auto simp: in_set_conv_nth)
    then show "p < length preds" using mem a(2) len by simp
  qed
qed

lemma verify_function_ssa:
  assumes "verify_function stage names f = Some ([], cs)" "fn_name f \<noteq> []"
  shows "shaped_function f \<and> ssa_function f"
proof -
  let ?bs = "fn_blocks f"
  obtain table preds doms defs where
      ne: "?bs \<noteq> []"
      and blocks: "register_blocks (fn_name f) 0 ?bs (\<lambda>_. None) {} = (table, [])"
      and edges: "register_edges table ?bs (edges_of ?bs) (replicate (length ?bs) []) = (preds, [])"
      and doms: "compute_dominators preds = Some doms"
      and defs: "define_values (function_items f) (\<lambda>_. None) = (defs, [])"
      and ops: "\<And>i k. i < length ?bs \<Longrightarrow> k < length (bb_operations (?bs ! i)) \<Longrightarrow>
         operation_diagnostics stage names table doms defs i (k, bb_operations (?bs ! i) ! k) = []"
    using verify_function_clean [OF assms] by metis
  note b = register_blocks_clean [OF blocks]
  note g = graph_of_function [OF blocks ne edges]
  note d = define_values_clean [OF defs]
  have at: "table (bb_id (?bs ! j)) = Some j" if "j < length ?bs" for j using b that by simp
  have arity: "length (op_results x) = length (op_result_types x)"
    if "n < length ?bs" "j < length (bb_operations (?bs ! n))" "x = bb_operations (?bs ! n) ! j" for n j x
  proof (rule ccontr)
    assume ar: "length (op_results x) \<noteq> length (op_result_types x)"
    have "(j, x) \<in> set (List.enumerate 0 (bb_operations (?bs ! n)))" "?bs ! n \<in> set ?bs"
      using that by (simp_all add: in_set_enumerate_eq)
    moreover have "Report (dg (op_location x) ''operation result/type arity mismatch'')
        \<in> set (operation_items (?bs ! n) (j, x))"
      using ar by (simp add: operation_items_def guard_dg_def)
    ultimately have "\<exists>e. Report e \<in> set (function_items f)"
      unfolding function_items_def block_items_def by fastforce
    with d show False by blast
  qed
  have walk: "walk preds w" if "block_walk ?bs w" for w
    using that
  proof (induction rule: block_walk.induct)
    case block_entry
    show ?case by (rule walk_entry)
  next
    case (block_edge w j)
    then have j: "j < length preds" using g(2) by (simp add: cfg_edge_def)
    have "last w \<in> set (preds ! j)"
      using block_edge.hyps(2) g(3) [of j] at [of j] unfolding cfg_edge_def by metis
    then show ?case by (rule walk_edge [OF block_edge.IH j])
  qed
  obtain ds where "compute_dominators preds = Some ds" "solves preds ds"
    using compute_dominators_solves [OF g(1)] by blast
  with doms have sol: "solves preds doms" by simp
  have dom: "n \<in> doms ! i \<Longrightarrow> block_dominates ?bs n i" for n i
    unfolding block_dominates_def using solves_sound [OF sol walk] by blast
  have self: "block_dominates ?bs i i" for i
    unfolding block_dominates_def using walk walk_start last_in_set by metis
  have shaped: "shaped_function f"
    unfolding shaped_function_def
  proof (intro conjI ballI)
    show "?bs \<noteq> []" "distinct (map bb_id ?bs)" "distinct (map bb_name ?bs)" using ne b by simp_all
    show "0 \<notin> set (map bb_id ?bs)" using b by (auto simp: in_set_conv_nth)
    show "[] \<notin> set (map bb_name ?bs)" using b unfolding in_set_conv_nth by (metis length_map nth_map)
  next
    fix x assume x: "x \<in> set ?bs"
    then obtain n where n: "n < length ?bs" "x = ?bs ! n" by (auto simp: in_set_conv_nth)
    then have "terminator_diagnostics x = []" using b by simp
    then show "bb_operations x \<noteq> []" "is_terminator (last (bb_operations x))"
      "y \<in> set (butlast (bb_operations x)) \<Longrightarrow> \<not> is_terminator y" for y
      by (auto simp: terminator_diagnostics_def)
    fix y assume y: "y \<in> set (bb_operations x)"
    then obtain j where "j < length (bb_operations x)" "y = bb_operations x ! j"
      by (auto simp: in_set_conv_nth)
    then show "length (op_results y) = length (op_result_types y)" using arity n by simp
    fix s assume "s \<in> set (op_successors y)"
    then have "(n, x, y, s) \<in> set (edges_of ?bs)" using n y by (simp add: edges_of_iff)
    from register_edges_clean [OF edges this] obtain t where
        t: "table (su_block s) = Some t" "length (su_arguments s) = length (bb_arguments (?bs ! t))" by blast
    have tl: "t < length ?bs" using register_blocks_range [OF blocks t(1)] by simp
    have "su_block s = bb_id (?bs ! t)" using register_blocks_range [OF blocks t(1)] by simp
    with t tl show "\<exists>t \<in> set ?bs. bb_id t = su_block s \<and> length (bb_arguments t) = length (su_arguments s)"
      by force
  qed
  have "available f i k (opd_value a) (opd_type a)"
    if i: "i < length ?bs" and k: "k < length (bb_operations (?bs ! i))"
      and a: "a \<in> set (op_operands (bb_operations (?bs ! i) ! k))" "opd_kind a = OkValue" for i k a
  proof -
    let ?x = "bb_operations (?bs ! i) ! k"
    have clean: "operand_diagnostics table doms defs i k ?x a = []"
      using ops [OF i k] a(1) by (auto simp: operation_diagnostics_def)
    then obtain vd where vd: "defs (opd_value a) = Some vd" "opd_type a = vd_type vd"
      using a(2) by (auto simp: operand_diagnostics_def split: option.splits if_splits)
    then obtain e where "Define (opd_value a) vd e \<in> set (function_items f)" using d by auto
    from define_in_function [OF this] consider
        (arg) "\<exists>x \<in> set (fn_arguments f). fa_value x = opd_value a \<and> fa_type x = vd_type vd"
      | (blk) n where "n < length ?bs" "\<not> vd_function_argument vd" "vd_block vd = bb_id (?bs ! n)"
          "vd_block_argument vd"
          "\<exists>x \<in> set (bb_arguments (?bs ! n)). ba_value x = opd_value a \<and> ba_type x = vd_type vd"
      | (res) n j r where "n < length ?bs" "\<not> vd_function_argument vd" "vd_block vd = bb_id (?bs ! n)"
          "\<not> vd_block_argument vd" "j < length (bb_operations (?bs ! n))" "vd_operation_index vd = j"
          "r < length (op_results (bb_operations (?bs ! n) ! j))"
          "op_results (bb_operations (?bs ! n) ! j) ! r = opd_value a"
          "vd_type vd = result_type (bb_operations (?bs ! n) ! j) r"
      by blast
    then show ?thesis
    proof cases
      case arg
      then show ?thesis using vd by (auto simp: available_def)
    next
      case blk
      have "n = i \<or> n \<in> doms ! i"
        using clean a(2) vd blk(2,3) at [OF blk(1)]
        by (auto simp: operand_diagnostics_def split: if_splits)
      then have "block_dominates ?bs n i" using dom self by blast
      then show ?thesis using blk(1,5) vd(2) unfolding available_def by metis
    next
      case res
      have pos: "if n = i then j < k else n \<in> doms ! i"
        using clean a(2) vd res(2-4,6) at [OF res(1)]
        by (auto simp: operand_diagnostics_def split: if_splits)
      then have "if n = i then j < k else block_dominates ?bs n i" using dom by simp
      moreover have "op_result_types (bb_operations (?bs ! n) ! j) ! r = opd_type a"
        using res(7,9) vd(2) arity [OF res(1,5) refl] by (simp add: result_type_def)
      ultimately show ?thesis using res(1,5,7,8) unfolding available_def by blast
    qed
  qed
  moreover have "distinct (defined_values f)" "0 \<notin> set (defined_values f)"
    using d by (simp_all add: item_values_function)
  ultimately show ?thesis using shaped unfolding ssa_function_def by blast
qed

section \<open>The whole verifier\<close>

lemma verify_function_total: "\<exists>ds cs. verify_function stage names f = Some (ds, cs)"
proof (cases "fn_name f = [] \<or> fn_blocks f = []")
  case True
  then show ?thesis by (auto simp: verify_function_def)
next
  case False
  obtain table bds where t: "register_blocks (fn_name f) 0 (fn_blocks f) (\<lambda>_. None) {} = (table, bds)"
    by fastforce
  obtain preds eds where p: "register_edges table (fn_blocks f) (edges_of (fn_blocks f))
      (replicate (length (fn_blocks f)) []) = (preds, eds)" by fastforce
  obtain doms where "compute_dominators preds = Some doms"
    using compute_dominators_solves graph_of_function(1) [OF t _ p] False by blast
  with False show ?thesis by (auto simp: verify_function_def t p split: prod.splits)
qed

lemma verify_function_calls:
  assumes "verify_function stage names f = Some (ds, cs)"
  shows "set cs \<subseteq> set names \<and> (fn_name f = [] \<longrightarrow> cs = [])"
proof -
  have "set (function_calls names f) \<subseteq> set names"
    by (auto simp: function_calls_def call_check_def split: option.splits if_splits)
  then show ?thesis
    using assms by (auto simp: verify_function_def split: if_splits prod.splits option.splits)
qed

lemma set_add_calls: "set (add_calls f cs g h) = set (g h) \<union> (if h = f then set cs else {})"
  by (auto simp: add_calls_def)

lemma verify_functions_total:
  "\<exists>ds g'. verify_functions stage names fs g = Some (ds, g')"
proof (induction fs arbitrary: g)
  case Nil
  then show ?case by simp
next
  case (Cons f fs)
  obtain ds cs where "verify_function stage names f = Some (ds, cs)" using verify_function_total by blast
  with Cons.IH [of "add_calls (fn_name f) cs g"] show ?case by auto
qed

lemma verify_functions_graph:
  "verify_functions stage names fs g = Some (ds, g') \<Longrightarrow>
     set (g' h) = set (g h) \<union>
       {c. \<exists>f \<in> set fs. fn_name f = h \<and> (\<exists>e cs. verify_function stage names f = Some (e, cs) \<and> c \<in> set cs)}"
proof (induction fs arbitrary: g ds)
  case Nil
  then show ?case by simp
next
  case (Cons f fs)
  then obtain e cs ds' where f: "verify_function stage names f = Some (e, cs)"
    and rest: "verify_functions stage names fs (add_calls (fn_name f) cs g) = Some (ds', g')"
    by (auto split: option.splits prod.splits)
  show ?case
    unfolding Cons.IH [OF rest] set_add_calls using f by auto
qed

lemma verify_functions_clean:
  "verify_functions stage names fs g = Some ([], g') \<Longrightarrow> f \<in> set fs \<Longrightarrow>
     \<exists>cs. verify_function stage names f = Some ([], cs)"
proof (induction fs arbitrary: g)
  case Nil
  then show ?case by simp
next
  case (Cons f' fs)
  then show ?case by (auto split: option.splits prod.splits)
qed

definition iterates :: "(string list \<Rightarrow> string list) \<Rightarrow> bool" where
  "iterates order \<longleftrightarrow> (\<forall>xs. set (order xs) = set xs)"

definition plain_op :: "OpCode \<Rightarrow> ValueId list \<Rightarrow> Type list \<Rightarrow> Operand list \<Rightarrow> Successor list \<Rightarrow> Operation" where
  "plain_op opc results types operands succs =
     \<lparr>op_opcode = opc, op_results = results, op_result_types = types, op_operands = operands,
      op_successors = succs, op_attributes = [], op_scope = MsNone, op_ordering = MoNone,
      op_location = no_location\<rparr>"

definition plain_function :: "string \<Rightarrow> BasicBlock list \<Rightarrow> Function" where
  "plain_function name blocks =
     \<lparr>fn_name = name, fn_is_kernel = False, fn_return_type = void_type, fn_arguments = [],
      fn_blocks = blocks, fn_kernel_abi = None, fn_pointer_provenance = (\<lambda>_. None),
      fn_generic_pointer_values = {}, fn_generic_null_pointer_values = {},
      fn_mixed_pointer_address_spaces = (\<lambda>_. None), fn_mixed_pointer_return_spaces = 0,
      fn_generic_pointer_return = False\<rparr>"

definition plain_module :: "Function list \<Rightarrow> Module" where
  "plain_module fs =
     \<lparr>md_source_name = [], md_stage = GpuSemantic, md_semantic_quality = SqExact,
      md_semantic_caveats = [], md_global_constants = [], md_global_threadgroups = [],
      md_external_symbols = [], md_functions = fs, md_attributes = []\<rparr>"

text \<open>A constant defined in the entry block and used in the one it branches to.\<close>

definition sample_ir :: Module where
  "sample_ir = plain_module [plain_function ''f''
     [\<lparr>bb_id = 1, bb_name = ''entry'', bb_arguments = [],
       bb_operations = [plain_op kConstant [1] [integer_type 32] [] [],
                        plain_op kBranch [] [] [] [\<lparr>su_block = 2, su_arguments = []\<rparr>]]\<rparr>,
      \<lparr>bb_id = 2, bb_name = ''exit'', bb_arguments = [],
       bb_operations = [plain_op kAdd [2] [integer_type 32]
                          [value_ref 1 (integer_type 32), value_ref 1 (integer_type 32)] [],
                        plain_op kReturn [] [] [] []]\<rparr>]]"

lemma sample_verified: "verify (\<lambda>xs. xs) sample_ir = Some \<lparr>vr_ok = True, vr_diagnostics = []\<rparr>"
  by code_simp

lemma iterates_id: "iterates (\<lambda>xs. xs)"
  by (simp add: iterates_def)

text \<open>The edge into \<open>exit\<close> passes value 99, which no operation defines, for an i32 argument.\<close>

definition dangling_edge_ir :: Module where
  "dangling_edge_ir = plain_module [plain_function ''f''
     [\<lparr>bb_id = 1, bb_name = ''entry'', bb_arguments = [],
       bb_operations = [plain_op kBranch [] [] [] [\<lparr>su_block = 2, su_arguments = [99]\<rparr>]]\<rparr>,
      \<lparr>bb_id = 2, bb_name = ''exit'',
       bb_arguments = [\<lparr>ba_value = 5, ba_type = integer_type 32, ba_name = ''x''\<rparr>],
       bb_operations = [plain_op kReturn [] [] [] []]\<rparr>]]"

definition edges :: "Module \<Rightarrow> Successor list" where
  "edges m = concat (map (\<lambda>f. concat (map (\<lambda>b. concat (map op_successors (bb_operations b)))
     (fn_blocks f))) (md_functions m))"

lemma dangling_edge_verified:
  "verify (\<lambda>xs. xs) dangling_edge_ir = Some \<lparr>vr_ok = True, vr_diagnostics = []\<rparr>"
  by code_simp

lemma call_graph_within:
  assumes "iterates order" "collect_names (md_functions m) [] = (names, nds)"
    and "verify_functions stage names (md_functions m) (\<lambda>_. []) = Some (ds, g)"
  shows "calls_within (\<lambda>f. order (g f)) (order names)"
proof -
  have names: "set names = set (map fn_name (md_functions m)) - {[]}"
    using collect_names_set [of "md_functions m" "[]"] assms(2) by simp
  have "set (g f) \<subseteq> set names \<and> (g f \<noteq> [] \<longrightarrow> f \<in> set names)" for f
  proof -
    note gs = verify_functions_graph [OF assms(3), of f]
    have "set (g f) \<subseteq> set names"
      unfolding gs using verify_function_calls by fastforce
    moreover have "f \<in> set names" if ne: "g f \<noteq> []"
    proof -
      have "hd (g f) \<in> set (g f)" using ne by simp
      then obtain c where "c \<in> set (g f)" by blast
      then obtain f' e cs where "f' \<in> set (md_functions m)" "fn_name f' = f"
        "verify_function stage names f' = Some (e, cs)" "c \<in> set cs" unfolding gs by auto
      then show ?thesis using verify_function_calls [of stage names f' e cs] names by auto
    qed
    ultimately show ?thesis by blast
  qed
  then show ?thesis
    using assms(1) unfolding calls_within_def iterates_def by (metis set_empty)
qed

text \<open>
  The verifier stops on every module, however its blocks and calls are connected, with a
  verdict that is positive exactly when it has no diagnostic.
\<close>

lemma verify_total:
  assumes "iterates order"
  shows "\<exists>r. verify order m = Some r \<and> (vr_ok r \<longleftrightarrow> vr_diagnostics r = [])"
proof -
  obtain names nds where n: "collect_names (md_functions m) [] = (names, nds)" by fastforce
  obtain ds g where g: "verify_functions (md_stage m) names (md_functions m) (\<lambda>_. []) = Some (ds, g)"
    using verify_functions_total by blast
  obtain cds where "search_calls (\<lambda>f. order (g f)) (order names) = Some cds"
    using search_calls_facts [OF call_graph_within [OF assms n g]] by blast
  then show ?thesis by (simp add: verify_def n g Let_def)
qed

lemma verify_total_witness:
  "\<exists>r. verify rev sample_ir = Some r \<and> (vr_ok r \<longleftrightarrow> vr_diagnostics r = [])"
  by (rule verify_total) (simp add: iterates_def)

lemma verify_ok_parts:
  assumes "verify order m = Some r" "vr_ok r"
  obtains names g where "collect_names (md_functions m) [] = (names, [])"
    "verify_functions (md_stage m) names (md_functions m) (\<lambda>_. []) = Some ([], g)"
    "search_calls (\<lambda>f. order (g f)) (order names) = Some []"
proof -
  obtain names nds where n: "collect_names (md_functions m) [] = (names, nds)" by fastforce
  obtain ds g where g: "verify_functions (md_stage m) names (md_functions m) (\<lambda>_. []) = Some (ds, g)"
    using verify_functions_total by blast
  from assms(1) obtain cds where s: "search_calls (\<lambda>f. order (g f)) (order names) = Some cds"
    "r = \<lparr>vr_ok = (nds @ ds @ cds = []), vr_diagnostics = nds @ ds @ cds\<rparr>"
    by (auto simp: verify_def n g Let_def)
  with assms(2) have "nds = []" "ds = []" "cds = []" by simp_all
  with that n g s(1) show thesis by blast
qed

text \<open>
  C7: in a verified module every function has distinct, numbered, named blocks that end in
  their only terminator and branch to existing blocks with the right number of arguments; every
  value is defined once; and every value operand carries the type of its definition, which comes
  earlier in the same block or in a block that lies on every path from the entry.
\<close>

theorem verify_ssa:
  assumes "verify order m = Some r" "vr_ok r" "f \<in> set (md_functions m)"
  shows "shaped_function f \<and> ssa_function f"
proof -
  obtain names g where p: "collect_names (md_functions m) [] = (names, [])"
    "verify_functions (md_stage m) names (md_functions m) (\<lambda>_. []) = Some ([], g)"
    using verify_ok_parts [OF assms(1,2)] by metis
  have "fn_name f \<noteq> []" using collect_names_clean [OF p(1)] assms(3) by simp
  moreover obtain cs where "verify_function (md_stage m) names f = Some ([], cs)"
    using verify_functions_clean [OF p(2) assms(3)] by blast
  ultimately show ?thesis using verify_function_ssa by blast
qed

theorem verify_ssa_witness:
  "shaped_function (hd (md_functions sample_ir)) \<and> ssa_function (hd (md_functions sample_ir))"
proof -
  have "hd (md_functions sample_ir) \<in> set (md_functions sample_ir)"
    by (simp add: sample_ir_def plain_module_def)
  from verify_ssa [OF sample_verified _ this] show ?thesis by simp
qed

text \<open>
  The values an edge passes to the arguments of its target block are only counted.  The
  verifier accepts a module whose branch passes a value that no operation defines, so its
  dominance check does not cover the block arguments that stand for phi nodes.
\<close>

lemma verify_ignores_edge_arguments:
  "verify (\<lambda>xs. xs) dangling_edge_ir = Some \<lparr>vr_ok = True, vr_diagnostics = []\<rparr> \<and>
   su_arguments (hd (edges dangling_edge_ir)) = [99] \<and>
   99 \<notin> set (defined_values (hd (md_functions dangling_edge_ir)))"
  unfolding edges_def using dangling_edge_verified
  by (simp add: dangling_edge_ir_def plain_module_def plain_function_def plain_op_def defined_values_def)

definition calls_directly :: "Module \<Rightarrow> string \<Rightarrow> string \<Rightarrow> bool" where
  "calls_directly m a c \<longleftrightarrow> (\<exists>f \<in> set (md_functions m). fn_name f = a \<and>
     (\<exists>b \<in> set (fn_blocks f). \<exists>x \<in> set (bb_operations b). op_opcode x = kCall \<and>
        attribute x ''builtin'' \<noteq> Some ''true'' \<and> attribute x ''callee'' = Some c))"

definition legal_operation :: "Module \<Rightarrow> Operation \<Rightarrow> bool" where
  "legal_operation m x \<longleftrightarrow>
     (md_stage m = MetalLegalized \<longrightarrow> \<not> is_gpu_semantic_opcode (op_opcode x)) \<and>
     (md_stage m = GpuSemantic \<longrightarrow> \<not> is_metal_opcode (op_opcode x)) \<and>
     (op_opcode x = kAtomic \<longrightarrow> op_ordering x \<noteq> MoNone \<and> op_scope x \<noteq> MsNone \<and>
        op_ordering x \<noteq> MoSequentiallyConsistent) \<and>
     (op_opcode x = kCall \<longrightarrow> attribute x ''indirect'' \<noteq> Some ''true'' \<and>
        (\<exists>c. attribute x ''callee'' = Some c \<and>
           (attribute x ''builtin'' = Some ''true'' \<or> (\<exists>f \<in> set (md_functions m). fn_name f = c))))"

lemma verify_function_operations:
  assumes "verify_function stage names f = Some ([], cs)" "fn_name f \<noteq> []"
    and "b \<in> set (fn_blocks f)" "x \<in> set (bb_operations b)"
  shows "opcode_diagnostics stage x = [] \<and> fst (call_check names x) = [] \<and>
    set (snd (call_check names x)) \<subseteq> set cs"
proof -
  obtain table preds doms defs where
      ops: "\<And>i k. i < length (fn_blocks f) \<Longrightarrow> k < length (bb_operations (fn_blocks f ! i)) \<Longrightarrow>
         operation_diagnostics stage names table doms defs i (k, bb_operations (fn_blocks f ! i) ! k) = []"
      and cs: "cs = function_calls names f"
    using verify_function_clean [OF assms(1,2)] by metis
  obtain i k where "i < length (fn_blocks f)" "b = fn_blocks f ! i" "k < length (bb_operations b)"
      "x = bb_operations b ! k"
    using assms(3,4) by (metis in_set_conv_nth)
  then have "operation_diagnostics stage names table doms defs i (k, x) = []" using ops by simp
  moreover have "set (snd (call_check names x)) \<subseteq> set cs"
    using assms(3,4) unfolding cs function_calls_def by auto
  ultimately show ?thesis by (simp add: operation_diagnostics_def)
qed

text \<open>
  C8: in a verified module no operation is illegal at the module's stage, atomics carry an
  ordering and a scope, every call is direct and names a function of the module or a builtin,
  and no function can reach itself through calls.
\<close>

theorem verify_calls_legal:
  assumes "iterates order" "verify order m = Some r" "vr_ok r"
  shows "(\<forall>f \<in> set (md_functions m). \<forall>b \<in> set (fn_blocks f). \<forall>x \<in> set (bb_operations b).
      legal_operation m x) \<and> acyclic {(a, c). calls_directly m a c}"
proof -
  obtain names g where p: "collect_names (md_functions m) [] = (names, [])"
    "verify_functions (md_stage m) names (md_functions m) (\<lambda>_. []) = Some ([], g)"
    "search_calls (\<lambda>f. order (g f)) (order names) = Some []"
    using verify_ok_parts [OF assms(2,3)] by metis
  note names = collect_names_clean [OF p(1)]
  have op: "\<exists>cs. verify_function (md_stage m) names f = Some ([], cs) \<and>
      opcode_diagnostics (md_stage m) x = [] \<and> fst (call_check names x) = [] \<and>
      set (snd (call_check names x)) \<subseteq> set cs"
    if "f \<in> set (md_functions m)" "b \<in> set (fn_blocks f)" "x \<in> set (bb_operations b)" for f b x
    using verify_functions_clean [OF p(2) that(1)] verify_function_operations that names by blast
  have legal: "legal_operation m x"
    if "f \<in> set (md_functions m)" "b \<in> set (fn_blocks f)" "x \<in> set (bb_operations b)" for f b x
  proof -
    have o: "opcode_diagnostics (md_stage m) x = []" and c: "fst (call_check names x) = []"
      using op [OF that] by blast+
    have "op_opcode x = kCall \<longrightarrow> attribute x ''indirect'' \<noteq> Some ''true'' \<and>
        (\<exists>c. attribute x ''callee'' = Some c \<and>
           (attribute x ''builtin'' = Some ''true'' \<or> c \<in> set names))"
      using c by (auto simp: call_check_def split: option.splits if_splits)
    then show ?thesis
      using o names unfolding legal_operation_def opcode_diagnostics_def
      by (auto split: if_splits)
  qed
  have "{(a, c). calls_directly m a c} \<subseteq> call_edges (\<lambda>f. order (g f))"
  proof (clarsimp simp: calls_directly_def call_edges_def)
    fix c f b x
    assume f: "f \<in> set (md_functions m)" and b: "b \<in> set (fn_blocks f)" and x: "x \<in> set (bb_operations b)"
      and call: "op_opcode x = kCall" "attribute x ''builtin'' \<noteq> Some ''true''"
        "attribute x ''callee'' = Some c"
    obtain cs where cs: "verify_function (md_stage m) names f = Some ([], cs)"
        "fst (call_check names x) = []" "set (snd (call_check names x)) \<subseteq> set cs"
      using op [OF f b x] by blast
    have "snd (call_check names x) = [c]"
      using call cs(2) by (auto simp: call_check_def split: if_splits)
    then have "c \<in> set (g (fn_name f))"
      unfolding verify_functions_graph [OF p(2)] using f cs by auto
    then show "c \<in> set (order (g (fn_name f)))" using assms(1) by (simp add: iterates_def)
  qed
  moreover have "acyclic (call_edges (\<lambda>f. order (g f)))"
    using search_calls_facts [OF call_graph_within [OF assms(1) p(1,2)]] p(3) by auto
  ultimately have "acyclic {(a, c). calls_directly m a c}" by (rule acyclic_subset [rotated])
  with legal show ?thesis by blast
qed

theorem verify_calls_legal_witness:
  "acyclic {(a, c). calls_directly sample_ir a c} \<and>
   legal_operation sample_ir (hd (bb_operations (hd (fn_blocks (hd (md_functions sample_ir))))))"
proof -
  have "hd (md_functions sample_ir) \<in> set (md_functions sample_ir)"
    "hd (fn_blocks (hd (md_functions sample_ir))) \<in> set (fn_blocks (hd (md_functions sample_ir)))"
    "hd (bb_operations (hd (fn_blocks (hd (md_functions sample_ir)))))
      \<in> set (bb_operations (hd (fn_blocks (hd (md_functions sample_ir)))))"
    by (simp_all add: sample_ir_def plain_module_def plain_function_def)
  then show ?thesis using verify_calls_legal [OF iterates_id sample_verified] by simp
qed

end
