(* ===== verification/IrPrint.thy ===== *)
theory IrPrint imports IrVerify "HOL-Library.Char_ord" "HOL-Library.List_Lexorder" "HOL-Library.Product_Lexorder" "HOL-Library.Multiset" begin

text \<open>
  \<open>print\<close> of \<open>compiler/ir/src/ir.cpp\<close>, the textual dump of a module.  The attributes of an
  operation come out of a hash map in an unspecified order and are sorted before they are
  written.
\<close>

section \<open>The printer\<close>

definition newline :: string where
  "newline = [CHR 0x0A]"

definition double_quoted :: "string \<Rightarrow> string" where
  "double_quoted s = CHR 0x22 # s @ [CHR 0x22]"

definition print_value :: "ValueId \<Rightarrow> string" where
  "print_value v = ''%'' @ show_u32 v"

definition print_operand :: "Operand \<Rightarrow> string" where
  "print_operand a =
     (case opd_kind a of
        OkValue \<Rightarrow> print_value (opd_value a)
      | OkSymbol \<Rightarrow> ''@'' @ opd_text a
      | OkImmediate \<Rightarrow> opd_text a) @
     (if opd_kind a \<noteq> OkSymbol then '': '' @ type_str (opd_type a) else [])"

definition print_successor :: "Function \<Rightarrow> Successor \<Rightarrow> string" where
  "print_successor f s =
     '' ^'' @ (case find_block f (su_block s) of None \<Rightarrow> ''?'' | Some b \<Rightarrow> bb_name b) @ ''('' @
     joined '', '' (map print_value (su_arguments s)) @ '')''"

definition print_attribute :: "string \<times> string \<Rightarrow> string" where
  "print_attribute kv = fst kv @ ''='' @ double_quoted (snd kv)"

definition print_operation :: "Function \<Rightarrow> Operation \<Rightarrow> string" where
  "print_operation f x =
     ''    '' @ joined '', '' (map print_value (op_results x)) @
     (if op_results x \<noteq> [] then '' = '' else []) @
     opcode_name (op_opcode x) @
     (if op_operands x \<noteq> [] then '' '' @ joined '', '' (map print_operand (op_operands x)) else []) @
     concat (map (print_successor f) (op_successors x)) @
     (if op_attributes x \<noteq> []
      then '' {'' @ joined '', '' (map print_attribute (sort (op_attributes x))) @ ''}'' else []) @
     (if op_scope x \<noteq> MsNone then '' scope('' @ memory_scope_name (op_scope x) @ '')'' else []) @
     (if op_ordering x \<noteq> MoNone
      then '' ordering('' @ memory_ordering_name (op_ordering x) @ '')'' else []) @
     (if op_result_types x \<noteq> []
      then '' -> '' @ joined '', '' (map type_str (op_result_types x)) else []) @
     (if loc_line (op_location x) \<noteq> 0 then '' loc('' @ location_str (op_location x) @ '')'' else []) @
     newline"

definition print_block :: "Function \<Rightarrow> BasicBlock \<Rightarrow> string" where
  "print_block f b =
     ''  ^'' @ bb_name b @
     (if bb_arguments b \<noteq> []
      then ''('' @ joined '', '' (map (\<lambda>a. print_value (ba_value a) @ '' '' @ ba_name a @ '': '' @
                                     type_str (ba_type a)) (bb_arguments b)) @ '')''
      else []) @
     '':'' @ newline @ concat (map (print_operation f) (bb_operations b))"

definition print_function :: "Function \<Rightarrow> string" where
  "print_function f =
     ''  '' @ (if fn_is_kernel f then ''kernel'' else ''func'') @ '' @'' @ fn_name f @ ''('' @
     joined '', '' (map (\<lambda>a. print_value (fa_value a) @ '' '' @ fa_name a @ '': '' @
                          type_str (fa_type a)) (fn_arguments f)) @
     '') -> '' @ type_str (fn_return_type f) @ '' {'' @ newline @
     concat (map (print_block f) (fn_blocks f)) @ ''  }'' @ newline"

definition print_module :: "Module \<Rightarrow> string" where
  "print_module m =
     ''module'' @ (if md_source_name m \<noteq> [] then '' source='' @ double_quoted (md_source_name m) else []) @
     '' {'' @ newline @ concat (map print_function (md_functions m)) @ ''}'' @ newline"

section \<open>It does not depend on the order of hash maps\<close>

definition same_operation :: "Operation \<Rightarrow> Operation \<Rightarrow> bool" where
  "same_operation x y \<longleftrightarrow> mset (op_attributes x) = mset (op_attributes y) \<and>
     x\<lparr>op_attributes := []\<rparr> = y\<lparr>op_attributes := []\<rparr>"

definition same_block :: "BasicBlock \<Rightarrow> BasicBlock \<Rightarrow> bool" where
  "same_block b c \<longleftrightarrow> list_all2 same_operation (bb_operations b) (bb_operations c) \<and>
     b\<lparr>bb_operations := []\<rparr> = c\<lparr>bb_operations := []\<rparr>"

definition same_function :: "Function \<Rightarrow> Function \<Rightarrow> bool" where
  "same_function f g \<longleftrightarrow> list_all2 same_block (fn_blocks f) (fn_blocks g) \<and>
     f\<lparr>fn_blocks := []\<rparr> = g\<lparr>fn_blocks := []\<rparr>"

lemma map_list_all2: "list_all2 r xs ys \<Longrightarrow> (\<And>x y. r x y \<Longrightarrow> f x = g y) \<Longrightarrow> map f xs = map g ys"
  by (induction rule: list_all2_induct) simp_all

lemma same_block_fields: "same_block b c \<Longrightarrow> bb_id b = bb_id c \<and> bb_name b = bb_name c"
  by (cases b, cases c) (simp add: same_block_def)

lemma same_find_block:
  assumes "list_all2 same_block (fn_blocks f) (fn_blocks g)"
  shows "map_option bb_name (find_block f i) = map_option bb_name (find_block g i)"
proof -
  have "map_option bb_name (find (\<lambda>b. bb_id b = i) bs) = map_option bb_name (find (\<lambda>b. bb_id b = i) cs)"
    if "list_all2 same_block bs cs" for bs cs
    using that by (induction rule: list_all2_induct) (auto dest: same_block_fields)
  with assms show ?thesis by (simp add: find_block_def)
qed

lemma same_print_operation:
  assumes "\<And>i. map_option bb_name (find_block f i) = map_option bb_name (find_block g i)"
    and "same_operation x y"
  shows "print_operation f x = print_operation g y"
proof -
  have "print_successor f s = print_successor g s" for s
    using assms(1) [of "su_block s"] by (auto simp: print_successor_def split: option.splits)
  moreover have "sort (op_attributes x) = sort (op_attributes y)"
    using assms(2) unfolding same_operation_def by (metis mset_sort properties_for_sort sorted_sort)
  moreover have "op_attributes x = [] \<longleftrightarrow> op_attributes y = []"
    using assms(2) unfolding same_operation_def by (metis mset_zero_iff)
  ultimately show ?thesis
    using assms(2) unfolding same_operation_def print_operation_def
    by (cases x, cases y) (simp cong: map_cong)
qed

lemma same_print_function: "same_function f g \<Longrightarrow> print_function f = print_function g"
proof -
  assume same: "same_function f g"
  then have bs: "list_all2 same_block (fn_blocks f) (fn_blocks g)" by (simp add: same_function_def)
  have "print_block f b = print_block g c" if "same_block b c" for b c
  proof -
    have "map (print_operation f) (bb_operations b) = map (print_operation g) (bb_operations c)"
      using that same_print_operation [OF same_find_block [OF bs]]
      unfolding same_block_def by (blast intro: map_list_all2)
    then show ?thesis
      using that unfolding same_block_def print_block_def by (cases b, cases c) simp
  qed
  then have "map (print_block f) (fn_blocks f) = map (print_block g) (fn_blocks g)"
    by (rule map_list_all2 [OF bs])
  then show ?thesis
    using same unfolding same_function_def print_function_def by (cases f, cases g) simp
qed

text \<open>
  The dump is deterministic: two modules that differ only in the order in which the
  attribute maps of their operations happen to iterate print the same text.
\<close>

lemma print_deterministic:
  assumes "list_all2 same_function (md_functions m) (md_functions m')"
    and "md_source_name m = md_source_name m'"
  shows "print_module m = print_module m'"
  unfolding print_module_def using assms(2) map_list_all2 [OF assms(1) same_print_function] by simp

definition attribute_sample :: "(string \<times> string) list \<Rightarrow> Module" where
  "attribute_sample attrs = plain_module [plain_function ''f''
     [\<lparr>bb_id = 1, bb_name = ''entry'', bb_arguments = [],
       bb_operations = [(plain_op kLoad [1] [integer_type 32] [] [])\<lparr>op_attributes := attrs\<rparr>]\<rparr>]]"

lemma print_deterministic_witness:
  "print_module (attribute_sample [(''align'', ''4''), (''volatile'', ''true'')]) =
   print_module (attribute_sample [(''volatile'', ''true''), (''align'', ''4'')])"
  by (rule print_deterministic)
     (simp_all add: attribute_sample_def same_function_def same_block_def same_operation_def
       plain_module_def plain_function_def plain_op_def)

end
