(* ===== verification/FatbinPtx.thy ===== *)
theory FatbinPtx imports Prelude begin

text \<open>
  The reader of CUDA fat binaries, \<open>runtime/common/fatbin_ptx.cpp\<close>: it walks the entries of a
  bounded frame found in untrusted memory and returns the first PTX program.  An image is the
  list of the \<open>max_image_bytes\<close> bytes the caller vouches for.  The outcome \<open>None\<close> is a read
  outside that list, so "never \<open>None\<close>" is memory safety.  Offsets and sizes are naturals: every
  sum the code forms is guarded by a range check that keeps it below the image size.  The two
  decompressors are library code and arguments of the model.
\<close>

section \<open>Finding a program in raw bytes\<close>

definition maximum_module_bytes :: nat where
  "maximum_module_bytes = 67108864"

definition version_mark :: bytes where
  "version_mark = bytes_of_string ''.version''"

definition entry_mark :: bytes where
  "entry_mark = bytes_of_string ''.entry''"

text \<open>The bytes up to the first NUL, cut after the last closing brace when there is one.\<close>

definition cut_after_brace :: "bytes \<Rightarrow> bytes" where
  "cut_after_brace s =
     (if byte_char (CHR 0x7D) \<in> set s
      then rev (dropWhile (\<lambda>b. b \<noteq> byte_char (CHR 0x7D)) (rev s)) else s)"

definition ptx_candidate :: "bytes \<Rightarrow> bytes" where
  "ptx_candidate s = cut_after_brace (takeWhile (\<lambda>b. b \<noteq> 0) s)"

text \<open>The loop over the offsets, on what follows the offset.\<close>

fun scan_ptx :: "bytes \<Rightarrow> bytes option" where
  "scan_ptx [] = None"
| "scan_ptx (b # bs) =
     (if starts_with (b # bs) version_mark \<and> ptx_candidate (b # bs) \<noteq> [] \<and>
         contains_sub (ptx_candidate (b # bs)) entry_mark
      then Some (ptx_candidate (b # bs)) else scan_ptx bs)"

definition extract_ptx_bytes :: "bytes \<Rightarrow> bytes option" where
  "extract_ptx_bytes bs =
     (if length bs < length version_mark \<or> maximum_module_bytes < length bs then None
      else scan_ptx bs)"

section \<open>The framed format\<close>

datatype PtxExtractStatus = kNotFatbin | kFound | kNoPtx | kMalformed | kUnsupported

type_synonym extraction = "PtxExtractStatus \<times> bytes option"

text \<open>
  \<open>lz4 payload n\<close> and \<open>zstd payload n\<close> are what the decompressors write into a buffer of \<open>n\<close>
  bytes, \<open>None\<close> when they report an error.
\<close>

record codecs =
  lz4 :: "bytes \<Rightarrow> nat \<Rightarrow> bytes option"
  zstd :: "bytes \<Rightarrow> nat \<Rightarrow> bytes option"

unbundle bit_operations_syntax

definition found_or :: "PtxExtractStatus \<Rightarrow> bytes option \<Rightarrow> extraction" where
  "found_or st r = (case r of None \<Rightarrow> (st, None) | Some p \<Rightarrow> (kFound, Some p))"

definition decompress_entry :: "codecs \<Rightarrow> bytes \<Rightarrow> nat \<Rightarrow> u64 \<Rightarrow> extraction" where
  "decompress_entry cd payload uncompressed_size flags =
     (if payload = [] \<or> uncompressed_size = 0 \<or> maximum_module_bytes < uncompressed_size \<or>
         2147483647 < length payload \<or> 2147483647 < uncompressed_size
      then (kMalformed, None)
      else let use_lz4 = (flags AND 0x2000 \<noteq> 0); use_zstd = (flags AND 0x8000 \<noteq> 0)
      in if use_lz4 = use_zstd then (kUnsupported, None)
      else case (if use_lz4 then lz4 cd payload uncompressed_size
                 else zstd cd payload uncompressed_size) of
             None \<Rightarrow> (kMalformed, None)
           | Some decompressed \<Rightarrow>
               if length decompressed \<noteq> uncompressed_size then (kMalformed, None)
               else found_or kMalformed (extract_ptx_bytes decompressed))"

text \<open>
  The loop over the entries of a structured frame.  \<open>kind\<close> 1 is PTX; an entry holds its header
  size at 4, its payload size at 8, its compressed size at 16, its flags at 40 and the size
  after decompression at 56.
\<close>

function scan_entries :: "codecs \<Rightarrow> bytes \<Rightarrow> nat \<Rightarrow> extraction option" where
  "scan_entries cd data cursor =
     (if length data \<le> cursor then Some (kNoPtx, None)
      else if length data - cursor < 64
      then Some (if list_all (\<lambda>b. b = 0) (drop cursor data) then kNoPtx else kMalformed, None)
      else do {
        kind \<leftarrow> read_le 2 data cursor;
        entry_version \<leftarrow> read_le 2 data (cursor + 2);
        entry_header_size \<leftarrow> read_le 4 data (cursor + 4);
        payload_size \<leftarrow> read_le 4 data (cursor + 8);
        compressed_size \<leftarrow> read_le 4 data (cursor + 16);
        flags \<leftarrow> read_le 8 data (cursor + 40);
        encoded_uncompressed \<leftarrow> read_le 8 data (cursor + 56);
        (if entry_version \<noteq> 0x0101 then Some (kUnsupported, None)
         else if entry_header_size < 64 \<or> length data - cursor < entry_header_size
         then Some (kMalformed, None)
         else let stored_size = max payload_size compressed_size
         in if \<not> (cursor + entry_header_size \<le> length data \<and>
                   stored_size \<le> length data - (cursor + entry_header_size))
         then Some (kMalformed, None)
         else if kind = 1 then
           (if (of_nat flags :: u64) AND (0x2000 OR 0x8000) \<noteq> 0 then
              (if maximum_module_bytes < encoded_uncompressed then Some (kMalformed, None)
               else do {
                 payload \<leftarrow> slice data (cursor + entry_header_size) compressed_size;
                 (case decompress_entry cd payload encoded_uncompressed (of_nat flags) of
                    (status, out) \<Rightarrow>
                      if status \<noteq> kNoPtx then Some (status, out)
                      else scan_entries cd data (cursor + entry_header_size + stored_size))
               })
            else if compressed_size \<noteq> 0 then Some (kUnsupported, None)
            else if maximum_module_bytes < payload_size then Some (kMalformed, None)
            else do {
              payload \<leftarrow> slice data (cursor + entry_header_size) payload_size;
              (case extract_ptx_bytes payload of
                 Some p \<Rightarrow> Some (kFound, Some p)
               | None \<Rightarrow> scan_entries cd data (cursor + entry_header_size + stored_size))
            })
         else scan_entries cd data (cursor + entry_header_size + stored_size))
      })"
  by pat_completeness auto
termination
  by (relation "measure (\<lambda>(cd, data, cursor). length data - cursor)") auto

declare scan_entries.simps [simp del]

definition is_structured :: "bytes \<Rightarrow> bool option" where
  "is_structured data = do {
     first_kind \<leftarrow> (if 2 \<le> length data then read_le 2 data 0 else Some 0);
     first_header_size \<leftarrow> (if 8 \<le> length data then read_le 4 data 4 else Some 0);
     Some (64 \<le> length data \<and>
           (first_kind = 1 \<or> first_kind = 2 \<or>
            64 \<le> length data \<and> 64 \<le> first_header_size \<and> first_header_size \<le> length data))
   }"

text \<open>\<open>None\<close> for the image is a null pointer.\<close>

definition extract_fatbin_ptx :: "codecs \<Rightarrow> bytes option \<Rightarrow> extraction option" where
  "extract_fatbin_ptx cd img =
     (case img of
        None \<Rightarrow> Some (kNotFatbin, None)
      | Some bs \<Rightarrow>
          if length bs < 16 then Some (kNotFatbin, None)
          else do {
            magic \<leftarrow> read_le 4 bs 0;
            (if magic \<noteq> 0xBA55ED50 then Some (kNotFatbin, None)
             else do {
               version \<leftarrow> read_le 2 bs 4;
               header_size \<leftarrow> read_le 2 bs 6;
               encoded_size \<leftarrow> read_le 8 bs 8;
               (if version \<noteq> 1 \<or> header_size < 16 \<or> length bs < header_size \<or> encoded_size = 0 \<or>
                   maximum_module_bytes < encoded_size \<or> length bs - header_size < encoded_size
                then Some (kMalformed, None)
                else do {
                  data \<leftarrow> slice bs header_size encoded_size;
                  structured \<leftarrow> is_structured data;
                  (if structured then scan_entries cd data 0
                   else Some (found_or kNoPtx (extract_ptx_bytes data)))
                })
             })
          })"

lemma is_structured_defined: "\<exists>b. is_structured data = Some b \<and> (length data < 64 \<longrightarrow> \<not> b)"
  using read_le_eq_None [of 2 data 0] read_le_eq_None [of 4 data 4]
  by (cases "read_le 2 data 0"; cases "read_le 4 data 4") (auto simp: is_structured_def)

section \<open>What a found program looks like\<close>

definition is_program :: "bytes \<Rightarrow> bool" where
  "is_program p \<longleftrightarrow> prefix version_mark p \<and> sublist entry_mark p \<and> 0 \<notin> set p \<and>
     length p \<le> maximum_module_bytes"

lemma cut_after_brace_prefix: "prefix (cut_after_brace s) s"
proof (cases "byte_char (CHR 0x7D) \<in> set s")
  case True
  have "suffix (dropWhile (\<lambda>b. b \<noteq> byte_char (CHR 0x7D)) (rev s)) (rev s)"
    by (rule suffix_dropWhile)
  then show ?thesis using True by (simp add: cut_after_brace_def suffix_to_prefix)
next
  case False
  then show ?thesis by (simp add: cut_after_brace_def)
qed

lemma prefix_takeWhile: "prefix (takeWhile P xs) xs"
  by (metis prefixI takeWhile_dropWhile_id)

lemma ptx_candidate_prefix: "prefix (ptx_candidate s) s"
  unfolding ptx_candidate_def using cut_after_brace_prefix prefix_takeWhile prefix_order.trans by blast

lemma ptx_candidate_no_nul: "0 \<notin> set (ptx_candidate s)"
proof -
  have "set (ptx_candidate s) \<subseteq> set (takeWhile (\<lambda>b. b \<noteq> 0) s)"
    unfolding ptx_candidate_def by (rule set_mono_prefix [OF cut_after_brace_prefix])
  then show ?thesis using set_takeWhileD by fastforce
qed

lemma prefix_cut:
  assumes "byte_char (CHR 0x7D) \<notin> set p"
  shows "prefix p s \<Longrightarrow> prefix p (cut_after_brace s)"
proof (cases "byte_char (CHR 0x7D) \<in> set s")
  case True
  assume "prefix p s"
  then obtain t where s: "s = p @ t" by (auto simp: prefix_def)
  then have "byte_char (CHR 0x7D) \<in> set (rev t)" using True assms by simp
  then have "cut_after_brace s = p @ rev (dropWhile (\<lambda>b. b \<noteq> byte_char (CHR 0x7D)) (rev t))"
    using True by (simp add: cut_after_brace_def s dropWhile_append1)
  then show ?thesis by simp
qed (simp add: cut_after_brace_def)

lemma prefix_before_nul:
  assumes "0 \<notin> set p" "prefix p s"
  shows "prefix p (takeWhile (\<lambda>b. b \<noteq> (0 :: u8)) s)"
proof -
  obtain t where s: "s = p @ t" using assms(2) by (auto simp: prefix_def)
  have "takeWhile (\<lambda>b. b \<noteq> 0) (p @ t) = p @ takeWhile (\<lambda>b. b \<noteq> 0) t"
    using assms(1) by (intro takeWhile_append2) auto
  then show ?thesis unfolding s by simp
qed

lemma version_mark_plain: "0 \<notin> set version_mark \<and> byte_char (CHR 0x7D) \<notin> set version_mark"
  by code_simp

lemma scan_ptx_sound:
  "scan_ptx bs = Some p \<Longrightarrow> prefix version_mark p \<and> sublist entry_mark p \<and> 0 \<notin> set p \<and> sublist p bs"
proof (induction bs)
  case Nil
  then show ?case by simp
next
  case (Cons b bs)
  show ?case
  proof (cases "scan_ptx bs = Some p \<and> \<not> (starts_with (b # bs) version_mark \<and>
      ptx_candidate (b # bs) \<noteq> [] \<and> contains_sub (ptx_candidate (b # bs)) entry_mark)")
    case True
    then show ?thesis using Cons.IH by (auto simp: sublist_Cons_right)
  next
    case False
    then have p: "p = ptx_candidate (b # bs)" and v: "prefix version_mark (b # bs)"
      and e: "sublist entry_mark p"
      using Cons.prems by (auto simp: starts_with_iff_prefix contains_sub_iff_sublist split: if_splits)
    have "prefix version_mark p"
      unfolding p ptx_candidate_def using version_mark_plain v prefix_before_nul prefix_cut by blast
    moreover have "0 \<notin> set p" unfolding p by (rule ptx_candidate_no_nul)
    moreover have "sublist p (b # bs)"
      unfolding p by (rule prefix_imp_sublist [OF ptx_candidate_prefix])
    ultimately show ?thesis using e by blast
  qed
qed

lemma extract_ptx_bytes_sound:
  assumes "extract_ptx_bytes bs = Some p"
  shows "is_program p \<and> sublist p bs"
proof -
  have s: "scan_ptx bs = Some p" and l: "length bs \<le> maximum_module_bytes"
    using assms by (auto simp: extract_ptx_bytes_def split: if_splits)
  have "length p \<le> length bs" using scan_ptx_sound [OF s] sublist_length_le by blast
  then show ?thesis using scan_ptx_sound [OF s] l by (simp add: is_program_def)
qed

text \<open>
  Conversely a program is found whenever one is there: a version directive that is followed by
  an entry directive before the next NUL and, if there are closing braces, before the last one.
\<close>

lemma scan_ptx_complete:
  "suffix t bs \<Longrightarrow> starts_with t version_mark \<Longrightarrow> contains_sub (ptx_candidate t) entry_mark \<Longrightarrow>
     scan_ptx bs \<noteq> None"
proof (induction bs)
  case Nil
  then show ?case using version_mark_plain
    by (auto simp: starts_with_def version_mark_def bytes_of_string_def)
next
  case (Cons b bs)
  have ne: "ptx_candidate t \<noteq> []"
    using Cons.prems(3) by (auto simp: contains_sub_iff_sublist entry_mark_def bytes_of_string_def)
  show ?case
  proof (cases "t = b # bs")
    case True
    then show ?thesis using Cons.prems ne by simp
  next
    case False
    then have "suffix t bs" using Cons.prems(1) by (auto simp: suffix_Cons)
    then show ?thesis using Cons.IH Cons.prems by auto
  qed
qed

section \<open>Memory safety and soundness\<close>

lemma sound_found_or:
  "found_or st (extract_ptx_bytes bs) = (st', out) \<Longrightarrow> st \<noteq> kFound \<Longrightarrow>
     (st' = kFound \<longrightarrow> (\<exists>p. out = Some p \<and> is_program p)) \<and> (st' \<noteq> kFound \<longrightarrow> out = None)"
  using extract_ptx_bytes_sound [of bs]
  by (cases "extract_ptx_bytes bs") (simp_all add: found_or_def, metis)

definition result_ok :: "extraction option \<Rightarrow> bool" where
  "result_ok r \<longleftrightarrow> (\<exists>st out. r = Some (st, out) \<and>
     (st = kFound \<longrightarrow> (\<exists>p. out = Some p \<and> is_program p)) \<and> (st \<noteq> kFound \<longrightarrow> out = None))"

lemma result_ok_fail: "st \<noteq> kFound \<Longrightarrow> result_ok (Some (st, None))"
  by (simp add: result_ok_def)

lemma result_ok_found: "is_program p \<Longrightarrow> result_ok (Some (kFound, Some p))"
  by (simp add: result_ok_def)

lemma decompress_entry_ok: "result_ok (Some (decompress_entry cd payload n flags))"
proof -
  obtain st out where r: "decompress_entry cd payload n flags = (st, out)" by fastforce
  then have "(st = kFound \<longrightarrow> (\<exists>p. out = Some p \<and> is_program p)) \<and> (st \<noteq> kFound \<longrightarrow> out = None)"
    by (auto simp: decompress_entry_def Let_def dest: sound_found_or split: if_splits option.splits)
  then show ?thesis unfolding r by (simp add: result_ok_def)
qed

lemma scan_entries_ok: "result_ok (scan_entries cd data cursor)"
proof (induction "length data - cursor" arbitrary: cursor rule: less_induct)
  case less
  show ?case
  proof (cases "length data \<le> cursor \<or> length data - cursor < 64")
    case True
    then show ?thesis by (subst scan_entries.simps) (auto simp: result_ok_def)
  next
    case False
    then have r: "read_le n data (cursor + k) \<noteq> None" if "k + n \<le> 64" for n k
      using that unfolding read_le_eq_None by linarith
    obtain kind ver hs ps cs fl un where
        reads: "read_le 2 data cursor = Some kind" "read_le 2 data (cursor + 2) = Some ver"
          "read_le 4 data (cursor + 4) = Some hs" "read_le 4 data (cursor + 8) = Some ps"
          "read_le 4 data (cursor + 16) = Some cs" "read_le 8 data (cursor + 40) = Some fl"
          "read_le 8 data (cursor + 56) = Some un"
      using r [of 0 2] r [of 2 2] r [of 4 4] r [of 8 4] r [of 16 4] r [of 40 8] r [of 56 8] by auto
    show ?thesis
    proof (cases "ver \<noteq> 0x0101 \<or> hs < 64 \<or> length data - cursor < hs \<or>
        \<not> (cursor + hs \<le> length data \<and> max ps cs \<le> length data - (cursor + hs))")
      case True
      then show ?thesis
        using False reads by (subst scan_entries.simps) (auto simp: result_ok_fail Let_def)
    next
      case fits: False
      have next_ok: "result_ok (scan_entries cd data (cursor + hs + max ps cs))"
        using less False fits by (intro less) linarith
      have le: "cursor + hs + ps \<le> length data" "cursor + hs + cs \<le> length data"
        using fits by linarith+
      have slp: "slice data (cursor + hs) ps = Some (take ps (drop (cursor + hs) data))"
        and slc: "slice data (cursor + hs) cs = Some (take cs (drop (cursor + hs) data))"
        using le by simp_all
      obtain st out where d: "decompress_entry cd (take cs (drop (cursor + hs) data)) un (of_nat fl) = (st, out)"
        by fastforce
      have dok: "result_ok (Some (st, out))" using decompress_entry_ok d by metis
      have sl0: "slice data (cursor + hs) 0 = Some []" using le by simp
      have d0: "decompress_entry cd [] un (of_nat fl) = (kMalformed, None)"
        by (simp add: decompress_entry_def)
      have next0: "cs = 0 \<Longrightarrow> result_ok (scan_entries cd data (cursor + hs + ps))"
        using next_ok by auto
      show ?thesis
        using False fits next_ok dok
        by (subst scan_entries.simps)
           (simp add: reads reads(2) [simplified] slp slc sl0 d d0 next0 Let_def result_ok_fail result_ok_found
             extract_ptx_bytes_sound split: option.split del: slice_eq_Some)
    qed
  qed
qed

lemma extract_fatbin_ptx_result: "result_ok (extract_fatbin_ptx cd img)"
proof (cases "\<exists>bs. img = Some bs \<and> 16 \<le> length bs")
  case False
  then show ?thesis
    by (auto simp: extract_fatbin_ptx_def result_ok_fail split: option.split)
next
  case True
  then obtain bs where bs: "img = Some bs" "16 \<le> length bs" by blast
  have r: "read_le n bs k \<noteq> None" if "k + n \<le> 16" for n k
    using that bs(2) unfolding read_le_eq_None by linarith
  obtain magic ver hs es where reads: "read_le 4 bs 0 = Some magic" "read_le 2 bs 4 = Some ver"
      "read_le 2 bs 6 = Some hs" "read_le 8 bs 8 = Some es"
    using r [of 0 4] r [of 4 2] r [of 6 2] r [of 8 8] by auto
  show ?thesis
  proof (cases "hs + es \<le> length bs")
    case True
    let ?d = "take es (drop hs bs)"
    obtain b where b: "is_structured ?d = Some b" using is_structured_defined by blast
    have sl: "slice bs hs es = Some ?d" using True by simp
    show ?thesis
      using bs by (simp add: extract_fatbin_ptx_def reads sl b result_ok_fail scan_entries_ok
          found_or_def result_ok_found extract_ptx_bytes_sound split: option.split del: slice_eq_Some)
  next
    case False
    then have "length bs < hs \<or> length bs - hs < es" by linarith
    then show ?thesis
      using bs by (auto simp: extract_fatbin_ptx_def reads result_ok_fail)
  qed
qed

text \<open>
  C9: whatever bytes an image holds and whatever the decompressors return, the fat-binary
  reader never reads outside the image and stops; when it reports a program, that program
  starts with a version directive, contains an entry directive and no NUL byte and has at most
  64 MiB, and on every other status it hands out nothing.
\<close>

theorem extract_fatbin_ptx_safe:
  "\<exists>st out. extract_fatbin_ptx cd img = Some (st, out) \<and>
     (if st = kFound
      then \<exists>p. out = Some p \<and> prefix version_mark p \<and> sublist entry_mark p \<and> 0 \<notin> set p \<and>
                length p \<le> maximum_module_bytes
      else out = None)"
  using extract_fatbin_ptx_result [of cd img] unfolding result_ok_def is_program_def by auto

text \<open>Where a program may start: a version directive whose candidate has an entry directive.\<close>

definition program_at :: "bytes \<Rightarrow> bool" where
  "program_at t \<longleftrightarrow> prefix version_mark t \<and> sublist entry_mark (ptx_candidate t)"

lemma scan_ptx_step:
  "scan_ptx (b # bs) = (if program_at (b # bs) then Some (ptx_candidate (b # bs)) else scan_ptx bs)"
  by (auto simp: program_at_def starts_with_iff_prefix contains_sub_iff_sublist entry_mark_def bytes_of_string_def)

lemma scan_ptx_first:
  "(\<not> (\<exists>t. suffix t bs \<and> program_at t) \<and> scan_ptx bs = None) \<or>
   (\<exists>t. suffix t bs \<and> program_at t \<and> (\<forall>u. suffix u bs \<and> program_at u \<longrightarrow> suffix u t) \<and> scan_ptx bs = Some (ptx_candidate t))"
proof (induction bs)
  case Nil
  then show ?case by (simp add: program_at_def version_mark_def bytes_of_string_def)
next
  case (Cons b bs)
  then show ?case
    by (cases "program_at (b # bs)") (auto simp: scan_ptx_step suffix_Cons simp del: scan_ptx.simps(2))
qed

text \<open>
  C10: the search of a frame that holds raw text.  Take any frame with the magic, version 1, a header of any size
  from 16 bytes that its field can hold, at most 64 MiB of data that do not look like a list of entries, and any
  bytes after the data.  If a program starts anywhere in the data, the reader reports the first one, cut at
  the first NUL and after the last closing brace; otherwise it reports that there is no program.
\<close>

theorem extract_fatbin_ptx_complete:
  assumes "img = le_bytes 4 0xBA55ED50 @ le_bytes 2 1 @ le_bytes 2 (16 + length ext) @ le_bytes 8 (length data) @ ext @ data @ rest"
    and "16 + length ext < 65536" and "data \<noteq> []" and "length data \<le> maximum_module_bytes" and "is_structured data = Some False"
  shows "if \<exists>t. suffix t data \<and> program_at t
    then \<exists>t. suffix t data \<and> program_at t \<and> (\<forall>u. suffix u data \<and> program_at u \<longrightarrow> suffix u t) \<and>
      extract_fatbin_ptx cd (Some img) = Some (kFound, Some (ptx_candidate t)) \<and> is_program (ptx_candidate t)
    else extract_fatbin_ptx cd (Some img) = Some (kNoPtx, None)"
proof -
  have small: "length data < 256 ^ 8" using assms(4) by (simp add: maximum_module_bytes_def)
  have reads: "read_le 4 img 0 = Some 0xBA55ED50" "read_le 2 img 4 = Some 1"
    "read_le 2 img 6 = Some (16 + length ext)" "read_le 8 img 8 = Some (length data)"
    unfolding assms(1) using small assms(2) by (simp_all add: read_le_append_right read_le_le_bytes)
  have sl: "slice img (16 + length ext) (length data) = Some data" and li: "length img = 16 + length ext + length data + length rest"
    unfolding assms(1) by (simp_all add: slice_def)
  have call: "extract_fatbin_ptx cd (Some img) = Some (found_or kNoPtx (extract_ptx_bytes data))"
    using assms(3-5) by (simp add: extract_fatbin_ptx_def reads sl li del: slice_eq_Some)
  have short: "length version_mark \<le> length data" if "suffix t data" "program_at t" for t
    using that prefix_length_le[of version_mark t] suffix_length_le[of t data] by (simp add: program_at_def)
  from scan_ptx_first[of data] show ?thesis
  proof
    assume n: "\<not> (\<exists>t. suffix t data \<and> program_at t) \<and> scan_ptx data = None"
    then have "extract_ptx_bytes data = None" by (simp add: extract_ptx_bytes_def)
    with n call show ?thesis by (simp add: found_or_def)
  next
    assume "\<exists>t. suffix t data \<and> program_at t \<and> (\<forall>u. suffix u data \<and> program_at u \<longrightarrow> suffix u t) \<and>
      scan_ptx data = Some (ptx_candidate t)"
    then obtain t where t: "suffix t data" "program_at t" "\<forall>u. suffix u data \<and> program_at u \<longrightarrow> suffix u t"
      "scan_ptx data = Some (ptx_candidate t)" by blast
    have e: "extract_ptx_bytes data = Some (ptx_candidate t)"
      using t(4) short[OF t(1,2)] assms(4) by (simp add: extract_ptx_bytes_def)
    then have "extract_fatbin_ptx cd (Some img) = Some (kFound, Some (ptx_candidate t))" by (simp add: call found_or_def)
    moreover note extract_ptx_bytes_sound [OF e]
    ultimately show ?thesis using t(1-3) by auto
  qed
qed

definition sample_ptx :: bytes where
  "sample_ptx = bytes_of_string ''  .version 7.0 .entry k() { } pad''"

theorem extract_fatbin_ptx_complete_witness:
  "\<exists>p. extract_fatbin_ptx \<lparr>lz4 = \<lambda>payload n. None, zstd = \<lambda>payload n. None\<rparr>
      (Some (le_bytes 4 0xBA55ED50 @ le_bytes 2 1 @ le_bytes 2 20 @
      le_bytes 8 (length sample_ptx) @ [1, 2, 3, 4] @ sample_ptx @ [9])) = Some (kFound, Some p) \<and> is_program p"
proof -
  let ?img = "le_bytes 4 0xBA55ED50 @ le_bytes 2 1 @ le_bytes 2 (16 + length [1::8 word, 2, 3, 4]) @
      le_bytes 8 (length sample_ptx) @ [1, 2, 3, 4] @ sample_ptx @ [9]"
  have "length sample_ptx \<le> maximum_module_bytes" "sample_ptx \<noteq> []"
    by (simp_all add: sample_ptx_def maximum_module_bytes_def bytes_of_string_def)
  moreover have "length sample_ptx < 64" by (simp add: sample_ptx_def)
  then have "is_structured sample_ptx = Some False" using is_structured_defined [of sample_ptx] by auto
  moreover have "suffix (drop 2 sample_ptx) sample_ptx" by (rule suffix_drop)
  moreover have "starts_with (drop 2 sample_ptx) version_mark" "contains_sub (ptx_candidate (drop 2 sample_ptx)) entry_mark"
    by code_simp+
  then have "program_at (drop 2 sample_ptx)" by (simp add: program_at_def starts_with_iff_prefix contains_sub_iff_sublist)
  ultimately show ?thesis
    using extract_fatbin_ptx_complete [OF refl, of "[1, 2, 3, 4]" sample_ptx "\<lparr>lz4 = \<lambda>payload n. None, zstd = \<lambda>payload n. None\<rparr>" "[9]"]
    by (auto split: if_splits)
qed

end
