(* ===== verification/FatbinElf.thy ===== *)
theory FatbinElf imports FatbinPtx begin

text \<open>
  The reader of ELF images with embedded PTX, \<open>runtime/common/fatbin_elf.cpp\<close>: a header, a
  table of sections, a table of names, and in the sections with a PTX name fat binaries or raw
  text.  As in theory \<open>FatbinPtx\<close> an outcome \<open>None\<close> is a read outside the image.
\<close>

section \<open>Layouts\<close>

datatype ElfPtxStatus = eNotElf | eFound | eNoPtx | eMalformed | eUnsupported

record SectionView =
  sv_name_offset :: nat
  sv_link :: nat
  sv_offset :: nat
  sv_size :: nat

record ElfLayout =
  header_size :: nat
  section_header_size :: nat
  section_table_offset_field :: nat
  header_size_field :: nat
  section_entry_size_field :: nat
  section_count_field :: nat
  string_table_index_field :: nat
  section_offset_field :: nat
  section_size_field :: nat
  section_link_field :: nat
  fields_are_64_bit :: bool

definition elf32_layout :: ElfLayout where
  "elf32_layout = \<lparr>header_size = 52, section_header_size = 40, section_table_offset_field = 32,
     header_size_field = 40, section_entry_size_field = 46, section_count_field = 48,
     string_table_index_field = 50, section_offset_field = 16, section_size_field = 20,
     section_link_field = 24, fields_are_64_bit = False\<rparr>"

definition elf64_layout :: ElfLayout where
  "elf64_layout = \<lparr>header_size = 64, section_header_size = 64, section_table_offset_field = 40,
     header_size_field = 52, section_entry_size_field = 58, section_count_field = 60,
     string_table_index_field = 62, section_offset_field = 24, section_size_field = 32,
     section_link_field = 40, fields_are_64_bit = True\<rparr>"

definition checked_range :: "nat \<Rightarrow> nat \<Rightarrow> nat \<Rightarrow> bool" where
  "checked_range offset sz limit = (offset \<le> limit \<and> sz \<le> limit - offset)"

definition checked_table_range :: "nat \<Rightarrow> nat \<Rightarrow> nat \<Rightarrow> nat \<Rightarrow> bool" where
  "checked_table_range offset entry_size entry_count limit =
     (if entry_count = 0 \<or> entry_size = 0 \<or> limit < offset then False
      else entry_count \<le> (limit - offset) div entry_size)"

definition word_size :: "ElfLayout \<Rightarrow> nat" where
  "word_size layout = (if fields_are_64_bit layout then 8 else 4)"

definition read_section :: "bytes \<Rightarrow> nat \<Rightarrow> nat \<Rightarrow> nat \<Rightarrow> ElfLayout \<Rightarrow> SectionView option" where
  "read_section bs table_offset entry_size index layout = (let base = table_offset + entry_size * index in
     do {
       name_offset \<leftarrow> read_le 4 bs base;
       offset \<leftarrow> read_le (word_size layout) bs (base + section_offset_field layout);
       sz \<leftarrow> read_le (word_size layout) bs (base + section_size_field layout);
       link \<leftarrow> read_le 4 bs (base + section_link_field layout);
       Some \<lparr>sv_name_offset = name_offset, sv_link = link, sv_offset = offset, sv_size = sz\<rparr>
     })"

definition is_ptx_section_name :: "bytes \<Rightarrow> bool" where
  "is_ptx_section_name name =
     (name = bytes_of_string ''.nv_fatbin'' \<or> name = bytes_of_string ''.nvFatBinSegment'' \<or>
      name = bytes_of_string ''.ptx'' \<or> name = bytes_of_string ''.nv_ptx'')"

section \<open>Sections\<close>

type_synonym elf_extraction = "ElfPtxStatus \<times> bytes option"

text \<open>The loop over the offsets of a section that may start a fat binary.\<close>

function scan_section :: "codecs \<Rightarrow> bytes \<Rightarrow> nat \<Rightarrow> elf_extraction option" where
  "scan_section cd sec i =
     (if \<not> i + 16 \<le> length sec
      then Some (case extract_ptx_bytes sec of None \<Rightarrow> (eNoPtx, None) | Some p \<Rightarrow> (eFound, Some p))
      else do {
        magic \<leftarrow> read_le 4 sec i;
        (if magic \<noteq> 0xBA55ED50 then scan_section cd sec (Suc i)
         else do {
           r \<leftarrow> extract_fatbin_ptx cd (Some (drop i sec));
           (case fst r of
              kFound \<Rightarrow> Some (eFound, snd r)
            | kMalformed \<Rightarrow> Some (eMalformed, None)
            | kUnsupported \<Rightarrow> Some (eUnsupported, None)
            | _ \<Rightarrow> scan_section cd sec (Suc i))
         })
      })"
  by pat_completeness auto
termination
  by (relation "measure (\<lambda>(cd, sec, i). length sec - i)") auto

declare scan_section.simps [simp del]

definition extract_from_section :: "codecs \<Rightarrow> bytes \<Rightarrow> SectionView \<Rightarrow> elf_extraction option" where
  "extract_from_section cd bs sv = do {
     sec \<leftarrow> slice bs (sv_offset sv) (sv_size sv);
     scan_section cd sec 0
   }"

text \<open>The loop over the section table; the last argument lists the indices still to visit.\<close>

primrec scan_sections ::
  "codecs \<Rightarrow> bytes \<Rightarrow> nat \<Rightarrow> nat \<Rightarrow> ElfLayout \<Rightarrow> bytes \<Rightarrow> nat list \<Rightarrow> elf_extraction option" where
  "scan_sections cd bs table_offset entry_size layout names [] = Some (eNoPtx, None)"
| "scan_sections cd bs table_offset entry_size layout names (index # rest) = do {
     sv \<leftarrow> read_section bs table_offset entry_size index layout;
     (if length names \<le> sv_name_offset sv \<or> \<not> checked_range (sv_offset sv) (sv_size sv) (length bs)
      then Some (eMalformed, None)
      else let tail = drop (sv_name_offset sv) names in
        if 0 \<notin> set tail then Some (eMalformed, None)
        else if \<not> is_ptx_section_name (takeWhile (\<lambda>b. b \<noteq> 0) tail)
        then scan_sections cd bs table_offset entry_size layout names rest
        else do {
          r \<leftarrow> extract_from_section cd bs sv;
          (if fst r \<noteq> eNoPtx then Some r
           else scan_sections cd bs table_offset entry_size layout names rest)
        })
   }"

section \<open>The image\<close>

definition extract_sections :: "codecs \<Rightarrow> bytes \<Rightarrow> ElfLayout \<Rightarrow> elf_extraction option" where
  "extract_sections cd bs layout =
     (if length bs < header_size layout then Some (eMalformed, None)
      else do {
        table_offset \<leftarrow> read_le (word_size layout) bs (section_table_offset_field layout);
        elf_header_size \<leftarrow> read_le 2 bs (header_size_field layout);
        entry_size \<leftarrow> read_le 2 bs (section_entry_size_field layout);
        encoded_count \<leftarrow> read_le 2 bs (section_count_field layout);
        encoded_index \<leftarrow> read_le 2 bs (string_table_index_field layout);
        (if elf_header_size < header_size layout \<or> table_offset < elf_header_size \<or>
            entry_size < section_header_size layout \<or>
            \<not> checked_range table_offset entry_size (length bs)
         then Some (eMalformed, None)
         else do {
           section_zero \<leftarrow> read_section bs table_offset entry_size 0 layout;
           (let section_count = (if encoded_count = 0 then sv_size section_zero else encoded_count);
                string_table_index = (if encoded_index = 0xffff then sv_link section_zero
                                      else encoded_index)
            in if string_table_index = 0 \<or> section_count \<le> string_table_index \<or>
                  \<not> checked_table_range table_offset entry_size section_count (length bs)
            then Some (eMalformed, None)
            else do {
              string_table \<leftarrow> read_section bs table_offset entry_size string_table_index layout;
              (if \<not> checked_range (sv_offset string_table) (sv_size string_table) (length bs)
               then Some (eMalformed, None)
               else do {
                 names \<leftarrow> slice bs (sv_offset string_table) (sv_size string_table);
                 scan_sections cd bs table_offset entry_size layout names [0..<section_count]
               })
            })
         })
      })"

definition byte_at :: "bytes \<Rightarrow> nat \<Rightarrow> u8 option" where
  "byte_at bs i = (if i < length bs then Some (bs ! i) else None)"

definition extract_elf_ptx :: "codecs \<Rightarrow> bytes option \<Rightarrow> elf_extraction option" where
  "extract_elf_ptx cd img =
     (case img of
        None \<Rightarrow> Some (eNotElf, None)
      | Some bs \<Rightarrow>
          if length bs < 4 then Some (eNotElf, None)
          else do {
            b0 \<leftarrow> byte_at bs 0; b1 \<leftarrow> byte_at bs 1; b2 \<leftarrow> byte_at bs 2; b3 \<leftarrow> byte_at bs 3;
            (if b0 \<noteq> 0x7f \<or> b1 \<noteq> 0x45 \<or> b2 \<noteq> 0x4c \<or> b3 \<noteq> 0x46 then Some (eNotElf, None)
             else if length bs < 7 then Some (eMalformed, None)
             else do {
               b5 \<leftarrow> byte_at bs 5; b6 \<leftarrow> byte_at bs 6; b4 \<leftarrow> byte_at bs 4;
               (if b5 \<noteq> 1 \<or> b6 \<noteq> 1 then Some (eUnsupported, None)
                else if b4 = 1 then extract_sections cd bs elf32_layout
                else if b4 = 2 then extract_sections cd bs elf64_layout
                else Some (eUnsupported, None))
             })
          })"

section \<open>Memory safety and soundness\<close>

definition elf_result_ok :: "elf_extraction option \<Rightarrow> bool" where
  "elf_result_ok r \<longleftrightarrow> (\<exists>st out. r = Some (st, out) \<and>
     (st = eFound \<longrightarrow> (\<exists>p. out = Some p \<and> is_program p)) \<and> (st \<noteq> eFound \<longrightarrow> out = None))"

lemma elf_result_ok_fail: "st \<noteq> eFound \<Longrightarrow> elf_result_ok (Some (st, None))"
  by (simp add: elf_result_ok_def)

lemma elf_result_ok_found: "is_program p \<Longrightarrow> elf_result_ok (Some (eFound, Some p))"
  by (simp add: elf_result_ok_def)

lemma scan_section_ok: "elf_result_ok (scan_section cd sec i)"
proof (induction "length sec - i" arbitrary: i rule: less_induct)
  case less
  show ?case
  proof (cases "i + 16 \<le> length sec")
    case False
    then show ?thesis
      by (subst scan_section.simps)
         (simp add: elf_result_ok_fail elf_result_ok_found extract_ptx_bytes_sound split: option.split)
  next
    case True
    have next_ok: "elf_result_ok (scan_section cd sec (Suc i))"
      using less True by (intro less) linarith
    obtain magic where m: "read_le 4 sec i = Some magic"
      using read_le_eq_None [of 4 sec i] True by (cases "read_le 4 sec i") simp_all
    obtain st out where r: "extract_fatbin_ptx cd (Some (drop i sec)) = Some (st, out)"
        "st = kFound \<Longrightarrow> \<exists>p. out = Some p \<and> is_program p"
      using extract_fatbin_ptx_result [of cd "Some (drop i sec)"] unfolding result_ok_def by blast
    show ?thesis
    proof (cases "st = kFound")
      case True
      then obtain p where "out = Some p" "is_program p" using r(2) by blast
      then show ?thesis
        using \<open>i + 16 \<le> length sec\<close> True next_ok
        by (subst scan_section.simps) (simp add: m r(1) elf_result_ok_found)
    next
      case False
      then show ?thesis
        using \<open>i + 16 \<le> length sec\<close> next_ok
        by (subst scan_section.simps) (cases st; simp add: m r(1) elf_result_ok_fail)
    qed
  qed
qed

text \<open>Every field of a section header inside the table can be read.\<close>

definition layout_ok :: "ElfLayout \<Rightarrow> bool" where
  "layout_ok l \<longleftrightarrow>
     section_table_offset_field l + word_size l \<le> header_size l \<and>
     header_size_field l + 2 \<le> header_size l \<and> section_entry_size_field l + 2 \<le> header_size l \<and>
     section_count_field l + 2 \<le> header_size l \<and> string_table_index_field l + 2 \<le> header_size l \<and>
     4 \<le> section_header_size l \<and> section_offset_field l + word_size l \<le> section_header_size l \<and>
     section_size_field l + word_size l \<le> section_header_size l \<and>
     section_link_field l + 4 \<le> section_header_size l"

lemma layouts_ok: "layout_ok elf32_layout" "layout_ok elf64_layout"
  by (simp_all add: layout_ok_def elf32_layout_def elf64_layout_def word_size_def)

lemma read_le_defined: "off + n \<le> length bs \<Longrightarrow> \<exists>v. read_le n bs off = Some v"
  by (simp add: read_le_in_range)

lemma read_section_defined:
  assumes "layout_ok layout" "section_header_size layout \<le> entry_size"
    and "table_offset + entry_size * index + entry_size \<le> length bs"
  shows "\<exists>sv. read_section bs table_offset entry_size index layout = Some sv"
proof -
  let ?b = "table_offset + entry_size * index"
  have "?b + 4 \<le> length bs" "?b + section_offset_field layout + word_size layout \<le> length bs"
    "?b + section_size_field layout + word_size layout \<le> length bs"
    "?b + section_link_field layout + 4 \<le> length bs"
    using assms unfolding layout_ok_def by linarith+
  then obtain a b c d where "read_le 4 bs ?b = Some a"
      "read_le (word_size layout) bs (?b + section_offset_field layout) = Some b"
      "read_le (word_size layout) bs (?b + section_size_field layout) = Some c"
      "read_le 4 bs (?b + section_link_field layout) = Some d"
    using read_le_defined by metis
  then show ?thesis by (simp add: read_section_def)
qed

lemma table_entry_range:
  assumes "checked_table_range table_offset entry_size n limit" "index < n"
  shows "table_offset + entry_size * index + entry_size \<le> limit"
proof -
  have c: "table_offset \<le> limit" "n \<le> (limit - table_offset) div entry_size"
    using assms(1) by (auto simp: checked_table_range_def split: if_splits)
  have "entry_size * index + entry_size = entry_size * Suc index" by simp
  also have "\<dots> \<le> entry_size * ((limit - table_offset) div entry_size)"
    using assms(2) c(2) by (intro mult_le_mono2) linarith
  also have "\<dots> \<le> limit - table_offset" by (rule times_div_less_eq_dividend)
  finally show ?thesis using c(1) by linarith
qed

lemma extract_from_section_ok:
  assumes "checked_range (sv_offset sv) (sv_size sv) (length bs)"
  shows "elf_result_ok (extract_from_section cd bs sv)"
proof -
  have "sv_offset sv + sv_size sv \<le> length bs" using assms by (simp add: checked_range_def) linarith
  then have "slice bs (sv_offset sv) (sv_size sv) = Some (take (sv_size sv) (drop (sv_offset sv) bs))"
    by simp
  then show ?thesis
    by (simp add: extract_from_section_def scan_section_ok del: slice_eq_Some)
qed

lemma scan_sections_ok:
  assumes "layout_ok layout" "section_header_size layout \<le> entry_size"
    and "checked_table_range table_offset entry_size n (length bs)" "\<forall>i \<in> set is. i < n"
  shows "elf_result_ok (scan_sections cd bs table_offset entry_size layout names is)"
  using assms(4)
proof (induction "is")
  case Nil
  then show ?case by (simp add: elf_result_ok_fail)
next
  case (Cons i "is")
  have "i < n" using Cons.prems by simp
  then obtain sv where sv: "read_section bs table_offset entry_size i layout = Some sv"
    using read_section_defined [OF assms(1,2)] table_entry_range [OF assms(3)] by blast
  have rest: "elf_result_ok (scan_sections cd bs table_offset entry_size layout names is)"
    using Cons by simp
  show ?case
  proof (cases "checked_range (sv_offset sv) (sv_size sv) (length bs)")
    case False
    then show ?thesis by (simp add: sv elf_result_ok_fail)
  next
    case True
    note ok = extract_from_section_ok [OF True, of cd]
    then obtain r where r: "extract_from_section cd bs sv = Some r"
      unfolding elf_result_ok_def by blast
    show ?thesis
      using ok rest True unfolding r
      by (simp add: sv r Let_def elf_result_ok_fail)
  qed
qed

lemma bind_slice_ok:
  assumes "checked_range off n (length bs)" "\<And>names. elf_result_ok (f names)"
  shows "elf_result_ok (Option.bind (slice bs off n) f)"
proof -
  have "off + n \<le> length bs" using assms(1) by (simp add: checked_range_def) linarith
  then have "slice bs off n = Some (take n (drop off bs))" by simp
  then show ?thesis using assms(2) by (simp del: slice_eq_Some)
qed

lemma extract_sections_ok:
  assumes "layout_ok layout"
  shows "elf_result_ok (extract_sections cd bs layout)"
proof (cases "header_size layout \<le> length bs")
  case False
  then show ?thesis by (simp add: extract_sections_def elf_result_ok_fail)
next
  case True
  obtain off hs es cnt idx where reads:
      "read_le (word_size layout) bs (section_table_offset_field layout) = Some off"
      "read_le 2 bs (header_size_field layout) = Some hs"
      "read_le 2 bs (section_entry_size_field layout) = Some es"
      "read_le 2 bs (section_count_field layout) = Some cnt"
      "read_le 2 bs (string_table_index_field layout) = Some idx"
    using read_le_defined True assms unfolding layout_ok_def by (meson order_trans)
  show ?thesis
  proof (cases "es < section_header_size layout \<or> \<not> checked_range off es (length bs)")
    case True
    then show ?thesis
      using \<open>header_size layout \<le> length bs\<close>
      by (auto simp: extract_sections_def reads elf_result_ok_fail)
  next
    case False
    then have es: "section_header_size layout \<le> es" and "off + es \<le> length bs"
      by (auto simp: checked_range_def)
    then obtain z where z: "read_section bs off es 0 layout = Some z"
      using read_section_defined [OF assms es, of off 0 bs] by auto
    let ?n = "if cnt = 0 then sv_size z else cnt" and ?k = "if idx = 0xffff then sv_link z else idx"
    show ?thesis
    proof (cases "?k < ?n \<and> checked_table_range off es ?n (length bs)")
      case bad: False
      then show ?thesis
        using \<open>header_size layout \<le> length bs\<close> False
        by (auto simp: extract_sections_def reads z Let_def elf_result_ok_fail)
    next
      case tab: True
      then obtain st where st: "read_section bs off es ?k layout = Some st"
        using read_section_defined [OF assms es] table_entry_range by blast
      have scan: "elf_result_ok (scan_sections cd bs off es layout names [0..<?n])" for names
        using scan_sections_ok [OF assms es, of off ?n bs "[0..<?n]"] tab by simp
      show ?thesis
        using \<open>header_size layout \<le> length bs\<close> False tab scan
        by (auto simp: extract_sections_def reads z st Let_def elf_result_ok_fail intro: bind_slice_ok)
    qed
  qed
qed

text \<open>
  C11: whatever bytes an ELF image holds, the reader never reads outside it, also through the
  escapes in section zero for large section counts and indices, and it stops; a program it
  reports starts with a version directive, contains an entry directive and no NUL byte and has
  at most 64 MiB.
\<close>

theorem extract_elf_ptx_safe:
  "\<exists>st out. extract_elf_ptx cd img = Some (st, out) \<and>
     (if st = eFound then \<exists>p. out = Some p \<and> is_program p else out = None)"
proof -
  have "elf_result_ok (extract_elf_ptx cd img)"
    by (auto simp: extract_elf_ptx_def byte_at_def elf_result_ok_fail
        extract_sections_ok layouts_ok split: option.split)
  then show ?thesis unfolding elf_result_ok_def by auto
qed

end
