(* ===== verification/ModuleCache.thy ===== *)
theory ModuleCache imports Prelude begin

text \<open>
  The module cache, \<open>runtime/cache/module_cache.cpp\<close>: content-addressed files that are
  published by renaming, and the container that carries a metallib and its ABI sidecar in one
  image.  The file system is a map from paths to contents; whether a directory can be created, a
  file written or renamed is an argument of the call, as is the clock value in the name of the
  temporary file.  Other processes do not run during a call.
\<close>

section \<open>Names\<close>

unbundle bit_operations_syntax

definition fnv1a64 :: "bytes \<Rightarrow> u64" where
  "fnv1a64 bs = foldl (\<lambda>hash b. (hash XOR ucast b) * 1099511628211) 1469598103934665603 bs"

definition hex_char :: "nat \<Rightarrow> char" where
  "hex_char d = (if d < 10 then char_of (48 + d) else char_of (87 + d))"

definition hash_to_hex :: "u64 \<Rightarrow> string" where
  "hash_to_hex hash = map (\<lambda>i. hex_char ((unat hash div 16 ^ i) mod 16)) (rev [0..<16])"

record environment =
  env_cache_dir :: "string option"
  env_home :: "string option"
  env_temp :: string

text \<open>\<open>operator/\<close> of paths joins with a slash.\<close>

definition default_cache_root :: "environment \<Rightarrow> string" where
  "default_cache_root e =
     (if \<exists>r \<in> set_option (env_cache_dir e). r \<noteq> [] then the (env_cache_dir e)
      else if \<exists>h \<in> set_option (env_home e). h \<noteq> []
      then the (env_home e) @ ''/Library/Caches/io.cumetal/kernels''
      else env_temp e @ ''/io.cumetal/kernels'')"

definition target_path :: "string \<Rightarrow> u64 \<Rightarrow> nat \<Rightarrow> string" where
  "target_path root hash sz =
     root @ ''/metallib-'' @ hash_to_hex hash @ ''-'' @ show_nat sz @ ''.metallib''"

definition temp_path :: "string \<Rightarrow> nat \<Rightarrow> string" where
  "temp_path target nonce = target @ ''.tmp.'' @ show_nat nonce"

section \<open>Publishing a file\<close>

type_synonym files = "string \<Rightarrow> bytes option"

record outcomes =
  directory_ok :: bool
  write_ok :: bool
  rename_ok :: bool
  clock :: nat

definition file_size_matches :: "files \<Rightarrow> string \<Rightarrow> nat \<Rightarrow> bool" where
  "file_size_matches fs path n = (\<exists>c \<in> set_option (fs path). length c = n)"

definition stage_metallib_bytes ::
  "environment \<Rightarrow> outcomes \<Rightarrow> bytes \<Rightarrow> files \<Rightarrow> string option \<times> files" where
  "stage_metallib_bytes e w bs fs =
     (if bs = [] then (None, fs)
      else if \<not> directory_ok w then (None, fs)
      else let target = target_path (default_cache_root e) (fnv1a64 bs) (length bs);
               temp = temp_path target (clock w)
      in if file_size_matches fs target (length bs) then (Some target, fs)
      else if \<not> write_ok w then (None, fs(temp := None))
      else if rename_ok w then (Some target, (fs(temp := None))(target := Some bs))
      else if \<not> file_size_matches (fs(temp := Some bs)) target (length bs)
      then (None, fs(temp := None))
      else (Some target, fs(temp := Some bs)))"

definition stage_metallib_abi_sidecar ::
  "outcomes \<Rightarrow> string \<Rightarrow> bytes \<Rightarrow> files \<Rightarrow> bool \<times> files" where
  "stage_metallib_abi_sidecar w metallib_path sidecar fs =
     (if sidecar = [] \<or> metallib_path = [] then (False, fs)
      else let target = metallib_path @ ''.cumetal-abi''; temp = temp_path target (clock w)
      in if file_size_matches fs target (length sidecar) then (True, fs)
      else if \<not> write_ok w then (False, fs(temp := None))
      else if rename_ok w then (True, (fs(temp := None))(target := Some sidecar))
      else (False, fs(temp := None)))"

section \<open>The container of a module\<close>

definition module_magic :: bytes where
  "module_magic = bytes_of_string ''CUMTLMD1''"

definition pack_module_image :: "bytes \<Rightarrow> bytes \<Rightarrow> bytes" where
  "pack_module_image metallib sidecar =
     module_magic @ le_bytes 8 (length metallib) @ le_bytes 8 (length sidecar) @ metallib @ sidecar"

text \<open>
  The parts are views into the image: offset and size of the metallib and of the sidecar.  The
  sum of header and sizes is formed in 64 bits.  The outer \<open>None\<close> is a read outside the image.
\<close>

record ModuleImageParts =
  mi_metallib :: "nat \<times> nat"
  mi_sidecar :: "nat \<times> nat"

definition parse_module_image :: "bytes option \<Rightarrow> ModuleImageParts option option" where
  "parse_module_image img =
     (case img of
        None \<Rightarrow> Some None
      | Some bs \<Rightarrow>
          if length bs < 24 then Some None
          else do {
            magic \<leftarrow> slice bs 0 8;
            (if magic \<noteq> module_magic then Some None
             else do {
               n \<leftarrow> read_le 8 bs 8;
               m \<leftarrow> read_le 8 bs 16;
               (if n = 0 \<or> m = 0 \<or> length bs < n \<or> length bs < m \<or>
                   (of_nat (length bs) :: u64) < 24 + of_nat n + of_nat m
                then Some None
                else Some (Some \<lparr>mi_metallib = (24, n), mi_sidecar = (24 + n, m)\<rparr>))
             })
          })"

definition view :: "bytes \<Rightarrow> nat \<times> nat \<Rightarrow> bytes" where
  "view bs v = take (snd v) (drop (fst v) bs)"

lemma length_module_magic [simp]: "length module_magic = 8"
  by (simp add: module_magic_def)

lemma of_nat_less_u64:
  assumes "a < 18446744073709551616" "b < 18446744073709551616"
  shows "(of_nat a :: u64) < of_nat b \<longleftrightarrow> a < b"
  using assms by (simp add: u64_less unat_of_nat)

lemma le_bytes_take: "length bs = 8 \<Longrightarrow> le_bytes 8 (le_value bs) = bs"
  using le_bytes_le_value [of bs] by simp

definition module_parts :: "bytes \<Rightarrow> nat \<Rightarrow> nat \<Rightarrow> bool" where
  "module_parts bs n m \<longleftrightarrow> parse_module_image (Some bs) =
     Some (Some \<lparr>mi_metallib = (24, n), mi_sidecar = (24 + n, m)\<rparr>)"

lemma parse_module_image_iff:
  assumes "length bs < 4611686018427387904"
  shows "parse_module_image (Some bs) = Some (Some parts) \<longleftrightarrow>
    (\<exists>n m. parts = \<lparr>mi_metallib = (24, n), mi_sidecar = (24 + n, m)\<rparr> \<and> n \<noteq> 0 \<and> m \<noteq> 0 \<and>
       24 + n + m \<le> length bs \<and> take 8 bs = module_magic \<and>
       le_value (take 8 (drop 8 bs)) = n \<and> le_value (take 8 (drop 16 bs)) = m)"
proof (cases "24 \<le> length bs")
  case False
  then show ?thesis by (auto simp: parse_module_image_def)
next
  case True
  let ?n = "le_value (take 8 (drop 8 bs))" and ?m = "le_value (take 8 (drop 16 bs))"
  have sl: "slice bs 0 8 = Some (take 8 bs)" "read_le 8 bs 8 = Some ?n" "read_le 8 bs 16 = Some ?m"
    using True by (simp_all add: read_le_in_range)
  have "\<not> (of_nat (length bs) :: u64) < 24 + of_nat ?n + of_nat ?m \<longleftrightarrow> 24 + ?n + ?m \<le> length bs"
    if "?n \<le> length bs" "?m \<le> length bs"
  proof -
    have "(24 :: u64) + of_nat ?n + of_nat ?m = of_nat (24 + ?n + ?m)" by simp
    moreover have "24 + ?n + ?m < 18446744073709551616" using that assms by linarith
    moreover have "length bs < 18446744073709551616" using assms by linarith
    ultimately show ?thesis using of_nat_less_u64 by (simp only:) linarith
  qed
  then show ?thesis
    using True by (auto simp: parse_module_image_def sl simp del: slice_eq_Some)
qed

text \<open>
  C12: the container round-trips: an image that was packed from a non-empty metallib and sidecar
  parses, whatever follows it in memory, into views of exactly these two, and every image that
  parses is such a packed image followed by further bytes, so the views never leave it.
\<close>

theorem module_image_roundtrip:
  assumes "length bs < 4611686018427387904"
  shows "(\<exists>parts. parse_module_image (Some bs) = Some (Some parts) \<and>
      view bs (mi_metallib parts) = metallib \<and> view bs (mi_sidecar parts) = sidecar) \<longleftrightarrow>
    metallib \<noteq> [] \<and> sidecar \<noteq> [] \<and> (\<exists>rest. bs = pack_module_image metallib sidecar @ rest)"
    (is "?parses \<longleftrightarrow> ?packed")
proof
  assume ?parses
  then obtain n m where p: "n \<noteq> 0" "m \<noteq> 0" "24 + n + m \<le> length bs" "take 8 bs = module_magic"
      "le_value (take 8 (drop 8 bs)) = n" "le_value (take 8 (drop 16 bs)) = m"
      "metallib = take n (drop 24 bs)" "sidecar = take m (drop (24 + n) bs)"
    by (auto simp: parse_module_image_iff [OF assms] view_def)
  have len: "length metallib = n" "length sidecar = m" using p by simp_all
  have "le_bytes 8 n = take 8 (drop 8 bs)" "le_bytes 8 m = take 8 (drop 16 bs)"
    using p(3) le_bytes_take [of "take 8 (drop 8 bs)"] le_bytes_take [of "take 8 (drop 16 bs)"]
    by (simp_all add: p(5,6))
  then have "pack_module_image metallib sidecar @ drop (24 + n + m) bs =
      take 8 bs @ take 8 (drop 8 bs) @ take 8 (drop 16 bs) @ take n (drop 24 bs) @
      take m (drop (24 + n) bs) @ drop (24 + n + m) bs"
    by (simp add: pack_module_image_def len p(4)) (simp add: p(7,8))
  also have "take m (drop (24 + n) bs) @ drop (24 + n + m) bs = drop (24 + n) bs"
    by (metis append_take_drop_id drop_drop add.commute)
  also have "take n (drop 24 bs) @ drop (24 + n) bs = drop 24 bs"
    by (metis append_take_drop_id drop_drop add.commute)
  also have "take 8 (drop 16 bs) @ drop 24 bs = drop 16 bs"
    using append_take_drop_id [of 8 "drop 16 bs"] by simp
  also have "take 8 (drop 8 bs) @ drop 16 bs = drop 8 bs"
    using append_take_drop_id [of 8 "drop 8 bs"] by simp
  also have "take 8 bs @ drop 8 bs = bs" by simp
  finally have "bs = pack_module_image metallib sidecar @ drop (24 + n + m) bs" by simp
  moreover have "metallib \<noteq> []" "sidecar \<noteq> []" using len p(1,2) by auto
  ultimately show ?packed by blast
next
  assume ?packed
  then obtain rest where ne: "metallib \<noteq> []" "sidecar \<noteq> []"
    and bs: "bs = pack_module_image metallib sidecar @ rest" by blast
  have small: "length metallib < 256 ^ 8" "length sidecar < 256 ^ 8"
    using assms unfolding bs by (simp_all add: pack_module_image_def)
  have "24 + length metallib + length sidecar \<le> length bs" "take 8 bs = module_magic"
    "le_value (take 8 (drop 8 bs)) = length metallib" "le_value (take 8 (drop 16 bs)) = length sidecar"
    unfolding bs using small by (simp_all add: pack_module_image_def le_value_le_bytes)
  moreover have "view bs (24, length metallib) = metallib"
    "view bs (24 + length metallib, length sidecar) = sidecar"
    unfolding bs by (simp_all add: view_def pack_module_image_def)
  ultimately show ?parses using ne by (auto simp: parse_module_image_iff [OF assms])
qed

theorem module_image_roundtrip_witness:
  "\<exists>parts. parse_module_image (Some (pack_module_image [77, 84, 76, 66] [1, 2] @ [0, 0, 0])) = Some (Some parts) \<and>
     view (pack_module_image [77, 84, 76, 66] [1, 2] @ [0, 0, 0]) (mi_metallib parts) = [77, 84, 76, 66] \<and>
     view (pack_module_image [77, 84, 76, 66] [1, 2] @ [0, 0, 0]) (mi_sidecar parts) = [1, 2]"
proof -
  let ?bs = "pack_module_image [77, 84, 76, 66] [1, 2] @ [0, 0, 0]"
  have "length ?bs < 4611686018427387904" by (simp add: pack_module_image_def)
  from module_image_roundtrip [OF this, of "[77, 84, 76, 66]" "[1, 2]"] show ?thesis by blast
qed

section \<open>Content addressing\<close>

lemma hex_char_inject: "a < 16 \<Longrightarrow> b < 16 \<Longrightarrow> hex_char a = hex_char b \<Longrightarrow> a = b"
proof -
  assume "a < 16" "b < 16" "hex_char a = hex_char b"
  moreover have "(of_char (hex_char d) :: nat) = (if d < 10 then 48 + d else 87 + d)" if "d < 16" for d
    using that by (simp add: hex_char_def)
  ultimately have "(if a < 10 then 48 + a else 87 + a) = (if b < 10 then 48 + b else 87 + b)" by metis
  then show "a = b" by (simp split: if_splits)
qed

lemma digits_determine:
  "\<forall>i < k. a div 16 ^ i mod 16 = b div 16 ^ i mod 16 \<Longrightarrow> a mod 16 ^ k = (b mod 16 ^ k :: nat)"
proof (induction k)
  case 0
  then show ?case by simp
next
  case (Suc k)
  then have "a mod 16 ^ k = b mod 16 ^ k" "a div 16 ^ k mod 16 = b div 16 ^ k mod 16" by simp_all
  moreover have "x mod 16 ^ Suc k = 16 ^ k * (x div 16 ^ k mod 16) + x mod 16 ^ k" for x :: nat
    using mod_mult2_eq [of x "16 ^ k" 16] by (simp add: mult.commute)
  ultimately show ?case by metis
qed

lemma hash_to_hex_inject: "hash_to_hex x = hash_to_hex y \<longleftrightarrow> x = y"
proof
  assume h: "hash_to_hex x = hash_to_hex y"
  have "\<forall>i < 16. unat x div 16 ^ i mod 16 = unat y div 16 ^ i mod 16"
  proof (intro allI impI)
    fix i :: nat assume "i < 16"
    then have "i \<in> set (rev [0..<16])" by simp
    then have "hex_char (unat x div 16 ^ i mod 16) = hex_char (unat y div 16 ^ i mod 16)"
      using h unfolding hash_to_hex_def map_eq_conv by blast
    then show "unat x div 16 ^ i mod 16 = unat y div 16 ^ i mod 16"
      by (intro hex_char_inject) simp_all
  qed
  from digits_determine [OF this] have "unat x mod 16 ^ 16 = unat y mod 16 ^ 16" .
  moreover have "unat x < 16 ^ 16" "unat y < 16 ^ 16" using u64_bound [of x] u64_bound [of y] by simp_all
  ultimately show "x = y" by (simp add: word_unat_eq_iff)
qed simp

lemma length_hash_to_hex [simp]: "length (hash_to_hex h) = 16"
  by (simp add: hash_to_hex_def)

lemma target_path_inject: "target_path root h n = target_path root h' n' \<longleftrightarrow> h = h' \<and> n = n'"
  by (auto simp: target_path_def append_eq_append_conv hash_to_hex_inject)

lemma last_show_nat: "show_nat n \<noteq> [] \<and> last (show_nat n) = digit_char (n mod 10)"
  by (subst (1 2) show_nat.simps) auto

lemma temp_not_target: "temp_path t n \<noteq> target_path root h k"
proof
  assume "temp_path t n = target_path root h k"
  then have "last (temp_path t n) = last (target_path root h k)" by simp
  moreover have "last (temp_path t n) = digit_char (n mod 10)"
    using last_show_nat [of n] by (simp add: temp_path_def)
  moreover have "last (target_path root h k) = CHR ''b''" by (simp add: target_path_def)
  ultimately have "(of_char (digit_char (n mod 10)) :: nat) = of_char (CHR ''b'')" by simp
  then show False by (simp add: of_char_digit_char)
qed

text \<open>Every published file has the hash and the size in its name.\<close>

definition cache_ok :: "string \<Rightarrow> files \<Rightarrow> bool" where
  "cache_ok root fs \<longleftrightarrow> (\<forall>h n c. fs (target_path root h n) = Some c \<longrightarrow> fnv1a64 c = h \<and> length c = n)"

text \<open>
  C13: staging keeps the cache content-addressed, whatever the file system refuses on the way:
  every published file still has the hash and the size in its name, no other published file
  changes, and the path a successful call returns holds a file with the hash and the size of the
  staged bytes, which are these bytes when no file of that size and hash was there before.
\<close>

theorem stage_metallib_content_addressed:
  assumes "cache_ok (default_cache_root e) fs" "stage_metallib_bytes e w bs fs = (out, fs')"
  shows "cache_ok (default_cache_root e) fs' \<and>
    (\<forall>h n. (h, n) \<noteq> (fnv1a64 bs, length bs) \<longrightarrow>
       fs' (target_path (default_cache_root e) h n) = fs (target_path (default_cache_root e) h n)) \<and>
    (\<forall>p. out = Some p \<longrightarrow> (\<exists>c. fs' p = Some c \<and> fnv1a64 c = fnv1a64 bs \<and> length c = length bs \<and>
       (fs p = None \<longrightarrow> c = bs)))"
proof -
  let ?r = "default_cache_root e"
  let ?t = "target_path ?r (fnv1a64 bs) (length bs)"
  note [simp] = temp_not_target temp_not_target [symmetric]
  have hit: "\<exists>c. fs ?t = Some c \<and> fnv1a64 c = fnv1a64 bs \<and> length c = length bs"
    if "file_size_matches fs ?t (length bs)"
    using that assms(1) by (auto simp: file_size_matches_def cache_ok_def)
  have keep: "file_size_matches (fs(temp_path ?t n := x)) ?t (length bs) = file_size_matches fs ?t (length bs)" for n x
    by (simp add: file_size_matches_def)
  have "cache_ok ?r fs'"
    using assms by (auto simp: stage_metallib_bytes_def Let_def cache_ok_def target_path_inject
        split: if_splits)
  moreover have "fs' (target_path ?r h n) = fs (target_path ?r h n)" if "(h, n) \<noteq> (fnv1a64 bs, length bs)" for h n
    using that assms(2) by (auto simp: stage_metallib_bytes_def Let_def target_path_inject split: if_splits)
  moreover have "\<exists>c. fs' p = Some c \<and> fnv1a64 c = fnv1a64 bs \<and> length c = length bs \<and>
       (fs p = None \<longrightarrow> c = bs)" if "out = Some p" for p
    using that assms(2) hit keep
    by (auto simp: stage_metallib_bytes_def Let_def split: if_splits)
  ultimately show ?thesis by blast
qed

definition clean_outcomes :: outcomes where
  "clean_outcomes = \<lparr>directory_ok = True, write_ok = True, rename_ok = True, clock = 5\<rparr>"

definition sample_environment :: environment where
  "sample_environment = \<lparr>env_cache_dir = Some ''/c'', env_home = None, env_temp = ''/tmp''\<rparr>"

theorem stage_metallib_content_addressed_witness:
  "\<exists>p fs'. stage_metallib_bytes sample_environment clean_outcomes [77, 84, 76, 66] (\<lambda>_. None) = (Some p, fs') \<and>
     fs' p = Some [77, 84, 76, 66]"
proof -
  let ?bs = "[77, 84, 76, 66] :: bytes"
  obtain p fs' where s: "stage_metallib_bytes sample_environment clean_outcomes ?bs (\<lambda>_. None) = (Some p, fs')"
    by (simp add: stage_metallib_bytes_def clean_outcomes_def file_size_matches_def Let_def)
  have "cache_ok (default_cache_root sample_environment) (\<lambda>_. None)" by (simp add: cache_ok_def)
  from stage_metallib_content_addressed [OF this s] show ?thesis using s by auto
qed

text \<open>
  The sidecar is not content-addressed: a sidecar file of the same size that another image
  with the same metallib left behind is kept, and the call still reports success.
\<close>

lemma stage_sidecar_keeps_stale:
  "\<exists>fs'. stage_metallib_abi_sidecar clean_outcomes ''m'' [2, 2] [''m.cumetal-abi'' \<mapsto> [1, 1]] = (True, fs') \<and>
     fs' ''m.cumetal-abi'' = Some [1, 1]"
  by (simp add: stage_metallib_abi_sidecar_def file_size_matches_def Let_def)

end
