(* ===== verification/Metallib.thy ===== *)
theory Metallib
  imports Prelude "HOL-Library.Char_ord" "HOL-Library.List_Lexorder" "HOL-Library.Product_Lexorder"
begin

text \<open>
  The inspector of metallib files, \<open>compiler/common/src/metallib.cpp\<close>, which reads containers
  the compiler did not write.  Where the code adds an offset from the file to a size in 64 (or
  32) bits the sum is one of machine words; positions that are known to lie in the file are
  naturals.  The outer \<open>None\<close> of an outcome is a read outside the file.  A file has fewer than
  \<open>2 ^ 63\<close> bytes.
\<close>

section \<open>Reading fields\<close>

definition raw_bitcode_sig :: bytes where
  "raw_bitcode_sig = [0x42, 0x43, 0xC0, 0xDE]"

definition wrapped_bitcode_sig :: bytes where
  "wrapped_bitcode_sig = [0xDE, 0xC0, 0x17, 0x0B]"

definition cumetal_magic :: bytes where
  "cumetal_magic = bytes_of_string ''MTLB''"

definition file_size :: "bytes \<Rightarrow> u64" where
  "file_size bs = of_nat (length bs)"

text \<open>
  \<open>read_u16_le\<close>, \<open>read_u32_le\<close> and \<open>read_u64_le\<close>: the bounds check adds in 64 bits, so an offset
  just below \<open>2 ^ 64\<close> passes it.  \<open>Some None\<close> is \<open>nullopt\<close>.
\<close>

definition read_field :: "nat \<Rightarrow> bytes \<Rightarrow> u64 \<Rightarrow> nat option option" where
  "read_field n bs offset =
     (if file_size bs < offset + of_nat n then Some None
      else map_option Some (read_le n bs (unat offset)))"

definition read_u16_le :: "bytes \<Rightarrow> u64 \<Rightarrow> nat option option" where
  "read_u16_le bs offset = read_field 2 bs offset"

definition read_u32_le :: "bytes \<Rightarrow> u64 \<Rightarrow> nat option option" where
  "read_u32_le bs offset = read_field 4 bs offset"

definition read_u64_le :: "bytes \<Rightarrow> u64 \<Rightarrow> nat option option" where
  "read_u64_le bs offset = read_field 8 bs offset"

definition matches_sig_at :: "bytes \<Rightarrow> u64 \<Rightarrow> bytes \<Rightarrow> bool option" where
  "matches_sig_at bs offset sig =
     (if offset + of_nat (length sig) \<le> file_size bs
      then map_option (\<lambda>s. s = sig) (slice bs (unat offset) (length sig))
      else Some False)"

definition looks_like_bitcode_signature :: "bytes \<Rightarrow> u64 \<Rightarrow> bool option" where
  "looks_like_bitcode_signature bs offset = do {
     raw \<leftarrow> matches_sig_at bs offset raw_bitcode_sig;
     (if raw then Some True else matches_sig_at bs offset wrapped_bitcode_sig)
   }"

definition is_visible_ascii :: "u8 \<Rightarrow> bool" where
  "is_visible_ascii c = (32 \<le> c \<and> c \<le> 126)"

definition is_alpha_byte :: "u8 \<Rightarrow> bool" where
  "is_alpha_byte c = (65 \<le> c \<and> c \<le> 90 \<or> 97 \<le> c \<and> c \<le> 122)"

definition is_digit_byte :: "u8 \<Rightarrow> bool" where
  "is_digit_byte c = (48 \<le> c \<and> c \<le> 57)"

text \<open>Underscore, dot, dollar, plus and minus besides letters and digits.\<close>

definition is_valid_symbol_char :: "u8 \<Rightarrow> bool" where
  "is_valid_symbol_char c =
     (is_alpha_byte c \<or> is_digit_byte c \<or> c = 95 \<or> c = 46 \<or> c = 36 \<or> c = 43 \<or> c = 45)"

definition sanitize_magic :: "bytes \<Rightarrow> string" where
  "sanitize_magic magic = map (\<lambda>c. if is_visible_ascii c then char_byte c else CHR ''.'') magic"

text \<open>A NUL-terminated, non-empty name of symbol characters and spaces before \<open>fin\<close>.\<close>

definition parse_cstring :: "bytes \<Rightarrow> nat \<Rightarrow> nat \<Rightarrow> string option" where
  "parse_cstring bs offset fin =
     (if fin \<le> offset \<or> length bs < fin then None
      else let region = take (fin - offset) (drop offset bs);
               name = takeWhile (\<lambda>b. b \<noteq> 0) region
      in if list_all (\<lambda>b. is_visible_ascii b \<and> (is_valid_symbol_char b \<or> b = 32)) name \<and>
            length name < length region \<and> name \<noteq> []
         then Some (string_of_bytes name) else None)"

definition strip_trailing_zeros :: "bytes \<Rightarrow> bytes" where
  "strip_trailing_zeros s = rev (dropWhile (\<lambda>b. b = 0) (rev s))"

definition parse_cstring_from_blob :: "bytes \<Rightarrow> nat \<Rightarrow> nat \<Rightarrow> string option" where
  "parse_cstring_from_blob bs offset sz =
     (if length bs < offset + sz \<or> sz = 0 then None
      else let name = strip_trailing_zeros (take sz (drop offset bs))
      in if name = [] \<or> \<not> list_all is_visible_ascii name then None
         else Some (string_of_bytes name))"

definition hex_digit :: "nat \<Rightarrow> char" where
  "hex_digit d = (if d < 10 then char_of (48 + d) else char_of (87 + d))"

definition to_hex_prefix :: "bytes \<Rightarrow> nat \<Rightarrow> nat \<Rightarrow> nat \<Rightarrow> string option" where
  "to_hex_prefix bs offset sz max_bytes =
     map_option (\<lambda>s. concat (map (\<lambda>b. [hex_digit (unat b div 16), hex_digit (unat b mod 16)]) s))
       (slice bs offset (min sz max_bytes))"

section \<open>Records\<close>

record KernelMetadataField =
  mf_key :: string
  mf_value :: string

definition field :: "string \<Rightarrow> string \<Rightarrow> KernelMetadataField" where
  "field k v = \<lparr>mf_key = k, mf_value = v\<rparr>"

record KernelRecord =
  kr_name :: string
  kr_bitcode_offset :: u64
  kr_bitcode_size :: u64
  kr_signature_ok :: bool
  kr_metadata :: "KernelMetadataField list"

record BitcodeSection =
  bs_kind :: string
  bs_offset :: u64
  bs_size :: u64
  bs_reliable_size :: bool
  bs_wrapper_version :: u32
  bs_wrapper_offset :: u32
  bs_wrapper_size :: u32
  bs_wrapper_cpu_type :: u32

record StringCandidate =
  sc_offset :: nat
  sc_value :: string

record CumetalContainerInfo =
  ci_parsed :: bool
  ci_version :: nat
  ci_flags :: nat
  ci_function_table_offset :: nat
  ci_function_count :: nat
  ci_string_table_offset :: nat
  ci_string_table_size :: nat
  ci_payload_offset :: nat
  ci_payload_size :: nat
  ci_kernels :: "KernelRecord list"

definition no_container :: CumetalContainerInfo where
  "no_container = \<lparr>ci_parsed = False, ci_version = 0, ci_flags = 0, ci_function_table_offset = 0,
     ci_function_count = 0, ci_string_table_offset = 0, ci_string_table_size = 0,
     ci_payload_offset = 0, ci_payload_size = 0, ci_kernels = []\<rparr>"

record MetallibSummary =
  ms_path :: string
  ms_file_size :: u64
  ms_magic :: bytes
  ms_magic_ascii :: string
  ms_word1 :: nat
  ms_word2 :: nat
  ms_bitcode_sections :: "BitcodeSection list"
  ms_strings :: "StringCandidate list"
  ms_function_list_parsed :: bool
  ms_function_list_parser :: string
  ms_kernels :: "KernelRecord list"
  ms_cumetal :: CumetalContainerInfo

section \<open>Containers written by the compiler\<close>

text \<open>\<open>key=value\<close> lines; a line without a key, a value or the sign is skipped.\<close>

definition metadata_line :: "string \<Rightarrow> KernelMetadataField list" where
  "metadata_line line =
     (case find_sub ''='' line of
        None \<Rightarrow> []
      | Some eq \<Rightarrow> if 0 < eq \<and> eq + 1 < length line
                   then [field (take eq line) (drop (eq + 1) line)] else [])"

function metadata_lines :: "string \<Rightarrow> KernelMetadataField list" where
  "metadata_lines blob =
     (if blob = [] then []
      else let line = takeWhile (\<lambda>c. c \<noteq> CHR 0x0A) blob in
        (if line = [] then [] else metadata_line line) @
        metadata_lines (drop (Suc (length line)) blob))"
  by pat_completeness auto
termination
  by (relation "measure length") (auto simp: Let_def)

declare metadata_lines.simps [simp del]

definition parse_metadata_blob :: "bytes \<Rightarrow> nat \<Rightarrow> nat \<Rightarrow> KernelMetadataField list option" where
  "parse_metadata_blob bs offset sz =
     (if sz = 0 \<or> length bs < offset + sz then Some []
      else map_option (metadata_lines \<circ> string_of_bytes) (slice bs offset sz))"

text \<open>Sums of two table fields are 32-bit.\<close>

definition add_u32 :: "nat \<Rightarrow> nat \<Rightarrow> nat" where
  "add_u32 a b = (a + b) mod 4294967296"

definition clear_kernels :: "CumetalContainerInfo \<Rightarrow> CumetalContainerInfo" where
  "clear_kernels info = info\<lparr>ci_parsed := False, ci_kernels := []\<rparr>"

text \<open>One entry of the function table; \<open>Some None\<close> makes the container unparsed.\<close>

definition parse_function_entry :: "bytes \<Rightarrow> CumetalContainerInfo \<Rightarrow> nat \<Rightarrow> KernelRecord option option" where
  "parse_function_entry bs info i = (
     let entry_offset = of_nat (ci_function_table_offset info) + of_nat i * (32 :: u64);
         strings_end = add_u32 (ci_string_table_offset info) (ci_string_table_size info)
     in do {
       name_rel \<leftarrow> read_u32_le bs entry_offset;
       bitcode_rel \<leftarrow> read_u32_le bs (entry_offset + 4);
       bitcode_size \<leftarrow> read_u32_le bs (entry_offset + 8);
       metadata_rel \<leftarrow> read_u32_le bs (entry_offset + 12);
       metadata_size \<leftarrow> read_u32_le bs (entry_offset + 16);
       (case (name_rel, bitcode_rel, bitcode_size, metadata_rel, metadata_size) of
          (Some nr, Some br, Some bz, Some mr, Some mz) \<Rightarrow>
            (case parse_cstring bs (add_u32 (ci_string_table_offset info) nr) strings_end of
               None \<Rightarrow> Some None
             | Some name \<Rightarrow>
                 let bitcode_abs = ci_payload_offset info + br;
                     metadata_abs = ci_payload_offset info + mr
                 in if length bs < bitcode_abs + bz \<or> length bs < metadata_abs + mz then Some None
                    else do {
                      ok \<leftarrow> looks_like_bitcode_signature bs (of_nat bitcode_abs);
                      meta \<leftarrow> parse_metadata_blob bs metadata_abs mz;
                      Some (Some \<lparr>kr_name = name, kr_bitcode_offset = of_nat bitcode_abs,
                        kr_bitcode_size = of_nat bz, kr_signature_ok = ok, kr_metadata = meta\<rparr>)
                    })
        | _ \<Rightarrow> Some None)
     })"

primrec parse_function_table ::
  "bytes \<Rightarrow> CumetalContainerInfo \<Rightarrow> nat list \<Rightarrow> CumetalContainerInfo option" where
  "parse_function_table bs info [] = Some info"
| "parse_function_table bs info (i # rest) = do {
     entry \<leftarrow> parse_function_entry bs info i;
     (case entry of
        None \<Rightarrow> Some (clear_kernels info)
      | Some k \<Rightarrow> parse_function_table bs (info\<lparr>ci_kernels := ci_kernels info @ [k]\<rparr>) rest)
   }"

definition parse_cumetal_container :: "bytes \<Rightarrow> CumetalContainerInfo option" where
  "parse_cumetal_container bs =
     (if length bs < 40 then Some no_container
      else do {
        magic \<leftarrow> matches_sig_at bs 0 cumetal_magic;
        (if \<not> magic then Some no_container
         else do {
           v \<leftarrow> read_u32_le bs 4; ts \<leftarrow> read_u32_le bs 8; fo \<leftarrow> read_u32_le bs 12;
           fc \<leftarrow> read_u32_le bs 16; so \<leftarrow> read_u32_le bs 20; ss \<leftarrow> read_u32_le bs 24;
           po \<leftarrow> read_u32_le bs 28; ps \<leftarrow> read_u32_le bs 32; fl \<leftarrow> read_u32_le bs 36;
           (case (v, ts, fo, fc, so, ss, po, ps, fl) of
              (Some version, Some total_size, Some function_table_offset, Some function_count,
               Some string_table_offset, Some string_table_size, Some payload_offset,
               Some payload_size, Some flags) \<Rightarrow>
                if version < 2 \<or> length bs < total_size \<or>
                   length bs < function_table_offset + function_count * 32 \<or>
                   length bs < add_u32 string_table_offset string_table_size \<or>
                   length bs < add_u32 payload_offset payload_size
                then Some no_container
                else parse_function_table bs
                       \<lparr>ci_parsed = True, ci_version = version, ci_flags = flags,
                        ci_function_table_offset = function_table_offset,
                        ci_function_count = function_count,
                        ci_string_table_offset = string_table_offset,
                        ci_string_table_size = string_table_size,
                        ci_payload_offset = payload_offset, ci_payload_size = payload_size,
                        ci_kernels = []\<rparr> [0..<function_count]
            | _ \<Rightarrow> Some no_container)
         })
      })"

section \<open>Function lists of Apple's containers\<close>

record TagState =
  tg_name :: string
  tg_metadata :: "KernelMetadataField list"
  tg_bitcode_rel :: u64
  tg_bitcode_size :: u64
  tg_have_offt :: bool
  tg_have_mdsz :: bool

definition initial_tags :: "nat \<Rightarrow> TagState" where
  "initial_tags entry = \<lparr>tg_name = ''function_'' @ show_nat entry, tg_metadata = [],
     tg_bitcode_rel = 0, tg_bitcode_size = 0, tg_have_offt = False, tg_have_mdsz = False\<rparr>"

definition add_metadata :: "KernelMetadataField list \<Rightarrow> TagState \<Rightarrow> TagState" where
  "add_metadata fs st = st\<lparr>tg_metadata := tg_metadata st @ fs\<rparr>"

definition dotted :: "nat \<Rightarrow> nat \<Rightarrow> string" where
  "dotted a b = show_nat a @ ''.'' @ show_nat b"

text \<open>The effect of one tag whose data starts at \<open>data\<close>; \<open>ENDT\<close> is handled by the loop.\<close>

definition apply_tag :: "bytes \<Rightarrow> string \<Rightarrow> nat \<Rightarrow> nat \<Rightarrow> TagState \<Rightarrow> TagState option" where
  "apply_tag bs tag data tag_size st =
     (if tag = ''NAME'' then
        Some (case parse_cstring_from_blob bs data tag_size of
                None \<Rightarrow> st | Some name \<Rightarrow> st\<lparr>tg_name := name\<rparr>)
      else if tag = ''MDSZ'' then do {
        mdsz \<leftarrow> read_u64_le bs (of_nat data);
        Some (case mdsz of None \<Rightarrow> st
              | Some n \<Rightarrow> st\<lparr>tg_bitcode_size := of_nat n, tg_have_mdsz := True\<rparr>)
      }
      else if tag = ''OFFT'' then do {
        public_off \<leftarrow> read_u64_le bs (of_nat data);
        private_off \<leftarrow> read_u64_le bs (of_nat data + 8);
        bcode_off \<leftarrow> read_u64_le bs (of_nat data + 16);
        Some (case (public_off, private_off, bcode_off) of
                (Some p, Some q, Some b) \<Rightarrow>
                  add_metadata [field ''offt.public'' (show_nat p), field ''offt.private'' (show_nat q),
                                field ''offt.bitcode'' (show_nat b)]
                    (st\<lparr>tg_bitcode_rel := of_nat b, tg_have_offt := True\<rparr>)
              | _ \<Rightarrow> st)
      }
      else if tag = ''TYPE'' \<and> 1 \<le> tag_size then do {
        t \<leftarrow> read_le 1 bs data;
        Some (add_metadata (field ''function.type'' (show_nat t) #
                (if t = 2 then [field ''air.kernel'' ''true''] else [])) st)
      }
      else if tag = ''VERS'' \<and> 8 \<le> tag_size then do {
        air_major \<leftarrow> read_u16_le bs (of_nat data);
        air_minor \<leftarrow> read_u16_le bs (of_nat data + 2);
        lang_major \<leftarrow> read_u16_le bs (of_nat data + 4);
        lang_minor \<leftarrow> read_u16_le bs (of_nat data + 6);
        Some (case (air_major, air_minor, lang_major, lang_minor) of
                (Some a, Some b, Some c, Some d) \<Rightarrow>
                  add_metadata [field ''air.version'' (dotted a b), field ''language.version'' (dotted c d)] st
              | _ \<Rightarrow> st)
      }
      else if tag = ''HASH'' \<and> 0 < tag_size then do {
        hex \<leftarrow> to_hex_prefix bs data tag_size 8;
        Some (add_metadata [field ''function.hash.prefix'' hex] st)
      }
      else Some st)"

text \<open>The loop over the tags of a group; \<open>Some None\<close> is \<open>parse_failed\<close>.\<close>

function parse_tags :: "bytes \<Rightarrow> nat \<Rightarrow> nat \<Rightarrow> TagState \<Rightarrow> TagState option option" where
  "parse_tags bs group_end cursor st =
     (if \<not> cursor + 6 \<le> group_end then Some (Some st)
      else do {
        tag \<leftarrow> slice bs cursor 4;
        tag_size \<leftarrow> read_u16_le bs (of_nat (cursor + 4));
        (case tag_size of
           None \<Rightarrow> Some None
         | Some n \<Rightarrow>
             if group_end < cursor + 6 + n then Some None
             else if string_of_bytes tag = ''ENDT'' then Some (Some st)
             else do {
               st' \<leftarrow> apply_tag bs (string_of_bytes tag) (cursor + 6) n st;
               parse_tags bs group_end (cursor + 6 + n) st'
             })
      })"
  by pat_completeness auto
termination
  by (relation "measure (\<lambda>(bs, group_end, cursor, st). group_end - cursor)") auto

declare parse_tags.simps [simp del]

definition finish_kernel :: "bytes \<Rightarrow> u64 \<Rightarrow> TagState \<Rightarrow> KernelRecord option" where
  "finish_kernel bs section_offset st =
     (let k = \<lparr>kr_name = tg_name st, kr_bitcode_offset = 0, kr_bitcode_size = 0,
               kr_signature_ok = False, kr_metadata = tg_metadata st\<rparr>
      in if tg_have_offt st \<and> tg_have_mdsz st then
           let offset = section_offset + tg_bitcode_rel st;
               k' = k\<lparr>kr_bitcode_offset := offset, kr_bitcode_size := tg_bitcode_size st\<rparr>
           in if offset + tg_bitcode_size st \<le> file_size bs
              then map_option (\<lambda>ok. k'\<lparr>kr_signature_ok := ok\<rparr>) (looks_like_bitcode_signature bs offset)
              else Some k'
         else Some k)"

text \<open>The loop over the entries; the first list holds the numbers of the entries still to come.\<close>

primrec parse_groups ::
  "bytes \<Rightarrow> u64 \<Rightarrow> nat \<Rightarrow> nat list \<Rightarrow> nat \<Rightarrow> KernelRecord list \<Rightarrow> KernelRecord list option option" where
  "parse_groups bs section_offset list_end [] cursor kernels = Some (Some kernels)"
| "parse_groups bs section_offset list_end (entry # rest) cursor kernels =
     (if list_end < cursor + 4 then Some None
      else do {
        group_size \<leftarrow> read_u32_le bs (of_nat cursor);
        (case group_size of
           None \<Rightarrow> Some None
         | Some n \<Rightarrow>
             if n < 4 \<or> list_end < cursor + n then Some None
             else do {
               st \<leftarrow> parse_tags bs (cursor + n) (cursor + 4)
                 (initial_tags entry);
               (case st of
                  None \<Rightarrow> Some None
                | Some t \<Rightarrow> do {
                    k \<leftarrow> finish_kernel bs section_offset t;
                    parse_groups bs section_offset list_end rest (cursor + n) (kernels @ [k])
                  })
             })
      })"

text \<open>
  The loop over the candidates for the end of the list.  The entry count is read at an offset
  that comes from the file; a read that stays inside puts the cursor inside too.
\<close>

primrec try_list_ends ::
  "bytes \<Rightarrow> u64 \<Rightarrow> u64 \<Rightarrow> nat list \<Rightarrow> KernelRecord list option option" where
  "try_list_ends bs section_offset list_offset [] = Some None"
| "try_list_ends bs section_offset list_offset (list_end # rest) = do {
     entry_count \<leftarrow> read_u32_le bs list_offset;
     (case entry_count of
        None \<Rightarrow> try_list_ends bs section_offset list_offset rest
      | Some n \<Rightarrow> do {
          kernels \<leftarrow> parse_groups bs section_offset list_end [0..<n] (unat list_offset + 4) [];
          (case kernels of
             None \<Rightarrow> try_list_ends bs section_offset list_offset rest
           | Some ks \<Rightarrow> Some (Some ks))
        })
   }"

definition list_end_candidates :: "bytes \<Rightarrow> u64 \<Rightarrow> u64 \<Rightarrow> nat list" where
  "list_end_candidates bs list_offset list_size =
     (let base = list_offset + list_size; with_count = base + 4
      in (if base \<le> file_size bs then [unat base] else []) @
         (if with_count \<le> file_size bs \<and> with_count \<noteq> base then [unat with_count] else []))"

definition parse_real_metallib :: "bytes \<Rightarrow> KernelRecord list option option" where
  "parse_real_metallib bs =
     (if length bs < 88 then Some None
      else do {
        magic \<leftarrow> matches_sig_at bs 0 cumetal_magic;
        (if \<not> magic then Some None
         else do {
           lo \<leftarrow> read_u64_le bs 24; ls \<leftarrow> read_u64_le bs 32;
           so \<leftarrow> read_u64_le bs 72; ss \<leftarrow> read_u64_le bs 80;
           (case (lo, ls, so, ss) of
              (Some list_offset, Some list_size, Some section_offset, Some section_size) \<Rightarrow>
                if file_size bs < of_nat section_offset + of_nat section_size then Some None
                else try_list_ends bs (of_nat section_offset) (of_nat list_offset)
                       (list_end_candidates bs (of_nat list_offset) (of_nat list_size))
            | _ \<Rightarrow> Some None)
         })
      })"

section \<open>Bitcode sections\<close>

definition kernel_section :: "bytes \<Rightarrow> KernelRecord \<Rightarrow> BitcodeSection" where
  "kernel_section bs k = \<lparr>bs_kind = ''kernel-bitcode'', bs_offset = kr_bitcode_offset k,
     bs_size = kr_bitcode_size k,
     bs_reliable_size = (kr_bitcode_offset k + kr_bitcode_size k \<le> file_size bs),
     bs_wrapper_version = 0, bs_wrapper_offset = 0, bs_wrapper_size = 0, bs_wrapper_cpu_type = 0\<rparr>"

definition plain_section :: "string \<Rightarrow> nat \<Rightarrow> nat \<Rightarrow> bool \<Rightarrow> BitcodeSection" where
  "plain_section kind offset sz reliable = \<lparr>bs_kind = kind, bs_offset = of_nat offset,
     bs_size = of_nat sz, bs_reliable_size = reliable, bs_wrapper_version = 0,
     bs_wrapper_offset = 0, bs_wrapper_size = 0, bs_wrapper_cpu_type = 0\<rparr>"

definition wrapper_section :: "bytes \<Rightarrow> nat \<Rightarrow> BitcodeSection option" where
  "wrapper_section bs i = do {
     v \<leftarrow> read_u32_le bs (of_nat i + 4); io \<leftarrow> read_u32_le bs (of_nat i + 8);
     is \<leftarrow> read_u32_le bs (of_nat i + 12); ct \<leftarrow> read_u32_le bs (of_nat i + 16);
     Some (case (v, io, is, ct) of
       (Some version, Some inner_offset, Some inner_size, Some cpu_type) \<Rightarrow>
         \<lparr>bs_kind = ''llvm-bitcode-wrapper'', bs_offset = of_nat i,
          bs_size = of_nat (inner_offset + inner_size),
          bs_reliable_size = (i + (inner_offset + inner_size) \<le> length bs),
          bs_wrapper_version = of_nat version, bs_wrapper_offset = of_nat inner_offset,
          bs_wrapper_size = of_nat inner_size, bs_wrapper_cpu_type = of_nat cpu_type\<rparr>
     | _ \<Rightarrow> plain_section ''llvm-bitcode-wrapper'' i 4 False)
   }"

text \<open>Both signatures at a position that has four bytes left.\<close>

definition starts_sig :: "bytes \<Rightarrow> nat \<Rightarrow> bytes \<Rightarrow> bool" where
  "starts_sig bs i sig = (take 4 (drop i bs) = sig)"

definition sig_positions :: "bytes \<Rightarrow> nat list" where
  "sig_positions bs = filter (\<lambda>i. i + 4 \<le> length bs) [0..<length bs]"

definition all_sigs :: "bytes \<Rightarrow> nat list" where
  "all_sigs bs = filter (\<lambda>i. starts_sig bs i wrapped_bitcode_sig \<or> starts_sig bs i raw_bitcode_sig)
     (sig_positions bs)"

primrec wrapper_sections :: "bytes \<Rightarrow> nat list \<Rightarrow> BitcodeSection list option" where
  "wrapper_sections bs [] = Some []"
| "wrapper_sections bs (i # is) =
     (if starts_sig bs i wrapped_bitcode_sig
      then do { s \<leftarrow> wrapper_section bs i; ss \<leftarrow> wrapper_sections bs is; Some (s # ss) }
      else wrapper_sections bs is)"

definition raw_section :: "bytes \<Rightarrow> nat \<Rightarrow> BitcodeSection" where
  "raw_section bs i =
     (let next = (case filter (\<lambda>s. i < s) (all_sigs bs) of [] \<Rightarrow> length bs | s # _ \<Rightarrow> s)
      in plain_section ''llvm-bitcode-raw'' i (next - i) (i < next))"

definition scan_bitcode_sections :: "bytes \<Rightarrow> KernelRecord list \<Rightarrow> BitcodeSection list option" where
  "scan_bitcode_sections bs kernels =
     (if kernels \<noteq> []
      then Some (map (kernel_section bs) (filter (\<lambda>k. kr_bitcode_size k \<noteq> 0) kernels))
      else do {
        wrapped \<leftarrow> wrapper_sections bs (sig_positions bs);
        Some (wrapped @ map (raw_section bs)
                (filter (\<lambda>i. starts_sig bs i raw_bitcode_sig) (sig_positions bs)))
      })"

section \<open>Strings and argument counts\<close>

text \<open>
  The characters the inner loop collects from position \<open>i\<close>: it stops at a NUL, at the end,
  after 97 characters, or with nothing at a character that is not allowed.
\<close>

fun collect_string :: "nat \<Rightarrow> bytes \<Rightarrow> bytes \<times> bool" where
  "collect_string n [] = ([], True)"
| "collect_string n (b # bs) =
     (if b = 0 \<or> n = 0 then ([], True)
      else if \<not> is_visible_ascii b \<or> \<not> is_valid_symbol_char b then ([], False)
      else case collect_string (n - 1) bs of (value, ok) \<Rightarrow> (b # value, ok))"

function scan_strings :: "bytes \<Rightarrow> nat \<Rightarrow> nat \<Rightarrow> StringCandidate list \<Rightarrow> StringCandidate list" where
  "scan_strings bs max_strings i acc =
     (if length bs \<le> i \<or> max_strings \<le> length acc then acc
      else if 0 < i \<and> bs ! (i - 1) \<noteq> 0 \<or> \<not> is_visible_ascii (bs ! i)
      then scan_strings bs max_strings (Suc i) acc
      else case collect_string 97 (drop i bs) of (s, ok) \<Rightarrow>
        let j = i + length s in
        if \<not> ok \<or> length s < 4 \<or> 96 < length s \<or> \<not> list_ex is_alpha_byte s \<or>
           length bs \<le> j \<or> bs ! j \<noteq> 0
        then scan_strings bs max_strings (Suc i) acc
        else scan_strings bs max_strings (Suc j)
               (acc @ [\<lparr>sc_offset = i, sc_value = string_of_bytes s\<rparr>]))"
  by pat_completeness auto
termination
  by (relation "measure (\<lambda>(bs, m, i, acc). length bs - i)")
     (simp_all only: wf_measure in_measure case_prod_conv, linarith+)

declare scan_strings.simps [simp del]

definition scan_string_candidates :: "bytes \<Rightarrow> nat \<Rightarrow> StringCandidate list" where
  "scan_string_candidates bs max_strings =
     (if max_strings = 0 then [] else scan_strings bs max_strings 0 [])"

text \<open>The decimal digits after a prefix; the index is a 64-bit product and sum.\<close>

definition digits_value :: "bytes \<Rightarrow> u64" where
  "digits_value ds = foldl (\<lambda>index d. index * 10 + of_nat (unat d - 48)) 0 ds"

definition seen_index :: "bytes \<Rightarrow> bytes \<Rightarrow> nat \<Rightarrow> nat option" where
  "seen_index bs pre i =
     (if \<not> i + length pre < length bs \<or> take (length pre) (drop i bs) \<noteq> pre then None
      else let tail = drop (i + length pre) bs;
               ds = takeWhile is_digit_byte tail;
               after = drop (length ds) tail
      in if ds \<noteq> [] \<and> digits_value ds < 32 \<and> after \<noteq> [] \<and> (hd after = 0 \<or> hd after = 95)
         then Some (unat (digits_value ds)) else None)"

definition seen_indices :: "bytes \<Rightarrow> bytes \<Rightarrow> nat set" where
  "seen_indices bs pre = set (List.map_filter (seen_index bs pre) [0..<length bs])"

definition argument_count :: "nat set \<Rightarrow> nat option" where
  "argument_count seen =
     (if 0 \<notin> seen then None
      else let count = length (takeWhile (\<lambda>i. i \<in> seen) [0..<32])
      in if list_ex (\<lambda>i. i \<in> seen) [count..<32] then None else Some count)"

definition infer_air_reflection_argument_counts :: "bytes \<Rightarrow> KernelRecord list \<Rightarrow> KernelRecord list" where
  "infer_air_reflection_argument_counts bs kernels = map (\<lambda>k.
     if kr_name k = [] then k
     else case argument_count (seen_indices bs (bytes_of_string (kr_name k @ ''_param_''))) of
            None \<Rightarrow> k
          | Some n \<Rightarrow> k\<lparr>kr_metadata := kr_metadata k @ [field ''kernel.arg_count'' (show_nat n)]\<rparr>) kernels"

section \<open>The inspection\<close>

definition inspect_metallib_bytes :: "string \<Rightarrow> bytes \<Rightarrow> nat \<Rightarrow> MetallibSummary option" where
  "inspect_metallib_bytes path bs max_strings = do {
     w1 \<leftarrow> read_u32_le bs 4;
     w2 \<leftarrow> read_u32_le bs 8;
     container \<leftarrow> parse_cumetal_container bs;
     real \<leftarrow> (if ci_parsed container then Some None else parse_real_metallib bs);
     (let magic = take 4 (bs @ [0, 0, 0, 0]);
          kernels = (if ci_parsed container then ci_kernels container
                     else infer_air_reflection_argument_counts bs (case real of None \<Rightarrow> [] | Some ks \<Rightarrow> ks))
      in do {
        sections \<leftarrow> scan_bitcode_sections bs kernels;
        Some \<lparr>ms_path = path, ms_file_size = file_size bs, ms_magic = magic,
          ms_magic_ascii = sanitize_magic magic,
          ms_word1 = (case w1 of None \<Rightarrow> 0 | Some w \<Rightarrow> w), ms_word2 = (case w2 of None \<Rightarrow> 0 | Some w \<Rightarrow> w),
          ms_bitcode_sections = sort_key (\<lambda>s. (unat (bs_offset s), bs_kind s)) sections,
          ms_strings = scan_string_candidates bs max_strings,
          ms_function_list_parsed = (ci_parsed container \<or> real \<noteq> None),
          ms_function_list_parser = (if ci_parsed container then ''cumetal-experimental''
                                     else if real \<noteq> None then ''metallib-function-list'' else []),
          ms_kernels = kernels, ms_cumetal = container\<rparr>
      })
   }"

definition looks_like_metallib :: "MetallibSummary \<Rightarrow> bool" where
  "looks_like_metallib summary =
     (16 \<le> ms_file_size summary \<and> starts_with (ms_magic_ascii summary) ''MTL'')"

section \<open>Which reads can leave the file\<close>

definition small_file :: "bytes \<Rightarrow> bool" where
  "small_file bs \<longleftrightarrow> length bs < 9223372036854775808"

text \<open>The sum of the offset and the width of the field wraps.\<close>

definition wraps :: "nat \<Rightarrow> u64 \<Rightarrow> bool" where
  "wraps n offset \<longleftrightarrow> 18446744073709551616 \<le> unat offset + n"

lemma unat_file_size: "small_file bs \<Longrightarrow> unat (file_size bs) = length bs"
  by (simp add: file_size_def small_file_def unat_of_nat)

lemma unat_add_width:
  "\<not> wraps n offset \<Longrightarrow> n \<le> 8 \<Longrightarrow> unat (offset + of_nat n) = unat offset + n"
  by (subst unat_add_u64_exact) (simp_all add: wraps_def unat_of_nat)

lemma read_field_exact:
  assumes "small_file bs" "\<not> wraps n offset" "n \<le> 8"
  shows "read_field n bs offset = Some (read_le n bs (unat offset))"
proof (cases "length bs < unat offset + n")
  case True
  then have "read_le n bs (unat offset) = None" by (simp add: read_le_eq_None)
  with True show ?thesis
    by (simp add: read_field_def u64_less unat_file_size [OF assms(1)] unat_add_width [OF assms(2,3)])
next
  case False
  then obtain v where "read_le n bs (unat offset) = Some v" by (simp add: read_le_in_range)
  with False show ?thesis
    by (simp add: read_field_def u64_less unat_file_size [OF assms(1)] unat_add_width [OF assms(2,3)])
qed

lemma not_wraps_position: "p \<le> 9223372036854775900 \<Longrightarrow> n \<le> 8 \<Longrightarrow> \<not> wraps n (of_nat p)"
  by (simp add: wraps_def unat_of_nat)

lemma read_position:
  assumes "small_file bs" "p \<le> 9223372036854775900"
  shows "read_u16_le bs (of_nat p) = Some (read_le 2 bs p)"
    "read_u32_le bs (of_nat p) = Some (read_le 4 bs p)"
    "read_u64_le bs (of_nat p) = Some (read_le 8 bs p)"
  using read_field_exact [OF assms(1) not_wraps_position [OF assms(2)]] assms(2)
  by (simp_all add: read_u16_le_def read_u32_le_def read_u64_le_def unat_of_nat)

lemma matches_sig_safe:
  assumes "small_file bs" "\<not> wraps 4 offset" "length sig = 4"
  shows "\<exists>b. matches_sig_at bs offset sig = Some b"
proof (cases "unat offset + 4 \<le> length bs")
  case True
  then show ?thesis using assms unat_add_width [OF assms(2)]
    by (simp add: matches_sig_at_def u64_le unat_file_size slice_def)
next
  case False
  then show ?thesis using assms unat_add_width [OF assms(2)]
    by (auto simp: matches_sig_at_def u64_le unat_file_size)
qed

lemma signature_safe:
  assumes "small_file bs" "\<not> wraps 4 offset"
  shows "\<exists>b. looks_like_bitcode_signature bs offset = Some b"
proof -
  have "length raw_bitcode_sig = 4" "length wrapped_bitcode_sig = 4"
    by (simp_all add: raw_bitcode_sig_def wrapped_bitcode_sig_def)
  then obtain a b where "matches_sig_at bs offset raw_bitcode_sig = Some a"
      "matches_sig_at bs offset wrapped_bitcode_sig = Some b"
    using matches_sig_safe [OF assms] by blast
  then show ?thesis by (cases a) (auto simp: looks_like_bitcode_signature_def)
qed

text \<open>A bitcode offset that comes from the file: the eight bytes of some \<open>OFFT\<close> tag.\<close>

definition rel_ok :: "bytes \<Rightarrow> TagState \<Rightarrow> bool" where
  "rel_ok bs st \<longleftrightarrow> (tg_have_offt st \<longrightarrow>
     (\<exists>i v. read_le 8 bs i = Some v \<and> tg_bitcode_rel st = of_nat v))"

lemma rel_ok_update [simp]:
  "rel_ok bs (st\<lparr>tg_name := n\<rparr>) = rel_ok bs st"
  "rel_ok bs (st\<lparr>tg_bitcode_size := z, tg_have_mdsz := m\<rparr>) = rel_ok bs st"
  "rel_ok bs (add_metadata fs st) = rel_ok bs st"
  by (simp_all add: rel_ok_def add_metadata_def)

lemma apply_tag_safe:
  assumes "small_file bs" "data + tag_size \<le> length bs" "rel_ok bs st"
  shows "\<exists>st'. apply_tag bs tag data tag_size st = Some st' \<and> rel_ok bs st'"
proof -
  have p: "data + k \<le> 9223372036854775900" if "k \<le> 24" for k
    using assms(1,2) that by (simp add: small_file_def)
  have w: "(of_nat data :: u64) + 8 = of_nat (data + 8)" "(of_nat data :: u64) + 16 = of_nat (data + 16)"
    "(of_nat data :: u64) + 2 = of_nat (data + 2)" "(of_nat data :: u64) + 4 = of_nat (data + 4)"
    "(of_nat data :: u64) + 6 = of_nat (data + 6)" by (simp_all only: of_nat_add of_nat_numeral)
  have "data \<le> 9223372036854775900" using p [of 0] by (simp only: add_0_right le0)
  note r = read_position [OF assms(1) this] read_position [OF assms(1) p [of 8]]
    read_position [OF assms(1) p [of 16]] read_position [OF assms(1) p [of 2]]
    read_position [OF assms(1) p [of 4]] read_position [OF assms(1) p [of 6]]
  have t: "1 \<le> tag_size \<Longrightarrow> \<exists>v. read_le 1 bs data = Some v"
    using assms(2) by (simp add: read_le_in_range)
  have h: "\<exists>s. to_hex_prefix bs data tag_size 8 = Some s"
    using assms(2) by (simp add: to_hex_prefix_def slice_def)
  consider "tag = ''NAME''" | "tag = ''MDSZ''" | "tag = ''OFFT''" | "tag = ''TYPE''" | "tag = ''VERS''"
    | "tag = ''HASH''" | "tag \<noteq> ''NAME'' \<and> tag \<noteq> ''MDSZ'' \<and> tag \<noteq> ''OFFT'' \<and> tag \<noteq> ''TYPE'' \<and> tag \<noteq> ''VERS'' \<and> tag \<noteq> ''HASH''"
    by argo
  then show ?thesis
  proof cases
    case 1
    then show ?thesis using assms(3) by (simp add: apply_tag_def split: option.split)
  next
    case 2
    then show ?thesis using assms(3) by (simp add: apply_tag_def r split: option.split)
  next
    case 3
    have "rel_ok bs (st\<lparr>tg_bitcode_rel := of_nat v, tg_have_offt := True\<rparr>)"
      if "read_le 8 bs (data + 16) = Some v" for v
      using that by (auto simp: rel_ok_def)
    with 3 show ?thesis using assms(3)
      by (cases "read_le 8 bs data"; cases "read_le 8 bs (data + 8)"; cases "read_le 8 bs (data + 16)")
         (simp_all add: apply_tag_def w r del: of_nat_add)
  next
    case 4
    then show ?thesis using assms(3) t by (auto simp: apply_tag_def)
  next
    case 5
    have "\<exists>x. read_u16_le bs (of_nat data) = Some x" using r(1) by blast
    moreover have "\<exists>x. read_u16_le bs (of_nat data + 2) = Some x" unfolding w by (rule exI, rule r, simp)
    moreover have "\<exists>x. read_u16_le bs (of_nat data + 4) = Some x" unfolding w by (rule exI, rule r, simp)
    moreover have "\<exists>x. read_u16_le bs (of_nat data + 6) = Some x" unfolding w by (rule exI, rule r, simp)
    ultimately show ?thesis using assms(3) 5
      by (auto simp: apply_tag_def split: option.split)
  next
    case 6
    then show ?thesis using assms(3) h by (auto simp: apply_tag_def)
  next
    case 7
    then show ?thesis using assms(3) by (simp add: apply_tag_def)
  qed
qed

lemma parse_tags_safe:
  assumes "small_file bs" "group_end \<le> length bs"
  shows "rel_ok bs st \<Longrightarrow> \<exists>r. parse_tags bs group_end cursor st = Some r \<and>
    (\<forall>st'. r = Some st' \<longrightarrow> rel_ok bs st')"
proof (induction "group_end - cursor" arbitrary: cursor st rule: less_induct)
  case less
  show ?case
  proof (cases "cursor + 6 \<le> group_end")
    case False
    then show ?thesis using less.prems by (subst parse_tags.simps) simp
  next
    case True
    then have c: "cursor + 6 \<le> length bs" using assms(2) by linarith
    obtain tag where tag: "slice bs cursor 4 = Some tag" using c by (simp add: slice_def)
    obtain n where n: "read_le 2 bs (cursor + 4) = Some n"
      using c by (simp add: read_le_in_range)
    have "cursor + 4 \<le> 9223372036854775900" using c assms(1) by (simp add: small_file_def)
    from read_position(1) [OF assms(1) this] n
    have r: "read_u16_le bs (of_nat (cursor + 4)) = Some (Some n)" by simp
    show ?thesis
    proof (cases "group_end < cursor + 6 + n \<or> string_of_bytes tag = ''ENDT''")
      case True
      then show ?thesis
        using \<open>cursor + 6 \<le> group_end\<close> less.prems
        by (subst parse_tags.simps) (auto simp: tag r simp del: slice_eq_Some of_nat_add)
    next
      case False
      obtain st' where st': "apply_tag bs (string_of_bytes tag) (cursor + 6) n st = Some st'" "rel_ok bs st'"
        using apply_tag_safe [OF assms(1) _ less.prems, of "cursor + 6" n] False assms(2) by auto
      have "group_end - (cursor + 6 + n) < group_end - cursor" using True by linarith
      from less.hyps [OF this st'(2)] show ?thesis
        using True False
        by (subst parse_tags.simps) (simp add: tag r st'(1) del: slice_eq_Some of_nat_add)
    qed
  qed
qed

text \<open>An offset in the last four bytes of the address space, formed from two file fields.\<close>

definition bad_bitcode_offset :: "bytes \<Rightarrow> u64 \<Rightarrow> bool" where
  "bad_bitcode_offset bs section_offset \<longleftrightarrow>
     (\<exists>i v. read_le 8 bs i = Some v \<and> wraps 4 (section_offset + of_nat v))"

lemma finish_kernel_safe:
  assumes "small_file bs" "rel_ok bs st" "\<not> bad_bitcode_offset bs section_offset"
  shows "\<exists>k. finish_kernel bs section_offset st = Some k"
proof (cases "tg_have_offt st")
  case True
  then have "\<not> wraps 4 (section_offset + tg_bitcode_rel st)"
    using assms(2,3) by (auto simp: rel_ok_def bad_bitcode_offset_def)
  from signature_safe [OF assms(1) this] show ?thesis by (auto simp: finish_kernel_def Let_def)
next
  case False
  then show ?thesis by (simp add: finish_kernel_def Let_def)
qed

lemma parse_groups_safe:
  assumes "small_file bs" "list_end \<le> length bs" "\<not> bad_bitcode_offset bs section_offset"
  shows "\<exists>r. parse_groups bs section_offset list_end entries cursor kernels = Some r"
proof (induction entries arbitrary: cursor kernels)
  case Nil
  then show ?case by simp
next
  case (Cons entry rest)
  show ?case
  proof (cases "list_end < cursor + 4")
    case True
    then show ?thesis by simp
  next
    case False
    then obtain n where n: "read_le 4 bs cursor = Some n" using assms(2) by (simp add: read_le_in_range)
    have "cursor \<le> 9223372036854775900" using False assms(1,2) by (simp add: small_file_def)
    from read_position(2) [OF assms(1) this] n
    have r: "read_u32_le bs (of_nat cursor) = Some (Some n)" by simp
    show ?thesis
    proof (cases "n < 4 \<or> list_end < cursor + n")
      case True
      then show ?thesis using False by (auto simp: r)
    next
      case fits: False
      let ?st = "initial_tags entry"
      have "rel_ok bs ?st" by (simp add: rel_ok_def initial_tags_def)
      moreover have "cursor + n \<le> length bs" using fits assms(2) by linarith
      ultimately obtain t where t: "parse_tags bs (cursor + n) (cursor + 4) ?st = Some t"
          "\<And>st'. t = Some st' \<Longrightarrow> rel_ok bs st'"
        using parse_tags_safe [OF assms(1)] by blast
      show ?thesis
      proof (cases t)
        case None
        then show ?thesis using False fits by (simp add: r t(1))
      next
        case (Some st')
        then obtain k where "finish_kernel bs section_offset st' = Some k"
          using finish_kernel_safe [OF assms(1) t(2) assms(3)] by blast
        then show ?thesis using False fits Cons.IH by (simp add: r t(1) Some)
      qed
    qed
  qed
qed

lemma try_list_ends_safe:
  assumes "small_file bs" "\<forall>e \<in> set ends. e \<le> length bs" "\<not> wraps 4 list_offset"
    and "\<not> bad_bitcode_offset bs section_offset"
  shows "\<exists>r. try_list_ends bs section_offset list_offset ends = Some r"
  using assms(2)
proof (induction ends)
  case Nil
  then show ?case by simp
next
  case (Cons e ends)
  have r: "read_u32_le bs list_offset = Some (read_le 4 bs (unat list_offset))"
    using read_field_exact [OF assms(1,3)] by (simp add: read_u32_le_def)
  show ?case
  proof (cases "read_le 4 bs (unat list_offset)")
    case None
    then show ?thesis using Cons by (simp add: r)
  next
    case (Some n)
    obtain ks where "parse_groups bs section_offset e [0..<n] (unat list_offset + 4) [] = Some ks"
      using parse_groups_safe [OF assms(1) _ assms(4)] Cons.prems by fastforce
    then show ?thesis using Cons Some by (auto simp: r split: option.split)
  qed
qed

lemma list_ends_in_file: "small_file bs \<Longrightarrow> \<forall>e \<in> set (list_end_candidates bs lo ls). e \<le> length bs"
  by (auto simp: list_end_candidates_def Let_def u64_le unat_file_size split: if_splits)

lemma parse_real_metallib_blame:
  assumes "length bs < 9223372036854775808" "parse_real_metallib bs = None"
  shows "18446744073709551612 \<le> le_value (take 8 (drop 24 bs)) \<or>
    (\<exists>i v. read_le 8 bs i = Some v \<and>
       18446744073709551612 \<le> unat (of_nat (le_value (take 8 (drop 72 bs))) + of_nat v :: u64))"
proof (rule ccontr)
  assume no: "\<not> ?thesis"
  have sm: "small_file bs" using assms(1) by (simp add: small_file_def)
  have len: "88 \<le> length bs" using assms(2) by (auto simp: parse_real_metallib_def split: if_splits)
  let ?f = "\<lambda>k. le_value (take 8 (drop k bs))"
  have f: "read_u64_le bs 24 = Some (Some (?f 24))" "read_u64_le bs 32 = Some (Some (?f 32))"
    "read_u64_le bs 72 = Some (Some (?f 72))" "read_u64_le bs 80 = Some (Some (?f 80))"
    using read_position(3) [OF sm, of 24] read_position(3) [OF sm, of 32]
      read_position(3) [OF sm, of 72] read_position(3) [OF sm, of 80] len
    by (simp_all add: read_le_in_range)
  have "?f 24 < 18446744073709551616" using le_value_bound [of "take 8 (drop 24 bs)"] len by simp
  then have "\<not> wraps 4 (of_nat (?f 24))" using no by (simp add: wraps_def unat_of_nat)
  moreover have "\<not> bad_bitcode_offset bs (of_nat (?f 72))"
    using no by (auto simp: bad_bitcode_offset_def wraps_def)
  ultimately obtain r where r: "try_list_ends bs (of_nat (?f 72)) (of_nat (?f 24))
      (list_end_candidates bs (of_nat (?f 24)) (of_nat (?f 32))) = Some r"
    using try_list_ends_safe [OF sm list_ends_in_file [OF sm]] by blast
  obtain b where "matches_sig_at bs 0 cumetal_magic = Some b"
    using matches_sig_safe [OF sm, of 0 cumetal_magic] by (auto simp: wraps_def cumetal_magic_def)
  with assms(2) len show False
    by (auto simp: parse_real_metallib_def f r split: if_splits)
qed

text \<open>A header whose list offset is four below the end of the address space.\<close>

definition wrapped_list_header :: bytes where
  "wrapped_list_header = [0x4D, 0x54, 0x4C, 0x42] @ replicate 20 0 @
     [0xFC, 0xFF, 0xFF, 0xFF, 0xFF, 0xFF, 0xFF, 0xFF, 4, 0, 0, 0, 0, 0, 0, 0] @ replicate 48 0"

lemma wrapped_list_header_size: "length wrapped_list_header = 88" "small_file wrapped_list_header"
  by (simp_all add: wrapped_list_header_def small_file_def)

lemma wrapped_list_header_fields:
  "take 8 (drop 24 wrapped_list_header) = [0xFC, 0xFF, 0xFF, 0xFF, 0xFF, 0xFF, 0xFF, 0xFF]"
  "take 8 (drop 32 wrapped_list_header) = [4, 0, 0, 0, 0, 0, 0, 0]"
  "take 8 (drop 72 wrapped_list_header) = [0, 0, 0, 0, 0, 0, 0, 0]"
  "take 8 (drop 80 wrapped_list_header) = [0, 0, 0, 0, 0, 0, 0, 0]"
  by (simp_all add: wrapped_list_header_def numeral_eq_Suc)

lemma wrapped_list_header_reads:
  "read_u64_le wrapped_list_header 24 = Some (Some 18446744073709551612)"
  "read_u64_le wrapped_list_header 32 = Some (Some 4)"
  "read_u64_le wrapped_list_header 72 = Some (Some 0)"
  "read_u64_le wrapped_list_header 80 = Some (Some 0)"
  using read_position(3) [OF wrapped_list_header_size(2), of 24]
    read_position(3) [OF wrapped_list_header_size(2), of 32]
    read_position(3) [OF wrapped_list_header_size(2), of 72]
    read_position(3) [OF wrapped_list_header_size(2), of 80]
  by (simp_all add: read_le_def slice_def wrapped_list_header_size wrapped_list_header_fields)

lemma wrapped_list_header_magic: "matches_sig_at wrapped_list_header 0 cumetal_magic = Some True"
proof -
  have "bytes_of_string ''MTLB'' = take 4 wrapped_list_header"
    by (simp add: wrapped_list_header_def bytes_of_string_def byte_char_def)
  then show ?thesis
    by (simp add: matches_sig_at_def cumetal_magic_def file_size_def wrapped_list_header_size slice_def)
qed

theorem function_list_read_escapes: "parse_real_metallib wrapped_list_header = None"
proof -
  have "list_end_candidates wrapped_list_header 18446744073709551612 4 = [0, 4]"
    by (simp add: list_end_candidates_def file_size_def wrapped_list_header_size)
  moreover have "read_u32_le wrapped_list_header 18446744073709551612 = None"
    by (simp add: read_u32_le_def read_field_def file_size_def read_le_eq_None wrapped_list_header_size)
  ultimately show ?thesis
    by (simp add: parse_real_metallib_def wrapped_list_header_reads wrapped_list_header_magic
        wrapped_list_header_size file_size_def)
qed

section \<open>Containers are read inside the file\<close>

definition kernel_in_file :: "bytes \<Rightarrow> KernelRecord \<Rightarrow> bool" where
  "kernel_in_file bs k \<longleftrightarrow> unat (kr_bitcode_offset k) + unat (kr_bitcode_size k) \<le> length bs \<and>
     kr_name k \<noteq> [] \<and>
     looks_like_bitcode_signature bs (kr_bitcode_offset k) = Some (kr_signature_ok k)"

definition table_in_file :: "bytes \<Rightarrow> CumetalContainerInfo \<Rightarrow> nat \<Rightarrow> bool" where
  "table_in_file bs info n \<longleftrightarrow> ci_function_table_offset info + n * 32 \<le> length bs \<and>
     ci_payload_offset info < 4294967296"

lemma parse_metadata_blob_safe: "\<exists>r. parse_metadata_blob bs offset sz = Some r"
  by (simp add: parse_metadata_blob_def slice_def)

lemma parse_cstring_nonempty: "parse_cstring bs offset fin = Some name \<Longrightarrow> name \<noteq> []"
  by (auto simp: parse_cstring_def Let_def string_of_bytes_def split: if_splits)

lemma read_u32_bound: "small_file bs \<Longrightarrow> p \<le> 9223372036854775900 \<Longrightarrow>
  \<exists>r. read_u32_le bs (of_nat p) = Some r \<and> (\<forall>v. r = Some v \<longrightarrow> v < 4294967296)"
  by (auto simp: read_position dest: read_le_bound)

lemma parse_function_entry_safe:
  assumes sm: "small_file bs" and tab: "table_in_file bs info n" and i: "i < n"
  shows "\<exists>r. parse_function_entry bs info i = Some r \<and> (\<forall>k. r = Some k \<longrightarrow> kernel_in_file bs k)"
proof -
  let ?p = "ci_function_table_offset info + i * 32"
  have "(i + 1) * 32 \<le> n * 32" using i by (intro mult_le_mono1) simp
  then have p: "?p + d \<le> 9223372036854775900" if "d \<le> 32" for d
    using tab sm that by (simp add: table_in_file_def small_file_def)
  have e: "of_nat (ci_function_table_offset info) + of_nat i * (32 :: u64) = of_nat ?p"
    "of_nat ?p + (4 :: u64) = of_nat (?p + 4)" "of_nat ?p + (8 :: u64) = of_nat (?p + 8)"
    "of_nat ?p + (12 :: u64) = of_nat (?p + 12)" "of_nat ?p + (16 :: u64) = of_nat (?p + 16)"
    by (simp_all only: of_nat_add of_nat_mult of_nat_numeral)
  obtain nr where nr: "read_u32_le bs (of_nat ?p) = Some nr"
    using read_u32_bound [OF sm p [of 0]] by auto
  obtain br where br: "read_u32_le bs (of_nat (?p + 4)) = Some br" "\<And>v. br = Some v \<Longrightarrow> v < 4294967296"
    using read_u32_bound [OF sm p [of 4]] by auto
  obtain bz where bz: "read_u32_le bs (of_nat (?p + 8)) = Some bz" "\<And>v. bz = Some v \<Longrightarrow> v < 4294967296"
    using read_u32_bound [OF sm p [of 8]] by auto
  obtain mr where mr: "read_u32_le bs (of_nat (?p + 12)) = Some mr"
    using read_u32_bound [OF sm p [of 12]] by auto
  obtain mz where mz: "read_u32_le bs (of_nat (?p + 16)) = Some mz"
    using read_u32_bound [OF sm p [of 16]] by auto
  note reads = nr br(1) bz(1) mr mz
  show ?thesis
  proof (cases "nr = None \<or> br = None \<or> bz = None \<or> mr = None \<or> mz = None")
    case True
    then show ?thesis
      unfolding parse_function_entry_def Let_def e reads
      by (cases nr; cases br; cases bz; cases mr; cases mz) simp_all
  next
    case False
    then obtain r b z m s where v: "nr = Some r" "br = Some b" "bz = Some z" "mr = Some m" "mz = Some s"
      by auto
    have small: "b < 4294967296" "z < 4294967296" using br(2) bz(2) v by auto
    let ?abs = "ci_payload_offset info + b"
    have abs: "?abs < 8589934592" using tab small(1) by (simp add: table_in_file_def)
    then have "\<not> wraps 4 (of_nat ?abs)" by (intro not_wraps_position) simp_all
    from signature_safe [OF sm this] obtain ok
      where ok: "looks_like_bitcode_signature bs (of_nat ?abs) = Some ok" by blast
    obtain meta where meta: "parse_metadata_blob bs (ci_payload_offset info + m) s = Some meta"
      using parse_metadata_blob_safe by blast
    have u: "unat (of_nat ?abs :: u64) = ?abs" "unat (of_nat z :: u64) = z"
      using abs small(2) by (simp_all add: unat_of_nat del: of_nat_add)
    have eq: "parse_function_entry bs info i =
      (case parse_cstring bs (add_u32 (ci_string_table_offset info) r)
              (add_u32 (ci_string_table_offset info) (ci_string_table_size info)) of
         None \<Rightarrow> Some None
       | Some name \<Rightarrow>
           if length bs < ?abs + z \<or> length bs < ci_payload_offset info + m + s then Some None
           else Some (Some \<lparr>kr_name = name, kr_bitcode_offset = of_nat ?abs,
             kr_bitcode_size = of_nat z, kr_signature_ok = ok, kr_metadata = meta\<rparr>))"
      unfolding parse_function_entry_def Let_def e reads v
      by (simp add: ok meta del: of_nat_add split: option.split)
    show ?thesis
      by (cases "parse_cstring bs (add_u32 (ci_string_table_offset info) r)
              (add_u32 (ci_string_table_offset info) (ci_string_table_size info))")
        (auto simp: eq kernel_in_file_def u ok dest: parse_cstring_nonempty simp del: of_nat_add)
  qed
qed

definition table_result :: "bytes \<Rightarrow> CumetalContainerInfo \<Rightarrow> nat \<Rightarrow> bool" where
  "table_result bs r n \<longleftrightarrow> (\<forall>k \<in> set (ci_kernels r). kernel_in_file bs k) \<and>
     (if ci_parsed r then length (ci_kernels r) = n else ci_kernels r = [])"

lemma parse_function_table_safe:
  assumes "small_file bs"
  shows "table_in_file bs info n \<Longrightarrow> ci_parsed info \<Longrightarrow> \<forall>k \<in> set (ci_kernels info). kernel_in_file bs k \<Longrightarrow>
    \<forall>i \<in> set is. i < n \<Longrightarrow>
    \<exists>r. parse_function_table bs info is = Some r \<and> table_result bs r (length (ci_kernels info) + length is) \<and>
      ci_version r = ci_version info \<and> ci_function_count r = ci_function_count info"
proof (induction "is" arbitrary: info)
  case Nil
  then show ?case by (simp add: table_result_def)
next
  case (Cons i rest)
  obtain e where e: "parse_function_entry bs info i = Some e" "\<And>k. e = Some k \<Longrightarrow> kernel_in_file bs k"
    using parse_function_entry_safe [OF assms Cons.prems(1)] Cons.prems(4) by fastforce
  show ?case
  proof (cases e)
    case None
    then show ?thesis by (simp add: e(1) clear_kernels_def table_result_def)
  next
    case (Some k)
    let ?info = "info\<lparr>ci_kernels := ci_kernels info @ [k]\<rparr>"
    have "\<exists>r. parse_function_table bs ?info rest = Some r \<and>
      table_result bs r (length (ci_kernels ?info) + length rest) \<and>
      ci_version r = ci_version ?info \<and> ci_function_count r = ci_function_count ?info"
      using Cons.prems e(2) [OF Some]
      by (intro Cons.IH) (simp_all add: table_in_file_def ball_Un)
    then show ?thesis by (simp add: e(1) Some)
  qed
qed

lemma parse_cumetal_container_cases:
  assumes sm: "small_file bs"
  shows "\<exists>r. parse_cumetal_container bs = Some r \<and> table_result bs r (ci_function_count r) \<and>
    (ci_parsed r \<longrightarrow> 2 \<le> ci_version r)"
proof -
  have none: "table_result bs no_container (ci_function_count no_container)" "\<not> ci_parsed no_container"
    by (simp_all add: table_result_def no_container_def)
  obtain m where m: "matches_sig_at bs 0 cumetal_magic = Some m"
    using matches_sig_safe [OF sm, of 0 cumetal_magic] by (auto simp: wraps_def cumetal_magic_def)
  let ?r = "\<lambda>k. read_le 4 bs k"
  have r: "read_u32_le bs 4 = Some (?r 4)" "read_u32_le bs 8 = Some (?r 8)" "read_u32_le bs 12 = Some (?r 12)"
    "read_u32_le bs 16 = Some (?r 16)" "read_u32_le bs 20 = Some (?r 20)" "read_u32_le bs 24 = Some (?r 24)"
    "read_u32_le bs 28 = Some (?r 28)" "read_u32_le bs 32 = Some (?r 32)" "read_u32_le bs 36 = Some (?r 36)"
    using read_position(2) [OF sm, of 4] read_position(2) [OF sm, of 8] read_position(2) [OF sm, of 12]
      read_position(2) [OF sm, of 16] read_position(2) [OF sm, of 20] read_position(2) [OF sm, of 24]
      read_position(2) [OF sm, of 28] read_position(2) [OF sm, of 32] read_position(2) [OF sm, of 36]
    by simp_all
  show ?thesis
  proof (cases "40 \<le> length bs \<and> m")
    case False
    then show ?thesis using none by (auto simp: parse_cumetal_container_def m)
  next
    case True
    then obtain v ts fo fc so ss po ps fl where f: "?r 4 = Some v" "?r 8 = Some ts" "?r 12 = Some fo"
        "?r 16 = Some fc" "?r 20 = Some so" "?r 24 = Some ss" "?r 28 = Some po" "?r 32 = Some ps" "?r 36 = Some fl"
      by (simp add: read_le_in_range)
    have po: "po < 4294967296" using read_le_bound [OF f(7)] by simp
    let ?info = "\<lparr>ci_parsed = True, ci_version = v, ci_flags = fl, ci_function_table_offset = fo,
      ci_function_count = fc, ci_string_table_offset = so, ci_string_table_size = ss,
      ci_payload_offset = po, ci_payload_size = ps, ci_kernels = []\<rparr>"
    let ?bad = "v < 2 \<or> length bs < ts \<or> length bs < fo + fc * 32 \<or> length bs < add_u32 so ss \<or>
      length bs < add_u32 po ps"
    have eq: "parse_cumetal_container bs =
        (if ?bad then Some no_container else parse_function_table bs ?info [0..<fc])"
      using True by (simp add: parse_cumetal_container_def m r f)
    show ?thesis
    proof (cases ?bad)
      case True
      then show ?thesis using none by (simp only: eq if_True) blast
    next
      case False
      then have "table_in_file bs ?info fc" using po by (simp add: table_in_file_def)
      from parse_function_table_safe [OF sm this, of "[0..<fc]"] False
      show ?thesis by (auto simp: eq)
    qed
  qed
qed

section \<open>The inspector's properties\<close>

text \<open>
  C14: a container written by the compiler is parsed without a read outside the file, whatever the
  file holds.  A parsed container has format version 2 or later and one kernel for every entry of
  its function table, an unparsed one no kernel; the bitcode of every kernel lies in the file, its
  name is not empty, and its signature flag says whether one of the two bitcode signatures stands
  at its offset.
\<close>

theorem parse_cumetal_container_safe:
  assumes "length bs < 9223372036854775808"
  shows "\<exists>r. parse_cumetal_container bs = Some r \<and>
    (if ci_parsed r then 2 \<le> ci_version r \<and> length (ci_kernels r) = ci_function_count r
     else ci_kernels r = []) \<and>
    (\<forall>k. ListMem k (ci_kernels r) \<longrightarrow>
       unat (kr_bitcode_offset k) + unat (kr_bitcode_size k) \<le> length bs \<and> kr_name k \<noteq> [] \<and>
       looks_like_bitcode_signature bs (kr_bitcode_offset k) = Some (kr_signature_ok k))"
proof -
  obtain r where r: "parse_cumetal_container bs = Some r" "table_result bs r (ci_function_count r)"
      "ci_parsed r \<longrightarrow> 2 \<le> ci_version r"
    using parse_cumetal_container_cases [of bs] assms by (auto simp: small_file_def)
  have "if ci_parsed r then 2 \<le> ci_version r \<and> length (ci_kernels r) = ci_function_count r
      else ci_kernels r = []"
    using r(2,3) by (simp add: table_result_def split: if_splits)
  moreover have "kernel_in_file bs k" if "ListMem k (ci_kernels r)" for k
    using r(2) that by (simp add: table_result_def ListMem_iff)
  ultimately show ?thesis using r(1) unfolding kernel_in_file_def by blast
qed

text \<open>A container with one kernel, \<open>k\<close>, whose payload is the raw signature.\<close>

definition one_kernel_container :: bytes where
  "one_kernel_container = [0x4D, 0x54, 0x4C, 0x42, 2, 0, 0, 0, 78, 0, 0, 0, 40, 0, 0, 0, 1, 0, 0, 0,
     72, 0, 0, 0, 2, 0, 0, 0, 74, 0, 0, 0, 4, 0, 0, 0, 0, 0, 0, 0] @
     [0, 0, 0, 0, 0, 0, 0, 0, 4, 0, 0, 0, 0, 0, 0, 0, 0, 0, 0, 0] @ replicate 12 0 @
     [0x6B, 0] @ raw_bitcode_sig"

lemma one_kernel_container_size: "length one_kernel_container = 78" "small_file one_kernel_container"
  by (simp_all add: one_kernel_container_def raw_bitcode_sig_def small_file_def)

lemma one_kernel_container_fields:
  "take 4 (drop 4 one_kernel_container) = [2, 0, 0, 0]"
  "take 4 (drop 8 one_kernel_container) = [78, 0, 0, 0]"
  "take 4 (drop 12 one_kernel_container) = [40, 0, 0, 0]"
  "take 4 (drop 16 one_kernel_container) = [1, 0, 0, 0]"
  "take 4 (drop 20 one_kernel_container) = [72, 0, 0, 0]"
  "take 4 (drop 24 one_kernel_container) = [2, 0, 0, 0]"
  "take 4 (drop 28 one_kernel_container) = [74, 0, 0, 0]"
  "take 4 (drop 32 one_kernel_container) = [4, 0, 0, 0]"
  "take 4 (drop 36 one_kernel_container) = [0, 0, 0, 0]"
  "take 4 (drop 40 one_kernel_container) = [0, 0, 0, 0]"
  "take 4 (drop 44 one_kernel_container) = [0, 0, 0, 0]"
  "take 4 (drop 48 one_kernel_container) = [4, 0, 0, 0]"
  "take 4 (drop 52 one_kernel_container) = [0, 0, 0, 0]"
  "take 4 (drop 56 one_kernel_container) = [0, 0, 0, 0]"
  "drop 74 one_kernel_container = raw_bitcode_sig"
  "take 2 (drop 72 one_kernel_container) = [0x6B, 0]"
  "take 4 one_kernel_container = bytes_of_string ''MTLB''"
  by (simp_all add: one_kernel_container_def raw_bitcode_sig_def numeral_eq_Suc bytes_of_string_def byte_char_def)

lemma one_kernel_container_reads:
  "read_u32_le one_kernel_container 4 = Some (Some 2)"
  "read_u32_le one_kernel_container 8 = Some (Some 78)"
  "read_u32_le one_kernel_container 12 = Some (Some 40)"
  "read_u32_le one_kernel_container 16 = Some (Some 1)"
  "read_u32_le one_kernel_container 20 = Some (Some 72)"
  "read_u32_le one_kernel_container 24 = Some (Some 2)"
  "read_u32_le one_kernel_container 28 = Some (Some 74)"
  "read_u32_le one_kernel_container 32 = Some (Some 4)"
  "read_u32_le one_kernel_container 36 = Some (Some 0)"
  "read_u32_le one_kernel_container 40 = Some (Some 0)"
  "read_u32_le one_kernel_container 44 = Some (Some 0)"
  "read_u32_le one_kernel_container 48 = Some (Some 4)"
  "read_u32_le one_kernel_container 52 = Some (Some 0)"
  "read_u32_le one_kernel_container 56 = Some (Some 0)"
  using
    read_position(2) [OF one_kernel_container_size(2), of 4]
    read_position(2) [OF one_kernel_container_size(2), of 8]
    read_position(2) [OF one_kernel_container_size(2), of 12]
    read_position(2) [OF one_kernel_container_size(2), of 16]
    read_position(2) [OF one_kernel_container_size(2), of 20]
    read_position(2) [OF one_kernel_container_size(2), of 24]
    read_position(2) [OF one_kernel_container_size(2), of 28]
    read_position(2) [OF one_kernel_container_size(2), of 32]
    read_position(2) [OF one_kernel_container_size(2), of 36]
    read_position(2) [OF one_kernel_container_size(2), of 40]
    read_position(2) [OF one_kernel_container_size(2), of 44]
    read_position(2) [OF one_kernel_container_size(2), of 48]
    read_position(2) [OF one_kernel_container_size(2), of 52]
    read_position(2) [OF one_kernel_container_size(2), of 56]
  by (simp_all add: read_le_def slice_def one_kernel_container_size one_kernel_container_fields)

lemma one_kernel_container_parse:
  "parse_cumetal_container one_kernel_container =
     Some \<lparr>ci_parsed = True, ci_version = 2, ci_flags = 0, ci_function_table_offset = 40,
       ci_function_count = 1, ci_string_table_offset = 72, ci_string_table_size = 2,
       ci_payload_offset = 74, ci_payload_size = 4, ci_kernels = [\<lparr>kr_name = ''k'',
         kr_bitcode_offset = 74, kr_bitcode_size = 4, kr_signature_ok = True, kr_metadata = []\<rparr>]\<rparr>"
proof -
  have magic: "matches_sig_at one_kernel_container 0 cumetal_magic = Some True"
  proof -
    have "length cumetal_magic = 4" "cumetal_magic = take 4 one_kernel_container"
      by (simp_all only: cumetal_magic_def one_kernel_container_fields(17)) simp
    then show ?thesis
      by (simp add: matches_sig_at_def file_size_def one_kernel_container_size slice_def)
  qed
  have sig: "looks_like_bitcode_signature one_kernel_container 74 = Some True"
    by (simp add: looks_like_bitcode_signature_def matches_sig_at_def file_size_def
        one_kernel_container_size slice_def one_kernel_container_fields raw_bitcode_sig_def
        wrapped_bitcode_sig_def)
  have k: "string_of_bytes [0x6B] = ''k''"
    using string_of_bytes_of_string [of "''k''"] by (simp add: bytes_of_string_def byte_char_def)
  have name: "parse_cstring one_kernel_container 72 74 = Some ''k''"
    by (simp add: parse_cstring_def one_kernel_container_size one_kernel_container_fields
        is_visible_ascii_def is_valid_symbol_char_def is_alpha_byte_def k)
  show ?thesis
    by (simp add: parse_cumetal_container_def parse_function_entry_def magic sig name add_u32_def
        one_kernel_container_reads one_kernel_container_size parse_metadata_blob_def)
qed

theorem parse_cumetal_container_safe_witness:
  "\<exists>r. parse_cumetal_container one_kernel_container = Some r \<and> ci_parsed r \<and>
     length (ci_kernels r) = 1 \<and> ci_function_count r = 1"
proof -
  have "length one_kernel_container < 9223372036854775808" by (simp add: one_kernel_container_size)
  from parse_cumetal_container_safe [OF this] show ?thesis
    by (auto simp: one_kernel_container_parse)
qed

text \<open>
  C15: only two reads of the parser of Apple's function lists can leave the file: if it reads
  outside, then the list offset in the header lies in the last four bytes of the 64-bit address
  space, or the section offset in the header plus eight bytes of the file does after wrap-around.
\<close>

theorem parse_real_metallib_fault:
  assumes "length bs < 9223372036854775808" "parse_real_metallib bs = None"
  shows "18446744073709551612 \<le> le_value (take 8 (drop 24 bs)) \<or>
    (\<exists>i v. read_le 8 bs i = Some v \<and>
       18446744073709551612 \<le> unat (of_nat (le_value (take 8 (drop 72 bs))) + of_nat v :: u64))"
  by (rule parse_real_metallib_blame) (use assms in simp_all)

theorem parse_real_metallib_fault_witness:
  "parse_real_metallib wrapped_list_header = None \<and>
   (18446744073709551612 \<le> le_value (take 8 (drop 24 wrapped_list_header)) \<or>
    (\<exists>i v. read_le 8 wrapped_list_header i = Some v \<and>
       18446744073709551612 \<le>
         unat (of_nat (le_value (take 8 (drop 72 wrapped_list_header))) + of_nat v :: u64)))"
  using parse_real_metallib_fault [OF _ function_list_read_escapes] function_list_read_escapes
  by (simp add: wrapped_list_header_size)

fun show_hex :: "nat \<Rightarrow> string" where
  "show_hex n = (if n < 16 then [hex_digit n] else show_hex (n div 16) @ [hex_digit (n mod 16)])"

declare show_hex.simps [simp del]

definition hex_u64 :: "u64 \<Rightarrow> nat \<Rightarrow> string" where
  "hex_u64 v width = (let digits = show_hex (unat v)
     in ''0x'' @ replicate (width - length digits) (CHR ''0'') @ digits)"

definition string_found :: "bytes \<Rightarrow> StringCandidate \<Rightarrow> bool" where
  "string_found bs c \<longleftrightarrow> (let n = length (sc_value c) in
     4 \<le> n \<and> n \<le> 96 \<and> sc_offset c + n < length bs \<and> bs ! (sc_offset c + n) = 0 \<and>
     (sc_offset c = 0 \<or> bs ! (sc_offset c - 1) = 0) \<and>
     bytes_of_string (sc_value c) = take n (drop (sc_offset c) bs) \<and>
     list_all is_valid_symbol_char (bytes_of_string (sc_value c)))"

lemma collect_string_prefix:
  "collect_string n bs = (s, ok) \<Longrightarrow> s = take (length s) bs \<and> list_all is_valid_symbol_char s"
  by (induction n bs arbitrary: s ok rule: collect_string.induct) (auto split: if_splits prod.splits)

lemma bytes_of_string_of_bytes [simp]: "bytes_of_string (string_of_bytes b) = b"
  by (simp add: bytes_of_string_def string_of_bytes_def comp_def)

lemma scan_strings_found:
  "\<forall>c \<in> set acc. string_found bs c \<Longrightarrow> length acc \<le> m \<Longrightarrow>
   (\<forall>c \<in> set (scan_strings bs m i acc). string_found bs c) \<and> length (scan_strings bs m i acc) \<le> m"
proof (induction bs m i acc rule: scan_strings.induct)
  case (1 bs m i acc)
  obtain s ok where c: "collect_string 97 (drop i bs) = (s, ok)" by fastforce
  consider "length bs \<le> i \<or> m \<le> length acc"
    | "\<not> (length bs \<le> i \<or> m \<le> length acc)" "0 < i \<and> bs ! (i - 1) \<noteq> 0 \<or> \<not> is_visible_ascii (bs ! i)"
    | "\<not> (length bs \<le> i \<or> m \<le> length acc)" "\<not> (0 < i \<and> bs ! (i - 1) \<noteq> 0 \<or> \<not> is_visible_ascii (bs ! i))"
    by blast
  then show ?case
  proof cases
    case 1
    then show ?thesis using "1.prems" by (subst (1 2) scan_strings.simps) auto
  next
    case 2
    then show ?thesis using "1.IH"(1) [OF 2] "1.prems" by (subst (1 2) scan_strings.simps) simp
  next
    case 3
    let ?bad = "\<not> ok \<or> length s < 4 \<or> 96 < length s \<or> \<not> list_ex is_alpha_byte s \<or>
      length bs \<le> i + length s \<or> bs ! (i + length s) \<noteq> 0"
    let ?c = "\<lparr>sc_offset = i, sc_value = string_of_bytes s\<rparr>"
    have eq: "scan_strings bs m i acc = (if ?bad then scan_strings bs m (Suc i) acc
        else scan_strings bs m (Suc (i + length s)) (acc @ [?c]))"
      using 3 c by (subst scan_strings.simps) (auto simp: Let_def)
    show ?thesis
    proof (cases ?bad)
      case True
      from "1.IH"(2) [OF 3 c [symmetric] refl True "1.prems"] show ?thesis
        unfolding eq if_P [OF True] .
    next
      case False
      have "string_found bs ?c"
        using False 3 collect_string_prefix [OF c] by (auto simp: string_found_def)
      then have "\<forall>c \<in> set (acc @ [?c]). string_found bs c" "length (acc @ [?c]) \<le> m"
        using "1.prems" 3 by auto
      from "1.IH"(3) [OF 3 c [symmetric] refl False this] show ?thesis
        unfolding eq if_not_P [OF False] .
    qed
  qed
qed

text \<open>
  The string scan reports at most as many strings as asked for, and each is a whole
  NUL-terminated string of the file, between 4 and 96 symbol characters long, that starts the file
  or follows a NUL.
\<close>

lemma scan_string_candidates_found:
  "length (scan_string_candidates bs m) \<le> m \<and> list_all (string_found bs) (scan_string_candidates bs m)"
  using scan_strings_found [of "[]" bs m 0] by (auto simp: scan_string_candidates_def list_all_iff)

end
