(* ===== verification/PtxText.thy ===== *)
theory PtxText
  imports Prelude
begin

text \<open>
  Text routines of the PTX front end, \<open>compiler/ptx/src/parser.cpp\<close>: character classes of the C
  locale, \<open>trim\<close>, the removal of comments, balanced bodies and operand lists.
\<close>

section \<open>Character classes and searches\<close>

definition is_space :: "char \<Rightarrow> bool" where
  "is_space c = (c = CHR 0x20 \<or> 9 \<le> (of_char c :: nat) \<and> (of_char c :: nat) \<le> 13)"

definition is_alpha_char :: "char \<Rightarrow> bool" where
  "is_alpha_char c = (65 \<le> (of_char c :: nat) \<and> (of_char c :: nat) \<le> 90 \<or>
     97 \<le> (of_char c :: nat) \<and> (of_char c :: nat) \<le> 122)"

definition is_alnum :: "char \<Rightarrow> bool" where
  "is_alnum c = (is_alpha_char c \<or> is_digit_char c)"

definition find_char :: "char \<Rightarrow> string \<Rightarrow> nat option" where
  "find_char c s = (let n = length (takeWhile (\<lambda>x. x \<noteq> c) s) in if n < length s then Some n else None)"

definition find_first_of :: "(char \<Rightarrow> bool) \<Rightarrow> string \<Rightarrow> nat option" where
  "find_first_of P s = (let n = length (takeWhile (\<lambda>x. \<not> P x) s) in if n < length s then Some n else None)"

definition trim :: "string \<Rightarrow> string" where
  "trim s = rev (dropWhile is_space (rev (dropWhile is_space s)))"

text \<open>A text without white space at its ends.\<close>

definition trimmed :: "string \<Rightarrow> bool" where
  "trimmed s = (s = [] \<or> \<not> is_space (hd s) \<and> \<not> is_space (last s))"

lemma trimmed_Nil [simp]: "trimmed []"
  by (simp add: trimmed_def)

lemma trim_id: "trimmed s \<Longrightarrow> trim s = s"
proof -
  assume t: "trimmed s"
  show ?thesis
  proof (cases s)
    case (Cons c r)
    then have "dropWhile is_space s = s" "dropWhile is_space (rev s) = rev s"
      using t by (auto simp: trimmed_def dropWhile_eq_self_iff hd_rev hd_append split: if_splits)
    then show ?thesis by (simp add: trim_def)
  qed (simp add: trim_def)
qed

lemma hd_dropWhile_not: "dropWhile P s \<noteq> [] \<Longrightarrow> \<not> P (hd (dropWhile P s))"
  by (induction s) auto

lemma last_dropWhile: "dropWhile P s \<noteq> [] \<Longrightarrow> last (dropWhile P s) = last s"
  by (induction s) auto

lemma trimmed_trim [simp]: "trimmed (trim s)"
proof -
  let ?a = "dropWhile is_space s" and ?b = "dropWhile is_space (rev (dropWhile is_space s))"
  show ?thesis
  proof (cases "?b = []")
    case False
    have "\<not> is_space (hd ?b)" using hd_dropWhile_not [OF False] .
    moreover have "?a \<noteq> []"
      using False by (cases "?a = []") (simp_all only: rev.simps dropWhile.simps simp_thms)
    then have "\<not> is_space (hd ?a)" by (rule hd_dropWhile_not)
    then have "\<not> is_space (last ?b)"
      using last_dropWhile [OF False] \<open>?a \<noteq> []\<close> by (simp add: last_rev)
    ultimately show ?thesis using False by (simp add: trimmed_def trim_def hd_rev last_rev)
  qed (simp only: trimmed_def trim_def rev.simps simp_thms)
qed

lemma trim_trim [simp]: "trim (trim s) = trim s"
  by (rule trim_id) simp

lemma trim_Nil [simp]: "trim [] = []"
  by (simp add: trim_def)

lemma set_trim: "set (trim s) \<subseteq> set s"
  unfolding trim_def by (metis set_rev set_dropWhileD subsetI)

lemma length_trim: "length (trim s) \<le> length s"
  unfolding trim_def by (metis length_dropWhile_le length_rev order_trans)

lemma trim_surround:
  assumes "list_all is_space a" "list_all is_space b"
  shows "trim (a @ s @ b) = trim s"
proof -
  have drop: "dropWhile is_space (x @ y) = dropWhile is_space y" if "list_all is_space x" for x y
    using that by (induction x) auto
  show ?thesis
  proof (cases "list_all is_space s")
    case True
    then have "dropWhile is_space s = []" "dropWhile is_space b = []"
      using assms by (simp_all add: dropWhile_eq_Nil_conv list_all_iff)
    moreover have "dropWhile is_space (a @ s @ b) = []"
      using True assms by (simp add: dropWhile_eq_Nil_conv list_all_iff ball_Un)
    ultimately show ?thesis by (simp only: trim_def)
  next
    case False
    then obtain x where "x \<in> set s" "\<not> is_space x" by (auto simp: list_all_iff)
    then have "dropWhile is_space (s @ b) = dropWhile is_space s @ b" by (rule dropWhile_append1)
    moreover have "dropWhile is_space (rev b @ y) = dropWhile is_space y" for y
      using assms(2) by (intro drop) simp
    ultimately show ?thesis by (simp add: trim_def drop [OF assms(1)])
  qed
qed

section \<open>Comments\<close>

datatype CommentState = kNormal | kLineComment | kBlockComment

fun strip_loop :: "CommentState \<Rightarrow> string \<Rightarrow> string" where
  "strip_loop st [] = []"
| "strip_loop kLineComment (c # s) =
     (if c = CHR 0x0A then c # strip_loop kNormal s else strip_loop kLineComment s)"
| "strip_loop kBlockComment (c # s) =
     (if c = CHR ''*'' \<and> s \<noteq> [] \<and> hd s = CHR ''/'' then strip_loop kNormal (tl s)
      else strip_loop kBlockComment s)"
| "strip_loop kNormal (c # s) =
     (if c = CHR ''/'' \<and> s \<noteq> [] \<and> hd s = CHR ''/'' then strip_loop kLineComment (tl s)
      else if c = CHR ''/'' \<and> s \<noteq> [] \<and> hd s = CHR ''*'' then strip_loop kBlockComment (tl s)
      else c # strip_loop kNormal s)"

definition strip_comments :: "string \<Rightarrow> string" where
  "strip_comments s = strip_loop kNormal s"

text \<open>Neither comment opener occurs.\<close>

fun comment_free :: "string \<Rightarrow> bool" where
  "comment_free (a # b # s) =
     (\<not> (a = CHR ''/'' \<and> (b = CHR ''/'' \<or> b = CHR ''*'')) \<and> comment_free (b # s))"
| "comment_free s = True"

lemma strip_loop_comment_free: "comment_free s \<Longrightarrow> strip_loop kNormal s = s"
  by (induction s rule: comment_free.induct) auto

lemma comment_free_Cons: "c \<noteq> CHR ''/'' \<Longrightarrow> comment_free (c # s) = comment_free s"
  by (cases s) simp_all

lemma strip_loop_no_comments: "comment_free (strip_loop st s)"
proof (induction st s rule: strip_loop.induct)
  case (4 c s)
  let ?line = "c = CHR ''/'' \<and> s \<noteq> [] \<and> hd s = CHR ''/''"
  let ?block = "c = CHR ''/'' \<and> s \<noteq> [] \<and> hd s = CHR ''*''"
  show ?case
  proof (cases "?line \<or> ?block")
    case True
    then show ?thesis using 4 by auto
  next
    case False
    then have IH: "comment_free (strip_loop kNormal s)" using 4(3) by blast
    show ?thesis
    proof (cases "c = CHR ''/''")
      case True
      then have "s = [] \<or> (\<exists>d t. s = d # t \<and> d \<noteq> CHR ''/'' \<and> d \<noteq> CHR ''*'')"
        using False by (cases s) auto
      then show ?thesis
      proof
        assume "s = []"
        then show ?thesis using False by simp
      next
        assume "\<exists>d t. s = d # t \<and> d \<noteq> CHR ''/'' \<and> d \<noteq> CHR ''*''"
        then obtain d t where s: "s = d # t" "d \<noteq> CHR ''/''" "d \<noteq> CHR ''*''" by blast
        then have "strip_loop kNormal s = d # strip_loop kNormal t" by simp
        then show ?thesis using False IH s by simp
      qed
    next
      case False
      then have "strip_loop kNormal (c # s) = c # strip_loop kNormal s" by simp
      then show ?thesis using IH False by (simp add: comment_free_Cons)
    qed
  qed
qed (simp_all add: comment_free_Cons)

text \<open>
  What \<open>strip_comments\<close> returns contains no opener of a line or a block comment, and a text
  without openers is returned as it is; so stripping twice is stripping once.
\<close>

lemma strip_comments_correct:
  "comment_free (strip_comments s) \<and> (comment_free s = (strip_comments s = s)) \<and>
   strip_comments (strip_comments s) = strip_comments s"
  unfolding strip_comments_def using strip_loop_no_comments strip_loop_comment_free by metis

section \<open>Balanced bodies\<close>

fun find_close :: "nat \<Rightarrow> string \<Rightarrow> nat option" where
  "find_close depth [] = None"
| "find_close depth (c # s) =
     (if c = CHR ''{'' then map_option Suc (find_close (Suc depth) s)
      else if c = CHR ''}'' then (if depth = 1 then Some 0 else map_option Suc (find_close (depth - 1) s))
      else map_option Suc (find_close depth s))"

text \<open>The body, where it starts and where its closing brace is.\<close>

definition extract_balanced_body :: "string \<Rightarrow> nat \<Rightarrow> (string \<times> nat \<times> nat) option" where
  "extract_balanced_body txt open_brace_index =
     (if length txt \<le> open_brace_index \<or> txt ! open_brace_index \<noteq> CHR ''{'' then None
      else let start = open_brace_index + 1 in
        map_option (\<lambda>n. (take n (drop start txt), start, start + n)) (find_close 1 (drop start txt)))"

text \<open>How far the braces of a text are open at its end.\<close>

definition brace_depth :: "string \<Rightarrow> int" where
  "brace_depth s = int (count_list s (CHR ''{'')) - int (count_list s (CHR ''}''))"

lemma brace_depth_simps [simp]:
  "brace_depth [] = 0"
  "brace_depth (c # s) = (if c = CHR ''{'' then 1 else if c = CHR ''}'' then -1 else 0) + brace_depth s"
  by (simp_all add: brace_depth_def)

definition never_closed :: "nat \<Rightarrow> string \<Rightarrow> bool" where
  "never_closed depth s = (\<forall>k \<le> length s. 0 < int depth + brace_depth (take k s))"

lemma never_closed_Cons:
  "never_closed depth (c # s) \<longleftrightarrow> 0 < depth \<and>
     (if c = CHR ''{'' then never_closed (Suc depth) s
      else if c = CHR ''}'' then 1 < depth \<and> never_closed (depth - 1) s else never_closed depth s)"
proof -
  have all: "(\<forall>k \<le> length (c # s). P k) \<longleftrightarrow> P 0 \<and> (\<forall>k \<le> length s. P (Suc k))" for P
    by (metis (no_types) Suc_le_mono length_Cons nat.exhaust zero_le)
  have "never_closed (depth - 1) s \<Longrightarrow> 0 < int (depth - 1)"
    unfolding never_closed_def by (metis brace_depth_simps(1) add.right_neutral take0 zero_le)
  moreover have "never_closed (depth - 1) s \<longleftrightarrow> (\<forall>k \<le> length s. 0 < int depth - 1 + brace_depth (take k s))"
    if "1 < depth" using that by (simp add: never_closed_def of_nat_diff)
  moreover have "1 < depth" if "\<forall>k \<le> length s. 0 < int depth - 1 + brace_depth (take k s)"
    using that [rule_format, of 0] by simp
  ultimately show ?thesis
    unfolding never_closed_def all by (auto simp: algebra_simps)
qed

lemma find_close_Some:
  "0 < depth \<Longrightarrow> find_close depth s = Some n \<longleftrightarrow>
     n < length s \<and> s ! n = CHR ''}'' \<and> never_closed depth (take n s) \<and>
     int depth + brace_depth (take n s) = 1"
proof (induction depth s arbitrary: n rule: find_close.induct)
  case (1 depth)
  then show ?case by simp
next
  case (2 depth c s)
  show ?case
  proof (cases n)
    case 0
    then show ?thesis using 2 by (auto simp: never_closed_def)
  next
    case (Suc m)
    consider "c = CHR ''{''" | "c = CHR ''}''" | "c \<noteq> CHR ''{''" "c \<noteq> CHR ''}''" by blast
    then show ?thesis
    proof cases
      case 1
      then show ?thesis using 2 Suc by (simp add: never_closed_Cons algebra_simps)
    next
      case c: 2
      show ?thesis
      proof (cases "depth = 1")
        case True
        then show ?thesis using c Suc by (simp add: never_closed_Cons)
      next
        case False
        then show ?thesis using c Suc 2 by (auto simp: never_closed_Cons of_nat_diff algebra_simps)
      qed
    next
      case 3
      then show ?thesis using 2 Suc by (simp add: never_closed_Cons)
    qed
  qed
qed

lemma find_close_unique:
  assumes "find_close depth s = None" "0 < depth" "n < length s" "s ! n = CHR ''}''"
    "never_closed depth (take n s)" "int depth + brace_depth (take n s) = 1"
  shows False
  using find_close_Some [of depth s n] assms by simp

text \<open>
  C16: \<open>extract_balanced_body\<close> agrees with counting braces: it returns the text between the brace at
  the given index and the first closing brace at which as many braces were closed as opened, and
  nothing when the index holds no opening brace or no such closing brace follows.
\<close>

theorem extract_balanced_body_correct:
  "extract_balanced_body txt i = Some (body, start, fin) \<longleftrightarrow>
     i < length txt \<and> txt ! i = CHR ''{'' \<and> start = Suc i \<and> start \<le> fin \<and> fin < length txt \<and>
     txt ! fin = CHR ''}'' \<and> body = take (fin - start) (drop start txt) \<and>
     never_closed 1 body \<and> brace_depth body = 0"
proof (cases "i < length txt \<and> txt ! i = CHR ''{''")
  case False
  then show ?thesis by (auto simp: extract_balanced_body_def)
next
  case True
  have "find_close 1 (drop (Suc i) txt) = Some n \<longleftrightarrow> Suc i + n < length txt \<and> txt ! (Suc i + n) = CHR ''}'' \<and>
      never_closed 1 (take n (drop (Suc i) txt)) \<and> brace_depth (take n (drop (Suc i) txt)) = 0" for n
    using True by (subst find_close_Some) auto
  then have close: "find_close 1 (drop (Suc i) txt) = Some n \<longleftrightarrow> Suc i + n < length txt \<and>
      txt ! (Suc i + n) = CHR ''}'' \<and> never_closed 1 (take n (drop (Suc i) txt)) \<and>
      brace_depth (take n (drop (Suc i) txt)) = 0" for n .
  have "extract_balanced_body txt i = Some (body, start, fin) \<longleftrightarrow>
      (\<exists>n. find_close 1 (drop (Suc i) txt) = Some n \<and> body = take n (drop (Suc i) txt) \<and>
         start = Suc i \<and> fin = start + n)"
    using True by (auto simp: extract_balanced_body_def Let_def)
  also have "\<dots> \<longleftrightarrow> start = Suc i \<and> start \<le> fin \<and>
      find_close 1 (drop (Suc i) txt) = Some (fin - start) \<and> body = take (fin - start) (drop (Suc i) txt)"
    by (metis add_diff_cancel_left' le_add1 le_add_diff_inverse)
  finally show ?thesis using True unfolding close by auto
qed

section \<open>Opcodes\<close>

definition opcode_root :: "string \<Rightarrow> string" where
  "opcode_root opcode = takeWhile (\<lambda>c. c \<noteq> CHR ''.'') opcode"

definition supported_roots :: "string list" where
  "supported_roots =
    [''abs'', ''activemask'', ''add'', ''and'', ''atom'', ''bar'', ''bfe'', ''bfi'', ''bfind'',
     ''bra'', ''brev'', ''brx'', ''call'', ''clz'', ''cos'', ''cp'', ''cvt'', ''cvta'',
     ''div'', ''ex2'', ''exit'', ''fma'', ''fns'', ''isspacep'', ''ld'', ''lg2'', ''lop3'',
     ''mad'', ''match'', ''max'', ''membar'', ''min'', ''mov'', ''mul'', ''nanosleep'',
     ''neg'', ''not'', ''or'', ''popc'', ''prmt'', ''rcp'', ''redux'', ''rem'', ''ret'',
     ''rsqrt'', ''sad'', ''selp'', ''set'', ''setp'', ''shl'', ''shr'', ''shfl'', ''sin'',
     ''sqrt'', ''st'', ''sub'', ''fence'', ''prefetch'', ''prefetchu'', ''red'', ''suq'',
     ''testp'', ''trap'', ''txq'', ''vote'', ''xor'']"

definition is_supported_opcode :: "string \<Rightarrow> bool" where
  "is_supported_opcode opcode = (opcode \<noteq> [] \<and> List.member supported_roots (opcode_root opcode))"

definition starts_with_any :: "string \<Rightarrow> string list \<Rightarrow> bool" where
  "starts_with_any s pres = list_ex (starts_with s) pres"

definition is_explicitly_unsupported :: "string \<Rightarrow> bool" where
  "is_explicitly_unsupported opcode = starts_with_any opcode
     [''cluster.'', ''mbarrier.'', ''cp.async.bulk.tensor'', ''cvt.rn.f8x2'', ''cvt.rn.f8.'', ''wmma.'',
      ''mma.sync'', ''ldmatrix.'', ''tex.'', ''tld4.'', ''sust.'', ''suld.'', ''sured.'']"

definition quoted_opcode :: "string \<Rightarrow> string" where
  "quoted_opcode opcode = ''unsupported opcode '' @ [CHR 0x27] @ opcode @ [CHR 0x27]"

text \<open>The dash in the message about textures is the three bytes of its UTF-8 encoding.\<close>

definition targeted_unsupported_message :: "string \<Rightarrow> string" where
  "targeted_unsupported_message opcode =
     (if starts_with_any opcode [''cluster.'', ''mbarrier.''] then quoted_opcode opcode @
        '' (Hopper cluster / distributed shared memory ops have no Metal equivalent)''
      else if starts_with opcode ''cp.async.bulk.tensor'' then quoted_opcode opcode @
        '' (Tensor Memory Accelerator (TMA) has no Metal equivalent)''
      else if starts_with_any opcode [''cvt.rn.f8x2'', ''cvt.rn.f8.''] then quoted_opcode opcode @
        '' (FP8 / Transformer Engine types have no Metal equivalent)''
      else if starts_with_any opcode [''wmma.'', ''mma.sync'', ''ldmatrix.''] then quoted_opcode opcode @
        '' (tensor core ops (wmma/mma/ldmatrix) have no Metal equivalent; use MPSMatrixMultiplication for GEMM workloads)''
      else if starts_with_any opcode [''tex.'', ''tld4.'', ''sust.'', ''suld.'', ''sured.'', ''suq.'', ''txq.'']
      then quoted_opcode opcode @
        '' (texture/surface instructions not yet supported; deferred to v2 '' @
        [CHR 0xE2, CHR 0x80, CHR 0x94] @ '' use global memory buffers instead)''
      else [])"

section \<open>Operand lists\<close>

definition is_open :: "char \<Rightarrow> bool" where
  "is_open c = (c = CHR ''['' \<or> c = CHR ''('' \<or> c = CHR ''{'')"

definition is_close :: "char \<Rightarrow> bool" where
  "is_close c = (c = CHR '']'' \<or> c = CHR '')'' \<or> c = CHR ''}'')"

definition token_of :: "string \<Rightarrow> string list" where
  "token_of current = (if trim current = [] then [] else [trim current])"

fun split_loop :: "nat \<Rightarrow> string \<Rightarrow> string \<Rightarrow> string list" where
  "split_loop depth current [] = token_of current"
| "split_loop depth current (c # s) =
     (if is_open c then split_loop (Suc depth) (current @ [c]) s
      else if is_close c then split_loop (depth - 1) (current @ [c]) s
      else if c = CHR '','' \<and> depth = 0 then token_of current @ split_loop depth [] s
      else split_loop depth (current @ [c]) s)"

definition split_operands :: "string \<Rightarrow> string list" where
  "split_operands s = split_loop 0 [] s"

text \<open>The bracket depth after a text, when no comma stands outside brackets.\<close>

fun comma_depth :: "nat \<Rightarrow> string \<Rightarrow> nat option" where
  "comma_depth depth [] = Some depth"
| "comma_depth depth (c # s) =
     (if is_open c then comma_depth (Suc depth) s
      else if is_close c then comma_depth (depth - 1) s
      else if c = CHR '','' \<and> depth = 0 then None else comma_depth depth s)"

definition operand_ok :: "string \<Rightarrow> bool" where
  "operand_ok w = (w \<noteq> [] \<and> trimmed w \<and> comma_depth 0 w = Some 0)"

lemma split_loop_operand:
  "comma_depth depth w = Some d \<Longrightarrow> split_loop depth current (w @ s) = split_loop d (current @ w) s"
  by (induction depth w arbitrary: current rule: comma_depth.induct) (auto split: if_splits)

definition comma_separated :: "string list \<Rightarrow> string" where
  "comma_separated ws = concat (map (\<lambda>w. w @ '', '') (butlast ws)) @ (if ws = [] then [] else last ws)"

lemma comma_separated_Cons:
  "comma_separated (w # ws) = (if ws = [] then w else w @ '', '' @ comma_separated ws)"
  by (simp add: comma_separated_def)

lemma token_of_operand: "operand_ok w \<Longrightarrow> list_all is_space a \<Longrightarrow> token_of (a @ w) = [w]"
  using trim_surround [of a "[]" w] by (simp add: token_of_def operand_ok_def trim_id)

lemma split_loop_comma_separated:
  "list_all operand_ok ws \<Longrightarrow> ws \<noteq> [] \<Longrightarrow> list_all is_space a \<Longrightarrow>
   split_loop 0 a (comma_separated ws) = ws"
proof (induction ws arbitrary: a)
  case (Cons w ws)
  then have w: "operand_ok w" "comma_depth 0 w = Some 0" by (simp_all add: operand_ok_def)
  show ?case
  proof (cases "ws = []")
    case True
    then show ?thesis
      using split_loop_operand [OF w(2), of a "[]"] token_of_operand [OF w(1) Cons.prems(3)]
      by (simp add: comma_separated_Cons)
  next
    case False
    have "split_loop 0 ('' '') (comma_separated ws) = ws"
      using Cons False by (simp add: is_space_def)
    then show ?thesis
      using False split_loop_operand [OF w(2), of a "'', '' @ comma_separated ws"]
        token_of_operand [OF w(1) Cons.prems(3)]
      by (simp add: comma_separated_Cons is_open_def is_close_def)
  qed
qed simp

lemma split_loop_operands:
  "\<forall>w \<in> set (split_loop depth current s). w \<noteq> [] \<and> trimmed w"
  by (induction depth current s rule: split_loop.induct) (auto simp: token_of_def)

lemma split_comma_separated:
  assumes "list_all operand_ok ws"
  shows "split_operands (comma_separated ws) = ws"
proof (cases "ws = []")
  case True
  then show ?thesis by (simp add: split_operands_def comma_separated_def token_of_def)
next
  case False
  then show ?thesis using split_loop_comma_separated [OF assms, of "[]"] by (simp add: split_operands_def)
qed



section \<open>Parts of operands\<close>

definition extract_bracket_contents :: "string \<Rightarrow> string" where
  "extract_bracket_contents operand =
     (case find_char (CHR ''['') operand of
        None \<Rightarrow> []
      | Some open_at \<Rightarrow>
          (case find_char (CHR '']'') (drop (open_at + 1) operand) of
             None \<Rightarrow> []
           | Some n \<Rightarrow> if n = 0 then [] else trim (take n (drop (open_at + 1) operand))))"

definition is_register_char :: "char \<Rightarrow> bool" where
  "is_register_char c = (is_alnum c \<or> c = CHR ''_'' \<or> c = CHR ''.'' \<or> c = CHR ''$'')"

definition extract_register_name :: "string \<Rightarrow> string" where
  "extract_register_name txt =
     (case find_char (CHR ''%'') txt of
        None \<Rightarrow> []
      | Some percent \<Rightarrow>
          let name = takeWhile is_register_char (drop (percent + 1) txt)
          in if name = [] then [] else CHR ''%'' # name)"

definition sanitize_param_name :: "string \<Rightarrow> string" where
  "sanitize_param_name name =
     (let kept = rev (dropWhile (\<lambda>c. c = CHR '','' \<or> c = CHR '';'' \<or> c = CHR '')'') (rev name))
      in case find_char (CHR ''['') kept of None \<Rightarrow> kept | Some array \<Rightarrow> take array kept)"

definition extract_param_name_from_operand :: "string \<Rightarrow> string" where
  "extract_param_name_from_operand operand =
     (let token = extract_bracket_contents operand
      in if token = [] \<or> hd token = CHR ''%'' then []
         else let cut = (case find_first_of (\<lambda>c. c = CHR 0x20 \<or> c = CHR ''+'' \<or> c = CHR ''-'') token of
                           None \<Rightarrow> token | Some cutoff \<Rightarrow> take cutoff token)
              in sanitize_param_name (trim cut))"

definition is_memory_opcode :: "string \<Rightarrow> bool" where
  "is_memory_opcode opcode =
     (let root = opcode_root opcode
      in (root = ''ld'' \<or> root = ''st'' \<or> root = ''atom'') \<and>
         \<not> starts_with opcode ''ld.param'' \<and> \<not> starts_with opcode ''st.param'')"

definition is_64bit_param_type :: "string \<Rightarrow> bool" where
  "is_64bit_param_type type = (type = ''.u64'' \<or> type = ''.s64'' \<or> type = ''.b64'')"

end
