(* ===== verification/PtxLines.thy ===== *)
theory PtxLines
  imports PtxText
begin

text \<open>
  The statements of a kernel body, \<open>parse_instructions\<close>, \<open>parse_instruction_block\<close> and
  \<open>infer_pointer_parameters\<close> of \<open>compiler/ptx/src/parser.cpp\<close>, and the structures of
  \<open>compiler/ptx/include/cumetal/ptx/parser.h\<close>.
\<close>

section \<open>Entries\<close>

definition show_int :: "int \<Rightarrow> string" where
  "show_int i = (if i < 0 then CHR ''-'' # show_nat (nat (- i)) else show_nat (nat i))"

record Instruction =
  in_predicate :: string
  in_opcode :: string
  in_operands :: "string list"
  in_line :: int
  in_supported :: bool

record Parameter =
  pa_type :: string
  pa_name :: string
  pa_is_pointer :: bool
  pa_byte_size :: u64
  pa_alignment :: u64

record RegisterDeclaration =
  rd_name :: string
  rd_type :: string

record EntryFunction =
  ef_name :: string
  ef_params :: "Parameter list"
  ef_return_params :: "Parameter list"
  ef_instructions :: "Instruction list"
  ef_register_declarations :: "RegisterDeclaration list"

section \<open>Pointer parameters\<close>

text \<open>
  Which parameters were used as addresses and as values, and which register holds which parameter.
\<close>

record PointerUse =
  pu_address_use :: "string set"
  pu_value_use :: "string set"
  pu_register_to_param :: "string \<Rightarrow> string option"

definition track_load :: "string set \<Rightarrow> Instruction \<Rightarrow> PointerUse \<Rightarrow> PointerUse" where
  "track_load params i u =
     (if starts_with (in_opcode i) ''ld.param'' \<and> 2 \<le> length (in_operands i)
      then let dest = extract_register_name (in_operands i ! 0);
               name = extract_param_name_from_operand (in_operands i ! 1)
           in if dest \<noteq> [] \<and> name \<in> params
              then u\<lparr>pu_register_to_param := (pu_register_to_param u)(dest \<mapsto> name)\<rparr> else u
      else u)"

definition track_address :: "string set \<Rightarrow> PointerUse \<Rightarrow> string \<Rightarrow> PointerUse" where
  "track_address params u operand =
     (let bracket = extract_bracket_contents operand; reg = extract_register_name bracket in
      if bracket = [] then u
      else if reg \<noteq> []
      then (case pu_register_to_param u reg of
              None \<Rightarrow> u | Some p \<Rightarrow> u\<lparr>pu_address_use := insert p (pu_address_use u)\<rparr>)
      else let name = sanitize_param_name (trim bracket)
           in if name \<in> params then u\<lparr>pu_address_use := insert name (pu_address_use u)\<rparr> else u)"

definition track_memory :: "string set \<Rightarrow> Instruction \<Rightarrow> PointerUse \<Rightarrow> PointerUse" where
  "track_memory params i u =
     (if is_memory_opcode (in_opcode i) then foldl (track_address params) u (in_operands i) else u)"

text \<open>The one parameter the sources hold, \<open>None\<close> when they hold two.\<close>

primrec mapped_param :: "(string \<Rightarrow> string option) \<Rightarrow> string \<Rightarrow> string list \<Rightarrow> string option" where
  "mapped_param regs mapped [] = Some mapped"
| "mapped_param regs mapped (operand # rest) =
     (let src = extract_register_name operand in
      case (if src = [] then None else regs src) of
        None \<Rightarrow> mapped_param regs mapped rest
      | Some p \<Rightarrow> if mapped = [] then mapped_param regs p rest
                  else if mapped \<noteq> p then None else mapped_param regs mapped rest)"

definition track_copy :: "Instruction \<Rightarrow> PointerUse \<Rightarrow> PointerUse" where
  "track_copy i u =
     (if starts_with (in_opcode i) ''ld.param'' \<or> in_operands i = [] then u
      else let dest = extract_register_name (hd (in_operands i)) in
        if dest = [] then u
        else u\<lparr>pu_register_to_param := (pu_register_to_param u)
          (dest := (case mapped_param (pu_register_to_param u) [] (tl (in_operands i)) of
                      None \<Rightarrow> None | Some m \<Rightarrow> if m = [] then None else Some m))\<rparr>)"

definition scalar_roots :: "string list" where
  "scalar_roots = [''set'', ''setp'', ''bra'', ''call'', ''div'', ''rem'', ''mul'', ''mad'', ''fma'', ''max'',
     ''min'', ''neg'', ''not'', ''and'', ''or'', ''xor'', ''rcp'', ''selp'']"

definition track_value :: "PointerUse \<Rightarrow> string \<Rightarrow> PointerUse" where
  "track_value u operand =
     (let reg = extract_register_name operand in
      if extract_bracket_contents operand \<noteq> [] \<or> reg = [] then u
      else (case pu_register_to_param u reg of
              None \<Rightarrow> u | Some p \<Rightarrow> u\<lparr>pu_value_use := insert p (pu_value_use u)\<rparr>))"

definition track_scalar :: "Instruction \<Rightarrow> PointerUse \<Rightarrow> PointerUse" where
  "track_scalar i u =
     (let root = opcode_root (in_opcode i) in
      if List.member scalar_roots root
      then foldl track_value u
             (drop (if root = ''set'' \<or> root = ''setp'' then 1 else 0) (in_operands i))
      else u)"

definition track_use :: "string set \<Rightarrow> PointerUse \<Rightarrow> Instruction \<Rightarrow> PointerUse" where
  "track_use params u i =
     track_scalar i (track_copy i (track_memory params i (track_load params i u)))"

definition pointer_use :: "EntryFunction \<Rightarrow> PointerUse" where
  "pointer_use entry = foldl (track_use (set (map pa_name (ef_params entry))))
     \<lparr>pu_address_use = {}, pu_value_use = {}, pu_register_to_param = (\<lambda>r. None)\<rparr> (ef_instructions entry)"

definition infer_param :: "PointerUse \<Rightarrow> Parameter \<Rightarrow> Parameter" where
  "infer_param u p =
     (if \<not> is_64bit_param_type (pa_type p) \<or> pa_is_pointer p then p
      else if pa_name p \<in> pu_address_use u then p\<lparr>pa_is_pointer := True\<rparr>
      else if pa_name p \<in> pu_value_use u then p\<lparr>pa_is_pointer := False\<rparr>
      else p\<lparr>pa_is_pointer := True\<rparr>)"

definition infer_pointer_parameters :: "EntryFunction \<Rightarrow> EntryFunction" where
  "infer_pointer_parameters entry =
     entry\<lparr>ef_params := map (infer_param (pointer_use entry)) (ef_params entry)\<rparr>"

section \<open>Lines of a body\<close>

text \<open>\<open>std::getline\<close>: a text that ends in a newline has no empty last line.\<close>

function text_lines :: "string \<Rightarrow> string list" where
  "text_lines s =
     (if s = [] then []
      else let line = takeWhile (\<lambda>c. c \<noteq> CHR 0x0A) s in line # text_lines (drop (Suc (length line)) s))"
  by pat_completeness auto
termination
  by (relation "measure length") auto

declare text_lines.simps [simp del]

record BareRegister =
  br_name :: string
  br_renamed :: string
  br_depth :: nat

record LineState =
  ls_instructions :: "Instruction list"
  ls_declarations :: "RegisterDeclaration list"
  ls_warnings :: "string list"
  ls_skipping :: bool
  ls_branch_table :: "nat option"
  ls_bare :: "BareRegister list"
  ls_scope_depth :: nat
  ls_pending_opens :: nat
  ls_pending_closes :: nat

definition close_scope :: "LineState \<Rightarrow> LineState" where
  "close_scope st = (let d = ls_scope_depth st - 1 in
     st\<lparr>ls_scope_depth := d, ls_bare := filter (\<lambda>r. br_depth r \<le> d) (ls_bare st)\<rparr>)"

definition close_scopes :: "nat \<Rightarrow> LineState \<Rightarrow> LineState" where
  "close_scopes n st = (close_scope ^^ n) st"

definition push_instruction :: "Instruction \<Rightarrow> LineState \<Rightarrow> LineState" where
  "push_instruction i st = st\<lparr>ls_instructions := ls_instructions st @ [i]\<rparr>"

subsection \<open>Register declarations\<close>

definition register_prefix :: "string \<Rightarrow> string" where
  "register_prefix type =
     (if type = ''pred'' then ''%p_cm_''
      else if List.member [''b64'', ''u64'', ''s64''] type then ''%rd_cm_''
      else if type = ''f64'' then ''%fd_cm_''
      else if List.member [''b16'', ''u16'', ''s16'', ''f16'', ''b8'', ''u8'', ''s8''] type then ''%rs_cm_''
      else if type = ''f32'' then ''%f_cm_''
      else ''%r_cm_'')"

definition declare_register :: "string \<Rightarrow> LineState \<Rightarrow> string \<Rightarrow> LineState" where
  "declare_register type st name =
     (if name = [] \<or> find_char (CHR ''<'') name \<noteq> None then st
      else if hd name = CHR ''%''
      then st\<lparr>ls_declarations := ls_declarations st @ [\<lparr>rd_name = name, rd_type = type\<rparr>]\<rparr>
      else let renamed = register_prefix type @ name in
        st\<lparr>ls_bare := ls_bare st @ [\<lparr>br_name = name, br_renamed = renamed, br_depth = ls_scope_depth st\<rparr>],
           ls_declarations := ls_declarations st @ [\<lparr>rd_name = renamed, rd_type = type\<rparr>]\<rparr>)"

text \<open>The parts between commas, the text after the last comma included.\<close>

function comma_parts :: "string \<Rightarrow> string list" where
  "comma_parts s =
     (case find_char (CHR '','') s of
        None \<Rightarrow> [s]
      | Some n \<Rightarrow> take n s # comma_parts (drop (Suc n) s))"
  by pat_completeness auto
termination
  by (relation "measure length") (auto simp: find_char_def Let_def split: if_splits)

declare comma_parts.simps [simp del]

definition record_register_directive :: "string \<Rightarrow> LineState \<Rightarrow> LineState" where
  "record_register_directive txt st =
     (if \<not> starts_with txt ''.reg'' then st
      else case find_char (CHR ''.'') (drop 4 txt) of
        None \<Rightarrow> st
      | Some n \<Rightarrow>
          let tail = drop (4 + n + 1) txt;
              type = takeWhile (\<lambda>c. is_alnum c \<or> c = CHR ''_'') tail;
              names = takeWhile (\<lambda>c. c \<noteq> CHR '';'') (drop (length type) tail)
          in foldl (declare_register type) st (map trim (comma_parts names)))"

subsection \<open>Renaming of bare registers\<close>

definition word_before :: "char \<Rightarrow> bool" where
  "word_before c = (is_alnum c \<or> c = CHR ''_'' \<or> c = CHR ''%'' \<or> c = CHR ''$'' \<or> c = CHR ''.'')"

definition bare_at :: "string \<Rightarrow> BareRegister \<Rightarrow> bool" where
  "bare_at s r = (starts_with s (br_name r) \<and>
     (case drop (length (br_name r)) s of [] \<Rightarrow> True | c # _ \<Rightarrow> \<not> (is_alnum c \<or> c = CHR ''_'')))"

text \<open>
  The names are not empty (\<open>declare_register\<close>); \<open>before\<close> is the character in front of the text that
  is left.
\<close>

function rename_loop :: "BareRegister list \<Rightarrow> char \<Rightarrow> string \<Rightarrow> string" where
  "rename_loop regs before [] = []"
| "rename_loop regs before (c # s) =
     (case (if word_before before then None else find (bare_at (c # s)) regs) of
        None \<Rightarrow> c # rename_loop regs c s
      | Some r \<Rightarrow>
          br_renamed r @ rename_loop regs (last (c # take (length (br_name r) - 1) s))
                           (drop (length (br_name r) - 1) s))"
  by pat_completeness auto
termination
  by (relation "measure (\<lambda>(regs, before, s). length s)") auto

definition rename_bare_registers :: "BareRegister list \<Rightarrow> string \<Rightarrow> string" where
  "rename_bare_registers regs txt = (if regs = [] then txt else rename_loop regs (CHR 0x20) txt)"

subsection \<open>One line\<close>

text \<open>A line of an unfinished branch table: its commas and semicolons go, with white space between.\<close>

function strip_separators :: "string \<Rightarrow> string" where
  "strip_separators s =
     (if s \<noteq> [] \<and> (last s = CHR '','' \<or> last s = CHR '';'') then strip_separators (trim (butlast s)) else s)"
  by pat_completeness auto
termination
proof (relation "measure length", simp)
  fix s :: string
  assume "s \<noteq> [] \<and> (last s = CHR '','' \<or> last s = CHR '';'')"
  then have "length (butlast s) < length s" by (cases s rule: rev_cases) simp_all
  then show "(trim (butlast s), s) \<in> measure length"
    using length_trim [of "butlast s"] by simp
qed

declare strip_separators.simps [simp del]

definition branch_table_line :: "nat \<Rightarrow> string \<Rightarrow> LineState \<Rightarrow> LineState" where
  "branch_table_line k line st =
     (let entry = strip_separators line;
          st' = (if entry = [] then st
                 else st\<lparr>ls_instructions := (ls_instructions st)
                        [k := (ls_instructions st ! k)
                           \<lparr>in_operands := in_operands (ls_instructions st ! k) @ [entry]\<rparr>]\<rparr>)
      in if find_char (CHR '';'') line \<noteq> None then st'\<lparr>ls_branch_table := None\<rparr> else st')"

definition pending_scopes :: "LineState \<Rightarrow> LineState" where
  "pending_scopes st =
     (close_scopes (ls_pending_closes st) (st\<lparr>ls_scope_depth := ls_scope_depth st + ls_pending_opens st\<rparr>))
        \<lparr>ls_pending_opens := 0, ls_pending_closes := 0\<rparr>"

definition is_brace :: "char \<Rightarrow> bool" where
  "is_brace c = (c = CHR ''{'' \<or> c = CHR ''}'')"

definition strip_front :: "string \<times> LineState \<Rightarrow> string \<times> LineState" where
  "strip_front = (\<lambda>(line, st).
     if line \<noteq> [] \<and> is_brace (hd line)
     then (trim (tl line),
           if hd line = CHR ''{'' then st\<lparr>ls_scope_depth := ls_scope_depth st + 1\<rparr> else close_scopes 1 st)
     else (line, st))"

definition strip_back :: "string \<times> LineState \<Rightarrow> string \<times> LineState" where
  "strip_back = (\<lambda>(line, st).
     if line \<noteq> [] \<and> is_brace (last line)
     then (trim (butlast line),
           if last line = CHR ''{'' then st\<lparr>ls_pending_opens := ls_pending_opens st + 1\<rparr>
           else st\<lparr>ls_pending_closes := ls_pending_closes st + 1\<rparr>)
     else (line, st))"

text \<open>The body of the loop runs once more after each round that took a brace.\<close>

primrec strip_braces :: "nat \<Rightarrow> string \<times> LineState \<Rightarrow> string \<times> LineState" where
  "strip_braces 0 p = p"
| "strip_braces (Suc n) p =
     (let p' = strip_back (strip_front p)
      in if length (fst p') < length (fst p) then strip_braces n p' else p')"

text \<open>Leading directives; the flag says that the last of them is not finished on this line.\<close>

function leading_directives :: "string \<Rightarrow> LineState \<Rightarrow> string \<times> LineState" where
  "leading_directives line st =
     (if line = [] \<or> hd line \<noteq> CHR ''.'' then (line, st)
      else case find_char (CHR '';'') line of
        None \<Rightarrow> ([], st\<lparr>ls_skipping := True\<rparr>)
      | Some semi \<Rightarrow>
          leading_directives (trim (drop (semi + 1) line))
            (record_register_directive (take (semi + 1) line) st))"
  by pat_completeness auto
termination
proof (relation "measure (\<lambda>(line, st). length line)", simp)
  fix line :: string and st :: LineState and semi
  assume "find_char (CHR '';'') line = Some semi"
  then have "semi < length line" by (auto simp: find_char_def Let_def split: if_splits)
  then show "((trim (drop (semi + 1) line), record_register_directive (take (semi + 1) line) st), line, st)
      \<in> measure (\<lambda>(line, st). length line)"
    using length_trim [of "drop (semi + 1) line"] by simp
qed

declare leading_directives.simps [simp del]

definition is_location :: "string \<Rightarrow> bool" where
  "is_location line = (starts_with_any line [''.loc '', ''.file '', ''.pragma ''] \<or>
     line = ''.loc'' \<or> line = ''.file'' \<or> line = ''.pragma'')"

definition no_instruction :: Instruction where
  "no_instruction = \<lparr>in_predicate = [], in_opcode = [], in_operands = [], in_line = 0, in_supported = False\<rparr>"

definition is_blank :: "char \<Rightarrow> bool" where
  "is_blank c = (c = CHR 0x20 \<or> c = CHR 0x09)"

definition unsupported_warning :: "Instruction \<Rightarrow> string" where
  "unsupported_warning i =
     (let targeted = targeted_unsupported_message (in_opcode i)
      in if targeted \<noteq> [] then targeted
         else quoted_opcode (in_opcode i) @ '' at line '' @ show_int (in_line i))"

text \<open>An instruction without its semicolon and predicate.\<close>

definition decode_opcode :: "string \<Rightarrow> Instruction \<Rightarrow> Instruction" where
  "decode_opcode line i =
     (let i1 = (case find_first_of is_blank line of
                  None \<Rightarrow> i\<lparr>in_opcode := line\<rparr>
                | Some ws \<Rightarrow> i\<lparr>in_opcode := take ws line, in_operands := split_operands (drop (ws + 1) line)\<rparr>)
      in i1\<lparr>in_supported := \<not> is_explicitly_unsupported (in_opcode i1) \<and> is_supported_opcode (in_opcode i1)\<rparr>)"

definition opcode_line :: "string \<Rightarrow> Instruction \<Rightarrow> LineState \<Rightarrow> LineState" where
  "opcode_line line i st =
     (let i' = decode_opcode line i
      in push_instruction i' (if in_supported i' then st
           else st\<lparr>ls_warnings := ls_warnings st @ [unsupported_warning i']\<rparr>))"

definition instruction_line :: "int \<Rightarrow> string \<Rightarrow> LineState \<Rightarrow> LineState" where
  "instruction_line current_line line0 st =
     (let line = (if last line0 = CHR '';'' then trim (butlast line0) else line0);
          i = no_instruction\<lparr>in_line := current_line\<rparr>
      in if line = [] then st
         else if hd line = CHR ''@'' then
           (case find_first_of is_blank line of
              None \<Rightarrow> st
            | Some ws \<Rightarrow>
                let rest = trim (drop (ws + 1) line)
                in if rest = [] then st else opcode_line rest (i\<lparr>in_predicate := take ws line\<rparr>) st)
         else opcode_line line i st)"

definition statement_line :: "int \<Rightarrow> string \<Rightarrow> LineState \<Rightarrow> LineState" where
  "statement_line current_line line st =
     (if contains_sub line ''.callprototype'' \<or> contains_sub line ''.calltargets'' then st
      else case find_sub '': .branchtargets'' line of
        Some marker \<Rightarrow>
          let st' = push_instruction (no_instruction\<lparr>in_line := current_line, in_opcode := ''ptx.branchtargets'',
                      in_operands := [trim (take marker line)], in_supported := True\<rparr>) st
          in if find_char (CHR '';'') (drop marker line) = None
             then st'\<lparr>ls_branch_table := Some (length (ls_instructions st))\<rparr> else st'
      | None \<Rightarrow>
          if last line = CHR '':''
          then push_instruction (no_instruction\<lparr>in_line := current_line, in_opcode := ''ptx.label'',
                 in_operands := [trim (butlast line)], in_supported := True\<rparr>) st
          else instruction_line current_line line st)"

text \<open>The end of a declaration that went over several lines.\<close>

definition skip_directive :: "string \<Rightarrow> LineState \<Rightarrow> string \<times> LineState" where
  "skip_directive line st =
     (if ls_skipping st then
        (case find_char (CHR '';'') line of
           None \<Rightarrow> ([], st)
         | Some semi \<Rightarrow> (trim (drop (semi + 1) line), st\<lparr>ls_skipping := False\<rparr>))
      else (line, st))"

definition code_line :: "int \<Rightarrow> string \<Rightarrow> LineState \<Rightarrow> LineState" where
  "code_line current_line line0 st0 =
     (case strip_braces (length line0 + 1) (line0, pending_scopes st0) of (line1, st1) \<Rightarrow>
        if line1 = [] then st1
        else case skip_directive line1 st1 of (line2, st2) \<Rightarrow>
          if line2 = [] \<or> is_location line2 then st2
          else case leading_directives line2 st2 of (line3, st3) \<Rightarrow>
            if line3 = [] then st3
            else statement_line current_line (rename_bare_registers (ls_bare st3) line3) st3)"

definition parse_line :: "LineState \<Rightarrow> int \<times> string \<Rightarrow> LineState" where
  "parse_line st = (\<lambda>(current_line, raw_line).
     let line = trim raw_line in
     if line = [] then st
     else case ls_branch_table st of
       Some k \<Rightarrow> branch_table_line k line st
     | None \<Rightarrow> code_line current_line line st)"

definition initial_lines :: "EntryFunction \<Rightarrow> string list \<Rightarrow> LineState" where
  "initial_lines entry warnings = \<lparr>ls_instructions = ef_instructions entry,
     ls_declarations = ef_register_declarations entry, ls_warnings = warnings, ls_skipping = False,
     ls_branch_table = None, ls_bare = [], ls_scope_depth = 0, ls_pending_opens = 0,
     ls_pending_closes = 0\<rparr>"

definition numbered :: "int \<Rightarrow> string list \<Rightarrow> (int \<times> string) list" where
  "numbered start_line rows = zip (map (\<lambda>k. start_line + int k) [0..<length rows]) rows"

definition parse_instructions ::
  "string \<Rightarrow> int \<Rightarrow> EntryFunction \<Rightarrow> string list \<Rightarrow> EntryFunction \<times> string list" where
  "parse_instructions body start_line entry warnings =
     (let st = foldl parse_line (initial_lines entry warnings) (numbered start_line (text_lines body))
      in (entry\<lparr>ef_instructions := ls_instructions st, ef_register_declarations := ls_declarations st\<rparr>,
          ls_warnings st))"

definition new_entry :: "string \<Rightarrow> EntryFunction" where
  "new_entry name = \<lparr>ef_name = name, ef_params = [], ef_return_params = [], ef_instructions = [],
     ef_register_declarations = []\<rparr>"

definition parse_instruction_block ::
  "string \<Rightarrow> int \<Rightarrow> string list \<Rightarrow> EntryFunction \<times> string list" where
  "parse_instruction_block body start_line warnings =
     parse_instructions (strip_comments body) start_line (new_entry ''cm_inline_asm'') warnings"

section \<open>What a parsed block holds\<close>

text \<open>Every bare register has a name, and its new name starts with a percent sign.\<close>

definition bare_ok :: "LineState \<Rightarrow> bool" where
  "bare_ok st = list_all (\<lambda>r. br_name r \<noteq> [] \<and> br_renamed r \<noteq> [] \<and> hd (br_renamed r) = CHR ''%'') (ls_bare st)"

definition keeps_code :: "LineState \<Rightarrow> LineState \<Rightarrow> bool" where
  "keeps_code st st' \<longleftrightarrow> ls_instructions st' = ls_instructions st \<and> ls_warnings st' = ls_warnings st \<and>
     ls_branch_table st' = ls_branch_table st \<and> (bare_ok st \<longrightarrow> bare_ok st')"

named_theorems keeps

lemma keeps_refl [keeps]: "keeps_code st st"
  by (simp add: keeps_code_def)

lemma keeps_trans [trans]: "keeps_code a b \<Longrightarrow> keeps_code b c \<Longrightarrow> keeps_code a c"
  by (simp add: keeps_code_def)

lemma keeps_update [keeps]:
  "keeps_code st (st\<lparr>ls_skipping := b\<rparr>)" "keeps_code st (st\<lparr>ls_scope_depth := n\<rparr>)"
  "keeps_code st (st\<lparr>ls_pending_opens := n\<rparr>)" "keeps_code st (st\<lparr>ls_pending_closes := n\<rparr>)"
  by (simp_all add: keeps_code_def bare_ok_def)

lemma keeps_close_scope [keeps]: "keeps_code st (close_scope st)"
  by (auto simp: keeps_code_def bare_ok_def close_scope_def Let_def list_all_iff)

lemma keeps_close_scopes [keeps]: "keeps_code st (close_scopes n st)"
  unfolding close_scopes_def
  by (induction n) (auto intro: keeps_refl keeps_trans keeps_close_scope)

lemma keeps_pending_scopes [keeps]: "keeps_code st (pending_scopes st)"
  using keeps_close_scopes [of "st\<lparr>ls_scope_depth := ls_scope_depth st + ls_pending_opens st\<rparr>" "ls_pending_closes st"]
  by (simp add: pending_scopes_def keeps_code_def bare_ok_def)

lemma keeps_strip_braces: "keeps_code (snd p) (snd (strip_braces n p))"
proof (induction n arbitrary: p)
  case 0
  then show ?case by (simp add: keeps_refl)
next
  case (Suc n)
  have "keeps_code (snd p) (snd (strip_front p))"
    by (cases p) (auto simp: strip_front_def intro: keeps)
  also have "keeps_code (snd (strip_front p)) (snd (strip_back (strip_front p)))"
    by (cases "strip_front p") (auto simp: strip_back_def intro: keeps)
  finally have step: "keeps_code (snd p) (snd (strip_back (strip_front p)))" .
  with keeps_trans [OF this Suc.IH [of "strip_back (strip_front p)"]] show ?case
    by (simp add: Let_def)
qed

lemma declare_register_keeps: "trimmed name \<Longrightarrow> keeps_code st (declare_register type st name)"
  by (auto simp: declare_register_def keeps_code_def bare_ok_def Let_def register_prefix_def)

lemma record_register_keeps [keeps]: "keeps_code st (record_register_directive txt st)"
proof -
  have fold: "keeps_code s (foldl (declare_register type) s (map trim xs))" for type s xs
  proof (induction xs arbitrary: s)
    case (Cons x xs)
    have "keeps_code s (declare_register type s (trim x))" by (rule declare_register_keeps) simp
    from keeps_trans [OF this Cons.IH] show ?case by simp
  qed (simp add: keeps_refl)
  show ?thesis
    by (auto simp: record_register_directive_def Let_def keeps_refl fold split: option.split)
qed

lemma leading_directives_keeps:
  "trimmed line \<Longrightarrow> leading_directives line st = (line', st') \<Longrightarrow> keeps_code st st' \<and> trimmed line'"
proof (induction line st rule: leading_directives.induct)
  case (1 line st)
  show ?case
  proof (cases "line = [] \<or> hd line \<noteq> CHR ''.''")
    case True
    then show ?thesis using "1.prems" by (subst (asm) leading_directives.simps) (auto simp: keeps_refl)
  next
    case False
    show ?thesis
    proof (cases "find_char (CHR '';'') line")
      case None
      then show ?thesis using "1.prems" False
        by (subst (asm) leading_directives.simps) (auto intro: keeps simp: trimmed_def)
    next
      case (Some semi)
      have "leading_directives (trim (drop (semi + 1) line))
          (record_register_directive (take (semi + 1) line) st) = (line', st')"
        using "1.prems"(2) False Some by (subst (asm) leading_directives.simps) simp
      from "1.IH" [OF False Some trimmed_trim this] keeps_trans [OF record_register_keeps]
      show ?thesis by blast
    qed
  qed
qed

lemma strip_braces_trimmed: "trimmed (fst p) \<Longrightarrow> trimmed (fst (strip_braces n p))"
  by (induction n arbitrary: p) (auto simp: strip_front_def strip_back_def Let_def split: prod.split)

lemma rename_hd:
  assumes "list_all (\<lambda>r. br_name r \<noteq> [] \<and> br_renamed r \<noteq> [] \<and> hd (br_renamed r) = CHR ''%'') regs" "line \<noteq> []"
  shows "rename_bare_registers regs line \<noteq> [] \<and>
    (hd (rename_bare_registers regs line) = hd line \<or> hd (rename_bare_registers regs line) = CHR ''%'')"
proof (cases line)
  case (Cons c s)
  show ?thesis
  proof (cases "find (bare_at (c # s)) regs")
    case None
    then show ?thesis using Cons by (simp add: rename_bare_registers_def)
  next
    case (Some r)
    then have "r \<in> set regs" by (auto simp: find_Some_iff)
    then have "br_renamed r \<noteq> []" "hd (br_renamed r) = CHR ''%''" using assms(1) by (auto simp: list_all_iff)
    then show ?thesis using Some Cons by (simp add: rename_bare_registers_def word_before_def is_alnum_def
          is_alpha_char_def is_digit_char_def)
  qed
qed (use assms(2) in simp)

subsection \<open>Instructions and warnings\<close>

definition instruction_ok :: "Instruction \<Rightarrow> bool" where
  "instruction_ok i = (in_opcode i \<noteq> [] \<and>
     (if in_supported i
      then in_opcode i = ''ptx.label'' \<or> in_opcode i = ''ptx.branchtargets'' \<or>
           is_supported_opcode (in_opcode i) \<and> \<not> is_explicitly_unsupported (in_opcode i)
      else is_explicitly_unsupported (in_opcode i) \<or> \<not> is_supported_opcode (in_opcode i)))"

definition warnings_of :: "Instruction list \<Rightarrow> string list" where
  "warnings_of is = map unsupported_warning (filter (\<lambda>i. \<not> in_supported i) is)"

definition code_ok :: "int \<Rightarrow> string list \<Rightarrow> int \<Rightarrow> LineState \<Rightarrow> bool" where
  "code_ok start warnings next_line st \<longleftrightarrow>
     ls_warnings st = warnings @ warnings_of (ls_instructions st) \<and>
     list_all instruction_ok (ls_instructions st) \<and>
     list_all (\<lambda>i. start \<le> in_line i \<and> in_line i < next_line) (ls_instructions st) \<and>
     sorted_wrt (<) (map in_line (ls_instructions st)) \<and> bare_ok st \<and>
     (\<forall>k. ls_branch_table st = Some k \<longrightarrow> k < length (ls_instructions st) \<and> in_supported (ls_instructions st ! k))"

lemma code_ok_keeps: "code_ok start ws n st \<Longrightarrow> keeps_code st st' \<Longrightarrow> code_ok start ws n st'"
  by (simp add: code_ok_def keeps_code_def)

lemma code_ok_mono: "code_ok start ws n st \<Longrightarrow> n \<le> m \<Longrightarrow> code_ok start ws m st"
  by (auto simp: code_ok_def list_all_iff)

lemma code_ok_push:
  assumes "code_ok start ws n st" "start \<le> n" "in_line i = n" "instruction_ok i"
  shows "code_ok start ws (n + 1) (push_instruction i
    (if in_supported i then st else st\<lparr>ls_warnings := ls_warnings st @ [unsupported_warning i]\<rparr>))"
  using assms
  by (auto simp: code_ok_def push_instruction_def warnings_of_def list_all_iff sorted_wrt_append bare_ok_def
      nth_append)

lemma instruction_ok_synthetic:
  "instruction_ok (no_instruction\<lparr>in_line := n, in_opcode := ''ptx.label'', in_operands := ops, in_supported := True\<rparr>)"
  "instruction_ok (no_instruction\<lparr>in_line := n, in_opcode := ''ptx.branchtargets'', in_operands := ops, in_supported := True\<rparr>)"
  by (simp_all add: instruction_ok_def)

lemma first_blank: "find_first_of is_blank line = Some ws \<Longrightarrow> line \<noteq> [] \<Longrightarrow> \<not> is_space (hd line) \<Longrightarrow> take ws line \<noteq> []"
  by (cases line) (auto simp: find_first_of_def Let_def is_blank_def is_space_def split: if_splits)

lemma opcode_line_ok:
  assumes "code_ok start ws n st" "start \<le> n" "in_line i = n" "line \<noteq> []" "\<not> is_space (hd line)"
  shows "code_ok start ws (n + 1) (opcode_line line i st)"
proof -
  let ?j = "decode_opcode line i"
  have "in_line ?j = n" "instruction_ok ?j"
    using assms(3,4) first_blank [OF _ assms(4,5)]
    by (auto simp: decode_opcode_def Let_def instruction_ok_def split: option.split)
  from code_ok_push [OF assms(1,2) this] show ?thesis by (simp only: opcode_line_def Let_def)
qed

lemma instruction_line_ok:
  assumes ok: "code_ok start ws n st" "start \<le> n" and line: "line0 \<noteq> []" "\<not> is_space (hd line0)"
  shows "code_ok start ws (n + 1) (instruction_line n line0 st)"
proof -
  let ?line = "if last line0 = CHR '';'' then trim (butlast line0) else line0"
  have hd: "\<not> is_space (hd ?line)" if "?line \<noteq> []"
    using that line trimmed_trim [of "butlast line0"] by (simp add: trimmed_def split: if_splits)
  have same: "code_ok start ws (n + 1) st" by (rule code_ok_mono [OF ok(1)]) simp
  consider "?line = []" | "?line \<noteq> []" "hd ?line = CHR ''@''" | "?line \<noteq> []" "hd ?line \<noteq> CHR ''@''" by blast
  then show ?thesis
  proof cases
    case 1
    then show ?thesis using same by (simp add: instruction_line_def Let_def)
  next
    case 2
    show ?thesis
    proof (cases "find_first_of is_blank ?line")
      case None
      then show ?thesis using 2 same by (simp add: instruction_line_def Let_def)
    next
      case (Some k)
      let ?rest = "trim (drop (k + 1) ?line)"
      have "code_ok start ws (n + 1) (opcode_line ?rest (no_instruction\<lparr>in_line := n, in_predicate := take k ?line\<rparr>) st)"
        if "?rest \<noteq> []"
        using that trimmed_trim [of "drop (k + 1) ?line"] ok
        by (intro opcode_line_ok) (simp_all add: trimmed_def)
      then show ?thesis using 2 Some same unfolding instruction_line_def Let_def by simp
    qed
  next
    case 3
    have "code_ok start ws (n + 1) (opcode_line ?line (no_instruction\<lparr>in_line := n\<rparr>) st)"
      using 3 hd ok by (intro opcode_line_ok) simp_all
    then show ?thesis using 3 unfolding instruction_line_def Let_def by simp
  qed
qed

lemma statement_line_ok:
  assumes ok: "code_ok start ws n st" "start \<le> n" and line: "line \<noteq> []" "\<not> is_space (hd line)"
  shows "code_ok start ws (n + 1) (statement_line n line st)"
proof -
  have same: "code_ok start ws (n + 1) st" by (rule code_ok_mono [OF ok(1)]) simp
  let ?label = "no_instruction\<lparr>in_line := n, in_opcode := ''ptx.label'', in_operands := [trim (butlast line)],
    in_supported := True\<rparr>"
  have label: "code_ok start ws (n + 1) (push_instruction ?label st)"
    using code_ok_push [OF ok, of ?label] instruction_ok_synthetic(1) by simp
  have table: "code_ok start ws (n + 1) (push_instruction (no_instruction\<lparr>in_line := n,
      in_opcode := ''ptx.branchtargets'', in_operands := ops, in_supported := True\<rparr>) st)" for ops
    using code_ok_push [OF ok, of "no_instruction\<lparr>in_line := n, in_opcode := ''ptx.branchtargets'',
      in_operands := ops, in_supported := True\<rparr>"] instruction_ok_synthetic(2) by simp
  have open_table: "code_ok start ws (n + 1) ((push_instruction i st)\<lparr>ls_branch_table := Some (length (ls_instructions st))\<rparr>)"
    if "code_ok start ws (n + 1) (push_instruction i st)" "in_supported i" for i
    using that by (simp add: code_ok_def push_instruction_def bare_ok_def)
  show ?thesis
    using same label table open_table [OF table] instruction_line_ok [OF ok line]
    by (simp add: statement_line_def Let_def split: option.split)
qed

lemma code_line_ok:
  assumes ok: "code_ok start ws n st" "start \<le> n" and line: "trimmed line"
  shows "code_ok start ws (n + 1) (code_line n line st)"
proof -
  obtain line1 st1 where s1: "strip_braces (length line + 1) (line, pending_scopes st) = (line1, st1)" by fastforce
  have k1: "keeps_code st st1"
    using keeps_trans [OF keeps_pending_scopes keeps_strip_braces [of "(line, pending_scopes st)" "length line + 1", simplified]]
      s1 by simp
  have t1: "trimmed line1" using strip_braces_trimmed [of "(line, pending_scopes st)" "length line + 1"] line s1 by simp
  obtain line2 st2 where s2: "skip_directive line1 st1 = (line2, st2)" by fastforce
  have k2: "keeps_code st1 st2" "trimmed line2"
    using s2 t1 by (auto simp: skip_directive_def intro: keeps split: if_splits option.splits)
  obtain line3 st3 where s3: "leading_directives line2 st2 = (line3, st3)" by fastforce
  have k3: "keeps_code st2 st3" "trimmed line3" using leading_directives_keeps [OF k2(2) s3] by simp_all
  have c1: "code_ok start ws n st1" by (rule code_ok_keeps [OF ok(1) k1])
  have c2: "code_ok start ws n st2" by (rule code_ok_keeps [OF c1 k2(1)])
  have c3: "code_ok start ws n st3" by (rule code_ok_keeps [OF c2 k3(1)])
  have up: "code_ok start ws (n + 1) s" if "code_ok start ws n s" for s by (rule code_ok_mono [OF that]) simp
  have code: "code_ok start ws (n + 1) (statement_line n (rename_bare_registers (ls_bare st3) line3) st3)"
    if "line3 \<noteq> []"
  proof (rule statement_line_ok [OF c3 ok(2)])
    let ?r = "rename_bare_registers (ls_bare st3) line3"
    have "list_all (\<lambda>r. br_name r \<noteq> [] \<and> br_renamed r \<noteq> [] \<and> hd (br_renamed r) = CHR ''%'') (ls_bare st3)"
      using c3 by (simp add: code_ok_def bare_ok_def)
    from rename_hd [OF this that]
    have "?r \<noteq> []" "hd ?r = hd line3 \<or> hd ?r = CHR ''%''" by blast+
    then show "?r \<noteq> []" "\<not> is_space (hd ?r)" using k3(2) that by (auto simp: trimmed_def is_space_def)
  qed
  show ?thesis
    using up [OF c1] up [OF c2] up [OF c3] code unfolding code_line_def s1 by (simp add: s2 s3)
qed

lemma branch_table_line_ok:
  assumes "code_ok start ws n st" "ls_branch_table st = Some k"
  shows "code_ok start ws (n + 1) (branch_table_line k line st)"
proof -
  let ?is = "ls_instructions st"
  let ?i = "(?is ! k)\<lparr>in_operands := ops\<rparr>" 
  have k: "k < length ?is" "in_supported (?is ! k)" using assms by (simp_all add: code_ok_def)
  have upd: "warnings_of (?is[k := (?is ! k)\<lparr>in_operands := ops\<rparr>]) = warnings_of ?is"
    "list_all instruction_ok (?is[k := (?is ! k)\<lparr>in_operands := ops\<rparr>]) = list_all instruction_ok ?is"
    "map in_line (?is[k := (?is ! k)\<lparr>in_operands := ops\<rparr>]) = map in_line ?is" for ops
  proof -
    let ?i = "(?is ! k)\<lparr>in_operands := ops\<rparr>"
    have split: "?is = take k ?is @ ?is ! k # drop (Suc k) ?is" using k(1) by (rule id_take_nth_drop)
    have new: "?is[k := ?i] = take k ?is @ ?i # drop (Suc k) ?is" using k(1) by (rule upd_conv_take_nth_drop)
    have "instruction_ok ?i = instruction_ok (?is ! k)" by (simp add: instruction_ok_def)
    then show "warnings_of (?is[k := ?i]) = warnings_of ?is" "map in_line (?is[k := ?i]) = map in_line ?is"
      "list_all instruction_ok (?is[k := ?i]) = list_all instruction_ok ?is"
      using k(2) by (subst (2) split, subst new, simp add: warnings_of_def)+
  qed
  have lines: "list_all (\<lambda>i. start \<le> in_line i \<and> in_line i < n) xs =
      list_all (\<lambda>l. start \<le> l \<and> l < n) (map in_line xs)" for xs by (simp add: list_all_iff)
  have "code_ok start ws n (branch_table_line k line st)"
    using assms unfolding code_ok_def lines
    by (auto simp: branch_table_line_def Let_def upd bare_ok_def)
  then show ?thesis by (rule code_ok_mono) simp
qed

lemma parse_line_ok:
  assumes "code_ok start ws n st" "start \<le> n"
  shows "code_ok start ws (n + 1) (parse_line st (n, line))"
proof -
  have "code_ok start ws (n + 1) st" by (rule code_ok_mono [OF assms(1)]) simp
  then show ?thesis
    using branch_table_line_ok [OF assms(1)] code_line_ok [OF assms trimmed_trim]
    by (simp add: parse_line_def Let_def split: option.split)
qed

lemma foldl_lines_ok:
  "code_ok start ws n st \<Longrightarrow> start \<le> n \<Longrightarrow>
   code_ok start ws (n + int (length rows)) (foldl parse_line st (zip (map (\<lambda>k. n + int k) [0..<length rows]) rows))"
proof (induction rows arbitrary: n st)
  case (Cons row rows)
  have "map (\<lambda>k. n + int k) [0..<length (row # rows)] = n # map (\<lambda>k. (n + 1) + int k) [0..<length rows]"
    by (simp add: upt_rec [of 0] map_Suc_upt [symmetric] del: upt_Suc)
  moreover have "code_ok start ws (n + 1 + int (length rows)) (foldl parse_line (parse_line st (n, row))
      (zip (map (\<lambda>k. (n + 1) + int k) [0..<length rows]) rows))"
    using Cons.prems by (intro Cons.IH parse_line_ok) simp_all
  ultimately show ?case by (simp add: algebra_simps del: upt_Suc)
qed simp

lemma parse_instructions_ok:
  assumes "parse_instructions body start entry warnings = (e, ws)" "ef_instructions entry = []"
  shows "ws = warnings @ warnings_of (ef_instructions e) \<and> list_all instruction_ok (ef_instructions e) \<and>
    list_all (\<lambda>i. start \<le> in_line i \<and> in_line i < start + int (length (text_lines body))) (ef_instructions e) \<and>
    sorted_wrt (<) (map in_line (ef_instructions e))"
proof -
  have "code_ok start warnings start (initial_lines entry warnings)"
    using assms(2) by (simp add: code_ok_def initial_lines_def warnings_of_def bare_ok_def)
  from foldl_lines_ok [OF this order_refl, of "text_lines body"] assms show ?thesis
    by (auto simp: parse_instructions_def numbered_def Let_def code_ok_def)
qed

lemma text_lines_length: "length (text_lines s) \<le> length s"
proof (induction s rule: text_lines.induct)
  case (1 s)
  show ?case
  proof (cases "s = []")
    case False
    let ?line = "takeWhile (\<lambda>c. c \<noteq> CHR 0x0A) s"
    have "length (text_lines (drop (Suc (length ?line)) s)) \<le> length (drop (Suc (length ?line)) s)"
      using "1.IH" False by simp
    moreover have "0 < length s" using False by simp
    ultimately have "Suc (length (text_lines (drop (Suc (length ?line)) s))) \<le> length s"
      unfolding length_drop by linarith
    then show ?thesis using False by (subst text_lines.simps) (simp add: Let_def)
  qed (subst text_lines.simps, simp)
qed

lemma ascending_length:
  assumes "sorted_wrt (<) (map f xs)" "list_all (\<lambda>x. a \<le> f x \<and> f x < a + int n) xs"
  shows "length xs \<le> n"
proof -
  have "card (f ` set xs) \<le> card {a..<a + int n}"
    using assms(2) by (intro card_mono) (auto simp: list_all_iff)
  moreover have "card (f ` set xs) = length xs"
    using distinct_card [of "map f xs"] strict_sorted_iff [of "map f xs"] assms(1) by simp
  ultimately show ?thesis by simp
qed

lemma parse_instructions_count:
  assumes "parse_instructions body start entry warnings = (e, ws)" "ef_instructions entry = []"
  shows "length (ef_instructions e) \<le> length body"
  using parse_instructions_ok [OF assms] ascending_length [of in_line "ef_instructions e" start]
    text_lines_length [of body] order_trans by blast

text \<open>
  C18: the line parser of instruction blocks.  The warnings it adds are exactly those of the
  unsupported instructions, one each and in their order; an instruction is supported only if it is
  a label, a branch table or has an opcode of the supported list that is not excluded, and
  unsupported only otherwise; opcodes are never empty; every instruction has a line of its own,
  in ascending order and within the lines of the text without its comments.
\<close>

theorem parse_instruction_block_correct:
  "case parse_instruction_block body start warnings of (e, ws) \<Rightarrow>
     ws = warnings @ warnings_of (ef_instructions e) \<and> list_all instruction_ok (ef_instructions e) \<and>
     list_all (\<lambda>i. start \<le> in_line i \<and> in_line i < start + int (length (text_lines (strip_comments body))))
       (ef_instructions e) \<and>
     sorted_wrt (<) (map in_line (ef_instructions e))"
proof (cases "parse_instruction_block body start warnings")
  case (Pair e ws)
  with parse_instructions_ok [of "strip_comments body" start "new_entry ''cm_inline_asm''" warnings e ws] show ?thesis
    by (simp add: parse_instruction_block_def new_entry_def)
qed

end
