(* ===== verification/Regex.thy ===== *)
theory Regex
  imports PtxText
begin

text \<open>
  The part of \<open>std::regex\<close> (ECMAScript grammar) that the PTX front end uses: classes of characters,
  sequences, greedy and lazy repetition, optional parts and capture groups.  A match is found by
  backtracking, so the results of a pattern at a position are listed in the order in which the
  matcher tries them; the first one that lets the rest match is the one it reports.
\<close>

section \<open>Patterns and their matches\<close>

datatype rx =
    Chars bool string
  | Spaces
  | Seq rx rx
  | Eps
  | Opt rx
  | Star bool rx
  | Group nat rx

type_synonym captures = "(nat \<times> string) list"

text \<open>\<open>Chars True cs\<close> is one character of \<open>cs\<close>, \<open>Chars False cs\<close> one that is not in \<open>cs\<close>.\<close>

definition class_match :: "(char \<Rightarrow> bool) \<Rightarrow> string \<Rightarrow> captures \<Rightarrow> (string \<times> captures) list" where
  "class_match P s caps = (case s of [] \<Rightarrow> [] | c # r \<Rightarrow> if P c then [(r, caps)] else [])"

text \<open>A round of a repetition that matches nothing is not taken; the number bounds the rounds.\<close>

fun star_match :: "(string \<Rightarrow> captures \<Rightarrow> (string \<times> captures) list) \<Rightarrow> bool \<Rightarrow> nat \<Rightarrow> string \<Rightarrow> captures \<Rightarrow>
    (string \<times> captures) list" where
  "star_match f greedy 0 s caps = [(s, caps)]"
| "star_match f greedy (Suc n) s caps =
     (let more = concat (map (\<lambda>(r, c). if length r < length s then star_match f greedy n r c else []) (f s caps))
      in if greedy then more @ [(s, caps)] else (s, caps) # more)"

primrec matches :: "rx \<Rightarrow> string \<Rightarrow> captures \<Rightarrow> (string \<times> captures) list" where
  "matches (Chars pos cs) s caps = class_match (\<lambda>c. (c \<in> set cs) = pos) s caps"
| "matches Spaces s caps = class_match is_space s caps"
| "matches (Seq a b) s caps = concat (map (\<lambda>(r, c). matches b r c) (matches a s caps))"
| "matches Eps s caps = [(s, caps)]"
| "matches (Opt a) s caps = matches a s caps @ [(s, caps)]"
| "matches (Star greedy a) s caps = star_match (matches a) greedy (length s) s caps"
| "matches (Group k a) s caps =
     map (\<lambda>(r, c). (r, (k, take (length s - length r) s) # c)) (matches a s caps)"

text \<open>What is left is a suffix of the text.\<close>

lemma star_match_suffix:
  assumes f: "\<And>s caps r c. (r, c) \<in> set (f s caps) \<Longrightarrow> suffix r s"
  shows "(r, c) \<in> set (star_match f g n s caps) \<Longrightarrow> suffix r s"
proof (induction n arbitrary: s caps)
  case (Suc n)
  then consider "r = s" | r' c' where "(r', c') \<in> set (f s caps)" "(r, c) \<in> set (star_match f g n r' c')"
    by (auto simp: Let_def split: if_splits)
  then show ?case
  proof cases
    case 2
    then show ?thesis using Suc.IH f suffix_order.trans by blast
  qed simp
qed simp

lemma matches_suffix: "(r, c) \<in> set (matches p s caps) \<Longrightarrow> suffix r s"
proof (induction p arbitrary: s caps r c)
  case (Seq a b)
  from Seq.prems obtain r' c' where "(r', c') \<in> set (matches a s caps)" "(r, c) \<in> set (matches b r' c')"
    by auto
  then show ?case using Seq.IH suffix_order.trans by blast
next
  case (Star g a)
  from Star.prems star_match_suffix [of "matches a" r c g "length s" s caps] Star.IH show ?case by simp
qed (auto simp: class_match_def split: list.splits if_splits intro: suffix_ConsI)

section \<open>Search\<close>

text \<open>\<open>regex_search\<close>: the leftmost position with a match; where it is, its length, its captures.\<close>

fun search :: "rx \<Rightarrow> nat \<Rightarrow> string \<Rightarrow> (nat \<times> nat \<times> captures) option" where
  "search p pos s =
     (case matches p s [] of
        (r, c) # _ \<Rightarrow> Some (pos, length s - length r, c)
      | [] \<Rightarrow> (case s of [] \<Rightarrow> None | _ # t \<Rightarrow> search p (Suc pos) t))"

declare search.simps [simp del]

text \<open>A group that took no part in the match is the empty text.\<close>

definition capture :: "captures \<Rightarrow> nat \<Rightarrow> string" where
  "capture c k = (case map_of c k of None \<Rightarrow> [] | Some s \<Rightarrow> s)"

lemma search_in_text:
  "search p pos s = Some (i, n, c) \<Longrightarrow> pos \<le> i \<and> i - pos + n \<le> length s"
proof (induction p pos s arbitrary: rule: search.induct)
  case (1 p pos s)
  show ?case
  proof (cases "matches p s []")
    case (Cons m ms)
    obtain r d where m: "m = (r, d)" by fastforce
    have "suffix r s" using matches_suffix [of r d p s "[]"] Cons m by simp
    then show ?thesis using "1.prems" Cons m
      by (subst (asm) search.simps) (auto dest: suffix_length_le)
  next
    case Nil
    then obtain a t where "s = a # t" "search p (Suc pos) t = Some (i, n, c)"
      using "1.prems" by (subst (asm) search.simps) (auto split: list.splits)
    with "1.IH" [OF Nil, of a t] show ?thesis by auto
  qed
qed

text \<open>
  \<open>sregex_iterator\<close>: the next search starts where the last match ended.  The patterns of the
  front end match no empty text; the iteration ends if one would.
\<close>

function search_all :: "rx \<Rightarrow> nat \<Rightarrow> string \<Rightarrow> (nat \<times> nat \<times> captures) list" where
  "search_all p pos s =
     (case search p pos s of
        None \<Rightarrow> []
      | Some (i, n, c) \<Rightarrow>
          (i, n, c) # (if n = 0 then [] else search_all p (i + n) (drop (i - pos + n) s)))"
  by pat_completeness auto
termination
proof (relation "measure (\<lambda>(p, pos, s). length s)", simp)
  fix p :: rx and pos s t u and i n :: nat and c :: captures
  assume "search p pos s = Some t" "(i, u) = t" "(n, c) = u" "n \<noteq> 0"
  with search_in_text [of p pos s i n c] have "pos \<le> i" "i - pos + n \<le> length s" "0 < n" by auto
  then show "((p, i + n, drop (i - pos + n) s), p, pos, s) \<in> measure (\<lambda>(p, pos, s). length s)" by simp
qed

declare search_all.simps [simp del]

section \<open>Building patterns\<close>

definition Lit :: "string \<Rightarrow> rx" where
  "Lit s = foldr (\<lambda>c r. Seq (Chars True [c]) r) s Eps"

definition Plus :: "rx \<Rightarrow> rx" where
  "Plus r = Seq r (Star True r)"

definition chars_between :: "nat \<Rightarrow> nat \<Rightarrow> string" where
  "chars_between a b = map char_of [a..<Suc b]"

definition letters :: string where
  "letters = chars_between 65 90 @ chars_between 97 122"

definition digits :: string where
  "digits = chars_between 48 57"

end
