(* ===== verification/PtxModule.thy ===== *)
theory PtxModule
  imports PtxLines Regex
begin

text \<open>
  \<open>parse_ptx\<close> of \<open>compiler/ptx/src/parser.cpp\<close>: the version, the target, the entries and the device
  functions of a PTX module.  The outer \<open>None\<close> is the undefined behaviour of a signed overflow.
\<close>

section \<open>Patterns\<close>

definition version_regex :: rx where
  "version_regex = Seq (Lit ''.version'') (Seq (Plus Spaces) (Seq (Group 1 (Plus (Chars True digits)))
     (Seq (Lit ''.'') (Group 2 (Plus (Chars True digits))))))"

definition target_regex :: rx where
  "target_regex = Seq (Lit ''.target'') (Seq (Plus Spaces)
     (Group 1 (Plus (Chars True (letters @ digits @ ''_.'')))))"

definition name_regex :: rx where
  "name_regex = Seq (Chars True (letters @ ''_.$'')) (Star True (Chars True (letters @ digits @ ''_.$'')))"

text \<open>The text up to a closing parenthesis, as short as possible.\<close>

definition blob_regex :: rx where
  "blob_regex = Star False (Chars False '';{}'')"

text \<open>Directives between the parameters and the body.\<close>

definition directives_regex :: rx where
  "directives_regex = Star True (Seq (Lit ''.'')
     (Seq (Star True (Chars False (CHR 0x0A # ''{};''))) (Star True Spaces)))"

definition entry_regex :: rx where
  "entry_regex = Seq (Lit ''.entry'') (Seq (Plus Spaces) (Seq (Group 1 name_regex) (Seq (Star True Spaces)
     (Seq (Lit ''('') (Seq (Group 2 blob_regex) (Seq (Lit '')'') (Seq (Star True Spaces)
     (Seq directives_regex (Lit ''{'')))))))))"

definition param_decl_regex :: rx where
  "param_decl_regex = Seq (Lit ''.param'') (Seq (Plus Spaces)
     (Group 1 (Plus (Chars False ('','' @ [CHR 0x0A] @ '')'')))))"

definition function_regex :: rx where
  "function_regex = Seq (Lit ''.func'') (Seq (Plus Spaces)
     (Seq (Opt (Seq (Lit ''('') (Seq (Star True Spaces) (Seq (Group 1 blob_regex) (Seq (Lit '')'') (Plus Spaces))))))
     (Seq (Group 2 name_regex) (Seq (Star True Spaces) (Seq (Lit ''('') (Seq (Group 3 blob_regex) (Seq (Lit '')'')
     (Seq (Star True Spaces) (Seq directives_regex (Lit ''{''))))))))))"

section \<open>Numbers and words\<close>

definition int_max :: nat where
  "int_max = 2147483647"

text \<open>\<open>parse_number\<close> writes nothing when the token is not a number, so the old value stays.\<close>

definition parse_number :: "string \<Rightarrow> int \<Rightarrow> int option" where
  "parse_number token old =
     (if token = [] \<or> \<not> list_all is_digit_char token then Some old
      else if int_max < parse_nat_acc 0 token then None else Some (int (parse_nat_acc 0 token)))"

text \<open>\<open>std::stoull\<close>, and \<open>std::stoul\<close> of a 64-bit platform; \<open>None\<close> is an exception.\<close>

definition std_stoull :: "string \<Rightarrow> u64 option" where
  "std_stoull s =
     (let t = dropWhile is_space s;
          negative = (t \<noteq> [] \<and> hd t = CHR ''-'');
          u = (if t \<noteq> [] \<and> (hd t = CHR ''-'' \<or> hd t = CHR ''+'') then tl t else t);
          ds = takeWhile is_digit_char u; v = parse_nat_acc 0 ds
      in if ds = [] \<or> 18446744073709551616 \<le> v then None
         else Some (if negative then - of_nat v else of_nat v))"

function split_tokens_ws :: "string \<Rightarrow> string list" where
  "split_tokens_ws s =
     (let t = dropWhile is_space s in
      if t = [] then []
      else takeWhile (\<lambda>c. \<not> is_space c) t # split_tokens_ws (dropWhile (\<lambda>c. \<not> is_space c) t))"
  by pat_completeness auto
termination
proof (relation "measure length", simp)
  fix s t :: string
  assume t: "t = dropWhile is_space s" "t \<noteq> []"
  then have "\<not> is_space (hd t)" using hd_dropWhile_not [of is_space s] by simp
  then have "length (dropWhile (\<lambda>c. \<not> is_space c) t) < length t"
    using t(2) by (cases t) (auto simp: le_imp_less_Suc length_dropWhile_le)
  then show "(dropWhile (\<lambda>c. \<not> is_space c) t, s) \<in> measure length"
    using t(1) length_dropWhile_le [of is_space s] by simp
qed

declare split_tokens_ws.simps [simp del]

definition is_ptx_type_token :: "string \<Rightarrow> bool" where
  "is_ptx_type_token token = (2 \<le> length token \<and> hd token = CHR ''.'' \<and>
     \<not> List.member [''.param'', ''.ptr'', ''.align''] token)"

section \<open>Parameters\<close>

definition stoull_or :: "u64 \<Rightarrow> (u64 \<Rightarrow> u64) \<Rightarrow> string \<Rightarrow> u64" where
  "stoull_or fallback f s = (case std_stoull s of None \<Rightarrow> fallback | Some v \<Rightarrow> f v)"

fun token_alignment :: "u64 \<Rightarrow> string list \<Rightarrow> u64" where
  "token_alignment a (t # u # rest) =
     token_alignment (if t = ''.align'' then stoull_or 1 (max 1) u else a) (u # rest)"
| "token_alignment a ts = a"

definition token_type :: "string list \<Rightarrow> string" where
  "token_type tokens = (case find is_ptx_type_token tokens of None \<Rightarrow> ''.u32'' | Some t \<Rightarrow> t)"

definition scalar_bytes :: "string \<Rightarrow> u64" where
  "scalar_bytes type =
     (if 3 \<le> length type then stoull_or 4 (\<lambda>v. max 1 (v div 8)) (drop 2 type) else 4)"

definition param_byte_size :: "bool \<Rightarrow> u64 \<Rightarrow> string \<Rightarrow> u64" where
  "param_byte_size is_pointer scalar raw_name =
     (let plain = (if is_pointer then 8 else scalar) in
      case find_char (CHR ''['') raw_name of
        None \<Rightarrow> plain
      | Some open_at \<Rightarrow>
          (case find_char (CHR '']'') (drop (open_at + 1) raw_name) of
             None \<Rightarrow> plain
           | Some n \<Rightarrow> stoull_or scalar (\<lambda>v. scalar * v) (take n (drop (open_at + 1) raw_name))))"

definition parse_parameter :: "string \<Rightarrow> Parameter list" where
  "parse_parameter decl =
     (let tokens = split_tokens_ws decl in
      if decl = [] \<or> tokens = [] then []
      else let type = token_type tokens;
               is_pointer = List.member tokens ''.ptr'';
               name = sanitize_param_name (last tokens)
           in if name = [] then []
              else [\<lparr>pa_type = type, pa_name = name, pa_is_pointer = is_pointer,
                     pa_byte_size = param_byte_size is_pointer (scalar_bytes type) (last tokens),
                     pa_alignment = token_alignment 1 tokens\<rparr>])"

definition parse_parameters :: "string \<Rightarrow> Parameter list" where
  "parse_parameters params_blob =
     concat (map (\<lambda>(i, n, c). parse_parameter (trim (capture c 1))) (search_all param_decl_regex 0 params_blob))"

section \<open>Modules\<close>

record ModuleInfo =
  mo_version_major :: int
  mo_version_minor :: int
  mo_target :: string
  mo_entries :: "EntryFunction list"
  mo_functions :: "EntryFunction list"

record ParseResult =
  pr_ok :: bool
  pr_module :: ModuleInfo
  pr_warnings :: "string list"
  pr_error :: string

definition count_line_number_at_offset :: "string \<Rightarrow> nat \<Rightarrow> int" where
  "count_line_number_at_offset txt offset = 1 + int (count_list (take offset txt) (CHR 0x0A))"

definition quote_name :: "string \<Rightarrow> string" where
  "quote_name s = CHR 0x27 # s @ [CHR 0x27]"

definition push_entry :: "EntryFunction \<Rightarrow> string list \<Rightarrow> ParseResult \<Rightarrow> ParseResult" where
  "push_entry e ws r = r\<lparr>pr_module := (pr_module r)\<lparr>mo_entries := mo_entries (pr_module r) @ [e]\<rparr>,
     pr_warnings := ws\<rparr>"

definition push_function :: "EntryFunction \<Rightarrow> ParseResult \<Rightarrow> ParseResult" where
  "push_function f r = r\<lparr>pr_module := (pr_module r)\<lparr>mo_functions := mo_functions (pr_module r) @ [f]\<rparr>\<rparr>"

definition open_brace_of :: "nat \<Rightarrow> nat \<Rightarrow> nat" where
  "open_brace_of i n = i + n - 1"

definition entry_header :: "captures \<Rightarrow> EntryFunction" where
  "entry_header c = (new_entry (capture c 1))\<lparr>ef_params := parse_parameters (capture c 2)\<rparr>"

definition function_header :: "captures \<Rightarrow> EntryFunction" where
  "function_header c = (new_entry (capture c 2))\<lparr>ef_return_params := parse_parameters (capture c 1),
     ef_params := parse_parameters (capture c 3)\<rparr>"

text \<open>
  A match of the function pattern that runs over a semicolon began at a declaration without a body.
\<close>

definition is_declaration :: "string \<Rightarrow> nat \<Rightarrow> nat \<Rightarrow> bool" where
  "is_declaration source i n =
     (case find_from '';'' source i of None \<Rightarrow> False | Some semi \<Rightarrow> semi < open_brace_of i n)"

text \<open>Both loops return early with an error; \<open>Inl\<close> is the result they return then.\<close>

primrec parse_entries ::
  "string \<Rightarrow> (nat \<times> nat \<times> captures) list \<Rightarrow> ParseResult \<Rightarrow> ParseResult + ParseResult" where
  "parse_entries source [] r = Inr r"
| "parse_entries source (m # ms) r =
     (case m of (i, n, c) \<Rightarrow>
        case extract_balanced_body source (open_brace_of i n) of
          None \<Rightarrow> Inl (r\<lparr>pr_error := ''malformed entry body for '' @ quote_name (ef_name (entry_header c))\<rparr>)
        | Some (body, body_start, body_end) \<Rightarrow>
            (case parse_instructions body (count_line_number_at_offset source body_start) (entry_header c)
                    (pr_warnings r) of
               (e, ws) \<Rightarrow> parse_entries source ms (push_entry (infer_pointer_parameters e) ws r)))"

primrec parse_functions ::
  "string \<Rightarrow> (nat \<times> nat \<times> captures) list \<Rightarrow> ParseResult \<Rightarrow> ParseResult + ParseResult" where
  "parse_functions source [] r = Inr r"
| "parse_functions source (m # ms) r =
     (case m of (i, n, c) \<Rightarrow>
        if is_declaration source i n then parse_functions source ms r
        else case extract_balanced_body source (open_brace_of i n) of
          None \<Rightarrow> Inl (r\<lparr>pr_error := ''malformed device function body for '' @
                         quote_name (ef_name (function_header c))\<rparr>)
        | Some (body, body_start, body_end) \<Rightarrow>
            (case parse_instructions body (count_line_number_at_offset source body_start) (function_header c) [] of
               (f, ws) \<Rightarrow> parse_functions source ms (push_function (infer_pointer_parameters f) r)))"

definition parse_version :: "string \<Rightarrow> (int \<times> int) option" where
  "parse_version source =
     (case search version_regex 0 source of
        None \<Rightarrow> Some (-1, -1)
      | Some (i, n, c) \<Rightarrow> do {
          major \<leftarrow> parse_number (capture c 1) (-1);
          minor \<leftarrow> parse_number (capture c 2) (-1);
          Some (major, minor)
        })"

definition finish_parse :: "bool \<Rightarrow> ParseResult \<Rightarrow> ParseResult" where
  "finish_parse strict r =
     (if mo_entries (pr_module r) = [] then r\<lparr>pr_error := ''no .entry definitions found''\<rparr>
      else if strict \<and> pr_warnings r \<noteq> [] then r\<lparr>pr_error := hd (pr_warnings r)\<rparr>
      else r\<lparr>pr_ok := True\<rparr>)"

definition initial_result :: "int \<times> int \<Rightarrow> string \<Rightarrow> ParseResult" where
  "initial_result v target = \<lparr>pr_ok = False, pr_module = \<lparr>mo_version_major = fst v, mo_version_minor = snd v,
     mo_target = target, mo_entries = [], mo_functions = []\<rparr>, pr_warnings = [], pr_error = []\<rparr>"

definition parse_target :: "string \<Rightarrow> string" where
  "parse_target source = (case search target_regex 0 source of None \<Rightarrow> [] | Some (i, n, c) \<Rightarrow> capture c 1)"

definition parse_module :: "string \<Rightarrow> bool \<Rightarrow> ParseResult \<Rightarrow> ParseResult" where
  "parse_module source strict r =
     (case parse_entries source (search_all entry_regex 0 source) r of
        Inl r1 \<Rightarrow> r1
      | Inr r1 \<Rightarrow>
          (case parse_functions source (search_all function_regex 0 source) r1 of
             Inl r2 \<Rightarrow> r2
           | Inr r2 \<Rightarrow> finish_parse strict r2))"

definition parse_ptx :: "string \<Rightarrow> bool \<Rightarrow> ParseResult option" where
  "parse_ptx txt strict =
     (let source = strip_comments txt in
      map_option (\<lambda>v. parse_module source strict (initial_result v (parse_target source))) (parse_version source))"

section \<open>What a parsed module holds\<close>

definition entry_ok :: "EntryFunction \<Rightarrow> bool" where
  "entry_ok e = (list_all instruction_ok (ef_instructions e) \<and> sorted_wrt (<) (map in_line (ef_instructions e)))"

definition module_code_ok :: "ParseResult \<Rightarrow> bool" where
  "module_code_ok r = (list_all entry_ok (mo_entries (pr_module r)) \<and> list_all entry_ok (mo_functions (pr_module r)) \<and>
     pr_warnings r = concat (map (\<lambda>e. warnings_of (ef_instructions e)) (mo_entries (pr_module r))))"

definition parse_result_ok :: "bool \<Rightarrow> ParseResult \<Rightarrow> bool" where
  "parse_result_ok strict r = (module_code_ok r \<and>
     (if pr_ok r
      then pr_error r = [] \<and> mo_entries (pr_module r) \<noteq> [] \<and>
           (if strict then list_all (\<lambda>e. list_all in_supported (ef_instructions e)) (mo_entries (pr_module r)) else True)
      else pr_error r \<noteq> []))"

lemma infer_pointer_parameters_code [simp]:
  "ef_instructions (infer_pointer_parameters e) = ef_instructions e"
  "ef_name (infer_pointer_parameters e) = ef_name e"
  by (simp_all add: infer_pointer_parameters_def)

lemma parse_instructions_entry:
  assumes "parse_instructions body start entry warnings = (e, ws)" "ef_instructions entry = []"
  shows "ws = warnings @ warnings_of (ef_instructions e)" "entry_ok (infer_pointer_parameters e)"
  using parse_instructions_ok [OF assms] by (simp_all add: entry_ok_def)

lemma unsupported_warning_nonempty: "unsupported_warning i \<noteq> []" "[] \<noteq> unsupported_warning i"
  by (simp_all add: unsupported_warning_def quoted_opcode_def Let_def)

lemma parse_entries_ok:
  "module_code_ok r \<Longrightarrow> \<not> pr_ok r \<Longrightarrow> pr_error r = [] \<Longrightarrow>
   (case parse_entries source ms r of
      Inl r' \<Rightarrow> module_code_ok r' \<and> \<not> pr_ok r' \<and> pr_error r' \<noteq> []
    | Inr r' \<Rightarrow> module_code_ok r' \<and> \<not> pr_ok r' \<and> pr_error r' = [])"
proof (induction ms arbitrary: r)
  case (Cons m ms)
  obtain i n c where m: "m = (i, n, c)" by (cases m) auto
  let ?entry = "entry_header c"
  show ?case
  proof (cases "extract_balanced_body source (open_brace_of i n)")
    case None
    then show ?thesis using Cons.prems by (simp add: m Let_def module_code_ok_def)
  next
    case (Some b)
    obtain body s f where b: "b = (body, s, f)" by (cases b) auto
    obtain e ws where e: "parse_instructions body (count_line_number_at_offset source s) ?entry (pr_warnings r) = (e, ws)"
      by fastforce
    have "ef_instructions ?entry = []" by (simp add: new_entry_def entry_header_def function_header_def)
    from parse_instructions_entry [OF e this] Cons.prems
    have "module_code_ok (push_entry (infer_pointer_parameters e) ws r)"
      by (simp add: module_code_ok_def push_entry_def)
    from Cons.IH [OF this] Cons.prems show ?thesis
      by (simp add: m Some b e Let_def push_entry_def)
  qed
qed simp

lemma parse_functions_ok:
  "module_code_ok r \<Longrightarrow> \<not> pr_ok r \<Longrightarrow> pr_error r = [] \<Longrightarrow>
   (case parse_functions source ms r of
      Inl r' \<Rightarrow> module_code_ok r' \<and> \<not> pr_ok r' \<and> pr_error r' \<noteq> []
    | Inr r' \<Rightarrow> module_code_ok r' \<and> \<not> pr_ok r' \<and> pr_error r' = [])"
proof (induction ms arbitrary: r)
  case (Cons m ms)
  obtain i n c where m: "m = (i, n, c)" by (cases m) auto
  let ?f0 = "function_header c" and ?declared = "is_declaration source i n"
  show ?case
  proof (cases ?declared)
    case True
    then show ?thesis using Cons.IH [OF Cons.prems] by (simp add: m Let_def)
  next
    case False
    show ?thesis
    proof (cases "extract_balanced_body source (open_brace_of i n)")
      case None
      then show ?thesis using Cons.prems False by (simp add: m Let_def module_code_ok_def)
    next
      case (Some b)
      obtain body s f where b: "b = (body, s, f)" by (cases b) auto
      obtain e ws where e: "parse_instructions body (count_line_number_at_offset source s) ?f0 [] = (e, ws)"
        by fastforce
      have "ef_instructions ?f0 = []" by (simp add: new_entry_def entry_header_def function_header_def)
      from parse_instructions_entry [OF e this] Cons.prems
      have "module_code_ok (push_function (infer_pointer_parameters e) r)"
        by (simp add: module_code_ok_def push_function_def)
      from Cons.IH [OF this] Cons.prems False show ?thesis
        by (simp add: m Some b e Let_def push_function_def)
    qed
  qed
qed simp

lemma finish_parse_ok:
  assumes "module_code_ok r" "\<not> pr_ok r" "pr_error r = []"
  shows "parse_result_ok strict (finish_parse strict r)"
proof -
  have w: "pr_warnings r \<noteq> [] \<Longrightarrow> hd (pr_warnings r) \<noteq> []"
  proof -
    assume "pr_warnings r \<noteq> []"
    then have "hd (pr_warnings r) \<in> set (pr_warnings r)" by simp
    moreover have "w \<noteq> []" if "w \<in> set (pr_warnings r)" for w
      using that assms(1) unsupported_warning_nonempty by (auto simp: module_code_ok_def warnings_of_def)
    ultimately show ?thesis by blast
  qed
  have none: "list_all (\<lambda>e. list_all in_supported (ef_instructions e)) (mo_entries (pr_module r))"
    if "pr_warnings r = []"
    using that assms(1) by (auto simp: module_code_ok_def warnings_of_def list_all_iff filter_empty_conv)
  have "module_code_ok (finish_parse strict r)"
    using assms(1) by (simp add: finish_parse_def module_code_ok_def)
  then show ?thesis using assms w none by (auto simp: finish_parse_def parse_result_ok_def)
qed

lemma parse_module_ok: "parse_result_ok strict (parse_module source strict (initial_result v target))"
proof -
  let ?r = "initial_result v target"
  have r: "module_code_ok ?r" "\<not> pr_ok ?r" "pr_error ?r = []"
    by (simp_all add: initial_result_def module_code_ok_def)
  show ?thesis
  proof (cases "parse_entries source (search_all entry_regex 0 source) ?r")
    case (Inl r1)
    then show ?thesis using parse_entries_ok [OF r, of source "search_all entry_regex 0 source"]
      by (simp add: parse_module_def parse_result_ok_def)
  next
    case (Inr r1)
    then have r1: "module_code_ok r1" "\<not> pr_ok r1" "pr_error r1 = []"
      using parse_entries_ok [OF r, of source "search_all entry_regex 0 source"] by simp_all
    show ?thesis
    proof (cases "parse_functions source (search_all function_regex 0 source) r1")
      case Inl
      then show ?thesis using Inr parse_functions_ok [OF r1, of source "search_all function_regex 0 source"]
        by (simp add: parse_module_def parse_result_ok_def)
    next
      case (Inr r2)
      then show ?thesis using \<open>parse_entries _ _ _ = Inr r1\<close>
          parse_functions_ok [OF r1, of source "search_all function_regex 0 source"]
        by (simp add: parse_module_def finish_parse_ok)
    qed
  qed
qed

text \<open>No entry has more instructions than its module has characters.\<close>

definition entries_short :: "string \<Rightarrow> ParseResult \<Rightarrow> bool" where
  "entries_short source r = list_all (\<lambda>e. length (ef_instructions e) \<le> length source) (mo_entries (pr_module r))"

lemma parse_entries_short:
  "entries_short source r \<Longrightarrow>
   (case parse_entries source ms r of Inl r' \<Rightarrow> entries_short source r' | Inr r' \<Rightarrow> entries_short source r')"
proof (induction ms arbitrary: r)
  case (Cons m ms)
  obtain i n c where m: "m = (i, n, c)" by (cases m) auto
  show ?case
  proof (cases "extract_balanced_body source (open_brace_of i n)")
    case None
    then show ?thesis using Cons.prems by (simp add: m entries_short_def)
  next
    case (Some b)
    obtain body s f where b: "b = (body, s, f)" by (cases b) auto
    obtain e ws where e: "parse_instructions body (count_line_number_at_offset source s) (entry_header c) (pr_warnings r) = (e, ws)"
      by fastforce
    have "length body \<le> length source"
      using Some b by (auto simp: extract_balanced_body_def Let_def split: if_splits)
    then have "length (ef_instructions e) \<le> length source"
      using parse_instructions_count [OF e] by (simp add: entry_header_def new_entry_def)
    then have "entries_short source (push_entry (infer_pointer_parameters e) ws r)"
      using Cons.prems by (simp add: entries_short_def push_entry_def)
    from Cons.IH [OF this] show ?thesis by (simp add: m Some b e)
  qed
qed simp

lemma parse_functions_short:
  "entries_short source r \<Longrightarrow>
   (case parse_functions source ms r of Inl r' \<Rightarrow> entries_short source r' | Inr r' \<Rightarrow> entries_short source r')"
  by (induction ms arbitrary: r) (auto simp: entries_short_def push_function_def split: option.split prod.split)

lemma strip_loop_length: "length (strip_loop st s) \<le> length s"
proof (induction st s rule: strip_loop.induct)
  case (3 c s)
  then show ?case by (cases s) auto
next
  case (4 c s)
  then show ?case by (cases s) auto
qed auto

lemma parse_ptx_short:
  assumes "parse_ptx txt strict = Some r" "e \<in> set (mo_entries (pr_module r))"
  shows "length (ef_instructions e) \<le> length txt"
proof -
  let ?source = "strip_comments txt"
  obtain v where r: "r = parse_module ?source strict (initial_result v (parse_target ?source))"
    using assms(1) by (auto simp: parse_ptx_def Let_def)
  have i: "entries_short ?source (initial_result v (parse_target ?source))"
    by (simp add: entries_short_def initial_result_def)
  have finish: "entries_short ?source (finish_parse strict q) = entries_short ?source q" for q
    by (simp add: finish_parse_def entries_short_def)
  have "entries_short ?source r"
  proof (cases "parse_entries ?source (search_all entry_regex 0 ?source) (initial_result v (parse_target ?source))")
    case (Inl r1)
    then show ?thesis using parse_entries_short [OF i, of "search_all entry_regex 0 ?source"]
      by (simp add: r parse_module_def)
  next
    case (Inr r1)
    then have "entries_short ?source r1"
      using parse_entries_short [OF i, of "search_all entry_regex 0 ?source"] by simp
    from parse_functions_short [OF this, of "search_all function_regex 0 ?source"] Inr show ?thesis
      by (simp add: r parse_module_def finish split: sum.splits)
  qed
  then have "length (ef_instructions e) \<le> length ?source" using assms(2) by (simp add: entries_short_def list_all_iff)
  then show ?thesis using strip_loop_length [of kNormal "txt"] by (simp add: strip_comments_def)
qed

text \<open>The number of a \<open>.version\<close> directive does not fit an \<open>int\<close>.\<close>

definition version_overflows :: "string \<Rightarrow> bool" where
  "version_overflows source =
     (case search version_regex 0 source of
        None \<Rightarrow> False
      | Some (i, n, c) \<Rightarrow> int_max < parse_nat_acc 0 (capture c 1) \<and> list_all is_digit_char (capture c 1) \<or>
                       int_max < parse_nat_acc 0 (capture c 2) \<and> list_all is_digit_char (capture c 2))"

lemma parse_version_None: "parse_version source = None \<longleftrightarrow> version_overflows source"
  by (auto simp: parse_version_def version_overflows_def parse_number_def int_max_def bind_eq_None_conv
      split: option.split if_splits)

text \<open>
  C19: \<open>parse_ptx\<close> has a defined result unless a version number overflows.  An accepted module has
  an entry and no error, a rejected one has an error; the warnings are those of the unsupported
  instructions of the entries in their order (those of device functions are dropped); a module
  accepted in strict mode has only supported instructions in its entries; and every instruction of
  an entry or a device function is well formed, with ascending lines.
\<close>

theorem parse_ptx_correct:
  "case parse_ptx txt strict of
     None \<Rightarrow> version_overflows (strip_comments txt)
   | Some r \<Rightarrow> parse_result_ok strict r \<and> \<not> version_overflows (strip_comments txt)"
  using parse_module_ok parse_version_None [of "strip_comments txt"]
  by (auto simp: parse_ptx_def Let_def split: option.split)

end
