(* ===== verification/PtxPasses.thy ===== *)
theory PtxPasses
  imports PtxModule
begin

text \<open>
  Passes over a parsed entry: \<open>compiler/passes/src/addrspace.cpp\<close>, \<open>metadata.cpp\<close> and
  \<open>threadgroup_tiling.cpp\<close>.
\<close>

section \<open>Address spaces\<close>

record AddrspaceInstruction =
  ai_opcode :: string
  ai_operands :: "string list"
  ai_address_space :: nat
  ai_rewritten :: bool

record AddrspaceRewriteResult =
  ar_ok :: bool
  ar_instructions :: "AddrspaceInstruction list"
  ar_warnings :: "string list"
  ar_error :: string

definition has_address_space_token :: "string \<Rightarrow> bool" where
  "has_address_space_token opcode = list_ex (contains_sub opcode) [''.shared'', ''.global'', ''.local'', ''.const'']"

text \<open>The branches set the opcode and the space; \<open>rewritten\<close> is set to true after all of them.\<close>

definition rewritten_as :: "Instruction \<Rightarrow> string \<Rightarrow> nat \<Rightarrow> AddrspaceInstruction option" where
  "rewritten_as i opcode space =
     Some \<lparr>ai_opcode = opcode, ai_operands = in_operands i, ai_address_space = space, ai_rewritten = True\<rparr>"

definition rewrite_load_store :: "Instruction \<Rightarrow> AddrspaceInstruction option" where
  "rewrite_load_store i =
     (let op = in_opcode i;
          is_load = starts_with op ''ld.''; is_store = starts_with op ''st.''; is_atomic = starts_with op ''atom.''
      in if is_load \<and> contains_sub op ''.shared'' then rewritten_as i ''llvm.load'' 3
         else if is_load \<and> contains_sub op ''.global'' then rewritten_as i ''llvm.load'' 1
         else if is_load \<and> contains_sub op ''.local'' then rewritten_as i ''llvm.load'' 5
         else if is_store \<and> contains_sub op ''.shared'' then rewritten_as i ''llvm.store'' 3
         else if is_store \<and> contains_sub op ''.global'' then rewritten_as i ''llvm.store'' 1
         else if is_store \<and> contains_sub op ''.local'' then rewritten_as i ''llvm.store'' 5
         else if is_atomic \<and> contains_sub op ''.shared'' then rewritten_as i ''llvm.atomicrmw'' 3
         else if is_atomic \<and> contains_sub op ''.global'' then rewritten_as i ''llvm.atomicrmw'' 1
         else if is_load \<and> contains_sub op ''.const'' then rewritten_as i ''llvm.load'' 2
         else if starts_with op ''cp.async'' then rewritten_as i op 1
         else if starts_with op ''isspacep'' then rewritten_as i op 0
         else if starts_with op ''prefetch'' \<or> starts_with op ''prefetchu'' then rewritten_as i op 0
         else if starts_with op ''red.global'' then rewritten_as i op 1
         else if starts_with op ''red.shared'' then rewritten_as i op 3
         else None)"

definition rewrite_cvta :: "Instruction \<Rightarrow> AddrspaceInstruction option" where
  "rewrite_cvta i =
     (let op = in_opcode i
      in if starts_with op ''cvta.to.shared'' then rewritten_as i ''llvm.addrspacecast.to.as3'' 3
         else if starts_with op ''cvta.to.global'' then rewritten_as i ''llvm.addrspacecast.to.as1'' 1
         else if starts_with op ''cvta.to.local'' then rewritten_as i ''llvm.addrspacecast.to.as5'' 5
         else if starts_with_any op [''cvta.global'', ''cvta.shared'', ''cvta.local'', ''cvta.const'']
         then rewritten_as i op 0
         else None)"

definition rewrite_instruction :: "Instruction \<Rightarrow> AddrspaceInstruction option" where
  "rewrite_instruction i =
     (case rewrite_load_store i of Some a \<Rightarrow> Some a | None \<Rightarrow> rewrite_cvta i)"

definition unmapped_instruction :: "Instruction \<Rightarrow> AddrspaceInstruction" where
  "unmapped_instruction i =
     \<lparr>ai_opcode = in_opcode i, ai_operands = in_operands i, ai_address_space = 0, ai_rewritten = False\<rparr>"

definition addrspace_step :: "AddrspaceRewriteResult \<Rightarrow> Instruction \<Rightarrow> AddrspaceRewriteResult" where
  "addrspace_step r i =
     (case rewrite_instruction i of
        Some a \<Rightarrow> r\<lparr>ar_instructions := ar_instructions r @ [a]\<rparr>
      | None \<Rightarrow> r\<lparr>ar_instructions := ar_instructions r @ [unmapped_instruction i],
                  ar_warnings := ar_warnings r @
                    (if has_address_space_token (in_opcode i)
                     then [''addrspace: no rewrite rule for opcode '' @ quote_name (in_opcode i)] else [])\<rparr>)"

definition rewrite_addrspace :: "EntryFunction \<Rightarrow> bool \<Rightarrow> AddrspaceRewriteResult" where
  "rewrite_addrspace entry strict =
     (let r = foldl addrspace_step \<lparr>ar_ok = False, ar_instructions = [], ar_warnings = [], ar_error = []\<rparr>
                (ef_instructions entry)
      in if strict \<and> ar_warnings r \<noteq> [] then r\<lparr>ar_error := hd (ar_warnings r)\<rparr> else r\<lparr>ar_ok := True\<rparr>)"

text \<open>The AIR number of the space a token names.\<close>

definition space_number :: "string \<Rightarrow> nat option" where
  "space_number token = map_of [(''.global'', 1), (''.const'', 2), (''.shared'', 3), (''.local'', 5)] token"

lemma foldl_addrspace:
  "foldl addrspace_step r is = r\<lparr>
     ar_instructions := ar_instructions r @ map (\<lambda>i. case rewrite_instruction i of Some a \<Rightarrow> a | None \<Rightarrow> unmapped_instruction i) is,
     ar_warnings := ar_warnings r @ map (\<lambda>i. ''addrspace: no rewrite rule for opcode '' @ quote_name (in_opcode i))
       (filter (\<lambda>i. rewrite_instruction i = None \<and> has_address_space_token (in_opcode i)) is)\<rparr>"
  by (induction "is" arbitrary: r) (simp_all add: addrspace_step_def split: option.split)

text \<open>
  What the pass makes of an instruction, by the tables of the kinds of access with the spaces each of them knows and
  of the spaces that have a cast.
\<close>

definition access_table :: "(string \<times> string \<times> string list) list" where
  "access_table = [(''ld.'', ''llvm.load'', [''.shared'', ''.global'', ''.local'', ''.const'']),
     (''st.'', ''llvm.store'', [''.shared'', ''.global'', ''.local'']),
     (''atom.'', ''llvm.atomicrmw'', [''.shared'', ''.global''])]"

definition cast_tokens :: "string list" where
  "cast_tokens = [''.shared'', ''.global'', ''.local'']"

definition moved_to :: "string \<Rightarrow> string \<Rightarrow> AddrspaceInstruction \<Rightarrow> bool" where
  "moved_to token opcode a \<longleftrightarrow> ai_rewritten a \<and> ai_opcode a = opcode \<and> space_number token = Some (ai_address_space a)"

definition addrspace_image :: "Instruction \<Rightarrow> AddrspaceInstruction \<Rightarrow> bool" where
  "addrspace_image i a \<longleftrightarrow> ai_operands a = in_operands i \<and>
     (case find (\<lambda>k. starts_with (in_opcode i) (fst k)) access_table of
        Some (_, name, tokens) \<Rightarrow>
          (case find (contains_sub (in_opcode i)) tokens of
             Some token \<Rightarrow> moved_to token name a
           | None \<Rightarrow> a = unmapped_instruction i)
      | None \<Rightarrow>
          (case find (\<lambda>token. starts_with (in_opcode i) (''cvta.to'' @ token)) cast_tokens of
             Some token \<Rightarrow> moved_to token (''llvm.addrspacecast.to.as'' @ show_nat (ai_address_space a)) a
           | None \<Rightarrow> ai_opcode a = in_opcode i \<and>
               ai_address_space a = (if starts_with_any (in_opcode i) [''cp.async'', ''red.global''] then 1
                 else if starts_with (in_opcode i) ''red.shared'' then 3 else 0)))"

text \<open>The warning of an instruction that names a space and was not rewritten.\<close>

definition addrspace_warnings :: "Instruction \<Rightarrow> AddrspaceInstruction \<Rightarrow> string list" where
  "addrspace_warnings i a = (if \<not> ai_rewritten a \<and> has_address_space_token (in_opcode i)
     then [''addrspace: no rewrite rule for opcode '' @ quote_name (in_opcode i)] else [])"

lemma starts_with_append: "starts_with s (a @ b) \<Longrightarrow> starts_with s a"
  by (auto simp: starts_with_iff_prefix prefix_def)

lemma starts_with_conflict: "starts_with s a \<Longrightarrow> starts_with s b \<Longrightarrow> prefix a b \<or> prefix b a"
  unfolding starts_with_iff_prefix using prefix_same_cases by blast

lemma space_numbers:
  "space_number ''.shared'' = Some 3" "space_number ''.global'' = Some 1"
  "space_number ''.local'' = Some 5" "space_number ''.const'' = Some 2"
  by (simp_all add: space_number_def)

lemma cast_numbers: "show_nat 1 = ''1''" "show_nat 3 = ''3''" "show_nat 5 = ''5''"
  by code_simp+

text \<open>An opcode starts like at most one of the rules.\<close>

lemma opcode_starts_excl:
  assumes "starts_with op a" "\<not> prefix a b" "\<not> prefix b a"
  shows "\<not> starts_with op b"
  using assms starts_with_conflict by blast

definition rule_names :: "string list" where
  "rule_names = [''ld.'', ''st.'', ''atom.'', ''cp.async'', ''isspacep'', ''prefetch'', ''red.global'', ''red.shared'',
     ''cvta.to.shared'', ''cvta.to.global'', ''cvta.to.local'', ''cvta.global'', ''cvta.shared'', ''cvta.local'', ''cvta.const'']"

lemma rule_excl:
  assumes "starts_with op a" "a \<in> set rule_names" "b \<in> set rule_names" "a \<noteq> b"
  shows "\<not> starts_with op b"
proof -
  have "\<forall>a\<in>set rule_names. \<forall>b\<in>set rule_names. a \<noteq> b \<longrightarrow> \<not> prefix a b"
    by (simp add: rule_names_def)
  then show ?thesis using assms opcode_starts_excl by metis
qed

lemma prefetchu: "starts_with op ''prefetchu'' \<Longrightarrow> starts_with op ''prefetch''"
  using starts_with_append[of op "''prefetch''" "''u''"] by simp

lemma rule_only:
  assumes "starts_with op a" "a \<in> set rule_names"
  shows "\<forall>b\<in>set rule_names. starts_with op b = (b = a)"
  using assms rule_excl by blast

lemmas image_defs = addrspace_image_def rewrite_instruction_def rewrite_load_store_def rewrite_cvta_def rewritten_as_def
  unmapped_instruction_def access_table_def cast_tokens_def moved_to_def space_numbers starts_with_any_def Let_def

lemma addrspace_image_step:
  "addrspace_image i (case rewrite_instruction i of Some a \<Rightarrow> a | None \<Rightarrow> unmapped_instruction i)"
proof (cases "\<exists>a\<in>set rule_names. starts_with (in_opcode i) a")
  case True
  then obtain a where a: "a \<in> set rule_names" "\<forall>b\<in>set rule_names. starts_with (in_opcode i) b = (b = a)"
    using rule_only by blast
  have pu: "starts_with (in_opcode i) ''prefetchu'' \<longrightarrow> starts_with (in_opcode i) ''prefetch''" using prefetchu by blast
  from a(1) have "a = ''ld.'' \<or> a = ''st.'' \<or> a = ''atom.'' \<or> a \<in> set (drop 3 rule_names)"
    by (auto simp: rule_names_def)
  then show ?thesis
  proof (elim disjE)
    assume "a = ''ld.''"
    with a(2) pu show ?thesis by (simp add: rule_names_def image_defs)
  next
    assume "a = ''st.''"
    with a(2) pu show ?thesis by (simp add: rule_names_def image_defs)
  next
    assume "a = ''atom.''"
    with a(2) pu show ?thesis by (simp add: rule_names_def image_defs)
  next
    assume "a \<in> set (drop 3 rule_names)"
    then have "a = ''cp.async'' \<or> a = ''isspacep'' \<or> a = ''prefetch'' \<or> a = ''red.global'' \<or> a = ''red.shared'' \<or>
        a = ''cvta.to.shared'' \<or> a = ''cvta.to.global'' \<or> a = ''cvta.to.local'' \<or> a = ''cvta.global'' \<or>
        a = ''cvta.shared'' \<or> a = ''cvta.local'' \<or> a = ''cvta.const''" by (simp add: rule_names_def)
    then show ?thesis using a(2) pu
      by (elim disjE) (simp_all add: rule_names_def image_defs cast_numbers[unfolded One_nat_def])
  qed
next
  case False
  moreover have "starts_with (in_opcode i) ''prefetchu'' \<longrightarrow> starts_with (in_opcode i) ''prefetch''" using prefetchu by blast
  ultimately show ?thesis by (simp add: rule_names_def image_defs)
qed

lemma pred_option_if: "pred_option P x \<Longrightarrow> pred_option P y \<Longrightarrow> pred_option P (if c then x else y)"
  by simp

lemma load_store_flag: "pred_option ai_rewritten (rewrite_load_store i)" and cvta_flag: "pred_option ai_rewritten (rewrite_cvta i)"
  unfolding rewrite_load_store_def rewrite_cvta_def Let_def by (intro pred_option_if; simp add: rewritten_as_def)+

lemma rewritten_flag: "rewrite_instruction i = Some a \<Longrightarrow> ai_rewritten a"
  unfolding rewrite_instruction_def using load_store_flag[of i] cvta_flag[of i] by (cases "rewrite_load_store i") (auto simp: pred_option_def)

lemma addrspace_warnings_step:
  "concat (map2 addrspace_warnings is (map (\<lambda>i. case rewrite_instruction i of Some a \<Rightarrow> a | None \<Rightarrow> unmapped_instruction i) is)) =
   map (\<lambda>i. ''addrspace: no rewrite rule for opcode '' @ quote_name (in_opcode i))
     (filter (\<lambda>i. rewrite_instruction i = None \<and> has_address_space_token (in_opcode i)) is)"
  by (induction "is") (auto simp: addrspace_warnings_def unmapped_instruction_def rewritten_flag split: option.splits)

lemma rewrite_addrspace_images:
  "list_all2 addrspace_image (ef_instructions e) (ar_instructions (rewrite_addrspace e strict))"
  by (simp add: rewrite_addrspace_def foldl_addrspace Let_def list_all2_conv_all_nth addrspace_image_step)

lemma rewrite_addrspace_warnings:
  "ar_warnings (rewrite_addrspace e strict) =
     concat (map2 addrspace_warnings (ef_instructions e) (ar_instructions (rewrite_addrspace e strict)))"
  by (simp add: rewrite_addrspace_def foldl_addrspace Let_def addrspace_warnings_step)

text \<open>
  C20: the address space pass.  It keeps the instructions in place with their operands.  A load, store or atomic
  becomes the LLVM access of its kind, in the space of the first token in the table of its kind that its opcode has, and
  stays as it is when the opcode has none of them; a conversion to shared, global or local space becomes the cast to the number
  of that space; every other instruction keeps its opcode, with space 1 for cp.async and red.global, 3 for red.shared
  and 0 otherwise.  There is one warning for each instruction that names a space and was not rewritten, in order, and
  nothing else is warned of.  In strict mode the first warning is the error and the pass fails; without a
  warning, or when not strict, it succeeds without an error.
\<close>

theorem rewrite_addrspace_correct:
  "let r = rewrite_addrspace e strict in
   list_all2 addrspace_image (ef_instructions e) (ar_instructions r) \<and>
   ar_warnings r = concat (map2 addrspace_warnings (ef_instructions e) (ar_instructions r)) \<and>
   (ar_ok r, ar_error r) = (if strict \<and> ar_warnings r \<noteq> [] then (False, hd (ar_warnings r)) else (True, []))"
proof -
  let ?r = "rewrite_addrspace e strict"
  have "(ar_ok ?r, ar_error ?r) = (if strict \<and> ar_warnings ?r \<noteq> [] then (False, hd (ar_warnings ?r)) else (True, []))"
    by (simp add: rewrite_addrspace_def foldl_addrspace Let_def)
  then show ?thesis unfolding Let_def using rewrite_addrspace_images rewrite_addrspace_warnings by blast
qed

section \<open>Kernel metadata\<close>

record MetadataField =
  me_key :: string
  me_value :: string

record KernelMetadata =
  km_kernel_name :: string
  km_fields :: "MetadataField list"

record MetadataOptions =
  mp_air_version :: string
  mp_language_version :: string

definition metadata_field :: "string \<Rightarrow> string \<Rightarrow> MetadataField" where
  "metadata_field k v = \<lparr>me_key = k, me_value = v\<rparr>"

definition show_bool :: "bool \<Rightarrow> string" where
  "show_bool b = (if b then ''true'' else ''false'')"

definition argument_fields :: "nat \<Rightarrow> Parameter \<Rightarrow> MetadataField list" where
  "argument_fields i p =
     [metadata_field (''kernel.arg.'' @ show_nat i @ ''.type'') (pa_type p),
      metadata_field (''kernel.arg.'' @ show_nat i @ ''.name'') (pa_name p),
      metadata_field (''kernel.arg.'' @ show_nat i @ ''.pointer'') (show_bool (pa_is_pointer p))]"

definition build_kernel_metadata :: "EntryFunction \<Rightarrow> MetadataOptions \<Rightarrow> KernelMetadata" where
  "build_kernel_metadata entry options = \<lparr>km_kernel_name = ef_name entry,
     km_fields = [metadata_field ''air.kernel'' ''true'', metadata_field ''air.version'' (mp_air_version options),
       metadata_field ''language.version'' (mp_language_version options),
       metadata_field ''kernel.arg_count'' (show_nat (length (ef_params entry)))] @
       concat (map (\<lambda>i. argument_fields i (ef_params entry ! i)) [0..<length (ef_params entry)])\<rparr>"

section \<open>Threadgroup tiling\<close>

datatype SharedMemElemType = kUnknown | kB8 | kB16 | kB32 | kB64 | kB128

record SharedMemAccess =
  sa_opcode :: string
  sa_elem_type :: SharedMemElemType
  sa_elem_bytes :: nat
  sa_is_write :: bool
  sa_line :: int

record StrideHint =
  sh_stride_value :: u32
  sh_line :: int

record TilingHint =
  th_detected_stride :: u32
  th_elem_bytes :: nat
  th_padding_bytes :: u32
  th_needs_padding :: bool
  th_reason :: string

record TilingAnalysis =
  ta_ok :: bool
  ta_uses_shared_memory :: bool
  ta_accesses :: "SharedMemAccess list"
  ta_stride_hints :: "StrideHint list"
  ta_hints :: "TilingHint list"
  ta_warnings :: "string list"

definition contains_any :: "string \<Rightarrow> string list \<Rightarrow> bool" where
  "contains_any s parts = list_ex (contains_sub s) parts"

definition elem_type_from_opcode :: "string \<Rightarrow> SharedMemElemType" where
  "elem_type_from_opcode op =
     (if contains_any op [''.b128'', ''.v4.f32'', ''.v4.u32''] then kB128
      else if contains_any op [''.f64'', ''.u64'', ''.s64'', ''.b64''] then kB64
      else if contains_any op [''.f32'', ''.u32'', ''.s32'', ''.b32''] then kB32
      else if contains_any op [''.f16'', ''.u16'', ''.s16'', ''.b16''] then kB16
      else if contains_any op [''.u8'', ''.s8'', ''.b8''] then kB8
      else kUnknown)"

fun elem_bytes_for :: "SharedMemElemType \<Rightarrow> nat" where
  "elem_bytes_for kB8 = 1"
| "elem_bytes_for kB16 = 2"
| "elem_bytes_for kB32 = 4"
| "elem_bytes_for kB64 = 8"
| "elem_bytes_for kB128 = 16"
| "elem_bytes_for kUnknown = 0"

definition is_shared_mem_op :: "string \<Rightarrow> bool" where
  "is_shared_mem_op op = starts_with_any op [''ld.shared'', ''st.shared'', ''atom.shared'', ''red.shared'']"

text \<open>\<open>strtoul\<close> of a text of digits, cut to 32 bits; it saturates at the largest 64-bit value.\<close>

definition strtoul_u32 :: "string \<Rightarrow> u32" where
  "strtoul_u32 s = of_nat (min (parse_nat_acc 0 s) 18446744073709551615)"

definition all_digits :: "string \<Rightarrow> bool" where
  "all_digits s = (s \<noteq> [] \<and> list_all is_digit_char s)"

text \<open>The last operand that is a positive constant.\<close>

definition constant_factor :: "string list \<Rightarrow> u32 option" where
  "constant_factor operands =
     map_option strtoul_u32 (find (\<lambda>s. all_digits s \<and> 0 < strtoul_u32 s) (rev operands))"

definition extract_stride_from_instruction :: "Instruction \<Rightarrow> u32 option" where
  "extract_stride_from_instruction i =
     (if starts_with_any (in_opcode i) [''mul.lo'', ''mul.wide'', ''mul.hi'']
      then constant_factor (in_operands i)
      else if starts_with_any (in_opcode i) [''shl.b32'', ''shl.b64'', ''shl.u32'', ''shl.u64'']
      then (if in_operands i = [] then None
            else let l = last (in_operands i); shift = strtoul_u32 l
                 in if all_digits l \<and> 0 < shift \<and> shift < 32 then Some (push_bit (unat shift) 1) else None)
      else None)"

unbundle bit_operations_syntax

definition is_conflict_prone_stride :: "u32 \<Rightarrow> bool" where
  "is_conflict_prone_stride stride = (16 \<le> stride \<and> stride AND (stride - 1) = 0)"

definition has_bank_conflict :: "u32 \<Rightarrow> nat \<Rightarrow> bool" where
  "has_bank_conflict stride elem_bytes =
     (elem_bytes \<noteq> 0 \<and> unat stride mod ((32 * 4) div elem_bytes) = 0)"

definition recommended_padding_bytes :: "nat \<Rightarrow> u32" where
  "recommended_padding_bytes elem_bytes = of_nat elem_bytes"

text \<open>The multiplication sign is the two bytes of its UTF-8 encoding.\<close>

definition hint_reason :: "u32 \<Rightarrow> nat \<Rightarrow> string" where
  "hint_reason stride elem_bytes = ''stride '' @ show_nat (unat stride) @ '' elements '' @ [CHR 0xC3, CHR 0x97] @
     '' '' @ show_nat elem_bytes @ ''B = '' @ show_nat (unat stride * elem_bytes) @ ''B aligns to 32-bank boundary; add '' @
     show_nat (unat (recommended_padding_bytes elem_bytes)) @ ''B padding per row''"

definition tiling_hint :: "u32 \<Rightarrow> nat \<Rightarrow> TilingHint" where
  "tiling_hint stride elem_bytes = \<lparr>th_detected_stride = stride, th_elem_bytes = elem_bytes,
     th_padding_bytes = recommended_padding_bytes elem_bytes, th_needs_padding = True,
     th_reason = hint_reason stride elem_bytes\<rparr>"

record TilingState =
  ts_result :: TilingAnalysis
  ts_recent :: "u32 list"
  ts_emitted :: "(u32 \<times> nat) list"

definition harvest_stride :: "Instruction \<Rightarrow> TilingState \<Rightarrow> TilingState" where
  "harvest_stride i st =
     (case extract_stride_from_instruction i of
        None \<Rightarrow> st
      | Some v \<Rightarrow> st\<lparr>
          ts_recent := (if 4 \<le> length (ts_recent st) then tl (ts_recent st) else ts_recent st) @ [v],
          ts_result := (ts_result st)\<lparr>ta_stride_hints := ta_stride_hints (ts_result st) @
            [\<lparr>sh_stride_value = v, sh_line = in_line i\<rparr>]\<rparr>\<rparr>)"

definition check_stride :: "nat \<Rightarrow> TilingState \<Rightarrow> u32 \<Rightarrow> TilingState" where
  "check_stride elem_bytes st v =
     (if \<not> is_conflict_prone_stride v \<or> \<not> has_bank_conflict v elem_bytes \<or>
         (v, elem_bytes) \<in> set (ts_emitted st)
      then st
      else st\<lparr>ts_emitted := (v, elem_bytes) # ts_emitted st,
              ts_result := (ts_result st)\<lparr>ta_hints := ta_hints (ts_result st) @ [tiling_hint v elem_bytes]\<rparr>\<rparr>)"

definition shared_access :: "Instruction \<Rightarrow> SharedMemAccess" where
  "shared_access i = \<lparr>sa_opcode = in_opcode i, sa_elem_type = elem_type_from_opcode (in_opcode i),
     sa_elem_bytes = elem_bytes_for (elem_type_from_opcode (in_opcode i)),
     sa_is_write = starts_with_any (in_opcode i) [''st.shared'', ''atom.shared'', ''red.shared''],
     sa_line = in_line i\<rparr>"

definition tiling_step :: "TilingState \<Rightarrow> Instruction \<Rightarrow> TilingState" where
  "tiling_step st0 i =
     (let st = harvest_stride i st0 in
      if \<not> is_shared_mem_op (in_opcode i) then st
      else let access = shared_access i;
               r = (ts_result st)\<lparr>ta_uses_shared_memory := True, ta_accesses := ta_accesses (ts_result st) @ [access]\<rparr>
           in if sa_elem_bytes access = 0
              then st\<lparr>ts_result := r\<lparr>ta_warnings := ta_warnings r @
                     [''threadgroup_tiling: unknown element type in '' @ quote_name (in_opcode i) @ '' at line '' @
                      show_int (in_line i)]\<rparr>\<rparr>
              else foldl (check_stride (sa_elem_bytes access)) (st\<lparr>ts_result := r\<rparr>) (ts_recent st))"

definition no_tiling :: TilingState where
  "no_tiling = \<lparr>ts_result = \<lparr>ta_ok = False, ta_uses_shared_memory = False, ta_accesses = [],
     ta_stride_hints = [], ta_hints = [], ta_warnings = []\<rparr>, ts_recent = [], ts_emitted = []\<rparr>"

definition analyse_threadgroup_tiling :: "EntryFunction \<Rightarrow> TilingAnalysis" where
  "analyse_threadgroup_tiling entry =
     (ts_result (foldl tiling_step no_tiling (ef_instructions entry)))\<lparr>ta_ok := True\<rparr>"

section \<open>Hints are right\<close>

definition elem_size :: "nat \<Rightarrow> bool" where
  "elem_size n \<longleftrightarrow> n \<in> {1, 2, 4, 8, 16}"

text \<open>
  A row of the array starts in the same bank as the one before, and no longer does with the
  recommended padding; the 32 banks of 4 bytes repeat every 128 bytes.
\<close>

definition hint_ok :: "TilingHint \<Rightarrow> bool" where
  "hint_ok h \<longleftrightarrow> (let row = unat (th_detected_stride h) * th_elem_bytes h in
     elem_size (th_elem_bytes h) \<and> 16 \<le> unat (th_detected_stride h) \<and> row mod 128 = 0 \<and>
     (row + unat (th_padding_bytes h)) mod 128 \<noteq> 0 \<and> th_needs_padding h)"

definition hint_key :: "TilingHint \<Rightarrow> u32 \<times> nat" where
  "hint_key h = (th_detected_stride h, th_elem_bytes h)"

definition tiling_ok :: "TilingState \<Rightarrow> bool" where
  "tiling_ok st \<longleftrightarrow> list_all hint_ok (ta_hints (ts_result st)) \<and>
     distinct (map hint_key (ta_hints (ts_result st))) \<and>
     set (ts_emitted st) = set (map hint_key (ta_hints (ts_result st))) \<and> length (ts_recent st) \<le> 4"

lemma elem_bytes_size: "elem_bytes_for t \<noteq> 0 \<Longrightarrow> elem_size (elem_bytes_for t)"
  by (cases t) (simp_all add: elem_size_def)

lemma bank_conflict_row:
  "elem_size n \<Longrightarrow> has_bank_conflict v n \<Longrightarrow> (unat v * n) mod 128 = 0"
  by (auto simp: elem_size_def has_bank_conflict_def)

lemma hint_ok_new:
  assumes "elem_size n" "is_conflict_prone_stride v" "has_bank_conflict v n"
  shows "hint_ok (tiling_hint v n)"
proof -
  have "n < 128" "n \<noteq> 0" using assms(1) by (auto simp: elem_size_def)
  moreover have "(unat v * n) mod 128 = 0" by (rule bank_conflict_row [OF assms(1,3)])
  ultimately have "(unat v * n + n) mod 128 \<noteq> 0" by (metis mod_add_left_eq add_0 mod_less)
  moreover have "unat (recommended_padding_bytes n) = n"
    using \<open>n < 128\<close> by (simp add: recommended_padding_bytes_def unat_of_nat)
  moreover have "16 \<le> unat v" using assms(2) by (simp add: is_conflict_prone_stride_def word_le_nat_alt)
  ultimately show ?thesis using assms(1) \<open>(unat v * n) mod 128 = 0\<close>
    by (simp add: hint_ok_def tiling_hint_def Let_def)
qed

lemma check_stride_ok: "tiling_ok st \<Longrightarrow> elem_size n \<Longrightarrow> tiling_ok (check_stride n st v)"
  using hint_ok_new [of n v] by (auto simp: tiling_ok_def check_stride_def hint_key_def tiling_hint_def)

lemma check_strides_ok: "tiling_ok st \<Longrightarrow> elem_size n \<Longrightarrow> tiling_ok (foldl (check_stride n) st vs)"
  by (induction vs arbitrary: st) (simp_all add: check_stride_ok)

lemma harvest_stride_ok: "tiling_ok st \<Longrightarrow> tiling_ok (harvest_stride i st)"
  by (auto simp: tiling_ok_def harvest_stride_def split: option.split)

lemma tiling_step_ok:
  assumes "tiling_ok st"
  shows "tiling_ok (tiling_step st i)"
proof -
  have h: "tiling_ok (harvest_stride i st)" by (rule harvest_stride_ok [OF assms])
  have r: "tiling_ok (s\<lparr>ts_result := r\<rparr>)" if "tiling_ok s" "ta_hints r = ta_hints (ts_result s)" for s r
    using that by (simp add: tiling_ok_def)
  have "elem_size (sa_elem_bytes (shared_access i))" if "sa_elem_bytes (shared_access i) \<noteq> 0"
    using that elem_bytes_size by (simp add: shared_access_def)
  then show ?thesis
    using h by (auto simp: tiling_step_def Let_def intro!: check_strides_ok r)
qed

text \<open>
  The tiling pass gives sound and unique hints: a hint names an element size of 1 to 16 bytes
  and a stride of at least 16 elements whose rows are a multiple of the 128 bytes after which the
  banks repeat, one row longer by the recommended padding is not such a multiple, and no pair of a
  stride and an element size is reported twice.
\<close>

lemma tiling_hints_sound:
  "list_all hint_ok (ta_hints (analyse_threadgroup_tiling e)) \<and>
   distinct (map hint_key (ta_hints (analyse_threadgroup_tiling e)))"
proof -
  have "tiling_ok (foldl tiling_step st is)" if "tiling_ok st" for st "is"
    using that by (induction "is" arbitrary: st) (simp_all add: tiling_step_ok)
  moreover have "tiling_ok no_tiling" by (simp add: tiling_ok_def no_tiling_def)
  ultimately show ?thesis by (simp add: analyse_threadgroup_tiling_def tiling_ok_def)
qed

end
