(* ===== verification/IntrinsicLower.thy ===== *)
theory IntrinsicLower
  imports PtxPasses
begin

text \<open>
  Lowering of opcodes to AIR and LLVM names, \<open>compiler/passes/src/intrinsic_lower.cpp\<close>.
\<close>

section \<open>Mappings\<close>

record LoweredInstruction =
  li_opcode :: string
  li_operands :: "string list"
  li_translated :: bool

record IntrinsicLowerResult =
  il_ok :: bool
  il_instructions :: "LoweredInstruction list"
  il_warnings :: "string list"
  il_error :: string

definition lowered_as :: "string \<Rightarrow> string list \<Rightarrow> LoweredInstruction option" where
  "lowered_as opcode operands = Some \<lparr>li_opcode = opcode, li_operands = operands, li_translated = True\<rparr>"

definition special_registers :: "(string \<times> string) list" where
  "special_registers =
    [(''%tid.x'', ''air.thread_position_in_threadgroup.x''),
     (''%tid.y'', ''air.thread_position_in_threadgroup.y''),
     (''%tid.z'', ''air.thread_position_in_threadgroup.z''),
     (''%ctaid.x'', ''air.threadgroup_position_in_grid.x''),
     (''%ctaid.y'', ''air.threadgroup_position_in_grid.y''),
     (''%ctaid.z'', ''air.threadgroup_position_in_grid.z''),
     (''%ntid.x'', ''air.threads_per_threadgroup.x''),
     (''%ntid.y'', ''air.threads_per_threadgroup.y''),
     (''%ntid.z'', ''air.threads_per_threadgroup.z''),
     (''%nctaid.x'', ''air.threadgroups_per_grid.x''),
     (''%nctaid.y'', ''air.threadgroups_per_grid.y''),
     (''%nctaid.z'', ''air.threadgroups_per_grid.z''),
     (''%laneid'', ''air.thread_position_in_simdgroup''),
     (''%warpsize'', ''air.constant.warp_size''),
     (''%lanemask_eq'', ''air.simdgroup.lanemask_eq''),
     (''%lanemask_lt'', ''air.simdgroup.lanemask_lt''),
     (''%lanemask_le'', ''air.simdgroup.lanemask_le''),
     (''%lanemask_gt'', ''air.simdgroup.lanemask_gt''),
     (''%lanemask_ge'', ''air.simdgroup.lanemask_ge'')]"

definition map_special_register_mov :: "Instruction \<Rightarrow> LoweredInstruction option" where
  "map_special_register_mov i =
     (if \<not> starts_with (in_opcode i) ''mov'' \<or> length (in_operands i) < 2 then None
      else case map_of special_registers (in_operands i ! 1) of
        None \<Rightarrow> None
      | Some mapped \<Rightarrow> lowered_as ''air.read.special_register'' [in_operands i ! 0, mapped])"

definition map_barrier :: "Instruction \<Rightarrow> LoweredInstruction option" where
  "map_barrier i =
     (let op = in_opcode i; operands = in_operands i in
      if starts_with op ''bar.sync'' then lowered_as ''air.threadgroup_barrier'' operands
      else if starts_with op ''bar.arrive'' then lowered_as ''air.threadgroup_barrier'' operands
      else if starts_with op ''bar.red'' then
        lowered_as (if contains_sub op ''.and.'' then ''air.simdgroup.all''
                    else if contains_sub op ''.or.'' then ''air.simdgroup.any''
                    else if contains_sub op ''.popc.'' then ''air.simdgroup.reduce_add''
                    else ''air.threadgroup_barrier'') operands
      else if starts_with op ''prefetch'' then lowered_as ''air.prefetch.noop'' []
      else if starts_with op ''membar'' then
        lowered_as (if contains_sub op ''.cta'' then ''air.mem.barrier.threadgroup'' else ''air.mem.barrier.device'') operands
      else if starts_with op ''fence'' then
        lowered_as (if contains_sub op ''.cta'' then ''air.mem.barrier.threadgroup'' else ''air.mem.barrier.device'') operands
      else if starts_with op ''red.global'' \<or> starts_with op ''red.shared'' then
        lowered_as (if contains_sub op ''.shared'' then ''llvm.atomicrmw.noret.shared''
                    else ''llvm.atomicrmw.noret.global'') operands
      else None)"

definition map_async_copy :: "Instruction \<Rightarrow> LoweredInstruction option" where
  "map_async_copy i =
     (if \<not> starts_with (in_opcode i) ''cp.async'' then None
      else if contains_any (in_opcode i) [''commit_group'', ''wait_group'', ''wait_all'']
      then lowered_as ''air.threadgroup_barrier'' []
      else lowered_as ''air.cp_async'' (in_operands i))"

definition map_warp_primitives :: "Instruction \<Rightarrow> LoweredInstruction option" where
  "map_warp_primitives i =
     (let op = in_opcode i; operands = in_operands i in
      if starts_with op ''shfl'' then
        (if contains_sub op ''.idx.'' then lowered_as ''air.simdgroup.shuffle'' operands
         else if contains_sub op ''.down.'' then lowered_as ''air.simdgroup.shuffle_down'' operands
         else if contains_sub op ''.up.'' then lowered_as ''air.simdgroup.shuffle_up'' operands
         else if contains_sub op ''.bfly.'' then lowered_as ''air.simdgroup.shuffle_xor'' operands
         else None)
      else if starts_with op ''vote'' then
        (if contains_sub op ''.ballot.'' then lowered_as ''air.simdgroup.ballot'' operands
         else if contains_sub op ''.any.'' then lowered_as ''air.simdgroup.any'' operands
         else if contains_sub op ''.all.'' then lowered_as ''air.simdgroup.all'' operands
         else if contains_sub op ''.uni.'' then lowered_as ''air.simdgroup.all'' operands
         else None)
      else if starts_with op ''bar.warp.sync'' then lowered_as ''air.simdgroup.barrier'' operands
      else if starts_with op ''redux.sync'' then
        (let is_float = contains_sub op ''.f32'' in
         if contains_sub op ''.add.''
         then lowered_as (if is_float then ''air.simdgroup.reduce_add.f32'' else ''air.simdgroup.reduce_add'') operands
         else if contains_sub op ''.and.'' then lowered_as ''air.simdgroup.reduce_and'' operands
         else if contains_sub op ''.or.'' then lowered_as ''air.simdgroup.reduce_or'' operands
         else if contains_sub op ''.xor.'' then lowered_as ''air.simdgroup.reduce_xor'' operands
         else if contains_sub op ''.min.''
         then lowered_as (if is_float then ''air.simdgroup.reduce_min.f32'' else ''air.simdgroup.reduce_min'') operands
         else if contains_sub op ''.max.''
         then lowered_as (if is_float then ''air.simdgroup.reduce_max.f32'' else ''air.simdgroup.reduce_max'') operands
         else None)
      else None)"

text \<open>
  The chain of \<open>map_math\<close> as a table: the first prefix of the opcode decides, and the name it is
  lowered to depends on parts the opcode contains.
\<close>

datatype Target = Choice "(string list \<times> string) list" string

fun target_name :: "string \<Rightarrow> Target \<Rightarrow> string" where
  "target_name op (Choice alternatives fallback) =
     (case find (\<lambda>(parts, name). contains_any op parts) alternatives of
        None \<Rightarrow> fallback | Some (parts, name) \<Rightarrow> name)"

definition math_rules :: "(string \<times> Target) list" where
  "math_rules =
    [(''add'', Choice [] ''llvm.add''),
     (''sub'', Choice [] ''llvm.sub''),
     (''mul'', Choice [] ''llvm.mul''),
     (''div'', Choice [] ''llvm.div''),
     (''rem'', Choice [] ''llvm.rem''),
     (''and'', Choice [] ''llvm.and''),
     (''or'', Choice [] ''llvm.or''),
     (''xor'', Choice [] ''llvm.xor''),
     (''not'', Choice [] ''llvm.not''),
     (''shl'', Choice [] ''llvm.shl''),
     (''shr'', Choice [] ''llvm.shr''),
     (''selp'', Choice [] ''llvm.select''),
     (''rcp'', Choice [] ''llvm.rcp''),
     (''neg'', Choice [([''.f32'', ''.f64''], ''llvm.fneg'')] ''llvm.neg''),
     (''fma'', Choice [] ''llvm.fma''),
     (''mad'', Choice [([''.f32'', ''.f64''], ''llvm.fma'')] ''llvm.mad''),
     (''max'', Choice [([''.f32'', ''.f64''], ''llvm.fmax'')] ''llvm.max''),
     (''min'', Choice [([''.f32'', ''.f64''], ''llvm.fmin'')] ''llvm.min''),
     (''abs'', Choice [([''.f32'', ''.f64''], ''llvm.fabs'')] ''llvm.abs''),
     (''sqrt'', Choice [] ''llvm.sqrt''),
     (''rsqrt'', Choice [] ''llvm.rsqrt''),
     (''ex2'', Choice [] ''llvm.exp2''),
     (''lg2'', Choice [] ''llvm.log2''),
     (''sin'', Choice [] ''llvm.sin''),
     (''cos'', Choice [] ''llvm.cos''),
     (''clz'', Choice [([''.b64''], ''llvm.ctlz.i64'')] ''llvm.ctlz.i32''),
     (''popc'', Choice [([''.b64''], ''llvm.ctpop.i64'')] ''llvm.ctpop.i32''),
     (''brev'', Choice [([''.b64''], ''llvm.bitreverse.i64'')] ''llvm.bitreverse.i32''),
     (''isspacep'', Choice [([''.global''], ''air.isspacep.global'')] ''air.isspacep.nonglobal''),
     (''bfe'', Choice [([''.s''], ''air.bfe.signed'')] ''air.bfe.unsigned''),
     (''bfi'', Choice [] ''air.bfi''),
     (''prmt'', Choice [] ''air.prmt''),
     (''match'', Choice [([''.any.''], ''air.match.any.sync''), ([''.all.''], ''air.match.all.sync'')] ''air.match.sync''),
     (''nanosleep'', Choice [] ''air.nanosleep''),
     (''trap'', Choice [] ''llvm.trap''),
     (''exit'', Choice [] ''air.exit''),
     (''activemask'', Choice [] ''air.activemask''),
     (''fns'', Choice [] ''air.fns''),
     (''bfind'', Choice [([''.u64'', ''.s64''], ''air.bfind.i64'')] ''air.bfind.i32''),
     (''lop3'', Choice [] ''air.lop3''),
     (''sad'', Choice [] ''air.sad''),
     (''testp'', Choice
        [([''.finite''], ''air.testp.finite''), ([''.infinite''], ''air.testp.infinite''),
         ([''.notanumber'', ''.snan''], ''air.testp.nan''), ([''.number''], ''air.testp.number''),
         ([''.subnormal''], ''air.testp.subnormal''), ([''.normal''], ''air.testp.normal''),
         ([''.notfinite''], ''air.testp.notfinite'')] ''air.testp'')]"

definition map_math :: "Instruction \<Rightarrow> LoweredInstruction option" where
  "map_math i =
     (case find (\<lambda>(pre, t). starts_with (in_opcode i) pre) math_rules of
        None \<Rightarrow> None
      | Some (pre, t) \<Rightarrow> lowered_as (target_name (in_opcode i) t) (in_operands i))"

section \<open>The pass\<close>

definition translate_instruction :: "Instruction \<Rightarrow> LoweredInstruction option" where
  "translate_instruction i =
     (case map_special_register_mov i of Some l \<Rightarrow> Some l | None \<Rightarrow>
      (case map_barrier i of Some l \<Rightarrow> Some l | None \<Rightarrow>
       (case map_async_copy i of Some l \<Rightarrow> Some l | None \<Rightarrow>
        (case map_warp_primitives i of Some l \<Rightarrow> Some l | None \<Rightarrow> map_math i))))"

definition kept_prefixes :: "string list" where
  "kept_prefixes = [''ret'', ''ld'', ''st'', ''setp'', ''bra'', ''brx'', ''cvt'', ''cvta'', ''mov'', ''call'',
     ''atom'', ''selp'', ''set.'', ''txq.'', ''suq.'']"

definition plain_lowered :: "Instruction \<Rightarrow> bool \<Rightarrow> LoweredInstruction" where
  "plain_lowered i translated = \<lparr>li_opcode = in_opcode i, li_operands = in_operands i, li_translated = translated\<rparr>"

definition no_mapping_warning :: "Instruction \<Rightarrow> string" where
  "no_mapping_warning i = ''intrinsic_lower: no mapping for opcode '' @ quote_name (in_opcode i)"

definition push_lowered :: "LoweredInstruction \<Rightarrow> string list \<Rightarrow> IntrinsicLowerResult \<Rightarrow> IntrinsicLowerResult" where
  "push_lowered l ws r = r\<lparr>il_instructions := il_instructions r @ [l], il_warnings := il_warnings r @ ws\<rparr>"

definition lower_step :: "IntrinsicLowerResult \<Rightarrow> Instruction \<Rightarrow> IntrinsicLowerResult" where
  "lower_step r i =
     (if in_opcode i = ''ptx.label'' \<or> in_opcode i = ''ptx.branchtargets''
      then push_lowered (plain_lowered i True) [] r
      else if \<not> in_supported i then push_lowered (plain_lowered i False) [no_mapping_warning i] r
      else case translate_instruction i of
        Some l \<Rightarrow> push_lowered l [] r
      | None \<Rightarrow> push_lowered (plain_lowered i False)
                  (if starts_with_any (in_opcode i) kept_prefixes then [] else [no_mapping_warning i]) r)"

definition lower_intrinsics :: "EntryFunction \<Rightarrow> bool \<Rightarrow> IntrinsicLowerResult" where
  "lower_intrinsics entry strict =
     (let r = foldl lower_step \<lparr>il_ok = False, il_instructions = [], il_warnings = [], il_error = []\<rparr>
                (ef_instructions entry)
      in if strict \<and> il_warnings r \<noteq> [] then r\<lparr>il_error := hd (il_warnings r)\<rparr> else r\<lparr>il_ok := True\<rparr>)"

section \<open>The parser's opcodes and the pass's tables\<close>

text \<open>
  Roots of which the pass lowers some opcodes and warns about the rest, depending on what follows
  the root.
\<close>

definition partial_roots :: "string list" where
  "partial_roots = [''bar'', ''cp'', ''red'', ''redux'', ''set'', ''shfl'', ''suq'', ''txq'', ''vote'']"

definition all_prefixes :: "string list" where
  "all_prefixes = [''prefetch'', ''membar'', ''fence''] @ map fst math_rules @ kept_prefixes"

lemma supported_roots_have_rules:
  "list_all (\<lambda>r. List.member partial_roots r \<or> list_ex (starts_with r) all_prefixes) supported_roots"
  by code_simp

lemma starts_with_trans: "starts_with s a \<Longrightarrow> starts_with a b \<Longrightarrow> starts_with s b"
  unfolding starts_with_iff_prefix by (rule prefix_order.trans)

lemma starts_with_root: "starts_with op (opcode_root op)"
  by (simp add: starts_with_iff_prefix opcode_root_def takeWhile_is_prefix)

lemma translate_None:
  assumes "translate_instruction i = None"
  shows "\<not> starts_with (in_opcode i) ''prefetch''" "\<not> starts_with (in_opcode i) ''membar''"
    "\<not> starts_with (in_opcode i) ''fence''" "list_all (\<lambda>pre. \<not> starts_with (in_opcode i) pre) (map fst math_rules)"
proof -
  have b: "map_barrier i = None" and m: "map_math i = None"
    using assms by (auto simp: translate_instruction_def split: option.splits)
  show "\<not> starts_with (in_opcode i) ''prefetch''" "\<not> starts_with (in_opcode i) ''membar''"
    "\<not> starts_with (in_opcode i) ''fence''"
    using b by (auto simp: map_barrier_def lowered_as_def Let_def split: if_splits)
  have "find (\<lambda>(pre, t). starts_with (in_opcode i) pre) math_rules = None"
    using m by (auto simp: map_math_def lowered_as_def split: option.splits)
  then show "list_all (\<lambda>pre. \<not> starts_with (in_opcode i) pre) (map fst math_rules)"
    by (auto simp: find_None_iff list_all_iff)
qed

definition fully_handled :: "Instruction \<Rightarrow> bool" where
  "fully_handled i = (in_opcode i = ''ptx.label'' \<or> in_opcode i = ''ptx.branchtargets'' \<or>
     in_supported i \<and> is_supported_opcode (in_opcode i) \<and> \<not> List.member partial_roots (opcode_root (in_opcode i)))"

lemma lower_step_fully_handled:
  assumes "fully_handled i"
  shows "il_warnings (lower_step r i) = il_warnings r"
proof -
  have "starts_with_any (in_opcode i) kept_prefixes"
    if i: "in_supported i" "is_supported_opcode (in_opcode i)"
      "\<not> List.member partial_roots (opcode_root (in_opcode i))" "translate_instruction i = None"
  proof -
    have "opcode_root (in_opcode i) \<in> set supported_roots"
      using i(2) by (simp add: is_supported_opcode_def)
    then have "list_ex (starts_with (opcode_root (in_opcode i))) all_prefixes"
      using supported_roots_have_rules i(3) by (auto simp: list_all_iff)
    then obtain p where p: "p \<in> set all_prefixes" "starts_with (in_opcode i) p"
      using starts_with_trans [OF starts_with_root] by (auto simp: list_ex_iff)
    then have "p \<in> set kept_prefixes"
      using translate_None [OF i(4)] unfolding all_prefixes_def by (auto simp: list_all_iff)
    with p(2) show ?thesis by (auto simp: starts_with_any_def list_ex_iff)
  qed
  then show ?thesis
    using assms by (auto simp: lower_step_def push_lowered_def fully_handled_def split: option.split)
qed

lemma lower_step_ok [simp]: "il_ok (lower_step r i) = il_ok r"
  by (simp add: lower_step_def push_lowered_def split: option.split)

lemma foldl_lower_handled:
  "list_all fully_handled is \<Longrightarrow> il_warnings (foldl lower_step r is) = il_warnings r"
  by (induction "is" arbitrary: r) (simp_all add: lower_step_fully_handled)

lemma lower_bfind:
  assumes "starts_with (in_opcode i) ''bfind''"
  shows "translate_instruction i = lowered_as ''air.bfi'' (in_operands i)"
proof -
  let ?op = "in_opcode i"
  have diff: "\<not> starts_with ?op p" if "\<not> prefix p ''bfind''" "\<not> prefix ''bfind'' p" for p
    using starts_with_conflict [OF assms, of p] that by blast
  have bfi: "starts_with ?op ''bfi''"
    by (rule starts_with_trans [OF assms]) (simp add: starts_with_def)
  have "find (\<lambda>(pre, t). starts_with ?op pre) math_rules = Some (''bfi'', Choice [] ''air.bfi'')"
    by (simp add: math_rules_def diff bfi)
  then show ?thesis
    by (simp add: translate_instruction_def map_special_register_mov_def map_barrier_def map_async_copy_def
        map_warp_primitives_def map_math_def diff Let_def lowered_as_def)
qed

text \<open>
  C21: the tables of the parser and of the lowering pass fit together: an entry whose instructions
  are labels, branch tables or supported opcodes of any root other than the nine that are lowered
  in part passes the pass without a warning, in strict mode too.
\<close>

theorem lower_intrinsics_complete:
  assumes "list_all fully_handled (ef_instructions e)"
  shows "il_ok (lower_intrinsics e strict) \<and> il_warnings (lower_intrinsics e strict) = []"
  using foldl_lower_handled [OF assms] by (simp add: lower_intrinsics_def Let_def)

definition bfind_entry :: EntryFunction where
  "bfind_entry = (new_entry ''k'')\<lparr>ef_instructions := [no_instruction\<lparr>in_opcode := ''bfind.u32'',
     in_operands := [''%r1'', ''%r2''], in_supported := True\<rparr>]\<rparr>"

theorem lower_intrinsics_complete_witness:
  "il_ok (lower_intrinsics bfind_entry True) \<and> il_warnings (lower_intrinsics bfind_entry True) = []"
  by (rule lower_intrinsics_complete, code_simp)

text \<open>The lowered instruction of one instruction.\<close>

lemma lower_step_instruction:
  "\<exists>l. il_instructions (lower_step r i) = il_instructions r @ [l] \<and>
     (in_supported i \<and> starts_with (in_opcode i) ''bfind'' \<longrightarrow>
        l = \<lparr>li_opcode = ''air.bfi'', li_operands = in_operands i, li_translated = True\<rparr>)"
proof (cases "in_supported i \<and> starts_with (in_opcode i) ''bfind''")
  case True
  then have "in_opcode i \<noteq> ''ptx.label''" "in_opcode i \<noteq> ''ptx.branchtargets''" by (auto simp: starts_with_def)
  with True show ?thesis by (simp add: lower_step_def push_lowered_def lower_bfind lowered_as_def)
next
  case False
  then show ?thesis
    by (auto simp: lower_step_def push_lowered_def starts_with_def split: option.split)
qed

lemma foldl_lower_bfind:
  "\<exists>ls. il_instructions (foldl lower_step r is) = il_instructions r @ ls \<and>
     list_all2 (\<lambda>i l. in_supported i \<and> starts_with (in_opcode i) ''bfind'' \<longrightarrow>
        l = \<lparr>li_opcode = ''air.bfi'', li_operands = in_operands i, li_translated = True\<rparr>) is ls"
proof (induction "is" arbitrary: r)
  case (Cons i "is")
  obtain l where l: "il_instructions (lower_step r i) = il_instructions r @ [l]"
    "in_supported i \<and> starts_with (in_opcode i) ''bfind'' \<longrightarrow>
        l = \<lparr>li_opcode = ''air.bfi'', li_operands = in_operands i, li_translated = True\<rparr>"
    using lower_step_instruction by blast
  obtain ls where "il_instructions (foldl lower_step (lower_step r i) is) = il_instructions (lower_step r i) @ ls"
    "list_all2 (\<lambda>i l. in_supported i \<and> starts_with (in_opcode i) ''bfind'' \<longrightarrow>
        l = \<lparr>li_opcode = ''air.bfi'', li_operands = in_operands i, li_translated = True\<rparr>) is ls"
    using Cons.IH by blast
  with l show ?case by (intro exI [of _ "l # ls"]) simp
qed simp

text \<open>
  \<open>bfind\<close> never reaches its own rule: the prefix \<open>bfi\<close> is tested before it, so in every entry each
  supported search for the highest bit is lowered to the insertion of a bit field, with its own
  operands, and counted as translated.
\<close>

lemma lower_bfind_as_bfi:
  "list_all2 (\<lambda>i l. in_supported i \<and> starts_with (in_opcode i) ''bfind'' \<longrightarrow>
      l = \<lparr>li_opcode = ''air.bfi'', li_operands = in_operands i, li_translated = True\<rparr>)
     (ef_instructions e) (il_instructions (lower_intrinsics e strict))"
  using foldl_lower_bfind [of "\<lparr>il_ok = False, il_instructions = [], il_warnings = [], il_error = []\<rparr>" "ef_instructions e"]
  by (auto simp: lower_intrinsics_def Let_def)

lemma lower_bfind_as_bfi_witness:
  "il_instructions (lower_intrinsics bfind_entry True) =
     [\<lparr>li_opcode = ''air.bfi'', li_operands = [''%r1'', ''%r2''], li_translated = True\<rparr>]"
  using lower_bfind_as_bfi [of bfind_entry True]
  by (simp add: bfind_entry_def new_entry_def starts_with_def list_all2_Cons1)

end
