(* ===== verification/PrintfLower.thy ===== *)
theory PrintfLower
  imports IntrinsicLower
begin

text \<open>
  Lowering of device \<open>printf\<close> calls, \<open>compiler/passes/src/printf_lower.cpp\<close>: calls with a literal
  or an opaque format, and the tuple that Clang's CUDA front end builds for \<open>vprintf\<close>.
\<close>

section \<open>Texts\<close>

definition to_lower :: "char \<Rightarrow> char" where
  "to_lower c = (if 65 \<le> (of_char c :: nat) \<and> (of_char c :: nat) \<le> 90 then char_of ((of_char c :: nat) + 32) else c)"

definition lowercase :: "string \<Rightarrow> string" where
  "lowercase s = map to_lower s"

definition is_printf_symbol :: "string \<Rightarrow> bool" where
  "is_printf_symbol token =
     (let l = lowercase (trim token); name = (if l \<noteq> [] \<and> hd l = CHR ''@'' then tl l else l)
      in name = ''vprintf'' \<or> name = ''printf'')"

definition find_printf_callee_index :: "string list \<Rightarrow> nat" where
  "find_printf_callee_index operands = length (takeWhile (\<lambda>s. \<not> is_printf_symbol (trim s)) operands)"

text \<open>The depth, whether inside quotes, whether after a backslash there, and the current argument.\<close>

fun split_args_loop :: "nat \<Rightarrow> bool \<Rightarrow> bool \<Rightarrow> string \<Rightarrow> string \<Rightarrow> string list" where
  "split_args_loop depth quote escaped current [] = token_of current"
| "split_args_loop depth quote escaped current (c # s) =
     (if quote then
        split_args_loop depth (escaped \<or> c = CHR 0x5C \<or> c \<noteq> CHR 0x22) (\<not> escaped \<and> c = CHR 0x5C) (current @ [c]) s
      else if c = CHR 0x22 then split_args_loop depth True escaped (current @ [c]) s
      else if is_open c then split_args_loop (Suc depth) False escaped (current @ [c]) s
      else if is_close c then split_args_loop (depth - 1) False escaped (current @ [c]) s
      else if c = CHR '','' \<and> depth = 0 then token_of current @ split_args_loop depth False escaped [] s
      else split_args_loop depth False escaped (current @ [c]) s)"

definition split_call_args :: "string \<Rightarrow> string list" where
  "split_call_args txt =
     (let t = trim txt;
          u = (if 2 \<le> length t \<and> hd t = CHR ''('' \<and> last t = CHR '')'' then butlast (tl t) else t)
      in split_args_loop 0 False False [] u)"

definition is_quoted_string :: "string \<Rightarrow> bool" where
  "is_quoted_string token = (2 \<le> length token \<and> hd token = CHR 0x22 \<and> last token = CHR 0x22)"

text \<open>The text between the quotes; a backslash at its end stands for itself.\<close>

fun unescape_loop :: "string \<Rightarrow> string" where
  "unescape_loop [] = []"
| "unescape_loop [c] = [c]"
| "unescape_loop (c # d # s) =
     (if c = CHR 0x5C
      then (if d = CHR ''n'' then [CHR 0x0A] else if d = CHR ''t'' then [CHR 0x09]
            else if d = CHR 0x5C then [CHR 0x5C] else if d = CHR 0x22 then [CHR 0x22]
            else [CHR 0x5C, d]) @ unescape_loop s
      else c # unescape_loop (d # s))"

definition unescape_string_literal :: "string \<Rightarrow> string" where
  "unescape_string_literal token =
     (if is_quoted_string token then unescape_loop (butlast (tl token)) else token)"

text \<open>\<open>strtoll\<close> in base 10 over the whole text; the value saturates.\<close>

definition decimal_offset :: "string \<Rightarrow> u64 option" where
  "decimal_offset token =
     (let v = trim token;
          negative = (v \<noteq> [] \<and> hd v = CHR ''-'');
          ds = (if v \<noteq> [] \<and> (hd v = CHR ''-'' \<or> hd v = CHR ''+'') then tl v else v);
          n = parse_nat_acc 0 ds
      in if v = [] then Some 0
         else if \<not> all_digits ds \<or> negative \<and> n \<noteq> 0 then None
         else Some (of_nat (min n 9223372036854775807)))"

definition hex_value :: "char \<Rightarrow> nat option" where
  "hex_value c = (let n = of_char c in
     if is_digit_char c then Some (n - 48)
     else if 97 \<le> n \<and> n \<le> 102 then Some (n - 87)
     else if 65 \<le> n \<and> n \<le> 70 then Some (n - 55) else None)"

definition hex_number :: "string \<Rightarrow> nat" where
  "hex_number s = foldl (\<lambda>v c. 16 * v + (case hex_value c of None \<Rightarrow> 0 | Some d \<Rightarrow> d)) 0 s"

definition octal_number :: "string \<Rightarrow> nat" where
  "octal_number s = foldl (\<lambda>v c. 8 * v + (of_char c - 48)) 0 s"

text \<open>\<open>strtol\<close> in base 0 over the whole text, \<open>None\<close> when something is left or there is no digit.\<close>

definition c_integer :: "string \<Rightarrow> int option" where
  "c_integer s =
     (let negative = (s \<noteq> [] \<and> hd s = CHR ''-'');
          u = (if s \<noteq> [] \<and> (hd s = CHR ''-'' \<or> hd s = CHR ''+'') then tl s else s);
          magnitude =
            (if 2 < length u \<and> (starts_with u ''0x'' \<or> starts_with u ''0X'') \<and>
                list_all (\<lambda>c. hex_value c \<noteq> None) (drop 2 u)
             then Some (hex_number (drop 2 u))
             else if \<not> all_digits u then None
             else if hd u = CHR ''0''
             then (if list_all (\<lambda>c. (of_char c :: nat) < 56) u then Some (octal_number u) else None)
             else Some (parse_nat_acc 0 u))
      in map_option (\<lambda>n. if negative then - int n else int n) magnitude)"

record AddressRef =
  ad_reg :: string
  ad_offset :: u64

definition parse_address :: "string \<Rightarrow> AddressRef option" where
  "parse_address operand =
     (let contents = extract_bracket_contents operand; reg = extract_register_name contents in
      if reg = [] then None
      else case find_sub reg contents of
        None \<Rightarrow> None
      | Some reg_at \<Rightarrow>
          let suffix_text = drop (reg_at + length reg) contents in
          case find_char (CHR ''+'') suffix_text of
            None \<Rightarrow> Some \<lparr>ad_reg = reg, ad_offset = 0\<rparr>
          | Some sign_at \<Rightarrow> map_option (\<lambda>n. \<lparr>ad_reg = reg, ad_offset = n\<rparr>) (decimal_offset (drop (sign_at + 1) suffix_text)))"

section \<open>Initialised globals\<close>

record GlobalFormat =
  gf_bytes :: string
  gf_truncated :: bool

definition declaration_regex :: rx where
  "declaration_regex = Seq (Lit ''.global'') (Seq (Plus Spaces)
     (Seq (Opt (Seq (Lit ''.align'') (Seq (Plus Spaces) (Seq (Plus (Chars True digits)) (Plus Spaces)))))
     (Seq (Lit ''.b8'') (Seq (Plus Spaces)
     (Seq (Group 1 (Plus (Chars False (''['' @ [CHR 0x20, CHR 0x09, CHR 0x0A, CHR 0x0B, CHR 0x0C, CHR 0x0D]))))
     (Seq (Star True Spaces) (Seq (Lit ''['') (Seq (Star True Spaces) (Seq (Plus (Chars True digits))
     (Seq (Star True Spaces) (Seq (Lit '']'') (Seq (Star True Spaces) (Seq (Lit ''='') (Seq (Star True Spaces)
     (Seq (Lit ''{'') (Seq (Group 2 (Star True (Chars False ''}''))) (Lit ''}'')))))))))))))))))"

text \<open>The bytes up to the first zero; \<open>None\<close> when a value is no byte.\<close>

primrec format_values :: "nat \<Rightarrow> GlobalFormat \<Rightarrow> string list \<Rightarrow> GlobalFormat option" where
  "format_values max_length g [] = Some g"
| "format_values max_length g (token # rest) =
     (if token = [] then format_values max_length g rest
      else case c_integer token of
        None \<Rightarrow> None
      | Some v \<Rightarrow>
          if v < 0 \<or> 255 < v then None
          else if v = 0 then Some g
          else format_values max_length
                 (if length (gf_bytes g) < max_length
                  then g\<lparr>gf_bytes := gf_bytes g @ [char_of (nat v)]\<rparr> else g\<lparr>gf_truncated := True\<rparr>) rest)"

definition global_format :: "nat \<Rightarrow> captures \<Rightarrow> (string \<times> GlobalFormat) list" where
  "global_format max_length c =
     (case format_values max_length \<lparr>gf_bytes = [], gf_truncated = False\<rparr> (map trim (comma_parts (capture c 2))) of
        None \<Rightarrow> []
      | Some g \<Rightarrow> if gf_bytes g = [] then [] else [(capture c 1, g)])"

text \<open>The first declaration of a name counts, as with \<open>emplace\<close>.\<close>

definition parse_initialized_b8_globals :: "string \<Rightarrow> nat \<Rightarrow> (string \<times> GlobalFormat) list" where
  "parse_initialized_b8_globals ptx max_length =
     concat (map (\<lambda>(i, n, c). global_format max_length c) (search_all declaration_regex 0 ptx))"

fun format_uses_argument :: "string \<Rightarrow> bool" where
  "format_uses_argument [] = False"
| "format_uses_argument (c # s) =
     (if c \<noteq> CHR ''%'' then format_uses_argument s
      else if s \<noteq> [] \<and> hd s = CHR ''%'' then format_uses_argument (tl s) else True)"

section \<open>Results\<close>

record PrintfFormatEntry =
  fe_id :: u32
  fe_token :: string
  fe_literal :: bool
  fe_truncated :: bool

record PrintfLoweredCall =
  pc_source_line :: int
  pc_source_opcode :: string
  pc_format_id :: u32
  pc_format_token :: string
  pc_arguments :: "string list"
  pc_argument_bits :: "nat list"
  pc_null_format :: bool
  pc_abi_scaffold_lines :: "int list"

record PrintfLowerOptions =
  po_strict :: bool
  po_max_format_length :: nat
  po_ptx_source :: string

record PrintfLowerResult =
  pl_ok :: bool
  pl_calls :: "PrintfLoweredCall list"
  pl_formats :: "PrintfFormatEntry list"
  pl_warnings :: "string list"
  pl_error :: string

definition no_printf :: PrintfLowerResult where
  "no_printf = \<lparr>pl_ok = False, pl_calls = [], pl_formats = [], pl_warnings = [], pl_error = []\<rparr>"

definition no_call :: PrintfLoweredCall where
  "no_call = \<lparr>pc_source_line = 0, pc_source_opcode = [], pc_format_id = 0, pc_format_token = [],
     pc_arguments = [], pc_argument_bits = [], pc_null_format = False, pc_abi_scaffold_lines = []\<rparr>"

text \<open>
  The format table and its index: a known token keeps its number, a new one gets the next.
\<close>

type_synonym format_table = "PrintfFormatEntry list \<times> (string \<Rightarrow> u32 option)"

definition intern_format :: "string \<Rightarrow> bool \<Rightarrow> bool \<Rightarrow> format_table \<Rightarrow> u32 \<times> format_table" where
  "intern_format token literal truncated = (\<lambda>(formats, ids).
     case ids token of
       Some k \<Rightarrow> (k, formats, ids)
     | None \<Rightarrow> let k = of_nat (length formats) in
         (k, formats @ [\<lparr>fe_id = k, fe_token = token, fe_literal = literal, fe_truncated = truncated\<rparr>],
          ids(token \<mapsto> k)))"

definition mark_truncated :: "bool \<Rightarrow> u32 \<Rightarrow> PrintfFormatEntry list \<Rightarrow> PrintfFormatEntry list" where
  "mark_truncated again k formats =
     (if again \<and> unat k < length formats then formats[unat k := (formats ! unat k)\<lparr>fe_truncated := True\<rparr>] else formats)"

section \<open>Calls with a format in the call\<close>

record PlainState =
  ps_result :: PrintfLowerResult
  ps_ids :: "string \<Rightarrow> u32 option"

definition at_line :: "string \<Rightarrow> Instruction \<Rightarrow> string" where
  "at_line message i = message @ '' at line '' @ show_int (in_line i)"

text \<open>\<open>fail_or_warn\<close>: \<open>Inl\<close> is the result of the whole call.\<close>

definition fail_or_warn :: "bool \<Rightarrow> string \<Rightarrow> PlainState \<Rightarrow> PrintfLowerResult + PlainState" where
  "fail_or_warn strict message st =
     (let r = ps_result st in
      if strict then Inl (r\<lparr>pl_error := message\<rparr>)
      else Inr (st\<lparr>ps_result := r\<lparr>pl_warnings := pl_warnings r @ [message]\<rparr>\<rparr>))"

record FormatToken =
  ft_token :: string
  ft_literal :: bool
  ft_truncated :: bool
  ft_null :: bool

definition canonical_token :: "nat \<Rightarrow> string \<Rightarrow> FormatToken" where
  "canonical_token max_length raw =
     (if raw = ''0'' then \<lparr>ft_token = [], ft_literal = True, ft_truncated = False, ft_null = True\<rparr>
      else if is_quoted_string raw then
        (let t = unescape_string_literal raw
         in \<lparr>ft_token = take max_length t, ft_literal = True, ft_truncated = max_length < length t, ft_null = False\<rparr>)
      else \<lparr>ft_token = raw, ft_literal = False, ft_truncated = False, ft_null = False\<rparr>)"

definition plain_call :: "Instruction \<Rightarrow> string list \<Rightarrow> FormatToken \<Rightarrow> u32 \<Rightarrow> PrintfLoweredCall" where
  "plain_call i args ft k =
     (let arguments = (if ft_null ft then [] else tl args)
      in no_call\<lparr>pc_source_line := in_line i, pc_source_opcode := in_opcode i, pc_format_id := k,
           pc_format_token := ft_token ft, pc_null_format := ft_null ft, pc_arguments := arguments,
           pc_argument_bits := replicate (length arguments) 32\<rparr>)"

definition plain_warnings :: "PrintfLowerOptions \<Rightarrow> Instruction \<Rightarrow> FormatToken \<Rightarrow> string list" where
  "plain_warnings options i ft =
     (if ft_truncated ft then [at_line (''printf_lower: format literal truncated to '' @
        show_nat (po_max_format_length options) @ '' bytes'') i] else [])"

definition emit_plain :: "PrintfLowerOptions \<Rightarrow> Instruction \<Rightarrow> string list \<Rightarrow> FormatToken \<Rightarrow> PlainState \<Rightarrow> PlainState" where
  "emit_plain options i args ft st =
     (let r = ps_result st in
      case intern_format (ft_token ft) (ft_literal ft) (ft_truncated ft) (pl_formats r, ps_ids st) of
        (k, formats, ids) \<Rightarrow>
          \<lparr>ps_result = r\<lparr>
             pl_formats := mark_truncated (ps_ids st (ft_token ft) \<noteq> None \<and> ft_truncated ft) k formats,
             pl_calls := pl_calls r @ [plain_call i args ft k],
             pl_warnings := pl_warnings r @ plain_warnings options i ft\<rparr>,
           ps_ids = ids\<rparr>)"

definition plain_step :: "PrintfLowerOptions \<Rightarrow> Instruction \<Rightarrow> PlainState \<Rightarrow> PrintfLowerResult + PlainState" where
  "plain_step options i st =
     (let operands = in_operands i; callee = find_printf_callee_index operands in
      if \<not> starts_with (in_opcode i) ''call'' \<or> callee = length operands then Inr st
      else if length operands \<le> callee + 1
      then fail_or_warn (po_strict options) (at_line ''printf_lower: missing argument tuple'' i) st
      else let args = split_call_args (operands ! (callee + 1)) in
        if args = [] then fail_or_warn (po_strict options) (at_line ''printf_lower: empty argument tuple'' i) st
        else let raw = trim (hd args) in
          if raw = [] then fail_or_warn (po_strict options) (at_line ''printf_lower: empty format token'' i) st
          else Inr (emit_plain options i args (canonical_token (po_max_format_length options) raw) st))"

primrec plain_calls :: "PrintfLowerOptions \<Rightarrow> Instruction list \<Rightarrow> PlainState \<Rightarrow> PrintfLowerResult" where
  "plain_calls options [] st = (ps_result st)\<lparr>pl_ok := True\<rparr>"
| "plain_calls options (i # is) st =
     (case plain_step options i st of Inl r \<Rightarrow> r | Inr st' \<Rightarrow> plain_calls options is st')"

section \<open>The tuple of Clang's front end\<close>

record PackedArgument =
  pk_offset :: u64
  pk_value :: string
  pk_bits :: nat

record ClangState =
  cl_local :: "string \<Rightarrow> u64 option"
  cl_global :: "string \<Rightarrow> string option"
  cl_param :: "string \<Rightarrow> string option"
  cl_packed :: "PackedArgument list"
  cl_scaffold :: "int list"
  cl_result :: PrintfLowerResult
  cl_ids :: "string \<Rightarrow> u32 option"
  cl_seen :: nat

text \<open>\<open>std::set<int>\<close> in its order.\<close>

definition add_line :: "int \<Rightarrow> ClangState \<Rightarrow> ClangState" where
  "add_line line st =
     (if line \<in> set (cl_scaffold st) then st else st\<lparr>cl_scaffold := insort line (cl_scaffold st)\<rparr>)"

definition set_local :: "string \<Rightarrow> u64 \<Rightarrow> Instruction \<Rightarrow> ClangState \<Rightarrow> ClangState" where
  "set_local dest offset i st = add_line (in_line i) (st\<lparr>cl_local := (cl_local st)(dest \<mapsto> offset)\<rparr>)"

definition set_global :: "string \<Rightarrow> string \<Rightarrow> Instruction \<Rightarrow> ClangState \<Rightarrow> ClangState" where
  "set_global dest name i st = add_line (in_line i) (st\<lparr>cl_global := (cl_global st)(dest \<mapsto> name)\<rparr>)"

definition clang_mov :: "(string \<times> GlobalFormat) list \<Rightarrow> Instruction \<Rightarrow> ClangState \<Rightarrow> ClangState" where
  "clang_mov globals i st =
     (let dest = extract_register_name (in_operands i ! 0); src = in_operands i ! 1;
          src_reg = extract_register_name src
      in if dest \<noteq> [] \<and> contains_sub src ''__local_depot'' then set_local dest 0 i st
         else if dest \<noteq> [] \<and> map_of globals (trim src) \<noteq> None then set_global dest (trim src) i st
         else if dest \<noteq> [] \<and> src_reg \<noteq> [] then
           (case cl_local st src_reg of None \<Rightarrow> st | Some offset \<Rightarrow> set_local dest offset i st)
         else st)"

definition clang_cvta_local :: "Instruction \<Rightarrow> ClangState \<Rightarrow> ClangState" where
  "clang_cvta_local i st =
     (let dest = extract_register_name (in_operands i ! 0); src = extract_register_name (in_operands i ! 1)
      in case (if dest = [] then None else cl_local st src) of
           None \<Rightarrow> st | Some offset \<Rightarrow> set_local dest offset i st)"

definition clang_cvta_global :: "Instruction \<Rightarrow> ClangState \<Rightarrow> ClangState" where
  "clang_cvta_global i st =
     (let dest = extract_register_name (in_operands i ! 0); src = extract_register_name (in_operands i ! 1)
      in case (if dest = [] then None else cl_global st src) of
           None \<Rightarrow> st | Some name \<Rightarrow> set_global dest name i st)"

definition clang_add :: "Instruction \<Rightarrow> ClangState \<Rightarrow> ClangState" where
  "clang_add i st =
     (let dest = extract_register_name (in_operands i ! 0); base = extract_register_name (in_operands i ! 1)
      in case (decimal_offset (in_operands i ! 2), cl_local st base) of
           (Some offset, Some pointer) \<Rightarrow> if dest = [] then st else set_local dest (pointer + offset) i st
         | _ \<Rightarrow> st)"

definition lane_value :: "string \<Rightarrow> string option" where
  "lane_value lane =
     (let reg = extract_register_name lane in
      if reg \<noteq> [] then Some reg
      else if c_integer (trim lane) = None then None else Some (trim lane))"

text \<open>The lanes of a store, from the first offset on.\<close>

fun packed_lanes :: "u64 \<Rightarrow> nat \<Rightarrow> string list \<Rightarrow> PackedArgument list option" where
  "packed_lanes offset bits [] = Some []"
| "packed_lanes offset bits (lane # lanes) =
     (case lane_value lane of
        None \<Rightarrow> None
      | Some v \<Rightarrow> map_option (\<lambda>ps. \<lparr>pk_offset = offset, pk_value = v, pk_bits = bits\<rparr> # ps)
                   (packed_lanes (offset + of_nat (bits div 8)) bits lanes))"

definition joined_values :: "string list \<Rightarrow> string" where
  "joined_values operands =
     (let values = trim (foldl (\<lambda>acc s. (if acc = [] then acc else acc @ '','') @ s) [] operands)
      in if 2 \<le> length values \<and> hd values = CHR ''{'' \<and> last values = CHR ''}''
         then butlast (tl values) else values)"

definition clang_store :: "Instruction \<Rightarrow> ClangState \<Rightarrow> ClangState option" where
  "clang_store i st =
     (case parse_address (in_operands i ! 0) of
        None \<Rightarrow> Some st
      | Some address \<Rightarrow>
          (case cl_local st (ad_reg address) of
             None \<Rightarrow> Some st
           | Some pointer \<Rightarrow>
               let bits = (if contains_sub (in_opcode i) ''.b64'' then 64
                           else if contains_sub (in_opcode i) ''.b32'' then 32 else 0)
               in if bits = 0 then Some st
                  else let lanes = split_call_args (joined_values (tl (in_operands i))) in
                    if lanes = [] then None
                    else map_option (\<lambda>ps. add_line (in_line i) (st\<lparr>cl_packed := cl_packed st @ ps\<rparr>))
                           (packed_lanes (pointer + ad_offset address) bits lanes)))"

definition clang_store_param :: "Instruction \<Rightarrow> ClangState \<Rightarrow> ClangState" where
  "clang_store_param i st =
     (let param = extract_bracket_contents (in_operands i ! 0) in
      if param = [] then st
      else add_line (in_line i) (st\<lparr>cl_param := (cl_param st)(param \<mapsto> trim (in_operands i ! 1))\<rparr>))"

definition clang_moves :: "(string \<times> GlobalFormat) list \<Rightarrow> Instruction \<Rightarrow> ClangState \<Rightarrow> ClangState option" where
  "clang_moves globals i st =
     (let op = in_opcode i; n = length (in_operands i) in
      if op = ''mov.b64'' \<and> n = 2 then Some (clang_mov globals i st)
      else if starts_with op ''cvta.local'' \<and> n = 2 then Some (clang_cvta_local i st)
      else if starts_with op ''cvta.global'' \<and> n = 2 then Some (clang_cvta_global i st)
      else if op = ''add.u64'' \<and> n = 3 then Some (clang_add i st)
      else if starts_with op ''st.local'' \<and> 2 \<le> n then clang_store i st
      else if starts_with op ''st.param'' \<and> n = 2 then Some (clang_store_param i st)
      else Some st)"

text \<open>The arguments stored at and above the base, which must follow one another without a gap.\<close>

primrec contiguous :: "u64 \<Rightarrow> PackedArgument list \<Rightarrow> bool" where
  "contiguous expected [] = True"
| "contiguous expected (a # as) =
     (pk_offset a = expected \<and> contiguous (expected + of_nat (pk_bits a div 8)) as)"

definition tuple_arguments :: "u64 \<Rightarrow> PackedArgument list \<Rightarrow> PackedArgument list option" where
  "tuple_arguments base packed =
     (let args = sort_key (\<lambda>a. unat (pk_offset a)) (filter (\<lambda>a. base \<le> pk_offset a) packed)
      in if args = [] \<or> \<not> contiguous base args then None else Some args)"

definition clang_argument :: "ClangState \<Rightarrow> PackedArgument \<Rightarrow> string" where
  "clang_argument st a = (case cl_global st (pk_value a) of None \<Rightarrow> pk_value a | Some g \<Rightarrow> g)"

definition clang_record :: "Instruction \<Rightarrow> string \<Rightarrow> bool \<Rightarrow> PackedArgument list \<Rightarrow> ClangState \<Rightarrow> u32 \<Rightarrow>
    PrintfLoweredCall" where
  "clang_record i token null_format args st k = no_call\<lparr>pc_source_line := in_line i,
     pc_source_opcode := in_opcode i, pc_format_id := k, pc_format_token := token,
     pc_null_format := null_format, pc_arguments := map (clang_argument st) args,
     pc_argument_bits := map pk_bits args, pc_abi_scaffold_lines := cl_scaffold st\<rparr>"

definition emit_clang :: "string \<Rightarrow> bool \<Rightarrow> bool \<Rightarrow> PackedArgument list \<Rightarrow> string list \<Rightarrow> Instruction \<Rightarrow>
    ClangState \<Rightarrow> ClangState" where
  "emit_clang token truncated null_format args ws i st =
     (let r = cl_result st in
      case intern_format token True truncated (pl_formats r, cl_ids st) of
        (k, formats, ids) \<Rightarrow>
          st\<lparr>cl_ids := ids, cl_packed := [],
             cl_result := r\<lparr>pl_formats := formats,
               pl_calls := pl_calls r @ [clang_record i token null_format args st k],
               pl_warnings := pl_warnings r @ (if cl_ids st token = None \<and> truncated then ws else [])\<rparr>\<rparr>)"

text \<open>The arguments of a call whose tuple pointer is known, or none for a null tuple.\<close>

definition call_arguments :: "string \<Rightarrow> GlobalFormat \<Rightarrow> ClangState \<Rightarrow> PackedArgument list option" where
  "call_arguments tuple_value format st =
     (if trim tuple_value = ''0'' then (if format_uses_argument (gf_bytes format) then None else Some [])
      else do {
        base \<leftarrow> cl_local st (extract_register_name tuple_value);
        tuple_arguments base (cl_packed st)
      })"

definition clang_emission ::
  "nat \<Rightarrow> (string \<times> GlobalFormat) list \<Rightarrow> Instruction \<Rightarrow> string list \<Rightarrow> ClangState \<Rightarrow> ClangState option" where
  "clang_emission max_length globals i args st = do {
     format_value \<leftarrow> cl_param st (trim (args ! 0));
     tuple_value \<leftarrow> cl_param st (trim (args ! 1));
     (if trim format_value = ''0'' then Some (emit_clang [] False True [] [] i st)
      else do {
        global \<leftarrow> cl_global st (extract_register_name format_value);
        format \<leftarrow> map_of globals global;
        arguments \<leftarrow> call_arguments tuple_value format st;
        Some (emit_clang (gf_bytes format) (gf_truncated format) False arguments
          [at_line (''printf_lower: module-global format truncated to '' @ show_nat max_length @ '' bytes'') i] i st)
      })
   }"

definition clang_call :: "nat \<Rightarrow> (string \<times> GlobalFormat) list \<Rightarrow> Instruction \<Rightarrow> ClangState \<Rightarrow> ClangState option" where
  "clang_call max_length globals i st =
     (let operands = in_operands i; callee = find_printf_callee_index operands in
      if \<not> starts_with (in_opcode i) ''call'' \<or> callee = length operands then Some st
      else if length operands \<le> callee + 1 then None
      else let args = split_call_args (operands ! (callee + 1)) in
        if length args \<noteq> 2 \<or> is_quoted_string (trim (args ! 0)) then None
        else clang_emission max_length globals i args (st\<lparr>cl_seen := cl_seen st + 1\<rparr>))"

primrec clang_calls :: "nat \<Rightarrow> (string \<times> GlobalFormat) list \<Rightarrow> Instruction list \<Rightarrow> ClangState \<Rightarrow> ClangState option" where
  "clang_calls max_length globals [] st = Some st"
| "clang_calls max_length globals (i # is) st = do {
     st1 \<leftarrow> clang_moves globals i st;
     st2 \<leftarrow> clang_call max_length globals i st1;
     clang_calls max_length globals is st2
   }"

definition lower_clang_vprintf_abi :: "EntryFunction \<Rightarrow> PrintfLowerOptions \<Rightarrow> PrintfLowerResult option" where
  "lower_clang_vprintf_abi entry options =
     (let globals = parse_initialized_b8_globals (po_ptx_source options) (po_max_format_length options) in
      if po_ptx_source options = [] \<or> globals = [] then None
      else do {
        st \<leftarrow> clang_calls (po_max_format_length options) globals (ef_instructions entry)
          \<lparr>cl_local = (\<lambda>_. None), cl_global = (\<lambda>_. None), cl_param = (\<lambda>_. None), cl_packed = [],
           cl_scaffold = [], cl_result = no_printf, cl_ids = (\<lambda>_. None), cl_seen = 0\<rparr>;
        (if cl_seen st = 0 \<or> length (pl_calls (cl_result st)) \<noteq> cl_seen st then None
         else Some ((cl_result st)\<lparr>pl_ok := True\<rparr>))
      })"

definition lower_printf_calls :: "EntryFunction \<Rightarrow> PrintfLowerOptions \<Rightarrow> PrintfLowerResult" where
  "lower_printf_calls entry options =
     (case lower_clang_vprintf_abi entry options of
        Some r \<Rightarrow> r
      | None \<Rightarrow> plain_calls options (ef_instructions entry) \<lparr>ps_result = no_printf, ps_ids = (\<lambda>_. None)\<rparr>)"

section \<open>The format table\<close>

definition table_ok :: "PrintfFormatEntry list \<Rightarrow> bool" where
  "table_ok formats \<longleftrightarrow> distinct (map fe_token formats) \<and>
     map fe_id formats = map of_nat [0..<length formats]"

definition call_ok :: "PrintfFormatEntry list \<Rightarrow> PrintfLoweredCall \<Rightarrow> bool" where
  "call_ok formats c \<longleftrightarrow> unat (pc_format_id c) < length formats \<and>
     fe_token (formats ! unat (pc_format_id c)) = pc_format_token c \<and>
     length (pc_argument_bits c) = length (pc_arguments c)"

text \<open>The index knows exactly the tokens of the table; the table has at most \<open>n\<close> entries.\<close>

definition index_ok :: "PrintfFormatEntry list \<Rightarrow> (string \<Rightarrow> u32 option) \<Rightarrow> bool" where
  "index_ok formats ids \<longleftrightarrow> (\<forall>t. case ids t of
     None \<Rightarrow> t \<notin> set (map fe_token formats)
   | Some k \<Rightarrow> unat k < length formats \<and> map fe_token formats ! unat k = t)"

definition printf_ok :: "nat \<Rightarrow> PrintfLowerResult \<Rightarrow> (string \<Rightarrow> u32 option) \<Rightarrow> bool" where
  "printf_ok n r ids \<longleftrightarrow> table_ok (pl_formats r) \<and> index_ok (pl_formats r) ids \<and>
     list_all (call_ok (pl_formats r)) (pl_calls r) \<and> length (pl_formats r) \<le> n"

lemma printf_ok_no [simp]: "printf_ok n no_printf (\<lambda>_. None)"
  by (simp add: printf_ok_def table_ok_def index_ok_def no_printf_def)

lemma printf_ok_mono: "printf_ok n r ids \<Longrightarrow> n \<le> m \<Longrightarrow> printf_ok m r ids"
  by (simp add: printf_ok_def)

lemma intern_format_ok:
  assumes "table_ok formats" "index_ok formats ids" "length formats < 4294967295"
    and i: "intern_format token literal truncated (formats, ids) = (k, formats', ids')"
  shows "table_ok formats' \<and> index_ok formats' ids' \<and> unat k < length formats' \<and>
    fe_token (formats' ! unat k) = token \<and> length formats' \<le> Suc (length formats) \<and>
    map fe_token formats = take (length formats) (map fe_token formats') \<and> length formats \<le> length formats'"
proof (cases "ids token")
  case (Some k')
  then have "unat k' < length formats \<and> fe_token (formats ! unat k') = token"
    using assms(2) by (auto simp: index_ok_def split: option.splits dest: spec [of _ token])
  moreover have "k = k'" "formats' = formats" "ids' = ids" using i Some by (simp_all add: intern_format_def)
  ultimately show ?thesis
    using assms(1,2) by simp
next
  case None
  let ?k = "of_nat (length formats) :: u32"
  let ?e = "\<lparr>fe_id = ?k, fe_token = token, fe_literal = literal, fe_truncated = truncated\<rparr>"
  have eq: "k = ?k" "formats' = formats @ [?e]" "ids' = ids(token \<mapsto> ?k)"
    using i None by (auto simp: intern_format_def Let_def)
  have u: "unat ?k = length formats" using assms(3) by (simp add: unat_of_nat)
  have new: "token \<notin> set (map fe_token formats)"
    using assms(2) None by (auto simp: index_ok_def split: option.splits dest: spec [of _ token])
  have "index_ok (formats @ [?e]) (ids(token \<mapsto> ?k))"
    unfolding index_ok_def
  proof
    fix t
    have "case ids t of None \<Rightarrow> t \<notin> set (map fe_token formats)
        | Some j \<Rightarrow> unat j < length formats \<and> map fe_token formats ! unat j = t"
      using assms(2) by (simp add: index_ok_def)
    then show "case (ids(token \<mapsto> ?k)) t of None \<Rightarrow> t \<notin> set (map fe_token (formats @ [?e]))
        | Some j \<Rightarrow> unat j < length (formats @ [?e]) \<and> map fe_token (formats @ [?e]) ! unat j = t"
      using u by (cases "t = token") (auto simp: nth_append split: option.splits)
  qed
  moreover have "table_ok (formats @ [?e])"
    using assms(1) new by (simp add: table_ok_def)
  ultimately show ?thesis
    using u by (simp add: eq)
qed

lemma call_ok_grow:
  assumes "call_ok formats c" "map fe_token formats = take (length formats) (map fe_token formats')"
    "length formats \<le> length formats'"
  shows "call_ok formats' c"
proof -
  let ?j = "unat (pc_format_id c)"
  have j: "?j < length formats" using assms(1) by (simp add: call_ok_def)
  then have "map fe_token formats ! ?j = map fe_token formats' ! ?j" using assms(2) by (simp add: nth_take)
  then show ?thesis using assms(1,3) j by (simp add: call_ok_def)
qed

text \<open>A new call with its interned token; only the truncation flag of an old entry may change.\<close>

lemma printf_ok_emit:
  assumes "printf_ok n r ids" "n < 4294967295"
    and i: "intern_format token literal truncated (pl_formats r, ids) = (k, formats, ids')"
    and f: "map fe_token formats' = map fe_token formats" "map fe_id formats' = map fe_id formats"
    and c: "pc_format_id c = k" "pc_format_token c = token" "length (pc_argument_bits c) = length (pc_arguments c)"
  shows "printf_ok (Suc n) (r\<lparr>pl_formats := formats', pl_calls := pl_calls r @ [c], pl_warnings := ws\<rparr>) ids'"
proof -
  have r: "table_ok (pl_formats r)" "index_ok (pl_formats r) ids" "length (pl_formats r) \<le> n"
    "list_all (call_ok (pl_formats r)) (pl_calls r)"
    using assms(1) by (simp_all add: printf_ok_def)
  have "length (pl_formats r) < 4294967295" using r(3) assms(2) by linarith
  from intern_format_ok [OF r(1,2) this i]
  have n: "table_ok formats" "index_ok formats ids'" "unat k < length formats"
    "fe_token (formats ! unat k) = token" "length formats \<le> Suc (length (pl_formats r))"
    "map fe_token (pl_formats r) = take (length (pl_formats r)) (map fe_token formats)"
    "length (pl_formats r) \<le> length formats" by blast+
  have len: "length formats' = length formats" using arg_cong [OF f(1), of length] by simp
  have tok: "fe_token (formats' ! j) = fe_token (formats ! j)" if "j < length formats" for j
    using arg_cong [OF f(1), of "\<lambda>xs. xs ! j"] that len by simp
  have "table_ok formats'" using n(1) f len by (simp add: table_ok_def)
  moreover have "index_ok formats' ids'"
    using n(2) unfolding index_ok_def f(1) len .
  moreover have "call_ok formats' c" using n(3,4) len tok c by (simp add: call_ok_def)
  moreover have "list_all (call_ok formats') (pl_calls r)"
    using r(4) n(6,7) f(1) len call_ok_grow by (auto simp: list_all_iff)
  ultimately show ?thesis using n(5) r(3) len by (simp add: printf_ok_def)
qed

lemma mark_truncated_same:
  "map fe_token (mark_truncated b k fs) = map fe_token fs" "map fe_id (mark_truncated b k fs) = map fe_id fs"
  by (simp_all add: mark_truncated_def list_eq_iff_nth_eq nth_list_update)

lemma emit_plain_ok:
  assumes "printf_ok n (ps_result st) (ps_ids st)" "n < 4294967295"
  shows "printf_ok (Suc n) (ps_result (emit_plain options i args ft st)) (ps_ids (emit_plain options i args ft st))"
proof -
  obtain k formats ids where e: "intern_format (ft_token ft) (ft_literal ft) (ft_truncated ft)
      (pl_formats (ps_result st), ps_ids st) = (k, formats, ids)" by (metis surj_pair)
  have "length (pc_argument_bits (plain_call i args ft k)) = length (pc_arguments (plain_call i args ft k))"
    "pc_format_id (plain_call i args ft k) = k" "pc_format_token (plain_call i args ft k) = ft_token ft"
    by (simp_all add: plain_call_def Let_def)
  then show ?thesis
    by (simp add: emit_plain_def Let_def e printf_ok_emit [OF assms e mark_truncated_same])
qed

lemma plain_step_ok:
  assumes "printf_ok n (ps_result st) (ps_ids st)" "n < 4294967295"
  shows "case plain_step options i st of
      Inl r \<Rightarrow> pl_error r \<noteq> [] \<and> \<not> pl_ok r \<or> pl_ok (ps_result st)
    | Inr st' \<Rightarrow> printf_ok (Suc n) (ps_result st') (ps_ids st') \<and> pl_ok (ps_result st') = pl_ok (ps_result st) \<and>
        pl_error (ps_result st') = pl_error (ps_result st)"
proof -
  have same: "printf_ok (Suc n) (ps_result st) (ps_ids st)" by (rule printf_ok_mono [OF assms(1)]) simp
  have fail: "case fail_or_warn strict (at_line m i) st of
      Inl r \<Rightarrow> pl_error r \<noteq> [] \<and> \<not> pl_ok r \<or> pl_ok (ps_result st)
    | Inr st' \<Rightarrow> printf_ok (Suc n) (ps_result st') (ps_ids st') \<and> pl_ok (ps_result st') = pl_ok (ps_result st) \<and>
        pl_error (ps_result st') = pl_error (ps_result st)" for strict m
    using same by (simp add: fail_or_warn_def Let_def printf_ok_def at_line_def)
  have emit: "printf_ok (Suc n) (ps_result (emit_plain options i args ft st)) (ps_ids (emit_plain options i args ft st)) \<and>
      pl_ok (ps_result (emit_plain options i args ft st)) = pl_ok (ps_result st) \<and>
      pl_error (ps_result (emit_plain options i args ft st)) = pl_error (ps_result st)" for args ft
    using emit_plain_ok [OF assms] by (simp add: emit_plain_def Let_def split: prod.split)
  show ?thesis
    using same fail emit by (simp add: plain_step_def Let_def)
qed

text \<open>A finished lowering.\<close>

definition printf_result_ok :: "PrintfLowerResult \<Rightarrow> bool" where
  "printf_result_ok r \<longleftrightarrow> (if pl_ok r then table_ok (pl_formats r) \<and> list_all (call_ok (pl_formats r)) (pl_calls r)
     else pl_error r \<noteq> [])"

lemma plain_calls_ok:
  "printf_ok n (ps_result st) (ps_ids st) \<Longrightarrow> n + length is < 4294967296 \<Longrightarrow> \<not> pl_ok (ps_result st) \<Longrightarrow>
   printf_result_ok (plain_calls options is st)"
proof (induction "is" arbitrary: n st)
  case Nil
  then show ?case by (simp add: printf_result_ok_def printf_ok_def)
next
  case (Cons i rest)
  have n: "n < 4294967295" using Cons.prems(2) by simp
  show ?case
  proof (cases "plain_step options i st")
    case (Inl r)
    then show ?thesis using plain_step_ok [OF Cons.prems(1) n, of options i] Cons.prems(3)
      by (simp add: printf_result_ok_def)
  next
    case (Inr st')
    then show ?thesis
      using plain_step_ok [OF Cons.prems(1) n, of options i] Cons.prems Cons.IH [of "Suc n" st'] by simp
  qed
qed

lemma clang_keeps:
  "cl_result (add_line l st) = cl_result st" "cl_ids (add_line l st) = cl_ids st"
  by (simp_all add: add_line_def)

lemma clang_moves_keep:
  "clang_moves globals i st = Some st' \<Longrightarrow> cl_result st' = cl_result st \<and> cl_ids st' = cl_ids st"
  by (auto simp: clang_moves_def clang_mov_def clang_cvta_local_def clang_cvta_global_def clang_add_def
      clang_store_def clang_store_param_def set_local_def set_global_def clang_keeps Let_def
      split: if_splits option.splits)

lemma emit_clang_ok:
  assumes "printf_ok n (cl_result st) (cl_ids st)" "n < 4294967295"
  shows "printf_ok (Suc n) (cl_result (emit_clang token truncated null_format args ws i st))
    (cl_ids (emit_clang token truncated null_format args ws i st))"
proof -
  obtain k formats ids where e: "intern_format token True truncated (pl_formats (cl_result st), cl_ids st) = (k, formats, ids)"
    by (metis surj_pair)
  have "length (pc_argument_bits (clang_record i token null_format args st k)) =
      length (pc_arguments (clang_record i token null_format args st k))"
    "pc_format_id (clang_record i token null_format args st k) = k"
    "pc_format_token (clang_record i token null_format args st k) = token"
    by (simp_all add: clang_record_def)
  then show ?thesis
    by (simp add: emit_clang_def Let_def e printf_ok_emit [OF assms e refl refl])
qed

lemma clang_emission_cases:
  assumes "clang_emission m globals i args st = Some st'"
  obtains token truncated null_format as ws where "st' = emit_clang token truncated null_format as ws i st"
proof -
  obtain fv tv where v: "cl_param st (trim (args ! 0)) = Some fv" "cl_param st (trim (args ! 1)) = Some tv"
    using assms by (auto simp: clang_emission_def bind_eq_Some_conv)
  show ?thesis
  proof (cases "trim fv = ''0''")
    case True
    then show ?thesis using assms v that by (auto simp: clang_emission_def)
  next
    case False
    then show ?thesis using assms v that by (auto simp: clang_emission_def bind_eq_Some_conv)
  qed
qed

lemma clang_call_ok:
  assumes "printf_ok n (cl_result st) (cl_ids st)" "n < 4294967295" "clang_call m globals i st = Some st'"
  shows "printf_ok (Suc n) (cl_result st') (cl_ids st')"
proof -
  have same: "printf_ok (Suc n) (cl_result st) (cl_ids st)" by (rule printf_ok_mono [OF assms(1)]) simp
  have seen: "printf_ok n (cl_result (st\<lparr>cl_seen := k\<rparr>)) (cl_ids (st\<lparr>cl_seen := k\<rparr>))" for k using assms(1) by simp
  show ?thesis
  proof (cases "st' = st")
    case True
    then show ?thesis using same by simp
  next
    case False
    then obtain args where "clang_emission m globals i args (st\<lparr>cl_seen := cl_seen st + 1\<rparr>) = Some st'"
      using assms(3) by (auto simp: clang_call_def Let_def split: if_splits)
    then obtain token truncated null_format as ws
      where "st' = emit_clang token truncated null_format as ws i (st\<lparr>cl_seen := cl_seen st + 1\<rparr>)"
      by (rule clang_emission_cases)
    then show ?thesis using emit_clang_ok [OF seen assms(2)] by simp
  qed
qed

lemma clang_calls_ok:
  "printf_ok n (cl_result st) (cl_ids st) \<Longrightarrow> n + length is < 4294967296 \<Longrightarrow>
   clang_calls m globals is st = Some st' \<Longrightarrow> \<exists>k. printf_ok k (cl_result st') (cl_ids st')"
proof (induction "is" arbitrary: n st)
  case Nil
  then show ?case by auto
next
  case (Cons i rest)
  then obtain st1 st2 where s: "clang_moves globals i st = Some st1" "clang_call m globals i st1 = Some st2"
      "clang_calls m globals rest st2 = Some st'"
    by (auto simp: bind_eq_Some_conv)
  have "printf_ok n (cl_result st1) (cl_ids st1)" using clang_moves_keep [OF s(1)] Cons.prems(1) by simp
  then have "printf_ok (Suc n) (cl_result st2) (cl_ids st2)"
    using Cons.prems(2) by (intro clang_call_ok [OF _ _ s(2)]) simp_all
  then show ?case using Cons.IH [OF _ _ s(3), of "Suc n"] Cons.prems(2) by simp
qed

lemma lower_printf_ok:
  assumes "length (ef_instructions e) < 4294967296"
  shows "printf_result_ok (lower_printf_calls e options)"
proof (cases "lower_clang_vprintf_abi e options")
  case None
  have "printf_result_ok (plain_calls options (ef_instructions e) \<lparr>ps_result = no_printf, ps_ids = (\<lambda>_. None)\<rparr>)"
    by (rule plain_calls_ok [of 0]) (use assms in \<open>simp_all add: no_printf_def table_ok_def index_ok_def printf_ok_def\<close>)
  then show ?thesis by (simp add: lower_printf_calls_def None)
next
  case (Some r)
  then obtain st where st: "clang_calls (po_max_format_length options)
      (parse_initialized_b8_globals (po_ptx_source options) (po_max_format_length options)) (ef_instructions e)
          \<lparr>cl_local = (\<lambda>_. None), cl_global = (\<lambda>_. None), cl_param = (\<lambda>_. None), cl_packed = [],
           cl_scaffold = [], cl_result = no_printf, cl_ids = (\<lambda>_. None), cl_seen = 0\<rparr> = Some st"
      "r = (cl_result st)\<lparr>pl_ok := True\<rparr>"
    by (auto simp: lower_clang_vprintf_abi_def Let_def bind_eq_Some_conv split: if_splits)
  from clang_calls_ok [OF _ _ st(1), of 0] assms obtain k where "printf_ok k (cl_result st) (cl_ids st)" by auto
  then show ?thesis by (simp add: lower_printf_calls_def Some st(2) printf_result_ok_def printf_ok_def)
qed

text \<open>
  The format table of a lowered entry is sound on both paths: formats are numbered by their
  position and their texts are distinct, every call names an entry of the table that holds its
  text, and gives a width for each of its arguments; a failed lowering has an error.
\<close>

lemma lower_printf_calls_table:
  assumes "length (ef_instructions e) < 4294967296"
  shows "printf_result_ok (lower_printf_calls e options)"
  using lower_printf_ok [OF assms] .

text \<open>Two formats that share a token: one text in quotes, one opaque operand.\<close>

definition printf_call :: "string \<Rightarrow> Instruction" where
  "printf_call args = no_instruction\<lparr>in_opcode := ''call'', in_operands := [''vprintf'', args]\<rparr>"

definition shared_token_entry :: EntryFunction where
  "shared_token_entry = (new_entry ''k'')\<lparr>ef_instructions :=
     [printf_call ''(fmt, %r1)'', printf_call (''('' @ [CHR 0x22] @ ''fmt'' @ [CHR 0x22] @ '')'')]\<rparr>"

definition plain_options :: PrintfLowerOptions where
  "plain_options = \<lparr>po_strict = True, po_max_format_length = 256, po_ptx_source = []\<rparr>"

lemma shared_token_lowered:
  "map (\<lambda>f. (fe_token f, fe_literal f)) (pl_formats (lower_printf_calls shared_token_entry plain_options)) = [(''fmt'', False)]"
  "map pc_format_id (pl_calls (lower_printf_calls shared_token_entry plain_options)) = [0, 0]"
  "pl_ok (lower_printf_calls shared_token_entry plain_options)"
  by code_simp+

lemma lower_printf_calls_table_witness:
  "printf_result_ok (lower_printf_calls shared_token_entry plain_options) \<and>
   length (pl_calls (lower_printf_calls shared_token_entry plain_options)) = 2"
proof -
  have "length (ef_instructions shared_token_entry) < 4294967296" by (simp add: shared_token_entry_def)
  from lower_printf_calls_table [OF this] show ?thesis
    using arg_cong [OF shared_token_lowered(2), of length] by simp
qed

end
