(* ===== verification/Phase1.thy ===== *)
theory Phase1
  imports PrintfLower
begin

text \<open>
  The first phase of the compiler, \<open>compiler/passes/src/phase1_pipeline.cpp\<close>: parse the module,
  choose an entry, run the passes over it, build its metadata.
\<close>

section \<open>Metadata values\<close>

definition escape_char :: "char \<Rightarrow> string" where
  "escape_char c =
     (if c = CHR 0x0A then [CHR 0x5C, CHR ''n''] else if c = CHR 0x09 then [CHR 0x5C, CHR ''t'']
      else if c = CHR 0x5C then [CHR 0x5C, CHR 0x5C] else [c])"

definition escape_metadata_value :: "string \<Rightarrow> string" where
  "escape_metadata_value s = concat (map escape_char s)"

lemma unescape_escape: "unescape_loop (escape_metadata_value s) = s"
proof (induction s)
  case (Cons c s)
  have plain: "unescape_loop (c # escape_metadata_value s) = c # s" if "c \<noteq> CHR 0x5C"
    using that Cons by (cases "escape_metadata_value s") simp_all
  show ?case
    using Cons plain by (simp add: escape_metadata_value_def escape_char_def)
qed (simp add: escape_metadata_value_def)

text \<open>
  The escaping of metadata values is undone by the unescaping of the literals of printf calls:
  a format text put in quotes after escaping is read back as it was, so no two texts share an
  escaped form.
\<close>

lemma escape_metadata_roundtrip:
  "unescape_string_literal (CHR 0x22 # escape_metadata_value s @ [CHR 0x22]) = s \<and>
   ((escape_metadata_value s = escape_metadata_value t) = (s = t))"
proof
  let ?q = "CHR 0x22 # escape_metadata_value s @ [CHR 0x22]"
  have "is_quoted_string ?q" "butlast (tl ?q) = escape_metadata_value s"
    by (simp_all add: is_quoted_string_def butlast_append)
  then show "unescape_string_literal ?q = s" by (simp only: unescape_string_literal_def if_True unescape_escape)
  show "(escape_metadata_value s = escape_metadata_value t) = (s = t)"
    using unescape_escape [of s] unescape_escape [of t] by metis
qed

section \<open>The pipeline\<close>

record Phase1PipelineOptions =
  pp_strict :: bool
  pp_entry_name :: string
  pp_metadata :: MetadataOptions

record Phase1PipelineOutput =
  ph_ok :: bool
  ph_entry_name :: string
  ph_lowered_instructions :: "LoweredInstruction list"
  ph_printf_calls :: "PrintfLoweredCall list"
  ph_printf_formats :: "PrintfFormatEntry list"
  ph_addrspace_instructions :: "AddrspaceInstruction list"
  ph_metadata :: KernelMetadata
  ph_warnings :: "string list"
  ph_error :: string

definition no_output :: Phase1PipelineOutput where
  "no_output = \<lparr>ph_ok = False, ph_entry_name = [], ph_lowered_instructions = [], ph_printf_calls = [],
     ph_printf_formats = [], ph_addrspace_instructions = [],
     ph_metadata = \<lparr>km_kernel_name = [], km_fields = []\<rparr>, ph_warnings = [], ph_error = []\<rparr>"

definition printf_fields :: "PrintfFormatEntry \<Rightarrow> MetadataField list" where
  "printf_fields f =
     (let key = ''kernel.printf.'' @ show_nat (unat (fe_id f))
      in [metadata_field (key @ ''.token'') (escape_metadata_value (fe_token f)),
          metadata_field (key @ ''.literal'') (show_bool (fe_literal f)),
          metadata_field (key @ ''.truncated'') (show_bool (fe_truncated f))])"

definition add_printf_metadata :: "PrintfFormatEntry list \<Rightarrow> KernelMetadata \<Rightarrow> KernelMetadata" where
  "add_printf_metadata formats m = m\<lparr>km_fields := km_fields m @
     [metadata_field ''kernel.printf.count'' (show_nat (length formats))] @ concat (map printf_fields formats)\<rparr>"

text \<open>An entry by name, or the first one.\<close>

definition select_entry :: "string \<Rightarrow> EntryFunction list \<Rightarrow> EntryFunction option" where
  "select_entry name entries =
     (if name \<noteq> [] then find (\<lambda>e. ef_name e = name) entries
      else case entries of [] \<Rightarrow> None | e # _ \<Rightarrow> Some e)"

definition run_passes :: "string \<Rightarrow> Phase1PipelineOptions \<Rightarrow> EntryFunction \<Rightarrow> Phase1PipelineOutput" where
  "run_passes ptx options entry =
     (let out0 = no_output\<lparr>ph_entry_name := ef_name entry\<rparr>;
          lowered = lower_intrinsics entry (pp_strict options)
      in if \<not> il_ok lowered then out0\<lparr>ph_error := ''intrinsic_lower failed: '' @ il_error lowered\<rparr>
         else let out1 = out0\<lparr>ph_lowered_instructions := il_instructions lowered, ph_warnings := il_warnings lowered\<rparr>;
                  printf_lowered = lower_printf_calls entry
                    \<lparr>po_strict = pp_strict options, po_max_format_length = 256, po_ptx_source = ptx\<rparr>
         in if \<not> pl_ok printf_lowered then out1\<lparr>ph_error := ''printf_lower failed: '' @ pl_error printf_lowered\<rparr>
            else let out2 = out1\<lparr>ph_printf_calls := pl_calls printf_lowered,
                       ph_printf_formats := pl_formats printf_lowered,
                       ph_warnings := ph_warnings out1 @ pl_warnings printf_lowered\<rparr>;
                     addrspace = rewrite_addrspace entry (pp_strict options)
            in if \<not> ar_ok addrspace then out2\<lparr>ph_error := ''addrspace rewrite failed: '' @ ar_error addrspace\<rparr>
               else out2\<lparr>ph_addrspace_instructions := ar_instructions addrspace,
                      ph_warnings := ph_warnings out2 @ ar_warnings addrspace,
                      ph_metadata := add_printf_metadata (pl_formats printf_lowered)
                        (build_kernel_metadata entry (pp_metadata options)),
                      ph_ok := True\<rparr>)"

text \<open>The module is parsed in tolerant mode whatever the option says.\<close>

definition run_phase1_pipeline :: "string \<Rightarrow> Phase1PipelineOptions \<Rightarrow> Phase1PipelineOutput option" where
  "run_phase1_pipeline ptx options = do {
     parsed \<leftarrow> parse_ptx ptx False;
     Some (if \<not> pr_ok parsed then no_output\<lparr>ph_error := ''ptx parse failed: '' @ pr_error parsed\<rparr>
           else case select_entry (pp_entry_name options) (mo_entries (pr_module parsed)) of
             None \<Rightarrow> no_output\<lparr>ph_error := ''entry not found: '' @ pp_entry_name options\<rparr>
           | Some entry \<Rightarrow> run_passes ptx options entry)
   }"

section \<open>What an accepted kernel satisfies\<close>

lemma lowered_as_translated: "lowered_as op ops = Some l \<Longrightarrow> li_translated l"
  by (auto simp: lowered_as_def)

lemma maps_translated:
  "map_special_register_mov i = Some l \<Longrightarrow> li_translated l" "map_async_copy i = Some l \<Longrightarrow> li_translated l"
  "map_math i = Some l \<Longrightarrow> li_translated l"
  by (auto simp: map_special_register_mov_def map_async_copy_def map_math_def lowered_as_def
      split: option.splits if_splits)

lemma map_barrier_translated: "map_barrier i = Some l \<Longrightarrow> li_translated l"
  unfolding map_barrier_def Let_def by (simp only: split: if_split_asm) (auto dest: lowered_as_translated)

lemma map_warp_translated: "map_warp_primitives i = Some l \<Longrightarrow> li_translated l"
  unfolding map_warp_primitives_def Let_def by (simp only: split: if_split_asm) (auto dest: lowered_as_translated)

lemma translate_translated: "translate_instruction i = Some l \<Longrightarrow> li_translated l"
  using maps_translated map_barrier_translated map_warp_translated
  by (auto simp: translate_instruction_def split: option.splits)

lemma lower_step_instructions:
  "\<exists>l. il_instructions (lower_step r i) = il_instructions r @ [l] \<and>
     (il_warnings (lower_step r i) = il_warnings r \<longrightarrow>
        li_translated l \<or> in_supported i \<and> li_opcode l = in_opcode i \<and> li_operands l = in_operands i)"
  by (auto simp: lower_step_def push_lowered_def plain_lowered_def translate_translated split: option.split)

definition lowered_image :: "Instruction \<Rightarrow> LoweredInstruction \<Rightarrow> bool" where
  "lowered_image i l = (li_translated l \<or>
     in_supported i \<and> li_opcode l = in_opcode i \<and> li_operands l = in_operands i)"

lemma lower_step_warnings: "\<exists>ws. il_warnings (lower_step r i) = il_warnings r @ ws"
  by (simp add: lower_step_def push_lowered_def split: option.split)

lemma foldl_lower_warnings: "\<exists>ws. il_warnings (foldl lower_step r is) = il_warnings r @ ws"
proof (induction "is" arbitrary: r)
  case (Cons i rest)
  obtain a b where "il_warnings (lower_step r i) = il_warnings r @ a"
      "il_warnings (foldl lower_step (lower_step r i) rest) = il_warnings (lower_step r i) @ b"
    using lower_step_warnings Cons.IH by blast
  then show ?case by simp
qed simp

lemma foldl_lower_instructions:
  "\<exists>ls. il_instructions (foldl lower_step r is) = il_instructions r @ ls \<and> length ls = length is \<and>
     (il_warnings (foldl lower_step r is) = il_warnings r \<longrightarrow> list_all2 lowered_image is ls)"
proof (induction "is" arbitrary: r)
  case (Cons i rest)
  obtain l where l: "il_instructions (lower_step r i) = il_instructions r @ [l]"
      "il_warnings (lower_step r i) = il_warnings r \<Longrightarrow> lowered_image i l"
    using lower_step_instructions [of r i] by (auto simp: lowered_image_def)
  obtain ls where ls: "il_instructions (foldl lower_step (lower_step r i) rest) = il_instructions (lower_step r i) @ ls"
      "length ls = length rest"
      "il_warnings (foldl lower_step (lower_step r i) rest) = il_warnings (lower_step r i) \<longrightarrow> list_all2 lowered_image rest ls"
    using Cons.IH [of "lower_step r i"] by blast
  have same: "il_warnings (lower_step r i) = il_warnings r"
    if "il_warnings (foldl lower_step (lower_step r i) rest) = il_warnings r"
  proof -
    obtain a b where "il_warnings (lower_step r i) = il_warnings r @ a"
        "il_warnings (foldl lower_step (lower_step r i) rest) = il_warnings (lower_step r i) @ b"
      using lower_step_warnings foldl_lower_warnings by blast
    with that show ?thesis by simp
  qed
  show ?case
    by (rule exI [of _ "l # ls"]) (use l ls same in auto)
qed simp

lemma lower_intrinsics_images:
  assumes "il_ok (lower_intrinsics e True)"
  shows "list_all2 lowered_image (ef_instructions e) (il_instructions (lower_intrinsics e True))"
proof -
  let ?r = "\<lparr>il_ok = False, il_instructions = [], il_warnings = [], il_error = []\<rparr>"
  have k: "il_ok (foldl lower_step r is) = il_ok r" for r "is" by (induction "is" arbitrary: r) simp_all
  have "il_warnings (foldl lower_step ?r (ef_instructions e)) = []"
    using assms by (auto simp: lower_intrinsics_def Let_def k split: if_splits)
  then show ?thesis
    using foldl_lower_instructions [of ?r "ef_instructions e"] by (auto simp: lower_intrinsics_def Let_def)
qed

text \<open>What the passes over one entry leave in an accepted output.\<close>

definition compiled_from :: "bool \<Rightarrow> EntryFunction \<Rightarrow> Phase1PipelineOutput \<Rightarrow> bool" where
  "compiled_from strict e out \<longleftrightarrow> ph_entry_name out = ef_name e \<and> km_kernel_name (ph_metadata out) = ef_name e \<and>
     length (ph_lowered_instructions out) = length (ef_instructions e) \<and>
     list_all2 addrspace_image (ef_instructions e) (ph_addrspace_instructions out) \<and>
     table_ok (ph_printf_formats out) \<and> list_all (call_ok (ph_printf_formats out)) (ph_printf_calls out) \<and>
     (strict \<longrightarrow> list_all2 lowered_image (ef_instructions e) (ph_lowered_instructions out))"

lemma lower_intrinsics_length:
  "length (il_instructions (lower_intrinsics e strict)) = length (ef_instructions e)"
proof -
  let ?r = "\<lparr>il_ok = False, il_instructions = [], il_warnings = [], il_error = []\<rparr>"
  have "length (il_instructions (foldl lower_step ?r (ef_instructions e))) = length (ef_instructions e)"
    using foldl_lower_instructions [of ?r "ef_instructions e"] by auto
  then show ?thesis by (simp add: lower_intrinsics_def Let_def)
qed

lemma run_passes_ok:
  assumes "length (ef_instructions e) < 4294967296"
  shows "if ph_ok (run_passes ptx options e) then compiled_from (pp_strict options) e (run_passes ptx options e)
    else ph_error (run_passes ptx options e) \<noteq> []"
proof -
  let ?l = "lower_intrinsics e (pp_strict options)" and ?a = "rewrite_addrspace e (pp_strict options)"
  let ?p = "lower_printf_calls e \<lparr>po_strict = pp_strict options, po_max_format_length = 256, po_ptx_source = ptx\<rparr>"
  show ?thesis
  proof (cases "il_ok ?l \<and> pl_ok ?p \<and> ar_ok ?a")
    case True
    have "table_ok (pl_formats ?p) \<and> list_all (call_ok (pl_formats ?p)) (pl_calls ?p)"
      using lower_printf_ok [OF assms] True by (simp add: printf_result_ok_def)
    moreover have "list_all2 lowered_image (ef_instructions e) (il_instructions ?l)" if "pp_strict options"
      using lower_intrinsics_images [of e] that True by simp
    ultimately show ?thesis
      using True by (simp add: run_passes_def Let_def compiled_from_def add_printf_metadata_def
          build_kernel_metadata_def lower_intrinsics_length rewrite_addrspace_images)
  next
    case False
    then show ?thesis by (auto simp: run_passes_def Let_def no_output_def)
  qed
qed

lemma select_entry_in: "select_entry name entries = Some e \<Longrightarrow>
  e \<in> set entries \<and> (if name = [] then e = hd entries else ef_name e = name)"
  by (auto simp: select_entry_def find_Some_iff split: if_splits list.splits)

text \<open>
  C22: the first phase as a whole.  It has a defined result unless a version number overflows; a
  refused module leaves an error; and an accepted kernel comes from the entry of the tolerantly
  parsed module that the options name, or the first one: the two lists of lowered instructions
  follow its instructions one by one, shared and global accesses have their address spaces, every
  printf call has its format in the table, and in strict mode every instruction was translated or
  is a supported one that is kept.
\<close>

theorem run_phase1_pipeline_correct:
  assumes "length ptx < 4294967296"
  shows "case run_phase1_pipeline ptx options of
      None \<Rightarrow> version_overflows (strip_comments ptx)
    | Some out \<Rightarrow>
        if ph_ok out
        then \<exists>r e. parse_ptx ptx False = Some r \<and> pr_ok r \<and> e \<in> set (mo_entries (pr_module r)) \<and> entry_ok e \<and>
               (if pp_entry_name options = [] then e = hd (mo_entries (pr_module r))
                else ef_name e = pp_entry_name options) \<and>
               compiled_from (pp_strict options) e out
        else ph_error out \<noteq> []"
proof (cases "parse_ptx ptx False")
  case None
  then show ?thesis using parse_version_None [of "strip_comments ptx"]
    by (simp add: run_phase1_pipeline_def parse_ptx_def Let_def)
next
  case (Some r)
  have ok: "parse_result_ok False r" using Some parse_module_ok by (auto simp: parse_ptx_def Let_def)
  show ?thesis
  proof (cases "pr_ok r")
    case False
    then show ?thesis using Some by (simp add: run_phase1_pipeline_def no_output_def)
  next
    case True
    show ?thesis
    proof (cases "select_entry (pp_entry_name options) (mo_entries (pr_module r))")
      case None
      then show ?thesis using Some True by (simp add: run_phase1_pipeline_def no_output_def)
    next
      case (Some e)
      note e = select_entry_in [OF Some]
      have "length (ef_instructions e) < 4294967296"
        using parse_ptx_short [OF \<open>parse_ptx ptx False = Some r\<close>] e assms by fastforce
      from run_passes_ok [OF this] have "if ph_ok (run_passes ptx options e)
          then compiled_from (pp_strict options) e (run_passes ptx options e)
          else ph_error (run_passes ptx options e) \<noteq> []" .
      moreover have "entry_ok e" using ok e by (auto simp: parse_result_ok_def module_code_ok_def list_all_iff)
      moreover have "run_phase1_pipeline ptx options = Some (run_passes ptx options e)"
        using Some True \<open>parse_ptx ptx False = Some r\<close> by (simp add: run_phase1_pipeline_def)
      ultimately show ?thesis using \<open>parse_ptx ptx False = Some r\<close> True e by auto
    qed
  qed
qed

definition small_kernel :: string where
  "small_kernel = ''.entry k(){ret;}''"

definition strict_options :: Phase1PipelineOptions where
  "strict_options = \<lparr>pp_strict = True, pp_entry_name = ''k'',
     pp_metadata = \<lparr>mp_air_version = ''2.8'', mp_language_version = ''4.0''\<rparr>\<rparr>"

lemma small_kernel_compiled: "map_option ph_ok (run_phase1_pipeline small_kernel strict_options) = Some True"
  by code_simp

theorem run_phase1_pipeline_correct_witness:
  "\<exists>out r e. run_phase1_pipeline small_kernel strict_options = Some out \<and> ph_ok out \<and>
     parse_ptx small_kernel False = Some r \<and> e \<in> set (mo_entries (pr_module r)) \<and> ef_name e = ''k'' \<and>
     compiled_from True e out"
proof -
  have "length small_kernel < 4294967296" by (simp add: small_kernel_def)
  from run_phase1_pipeline_correct [OF this, of strict_options] small_kernel_compiled
  show ?thesis by (auto simp: strict_options_def split: option.splits if_splits)
qed

end
