(* ===== verification/NativeRegistry.thy ===== *)
theory NativeRegistry
  imports ModuleCache
begin

text \<open>
  The registry of natively compiled modules, \<open>runtime/registration/native_registration.cpp\<close>: the
  descriptors of \<open>runtime/api/cumetal_native.h\<close>, their validation, the registration and the removal
  of a module, the lookups of kernels and symbols, and the reset of the device.

  Addresses of host objects are 64-bit words and null is zero.  A table of a descriptor is a
  pointer and a count; a pointer that is not null points to a list with at least as many elements
  as the count says.  A shared buffer of the backend is the number of the buffer with the address
  of its contents.
\<close>

section \<open>Descriptors\<close>

datatype CuMetalArgumentKind =
    CUMETAL_NATIVE_ARGUMENT_POINTER | CUMETAL_NATIVE_ARGUMENT_SCALAR | CUMETAL_NATIVE_ARGUMENT_AGGREGATE
  | CUMETAL_NATIVE_ARGUMENT_DYNAMIC_THREADGROUP_MEMORY

datatype CuMetalSymbolKind =
    CUMETAL_NATIVE_SYMBOL_CONSTANT | CUMETAL_NATIVE_SYMBOL_GLOBAL | CUMETAL_NATIVE_SYMBOL_OTHER u32

record CuMetalArgumentDescriptor =
  ad_kind :: CuMetalArgumentKind
  ad_size :: u32
  ad_alignment :: u32
  ad_first_binding :: u32
  ad_binding_count :: u32

record CuMetalBindingDescriptor =
  nb_metal_index :: u32
  nb_logical_argument_index :: u32
  nb_size :: u32
  nb_alignment :: u32

record CuMetalKernelDescriptor =
  kd_cuda_name :: "string option"
  kd_metal_name :: "string option"
  kd_host_stub :: u64
  kd_argument_count :: u32
  kd_arguments :: "CuMetalArgumentDescriptor list option"
  kd_static_threadgroup_memory :: u32
  kd_required_simd_width :: u32
  kd_symbol_count :: u32
  kd_symbol_indices :: "u32 list option"
  kd_printf_format_count :: u32
  kd_printf_formats :: "string option list option"

record CuMetalSymbolDescriptor =
  sd_name :: "string option"
  sd_host_symbol :: u64
  sd_size :: u32
  sd_alignment :: u32
  sd_constant_offset :: u32
  sd_kind :: CuMetalSymbolKind

record CuMetalModuleDescriptor =
  md_abi_version :: u32
  md_metallib_data :: "bytes option"
  md_kernel_count :: u32
  md_kernels :: "CuMetalKernelDescriptor list option"
  md_binding_count :: u32
  md_bindings :: "CuMetalBindingDescriptor list option"
  md_provenance :: "string option"
  md_semantic_quality :: "string option"
  md_symbol_count :: u32
  md_symbols :: "CuMetalSymbolDescriptor list option"

definition elements :: "u32 \<Rightarrow> 'a list option \<Rightarrow> 'a list" where
  "elements count pointer = (case pointer of None \<Rightarrow> [] | Some xs \<Rightarrow> take (unat count) xs)"

abbreviation symbols_of :: "CuMetalModuleDescriptor \<Rightarrow> CuMetalSymbolDescriptor list" where
  "symbols_of d \<equiv> elements (md_symbol_count d) (md_symbols d)"

abbreviation kernels_of :: "CuMetalModuleDescriptor \<Rightarrow> CuMetalKernelDescriptor list" where
  "kernels_of d \<equiv> elements (md_kernel_count d) (md_kernels d)"

abbreviation arguments_of :: "CuMetalKernelDescriptor \<Rightarrow> CuMetalArgumentDescriptor list" where
  "arguments_of k \<equiv> elements (kd_argument_count k) (kd_arguments k)"

abbreviation indices_of :: "CuMetalKernelDescriptor \<Rightarrow> u32 list" where
  "indices_of k \<equiv> elements (kd_symbol_count k) (kd_symbol_indices k)"

abbreviation formats_of :: "CuMetalKernelDescriptor \<Rightarrow> string option list" where
  "formats_of k \<equiv> elements (kd_printf_format_count k) (kd_printf_formats k)"

section \<open>Validation\<close>

text \<open>\<open>Some e\<close> is the refusal with the error \<open>e\<close>.  The loops carry the host addresses seen so far.\<close>

fun check_symbols :: "u64 list \<Rightarrow> CuMetalSymbolDescriptor list \<Rightarrow> string option" where
  "check_symbols seen [] = None"
| "check_symbols seen (s # ss) =
     (if sd_name s = None \<or> sd_host_symbol s = 0 \<or> sd_size s = 0 \<or> sd_alignment s = 0 \<or>
         (sd_kind s \<noteq> CUMETAL_NATIVE_SYMBOL_CONSTANT \<and> sd_kind s \<noteq> CUMETAL_NATIVE_SYMBOL_GLOBAL) \<or>
         sd_host_symbol s \<in> set seen
      then Some ''invalid CuMetal native symbol descriptor''
      else check_symbols (sd_host_symbol s # seen) ss)"

fun check_bindings :: "nat \<Rightarrow> CuMetalBindingDescriptor list \<Rightarrow> string option" where
  "check_bindings argument_index [] = None"
| "check_bindings argument_index (b # bs) =
     (if unat (nb_logical_argument_index b) \<noteq> argument_index \<or> nb_size b = 0 \<or> nb_alignment b = 0
      then Some ''invalid CuMetal native binding descriptor''
      else check_bindings argument_index bs)"

text \<open>The bindings of an argument are read only after their range has been checked.\<close>

fun check_arguments ::
  "u32 \<Rightarrow> CuMetalBindingDescriptor list option \<Rightarrow> nat \<Rightarrow> CuMetalArgumentDescriptor list \<Rightarrow> string option" where
  "check_arguments binding_count bindings argument_index [] = None"
| "check_arguments binding_count bindings argument_index (a # as) =
     (if ad_size a = 0 \<or> ad_alignment a = 0 \<or> ad_first_binding a > binding_count \<or>
         ad_binding_count a > binding_count - ad_first_binding a
      then Some ''invalid CuMetal native argument descriptor''
      else case check_bindings argument_index
             (take (unat (ad_binding_count a)) (drop (unat (ad_first_binding a)) (elements binding_count bindings))) of
             Some e \<Rightarrow> Some e
           | None \<Rightarrow> check_arguments binding_count bindings (Suc argument_index) as)"

definition check_kernel :: "CuMetalModuleDescriptor \<Rightarrow> u64 list \<Rightarrow> CuMetalKernelDescriptor \<Rightarrow> string option" where
  "check_kernel d seen k =
     (if kd_cuda_name k = None \<or> kd_metal_name k = None \<or> kd_host_stub k = 0 \<or> kd_required_simd_width k \<noteq> 32 \<or>
         kd_argument_count k > 0 \<and> kd_arguments k = None \<or> kd_host_stub k \<in> set seen
      then Some ''invalid CuMetal native kernel descriptor''
      else if kd_symbol_count k > 0 \<and> kd_symbol_indices k = None
      then Some ''native kernel symbol index table is missing''
      else if kd_printf_format_count k > 0 \<and> kd_printf_formats k = None
      then Some ''native kernel printf format table is missing''
      else if list_ex (\<lambda>f. f = None) (formats_of k) then Some ''native kernel printf format is null''
      else if list_ex (\<lambda>i. i \<ge> md_symbol_count d) (indices_of k)
      then Some ''native kernel symbol index is out of range''
      else check_arguments (md_binding_count d) (md_bindings d) 0 (arguments_of k))"

fun check_kernels :: "CuMetalModuleDescriptor \<Rightarrow> u64 list \<Rightarrow> CuMetalKernelDescriptor list \<Rightarrow> string option" where
  "check_kernels d seen [] = None"
| "check_kernels d seen (k # ks) =
     (case check_kernel d seen k of Some e \<Rightarrow> Some e | None \<Rightarrow> check_kernels d (kd_host_stub k # seen) ks)"

definition validate_descriptor :: "CuMetalModuleDescriptor option \<Rightarrow> string option" where
  "validate_descriptor descriptor =
     (case descriptor of
        None \<Rightarrow> Some ''invalid CuMetal native module descriptor''
      | Some d \<Rightarrow>
          if md_abi_version d \<noteq> 3 \<or> md_metallib_data d = None \<or> md_metallib_data d = Some [] \<or>
             md_kernel_count d = 0 \<or> md_kernels d = None
          then Some ''invalid CuMetal native module descriptor''
          else if md_binding_count d > 0 \<and> md_bindings d = None then Some ''native module binding table is missing''
          else if md_symbol_count d > 0 \<and> md_symbols d = None then Some ''native module symbol table is missing''
          else case check_symbols [] (symbols_of d) of
            Some e \<Rightarrow> Some e
          | None \<Rightarrow> check_kernels d [] (kernels_of d))"

section \<open>The registry\<close>

record NativeModule =
  nm_metallib_path :: string
  nm_host_functions :: "u64 list"
  nm_host_symbols :: "u64 list"

record NativeSymbol =
  ns_name :: "string option"
  ns_host_symbol :: u64
  ns_size :: u64
  ns_constant_offset :: u64
  ns_constant :: bool
  ns_global_buffer :: "nat option"

datatype cumetalArgKind = CUMETAL_ARG_BUFFER | CUMETAL_ARG_BYTES

record cumetalKernelArgInfo =
  ki_kind :: cumetalArgKind
  ki_size_bytes :: u32

record RegisteredConstantSymbol =
  rc_name :: "string option"
  rc_address :: u64
  rc_offset :: u64
  rc_size :: u64

record RegisteredGlobalSymbol =
  rg_name :: "string option"
  rg_buffer :: "nat option"
  rg_size :: u64

record RegisteredKernel =
  rk_module_handle :: u64
  rk_metallib_path :: string
  rk_kernel_name :: "string option"
  rk_arg_info :: "cumetalKernelArgInfo list"
  rk_arg_info_resolved :: bool
  rk_printf_formats :: "string option list"
  rk_uses_device_heap :: bool
  rk_uses_device_launch_queue :: bool
  rk_static_shared_bytes :: u64
  rk_constant_symbols :: "RegisteredConstantSymbol list"
  rk_constant_buffer_size :: u64
  rk_global_symbols :: "RegisteredGlobalSymbol list"
  rk_provenance :: "string option"
  rk_semantic_quality :: "string option"

text \<open>The lock of the state makes every operation one atomic step.\<close>

record registry =
  nr_modules :: "u64 \<Rightarrow> NativeModule option"
  nr_kernels :: "u64 \<Rightarrow> RegisteredKernel option"
  nr_symbols :: "u64 \<Rightarrow> NativeSymbol option"

definition empty_registry :: registry where
  "empty_registry = \<lparr>nr_modules = \<lambda>_. None, nr_kernels = \<lambda>_. None, nr_symbols = \<lambda>_. None\<rparr>"

section \<open>The file of a module\<close>

text \<open>
  What one registration gets from its surroundings: the environment, whether the cache directory
  can be created and the file be written, what a failed write leaves of the file, the buffer the
  backend allocates for the symbol at an index, the address of the contents of a buffer, and the
  address of the new module object.
\<close>

record native_world =
  nw_environment :: environment
  nw_directory_ok :: bool
  nw_write_ok :: bool
  nw_left :: "bytes option"
  nw_alloc :: "nat \<Rightarrow> u64 \<Rightarrow> nat option"
  nw_contents :: "nat \<Rightarrow> u64"
  nw_module :: u64

definition fnv1a :: "bytes \<Rightarrow> u64" where
  "fnv1a bs = foldl (\<lambda>hash b. (hash XOR ucast b) * 1099511628211) 1469598103934665603 bs"

definition cache_root :: "environment \<Rightarrow> string" where
  "cache_root e =
     (if \<exists>r \<in> set_option (env_cache_dir e). r \<noteq> [] then the (env_cache_dir e) @ ''/native-aot''
      else if \<exists>h \<in> set_option (env_home e). h \<noteq> []
      then the (env_home e) @ ''/Library/Caches/io.cumetal/native-aot''
      else env_temp e @ ''/io.cumetal/native-aot'')"

definition native_path :: "environment \<Rightarrow> u32 \<Rightarrow> bytes \<Rightarrow> string" where
  "native_path e abi data =
     cache_root e @ ''/abi'' @ show_nat (unat abi) @ ''-'' @ hash_to_hex (fnv1a data) @ ''.metallib''"

definition materialize_metallib ::
  "native_world \<Rightarrow> CuMetalModuleDescriptor \<Rightarrow> files \<Rightarrow> string option \<times> files" where
  "materialize_metallib w d fs =
     (let data = the (md_metallib_data d); output = native_path (nw_environment w) (md_abi_version d) data in
      if \<not> nw_directory_ok w then (None, fs)
      else if fs output \<noteq> None then (Some output, fs)
      else if \<not> nw_write_ok w then (None, fs(output := nw_left w))
      else (Some output, fs(output := Some data)))"

section \<open>Registration\<close>

definition native_symbol :: "CuMetalSymbolDescriptor \<Rightarrow> NativeSymbol" where
  "native_symbol s = \<lparr>ns_name = sd_name s, ns_host_symbol = sd_host_symbol s, ns_size = ucast (sd_size s),
     ns_constant_offset = ucast (sd_constant_offset s), ns_constant = (sd_kind s = CUMETAL_NATIVE_SYMBOL_CONSTANT),
     ns_global_buffer = None\<rparr>"

text \<open>
  The symbols of a module in order; \<open>None\<close> is a failed allocation.  The first component lists the
  copies of initial values, as destination, source and size, that were made on the way.
\<close>

type_synonym copies = "(u64 \<times> u64 \<times> u64) list"

fun prepare_symbols ::
  "native_world \<Rightarrow> nat \<Rightarrow> CuMetalSymbolDescriptor list \<Rightarrow> copies \<times> NativeSymbol list option" where
  "prepare_symbols w i [] = ([], Some [])"
| "prepare_symbols w i (s # ss) =
     (let p = native_symbol s in
      if ns_constant p
      then (case prepare_symbols w (Suc i) ss of (cs, r) \<Rightarrow> (cs, map_option ((#) p) r))
      else case nw_alloc w i (ns_size p) of
        None \<Rightarrow> ([], None)
      | Some b \<Rightarrow>
          if nw_contents w b = 0 then ([], None)
          else case prepare_symbols w (Suc i) ss of (cs, r) \<Rightarrow>
            ((nw_contents w b, ns_host_symbol p, ns_size p) # cs,
             map_option ((#) (p\<lparr>ns_global_buffer := Some b\<rparr>)) r))"

definition add_symbol ::
  "CuMetalSymbolDescriptor list \<Rightarrow> NativeSymbol list \<Rightarrow> u32 \<Rightarrow> RegisteredKernel \<Rightarrow> RegisteredKernel" where
  "add_symbol ss ps i k =
     (let s = ss ! unat i in
      if sd_kind s = CUMETAL_NATIVE_SYMBOL_CONSTANT
      then k\<lparr>rk_constant_symbols := rk_constant_symbols k @
               [\<lparr>rc_name = sd_name s, rc_address = sd_host_symbol s, rc_offset = ucast (sd_constant_offset s),
                 rc_size = ucast (sd_size s)\<rparr>],
             rk_constant_buffer_size :=
               max (rk_constant_buffer_size k) (ucast (sd_constant_offset s) + ucast (sd_size s))\<rparr>
      else k\<lparr>rk_global_symbols := rk_global_symbols k @
               [\<lparr>rg_name = sd_name s, rg_buffer = ns_global_buffer (ps ! unat i), rg_size = ucast (sd_size s)\<rparr>]\<rparr>)"

definition arg_info :: "CuMetalArgumentDescriptor \<Rightarrow> cumetalKernelArgInfo" where
  "arg_info a = \<lparr>ki_kind = (if ad_kind a = CUMETAL_NATIVE_ARGUMENT_POINTER then CUMETAL_ARG_BUFFER else CUMETAL_ARG_BYTES),
     ki_size_bytes = ad_size a\<rparr>"

definition prepare_kernel ::
  "CuMetalModuleDescriptor \<Rightarrow> string \<Rightarrow> NativeSymbol list \<Rightarrow> CuMetalKernelDescriptor \<Rightarrow> RegisteredKernel" where
  "prepare_kernel d path ps k =
     (let record = \<lparr>rk_module_handle = 0, rk_metallib_path = path, rk_kernel_name = kd_metal_name k,
            rk_arg_info = [], rk_arg_info_resolved = True, rk_printf_formats = formats_of k,
            rk_uses_device_heap = False, rk_uses_device_launch_queue = False,
            rk_static_shared_bytes = ucast (kd_static_threadgroup_memory k), rk_constant_symbols = [],
            rk_constant_buffer_size = 0, rk_global_symbols = [],
            rk_provenance = (if md_provenance d = None then Some ''generic_nvvm_lowering'' else md_provenance d),
            rk_semantic_quality = (if md_semantic_quality d = None then Some ''exact'' else md_semantic_quality d)\<rparr>
      in (fold (add_symbol (symbols_of d) ps) (indices_of k) record)\<lparr>rk_arg_info := map arg_info (arguments_of k)\<rparr>)"

definition emplace :: "('k \<Rightarrow> 'v option) \<Rightarrow> 'k \<times> 'v \<Rightarrow> ('k \<Rightarrow> 'v option)" where
  "emplace m kv = (if m (fst kv) = None then m(fst kv \<mapsto> snd kv) else m)"

definition enter_module ::
  "u64 \<Rightarrow> CuMetalModuleDescriptor \<Rightarrow> string \<Rightarrow> NativeSymbol list \<Rightarrow> registry \<Rightarrow> registry" where
  "enter_module handle d path ps s = s
     \<lparr>nr_symbols := foldl emplace (nr_symbols s) (zip (map sd_host_symbol (symbols_of d)) ps),
      nr_kernels := foldl emplace (nr_kernels s)
        (map (\<lambda>k. (kd_host_stub k, prepare_kernel d path ps k)) (kernels_of d)),
      nr_modules := (nr_modules s)(handle \<mapsto>
        \<lparr>nm_metallib_path = path, nm_host_functions = map kd_host_stub (kernels_of d),
         nm_host_symbols = map sd_host_symbol (symbols_of d)\<rparr>)\<rparr>"

text \<open>The handle (null on failure), the files, the copies made and the registry.\<close>

definition cumetalRegisterModule ::
  "native_world \<Rightarrow> CuMetalModuleDescriptor option \<Rightarrow> files \<Rightarrow> registry \<Rightarrow> u64 \<times> files \<times> copies \<times> registry" where
  "cumetalRegisterModule w descriptor fs s =
     (if validate_descriptor descriptor \<noteq> None then (0, fs, [], s)
      else let d = the descriptor in
        case materialize_metallib w d fs of
          (None, fs') \<Rightarrow> (0, fs', [], s)
        | (Some path, fs') \<Rightarrow>
            (case prepare_symbols w 0 (symbols_of d) of
               (cs, None) \<Rightarrow> (0, fs', cs, s)
             | (cs, Some ps) \<Rightarrow>
                 if list_ex (\<lambda>k. nr_kernels s (kd_host_stub k) \<noteq> None) (kernels_of d) then (0, fs', cs, s)
                 else if list_ex (\<lambda>y. nr_symbols s (sd_host_symbol y) \<noteq> None) (symbols_of d) then (0, fs', cs, s)
                 else (nw_module w, fs', cs, enter_module (nw_module w) d path ps s)))"

definition erase_keys :: "'k list \<Rightarrow> ('k \<Rightarrow> 'v option) \<Rightarrow> ('k \<Rightarrow> 'v option)" where
  "erase_keys ks m = foldl (\<lambda>m k. m(k := None)) m ks"

definition cumetalUnregisterModule :: "u64 \<Rightarrow> registry \<Rightarrow> registry" where
  "cumetalUnregisterModule handle s =
     (if handle = 0 then s
      else case nr_modules s handle of
        None \<Rightarrow> s
      | Some m \<Rightarrow> s\<lparr>nr_kernels := erase_keys (nm_host_functions m) (nr_kernels s),
                     nr_symbols := erase_keys (nm_host_symbols m) (nr_symbols s),
                     nr_modules := (nr_modules s)(handle := None)\<rparr>)"

section \<open>Lookups and reset\<close>

definition lookup_kernel :: "u64 \<Rightarrow> registry \<Rightarrow> RegisteredKernel option" where
  "lookup_kernel host_function s = (if host_function = 0 then None else nr_kernels s host_function)"

text \<open>The device address and the size of a symbol.\<close>

definition lookup_symbol :: "(nat \<Rightarrow> u64) \<Rightarrow> u64 \<Rightarrow> registry \<Rightarrow> (u64 \<times> u64) option" where
  "lookup_symbol contents host_symbol s =
     (if host_symbol = 0 then None
      else case nr_symbols s host_symbol of
        None \<Rightarrow> None
      | Some y \<Rightarrow>
          if ns_constant y then Some (ns_host_symbol y, ns_size y)
          else (case ns_global_buffer y of
              None \<Rightarrow> None
            | Some b \<Rightarrow> if contents b = 0 then None else Some (contents b, ns_size y)))"

definition reset_device_state :: "registry \<Rightarrow> registry" where
  "reset_device_state s = s\<lparr>nr_symbols := \<lambda>a. map_option (\<lambda>y. y\<lparr>ns_global_buffer := None\<rparr>) (nr_symbols s a)\<rparr>"

definition clear :: "registry \<Rightarrow> registry" where
  "clear s = empty_registry"

section \<open>What validation accepts\<close>

definition symbol_ok :: "CuMetalSymbolDescriptor \<Rightarrow> bool" where
  "symbol_ok s \<longleftrightarrow> sd_name s \<noteq> None \<and> sd_host_symbol s \<noteq> 0 \<and> sd_size s \<noteq> 0 \<and> sd_alignment s \<noteq> 0 \<and>
     sd_kind s \<in> {CUMETAL_NATIVE_SYMBOL_CONSTANT, CUMETAL_NATIVE_SYMBOL_GLOBAL}"

text \<open>The range of an argument's bindings, without wrap-around.\<close>

definition argument_ok :: "CuMetalModuleDescriptor \<Rightarrow> nat \<Rightarrow> CuMetalArgumentDescriptor \<Rightarrow> bool" where
  "argument_ok d i a \<longleftrightarrow> ad_size a \<noteq> 0 \<and> ad_alignment a \<noteq> 0 \<and>
     unat (ad_first_binding a) + unat (ad_binding_count a) \<le> unat (md_binding_count d) \<and>
     list_all (\<lambda>b. unat (nb_logical_argument_index b) = i \<and> nb_size b \<noteq> 0 \<and> nb_alignment b \<noteq> 0)
       (take (unat (ad_binding_count a)) (drop (unat (ad_first_binding a)) (elements (md_binding_count d) (md_bindings d))))"

definition kernel_ok :: "CuMetalModuleDescriptor \<Rightarrow> CuMetalKernelDescriptor \<Rightarrow> bool" where
  "kernel_ok d k \<longleftrightarrow> kd_cuda_name k \<noteq> None \<and> kd_metal_name k \<noteq> None \<and> kd_host_stub k \<noteq> 0 \<and>
     kd_required_simd_width k = 32 \<and> (kd_arguments k = None \<longrightarrow> kd_argument_count k = 0) \<and>
     (kd_symbol_indices k = None \<longrightarrow> kd_symbol_count k = 0) \<and>
     (kd_printf_formats k = None \<longrightarrow> kd_printf_format_count k = 0) \<and>
     None \<notin> set (formats_of k) \<and> (\<forall>i \<in> set (indices_of k). unat i < unat (md_symbol_count d)) \<and>
     list_all (\<lambda>(i, a). argument_ok d i a) (List.enumerate 0 (arguments_of k))"

definition descriptor_ok :: "CuMetalModuleDescriptor \<Rightarrow> bool" where
  "descriptor_ok d \<longleftrightarrow> md_abi_version d = 3 \<and> md_metallib_data d \<noteq> None \<and> md_metallib_data d \<noteq> Some [] \<and>
     md_kernel_count d \<noteq> 0 \<and> md_kernels d \<noteq> None \<and>
     (md_bindings d = None \<longrightarrow> md_binding_count d = 0) \<and> (md_symbols d = None \<longrightarrow> md_symbol_count d = 0) \<and>
     list_all symbol_ok (symbols_of d) \<and> distinct (map sd_host_symbol (symbols_of d)) \<and>
     list_all (kernel_ok d) (kernels_of d) \<and> distinct (map kd_host_stub (kernels_of d))"

text \<open>A chain of refusals accepts when every test of it does.\<close>

lemma refusal_chain [simp]:
  "(if c then Some e else r) = None \<longleftrightarrow> \<not> c \<and> r = None"
  "(case r of None \<Rightarrow> r' | Some e \<Rightarrow> Some e) = None \<longleftrightarrow> r = None \<and> r' = None"
  by (auto split: option.split)

lemma check_symbols_None:
  "check_symbols seen ss = None \<longleftrightarrow>
     list_all symbol_ok ss \<and> distinct (map sd_host_symbol ss) \<and> set seen \<inter> sd_host_symbol ` set ss = {}"
  by (induction seen ss rule: check_symbols.induct) (auto simp: symbol_ok_def)

lemma check_bindings_None:
  "check_bindings i bs = None \<longleftrightarrow>
     list_all (\<lambda>b. unat (nb_logical_argument_index b) = i \<and> nb_size b \<noteq> 0 \<and> nb_alignment b \<noteq> 0) bs"
  by (induction i bs rule: check_bindings.induct) auto

lemma binding_range:
  "\<not> ((f :: u32) > n \<or> c > n - f) \<longleftrightarrow> unat f + unat c \<le> unat n"
  by (auto simp: word_le_nat_alt word_less_nat_alt unat_sub)

lemma check_argument_step:
  "check_arguments (md_binding_count d) (md_bindings d) i (a # as) = None \<longleftrightarrow>
     argument_ok d i a \<and> check_arguments (md_binding_count d) (md_bindings d) (Suc i) as = None"
proof -
  have range: "(ad_first_binding a > md_binding_count d \<or>
      ad_binding_count a > md_binding_count d - ad_first_binding a) \<longleftrightarrow>
      \<not> unat (ad_first_binding a) + unat (ad_binding_count a) \<le> unat (md_binding_count d)"
    using binding_range by blast
  show ?thesis
    unfolding check_arguments.simps argument_ok_def check_bindings_None [symmetric] range
    by (simp split: option.split)
qed

lemma check_arguments_None:
  "check_arguments (md_binding_count d) (md_bindings d) i as = None \<longleftrightarrow>
     list_all (\<lambda>(i, a). argument_ok d i a) (List.enumerate i as)"
proof (induction as arbitrary: i)
  case (Cons a as)
  then show ?case by (simp only: check_argument_step) simp
qed simp

lemma missing_table: "(n :: u32) > 0 \<and> p = None \<longleftrightarrow> \<not> (p = None \<longrightarrow> n = 0)"
  by (auto simp: word_gt_0)

lemma check_kernel_None:
  "check_kernel d seen k = None \<longleftrightarrow> kernel_ok d k \<and> kd_host_stub k \<notin> set seen"
proof -
  have formats: "list_ex (\<lambda>f. f = None) (formats_of k) \<longleftrightarrow> None \<in> set (formats_of k)"
    by (auto simp: list_ex_iff)
  have indices: "list_ex (\<lambda>i. i \<ge> md_symbol_count d) (indices_of k) \<longleftrightarrow>
      \<not> (\<forall>i \<in> set (indices_of k). unat i < unat (md_symbol_count d))"
    by (auto simp: list_ex_iff word_le_nat_alt not_less)
  show ?thesis
    unfolding check_kernel_def kernel_ok_def refusal_chain formats indices missing_table check_arguments_None
      de_Morgan_disj not_not
    by (rule iffI; elim conjE; intro conjI; assumption)
qed

lemma check_kernels_None:
  "check_kernels d seen ks = None \<longleftrightarrow>
     list_all (kernel_ok d) ks \<and> distinct (map kd_host_stub ks) \<and> set seen \<inter> kd_host_stub ` set ks = {}"
proof (induction ks arbitrary: seen)
  case (Cons k ks)
  show ?case
    by (cases "check_kernel d seen k") (use check_kernel_None [of d seen k] Cons.IH in auto)
qed simp

text \<open>
  The validation of a module descriptor accepts exactly the well-formed ones: the version and the
  tables are there, every symbol and kernel has its name, address and sizes, no two kernels share a
  stub and no two symbols an address, every symbol index is within the symbol table, and the
  bindings of every argument are within the binding table (the bounds are meant without
  wrap-around) and name the argument they belong to.
\<close>

lemma validate_descriptor_iff:
  "validate_descriptor descriptor = None \<longleftrightarrow> (\<exists>d. descriptor = Some d \<and> descriptor_ok d)"
proof (cases descriptor)
  case (Some d)
  have "validate_descriptor (Some d) = None \<longleftrightarrow> descriptor_ok d"
    unfolding validate_descriptor_def option.case descriptor_ok_def refusal_chain missing_table
      check_symbols_None check_kernels_None
    by (simp only: list.set Int_empty_left simp_thms de_Morgan_disj not_not conj_assoc)
  then show ?thesis by (simp add: Some)
qed (simp add: validate_descriptor_def)

section \<open>Tables owned by modules\<close>

lemma foldl_emplace: "foldl emplace m kvs x = (case m x of Some v \<Rightarrow> Some v | None \<Rightarrow> map_of kvs x)"
  by (induction kvs arbitrary: m) (auto simp: emplace_def split: option.split)

lemma erase_keys_apply: "erase_keys ks m x = (if x \<in> set ks then None else m x)"
  unfolding erase_keys_def by (induction ks arbitrary: m) auto

lemma erase_emplaced:
  assumes "\<And>k. k \<in> set (map fst kvs) \<Longrightarrow> m k = None"
  shows "erase_keys (map fst kvs) (foldl emplace m kvs) = m"
proof
  fix x
  show "erase_keys (map fst kvs) (foldl emplace m kvs) x = m x"
    using assms [of x] map_of_eq_None_iff [of kvs x]
    by (cases "x \<in> set (map fst kvs)") (auto simp: erase_keys_apply foldl_emplace split: option.split)
qed

text \<open>
  Every key of the table belongs to exactly one module, whose list names it once, and every key a
  module lists is in the table.
\<close>

definition owned :: "('m \<Rightarrow> 'k list) \<Rightarrow> ('h \<Rightarrow> 'm option) \<Rightarrow> ('k \<Rightarrow> 'v option) \<Rightarrow> bool" where
  "owned keys mods tab \<longleftrightarrow>
     (\<forall>h m. mods h = Some m \<longrightarrow> distinct (keys m)) \<and>
     (\<forall>k. tab k \<noteq> None \<longleftrightarrow> (\<exists>h m. mods h = Some m \<and> k \<in> set (keys m))) \<and>
     (\<forall>h h' m m' k. mods h = Some m \<longrightarrow> mods h' = Some m' \<longrightarrow> k \<in> set (keys m) \<longrightarrow> k \<in> set (keys m') \<longrightarrow> h = h')"

lemma ownedI:
  assumes "\<And>h m. mods h = Some m \<Longrightarrow> distinct (keys m)"
    and "\<And>k. tab k \<noteq> None \<longleftrightarrow> (\<exists>h m. mods h = Some m \<and> k \<in> set (keys m))"
    and "\<And>h h' m m' k. mods h = Some m \<Longrightarrow> mods h' = Some m' \<Longrightarrow> k \<in> set (keys m) \<Longrightarrow> k \<in> set (keys m') \<Longrightarrow> h = h'"
  shows "owned keys mods tab"
  unfolding owned_def using assms by blast

lemma ownedD:
  assumes "owned keys mods tab"
  shows owned_distinct: "mods h = Some m \<Longrightarrow> distinct (keys m)"
    and owned_key: "tab k \<noteq> None \<longleftrightarrow> (\<exists>h m. mods h = Some m \<and> k \<in> set (keys m))"
    and owned_unique: "mods h = Some m \<Longrightarrow> mods h' = Some m' \<Longrightarrow> k \<in> set (keys m) \<Longrightarrow> k \<in> set (keys m') \<Longrightarrow> h = h'"
  using assms unfolding owned_def by blast+

lemma owned_empty [simp]: "owned keys (\<lambda>_. None) (\<lambda>_. None)"
  by (simp add: owned_def)

lemma owned_enter:
  assumes o: "owned keys mods tab" and new: "mods h = None" and d: "distinct (keys m)"
    and free: "\<And>k. k \<in> set (keys m) \<Longrightarrow> tab k = None"
    and tab': "\<And>k. tab' k \<noteq> None \<longleftrightarrow> tab k \<noteq> None \<or> k \<in> set (keys m)"
  shows "owned keys (mods(h \<mapsto> m)) tab'"
proof (rule ownedI)
  show "distinct (keys m')" if "(mods(h \<mapsto> m)) h' = Some m'" for h' m'
    using that d owned_distinct [OF o] by (auto split: if_splits)
  show "tab' k \<noteq> None \<longleftrightarrow> (\<exists>h' m'. (mods(h \<mapsto> m)) h' = Some m' \<and> k \<in> set (keys m'))" for k
  proof -
    have "(\<exists>h' m'. (mods(h \<mapsto> m)) h' = Some m' \<and> k \<in> set (keys m')) \<longleftrightarrow>
        k \<in> set (keys m) \<or> (\<exists>h' m'. mods h' = Some m' \<and> k \<in> set (keys m'))"
      using new by (auto simp: fun_upd_apply) (metis option.distinct(1))+
    then show ?thesis using owned_key [OF o, of k] tab' by blast
  qed
  show "h1 = h2" if "(mods(h \<mapsto> m)) h1 = Some m1" "(mods(h \<mapsto> m)) h2 = Some m2"
      "k \<in> set (keys m1)" "k \<in> set (keys m2)" for h1 h2 m1 m2 k
  proof -
    have "tab k \<noteq> None" if "mods h' = Some m'" "k \<in> set (keys m')" for h' m'
      using owned_key [OF o, of k] that by blast
    then show ?thesis
      using that free [of k] owned_unique [OF o, of h1 m1 h2 m2 k] by (auto split: if_splits)
  qed
qed

lemma owned_leave:
  assumes o: "owned keys mods tab" and m: "mods h = Some m"
  shows "owned keys (mods(h := None)) (erase_keys (keys m) tab)"
proof (rule ownedI)
  show "distinct (keys m')" if "(mods(h := None)) h' = Some m'" for h' m'
    using that owned_distinct [OF o] by (auto split: if_splits)
  show "erase_keys (keys m) tab k \<noteq> None \<longleftrightarrow> (\<exists>h' m'. (mods(h := None)) h' = Some m' \<and> k \<in> set (keys m'))" for k
  proof (cases "k \<in> set (keys m)")
    case True
    then show ?thesis using owned_unique [OF o m] by (auto simp: erase_keys_apply split: if_splits)
  next
    case False
    then have "(\<exists>h' m'. (mods(h := None)) h' = Some m' \<and> k \<in> set (keys m')) \<longleftrightarrow>
        (\<exists>h' m'. mods h' = Some m' \<and> k \<in> set (keys m'))"
      using m by (auto simp: fun_upd_apply) (metis option.inject)
    then show ?thesis using owned_key [OF o, of k] False by (simp add: erase_keys_apply)
  qed
  show "h1 = h2" if "(mods(h := None)) h1 = Some m1" "(mods(h := None)) h2 = Some m2"
      "k \<in> set (keys m1)" "k \<in> set (keys m2)" for h1 h2 m1 m2 k
    using that owned_unique [OF o] by (auto split: if_splits)
qed

lemma owned_domain: "owned keys mods tab \<Longrightarrow> (\<And>k. tab' k = None \<longleftrightarrow> tab k = None) \<Longrightarrow> owned keys mods tab'"
  unfolding owned_def by simp

section \<open>Prepared symbols and kernels\<close>

definition prepared_ok :: "native_world \<Rightarrow> CuMetalSymbolDescriptor \<Rightarrow> NativeSymbol \<Rightarrow> bool" where
  "prepared_ok w s p \<longleftrightarrow> (\<exists>b. p = native_symbol s\<lparr>ns_global_buffer := b\<rparr> \<and>
     (if sd_kind s = CUMETAL_NATIVE_SYMBOL_CONSTANT then b = None else b \<noteq> None \<and> nw_contents w (the b) \<noteq> 0))"

lemma prepared_ok_constant: "sd_kind s = CUMETAL_NATIVE_SYMBOL_CONSTANT \<Longrightarrow> prepared_ok w s (native_symbol s)"
  by (simp add: prepared_ok_def native_symbol_def)

lemma prepared_ok_global:
  "sd_kind s \<noteq> CUMETAL_NATIVE_SYMBOL_CONSTANT \<Longrightarrow> nw_contents w b \<noteq> 0 \<Longrightarrow>
     prepared_ok w s (native_symbol s\<lparr>ns_global_buffer := Some b\<rparr>)"
  by (simp add: prepared_ok_def native_symbol_def)

lemma ns_constant_native [simp]: "ns_constant (native_symbol s) \<longleftrightarrow> sd_kind s = CUMETAL_NATIVE_SYMBOL_CONSTANT"
  by (simp add: native_symbol_def)

lemma prepare_symbols_ok: "prepare_symbols w i ss = (cs, Some ps) \<Longrightarrow> list_all2 (prepared_ok w) ss ps"
proof (induction w i ss arbitrary: cs ps rule: prepare_symbols.induct)
  case (2 w i s ss)
  show ?case
  proof (cases "sd_kind s = CUMETAL_NATIVE_SYMBOL_CONSTANT")
    case True
    then obtain cs' ps' where "prepare_symbols w (Suc i) ss = (cs', Some ps')" "ps = native_symbol s # ps'"
      using "2.prems" by (auto simp: Let_def split: prod.splits)
    with "2.IH"(1) [OF refl] True show ?thesis by (simp add: prepared_ok_constant)
  next
    case False
    then obtain b where b: "nw_alloc w i (ns_size (native_symbol s)) = Some b" "nw_contents w b \<noteq> 0"
      using "2.prems" by (auto simp: Let_def split: option.splits if_splits)
    with False obtain cs' ps' where "prepare_symbols w (Suc i) ss = (cs', Some ps')"
        "ps = native_symbol s\<lparr>ns_global_buffer := Some b\<rparr> # ps'"
      using "2.prems" by (auto simp: Let_def split: prod.splits)
    with "2.IH"(2) [OF refl _ b] False b show ?thesis by (simp add: prepared_ok_global)
  qed
qed simp

text \<open>
  Every constant symbol of a kernel lies within its constant buffer, without wrap-around, and every
  global symbol has a buffer.
\<close>

definition record_ok :: "RegisteredKernel \<Rightarrow> bool" where
  "record_ok k \<longleftrightarrow> rk_kernel_name k \<noteq> None \<and>
     list_all (\<lambda>c. unat (rc_offset c) + unat (rc_size c) \<le> unat (rk_constant_buffer_size k)) (rk_constant_symbols k) \<and>
     list_all (\<lambda>g. rg_buffer g \<noteq> None \<and> rg_size g \<noteq> 0) (rk_global_symbols k)"

lemma add_symbol_same [simp]:
  "rk_kernel_name (add_symbol ss ps i k) = rk_kernel_name k"
  "rk_metallib_path (add_symbol ss ps i k) = rk_metallib_path k"
  by (simp_all add: add_symbol_def Let_def)

lemma unat_ucast_u64 [simp]: "unat (ucast (a :: u32) :: u64) = unat a"
proof -
  have "unat a < 18446744073709551616" using u32_bound [of a] by linarith
  then show ?thesis by (simp add: unsigned_ucast_eq take_bit_nat_eq_self)
qed

lemma unat_add_ucast:
  "unat ((ucast (a :: u32) :: u64) + ucast (b :: u32)) = unat a + unat b"
proof -
  have "unat a + unat b < 18446744073709551616"
    using u32_bound [of a] u32_bound [of b] by linarith
  then show ?thesis by (simp add: unat_add_u64_exact)
qed

lemma ucast_u32_nonzero: "(a :: u32) \<noteq> 0 \<Longrightarrow> (ucast a :: u64) \<noteq> 0"
  by (simp add: unat_eq_u64 word_unat_eq_iff)

text \<open>The contract of the caller: a table that is there has as many elements as its count says.\<close>

definition full :: "u32 \<Rightarrow> 'a list option \<Rightarrow> bool" where
  "full count pointer = (case pointer of None \<Rightarrow> True | Some xs \<Rightarrow> unat count \<le> length xs)"

definition tables_full :: "CuMetalModuleDescriptor \<Rightarrow> bool" where
  "tables_full d \<longleftrightarrow> full (md_kernel_count d) (md_kernels d) \<and> full (md_binding_count d) (md_bindings d) \<and>
     full (md_symbol_count d) (md_symbols d) \<and>
     list_all (\<lambda>k. full (kd_argument_count k) (kd_arguments k) \<and> full (kd_symbol_count k) (kd_symbol_indices k) \<and>
       full (kd_printf_format_count k) (kd_printf_formats k)) (kernels_of d)"

lemma length_elements: "full n p \<Longrightarrow> (p = None \<longrightarrow> n = 0) \<Longrightarrow> length (elements n p) = unat n"
  by (cases p) (auto simp: full_def elements_def)

lemma add_symbol_ok:
  assumes "record_ok k" "prepared_ok w (ss ! unat i) (ps ! unat i)" "symbol_ok (ss ! unat i)"
  shows "record_ok (add_symbol ss ps i k)"
proof (cases "sd_kind (ss ! unat i) = CUMETAL_NATIVE_SYMBOL_CONSTANT")
  case True
  have "list_all (\<lambda>c. unat (rc_offset c) + unat (rc_size c) \<le> unat (max (rk_constant_buffer_size k) m))
      (rk_constant_symbols k)" for m
    using assms(1) unfolding record_ok_def list_all_iff
    by (auto simp: max_def u64_le intro: order_trans)
  moreover have "unat (sd_constant_offset (ss ! unat i)) + unat (sd_size (ss ! unat i)) \<le>
      unat (max m (ucast (sd_constant_offset (ss ! unat i)) + ucast (sd_size (ss ! unat i)) :: u64))" for m
    by (auto simp: max_def u64_le unat_add_ucast)
  ultimately show ?thesis using True assms(1) by (simp add: add_symbol_def Let_def record_ok_def)
next
  case False
  obtain b where "ps ! unat i = native_symbol (ss ! unat i)\<lparr>ns_global_buffer := b\<rparr>" "b \<noteq> None"
    using assms(2) False unfolding prepared_ok_def by (auto split: if_splits)
  then show ?thesis
    using False assms by (simp add: add_symbol_def Let_def record_ok_def symbol_ok_def ucast_u32_nonzero)
qed

lemma fold_add_symbol_ok:
  assumes "list_all2 (prepared_ok w) ss ps" "list_all symbol_ok ss"
  shows "record_ok k \<Longrightarrow> (\<And>i. i \<in> set is \<Longrightarrow> unat i < length ss) \<Longrightarrow>
     record_ok (fold (add_symbol ss ps) is k) \<and>
     rk_kernel_name (fold (add_symbol ss ps) is k) = rk_kernel_name k \<and>
     rk_metallib_path (fold (add_symbol ss ps) is k) = rk_metallib_path k"
proof (induction "is" arbitrary: k)
  case (Cons i "is")
  have i: "unat i < length ss" using Cons.prems(2) by simp
  have "record_ok (add_symbol ss ps i k)"
    by (rule add_symbol_ok [OF Cons.prems(1)])
      (use assms i in \<open>auto simp: list_all2_conv_all_nth list_all_length\<close>)
  from Cons.IH [OF this] Cons.prems(2) show ?case by simp
qed simp

lemma prepare_kernel_ok:
  assumes d: "descriptor_ok d" "tables_full d" and k: "k \<in> set (kernels_of d)"
    and ps: "list_all2 (prepared_ok w) (symbols_of d) ps"
  shows "record_ok (prepare_kernel d path ps k) \<and> rk_kernel_name (prepare_kernel d path ps k) = kd_metal_name k \<and>
    rk_metallib_path (prepare_kernel d path ps k) = path"
proof -
  have "length (symbols_of d) = unat (md_symbol_count d)"
    using d by (intro length_elements) (auto simp: tables_full_def descriptor_ok_def)
  moreover have ok: "kernel_ok d k" and sy: "list_all symbol_ok (symbols_of d)"
    using d(1) k by (auto simp: descriptor_ok_def list_all_iff)
  ultimately have "\<And>i. i \<in> set (indices_of k) \<Longrightarrow> unat i < length (symbols_of d)"
    by (simp add: kernel_ok_def)
  then show ?thesis
    using fold_add_symbol_ok [OF ps sy, of _ "indices_of k"] ok
    by (auto simp: prepare_kernel_def Let_def record_ok_def kernel_ok_def)
qed

section \<open>The invariant\<close>

definition registry_ok :: "registry \<Rightarrow> bool" where
  "registry_ok s \<longleftrightarrow> nr_modules s 0 = None \<and>
     owned nm_host_functions (nr_modules s) (nr_kernels s) \<and> owned nm_host_symbols (nr_modules s) (nr_symbols s) \<and>
     (\<forall>f k. nr_kernels s f = Some k \<longrightarrow> f \<noteq> 0 \<and> record_ok k) \<and>
     (\<forall>a y. nr_symbols s a = Some y \<longrightarrow> a \<noteq> 0 \<and> ns_host_symbol y = a \<and> ns_size y \<noteq> 0) \<and>
     (\<forall>h m f k. nr_modules s h = Some m \<longrightarrow> f \<in> set (nm_host_functions m) \<longrightarrow> nr_kernels s f = Some k \<longrightarrow>
        rk_metallib_path k = nm_metallib_path m)"

lemma registry_ok_parts:
  assumes "registry_ok s"
  shows "nr_modules s 0 = None" "owned nm_host_functions (nr_modules s) (nr_kernels s)"
    "owned nm_host_symbols (nr_modules s) (nr_symbols s)"
    "nr_kernels s f = Some k \<Longrightarrow> f \<noteq> 0 \<and> record_ok k"
    "nr_symbols s a = Some y \<Longrightarrow> a \<noteq> 0 \<and> ns_host_symbol y = a \<and> ns_size y \<noteq> 0"
    "nr_modules s h = Some m \<Longrightarrow> f \<in> set (nm_host_functions m) \<Longrightarrow> nr_kernels s f = Some k \<Longrightarrow>
       rk_metallib_path k = nm_metallib_path m"
  using assms unfolding registry_ok_def by blast+

lemma registry_ok_empty [simp]: "registry_ok empty_registry"
  by (simp add: registry_ok_def empty_registry_def)

lemma emplaced_new:
  "distinct (map fst kvs) \<Longrightarrow> (k, v) \<in> set kvs \<Longrightarrow> m k = None \<Longrightarrow> foldl emplace m kvs k = Some v"
  by (simp add: foldl_emplace)

lemma emplaced_from: "foldl emplace m kvs k = Some v \<Longrightarrow> m k = Some v \<or> (k, v) \<in> set kvs"
  by (auto simp: foldl_emplace dest: map_of_SomeD split: option.splits)

lemma emplaced_domain: "foldl emplace m kvs k \<noteq> None \<longleftrightarrow> m k \<noteq> None \<or> k \<in> fst ` set kvs"
  by (auto simp: foldl_emplace map_of_eq_None_iff split: option.split)

abbreviation kernel_pairs :: "CuMetalModuleDescriptor \<Rightarrow> string \<Rightarrow> NativeSymbol list \<Rightarrow> (u64 \<times> RegisteredKernel) list" where
  "kernel_pairs d path ps \<equiv> map (\<lambda>k. (kd_host_stub k, prepare_kernel d path ps k)) (kernels_of d)"

abbreviation symbol_pairs :: "CuMetalModuleDescriptor \<Rightarrow> NativeSymbol list \<Rightarrow> (u64 \<times> NativeSymbol) list" where
  "symbol_pairs d ps \<equiv> zip (map sd_host_symbol (symbols_of d)) ps"

text \<open>What a registration that gets as far as entering the module has established.\<close>

definition prepared :: "native_world \<Rightarrow> CuMetalModuleDescriptor \<Rightarrow> NativeSymbol list \<Rightarrow> registry \<Rightarrow> bool" where
  "prepared w d ps s \<longleftrightarrow> descriptor_ok d \<and> tables_full d \<and> list_all2 (prepared_ok w) (symbols_of d) ps \<and>
     list_all (\<lambda>k. nr_kernels s (kd_host_stub k) = None) (kernels_of d) \<and>
     list_all (\<lambda>y. nr_symbols s (sd_host_symbol y) = None) (symbols_of d)"

lemma prepared_parts:
  assumes "prepared w d ps s"
  shows "map fst (symbol_pairs d ps) = map sd_host_symbol (symbols_of d)"
    and "distinct (map sd_host_symbol (symbols_of d))" "distinct (map kd_host_stub (kernels_of d))"
    and "a \<in> sd_host_symbol ` set (symbols_of d) \<Longrightarrow> nr_symbols s a = None"
    and "f \<in> kd_host_stub ` set (kernels_of d) \<Longrightarrow> nr_kernels s f = None"
    and "k \<in> set (kernels_of d) \<Longrightarrow> kd_host_stub k \<noteq> 0"
    and "y \<in> set (symbols_of d) \<Longrightarrow> symbol_ok y"
  using assms by (auto simp: prepared_def descriptor_ok_def list_all2_lengthD list_all_iff kernel_ok_def)

lemma symbol_pairs_at:
  assumes "prepared w d ps s" "(a, p) \<in> set (symbol_pairs d ps)"
  shows "\<exists>y \<in> set (symbols_of d). a = sd_host_symbol y \<and> prepared_ok w y p"
proof -
  from assms(2) obtain i where i: "i < length (symbols_of d)" "i < length ps" "a = sd_host_symbol (symbols_of d ! i)" "p = ps ! i"
    by (auto simp: set_zip)
  moreover have "prepared_ok w (symbols_of d ! i) (ps ! i)"
    using assms(1) i(1) by (simp add: prepared_def list_all2_conv_all_nth)
  ultimately show ?thesis by (intro bexI [of _ "symbols_of d ! i"]) auto
qed

lemma prepared_symbol:
  assumes "prepared_ok w y p" "symbol_ok y"
  shows "ns_host_symbol p = sd_host_symbol y \<and> ns_size p \<noteq> 0 \<and> sd_host_symbol y \<noteq> 0"
  using assms by (auto simp: prepared_ok_def native_symbol_def symbol_ok_def ucast_u32_nonzero)

lemma enter_module_ok:
  assumes s: "registry_ok s" and h: "h \<noteq> 0" "nr_modules s h = None" and pr: "prepared w d ps s"
  shows "registry_ok (enter_module h d path ps s)"
proof -
  note parts = prepared_parts [OF pr]
  let ?s = "enter_module h d path ps s"
  let ?m = "\<lparr>nm_metallib_path = path, nm_host_functions = map kd_host_stub (kernels_of d),
       nm_host_symbols = map sd_host_symbol (symbols_of d)\<rparr>"
  have new: "prepare_kernel d path ps k \<in> {r. record_ok r \<and> rk_metallib_path r = path}"
    if "k \<in> set (kernels_of d)" for k
    using prepare_kernel_ok [OF _ _ that, of w ps path] pr by (simp add: prepared_def)
  have mods: "nr_modules ?s = (nr_modules s)(h \<mapsto> ?m)"
    and kers: "nr_kernels ?s = foldl emplace (nr_kernels s) (kernel_pairs d path ps)"
    and syms: "nr_symbols ?s = foldl emplace (nr_symbols s) (symbol_pairs d ps)"
    by (simp_all add: enter_module_def)
  have "owned nm_host_functions (nr_modules ?s) (nr_kernels ?s)" unfolding mods kers
  proof (rule owned_enter [OF registry_ok_parts(2) [OF s] h(2)])
    show "foldl emplace (nr_kernels s) (kernel_pairs d path ps) k \<noteq> None \<longleftrightarrow>
        nr_kernels s k \<noteq> None \<or> k \<in> set (nm_host_functions ?m)" for k
      unfolding emplaced_domain by (simp add: image_image)
  qed (use parts in auto)
  moreover have "owned nm_host_symbols (nr_modules ?s) (nr_symbols ?s)" unfolding mods syms
  proof (rule owned_enter [OF registry_ok_parts(3) [OF s] h(2)])
    show "foldl emplace (nr_symbols s) (symbol_pairs d ps) k \<noteq> None \<longleftrightarrow>
        nr_symbols s k \<noteq> None \<or> k \<in> set (nm_host_symbols ?m)" for k
      using parts(1) by (metis (no_types, lifting) NativeModule.select_convs(3) emplaced_domain set_map)
  qed (use parts in auto)
  moreover have "f \<noteq> 0 \<and> record_ok k" if "nr_kernels ?s f = Some k" for f k
    using emplaced_from [OF that [unfolded kers]] registry_ok_parts(4) [OF s] new parts(6) by fastforce
  moreover have "a \<noteq> 0 \<and> ns_host_symbol y = a \<and> ns_size y \<noteq> 0" if "nr_symbols ?s a = Some y" for a y
    using emplaced_from [OF that [unfolded syms]] registry_ok_parts(5) [OF s] symbol_pairs_at [OF pr]
      prepared_symbol parts(7) by metis
  moreover have "rk_metallib_path k = nm_metallib_path m"
    if m: "nr_modules ?s h' = Some m" "f \<in> set (nm_host_functions m)" "nr_kernels ?s f = Some k" for h' m f k
  proof (cases "h' = h")
    case True
    then have "f \<in> kd_host_stub ` set (kernels_of d)" "m = ?m" using m by (auto simp: mods)
    then show ?thesis using emplaced_from [OF m(3) [unfolded kers]] new parts(5) by fastforce
  next
    case False
    then have "nr_modules s h' = Some m" using m by (simp add: mods)
    moreover from this have "nr_kernels s f \<noteq> None" using owned_key [OF registry_ok_parts(2) [OF s]] m(2) by blast
    ultimately show ?thesis
      using emplaced_from [OF m(3) [unfolded kers]] registry_ok_parts(6) [OF s _ m(2)] parts(5) by fastforce
  qed
  moreover have "nr_modules ?s 0 = None" using registry_ok_parts(1) [OF s] h(1) by (simp add: mods)
  ultimately show ?thesis unfolding registry_ok_def by blast
qed

section \<open>Steps of the registry\<close>

lemma register_cases:
  assumes "cumetalRegisterModule w descriptor fs s = (h, fs', cs, s')" "\<And>d. descriptor = Some d \<Longrightarrow> tables_full d"
  obtains "h = 0" "s' = s"
  | d path ps where "descriptor = Some d" "h = nw_module w" "prepared w d ps s" "s' = enter_module h d path ps s"
      "materialize_metallib w d fs = (Some path, fs')"
proof (cases "validate_descriptor descriptor")
  case (Some e)
  then show ?thesis using assms that(1) by (simp add: cumetalRegisterModule_def)
next
  case None
  then obtain d where d: "descriptor = Some d" "descriptor_ok d"
    using validate_descriptor_iff by blast
  obtain path fs1 where m: "materialize_metallib w d fs = (path, fs1)" by fastforce
  obtain cs1 r where p: "prepare_symbols w 0 (symbols_of d) = (cs1, r)" by fastforce
  show ?thesis
  proof (cases "path = None \<or> r = None \<or> list_ex (\<lambda>k. nr_kernels s (kd_host_stub k) \<noteq> None) (kernels_of d) \<or>
      list_ex (\<lambda>y. nr_symbols s (sd_host_symbol y) \<noteq> None) (symbols_of d)")
    case True
    then show ?thesis
      using assms(1) None d(1) m p that(1)
      by (auto simp: cumetalRegisterModule_def split: option.splits if_splits)
  next
    case False
    then obtain pa ps where "path = Some pa" "r = Some ps" by auto
    moreover from this False have "prepared w d ps s"
      using d assms(2) prepare_symbols_ok p by (auto simp: prepared_def list_all_iff list_ex_iff)
    ultimately show ?thesis
      using assms(1) None d(1) m p that(2) False by (auto simp: cumetalRegisterModule_def)
  qed
qed

inductive registry_step :: "registry \<Rightarrow> registry \<Rightarrow> bool" where
  step_register: "nw_module w \<noteq> 0 \<Longrightarrow> nr_modules s (nw_module w) = None \<Longrightarrow>
     (\<And>d. descriptor = Some d \<Longrightarrow> tables_full d) \<Longrightarrow>
     cumetalRegisterModule w descriptor fs s = (h, fs', cs, s') \<Longrightarrow> registry_step s s'"
| step_unregister: "registry_step s (cumetalUnregisterModule h s)"
| step_reset: "registry_step s (reset_device_state s)"
| step_clear: "registry_step s (clear s)"

definition reachable_registry :: "registry \<Rightarrow> bool" where
  "reachable_registry s = registry_step\<^sup>*\<^sup>* empty_registry s"

lemma unregister_ok: "registry_ok s \<Longrightarrow> registry_ok (cumetalUnregisterModule h s)"
proof (cases "h = 0 \<or> nr_modules s h = None")
  case False
  assume s: "registry_ok s"
  from False obtain m where m: "nr_modules s h = Some m" "h \<noteq> 0" by auto
  note o = owned_leave [OF registry_ok_parts(2) [OF s] m(1)] owned_leave [OF registry_ok_parts(3) [OF s] m(1)]
  show ?thesis
    using s o m unfolding registry_ok_def cumetalUnregisterModule_def
    by (auto simp: erase_keys_apply split: if_splits)
qed (auto simp: cumetalUnregisterModule_def)

lemma reset_ok: "registry_ok s \<Longrightarrow> registry_ok (reset_device_state s)"
proof -
  assume s: "registry_ok s"
  have "owned nm_host_symbols (nr_modules s) (nr_symbols (reset_device_state s))"
    by (rule owned_domain [OF registry_ok_parts(3) [OF s]]) (simp add: reset_device_state_def)
  with s show ?thesis unfolding registry_ok_def by (auto simp: reset_device_state_def)
qed

lemma registry_step_ok: "registry_step s s' \<Longrightarrow> registry_ok s \<Longrightarrow> registry_ok s'"
proof (induction rule: registry_step.induct)
  case (step_register w s descriptor fs h fs' cs s')
  from step_register(4,3) show ?case
    by (cases rule: register_cases) (use step_register enter_module_ok in auto)
qed (simp_all add: unregister_ok reset_ok clear_def)

lemma registry_reachable_ok: "reachable_registry s \<Longrightarrow> registry_ok s"
  unfolding reachable_registry_def by (induction rule: rtranclp_induct) (simp_all add: registry_step_ok)

section \<open>Atomic registration\<close>

lemma enter_then_unregister:
  assumes "h \<noteq> 0" "nr_modules s h = None" "prepared w d ps s"
  shows "cumetalUnregisterModule h (enter_module h d path ps s) = s"
proof -
  note parts = prepared_parts [OF assms(3)]
  have "erase_keys (map sd_host_symbol (symbols_of d)) (foldl emplace (nr_symbols s) (symbol_pairs d ps)) = nr_symbols s"
    using erase_emplaced [of "symbol_pairs d ps" "nr_symbols s"] parts(4) unfolding parts(1) by simp
  moreover have "erase_keys (map kd_host_stub (kernels_of d)) (foldl emplace (nr_kernels s) (kernel_pairs d path ps)) = nr_kernels s"
    using erase_emplaced [of "kernel_pairs d path ps" "nr_kernels s"] parts(5) by (simp add: comp_def)
  ultimately show ?thesis
    using assms(1,2) by (auto simp: cumetalUnregisterModule_def enter_module_def fun_upd_idem)
qed

lemma enter_lookup_kernel:
  assumes "prepared w d ps s" "k \<in> set (kernels_of d)"
  shows "lookup_kernel (kd_host_stub k) (enter_module h d path ps s) = Some (prepare_kernel d path ps k)"
proof -
  note parts = prepared_parts [OF assms(1)]
  have "foldl emplace (nr_kernels s) (kernel_pairs d path ps) (kd_host_stub k) = Some (prepare_kernel d path ps k)"
    using parts(3,5) assms(2) by (intro emplaced_new) (auto simp: comp_def)
  then show ?thesis using parts(6) [OF assms(2)] by (simp add: lookup_kernel_def enter_module_def)
qed

lemma enter_lookup_symbol:
  assumes "prepared w d ps s" "y \<in> set (symbols_of d)"
  shows "\<exists>a. lookup_symbol (nw_contents w) (sd_host_symbol y) (enter_module h d path ps s) = Some (a, ucast (sd_size y)) \<and>
     (sd_kind y = CUMETAL_NATIVE_SYMBOL_CONSTANT \<longrightarrow> a = sd_host_symbol y)"
proof -
  note parts = prepared_parts [OF assms(1)]
  from assms(2) obtain i where i: "i < length (symbols_of d)" "y = symbols_of d ! i" by (auto simp: in_set_conv_nth)
  have l: "length ps = length (symbols_of d)" and p: "prepared_ok w y (ps ! i)"
    using assms(1) i by (auto simp: prepared_def list_all2_conv_all_nth)
  have "(sd_host_symbol y, ps ! i) \<in> set (symbol_pairs d ps)"
    using i l by (auto simp: set_zip intro!: exI [of _ i])
  then have "nr_symbols (enter_module h d path ps s) (sd_host_symbol y) = Some (ps ! i)"
    using parts(1,2,4) assms(2) by (auto simp: enter_module_def intro!: emplaced_new)
  then show ?thesis
    using p prepared_symbol [OF p parts(7) [OF assms(2)]]
    by (auto simp: lookup_symbol_def prepared_ok_def native_symbol_def split: if_splits)
qed

text \<open>
  C24: registering a native module is atomic.  It either fails with the null handle and leaves the
  registry as it was, or every kernel stub and every symbol of the module can be looked up
  afterwards, with the kernel's Metal name and the symbol's size, and removing the module gives the
  registry back as it was.
\<close>

theorem register_module_atomic:
  assumes "nw_module w \<noteq> 0" "nr_modules s (nw_module w) = None" "tables_full d"
    and "cumetalRegisterModule w (Some d) fs s = (h, fs', cs, s')"
  shows "if h = 0 then s' = s
    else h = nw_module w \<and> cumetalUnregisterModule h s' = s \<and>
      list_all (\<lambda>k. map_option rk_kernel_name (lookup_kernel (kd_host_stub k) s') = Some (kd_metal_name k)) (kernels_of d) \<and>
      list_all (\<lambda>y. map_option snd (lookup_symbol (nw_contents w) (sd_host_symbol y) s') = Some (ucast (sd_size y))) (symbols_of d)"
proof -
  have "tables_full d'" if "Some d = Some d'" for d' using that assms(3) by simp
  then consider "h = 0" "s' = s"
    | path ps where "h = nw_module w" "prepared w d ps s" "s' = enter_module h d path ps s"
    using register_cases [OF assms(4)] by (metis option.inject)
  then show ?thesis
  proof cases
    case (2 path ps)
    then have "map_option rk_kernel_name (lookup_kernel (kd_host_stub k) s') = Some (kd_metal_name k)"
      if "k \<in> set (kernels_of d)" for k
      using enter_lookup_kernel [of w d ps s k h path] prepare_kernel_ok [of d k w ps path] that
      by (simp add: prepared_def)
    moreover have "map_option snd (lookup_symbol (nw_contents w) (sd_host_symbol y) s') = Some (ucast (sd_size y))"
      if "y \<in> set (symbols_of d)" for y
      using enter_lookup_symbol [of w d ps s y h path] that 2 by auto
    ultimately show ?thesis
      using 2 assms(1,2) enter_then_unregister by (simp add: list_all_iff)
  qed simp
qed

text \<open>
  C23: every state the registry reaches by registering, removing, resetting and clearing keeps its
  tables consistent: each kernel stub and each symbol belongs to exactly one registered module,
  each stub or symbol a module lists is in the table, kernels carry the metallib of their module,
  the constants of a kernel lie within its constant buffer and its global symbols have buffers.
\<close>

theorem registry_invariant:
  assumes "reachable_registry s"
  shows "registry_ok s"
  using registry_reachable_ok [OF assms] .

section \<open>Room for a module\<close>

definition conflicts :: "registry \<Rightarrow> CuMetalModuleDescriptor \<Rightarrow> u64 \<Rightarrow> bool" where
  "conflicts s d h \<longleftrightarrow> (\<exists>m. nr_modules s h = Some m \<and>
     (set (nm_host_functions m) \<inter> kd_host_stub ` set (kernels_of d) \<noteq> {} \<or>
      set (nm_host_symbols m) \<inter> sd_host_symbol ` set (symbols_of d) \<noteq> {}))"

lemma fold_unregister:
  "registry_ok s \<Longrightarrow> registry_ok (fold cumetalUnregisterModule hs s) \<and>
     nr_modules (fold cumetalUnregisterModule hs s) h = (if h \<in> set hs then None else nr_modules s h)"
proof (induction hs arbitrary: s)
  case (Cons h' hs)
  have "nr_modules (cumetalUnregisterModule h' s) h = (if h = h' then None else nr_modules s h)"
    using registry_ok_parts(1) [OF Cons.prems] by (auto simp: cumetalUnregisterModule_def split: option.split)
  with Cons.IH [OF unregister_ok [OF Cons.prems]] show ?case by auto
qed simp

lemma prepare_symbols_total:
  assumes "\<And>i n. \<exists>b. nw_alloc w i n = Some b \<and> nw_contents w b \<noteq> 0"
  shows "\<exists>cs ps. prepare_symbols w i ss = (cs, Some ps)"
proof (induction ss arbitrary: i)
  case (Cons s ss)
  obtain cs ps where r: "prepare_symbols w (Suc i) ss = (cs, Some ps)" using Cons.IH by blast
  obtain b where "nw_alloc w i (ns_size (native_symbol s)) = Some b" "nw_contents w b \<noteq> 0" using assms by blast
  with r show ?case by (auto simp: Let_def)
qed simp

lemma conflicting_owners:
  assumes o: "owned keys mods tab" and f: "finite ks"
  shows "\<exists>hs. set hs = {h. \<exists>m. mods h = Some m \<and> set (keys m) \<inter> ks \<noteq> {}}"
proof -
  have "finite {h. \<exists>m. mods h = Some m \<and> k \<in> set (keys m)}" for k
  proof (cases "\<exists>h m. mods h = Some m \<and> k \<in> set (keys m)")
    case True
    then obtain h m where h: "mods h = Some m" "k \<in> set (keys m)" by blast
    then have "{h. \<exists>m. mods h = Some m \<and> k \<in> set (keys m)} \<subseteq> {h}" using owned_unique [OF o] by blast
    then show ?thesis by (rule finite_subset) simp
  next
    case False
    then have "{h. \<exists>m. mods h = Some m \<and> k \<in> set (keys m)} = {}" by blast
    then show ?thesis by (simp only: finite.emptyI)
  qed
  then have "finite (\<Union>k \<in> ks. {h. \<exists>m. mods h = Some m \<and> k \<in> set (keys m)})" using f by blast
  moreover have "(\<Union>k \<in> ks. {h. \<exists>m. mods h = Some m \<and> k \<in> set (keys m)}) =
      {h. \<exists>m. mods h = Some m \<and> set (keys m) \<inter> ks \<noteq> {}}" by auto
  ultimately show ?thesis using finite_list by fastforce
qed

text \<open>
  A valid module can always be registered in the end: from every reachable state, when the
  surroundings grant the file and the buffers, removing some modules that hold one of its stubs or
  symbols makes the registration succeed.
\<close>

lemma register_module_possible:
  assumes "reachable_registry s" "validate_descriptor (Some d) = None" "tables_full d"
    and "nw_directory_ok w" "nw_write_ok w" "\<And>i n. \<exists>b. nw_alloc w i n = Some b \<and> nw_contents w b \<noteq> 0"
  shows "\<exists>hs fs' cs s'. list_all (conflicts s d) hs \<and>
    cumetalRegisterModule w (Some d) fs (fold cumetalUnregisterModule hs s) = (nw_module w, fs', cs, s')"
proof -
  have s: "registry_ok s" using registry_reachable_ok [OF assms(1)] .
  obtain h1 where h1: "set h1 = {h. \<exists>m. nr_modules s h = Some m \<and>
      set (nm_host_functions m) \<inter> kd_host_stub ` set (kernels_of d) \<noteq> {}}"
    using conflicting_owners [OF registry_ok_parts(2) [OF s], of "kd_host_stub ` set (kernels_of d)"] by auto
  obtain h2 where h2: "set h2 = {h. \<exists>m. nr_modules s h = Some m \<and>
      set (nm_host_symbols m) \<inter> sd_host_symbol ` set (symbols_of d) \<noteq> {}}"
    using conflicting_owners [OF registry_ok_parts(3) [OF s], of "sd_host_symbol ` set (symbols_of d)"] by auto
  let ?s = "fold cumetalUnregisterModule (h1 @ h2) s"
  have ok: "registry_ok ?s"
    and mods: "\<And>h. nr_modules ?s h = (if h \<in> set (h1 @ h2) then None else nr_modules s h)"
    using fold_unregister [OF s, of "h1 @ h2"] by blast+
  have left: "h \<notin> set h1 \<and> h \<notin> set h2 \<and> nr_modules s h = Some m" if "nr_modules ?s h = Some m" for h m
    using that mods [of h] by (auto split: if_splits)
  have kers: "nr_kernels ?s f = None" if f: "f \<in> kd_host_stub ` set (kernels_of d)" for f
  proof (rule ccontr)
    assume "nr_kernels ?s f \<noteq> None"
    then obtain h m where "nr_modules ?s h = Some m" "f \<in> set (nm_host_functions m)"
      using owned_key [OF registry_ok_parts(2) [OF ok]] by blast
    with left [of h m] f show False unfolding h1 by blast
  qed
  have syms: "nr_symbols ?s a = None" if a: "a \<in> sd_host_symbol ` set (symbols_of d)" for a
  proof (rule ccontr)
    assume "nr_symbols ?s a \<noteq> None"
    then obtain h m where "nr_modules ?s h = Some m" "a \<in> set (nm_host_symbols m)"
      using owned_key [OF registry_ok_parts(3) [OF ok]] by blast
    with left [of h m] a show False unfolding h2 by blast
  qed
  obtain path fs' where "materialize_metallib w d fs = (Some path, fs')"
    using assms(4,5) by (cases "materialize_metallib w d fs") (auto simp: materialize_metallib_def Let_def split: if_splits)
  moreover obtain cs ps where "prepare_symbols w 0 (symbols_of d) = (cs, Some ps)"
    using prepare_symbols_total [OF assms(6)] by blast
  ultimately have "\<exists>fs' cs s'. cumetalRegisterModule w (Some d) fs ?s = (nw_module w, fs', cs, s')"
    using assms(2) kers syms by (auto simp: cumetalRegisterModule_def list_ex_iff)
  moreover have "list_all (conflicts s d) (h1 @ h2)"
    unfolding list_all_iff conflicts_def set_append h1 h2 by blast
  ultimately show ?thesis by blast
qed

text \<open>
  A write that fails and leaves a part of the file poisons the cache: the registration fails, and
  the next one with the same descriptor takes the damaged file for the module's metallib.
\<close>

lemma partial_metallib_reused:
  assumes "validate_descriptor (Some d) = None" "nw_directory_ok w" "\<not> nw_write_ok w" "nw_left w = Some part"
    and "fs (native_path (nw_environment w) (md_abi_version d) (the (md_metallib_data d))) = None"
    and "nw_environment w' = nw_environment w" "nw_directory_ok w'"
  shows "case cumetalRegisterModule w (Some d) fs s of (h, fs', cs, s') \<Rightarrow>
    h = 0 \<and> s' = s \<and> (case materialize_metallib w' d fs' of (path, fs'') \<Rightarrow> (\<exists>p. path = Some p \<and> fs'' p = Some part))"
  using assms by (simp add: cumetalRegisterModule_def materialize_metallib_def Let_def)

section \<open>A module\<close>

text \<open>A module with one kernel, one constant and one global symbol.\<close>

definition sample_descriptor :: CuMetalModuleDescriptor where
  "sample_descriptor = \<lparr>md_abi_version = 3, md_metallib_data = Some [1, 2, 3], md_kernel_count = 1,
     md_kernels = Some [\<lparr>kd_cuda_name = Some ''k'', kd_metal_name = Some ''k_metal'', kd_host_stub = 4096,
       kd_argument_count = 1, kd_arguments = Some [\<lparr>ad_kind = CUMETAL_NATIVE_ARGUMENT_POINTER, ad_size = 8,
         ad_alignment = 8, ad_first_binding = 0, ad_binding_count = 1\<rparr>],
       kd_static_threadgroup_memory = 0, kd_required_simd_width = 32, kd_symbol_count = 2,
       kd_symbol_indices = Some [0, 1], kd_printf_format_count = 0, kd_printf_formats = None\<rparr>],
     md_binding_count = 1,
     md_bindings = Some [\<lparr>nb_metal_index = 0, nb_logical_argument_index = 0, nb_size = 8, nb_alignment = 8\<rparr>],
     md_provenance = None, md_semantic_quality = None, md_symbol_count = 2,
     md_symbols = Some [
       \<lparr>sd_name = Some ''c'', sd_host_symbol = 8192, sd_size = 16, sd_alignment = 4, sd_constant_offset = 32,
         sd_kind = CUMETAL_NATIVE_SYMBOL_CONSTANT\<rparr>,
       \<lparr>sd_name = Some ''g'', sd_host_symbol = 12288, sd_size = 64, sd_alignment = 4, sd_constant_offset = 0,
         sd_kind = CUMETAL_NATIVE_SYMBOL_GLOBAL\<rparr>]\<rparr>"

definition sample_world :: native_world where
  "sample_world = \<lparr>nw_environment = \<lparr>env_cache_dir = Some ''/c'', env_home = None, env_temp = ''/t''\<rparr>,
     nw_directory_ok = True, nw_write_ok = True, nw_left = None, nw_alloc = \<lambda>i n. Some i,
     nw_contents = \<lambda>b. 65536, nw_module = 16\<rparr>"

lemma sample_valid: "validate_descriptor (Some sample_descriptor) = None"
  by code_simp

lemma sample_full: "tables_full sample_descriptor"
  by code_simp

lemma sample_symbols: "\<exists>ps. prepare_symbols sample_world 0 (symbols_of sample_descriptor) = ([(65536, 12288, 64)], Some ps)"
  by (simp add: sample_descriptor_def sample_world_def elements_def native_symbol_def Let_def)

definition sample_registry :: registry where
  "sample_registry = enter_module 16 sample_descriptor
     (native_path (nw_environment sample_world) 3 [1, 2, 3])
     (the (snd (prepare_symbols sample_world 0 (symbols_of sample_descriptor)))) empty_registry"

lemma sample_registered:
  "\<exists>fs'. cumetalRegisterModule sample_world (Some sample_descriptor) (\<lambda>_. None) empty_registry =
     (16, fs', [(65536, 12288, 64)], sample_registry)"
proof -
  obtain ps where ps: "prepare_symbols sample_world 0 (symbols_of sample_descriptor) = ([(65536, 12288, 64)], Some ps)"
    using sample_symbols by blast
  have m: "\<exists>fs'. materialize_metallib sample_world sample_descriptor (\<lambda>_. None) =
      (Some (native_path (nw_environment sample_world) 3 [1, 2, 3]), fs')"
    by (simp add: materialize_metallib_def sample_world_def sample_descriptor_def Let_def)
  have w: "nw_module sample_world = 16" by (simp add: sample_world_def)
  have e: "nr_kernels empty_registry = (\<lambda>_. None)" "nr_symbols empty_registry = (\<lambda>_. None)"
    by (simp_all add: empty_registry_def)
  have n: "\<not> list_ex (\<lambda>_. False) xs" for xs :: "'a list" by (simp add: list_ex_iff)
  show ?thesis
    using m by (auto simp: cumetalRegisterModule_def sample_valid ps w e n sample_registry_def)
qed

lemma sample_reachable: "reachable_registry sample_registry"
proof -
  obtain fs' where r: "cumetalRegisterModule sample_world (Some sample_descriptor) (\<lambda>_. None) empty_registry =
     (16, fs', [(65536, 12288, 64)], sample_registry)"
    using sample_registered by blast
  have "registry_step empty_registry sample_registry"
    by (rule step_register [OF _ _ _ r]) (auto simp: sample_world_def empty_registry_def sample_full)
  then show ?thesis unfolding reachable_registry_def by (rule r_into_rtranclp)
qed

theorem registry_invariant_witness:
  "registry_ok sample_registry \<and> nr_modules sample_registry 16 \<noteq> None"
  using registry_invariant [OF sample_reachable]
  by (simp add: sample_registry_def enter_module_def)

theorem register_module_atomic_witness:
  "cumetalUnregisterModule 16 sample_registry = empty_registry \<and>
   map_option rk_kernel_name (lookup_kernel 4096 sample_registry) = Some (Some ''k_metal'')"
proof -
  have w: "nw_module sample_world \<noteq> 0" "nr_modules empty_registry (nw_module sample_world) = None"
    by (simp_all add: sample_world_def empty_registry_def)
  obtain fs' where "cumetalRegisterModule sample_world (Some sample_descriptor) (\<lambda>_. None) empty_registry =
     (16, fs', [(65536, 12288, 64)], sample_registry)"
    using sample_registered by blast
  from register_module_atomic [OF w sample_full this] show ?thesis
    by (simp add: sample_descriptor_def elements_def list_all_iff)
qed

lemma register_module_possible_witness:
  "\<exists>hs fs' cs s'. list_all (conflicts sample_registry sample_descriptor) hs \<and>
    cumetalRegisterModule sample_world (Some sample_descriptor) (\<lambda>_. None)
      (fold cumetalUnregisterModule hs sample_registry) = (nw_module sample_world, fs', cs, s')"
  by (rule register_module_possible [OF sample_reachable sample_valid sample_full])
    (simp_all add: sample_world_def)

lemma partial_metallib_reused_witness:
  "case cumetalRegisterModule (sample_world\<lparr>nw_write_ok := False, nw_left := Some [1]\<rparr>) (Some sample_descriptor)
      (\<lambda>_. None) empty_registry of (h, fs', cs, s') \<Rightarrow>
    h = 0 \<and> s' = empty_registry \<and> (case materialize_metallib sample_world sample_descriptor fs' of (path, fs'') \<Rightarrow>
      (\<exists>p. path = Some p \<and> fs'' p = Some [1]))"
  by (rule partial_metallib_reused [OF sample_valid]) (simp_all add: sample_world_def)

end
