(* ===== verification/GraphOrder.thy ===== *)
theory GraphOrder
  imports Prelude
begin

text \<open>
  The replay order of a CUDA graph, \<open>topologically_order_graph\<close> of \<open>runtime/rt/cuda_runtime.cpp\<close>: the
  nodes of a graph are addresses in insertion order, and \<open>deps\<close> gives the addresses a node depends
  on.  A counter of open dependencies is a natural number; it is never decremented below zero.
\<close>

section \<open>The algorithm\<close>

fun index_of :: "'a list \<Rightarrow> 'a \<Rightarrow> nat option" where
  "index_of [] x = None"
| "index_of (y # ys) x = (if y = x then Some 0 else map_option Suc (index_of ys x))"

text \<open>Counting one node's dependencies: the counters and, for each node, the list of its dependents.\<close>

fun count_dependencies ::
  "'a list \<Rightarrow> nat \<Rightarrow> 'a list \<Rightarrow> nat list \<Rightarrow> nat list list \<Rightarrow> (nat list \<times> nat list list) option" where
  "count_dependencies ns i [] indegree dependents = Some (indegree, dependents)"
| "count_dependencies ns i (d # ds) indegree dependents =
     (case index_of ns d of
        None \<Rightarrow> None
      | Some j \<Rightarrow> count_dependencies ns i ds (indegree[i := indegree ! i + 1])
                   (dependents[j := dependents ! j @ [i]]))"

fun count_all ::
  "'a list \<Rightarrow> ('a \<Rightarrow> 'a list) \<Rightarrow> nat list \<Rightarrow> nat list \<Rightarrow> nat list list \<Rightarrow> (nat list \<times> nat list list) option" where
  "count_all ns deps [] indegree dependents = Some (indegree, dependents)"
| "count_all ns deps (i # is) indegree dependents =
     (case count_dependencies ns i (deps (ns ! i)) indegree dependents of
        None \<Rightarrow> None
      | Some (indegree', dependents') \<Rightarrow> count_all ns deps is indegree' dependents')"

definition release_dependents :: "nat list \<Rightarrow> nat list \<Rightarrow> nat list" where
  "release_dependents ds indegree = foldl (\<lambda>c i. c[i := c ! i - 1]) indegree ds"

definition ready_node :: "bool list \<Rightarrow> nat list \<Rightarrow> nat option" where
  "ready_node emitted indegree = find (\<lambda>i. \<not> emitted ! i \<and> indegree ! i = 0) [0..<length emitted]"

function order_loop :: "'a list \<Rightarrow> nat list list \<Rightarrow> nat list \<Rightarrow> bool list \<Rightarrow> 'a list \<Rightarrow> 'a list option" where
  "order_loop ns dependents indegree emitted ordered =
     (if length ordered = length ns then Some ordered
      else case ready_node emitted indegree of
        None \<Rightarrow> None
      | Some r \<Rightarrow> order_loop ns dependents (release_dependents (dependents ! r) indegree)
                   (emitted[r := True]) (ordered @ [ns ! r]))"
  by pat_completeness auto

lemma ready_node_Some:
  "ready_node emitted indegree = Some r \<Longrightarrow> r < length emitted \<and> \<not> emitted ! r \<and> indegree ! r = 0"
  unfolding ready_node_def by (auto simp: find_Some_iff)

lemma ready_node_None:
  "ready_node emitted indegree = None \<longleftrightarrow> (\<forall>i < length emitted. emitted ! i \<or> indegree ! i \<noteq> 0)"
  unfolding ready_node_def by (auto simp: find_None_iff)

lemma count_unemitted: "r < length emitted \<Longrightarrow> \<not> emitted ! r \<Longrightarrow>
  length (filter Not (emitted[r := True])) < length (filter Not emitted)"
  by (induction emitted arbitrary: r) (auto simp: nth_Cons list_update.simps split: nat.splits)

termination order_loop
  by (relation "measure (\<lambda>(ns, dependents, indegree, emitted, ordered). length (filter Not emitted))")
    (auto dest: ready_node_Some count_unemitted)

declare order_loop.simps [simp del]

definition order_nodes :: "'a list \<Rightarrow> ('a \<Rightarrow> 'a list) \<Rightarrow> 'a list option" where
  "order_nodes ns deps =
     (if \<not> distinct ns then None
      else case count_all ns deps [0..<length ns] (replicate (length ns) 0) (replicate (length ns) []) of
        None \<Rightarrow> None
      | Some (indegree, dependents) \<Rightarrow> order_loop ns dependents indegree (replicate (length ns) False) [])"

section \<open>Positions\<close>

lemma index_of_None [simp]: "index_of ys x = None \<longleftrightarrow> x \<notin> set ys"
  by (induction ys) auto

lemma index_of_Some: "index_of ys x = Some i \<Longrightarrow> i < length ys \<and> ys ! i = x"
  by (induction ys arbitrary: i) (auto split: if_splits)

lemma index_of_nth: "distinct ys \<Longrightarrow> i < length ys \<Longrightarrow> index_of ys (ys ! i) = Some i"
  by (induction ys arbitrary: i) (auto simp: nth_Cons split: nat.split)

text \<open>The positions of the dependencies of the node at a position.\<close>

definition dep_positions :: "'a list \<Rightarrow> ('a \<Rightarrow> 'a list) \<Rightarrow> nat \<Rightarrow> nat list" where
  "dep_positions ns deps i = map (\<lambda>d. the (index_of ns d)) (deps (ns ! i))"

definition closed_under :: "'a list \<Rightarrow> ('a \<Rightarrow> 'a list) \<Rightarrow> bool" where
  "closed_under ns deps = list_all (\<lambda>n. set (deps n) \<subseteq> set ns) ns"

lemma dep_positions_bound:
  "closed_under ns deps \<Longrightarrow> i < length ns \<Longrightarrow> j \<in> set (dep_positions ns deps i) \<Longrightarrow> j < length ns"
  unfolding dep_positions_def closed_under_def list_all_length
  by (auto dest!: index_of_Some split: option.splits) (metis index_of_None index_of_Some not_None_eq option.sel subsetD)

section \<open>The counters\<close>

lemma count_dependencies_facts:
  assumes "length dpt = length ns"
  shows "count_dependencies ns i ds ind dpt = r \<Longrightarrow> i < length ind \<Longrightarrow>
    (case r of None \<Rightarrow> \<not> set ds \<subseteq> set ns
     | Some (ind', dpt') \<Rightarrow> set ds \<subseteq> set ns \<and> ind' = ind[i := ind ! i + length ds] \<and> length dpt' = length ns \<and>
         (\<forall>j < length ns. \<forall>k. count_list (dpt' ! j) k =
            count_list (dpt ! j) k + (if k = i then count_list (map (\<lambda>d. the (index_of ns d)) ds) j else 0)))"
  using assms
proof (induction ds arbitrary: ind dpt)
  case (Cons d ds)
  show ?case
  proof (cases "index_of ns d")
    case None
    then have "r = None" using Cons.prems(1) by (simp del: index_of_None)
    moreover have "d \<notin> set ns" using None by simp
    ultimately show ?thesis by simp
  next
    case (Some j)
    then have j: "j < length ns" "ns ! j = d" using index_of_Some by fastforce+
    have "d \<in> set ns" using j nth_mem by blast
    moreover have "count_dependencies ns i ds (ind[i := ind ! i + 1]) (dpt[j := dpt ! j @ [i]]) = r"
      using Cons.prems(1) Some by simp
    from Cons.IH [OF this] Cons.prems(2,3) have "case r of None \<Rightarrow> \<not> set ds \<subseteq> set ns
     | Some (ind', dpt') \<Rightarrow> set ds \<subseteq> set ns \<and>
         ind' = (ind[i := ind ! i + 1])[i := ind[i := ind ! i + 1] ! i + length ds] \<and> length dpt' = length ns \<and>
         (\<forall>ja < length ns. \<forall>k. count_list (dpt' ! ja) k = count_list (dpt[j := dpt ! j @ [i]] ! ja) k +
            (if k = i then count_list (map (\<lambda>d. the (index_of ns d)) ds) ja else 0))"
      by simp
    ultimately show ?thesis
      using Cons.prems(2,3) Some j(1)
      by (auto simp: nth_list_update split: option.splits if_splits)
  qed
qed auto

lemma count_all_facts:
  assumes "length dpt = length ns" "length ind = length ns" "distinct is" "set is \<subseteq> {..<length ns}"
  shows "case count_all ns deps is ind dpt of
      None \<Rightarrow> \<not> (\<forall>i \<in> set is. set (deps (ns ! i)) \<subseteq> set ns)
    | Some (ind', dpt') \<Rightarrow> (\<forall>i \<in> set is. set (deps (ns ! i)) \<subseteq> set ns) \<and> length ind' = length ns \<and> length dpt' = length ns \<and>
        (\<forall>i < length ns. ind' ! i = ind ! i + (if i \<in> set is then length (deps (ns ! i)) else 0)) \<and>
        (\<forall>j < length ns. \<forall>i. count_list (dpt' ! j) i =
           count_list (dpt ! j) i + (if i \<in> set is then count_list (dep_positions ns deps i) j else 0))"
  using assms
proof (induction "is" arbitrary: ind dpt)
  case (Cons i "is")
  let ?r = "count_dependencies ns i (deps (ns ! i)) ind dpt"
  have i: "i < length ind" using Cons.prems by simp
  note step = count_dependencies_facts [OF Cons.prems(1) refl i, of "deps (ns ! i)"]
  show ?case
  proof (cases ?r)
    case None
    then show ?thesis using step by auto
  next
    case (Some p)
    obtain ind1 dpt1 where p: "p = (ind1, dpt1)" by (cases p)
    with step Some have s: "set (deps (ns ! i)) \<subseteq> set ns" "ind1 = ind[i := ind ! i + length (deps (ns ! i))]"
      "length dpt1 = length ns" "\<forall>j < length ns. \<forall>k. count_list (dpt1 ! j) k =
            count_list (dpt ! j) k + (if k = i then count_list (dep_positions ns deps i) j else 0)"
      by (simp_all add: dep_positions_def)
    have "length ind1 = length ns" using s(2) Cons.prems(2) by simp
    note ih = Cons.IH [OF s(3) this]
    show ?thesis
      using ih Cons.prems(3,4) s i Cons.prems(2)
      by (auto simp: Some p nth_list_update split: option.splits)
  qed
qed auto

lemma release_dependents_nth:
  "i < length ind \<Longrightarrow> release_dependents ds ind ! i = ind ! i - count_list ds i"
  unfolding release_dependents_def
proof (induction ds arbitrary: ind)
  case (Cons d ds)
  then show ?case by (cases "d < length ind") (auto simp: nth_list_update)
qed simp

lemma length_release_dependents [simp]: "length (release_dependents ds ind) = length ind"
  unfolding release_dependents_def by (induction ds arbitrary: ind) auto

section \<open>The loop\<close>

text \<open>
  \<open>es\<close> are the positions of the nodes in the order so far: every dependency of an ordered node was
  ordered before it, and a counter holds the dependencies that are not ordered yet.
\<close>

definition order_inv :: "'a list \<Rightarrow> ('a \<Rightarrow> 'a list) \<Rightarrow> nat list \<Rightarrow> nat list \<Rightarrow> bool list \<Rightarrow> 'a list \<Rightarrow> bool" where
  "order_inv ns deps es indegree emitted ordered \<longleftrightarrow>
     ordered = map ((!) ns) es \<and> distinct es \<and> set es \<subseteq> {..<length ns} \<and>
     length emitted = length ns \<and> length indegree = length ns \<and>
     (\<forall>i < length ns. emitted ! i \<longleftrightarrow> i \<in> set es) \<and>
     (\<forall>i < length ns. indegree ! i = length (filter (\<lambda>j. j \<notin> set es) (dep_positions ns deps i))) \<and>
     (\<forall>k < length es. set (dep_positions ns deps (es ! k)) \<subseteq> set (take k es))"

lemma filter_count:
  "length (filter (\<lambda>j. j \<notin> insert r A) xs) = length (filter (\<lambda>j. j \<notin> A) xs) - (if r \<in> A then 0 else count_list xs r)"
proof (induction xs)
  case (Cons x xs)
  have "count_list xs r \<le> length (filter (\<lambda>j. j \<notin> A) xs)" if "r \<notin> A"
    using that by (induction xs) auto
  with Cons show ?case by auto
qed simp

lemma order_inv_step:
  assumes inv: "order_inv ns deps es indegree emitted ordered"
    and r: "ready_node emitted indegree = Some r"
    and dpt: "\<forall>j < length ns. \<forall>i < length ns. count_list (dependents ! j) i = count_list (dep_positions ns deps i) j"
  shows "order_inv ns deps (es @ [r]) (release_dependents (dependents ! r) indegree) (emitted[r := True]) (ordered @ [ns ! r])"
proof -
  note i = inv [unfolded order_inv_def]
  have r': "r < length ns" "r \<notin> set es" "indegree ! r = 0"
    using ready_node_Some [OF r] i by auto
  have "release_dependents (dependents ! r) indegree ! x =
      length (filter (\<lambda>j. j \<notin> set (es @ [r])) (dep_positions ns deps x))" if x: "x < length ns" for x
    using filter_count [of r "set es" "dep_positions ns deps x"] i x r' dpt
    by (simp add: release_dependents_nth)
  moreover have "set (dep_positions ns deps r) \<subseteq> set es"
    using r' i by (auto simp: filter_empty_conv)
  ultimately show ?thesis
    unfolding order_inv_def using i r' by (auto simp: nth_append nth_list_update less_Suc_eq)
qed

definition prefix_closed :: "nat \<Rightarrow> (nat \<Rightarrow> nat list) \<Rightarrow> nat list \<Rightarrow> bool" where
  "prefix_closed n pos es \<longleftrightarrow> distinct es \<and> set es = {..<n} \<and> (\<forall>k < length es. set (pos (es ! k)) \<subseteq> set (take k es))"

lemma order_loop_facts:
  assumes "closed_under ns deps"
    and "\<forall>j < length ns. \<forall>i < length ns. count_list (dependents ! j) i = count_list (dep_positions ns deps i) j"
  shows "order_inv ns deps es indegree emitted ordered \<Longrightarrow>
    (case order_loop ns dependents indegree emitted ordered of
       None \<Rightarrow> \<exists>U. U \<noteq> {} \<and> U \<subseteq> {..<length ns} \<and> (\<forall>i \<in> U. \<exists>j \<in> U. j \<in> set (dep_positions ns deps i))
     | Some ord \<Rightarrow> \<exists>es. ord = map ((!) ns) es \<and> prefix_closed (length ns) (dep_positions ns deps) es)"
  using assms
proof (induction ns dependents indegree emitted ordered arbitrary: es rule: order_loop.induct)
  case (1 ns dependents indegree emitted ordered)
  note inv = "1.prems"(1)
  note i = inv [unfolded order_inv_def]
  have card: "card (set es) = length ordered" using i by (simp add: distinct_card)
  show ?case
  proof (cases "length ordered = length ns")
    case True
    then have "set es = {..<length ns}"
      using i card by (metis card_lessThan card_subset_eq finite_lessThan)
    with i True show ?thesis
      by (subst order_loop.simps) (auto simp: prefix_closed_def intro!: exI [of _ es])
  next
    case False
    show ?thesis
    proof (cases "ready_node emitted indegree")
      case None
      let ?U = "{i. i < length ns \<and> i \<notin> set es}"
      have "?U \<noteq> {}"
      proof
        assume "?U = {}"
        then have "set es = {..<length ns}" using i by auto
        with card False show False by simp
      qed
      moreover have "\<exists>j \<in> ?U. j \<in> set (dep_positions ns deps x)" if x: "x \<in> ?U" for x
      proof -
        have "indegree ! x \<noteq> 0" using None x i by (auto simp: ready_node_None)
        then have "filter (\<lambda>j. j \<notin> set es) (dep_positions ns deps x) \<noteq> []" using i x by auto
        then obtain j where "j \<in> set (dep_positions ns deps x)" "j \<notin> set es" by (auto simp: filter_empty_conv)
        with dep_positions_bound [OF "1.prems"(2), of x j] x show ?thesis by auto
      qed
      ultimately show ?thesis
        using None False by (subst order_loop.simps) (auto intro!: exI [of _ ?U])
    next
      case (Some r)
      from "1.IH" [OF False Some order_inv_step [OF inv Some "1.prems"(3)] "1.prems"(2,3)]
      show ?thesis using False Some by (subst order_loop.simps) simp
    qed
  qed
qed

section \<open>The order as a whole\<close>

definition replay_order :: "'a list \<Rightarrow> ('a \<Rightarrow> 'a list) \<Rightarrow> 'a list \<Rightarrow> bool" where
  "replay_order ns deps ord \<longleftrightarrow> distinct ord \<and> set ord = set ns \<and>
     (\<forall>k < length ord. set (deps (ord ! k)) \<subseteq> set (take k ord))"

definition dependency_edges :: "'a list \<Rightarrow> ('a \<Rightarrow> 'a list) \<Rightarrow> ('a \<times> 'a) set" where
  "dependency_edges ns deps = {(d, n). n \<in> set ns \<and> d \<in> set (deps n)}"

lemma finite_edges: "finite (dependency_edges ns deps)"
proof -
  have "dependency_edges ns deps = (\<Union>n \<in> set ns. (\<lambda>d. (d, n)) ` set (deps n))"
    unfolding dependency_edges_def by auto
  then show ?thesis by simp
qed

lemma replay_order_acyclic:
  assumes "replay_order ns deps ord"
  shows "acyclic (dependency_edges ns deps)"
proof -
  have "dependency_edges ns deps \<subseteq> measure (\<lambda>n. the (index_of ord n))"
  proof (clarsimp simp: dependency_edges_def)
    fix d n assume n: "n \<in> set ns" "d \<in> set (deps n)"
    then obtain k where k: "k < length ord" "ord ! k = n"
      using assms unfolding replay_order_def by (metis in_set_conv_nth)
    then have "d \<in> set (take k ord)" using n assms unfolding replay_order_def by blast
    then obtain j where j: "j < k" "ord ! j = d" using k by (auto simp: in_set_conv_nth)
    then show "the (index_of ord d) < the (index_of ord n)"
      using k assms index_of_nth [of ord j] index_of_nth [of ord k] by (simp add: replay_order_def)
  qed
  then show ?thesis using wf_acyclic [OF wf_measure] acyclic_subset by blast
qed

lemma positions_order:
  assumes c: "closed_under ns deps" and d: "distinct ns" and es: "prefix_closed (length ns) (dep_positions ns deps) es"
  shows "replay_order ns deps (map ((!) ns) es)"
  unfolding replay_order_def
proof (intro conjI allI impI)
  show "distinct (map ((!) ns) es)"
    using d es unfolding prefix_closed_def by (auto simp: distinct_map inj_on_def nth_eq_iff_index_eq)
  show "set (map ((!) ns) es) = set ns"
    using es nth_image [of "length ns" ns] unfolding prefix_closed_def by (simp add: lessThan_atLeast0)
  fix k assume k: "k < length (map ((!) ns) es)"
  then have ek: "es ! k < length ns" using es unfolding prefix_closed_def by (metis length_map lessThan_iff nth_mem)
  show "set (deps (map ((!) ns) es ! k)) \<subseteq> set (take k (map ((!) ns) es))"
  proof
    fix x assume "x \<in> set (deps (map ((!) ns) es ! k))"
    then have x: "x \<in> set (deps (ns ! (es ! k)))" using k by simp
    then have "x \<in> set ns" using c ek unfolding closed_under_def list_all_length by blast
    then obtain j where j: "index_of ns x = Some j" by (metis index_of_None not_None_eq)
    then have "j \<in> set (dep_positions ns deps (es ! k))"
      using x unfolding dep_positions_def by force
    then have "j \<in> set (take k es)" using es k unfolding prefix_closed_def by auto
    then show "x \<in> set (take k (map ((!) ns) es))" using index_of_Some [OF j] by (auto simp: take_map)
  qed
qed

lemma no_source_cyclic:
  assumes "U \<noteq> {}" "U \<subseteq> {..<length ns}" "\<And>i. i \<in> U \<Longrightarrow> \<exists>j \<in> U. j \<in> set (dep_positions ns deps i)"
    and c: "closed_under ns deps"
  shows "\<not> acyclic (dependency_edges ns deps)"
proof
  assume "acyclic (dependency_edges ns deps)"
  then have "wf (dependency_edges ns deps)" using finite_acyclic_wf [OF finite_edges] by blast
  moreover obtain u where "u \<in> (!) ns ` U" using assms(1) by blast
  ultimately obtain v where v: "v \<in> (!) ns ` U" "\<And>y. (y, v) \<in> dependency_edges ns deps \<Longrightarrow> y \<notin> (!) ns ` U"
    by (metis wfE_min)
  then obtain i where i: "i \<in> U" "v = ns ! i" by blast
  obtain j where j: "j \<in> U" "j \<in> set (dep_positions ns deps i)" using assms(3) [OF i(1)] by blast
  then obtain x where x: "x \<in> set (deps (ns ! i))" "j = the (index_of ns x)" by (auto simp: dep_positions_def)
  have il: "i < length ns" using i(1) assms(2) by blast
  then have "x \<in> set ns" using x(1) c unfolding closed_under_def list_all_length by blast
  then have "ns ! j = x" using x(2) by (metis index_of_None index_of_Some not_None_eq option.sel)
  moreover have "(x, v) \<in> dependency_edges ns deps" using x(1) i(2) il by (simp add: dependency_edges_def)
  ultimately show False using v(2) [of x] j(1) by blast
qed

lemma initial_counts:
  assumes "closed_under ns deps"
  obtains indegree dependents where
    "count_all ns deps [0..<length ns] (replicate (length ns) 0) (replicate (length ns) []) = Some (indegree, dependents)"
    "\<forall>j < length ns. \<forall>i < length ns. count_list (dependents ! j) i = count_list (dep_positions ns deps i) j"
    "order_inv ns deps [] indegree (replicate (length ns) False) []"
proof -
  have "\<forall>i \<in> set [0..<length ns]. set (deps (ns ! i)) \<subseteq> set ns"
    using assms by (simp add: closed_under_def list_all_length)
  moreover have l: "length (replicate (length ns) []) = length ns" "length (replicate (length ns) 0) = length ns"
    "distinct [0..<length ns]" "set [0..<length ns] \<subseteq> {..<length ns}" by auto
  note facts = count_all_facts [OF l, of deps]
  ultimately obtain indegree dependents where
    r: "count_all ns deps [0..<length ns] (replicate (length ns) 0) (replicate (length ns) []) = Some (indegree, dependents)"
    by (auto split: option.splits)
  show ?thesis
    by (rule that [OF r]) (use facts r in \<open>auto simp: order_inv_def dep_positions_def\<close>)
qed

lemma order_nodes_Some: "order_nodes ns deps = Some ord \<Longrightarrow> distinct ns \<and> closed_under ns deps \<and> replay_order ns deps ord"
proof -
  assume o: "order_nodes ns deps = Some ord"
  then have d: "distinct ns" by (auto simp: order_nodes_def split: if_splits)
  have l: "length (replicate (length ns) []) = length ns" "length (replicate (length ns) 0) = length ns"
    "distinct [0..<length ns]" "set [0..<length ns] \<subseteq> {..<length ns}" by auto
  have c: "closed_under ns deps"
    using o d count_all_facts [OF l, of deps]
    by (auto simp: order_nodes_def closed_under_def list_all_length split: option.splits)
  obtain indegree dependents where *:
    "count_all ns deps [0..<length ns] (replicate (length ns) 0) (replicate (length ns) []) = Some (indegree, dependents)"
    "\<forall>j < length ns. \<forall>i < length ns. count_list (dependents ! j) i = count_list (dep_positions ns deps i) j"
    "order_inv ns deps [] indegree (replicate (length ns) False) []"
    using initial_counts [OF c] by blast
  from order_loop_facts [OF c *(2,3)] o d *(1) positions_order [OF c d] show ?thesis
    by (auto simp: order_nodes_def c)
qed

text \<open>
  C25: the replay order of a graph.  The algorithm finds an order exactly when no node is listed twice, no node depends
  on one outside the graph and the dependencies have no cycle; the order it finds holds every node of the graph
  once and each node after all it depends on.
\<close>

theorem order_nodes_correct:
  "case order_nodes ns deps of
     Some ord \<Rightarrow> distinct ns \<and> closed_under ns deps \<and> acyclic (dependency_edges ns deps) \<and> replay_order ns deps ord
   | None \<Rightarrow> \<not> (distinct ns \<and> closed_under ns deps \<and> acyclic (dependency_edges ns deps))"
proof (cases "order_nodes ns deps")
  case None
  have False if d: "distinct ns" and c: "closed_under ns deps" and a: "acyclic (dependency_edges ns deps)"
  proof -
    obtain indegree dependents where *:
      "count_all ns deps [0..<length ns] (replicate (length ns) 0) (replicate (length ns) []) = Some (indegree, dependents)"
      "\<forall>j < length ns. \<forall>i < length ns. count_list (dependents ! j) i = count_list (dep_positions ns deps i) j"
      "order_inv ns deps [] indegree (replicate (length ns) False) []"
      using initial_counts [OF c] by blast
    have "order_loop ns dependents indegree (replicate (length ns) False) [] = None"
      using None d *(1) by (simp add: order_nodes_def)
    then show False using order_loop_facts [OF c *(2,3)] no_source_cyclic [OF _ _ _ c] a by auto
  qed
  with None show ?thesis by auto
next
  case (Some ord)
  then show ?thesis using order_nodes_Some [OF Some] replay_order_acyclic [of ns deps ord] by simp
qed

section \<open>Graphs in insertion order\<close>

definition in_insertion_order :: "'a list \<Rightarrow> ('a \<Rightarrow> 'a list) \<Rightarrow> bool" where
  "in_insertion_order ns deps \<longleftrightarrow> distinct ns \<and> (\<forall>k < length ns. set (deps (ns ! k)) \<subseteq> set (take k ns))"

lemma insertion_order_closed: "in_insertion_order ns deps \<Longrightarrow> closed_under ns deps"
  unfolding in_insertion_order_def closed_under_def list_all_length by (meson in_set_takeD subset_iff)

lemma insertion_positions:
  assumes "in_insertion_order ns deps" "k < length ns" "j \<in> set (dep_positions ns deps k)"
  shows "j < k"
proof -
  obtain x where x: "x \<in> set (deps (ns ! k))" "j = the (index_of ns x)" using assms(3) by (auto simp: dep_positions_def)
  then have "x \<in> set (take k ns)" using assms(1,2) unfolding in_insertion_order_def by blast
  then obtain i where i: "i < k" "ns ! i = x" using assms(2) by (auto simp: in_set_conv_nth)
  then have "index_of ns x = Some i" using index_of_nth [of ns i] assms(1,2) by (simp add: in_insertion_order_def)
  with x i show ?thesis by simp
qed

lemma insertion_loop:
  assumes o: "in_insertion_order ns deps"
    and dpt: "\<forall>j < length ns. \<forall>i < length ns. count_list (dependents ! j) i = count_list (dep_positions ns deps i) j"
  shows "k \<le> length ns \<Longrightarrow> order_inv ns deps [0..<k] indegree emitted ordered \<Longrightarrow>
    order_loop ns dependents indegree emitted ordered = Some ns"
proof (induction "length ns - k" arbitrary: k indegree emitted ordered)
  case 0
  then have "k = length ns" by simp
  with "0.prems"(2) have "ordered = map ((!) ns) [0..<length ns]" by (simp add: order_inv_def)
  then have "ordered = ns" by (simp only: map_nth)
  then show ?case by (subst order_loop.simps) simp
next
  case (Suc m)
  then have k: "k < length ns" by simp
  note i = Suc.prems(2) [unfolded order_inv_def]
  have "filter (\<lambda>j. j \<notin> set [0..<k]) (dep_positions ns deps k) = []"
    using insertion_positions [OF o k] by (auto simp: filter_empty_conv)
  then have "indegree ! k = 0" using i k by simp
  moreover have "\<not> emitted ! k" using i k by simp
  moreover have "emitted ! j" if "j < k" for j using i k that by simp
  ultimately have r: "ready_node emitted indegree = Some k"
    unfolding ready_node_def find_Some_iff using i k by (intro exI [of _ k]) simp
  have "order_inv ns deps [0..<Suc k] (release_dependents (dependents ! k) indegree) (emitted[k := True]) (ordered @ [ns ! k])"
    using order_inv_step [OF Suc.prems(2) r dpt] by simp
  from Suc.hyps(1) [OF _ _ this] Suc.hyps(2) k
  have "order_loop ns dependents (release_dependents (dependents ! k) indegree) (emitted[k := True]) (ordered @ [ns ! k]) = Some ns"
    by simp
  moreover have "length ordered \<noteq> length ns" using i k by simp
  ultimately show ?case using r by (subst order_loop.simps) simp
qed

lemma order_nodes_insertion:
  assumes "in_insertion_order ns deps"
  shows "order_nodes ns deps = Some ns"
proof -
  obtain indegree dependents where *:
    "count_all ns deps [0..<length ns] (replicate (length ns) 0) (replicate (length ns) []) = Some (indegree, dependents)"
    "\<forall>j < length ns. \<forall>i < length ns. count_list (dependents ! j) i = count_list (dep_positions ns deps i) j"
    "order_inv ns deps [] indegree (replicate (length ns) False) []"
    using initial_counts [OF insertion_order_closed [OF assms]] by blast
  then show ?thesis
    using insertion_loop [OF assms *(2), of 0] assms by (simp add: order_nodes_def in_insertion_order_def)
qed

lemma insertion_order_snoc:
  assumes "in_insertion_order ns deps" "n \<notin> set ns" "set ds \<subseteq> set ns"
  shows "in_insertion_order (ns @ [n]) (deps(n := ds))"
  using assms unfolding in_insertion_order_def
  by (auto simp: nth_append less_Suc_eq)

lemma insertion_order_cong:
  "in_insertion_order ns deps \<Longrightarrow> (\<And>n. n \<in> set ns \<Longrightarrow> deps' n = deps n) \<Longrightarrow> in_insertion_order ns deps'"
  unfolding in_insertion_order_def by simp

end
