(* ===== verification/GraphNodes.thy ===== *)
theory GraphNodes
  imports RuntimeMemory NativeRegistry GraphOrder
begin

text \<open>
  The nodes of CUDA graphs in \<open>runtime/rt/cuda_runtime.cpp\<close>: their parameters, the checks of
  three-dimensional copies on pointers and arrays, and the snapshot of kernel arguments.
\<close>

section \<open>Copies on arrays\<close>

record cudaChannelFormatDesc =
  cf_x :: "32 word"
  cf_y :: "32 word"
  cf_z :: "32 word"
  cf_w :: "32 word"

record CuMetalArray =
  ca_data :: u64
  ca_width :: u64
  ca_height :: u64
  ca_depth :: u64
  ca_desc :: cudaChannelFormatDesc

record cudaMemcpy3DParms =
  cp_srcArray :: u64
  cp_srcPos :: cudaPos
  cp_srcPtr :: cudaPitchedPtr
  cp_dstArray :: u64
  cp_dstPos :: cudaPos
  cp_dstPtr :: cudaPitchedPtr
  cp_extent :: cudaExtent
  cp_kind :: cudaMemcpyKind

definition resolve_array_handle :: "(u64 \<Rightarrow> CuMetalArray option) \<Rightarrow> u64 \<Rightarrow> CuMetalArray option" where
  "resolve_array_handle arrays handle = (if handle = 0 then None else arrays handle)"

text \<open>The counts of bits are signed integers; their sum is formed in 64 bits.\<close>

definition array_element_size :: "CuMetalArray \<Rightarrow> u64 option" where
  "array_element_size a =
     (let d = ca_desc a in
      if sint (cf_x d) < 0 \<or> sint (cf_y d) < 0 \<or> sint (cf_z d) < 0 \<or> sint (cf_w d) < 0 then None
      else let bits = (ucast (cf_x d) + ucast (cf_y d) + ucast (cf_z d) + ucast (cf_w d) :: u64) in
        if bits = 0 \<or> bits > 128 \<or> bits mod 8 \<noteq> 0 then None else Some (bits div 8))"

definition valid_array_region :: "CuMetalArray \<Rightarrow> cudaPos \<Rightarrow> cudaExtent \<Rightarrow> bool" where
  "valid_array_region a p e \<longleftrightarrow>
     pos_x p \<le> ca_width a \<and> ex_width e \<le> ca_width a - pos_x p \<and>
     pos_y p \<le> ca_height a \<and> ex_height e \<le> ca_height a - pos_y p \<and>
     pos_z p \<le> ca_depth a \<and> ex_depth e \<le> ca_depth a - pos_z p"

text \<open>The end of a copy that is a pointer, or the region of one that is an array.\<close>

definition copy_side_ok ::
  "CuMetalArray option \<Rightarrow> cudaPitchedPtr \<Rightarrow> cudaPos \<Rightarrow> u64 option \<Rightarrow> u64 \<Rightarrow> cudaExtent \<Rightarrow> bool" where
  "copy_side_ok array pointer position element_size width_bytes extent =
     (case array of
        Some a \<Rightarrow> valid_array_region a position extent \<and> array_element_size a = element_size
      | None \<Rightarrow> linear_3d_span pointer position width_bytes (ex_height extent) (ex_depth extent) \<noteq> None)"

definition validate_array_memcpy_3d :: "(u64 \<Rightarrow> CuMetalArray option) \<Rightarrow> cudaMemcpy3DParms \<Rightarrow> cudaError" where
  "validate_array_memcpy_3d arrays p =
     (let source = resolve_array_handle arrays (cp_srcArray p);
          destination = resolve_array_handle arrays (cp_dstArray p) in
      if cp_srcArray p \<noteq> 0 \<and> source = None \<or> cp_dstArray p \<noteq> 0 \<and> destination = None
      then cudaErrorInvalidResourceHandle
      else if source = None \<and> destination = None then cudaSuccess
      else let shape = (if source \<noteq> None then the source else the destination);
               element_size = array_element_size shape in
        (case element_size of
           None \<Rightarrow> cudaErrorInvalidValue
         | Some sz \<Rightarrow>
           (case checked_multiply (ex_width (cp_extent p)) sz of
              None \<Rightarrow> cudaErrorInvalidValue
            | Some width_bytes \<Rightarrow>
                if copy_side_ok source (cp_srcPtr p) (cp_srcPos p) element_size width_bytes (cp_extent p) \<and>
                   copy_side_ok destination (cp_dstPtr p) (cp_dstPos p) element_size width_bytes (cp_extent p)
                then cudaSuccess else cudaErrorInvalidValue)))"

definition validate_graph_memcpy_3d_params ::
  "(u64 \<Rightarrow> CuMetalArray option) \<Rightarrow> cudaMemcpy3DParms option \<Rightarrow> bool" where
  "validate_graph_memcpy_3d_params arrays params =
     (case params of
        None \<Rightarrow> False
      | Some p \<Rightarrow>
          if validate_memcpy_kind (cp_kind p) \<noteq> cudaSuccess \<or> ex_width (cp_extent p) = 0 \<or>
             ex_height (cp_extent p) = 0 \<or> ex_depth (cp_extent p) = 0 \<or>
             (cp_srcArray p = 0) = (pp_ptr (cp_srcPtr p) = 0) \<or> (cp_dstArray p = 0) = (pp_ptr (cp_dstPtr p) = 0)
          then False
          else if cp_srcArray p \<noteq> 0 \<or> cp_dstArray p \<noteq> 0 then validate_array_memcpy_3d arrays p = cudaSuccess
          else linear_3d_span (cp_srcPtr p) (cp_srcPos p) (ex_width (cp_extent p)) (ex_height (cp_extent p))
                 (ex_depth (cp_extent p)) \<noteq> None \<and>
               linear_3d_span (cp_dstPtr p) (cp_dstPos p) (ex_width (cp_extent p)) (ex_height (cp_extent p))
                 (ex_depth (cp_extent p)) \<noteq> None)"

section \<open>Nodes\<close>

datatype cudaGraphNodeType =
    cudaGraphNodeTypeKernel | cudaGraphNodeTypeMemcpy | cudaGraphNodeTypeMemset | cudaGraphNodeTypeHost
  | cudaGraphNodeTypeGraph | cudaGraphNodeTypeEmpty | cudaGraphNodeTypeWaitEvent | cudaGraphNodeTypeEventRecord
  | cudaGraphNodeTypeMemAlloc | cudaGraphNodeTypeMemFree | cudaGraphNodeTypeOther nat

record dim3 =
  d3_x :: u32
  d3_y :: u32
  d3_z :: u32

record cudaKernelNodeParams =
  kn_func :: u64
  kn_gridDim :: dim3
  kn_blockDim :: dim3
  kn_kernelParams :: "u64 list option"
  kn_sharedMemBytes :: u32

record cudaHostNodeParams =
  hn_fn :: u64
  hn_userData :: u64

record cudaMemAccessDesc =
  ma_location_type :: nat
  ma_location_id :: int
  ma_flags :: nat

record cudaMemPoolProps =
  mp_allocType :: nat
  mp_handleTypes :: nat
  mp_location_type :: nat
  mp_location_id :: int

text \<open>
  \<open>cudaGraphNode_st\<close>.  A captured library call is the number of its closure; the parameters of a
  three-dimensional copy or of a set are absent in their default state.
\<close>

record Node =
  gn_type :: cudaGraphNodeType
  gn_dependencies :: "u64 list"
  gn_func :: u64
  gn_grid_dim :: dim3
  gn_block_dim :: dim3
  gn_kernel_arg_values :: "bytes list"
  gn_shared_mem :: u64
  gn_dst :: u64
  gn_src :: u64
  gn_count :: u64
  gn_memcpy_kind :: cudaMemcpyKind
  gn_uses_memcpy_3d_params :: bool
  gn_memcpy_3d_params :: "cudaMemcpy3DParms option"
  gn_memset_value :: u32
  gn_uses_memset_params :: bool
  gn_memset_params :: "cudaMemsetParams option"
  gn_host_fn :: u64
  gn_host_user_data :: u64
  gn_library_op :: "nat option"
  gn_graph_allocation :: "nat option"
  gn_pool_props :: "cudaMemPoolProps option"
  gn_access_descs :: "cudaMemAccessDesc list"
  gn_graph_free_ptr :: u64

definition no_dim :: dim3 where
  "no_dim = \<lparr>d3_x = 1, d3_y = 1, d3_z = 1\<rparr>"

definition new_node :: "cudaGraphNodeType \<Rightarrow> Node" where
  "new_node kind = \<lparr>gn_type = kind, gn_dependencies = [], gn_func = 0, gn_grid_dim = no_dim,
     gn_block_dim = no_dim, gn_kernel_arg_values = [], gn_shared_mem = 0, gn_dst = 0, gn_src = 0, gn_count = 0,
     gn_memcpy_kind = cudaMemcpyDefault, gn_uses_memcpy_3d_params = False, gn_memcpy_3d_params = None,
     gn_memset_value = 0, gn_uses_memset_params = False, gn_memset_params = None, gn_host_fn = 0,
     gn_host_user_data = 0, gn_library_op = None, gn_graph_allocation = None, gn_pool_props = None,
     gn_access_descs = [], gn_graph_free_ptr = 0\<rparr>"

section \<open>Kernel arguments\<close>

text \<open>
  The memory of the caller is a map from addresses to bytes.  The sizes are those of the kernel's
  parameters; the caller's vector has an address for each.
\<close>

fun argument_values :: "(u64 \<Rightarrow> u8) \<Rightarrow> u32 list \<Rightarrow> u64 list \<Rightarrow> bytes list option" where
  "argument_values memory (sz # sizes) (p # ps) =
     (if p = 0 \<or> sz = 0 \<or> sz > 65536 then None
      else map_option ((#) (map (\<lambda>i. memory (p + of_nat i)) [0..<unat sz])) (argument_values memory sizes ps))"
| "argument_values memory [] ps = Some []"
| "argument_values memory (sz # sizes) [] = None"

text \<open>
  The native registry is asked first, then the other one, which is an argument here: it gives the
  sizes of the parameters of a kernel it knows.
\<close>

definition kernel_sizes :: "registry \<Rightarrow> (u64 \<Rightarrow> u32 list option) \<Rightarrow> u64 \<Rightarrow> u32 list option" where
  "kernel_sizes native other function =
     (case lookup_kernel function native of
        Some k \<Rightarrow> Some (map ki_size_bytes (rk_arg_info k))
      | None \<Rightarrow> other function)"

definition snapshot_graph_kernel_arguments ::
  "(u64 \<Rightarrow> u8) \<Rightarrow> (u64 \<Rightarrow> u32 list option) \<Rightarrow> u64 \<Rightarrow> u64 list option \<Rightarrow> Node \<Rightarrow> bool \<times> Node" where
  "snapshot_graph_kernel_arguments memory sizes function arguments node =
     (if function = 0 then (False, node)
      else let known = sizes function in
        if known = None \<or> known = Some [] then (arguments = None, node\<lparr>gn_kernel_arg_values := []\<rparr>)
        else case arguments of
          None \<Rightarrow> (False, node)
        | Some ps \<Rightarrow>
            (case argument_values memory (the known) ps of
               None \<Rightarrow> (False, node\<lparr>gn_kernel_arg_values := []\<rparr>)
             | Some values \<Rightarrow> (True, node\<lparr>gn_kernel_arg_values := values\<rparr>)))"

end
