(* ===== verification/GraphState.thy ===== *)
theory GraphState
  imports GraphNodes
begin

text \<open>
  CUDA graphs, \<open>runtime/rt/cuda_runtime.cpp\<close>: creation, copies and destruction of graphs, their nodes
  and dependencies, user objects, instantiation, update and replay of executable graphs, and the
  capture of streams.

  Objects live at addresses: a call that creates one is given the address of the new object, or
  \<open>None\<close> when the allocation fails.  The outer \<open>None\<close> of a result is the use of a handle whose object
  is gone, which is undefined.  \<open>gs_uses\<close> counts the shared pointers to an allocation object that
  nodes hold; the live table of the runtime holds one more for an active allocation.  The calls of
  destructors of user objects are recorded in \<open>gs_destroyed\<close>.
\<close>

section \<open>State\<close>

datatype GraphFreePlacement = kNone | kOwningGraph | kExternalGraph

record GraphLifetimeState =
  gl_contains_memory_nodes :: bool
  gl_executable_instances :: u64

record cudaUserObject =
  uo_ptr :: u64
  uo_destroy :: u64
  uo_refcount :: u32

record cudaGraph =
  gr_nodes :: "u64 list"
  gr_lifetime :: u64
  gr_user_objects :: "(u64 \<times> u32) list"

record cudaGraphExec =
  ex_nodes :: "Node list"
  ex_source_node_index :: "u64 \<Rightarrow> nat option"
  ex_dependency_indices :: "nat list list"
  ex_lifetime :: u64
  ex_auto_free_on_launch :: bool

record CaptureState =
  cs_capturing :: bool
  cs_graph :: u64

record graphs =
  gs_rt :: runtime
  gs_registry :: registry
  gs_arrays :: "u64 \<Rightarrow> CuMetalArray option"
  gs_nodes :: "u64 \<Rightarrow> Node option"
  gs_graphs :: "u64 \<Rightarrow> cudaGraph option"
  gs_lifetimes :: "u64 \<Rightarrow> GraphLifetimeState option"
  gs_execs :: "u64 \<Rightarrow> cudaGraphExec option"
  gs_objects :: "u64 \<Rightarrow> cudaUserObject option"
  gs_captures :: "u64 \<Rightarrow> CaptureState option"
  gs_uses :: "nat \<Rightarrow> nat"
  gs_free_placement :: "nat \<Rightarrow> GraphFreePlacement"
  gs_destroyed :: "(u64 \<times> u64) list"

type_synonym 'o result = "(cudaError \<times> 'o option \<times> graphs) option"

definition done_with :: "cudaError \<Rightarrow> 'o option \<Rightarrow> graphs \<Rightarrow> 'o result" where
  "done_with e out s = Some (e, out, s\<lparr>gs_rt := set_last_error e (gs_rt s)\<rparr>)"

abbreviation invalid_value :: "graphs \<Rightarrow> 'o result" where
  "invalid_value s \<equiv> done_with cudaErrorInvalidValue None s"

definition deps_of :: "graphs \<Rightarrow> u64 \<Rightarrow> u64 list" where
  "deps_of s n = (case gs_nodes s n of None \<Rightarrow> [] | Some v \<Rightarrow> gn_dependencies v)"

section \<open>Nodes and dependencies\<close>

definition graph_contains_node :: "cudaGraph \<Rightarrow> u64 \<Rightarrow> bool" where
  "graph_contains_node g n \<longleftrightarrow> n \<noteq> 0 \<and> n \<in> set (gr_nodes g)"

text \<open>The dependencies of the new node \<open>self\<close>; \<open>None\<close> is a refusal.\<close>

fun assign_loop :: "cudaGraph \<Rightarrow> u64 \<Rightarrow> u64 list \<Rightarrow> u64 list \<Rightarrow> u64 list option" where
  "assign_loop g self acc [] = Some acc"
| "assign_loop g self acc (d # ds) =
     (if \<not> graph_contains_node g d \<or> d = self \<or> d \<in> set acc then None
      else assign_loop g self (acc @ [d]) ds)"

definition assign_graph_dependencies :: "cudaGraph \<Rightarrow> u64 \<Rightarrow> u64 list option \<Rightarrow> u64 \<Rightarrow> u64 list option" where
  "assign_graph_dependencies g self dependencies dependency_count =
     (if dependency_count \<noteq> 0 \<and> dependencies = None then None
      else assign_loop g self []
        (case dependencies of None \<Rightarrow> [] | Some ds \<Rightarrow> take (unat dependency_count) ds))"

definition push_node :: "u64 \<Rightarrow> u64 \<Rightarrow> cudaGraph \<Rightarrow> Node \<Rightarrow> graphs \<Rightarrow> graphs" where
  "push_node g n graph node s = s\<lparr>gs_nodes := (gs_nodes s)(n \<mapsto> node),
     gs_graphs := (gs_graphs s)(g \<mapsto> graph\<lparr>gr_nodes := gr_nodes graph @ [n]\<rparr>)\<rparr>"

definition append_captured_graph_node :: "u64 \<Rightarrow> u64 \<Rightarrow> cudaGraph \<Rightarrow> Node \<Rightarrow> graphs \<Rightarrow> graphs" where
  "append_captured_graph_node g n graph node s =
     push_node g n graph
       (if gr_nodes graph = [] then node
        else node\<lparr>gn_dependencies := gn_dependencies node @ [last (gr_nodes graph)]\<rparr>) s"

text \<open>The common end of the calls that add a node without further state.\<close>

definition add_node :: "u64 \<Rightarrow> u64 \<Rightarrow> u64 list option \<Rightarrow> u64 \<Rightarrow> Node \<Rightarrow> graphs \<Rightarrow> u64 result" where
  "add_node g n dependencies dependency_count node s =
     (case gs_graphs s g of
        None \<Rightarrow> None
      | Some graph \<Rightarrow>
          (case assign_graph_dependencies graph n dependencies dependency_count of
             None \<Rightarrow> invalid_value s
           | Some ds \<Rightarrow> done_with cudaSuccess (Some n) (push_node g n graph (node\<lparr>gn_dependencies := ds\<rparr>) s)))"

definition cudaGraphAddKernelNode ::
  "(u64 \<Rightarrow> u8) \<Rightarrow> (u64 \<Rightarrow> u32 list option) \<Rightarrow> u64 \<Rightarrow> bool \<Rightarrow> u64 \<Rightarrow> u64 list option \<Rightarrow> u64 \<Rightarrow>
     cudaKernelNodeParams option \<Rightarrow> graphs \<Rightarrow> u64 result" where
  "cudaGraphAddKernelNode memory other n out_null g dependencies dependency_count params s =
     (if out_null \<or> g = 0 then invalid_value s
      else case params of
        None \<Rightarrow> invalid_value s
      | Some p \<Rightarrow>
          let node = (new_node cudaGraphNodeTypeKernel)\<lparr>gn_func := kn_func p, gn_grid_dim := kn_gridDim p,
                gn_block_dim := kn_blockDim p, gn_shared_mem := ucast (kn_sharedMemBytes p)\<rparr> in
          case snapshot_graph_kernel_arguments memory (kernel_sizes (gs_registry s) other) (kn_func p)
                 (kn_kernelParams p) node of
            (ok, node') \<Rightarrow>
              if \<not> ok then invalid_value s else add_node g n dependencies dependency_count node' s)"

definition cudaGraphAddMemcpyNode ::
  "u64 \<Rightarrow> bool \<Rightarrow> u64 \<Rightarrow> u64 list option \<Rightarrow> u64 \<Rightarrow> cudaMemcpy3DParms option \<Rightarrow> graphs \<Rightarrow> u64 result" where
  "cudaGraphAddMemcpyNode n out_null g dependencies dependency_count params s =
     (if out_null \<or> g = 0 \<or> \<not> validate_graph_memcpy_3d_params (gs_arrays s) params then invalid_value s
      else add_node g n dependencies dependency_count
        ((new_node cudaGraphNodeTypeMemcpy)\<lparr>gn_uses_memcpy_3d_params := True, gn_memcpy_3d_params := params\<rparr>) s)"

definition cudaGraphAddMemcpyNode1D ::
  "u64 option \<Rightarrow> bool \<Rightarrow> u64 \<Rightarrow> u64 list option \<Rightarrow> u64 \<Rightarrow> u64 \<Rightarrow> u64 \<Rightarrow> u64 \<Rightarrow> cudaMemcpyKind \<Rightarrow> graphs \<Rightarrow>
     u64 result" where
  "cudaGraphAddMemcpyNode1D address out_null g dependencies dependency_count dst src count kind s =
     (if out_null \<or> g = 0 \<or> dst = 0 \<or> src = 0 \<or> count = 0 \<or> validate_memcpy_kind kind \<noteq> cudaSuccess
      then invalid_value s
      else case address of
        None \<Rightarrow> done_with cudaErrorMemoryAllocation None s
      | Some n \<Rightarrow> add_node g n dependencies dependency_count
          ((new_node cudaGraphNodeTypeMemcpy)\<lparr>gn_dst := dst, gn_src := src, gn_count := count,
             gn_memcpy_kind := kind\<rparr>) s)"

definition cudaGraphAddMemsetNode ::
  "u64 \<Rightarrow> bool \<Rightarrow> u64 \<Rightarrow> u64 list option \<Rightarrow> u64 \<Rightarrow> cudaMemsetParams option \<Rightarrow> graphs \<Rightarrow> u64 result" where
  "cudaGraphAddMemsetNode n out_null g dependencies dependency_count params s =
     (if out_null \<or> g = 0 \<or> \<not> validate_graph_memset_params params then invalid_value s
      else add_node g n dependencies dependency_count
        ((new_node cudaGraphNodeTypeMemset)\<lparr>gn_dst := ms_dst (the params), gn_memset_value := ms_value (the params),
           gn_uses_memset_params := True, gn_memset_params := params\<rparr>) s)"

definition cudaGraphAddHostNode ::
  "u64 \<Rightarrow> bool \<Rightarrow> u64 \<Rightarrow> u64 list option \<Rightarrow> u64 \<Rightarrow> cudaHostNodeParams option \<Rightarrow> graphs \<Rightarrow> u64 result" where
  "cudaGraphAddHostNode n out_null g dependencies dependency_count params s =
     (if out_null \<or> g = 0 then invalid_value s
      else case params of
        None \<Rightarrow> invalid_value s
      | Some p \<Rightarrow>
          if hn_fn p = 0 then invalid_value s
          else add_node g n dependencies dependency_count
            ((new_node cudaGraphNodeTypeHost)\<lparr>gn_host_fn := hn_fn p, gn_host_user_data := hn_userData p\<rparr>) s)"

end
