(* ===== verification/GraphMemory.thy ===== *)
theory GraphMemory
  imports GraphState
begin

text \<open>
  Memory in CUDA graphs, \<open>runtime/rt/cuda_runtime.cpp\<close>: the nodes that allocate and free, the shared
  objects behind them, and the calls that report on graph memory.
\<close>

section \<open>Shared allocations\<close>

text \<open>A node that goes away gives up its reference; the last one destroys the allocation object.\<close>

definition drop_reference :: "nat option \<Rightarrow> graphs \<Rightarrow> graphs" where
  "drop_reference allocation s =
     (case allocation of
        None \<Rightarrow> s
      | Some a \<Rightarrow>
          let s1 = s\<lparr>gs_uses := (gs_uses s)(a := gs_uses s a - 1)\<rparr>;
              live = (case graph_objects (gs_rt s) a of None \<Rightarrow> False
                      | Some o' \<Rightarrow> live_graph_allocations (gs_rt s) (ga_base o') = Some a)
          in if gs_uses s1 a = 0 \<and> \<not> live
             then s1\<lparr>gs_rt := release_graph_allocation (Some a) (gs_rt s1)\<rparr> else s1)"

definition add_reference :: "nat option \<Rightarrow> graphs \<Rightarrow> graphs" where
  "add_reference allocation s =
     (case allocation of None \<Rightarrow> s | Some a \<Rightarrow> s\<lparr>gs_uses := (gs_uses s)(a := gs_uses s a + 1)\<rparr>)"

section \<open>Memory nodes\<close>

record cudaMemAllocNodeParams =
  an_poolProps :: cudaMemPoolProps
  an_accessDescs :: "cudaMemAccessDesc list option"
  an_accessDescCount :: u64
  an_bytesize :: u64

text \<open>
  The numbers of the enumerations: pinned allocations are 1, no handle type is 0, a location on the
  device is 1, and the flags of read and of read-write access are 1 and 3.
\<close>

definition pool_ok :: "cudaMemPoolProps \<Rightarrow> bool" where
  "pool_ok p \<longleftrightarrow> mp_allocType p = 1 \<and> mp_handleTypes p = 0 \<and> mp_location_type p = 1 \<and> mp_location_id p = 0"

definition access_ok :: "cudaMemAccessDesc \<Rightarrow> bool" where
  "access_ok a \<longleftrightarrow> ma_location_type a = 1 \<and> ma_location_id a = 0 \<and> (ma_flags a = 1 \<or> ma_flags a = 3)"

definition mark_memory :: "cudaGraph \<Rightarrow> graphs \<Rightarrow> graphs" where
  "mark_memory graph s =
     (case gs_lifetimes s (gr_lifetime graph) of
        None \<Rightarrow> s
      | Some l \<Rightarrow> s\<lparr>gs_lifetimes := (gs_lifetimes s)(gr_lifetime graph \<mapsto> l\<lparr>gl_contains_memory_nodes := True\<rparr>)\<rparr>)"

text \<open>
  The new allocation object has the number \<open>a\<close>.  When its base address is in the map already, the
  object is destroyed again, and its destructor removes the entries of the base from both maps.
\<close>

definition enter_allocation :: "nat \<Rightarrow> GraphAllocationState \<Rightarrow> runtime \<Rightarrow> runtime option" where
  "enter_allocation a ga rt =
     (if graph_allocations rt (ga_base ga) \<noteq> None then None
      else Some (rt\<lparr>graph_objects := (graph_objects rt)(a \<mapsto> ga\<lparr>ga_reserved := True\<rparr>),
                    graph_allocations := (graph_allocations rt)(ga_base ga \<mapsto> a),
                    graph_reserved_current := graph_reserved_current rt + ga_size ga,
                    graph_reserved_high := max (graph_reserved_high rt) (graph_reserved_current rt + ga_size ga)\<rparr>))"

definition discard_allocation :: "nat \<Rightarrow> GraphAllocationState \<Rightarrow> runtime \<Rightarrow> runtime" where
  "discard_allocation a ga rt =
     release_graph_allocation (Some a) (rt\<lparr>graph_objects := (graph_objects rt)(a \<mapsto> ga)\<rparr>)"

definition cudaGraphAddMemAllocNode ::
  "backend \<Rightarrow> u64 option \<Rightarrow> nat \<Rightarrow> bool \<Rightarrow> u64 \<Rightarrow> u64 list option \<Rightarrow> u64 \<Rightarrow> cudaMemAllocNodeParams option \<Rightarrow> graphs \<Rightarrow>
     (u64 \<times> u64) result" where
  "cudaGraphAddMemAllocNode be address a out_null g dependencies dependency_count params s =
     (if out_null \<or> g = 0 \<or> params = None then invalid_value s
      else let p = the params in
        if an_bytesize p = 0 \<or> an_accessDescCount p \<noteq> 0 \<and> an_accessDescs p = None \<or> \<not> pool_ok (an_poolProps p)
        then invalid_value s
        else let descs = (case an_accessDescs p of None \<Rightarrow> [] | Some ds \<Rightarrow> take (unat (an_accessDescCount p)) ds) in
          if \<not> list_all access_ok descs then done_with cudaErrorNotSupported None s
          else if be_init be \<noteq> cudaSuccess then done_with (be_init be) None s
          else case address of
            None \<Rightarrow> done_with cudaErrorMemoryAllocation None s
          | Some n \<Rightarrow>
              (case gs_graphs s g of
                 None \<Rightarrow> None
               | Some graph \<Rightarrow>
                 (case assign_graph_dependencies graph n dependencies dependency_count of
                    None \<Rightarrow> invalid_value s
                  | Some ds \<Rightarrow>
                    (case be_alloc be (an_bytesize p) of
                       (status, None) \<Rightarrow>
                         done_with (if status = cudaSuccess then cudaErrorMemoryAllocation else status) None s
                     | (status, Some b) \<Rightarrow>
                         if status \<noteq> cudaSuccess then done_with status None s
                         else if be_contents be b = 0 then done_with cudaErrorMemoryAllocation None s
                         else let metal = use_metal_device_addresses (be_env_addresses be) in
                           if metal \<and> be_device_address be b = 0 then done_with cudaErrorMemoryAllocation None s
                           else let host_base = be_contents be b; device_base = be_device_address be b;
                                    base = (if metal then device_base else host_base);
                                    ga = \<lparr>ga_buffer = Some b, ga_base = base,
                                      ga_alias = (if base = host_base then device_base else host_base),
                                      ga_size = an_bytesize p, ga_active = False, ga_reserved = False\<rparr>;
                                    node = (new_node cudaGraphNodeTypeMemAlloc)\<lparr>gn_pool_props := Some (an_poolProps p),
                                      gn_access_descs := descs, gn_dependencies := ds, gn_graph_allocation := Some a\<rparr> in
                             case enter_allocation a ga (gs_rt s) of
                               None \<Rightarrow> done_with cudaErrorMemoryAllocation None
                                         (s\<lparr>gs_rt := discard_allocation a ga (gs_rt s)\<rparr>)
                             | Some rt \<Rightarrow>
                                 done_with cudaSuccess (Some (n, base))
                                   (push_node g n graph node (mark_memory graph
                                     (s\<lparr>gs_rt := rt, gs_uses := (gs_uses s)(a := 1),
                                        gs_free_placement := (gs_free_placement s)(a := kNone)\<rparr>)))))))"

text \<open>
  The search of a dependency chain for the allocation node: depth first, each node once.  It is given
  the nodes of the graph; \<open>None\<close> means that it left them.
\<close>

function reaches_allocation :: "graphs \<Rightarrow> u64 list \<Rightarrow> u64 option \<Rightarrow> u64 list \<Rightarrow> u64 list \<Rightarrow> bool option" where
  "reaches_allocation s universe target visited [] = Some False"
| "reaches_allocation s universe target visited (n # stack) =
     (if target = Some n then Some True
      else if n = 0 \<or> n \<in> set visited then reaches_allocation s universe target visited stack
      else if n \<notin> set universe then None
      else reaches_allocation s universe target (n # visited) (deps_of s n @ stack))"
  by pat_completeness auto

lemma unvisited_less:
  "n \<in> set universe \<Longrightarrow> n \<notin> set visited \<Longrightarrow>
   length (filter (\<lambda>x. x \<notin> set (n # visited)) universe) < length (filter (\<lambda>x. x \<notin> set visited) universe)"
proof (induction universe)
  case (Cons u us)
  have "length (filter (\<lambda>x. x \<notin> set (n # visited)) us) \<le> length (filter (\<lambda>x. x \<notin> set visited) us)"
    by (induction us) auto
  with Cons show ?case by auto
qed simp

termination reaches_allocation
  by (relation "measures [\<lambda>(s, universe, target, visited, stack). length (filter (\<lambda>x. x \<notin> set visited) universe),
        \<lambda>(s, universe, target, visited, stack). length stack]")
    (auto simp: unvisited_less [simplified])

text \<open>The allocation node for an address in a graph (the last one), and whether it is freed already.\<close>

definition owns_address :: "graphs \<Rightarrow> u64 \<Rightarrow> u64 \<Rightarrow> bool" where
  "owns_address s dptr n \<longleftrightarrow> n \<noteq> 0 \<and> (case gs_nodes s n of None \<Rightarrow> False
     | Some v \<Rightarrow> gn_type v = cudaGraphNodeTypeMemAlloc \<and>
        (case gn_graph_allocation v of None \<Rightarrow> False
         | Some a \<Rightarrow> (case graph_objects (gs_rt s) a of None \<Rightarrow> False | Some ga \<Rightarrow> ga_base ga = dptr)))"

definition frees_address :: "graphs \<Rightarrow> u64 \<Rightarrow> u64 \<Rightarrow> bool" where
  "frees_address s dptr n \<longleftrightarrow> n \<noteq> 0 \<and> (case gs_nodes s n of None \<Rightarrow> False
     | Some v \<Rightarrow> gn_type v = cudaGraphNodeTypeMemFree \<and> gn_graph_free_ptr v = dptr)"

definition owning_node :: "graphs \<Rightarrow> u64 \<Rightarrow> cudaGraph \<Rightarrow> u64 option" where
  "owning_node s dptr graph = find (owns_address s dptr) (rev (gr_nodes graph))"

definition external_allocation :: "graphs \<Rightarrow> u64 \<Rightarrow> nat option" where
  "external_allocation s dptr =
     (case graph_allocations (gs_rt s) dptr of
        None \<Rightarrow> None
      | Some a \<Rightarrow> if graph_objects (gs_rt s) a = None then None else Some a)"

text \<open>\<open>Some (Inl ())\<close> is the refusal of a dependency, \<open>Some (Inr b)\<close> says whether one of them reaches the node.\<close>

fun ordered_after :: "graphs \<Rightarrow> cudaGraph \<Rightarrow> u64 option \<Rightarrow> bool \<Rightarrow> u64 list \<Rightarrow> (unit + bool) option" where
  "ordered_after s graph target found [] = Some (Inr found)"
| "ordered_after s graph target found (d # ds) =
     (if \<not> graph_contains_node graph d then Some (Inl ())
      else case reaches_allocation s (gr_nodes graph) target [] [d] of
        None \<Rightarrow> None
      | Some b \<Rightarrow> ordered_after s graph target (found \<or> b) ds)"

definition cudaGraphAddMemFreeNode ::
  "u64 option \<Rightarrow> bool \<Rightarrow> u64 \<Rightarrow> u64 list option \<Rightarrow> u64 \<Rightarrow> u64 \<Rightarrow> graphs \<Rightarrow> u64 result" where
  "cudaGraphAddMemFreeNode address out_null g dependencies dependency_count dptr s =
     (if out_null \<or> g = 0 \<or> dptr = 0 \<or> dependency_count \<noteq> 0 \<and> dependencies = None then invalid_value s
      else case gs_graphs s g of
        None \<Rightarrow> None
      | Some graph \<Rightarrow>
          if list_ex (frees_address s dptr) (gr_nodes graph) then invalid_value s
          else let owner = owning_node s dptr graph;
                   allocation = (case owner of Some n \<Rightarrow> gn_graph_allocation (the (gs_nodes s n))
                                 | None \<Rightarrow> external_allocation s dptr)
          in case allocation of
               None \<Rightarrow> invalid_value s
             | Some a \<Rightarrow>
                 (case ordered_after s graph owner (owner = None)
                         (case dependencies of None \<Rightarrow> [] | Some ds \<Rightarrow> take (unat dependency_count) ds) of
                    None \<Rightarrow> None
                  | Some (Inl _) \<Rightarrow> invalid_value s
                  | Some (Inr ordered) \<Rightarrow>
                      if \<not> ordered then invalid_value s
                      else case address of
                        None \<Rightarrow> done_with cudaErrorMemoryAllocation None s
                      | Some n \<Rightarrow>
                          (case assign_graph_dependencies graph n dependencies dependency_count of
                             None \<Rightarrow> invalid_value s
                           | Some ds \<Rightarrow>
                               if gs_free_placement s a \<noteq> kNone then invalid_value s
                               else done_with cudaSuccess (Some n)
                                 (push_node g n graph ((new_node cudaGraphNodeTypeMemFree)\<lparr>gn_graph_free_ptr := dptr,
                                      gn_graph_allocation := Some a, gn_dependencies := ds\<rparr>)
                                   (mark_memory graph (add_reference (Some a)
                                     (s\<lparr>gs_free_placement := (gs_free_placement s)
                                          (a := if owner = None then kExternalGraph else kOwningGraph)\<rparr>)))))))"

section \<open>Queries\<close>

text \<open>The parameters of an allocation node, with the address it will have.\<close>

definition cudaGraphMemAllocNodeGetParams ::
  "u64 \<Rightarrow> bool \<Rightarrow> graphs \<Rightarrow> (cudaMemAllocNodeParams \<times> u64) result" where
  "cudaGraphMemAllocNodeGetParams n out_null s =
     (if n = 0 \<or> out_null then invalid_value s
      else case gs_nodes s n of
        None \<Rightarrow> None
      | Some v \<Rightarrow>
          if gn_type v \<noteq> cudaGraphNodeTypeMemAlloc then invalid_value s
          else (case gn_graph_allocation v of
                  None \<Rightarrow> invalid_value s
                | Some a \<Rightarrow>
                    (case graph_objects (gs_rt s) a of
                       None \<Rightarrow> None
                     | Some ga \<Rightarrow> done_with cudaSuccess
                         (Some (\<lparr>an_poolProps = the (gn_pool_props v),
                            an_accessDescs = (if gn_access_descs v = [] then None else Some (gn_access_descs v)),
                            an_accessDescCount = of_nat (length (gn_access_descs v)),
                            an_bytesize = ga_size ga\<rparr>, ga_base ga)) s)))"

definition cudaGraphMemFreeNodeGetParams :: "u64 \<Rightarrow> bool \<Rightarrow> graphs \<Rightarrow> u64 result" where
  "cudaGraphMemFreeNodeGetParams n out_null s =
     (if n = 0 \<or> out_null then invalid_value s
      else case gs_nodes s n of
        None \<Rightarrow> None
      | Some v \<Rightarrow>
          if gn_type v \<noteq> cudaGraphNodeTypeMemFree then invalid_value s
          else done_with cudaSuccess (Some (gn_graph_free_ptr v)) s)"

datatype cudaGraphMemAttributeType =
    cudaGraphMemAttrUsedMemCurrent | cudaGraphMemAttrUsedMemHigh | cudaGraphMemAttrReservedMemCurrent
  | cudaGraphMemAttrReservedMemHigh | cudaGraphMemAttrOther nat

definition cudaDeviceGetGraphMemAttribute ::
  "int \<Rightarrow> cudaGraphMemAttributeType \<Rightarrow> bool \<Rightarrow> graphs \<Rightarrow> u64 result" where
  "cudaDeviceGetGraphMemAttribute device attr value_null s =
     (if device \<noteq> 0 \<or> value_null then invalid_value s
      else case attr of
        cudaGraphMemAttrUsedMemCurrent \<Rightarrow> done_with cudaSuccess (Some (graph_used_current (gs_rt s))) s
      | cudaGraphMemAttrUsedMemHigh \<Rightarrow> done_with cudaSuccess (Some (graph_used_high (gs_rt s))) s
      | cudaGraphMemAttrReservedMemCurrent \<Rightarrow> done_with cudaSuccess (Some (graph_reserved_current (gs_rt s))) s
      | cudaGraphMemAttrReservedMemHigh \<Rightarrow> done_with cudaSuccess (Some (graph_reserved_high (gs_rt s))) s
      | cudaGraphMemAttrOther _ \<Rightarrow> invalid_value s)"

definition cudaDeviceSetGraphMemAttribute ::
  "int \<Rightarrow> cudaGraphMemAttributeType \<Rightarrow> u64 option \<Rightarrow> graphs \<Rightarrow> unit result" where
  "cudaDeviceSetGraphMemAttribute device attr requested s =
     (if device \<noteq> 0 \<or> requested = None then invalid_value s
      else if requested \<noteq> Some 0 then invalid_value s
      else case attr of
        cudaGraphMemAttrUsedMemHigh \<Rightarrow>
          done_with cudaSuccess None (s\<lparr>gs_rt := (gs_rt s)\<lparr>graph_used_high := graph_used_current (gs_rt s)\<rparr>\<rparr>)
      | cudaGraphMemAttrReservedMemHigh \<Rightarrow>
          done_with cudaSuccess None (s\<lparr>gs_rt := (gs_rt s)\<lparr>graph_reserved_high := graph_reserved_current (gs_rt s)\<rparr>\<rparr>)
      | _ \<Rightarrow> invalid_value s)"

definition cudaDeviceGraphMemTrim :: "int \<Rightarrow> graphs \<Rightarrow> unit result" where
  "cudaDeviceGraphMemTrim device s =
     (if device \<noteq> 0 then invalid_value s else done_with cudaSuccess None s)"

end
