(* ===== verification/GraphEdit.thy ===== *)
theory GraphEdit
  imports GraphMemory
begin

text \<open>
  Reading and changing the nodes of CUDA graphs, \<open>runtime/rt/cuda_runtime.cpp\<close>: the calls that set the
  parameters of a node, list the nodes of a graph and print it.  Each parameter call has a part that
  works on a node alone; the calls on executable graphs use it on their copies.
\<close>

section \<open>Parameters of nodes\<close>

definition dim_positive :: "dim3 \<Rightarrow> bool" where
  "dim_positive d \<longleftrightarrow> d3_x d \<noteq> 0 \<and> d3_y d \<noteq> 0 \<and> d3_z d \<noteq> 0"

definition kernel_node_update ::
  "(u64 \<Rightarrow> u8) \<Rightarrow> (u64 \<Rightarrow> u32 list option) \<Rightarrow> cudaKernelNodeParams \<Rightarrow> Node \<Rightarrow> Node option" where
  "kernel_node_update memory sizes p v =
     (case snapshot_graph_kernel_arguments memory sizes (kn_func p) (kn_kernelParams p)
             (v\<lparr>gn_func := kn_func p, gn_grid_dim := kn_gridDim p, gn_block_dim := kn_blockDim p,
                gn_shared_mem := ucast (kn_sharedMemBytes p)\<rparr>) of
        (ok, v') \<Rightarrow> if ok then Some v' else None)"

definition kernel_params_ok :: "cudaKernelNodeParams option \<Rightarrow> bool" where
  "kernel_params_ok params \<longleftrightarrow> (case params of None \<Rightarrow> False | Some p \<Rightarrow> kn_func p \<noteq> 0 \<and> dim_positive (kn_gridDim p) \<and> dim_positive (kn_blockDim p))"

definition memcpy_node_update ::
  "(u64 \<Rightarrow> CuMetalArray option) \<Rightarrow> cudaMemcpy3DParms option \<Rightarrow> Node \<Rightarrow> Node option" where
  "memcpy_node_update arrays params v =
     (if gn_type v \<noteq> cudaGraphNodeTypeMemcpy \<or> \<not> validate_graph_memcpy_3d_params arrays params then None
      else Some (v\<lparr>gn_uses_memcpy_3d_params := True, gn_memcpy_3d_params := params, gn_dst := 0, gn_src := 0,
                   gn_count := 0\<rparr>))"

definition memcpy_1d_node_update :: "u64 \<Rightarrow> u64 \<Rightarrow> u64 \<Rightarrow> cudaMemcpyKind \<Rightarrow> Node \<Rightarrow> Node option" where
  "memcpy_1d_node_update dst src count kind v =
     (if gn_type v \<noteq> cudaGraphNodeTypeMemcpy \<or> dst = 0 \<or> src = 0 \<or> count = 0 \<or>
         validate_memcpy_kind kind \<noteq> cudaSuccess then None
      else Some (v\<lparr>gn_uses_memcpy_3d_params := False, gn_memcpy_3d_params := None, gn_dst := dst, gn_src := src,
                   gn_count := count, gn_memcpy_kind := kind\<rparr>))"

definition memset_node_update :: "cudaMemsetParams option \<Rightarrow> Node \<Rightarrow> Node option" where
  "memset_node_update params v =
     (if gn_type v \<noteq> cudaGraphNodeTypeMemset \<or> \<not> validate_graph_memset_params params then None
      else Some (v\<lparr>gn_dst := ms_dst (the params), gn_memset_value := ms_value (the params),
                   gn_uses_memset_params := True, gn_memset_params := params\<rparr>))"

definition host_node_update :: "cudaHostNodeParams option \<Rightarrow> Node \<Rightarrow> Node option" where
  "host_node_update params v =
     (case params of
        None \<Rightarrow> None
      | Some p \<Rightarrow>
          if gn_type v \<noteq> cudaGraphNodeTypeHost \<or> hn_fn p = 0 then None
          else Some (v\<lparr>gn_host_fn := hn_fn p, gn_host_user_data := hn_userData p\<rparr>))"

text \<open>A call on a node that replaces it, or refuses.\<close>

definition update_node :: "(Node \<Rightarrow> Node option) \<Rightarrow> u64 \<Rightarrow> graphs \<Rightarrow> unit result" where
  "update_node f n s =
     (if n = 0 then invalid_value s
      else case gs_nodes s n of
        None \<Rightarrow> None
      | Some v \<Rightarrow>
          (case f v of
             None \<Rightarrow> invalid_value s
           | Some v' \<Rightarrow> done_with cudaSuccess None (s\<lparr>gs_nodes := (gs_nodes s)(n \<mapsto> v')\<rparr>)))"

definition cudaGraphKernelNodeSetParams ::
  "(u64 \<Rightarrow> u8) \<Rightarrow> (u64 \<Rightarrow> u32 list option) \<Rightarrow> u64 \<Rightarrow> cudaKernelNodeParams option \<Rightarrow> graphs \<Rightarrow> unit result" where
  "cudaGraphKernelNodeSetParams memory other n params s =
     (if params = None then invalid_value s
      else update_node (\<lambda>v. if gn_type v \<noteq> cudaGraphNodeTypeKernel \<or> \<not> kernel_params_ok params then None
                      else kernel_node_update memory (kernel_sizes (gs_registry s) other) (the params) v) n s)"

definition cudaGraphMemcpyNodeSetParams :: "u64 \<Rightarrow> cudaMemcpy3DParms option \<Rightarrow> graphs \<Rightarrow> unit result" where
  "cudaGraphMemcpyNodeSetParams n params s = update_node (memcpy_node_update (gs_arrays s) params) n s"

definition cudaGraphMemcpyNodeSetParams1D ::
  "u64 \<Rightarrow> u64 \<Rightarrow> u64 \<Rightarrow> u64 \<Rightarrow> cudaMemcpyKind \<Rightarrow> graphs \<Rightarrow> unit result" where
  "cudaGraphMemcpyNodeSetParams1D n dst src count kind s = update_node (memcpy_1d_node_update dst src count kind) n s"

definition cudaGraphMemsetNodeSetParams :: "u64 \<Rightarrow> cudaMemsetParams option \<Rightarrow> graphs \<Rightarrow> unit result" where
  "cudaGraphMemsetNodeSetParams n params s = update_node (memset_node_update params) n s"

definition cudaGraphHostNodeSetParams :: "u64 \<Rightarrow> cudaHostNodeParams option \<Rightarrow> graphs \<Rightarrow> unit result" where
  "cudaGraphHostNodeSetParams n params s = update_node (host_node_update params) n s"

definition cudaGraphNodeGetType :: "u64 \<Rightarrow> bool \<Rightarrow> graphs \<Rightarrow> cudaGraphNodeType result" where
  "cudaGraphNodeGetType n out_null s =
     (if n = 0 \<or> out_null then invalid_value s
      else case gs_nodes s n of None \<Rightarrow> None | Some v \<Rightarrow> done_with cudaSuccess (Some (gn_type v)) s)"

section \<open>Listing a graph\<close>

text \<open>The answer is the list the caller's array receives, and the number of nodes.\<close>

definition cudaGraphGetNodes :: "u64 \<Rightarrow> bool \<Rightarrow> u64 option \<Rightarrow> graphs \<Rightarrow> (u64 list \<times> u64) result" where
  "cudaGraphGetNodes g nodes_null count s =
     (if g = 0 \<or> count = None then invalid_value s
      else case gs_graphs s g of
        None \<Rightarrow> None
      | Some graph \<Rightarrow>
          let available = of_nat (length (gr_nodes graph)); k = min (the count) available in
          if nodes_null then done_with cudaSuccess (Some ([], available)) s
          else done_with cudaSuccess (Some (take (unat k) (gr_nodes graph), k)) s)"

definition cudaGraphGetRootNodes :: "u64 \<Rightarrow> bool \<Rightarrow> u64 option \<Rightarrow> graphs \<Rightarrow> (u64 list \<times> u64) result" where
  "cudaGraphGetRootNodes g nodes_null count s =
     (if g = 0 \<or> count = None then invalid_value s
      else case gs_graphs s g of
        None \<Rightarrow> None
      | Some graph \<Rightarrow>
          let roots = filter (\<lambda>n. n \<noteq> 0 \<and> deps_of s n = []) (gr_nodes graph);
              available = of_nat (length roots); k = min (the count) available in
          if nodes_null then done_with cudaSuccess (Some ([], available)) s
          else done_with cudaSuccess (Some (take (unat k) roots, k)) s)"

definition graph_node_type_name :: "cudaGraphNodeType \<Rightarrow> string" where
  "graph_node_type_name kind =
     (case kind of
        cudaGraphNodeTypeKernel \<Rightarrow> ''kernel'' | cudaGraphNodeTypeMemcpy \<Rightarrow> ''memcpy''
      | cudaGraphNodeTypeMemset \<Rightarrow> ''memset'' | cudaGraphNodeTypeHost \<Rightarrow> ''host''
      | cudaGraphNodeTypeGraph \<Rightarrow> ''graph'' | cudaGraphNodeTypeEmpty \<Rightarrow> ''empty''
      | cudaGraphNodeTypeWaitEvent \<Rightarrow> ''wait_event'' | cudaGraphNodeTypeEventRecord \<Rightarrow> ''event_record''
      | cudaGraphNodeTypeMemAlloc \<Rightarrow> ''mem_alloc'' | cudaGraphNodeTypeMemFree \<Rightarrow> ''mem_free''
      | cudaGraphNodeTypeOther _ \<Rightarrow> ''node'')"

text \<open>The text of the graph; the index of a node listed twice would be its last position.\<close>

definition last_index :: "u64 list \<Rightarrow> u64 \<Rightarrow> nat option" where
  "last_index ns n = map_option (\<lambda>i. length ns - 1 - i) (index_of (rev ns) n)"

definition dot_label :: "graphs \<Rightarrow> u64 list \<Rightarrow> nat \<Rightarrow> string" where
  "dot_label s ns i =
     ''  node'' @ show_nat i @ '' [label='' @ [CHR 34] @
     graph_node_type_name (gn_type (the (gs_nodes s (ns ! i)))) @ [CHR 34] @ ''];'' @ [CHR 10]"

definition dot_edges :: "graphs \<Rightarrow> u64 list \<Rightarrow> nat \<Rightarrow> string" where
  "dot_edges s ns i =
     concat (map (\<lambda>d. case last_index ns d of
                     None \<Rightarrow> []
                   | Some j \<Rightarrow> ''  node'' @ show_nat j @ '' -> node'' @ show_nat i @ '';'' @ [CHR 10])
               (deps_of s (ns ! i)))"

definition dot_text :: "graphs \<Rightarrow> u64 list \<Rightarrow> string" where
  "dot_text s ns =
     ''digraph cumetal_graph {'' @ [CHR 10] @ concat (map (dot_label s ns) [0..<length ns]) @
     concat (map (dot_edges s ns) [0..<length ns]) @ ''}'' @ [CHR 10]"

text \<open>The two arguments of type \<open>bool\<close> say whether the file opens and whether the writes succeed.\<close>

definition cudaGraphDebugDotPrint :: "bool \<Rightarrow> bool \<Rightarrow> u64 \<Rightarrow> string option \<Rightarrow> graphs \<Rightarrow> string result" where
  "cudaGraphDebugDotPrint opens writes g path s =
     (if g = 0 \<or> path = None then invalid_value s
      else if \<not> opens then done_with cudaErrorOperatingSystem None s
      else case gs_graphs s g of
        None \<Rightarrow> None
      | Some graph \<Rightarrow>
          if list_ex (\<lambda>n. gs_nodes s n = None) (gr_nodes graph) then None
          else done_with (if writes then cudaSuccess else cudaErrorOperatingSystem)
                 (Some (dot_text s (gr_nodes graph))) s)"

end
