(* ===== verification/GraphObjects.thy ===== *)
theory GraphObjects
  imports GraphMemory
begin

text \<open>
  CUDA graphs as objects, \<open>runtime/rt/cuda_runtime.cpp\<close>: creation, copies and destruction of graphs,
  and the user objects whose lifetime a graph extends.
\<close>

section \<open>User objects\<close>

text \<open>The answer says whether the release was accepted; the last one calls the destructor.\<close>

definition release_user_object :: "u64 \<Rightarrow> u32 \<Rightarrow> graphs \<Rightarrow> (bool \<times> graphs) option" where
  "release_user_object obj count s =
     (if obj = 0 \<or> count = 0 then Some (False, s)
      else case gs_objects s obj of
        None \<Rightarrow> None
      | Some u \<Rightarrow>
          if count > uo_refcount u then Some (False, s)
          else if uo_refcount u - count \<noteq> 0
          then Some (True, s\<lparr>gs_objects := (gs_objects s)(obj \<mapsto> u\<lparr>uo_refcount := uo_refcount u - count\<rparr>)\<rparr>)
          else Some (True, s\<lparr>gs_objects := (gs_objects s)(obj := None),
                 gs_destroyed := gs_destroyed s @ (if uo_destroy u \<noteq> 0 then [(uo_destroy u, uo_ptr u)] else [])\<rparr>))"

text \<open>The flag \<open>cudaUserObjectNoDestructorSync\<close> and the flag \<open>cudaGraphUserObjectMove\<close> are both 1.\<close>

definition cudaUserObjectCreate ::
  "u64 \<Rightarrow> bool \<Rightarrow> u64 \<Rightarrow> u64 \<Rightarrow> u32 \<Rightarrow> u32 \<Rightarrow> graphs \<Rightarrow> u64 result" where
  "cudaUserObjectCreate address out_null ptr destroy initialRefcount flags s =
     (if out_null \<or> destroy = 0 \<or> initialRefcount = 0 then invalid_value s
      else if flags \<noteq> 0 \<and> flags \<noteq> 1 then invalid_value s
      else done_with cudaSuccess (Some address)
        (s\<lparr>gs_objects := (gs_objects s)
             (address \<mapsto> \<lparr>uo_ptr = ptr, uo_destroy = destroy, uo_refcount = initialRefcount\<rparr>)\<rparr>))"

definition retain_user_object :: "u64 \<Rightarrow> u32 \<Rightarrow> graphs \<Rightarrow> graphs option" where
  "retain_user_object obj count s =
     (case gs_objects s obj of
        None \<Rightarrow> None
      | Some u \<Rightarrow> Some (s\<lparr>gs_objects := (gs_objects s)(obj \<mapsto> u\<lparr>uo_refcount := uo_refcount u + count\<rparr>)\<rparr>))"

definition cudaUserObjectRetain :: "u64 \<Rightarrow> u32 \<Rightarrow> graphs \<Rightarrow> unit result" where
  "cudaUserObjectRetain obj count s =
     (if obj = 0 \<or> count = 0 then invalid_value s
      else case retain_user_object obj count s of
        None \<Rightarrow> None
      | Some s' \<Rightarrow> done_with cudaSuccess None s')"

definition cudaUserObjectRelease :: "u64 \<Rightarrow> u32 \<Rightarrow> graphs \<Rightarrow> unit result" where
  "cudaUserObjectRelease obj count s =
     (case release_user_object obj count s of
        None \<Rightarrow> None
      | Some (ok, s') \<Rightarrow> if \<not> ok then invalid_value s' else done_with cudaSuccess None s')"

fun hold_object :: "u64 \<Rightarrow> u32 \<Rightarrow> (u64 \<times> u32) list \<Rightarrow> (u64 \<times> u32) list" where
  "hold_object obj count [] = [(obj, count)]"
| "hold_object obj count (h # hs) =
     (if fst h = obj then (obj, snd h + count) # hs else h # hold_object obj count hs)"

text \<open>
  \<open>release_held\<close> takes references out of the graph's list: \<open>None\<close> when the object is not there or the
  graph holds too few.
\<close>

fun release_held :: "u64 \<Rightarrow> u32 \<Rightarrow> (u64 \<times> u32) list \<Rightarrow> (u64 \<times> u32) list option" where
  "release_held obj count [] = None"
| "release_held obj count (h # hs) =
     (if fst h \<noteq> obj then map_option ((#) h) (release_held obj count hs)
      else if count > snd h then None
      else Some (if snd h - count = 0 then hs else (obj, snd h - count) # hs))"

definition set_user_objects :: "u64 \<Rightarrow> cudaGraph \<Rightarrow> (u64 \<times> u32) list \<Rightarrow> graphs \<Rightarrow> graphs" where
  "set_user_objects g graph hs s =
     s\<lparr>gs_graphs := (gs_graphs s)(g \<mapsto> graph\<lparr>gr_user_objects := hs\<rparr>)\<rparr>"

definition cudaGraphRetainUserObject :: "u64 \<Rightarrow> u64 \<Rightarrow> u32 \<Rightarrow> u32 \<Rightarrow> graphs \<Rightarrow> unit result" where
  "cudaGraphRetainUserObject g obj count flags s =
     (if g = 0 \<or> obj = 0 \<or> count = 0 then invalid_value s
      else if flags \<noteq> 0 \<and> flags \<noteq> 1 then invalid_value s
      else case (if flags \<noteq> 1 then retain_user_object obj count s else Some s) of
        None \<Rightarrow> None
      | Some s1 \<Rightarrow>
          (case gs_graphs s1 g of
             None \<Rightarrow> None
           | Some graph \<Rightarrow> done_with cudaSuccess None
               (set_user_objects g graph (hold_object obj count (gr_user_objects graph)) s1)))"

definition cudaGraphReleaseUserObject :: "u64 \<Rightarrow> u64 \<Rightarrow> u32 \<Rightarrow> graphs \<Rightarrow> unit result" where
  "cudaGraphReleaseUserObject g obj count s =
     (if g = 0 \<or> obj = 0 \<or> count = 0 then invalid_value s
      else case gs_graphs s g of
        None \<Rightarrow> None
      | Some graph \<Rightarrow>
          (case release_held obj count (gr_user_objects graph) of
             None \<Rightarrow> invalid_value s
           | Some hs \<Rightarrow>
               (case release_user_object obj count (set_user_objects g graph hs s) of
                  None \<Rightarrow> None
                | Some (ok, s') \<Rightarrow> if \<not> ok then invalid_value s' else done_with cudaSuccess None s')))"

section \<open>Graphs\<close>

definition new_graph :: "u64 \<Rightarrow> cudaGraph" where
  "new_graph lifetime = \<lparr>gr_nodes = [], gr_lifetime = lifetime, gr_user_objects = []\<rparr>"

definition enter_graph :: "u64 \<Rightarrow> u64 \<Rightarrow> graphs \<Rightarrow> graphs" where
  "enter_graph g lifetime s =
     s\<lparr>gs_graphs := (gs_graphs s)(g \<mapsto> new_graph lifetime),
       gs_lifetimes := (gs_lifetimes s)
         (lifetime \<mapsto> \<lparr>gl_contains_memory_nodes = False, gl_executable_instances = 0\<rparr>)\<rparr>"

definition cudaGraphCreate :: "u64 \<Rightarrow> u64 \<Rightarrow> bool \<Rightarrow> u32 \<Rightarrow> graphs \<Rightarrow> u64 result" where
  "cudaGraphCreate g lifetime out_null flags s =
     (if out_null \<or> flags \<noteq> 0 then done_with cudaErrorInvalidValue (if out_null then None else Some 0) s
      else done_with cudaSuccess (Some g) (enter_graph g lifetime s))"

text \<open>
  The copies of the nodes of a graph: \<open>fresh\<close> gives each its address.  On the left is the end of the
  call: an error, after the partial copy is destroyed, or a node that is gone.
\<close>

fun copy_nodes ::
  "(u64 \<Rightarrow> u64 option) \<Rightarrow> graphs \<Rightarrow> u64 list \<Rightarrow> cudaError option + (u64 \<times> Node) list" where
  "copy_nodes fresh s [] = Inr []"
| "copy_nodes fresh s (n # ns) =
     (if n = 0 then Inl (Some cudaErrorInvalidValue)
      else case gs_nodes s n of
        None \<Rightarrow> Inl None
      | Some v \<Rightarrow>
          (case fresh n of
             None \<Rightarrow> Inl (Some cudaErrorMemoryAllocation)
           | Some c \<Rightarrow>
               (case copy_nodes fresh s ns of
                  Inl e \<Rightarrow> Inl e
                | Inr cs \<Rightarrow> Inr ((c, v\<lparr>gn_dependencies := []\<rparr>) # cs))))"

definition copied_dependencies :: "(u64 \<Rightarrow> u64 option) \<Rightarrow> u64 list \<Rightarrow> u64 list \<Rightarrow> u64 list option" where
  "copied_dependencies fresh ns ds = those (map (\<lambda>d. if d \<in> set ns then fresh d else None) ds)"

fun copy_edges ::
  "(u64 \<Rightarrow> u64 option) \<Rightarrow> graphs \<Rightarrow> u64 list \<Rightarrow> u64 list \<Rightarrow> (u64 \<times> Node) list \<Rightarrow> (u64 \<times> Node) list option" where
  "copy_edges fresh s ns (m # ms) (c # cs) =
     (case copied_dependencies fresh ns (deps_of s m) of
        None \<Rightarrow> None
      | Some ds \<Rightarrow> map_option ((#) (fst c, (snd c)\<lparr>gn_dependencies := ds\<rparr>)) (copy_edges fresh s ns ms cs))"
| "copy_edges fresh s ns _ _ = Some []"

text \<open>A copied node shares the allocation object of its source.\<close>

definition enter_node :: "u64 \<times> Node \<Rightarrow> graphs \<Rightarrow> graphs" where
  "enter_node c s = add_reference (gn_graph_allocation (snd c)) (s\<lparr>gs_nodes := (gs_nodes s)(fst c \<mapsto> snd c)\<rparr>)"

definition cudaGraphClone ::
  "(u64 \<Rightarrow> u64 option) \<Rightarrow> u64 option \<Rightarrow> u64 \<Rightarrow> bool \<Rightarrow> u64 \<Rightarrow> graphs \<Rightarrow> u64 result" where
  "cudaGraphClone fresh address lifetime out_null original s =
     (if out_null \<or> original = 0 then invalid_value s
      else case gs_graphs s original of
        None \<Rightarrow> None
      | Some graph \<Rightarrow>
          (case gs_lifetimes s (gr_lifetime graph) of
             None \<Rightarrow> None
           | Some l \<Rightarrow>
               if gl_contains_memory_nodes l then done_with cudaErrorNotSupported None s
               else case address of
                 None \<Rightarrow> done_with cudaErrorMemoryAllocation None s
               | Some g \<Rightarrow>
                   (case copy_nodes fresh s (gr_nodes graph) of
                      Inl None \<Rightarrow> None
                    | Inl (Some e) \<Rightarrow> done_with e None s
                    | Inr cs \<Rightarrow>
                        (case copy_edges fresh s (gr_nodes graph) (gr_nodes graph) cs of
                           None \<Rightarrow> invalid_value s
                         | Some cs' \<Rightarrow>
                             let s1 = fold enter_node cs' (enter_graph g lifetime s)
                             in done_with cudaSuccess (Some g)
                                  (s1\<lparr>gs_graphs := (gs_graphs s1)
                                        (g \<mapsto> (new_graph lifetime)\<lparr>gr_nodes := map fst cs'\<rparr>)\<rparr>)))))"

section \<open>Destruction\<close>

fun delete_nodes :: "u64 list \<Rightarrow> graphs \<Rightarrow> graphs option" where
  "delete_nodes [] s = Some s"
| "delete_nodes (n # ns) s =
     (if n = 0 then delete_nodes ns s
      else case gs_nodes s n of
        None \<Rightarrow> None
      | Some v \<Rightarrow> delete_nodes ns
          (drop_reference (gn_graph_allocation v) (s\<lparr>gs_nodes := (gs_nodes s)(n := None)\<rparr>)))"

fun release_objects :: "(u64 \<times> u32) list \<Rightarrow> graphs \<Rightarrow> graphs option" where
  "release_objects [] s = Some s"
| "release_objects (h # hs) s =
     (case release_user_object (fst h) (snd h) s of None \<Rightarrow> None | Some (ok, s') \<Rightarrow> release_objects hs s')"

definition cudaGraphDestroy :: "u64 \<Rightarrow> graphs \<Rightarrow> unit result" where
  "cudaGraphDestroy g s =
     (if g = 0 then invalid_value s
      else case gs_graphs s g of
        None \<Rightarrow> None
      | Some graph \<Rightarrow>
          (case delete_nodes (gr_nodes graph) (s\<lparr>gs_graphs := (gs_graphs s)(g := None)\<rparr>) of
             None \<Rightarrow> None
           | Some s1 \<Rightarrow>
               (case release_objects (gr_user_objects graph) s1 of
                  None \<Rightarrow> None
                | Some s2 \<Rightarrow> done_with cudaSuccess None s2)))"

end
