(* ===== verification/GraphExec.thy ===== *)
theory GraphExec
  imports GraphEdit GraphObjects
begin

text \<open>
  Executable graphs, \<open>runtime/rt/cuda_runtime.cpp\<close>: instantiation, replay, update and destruction,
  and the calls that change the copy of a node.  The operations a replay enqueues on the backend
  are functions on the state: a field for each call of the code.
\<close>

section \<open>Instantiation\<close>

definition topologically_order_graph :: "graphs \<Rightarrow> cudaGraph \<Rightarrow> u64 list option" where
  "topologically_order_graph s graph =
     (if 0 \<in> set (gr_nodes graph) then None else order_nodes (gr_nodes graph) (deps_of s))"

definition dependency_positions :: "graphs \<Rightarrow> u64 list \<Rightarrow> u64 \<Rightarrow> nat list option" where
  "dependency_positions s ordered n = map_option sort (those (map (index_of ordered) (deps_of s n)))"

definition node_copy :: "graphs \<Rightarrow> u64 \<Rightarrow> Node" where
  "node_copy s n = (the (gs_nodes s n))\<lparr>gn_dependencies := []\<rparr>"

definition replay_copy :: "graphs \<Rightarrow> u64 list \<Rightarrow> nat list list \<Rightarrow> u64 \<Rightarrow> cudaGraphExec" where
  "replay_copy s ordered dependencies lifetime =
     \<lparr>ex_nodes = map (node_copy s) ordered, ex_source_node_index = index_of ordered,
      ex_dependency_indices = dependencies, ex_lifetime = lifetime, ex_auto_free_on_launch = False\<rparr>"

definition add_references :: "Node list \<Rightarrow> graphs \<Rightarrow> graphs" where
  "add_references vs s = fold (\<lambda>v. add_reference (gn_graph_allocation v)) vs s"

definition drop_references :: "Node list \<Rightarrow> graphs \<Rightarrow> graphs" where
  "drop_references vs s = fold (\<lambda>v. drop_reference (gn_graph_allocation v)) vs s"

definition cudaGraphInstantiate :: "u64 option \<Rightarrow> bool \<Rightarrow> u64 \<Rightarrow> graphs \<Rightarrow> u64 result" where
  "cudaGraphInstantiate address out_null g s =
     (if out_null \<or> g = 0 then invalid_value s
      else case gs_graphs s g of
        None \<Rightarrow> None
      | Some graph \<Rightarrow>
          (case gs_lifetimes s (gr_lifetime graph) of
             None \<Rightarrow> None
           | Some l \<Rightarrow>
               if gl_contains_memory_nodes l \<and> gl_executable_instances l \<noteq> 0 then invalid_value s
               else if list_ex (\<lambda>n. n \<noteq> 0 \<and> gs_nodes s n = None) (gr_nodes graph) then None
               else case topologically_order_graph s graph of
                 None \<Rightarrow> invalid_value s
               | Some ordered \<Rightarrow>
                   (case address of
                      None \<Rightarrow> done_with cudaErrorMemoryAllocation None s
                    | Some e \<Rightarrow>
                        (case those (map (dependency_positions s ordered) ordered) of
                           None \<Rightarrow> invalid_value s
                         | Some dependencies \<Rightarrow>
                             let ex = replay_copy s ordered dependencies (gr_lifetime graph);
                                 l' = (if gl_contains_memory_nodes l
                                       then l\<lparr>gl_executable_instances := gl_executable_instances l + 1\<rparr> else l)
                             in done_with cudaSuccess (Some e)
                                  (add_references (ex_nodes ex)
                                    (s\<lparr>gs_execs := (gs_execs s)(e \<mapsto> ex),
                                       gs_lifetimes := (gs_lifetimes s)(gr_lifetime graph \<mapsto> l')\<rparr>))))))"

text \<open>The flag \<open>cudaGraphInstantiateFlagAutoFreeOnLaunch\<close> is 1.\<close>

definition cudaGraphInstantiateWithFlags :: "u64 option \<Rightarrow> bool \<Rightarrow> u64 \<Rightarrow> u64 \<Rightarrow> graphs \<Rightarrow> u64 result" where
  "cudaGraphInstantiateWithFlags address out_null g flags s =
     (if and flags (not 1) \<noteq> 0 then invalid_value s
      else case cudaGraphInstantiate address out_null g s of
        None \<Rightarrow> None
      | Some (status, out, s1) \<Rightarrow>
          let s2 = (case out of
                      None \<Rightarrow> s1
                    | Some e \<Rightarrow>
                        (case gs_execs s1 e of
                           None \<Rightarrow> s1
                         | Some ex \<Rightarrow> s1\<lparr>gs_execs := (gs_execs s1)
                             (e \<mapsto> ex\<lparr>ex_auto_free_on_launch := and flags 1 \<noteq> 0\<rparr>)\<rparr>))
          in done_with status out s2)"

section \<open>Replay\<close>

record launch_calls =
  lc_library :: "nat \<Rightarrow> u64 \<Rightarrow> graphs \<Rightarrow> cudaError \<times> graphs"
  lc_kernel :: "Node \<Rightarrow> u64 \<Rightarrow> graphs \<Rightarrow> cudaError \<times> graphs"
  lc_memcpy_3d :: "cudaMemcpy3DParms option \<Rightarrow> u64 \<Rightarrow> graphs \<Rightarrow> cudaError \<times> graphs"
  lc_memcpy :: "u64 \<Rightarrow> u64 \<Rightarrow> u64 \<Rightarrow> cudaMemcpyKind \<Rightarrow> u64 \<Rightarrow> graphs \<Rightarrow> cudaError \<times> graphs"
  lc_memset :: "u64 \<Rightarrow> u32 \<Rightarrow> u64 \<Rightarrow> u64 \<Rightarrow> graphs \<Rightarrow> cudaError \<times> graphs"
  lc_fill :: "u64 \<Rightarrow> cudaMemsetParams \<Rightarrow> u64 \<Rightarrow> u64 \<Rightarrow> graphs \<Rightarrow> cudaError \<times> graphs"
  lc_synchronize :: "u64 \<Rightarrow> graphs \<Rightarrow> cudaError \<times> graphs"
  lc_host :: "u64 \<Rightarrow> u64 \<Rightarrow> graphs \<Rightarrow> graphs"

definition memset_pitch :: "cudaMemsetParams \<Rightarrow> u64" where
  "memset_pitch p = (if ms_pitch p = 0 then ms_width p * ucast (ms_elementSize p) else ms_pitch p)"

definition memset_span :: "cudaMemsetParams \<Rightarrow> u64" where
  "memset_span p = (ms_height p - 1) * memset_pitch p + ms_width p * ucast (ms_elementSize p)"

definition run_memset :: "launch_calls \<Rightarrow> backend \<Rightarrow> u64 \<Rightarrow> Node \<Rightarrow> graphs \<Rightarrow> cudaError \<times> graphs" where
  "run_memset lc be stream v s =
     (if \<not> gn_uses_memset_params v then lc_memset lc (gn_dst v) (gn_memset_value v) (gn_count v) stream s
      else case gn_memset_params v of
        None \<Rightarrow> (cudaErrorInvalidValue, s)
      | Some p \<Rightarrow>
          (case host_accessible_pointer be (ms_dst p) (memset_span p) (gs_rt s) of
             None \<Rightarrow> (cudaErrorInvalidValue, s)
           | Some destination \<Rightarrow> lc_fill lc destination p (memset_pitch p) stream s))"

definition with_runtime :: "cudaError \<times> runtime \<Rightarrow> graphs \<Rightarrow> cudaError \<times> graphs" where
  "with_runtime r s = (fst r, s\<lparr>gs_rt := snd r\<rparr>)"

definition run_node :: "launch_calls \<Rightarrow> backend \<Rightarrow> u64 \<Rightarrow> Node \<Rightarrow> graphs \<Rightarrow> cudaError \<times> graphs" where
  "run_node lc be stream v s =
     (case gn_type v of
        cudaGraphNodeTypeKernel \<Rightarrow>
          (case gn_library_op v of
             Some op \<Rightarrow> lc_library lc op stream s
           | None \<Rightarrow> lc_kernel lc v stream s)
      | cudaGraphNodeTypeMemcpy \<Rightarrow>
          (if gn_uses_memcpy_3d_params v then lc_memcpy_3d lc (gn_memcpy_3d_params v) stream s
           else lc_memcpy lc (gn_dst v) (gn_src v) (gn_count v) (gn_memcpy_kind v) stream s)
      | cudaGraphNodeTypeMemset \<Rightarrow> run_memset lc be stream v s
      | cudaGraphNodeTypeHost \<Rightarrow>
          (if gn_host_fn v = 0 then (cudaSuccess, s)
           else case lc_synchronize lc stream s of
             (e, s1) \<Rightarrow> if e \<noteq> cudaSuccess then (e, s1)
                         else (cudaSuccess, lc_host lc (gn_host_fn v) (gn_host_user_data v) s1))
      | cudaGraphNodeTypeMemAlloc \<Rightarrow> with_runtime (activate_graph_allocation (gn_graph_allocation v) (gs_rt s)) s
      | cudaGraphNodeTypeMemFree \<Rightarrow> with_runtime (deactivate_graph_allocation (gn_graph_allocation v) (gs_rt s)) s
      | _ \<Rightarrow> (cudaSuccess, s))"

fun run_nodes :: "launch_calls \<Rightarrow> backend \<Rightarrow> u64 \<Rightarrow> Node list \<Rightarrow> graphs \<Rightarrow> cudaError \<times> graphs" where
  "run_nodes lc be stream [] s = (cudaSuccess, s)"
| "run_nodes lc be stream (v # vs) s =
     (case run_node lc be stream v s of
        (e, s1) \<Rightarrow> if e \<noteq> cudaSuccess then (e, s1) else run_nodes lc be stream vs s1)"

text \<open>The allocations that are still active after a replay with the flag are released.\<close>

definition allocation_active :: "nat \<Rightarrow> graphs \<Rightarrow> bool" where
  "allocation_active a s = (case graph_objects (gs_rt s) a of None \<Rightarrow> False | Some ga \<Rightarrow> ga_active ga)"

fun auto_free :: "nat list \<Rightarrow> Node list \<Rightarrow> graphs \<Rightarrow> cudaError \<times> graphs" where
  "auto_free seen [] s = (cudaSuccess, s)"
| "auto_free seen (v # vs) s =
     (if gn_type v \<noteq> cudaGraphNodeTypeMemAlloc then auto_free seen vs s
      else case gn_graph_allocation v of
        None \<Rightarrow> auto_free seen vs s
      | Some a \<Rightarrow>
          if a \<in> set seen then auto_free seen vs s
          else if allocation_active a s
          then (case with_runtime (deactivate_graph_allocation (Some a) (gs_rt s)) s of
                  (e, s1) \<Rightarrow> if e \<noteq> cudaSuccess then (e, s1) else auto_free (a # seen) vs s1)
          else auto_free (a # seen) vs s)"

definition cudaGraphLaunch :: "launch_calls \<Rightarrow> backend \<Rightarrow> u64 \<Rightarrow> u64 \<Rightarrow> graphs \<Rightarrow> unit result" where
  "cudaGraphLaunch lc be e stream s =
     (if e = 0 then invalid_value s
      else case gs_execs s e of
        None \<Rightarrow> None
      | Some ex \<Rightarrow>
          (case run_nodes lc be stream (ex_nodes ex) s of
             (err, s1) \<Rightarrow>
               if err \<noteq> cudaSuccess then done_with err None s1
               else if \<not> ex_auto_free_on_launch ex then done_with cudaSuccess None s1
               else case auto_free [] (ex_nodes ex) s1 of (err', s2) \<Rightarrow> done_with err' None s2))"

definition cudaGraphUpload :: "u64 \<Rightarrow> graphs \<Rightarrow> unit result" where
  "cudaGraphUpload e s = (if e = 0 then invalid_value s else done_with cudaSuccess None s)"

section \<open>Update\<close>

datatype cudaGraphExecUpdateResult =
    cudaGraphExecUpdateSuccess | cudaGraphExecUpdateError | cudaGraphExecUpdateErrorTopologyChanged
  | cudaGraphExecUpdateErrorNodeTypeChanged | cudaGraphExecUpdateErrorFunctionChanged
  | cudaGraphExecUpdateErrorParametersChanged | cudaGraphExecUpdateErrorNotSupported
  | cudaGraphExecUpdateErrorUnsupportedFunctionChange | cudaGraphExecUpdateErrorAttributesChanged

text \<open>
  The comparison node by node: on the left the end of the call, as the error node and result of a
  changed type, or \<open>None\<close> for a dependency outside the graph.
\<close>

fun compare_nodes ::
  "graphs \<Rightarrow> u64 list \<Rightarrow> u64 list \<Rightarrow> Node list \<Rightarrow> (u64 option) + nat list list" where
  "compare_nodes s ordered (n # ns) (v # vs) =
     (if gn_type (the (gs_nodes s n)) \<noteq> gn_type v then Inl (Some n)
      else case dependency_positions s ordered n of
        None \<Rightarrow> Inl None
      | Some ds \<Rightarrow>
          (case compare_nodes s ordered ns vs of Inl e \<Rightarrow> Inl e | Inr dss \<Rightarrow> Inr (ds # dss)))"
| "compare_nodes s ordered _ _ = Inr []"

text \<open>The answer is the update result and the error node, 0 for none.\<close>

definition cudaGraphExecUpdate ::
  "u64 \<Rightarrow> u64 \<Rightarrow> bool \<Rightarrow> graphs \<Rightarrow> (cudaGraphExecUpdateResult \<times> u64) result" where
  "cudaGraphExecUpdate e g out_null s =
     (if e = 0 \<or> g = 0 \<or> out_null then invalid_value s
      else case gs_graphs s g of
        None \<Rightarrow> None
      | Some graph \<Rightarrow>
        (case gs_lifetimes s (gr_lifetime graph) of
           None \<Rightarrow> None
         | Some l \<Rightarrow>
           if gl_contains_memory_nodes l
           then done_with cudaSuccess (Some (cudaGraphExecUpdateErrorNotSupported, 0)) s
           else if list_ex (\<lambda>n. n \<noteq> 0 \<and> gs_nodes s n = None) (gr_nodes graph) then None
           else case topologically_order_graph s graph of
             None \<Rightarrow> done_with cudaErrorInvalidValue (Some (cudaGraphExecUpdateError, 0)) s
           | Some ordered \<Rightarrow>
             (case gs_execs s e of
                None \<Rightarrow> None
              | Some ex \<Rightarrow>
                if length ordered \<noteq> length (ex_nodes ex)
                then done_with cudaSuccess (Some (cudaGraphExecUpdateErrorTopologyChanged, 0)) s
                else case compare_nodes s ordered ordered (ex_nodes ex) of
                  Inl (Some n) \<Rightarrow> done_with cudaSuccess (Some (cudaGraphExecUpdateErrorNodeTypeChanged, n)) s
                | Inl None \<Rightarrow> done_with cudaErrorInvalidValue (Some (cudaGraphExecUpdateError, 0)) s
                | Inr dependencies \<Rightarrow>
                    if dependencies \<noteq> ex_dependency_indices ex
                    then done_with cudaSuccess (Some (cudaGraphExecUpdateErrorTopologyChanged, 0)) s
                    else let ex' = ex\<lparr>ex_nodes := map (node_copy s) ordered,
                                      ex_source_node_index := index_of ordered,
                                      ex_dependency_indices := dependencies\<rparr>
                      in done_with cudaSuccess (Some (cudaGraphExecUpdateSuccess, 0))
                           (drop_references (ex_nodes ex) (add_references (ex_nodes ex')
                             (s\<lparr>gs_execs := (gs_execs s)(e \<mapsto> ex')\<rparr>))))))"

definition cudaGraphExecDestroy :: "u64 \<Rightarrow> graphs \<Rightarrow> unit result" where
  "cudaGraphExecDestroy e s =
     (if e = 0 then invalid_value s
      else case gs_execs s e of
        None \<Rightarrow> None
      | Some ex \<Rightarrow>
          (case gs_lifetimes s (ex_lifetime ex) of
             None \<Rightarrow> None
           | Some l \<Rightarrow>
               let l' = (if gl_contains_memory_nodes l \<and> gl_executable_instances l \<noteq> 0
                         then l\<lparr>gl_executable_instances := gl_executable_instances l - 1\<rparr> else l)
               in done_with cudaSuccess None
                    (drop_references (ex_nodes ex)
                      (s\<lparr>gs_lifetimes := (gs_lifetimes s)(ex_lifetime ex \<mapsto> l'),
                         gs_execs := (gs_execs s)(e := None)\<rparr>))))"

section \<open>Parameters of the copies\<close>

definition update_exec_node :: "(Node \<Rightarrow> Node option) \<Rightarrow> u64 \<Rightarrow> u64 \<Rightarrow> graphs \<Rightarrow> unit result" where
  "update_exec_node f e n s =
     (if e = 0 \<or> n = 0 then invalid_value s
      else case gs_execs s e of
        None \<Rightarrow> None
      | Some ex \<Rightarrow>
          (case ex_source_node_index ex n of
             None \<Rightarrow> invalid_value s
           | Some i \<Rightarrow>
               (case f (ex_nodes ex ! i) of
                  None \<Rightarrow> invalid_value s
                | Some v \<Rightarrow> done_with cudaSuccess None
                    (s\<lparr>gs_execs := (gs_execs s)(e \<mapsto> ex\<lparr>ex_nodes := (ex_nodes ex)[i := v]\<rparr>)\<rparr>))))"

definition cudaGraphExecKernelNodeSetParams ::
  "(u64 \<Rightarrow> u8) \<Rightarrow> (u64 \<Rightarrow> u32 list option) \<Rightarrow> u64 \<Rightarrow> u64 \<Rightarrow> cudaKernelNodeParams option \<Rightarrow> graphs \<Rightarrow> unit result" where
  "cudaGraphExecKernelNodeSetParams memory other e n params s =
     (if \<not> kernel_params_ok params then invalid_value s
      else update_exec_node (\<lambda>v. if gn_type v \<noteq> cudaGraphNodeTypeKernel then None
             else kernel_node_update memory (kernel_sizes (gs_registry s) other) (the params) v) e n s)"

definition cudaGraphExecMemcpyNodeSetParams ::
  "u64 \<Rightarrow> u64 \<Rightarrow> cudaMemcpy3DParms option \<Rightarrow> graphs \<Rightarrow> unit result" where
  "cudaGraphExecMemcpyNodeSetParams e n params s =
     (if \<not> validate_graph_memcpy_3d_params (gs_arrays s) params then invalid_value s
      else update_exec_node (memcpy_node_update (gs_arrays s) params) e n s)"

definition cudaGraphExecMemcpyNodeSetParams1D ::
  "u64 \<Rightarrow> u64 \<Rightarrow> u64 \<Rightarrow> u64 \<Rightarrow> u64 \<Rightarrow> cudaMemcpyKind \<Rightarrow> graphs \<Rightarrow> unit result" where
  "cudaGraphExecMemcpyNodeSetParams1D e n dst src count kind s =
     update_exec_node (memcpy_1d_node_update dst src count kind) e n s"

definition cudaGraphExecMemsetNodeSetParams :: "u64 \<Rightarrow> u64 \<Rightarrow> cudaMemsetParams option \<Rightarrow> graphs \<Rightarrow> unit result" where
  "cudaGraphExecMemsetNodeSetParams e n params s = update_exec_node (memset_node_update params) e n s"

definition cudaGraphExecHostNodeSetParams :: "u64 \<Rightarrow> u64 \<Rightarrow> cudaHostNodeParams option \<Rightarrow> graphs \<Rightarrow> unit result" where
  "cudaGraphExecHostNodeSetParams e n params s = update_exec_node (host_node_update params) e n s"

end
