(* ===== verification/GraphCapture.thy ===== *)
theory GraphCapture
  imports GraphExec
begin

text \<open>
  Capture of streams into graphs, \<open>runtime/rt/cuda_runtime.cpp\<close>: the capture calls, and the nodes that
  the asynchronous calls record instead of running when their stream is being captured.
\<close>

section \<open>Capture\<close>

definition get_capture_graph :: "u64 \<Rightarrow> graphs \<Rightarrow> u64" where
  "get_capture_graph stream s =
     (case gs_captures s stream of None \<Rightarrow> 0 | Some c \<Rightarrow> if cs_capturing c then cs_graph c else 0)"

datatype cudaStreamCaptureMode =
    cudaStreamCaptureModeGlobal | cudaStreamCaptureModeThreadLocal | cudaStreamCaptureModeRelaxed
  | cudaStreamCaptureModeOther nat

text \<open>The graph \<open>g\<close> is the new object of the capture, with the lifetime object \<open>lifetime\<close>.\<close>

definition cudaStreamBeginCapture ::
  "backend \<Rightarrow> u64 \<Rightarrow> u64 \<Rightarrow> u64 \<Rightarrow> cudaStreamCaptureMode \<Rightarrow> graphs \<Rightarrow> unit result" where
  "cudaStreamBeginCapture be g lifetime stream mode s =
     (case mode of
        cudaStreamCaptureModeOther _ \<Rightarrow> invalid_value s
      | _ \<Rightarrow>
          if be_init be \<noteq> cudaSuccess then done_with (be_init be) None s
          else if (case gs_captures s stream of None \<Rightarrow> False | Some c \<Rightarrow> cs_capturing c) then invalid_value s
          else done_with cudaSuccess None
            ((enter_graph g lifetime s)\<lparr>gs_captures := (gs_captures s)
               (stream \<mapsto> \<lparr>cs_capturing = True, cs_graph = g\<rparr>)\<rparr>))"

definition cudaStreamEndCapture :: "u64 \<Rightarrow> bool \<Rightarrow> graphs \<Rightarrow> u64 result" where
  "cudaStreamEndCapture stream out_null s =
     (if out_null then invalid_value s
      else case gs_captures s stream of
        None \<Rightarrow> done_with cudaErrorInvalidValue (Some 0) s
      | Some c \<Rightarrow>
          if \<not> cs_capturing c then done_with cudaErrorInvalidValue (Some 0) s
          else done_with cudaSuccess (Some (cs_graph c))
            (s\<lparr>gs_captures := (\<lambda>t. case gs_captures s t of
                 None \<Rightarrow> None
               | Some d \<Rightarrow> if cs_capturing d \<and> cs_graph d = cs_graph c then None else Some d)\<rparr>))"

datatype cudaStreamCaptureStatus = cudaStreamCaptureStatusNone | cudaStreamCaptureStatusActive

definition cudaStreamIsCapturing :: "u64 \<Rightarrow> bool \<Rightarrow> graphs \<Rightarrow> cudaStreamCaptureStatus result" where
  "cudaStreamIsCapturing stream out_null s =
     (if out_null then invalid_value s
      else case gs_captures s stream of
        None \<Rightarrow> done_with cudaSuccess (Some cudaStreamCaptureStatusNone) s
      | Some c \<Rightarrow> done_with cudaSuccess
          (Some (if cs_capturing c then cudaStreamCaptureStatusActive else cudaStreamCaptureStatusNone)) s)"

text \<open>The identifier of a capture is the address of its graph.\<close>

definition cudaStreamGetCaptureInfo :: "u64 \<Rightarrow> bool \<Rightarrow> graphs \<Rightarrow> (cudaStreamCaptureStatus \<times> u64) result" where
  "cudaStreamGetCaptureInfo stream out_null s =
     (if out_null then invalid_value s
      else case gs_captures s stream of
        None \<Rightarrow> done_with cudaSuccess (Some (cudaStreamCaptureStatusNone, 0)) s
      | Some c \<Rightarrow> done_with cudaSuccess
          (Some (if cs_capturing c then (cudaStreamCaptureStatusActive, cs_graph c)
                 else (cudaStreamCaptureStatusNone, 0))) s)"

section \<open>Recorded calls\<close>

text \<open>Recording a node at the address \<open>n\<close> in the graph \<open>g\<close> of a capture.\<close>

definition record_node :: "u64 \<Rightarrow> u64 \<Rightarrow> Node \<Rightarrow> graphs \<Rightarrow> unit result" where
  "record_node g n node s =
     (case gs_graphs s g of
        None \<Rightarrow> None
      | Some graph \<Rightarrow> done_with cudaSuccess None (append_captured_graph_node g n graph node s))"

definition capture_memcpy_async ::
  "backend \<Rightarrow> u64 \<Rightarrow> u64 \<Rightarrow> u64 \<Rightarrow> u64 \<Rightarrow> u64 \<Rightarrow> cudaMemcpyKind \<Rightarrow> graphs \<Rightarrow> unit result" where
  "capture_memcpy_async be g n dst src count kind s =
     (if (dst = 0 \<or> src = 0) \<and> count > 0 then invalid_value s
      else if be_init be \<noteq> cudaSuccess then done_with (be_init be) None s
      else record_node g n ((new_node cudaGraphNodeTypeMemcpy)\<lparr>gn_dst := dst, gn_src := src, gn_count := count,
             gn_memcpy_kind := kind\<rparr>) s)"

definition capture_memset_async :: "backend \<Rightarrow> u64 \<Rightarrow> u64 \<Rightarrow> u64 \<Rightarrow> u32 \<Rightarrow> u64 \<Rightarrow> graphs \<Rightarrow> unit result" where
  "capture_memset_async be g n dev_ptr value count s =
     (if dev_ptr = 0 \<and> count > 0 then invalid_value s
      else if be_init be \<noteq> cudaSuccess then done_with (be_init be) None s
      else record_node g n ((new_node cudaGraphNodeTypeMemset)\<lparr>gn_dst := dev_ptr, gn_memset_value := value,
             gn_count := count\<rparr>) s)"

text \<open>A refused launch is also kept as the pending launch error of the thread, which is not modelled.\<close>

definition capture_launch_kernel ::
  "backend \<Rightarrow> (u64 \<Rightarrow> u8) \<Rightarrow> (u64 \<Rightarrow> u32 list option) \<Rightarrow> u64 \<Rightarrow> u64 \<Rightarrow> u64 \<Rightarrow> dim3 \<Rightarrow> dim3 \<Rightarrow> u64 \<Rightarrow> u64 list option \<Rightarrow>
     graphs \<Rightarrow> unit result" where
  "capture_launch_kernel be memory other g n func grid block shared_mem args s =
     (if func = 0 \<or> \<not> dim_positive grid \<or> \<not> dim_positive block then invalid_value s
      else if be_init be \<noteq> cudaSuccess then done_with (be_init be) None s
      else case snapshot_graph_kernel_arguments memory (kernel_sizes (gs_registry s) other) func args
             ((new_node cudaGraphNodeTypeKernel)\<lparr>gn_func := func, gn_grid_dim := grid, gn_block_dim := block,
                gn_shared_mem := shared_mem\<rparr>) of
        (ok, node) \<Rightarrow> if \<not> ok then invalid_value s else record_node g n node s)"

definition capture_launch_host_func :: "u64 \<Rightarrow> u64 option \<Rightarrow> u64 \<Rightarrow> u64 \<Rightarrow> graphs \<Rightarrow> unit result" where
  "capture_launch_host_func g address fn user_data s =
     (if fn = 0 then invalid_value s
      else case address of
        None \<Rightarrow> done_with cudaErrorMemoryAllocation None s
      | Some n \<Rightarrow> record_node g n ((new_node cudaGraphNodeTypeHost)\<lparr>gn_host_fn := fn, gn_host_user_data := user_data\<rparr>) s)"

text \<open>A library call says only whether it was recorded, and sets no error.\<close>

definition capture_library_call :: "u64 \<Rightarrow> u64 option \<Rightarrow> nat option \<Rightarrow> graphs \<Rightarrow> (bool \<times> graphs) option" where
  "capture_library_call stream address op s =
     (let g = get_capture_graph stream s in
      if g = 0 \<or> op = None then Some (False, s)
      else case address of
        None \<Rightarrow> Some (False, s)
      | Some n \<Rightarrow>
          (case gs_graphs s g of
             None \<Rightarrow> None
           | Some graph \<Rightarrow> Some (True, append_captured_graph_node g n graph
               ((new_node cudaGraphNodeTypeKernel)\<lparr>gn_library_op := op\<rparr>) s)))"

text \<open>The last node of a graph is the dependency of a recorded allocation or release.\<close>

definition frontier :: "cudaGraph \<Rightarrow> u64 list option" where
  "frontier graph = (if gr_nodes graph = [] then None else Some [last (gr_nodes graph)])"

definition frontier_count :: "cudaGraph \<Rightarrow> u64" where
  "frontier_count graph = (if gr_nodes graph = [] then 0 else 1)"

definition default_alloc_params :: "u64 \<Rightarrow> cudaMemAllocNodeParams" where
  "default_alloc_params sz = \<lparr>an_poolProps = \<lparr>mp_allocType = 1, mp_handleTypes = 0, mp_location_type = 1,
     mp_location_id = 0\<rparr>, an_accessDescs = None, an_accessDescCount = 0, an_bytesize = sz\<rparr>"

definition capture_malloc_async ::
  "backend \<Rightarrow> u64 option \<Rightarrow> nat \<Rightarrow> bool \<Rightarrow> u64 \<Rightarrow> u64 \<Rightarrow> graphs \<Rightarrow> u64 result" where
  "capture_malloc_async be address a dev_ptr_null g sz s =
     (if dev_ptr_null \<or> sz = 0 then invalid_value s
      else case gs_graphs s g of
        None \<Rightarrow> None
      | Some graph \<Rightarrow>
          (case cudaGraphAddMemAllocNode be address a False g (frontier graph) (frontier_count graph)
                  (Some (default_alloc_params sz)) s of
             None \<Rightarrow> None
           | Some (status, out, s') \<Rightarrow> done_with status (map_option snd out) s'))"

definition capture_free_async :: "u64 option \<Rightarrow> u64 \<Rightarrow> u64 \<Rightarrow> graphs \<Rightarrow> unit result" where
  "capture_free_async address g dev_ptr s =
     (if dev_ptr = 0 then done_with cudaSuccess None s
      else case gs_graphs s g of
        None \<Rightarrow> None
      | Some graph \<Rightarrow>
          (case cudaGraphAddMemFreeNode address False g (frontier graph) (frontier_count graph) dev_ptr s of
             None \<Rightarrow> None
           | Some (status, out, s') \<Rightarrow> done_with status None s'))"

end
