(* ===== verification/GraphInvariant.thy ===== *)
theory GraphInvariant
  imports GraphCapture
begin

text \<open>
  The invariant of CUDA graphs: a graph lists live nodes, each once and after all it depends on, no
  node is in two graphs, and the dependencies of an executable graph point backwards.  Every call
  keeps it, so it holds in all states the step relation \<open>graph_step\<close> reaches.
\<close>

section \<open>The invariant\<close>

definition graph_ok :: "graphs \<Rightarrow> cudaGraph \<Rightarrow> bool" where
  "graph_ok s gr \<longleftrightarrow> in_insertion_order (gr_nodes gr) (deps_of s) \<and> 0 \<notin> set (gr_nodes gr) \<and>
     set (gr_nodes gr) \<subseteq> dom (gs_nodes s) \<and> gr_lifetime gr \<in> dom (gs_lifetimes s)"

definition exec_ok :: "graphs \<Rightarrow> cudaGraphExec \<Rightarrow> bool" where
  "exec_ok s ex \<longleftrightarrow> length (ex_dependency_indices ex) = length (ex_nodes ex) \<and>
     (\<forall>k < length (ex_nodes ex). \<forall>j \<in> set (ex_dependency_indices ex ! k). j < k) \<and>
     (\<forall>n i. ex_source_node_index ex n = Some i \<longrightarrow> i < length (ex_nodes ex)) \<and>
     ex_lifetime ex \<in> dom (gs_lifetimes s)"

definition graphs_ok :: "graphs \<Rightarrow> bool" where
  "graphs_ok s \<longleftrightarrow> (\<forall>g gr. gs_graphs s g = Some gr \<longrightarrow> graph_ok s gr) \<and>
     (\<forall>g gr g' gr'. gs_graphs s g = Some gr \<longrightarrow> gs_graphs s g' = Some gr' \<longrightarrow> g \<noteq> g' \<longrightarrow>
        set (gr_nodes gr) \<inter> set (gr_nodes gr') = {}) \<and>
     (\<forall>e ex. gs_execs s e = Some ex \<longrightarrow> exec_ok s ex)"

lemma graphs_okD:
  "graphs_ok s \<Longrightarrow> gs_graphs s g = Some gr \<Longrightarrow> graph_ok s gr"
  "graphs_ok s \<Longrightarrow> gs_execs s e = Some ex \<Longrightarrow> exec_ok s ex"
  "graphs_ok s \<Longrightarrow> gs_graphs s g = Some gr \<Longrightarrow> gs_graphs s g' = Some gr' \<Longrightarrow> g \<noteq> g' \<Longrightarrow>
     set (gr_nodes gr) \<inter> set (gr_nodes gr') = {}"
  unfolding graphs_ok_def by blast+

text \<open>A change that leaves nodes, edges and graphs as they are, and keeps or replaces executables by good ones.\<close>

definition same_exec :: "cudaGraphExec \<Rightarrow> cudaGraphExec \<Rightarrow> bool" where
  "same_exec ex ex' \<longleftrightarrow> length (ex_nodes ex') = length (ex_nodes ex) \<and>
     ex_dependency_indices ex' = ex_dependency_indices ex \<and>
     ex_source_node_index ex' = ex_source_node_index ex \<and> ex_lifetime ex' = ex_lifetime ex"

definition shape :: "cudaGraph option \<Rightarrow> (u64 list \<times> u64) option" where
  "shape gr = map_option (\<lambda>gr. (gr_nodes gr, gr_lifetime gr)) gr"

definition edges :: "Node option \<Rightarrow> u64 list option" where
  "edges v = map_option gn_dependencies v"

definition same_graphs :: "graphs \<Rightarrow> graphs \<Rightarrow> bool" where
  "same_graphs s s' \<longleftrightarrow> (\<forall>g. shape (gs_graphs s' g) = shape (gs_graphs s g)) \<and>
     (\<forall>n. edges (gs_nodes s' n) = edges (gs_nodes s n)) \<and> dom (gs_lifetimes s) \<subseteq> dom (gs_lifetimes s') \<and>
     (\<forall>e ex'. gs_execs s' e = Some ex' \<longrightarrow>
        (\<exists>ex. gs_execs s e = Some ex \<and> same_exec ex ex') \<or> exec_ok s' ex')"

lemma same_exec_refl [simp]: "same_exec ex ex"
  unfolding same_exec_def by simp

lemma same_exec_ok: "same_exec ex ex' \<Longrightarrow> exec_ok s ex \<Longrightarrow> dom (gs_lifetimes s) \<subseteq> dom (gs_lifetimes s') \<Longrightarrow> exec_ok s' ex'"
  unfolding same_exec_def exec_ok_def by auto

lemma deps_of_edges: "deps_of s n = (case edges (gs_nodes s n) of None \<Rightarrow> [] | Some ds \<Rightarrow> ds)"
  unfolding deps_of_def edges_def by (simp split: option.split)

lemma same_graphs_deps: "same_graphs s s' \<Longrightarrow> deps_of s' = deps_of s"
  unfolding same_graphs_def by (auto simp: deps_of_edges fun_eq_iff)

lemma same_graphs_nodes: "same_graphs s s' \<Longrightarrow> dom (gs_nodes s') = dom (gs_nodes s)"
proof -
  assume "same_graphs s s'"
  then have "edges (gs_nodes s' n) = edges (gs_nodes s n)" for n unfolding same_graphs_def by blast
  then have "gs_nodes s' n = None \<longleftrightarrow> gs_nodes s n = None" for n
    by (metis edges_def option.map_disc_iff)
  then show ?thesis by (simp add: dom_def)
qed

lemma same_graphs_graph:
  assumes "same_graphs s s'" "gs_graphs s' g = Some gr'"
  obtains gr where "gs_graphs s g = Some gr" "gr_nodes gr' = gr_nodes gr" "gr_lifetime gr' = gr_lifetime gr"
proof -
  have "shape (gs_graphs s' g) = shape (gs_graphs s g)" using assms(1) unfolding same_graphs_def by (elim conjE) (rule spec)
  then have "shape (gs_graphs s g) = Some (gr_nodes gr', gr_lifetime gr')" using assms(2) by (simp add: shape_def)
  then show ?thesis using that by (cases "gs_graphs s g") (auto simp: shape_def)
qed

lemma same_graphs_ok:
  assumes ok: "graphs_ok s" and same: "same_graphs s s'"
  shows "graphs_ok s'"
  unfolding graphs_ok_def
proof (intro conjI allI impI)
  fix g gr' assume "gs_graphs s' g = Some gr'"
  then obtain gr where gr: "gs_graphs s g = Some gr" "gr_nodes gr' = gr_nodes gr" "gr_lifetime gr' = gr_lifetime gr"
    using same_graphs_graph [OF same] by blast
  then show "graph_ok s' gr'"
    using graphs_okD(1) [OF ok gr(1)] same unfolding graph_ok_def
    by (auto simp: same_graphs_deps [OF same] same_graphs_nodes [OF same] same_graphs_def)
next
  fix g gr g' gr' assume "gs_graphs s' g = Some gr" "gs_graphs s' g' = Some gr'" "g \<noteq> g'"
  then show "set (gr_nodes gr) \<inter> set (gr_nodes gr') = {}"
    using same_graphs_graph [OF same] graphs_okD(3) [OF ok] by metis
next
  fix e ex' assume "gs_execs s' e = Some ex'"
  then show "exec_ok s' ex'"
    using same same_exec_ok graphs_okD(2) [OF ok] unfolding same_graphs_def by blast
qed

section \<open>Changes of the structure\<close>

lemma same_graphs_refl [simp]: "same_graphs s s"
  unfolding same_graphs_def by auto

lemma exec_ok_mono: "exec_ok s ex \<Longrightarrow> dom (gs_lifetimes s) \<subseteq> dom (gs_lifetimes s') \<Longrightarrow> exec_ok s' ex"
  unfolding exec_ok_def by auto

lemma same_exec_trans: "same_exec a b \<Longrightarrow> same_exec b c \<Longrightarrow> same_exec a c"
  unfolding same_exec_def by simp

lemma same_graphs_execs:
  "same_graphs s s' \<Longrightarrow> gs_execs s' e = Some ex' \<Longrightarrow> (\<exists>ex. gs_execs s e = Some ex \<and> same_exec ex ex') \<or> exec_ok s' ex'"
  unfolding same_graphs_def by (elim conjE) (drule spec, drule spec, erule mp)

lemma same_graphs_trans:
  assumes st: "same_graphs s t" and tu: "same_graphs t u"
  shows "same_graphs s u"
proof -
  note a = st [unfolded same_graphs_def] and b = tu [unfolded same_graphs_def]
  have "(\<exists>ex. gs_execs s e = Some ex \<and> same_exec ex ex') \<or> exec_ok u ex'" if e: "gs_execs u e = Some ex'" for e ex'
    using same_graphs_execs [OF tu e]
  proof (elim disjE exE conjE)
    fix ex assume ex: "gs_execs t e = Some ex" "same_exec ex ex'"
    from same_graphs_execs [OF st ex(1)] show ?thesis
    proof (elim disjE exE conjE)
      fix ex0 assume "gs_execs s e = Some ex0" "same_exec ex0 ex"
      then show ?thesis using same_exec_trans ex(2) by blast
    next
      assume "exec_ok t ex"
      then show ?thesis using same_exec_ok [OF ex(2)] b by blast
    qed
  qed simp
  moreover have "shape (gs_graphs u g) = shape (gs_graphs s g)" for g using a b by simp
  moreover have "edges (gs_nodes u n) = edges (gs_nodes s n)" for n using a b by simp
  moreover have "dom (gs_lifetimes s) \<subseteq> dom (gs_lifetimes u)" using a b by blast
  ultimately show ?thesis unfolding same_graphs_def by blast
qed

text \<open>Only parts outside the structure differ.\<close>

definition frame :: "graphs \<Rightarrow> graphs \<Rightarrow> bool" where
  "frame s s' \<longleftrightarrow> gs_graphs s' = gs_graphs s \<and> gs_nodes s' = gs_nodes s \<and> gs_lifetimes s' = gs_lifetimes s \<and>
     gs_execs s' = gs_execs s"

lemma frame_refl [simp]: "frame s s" unfolding frame_def by simp

lemma frame_trans: "frame s t \<Longrightarrow> frame t u \<Longrightarrow> frame s u" unfolding frame_def by simp

lemma frame_same: "frame s s' \<Longrightarrow> same_graphs s s'"
  unfolding frame_def same_graphs_def by auto

lemma frame_deps: "frame s s' \<Longrightarrow> deps_of s' = deps_of s"
  by (rule same_graphs_deps [OF frame_same])

lemma frame_done: "done_with e out s = Some (e', out', s') \<Longrightarrow> frame s s'"
  unfolding done_with_def frame_def by auto

lemma frame_add [simp]: "frame s (add_reference a s)"
  unfolding add_reference_def frame_def by (simp split: option.split)

lemma frame_drop [simp]: "frame s (drop_reference a s)"
  unfolding drop_reference_def frame_def by (simp add: Let_def split: option.split)

lemma frame_add_references [simp]: "frame s (add_references vs s)"
  unfolding add_references_def by (induction vs arbitrary: s) (auto intro: frame_trans [OF frame_add])

lemma frame_drop_references [simp]: "frame s (drop_references vs s)"
  unfolding drop_references_def by (induction vs arbitrary: s) (auto intro: frame_trans [OF frame_drop])

lemma frame_release: "release_user_object obj count s = Some (ok, s') \<Longrightarrow> frame s s'"
  unfolding release_user_object_def frame_def by (auto split: if_splits option.splits)

lemma frame_release_objects: "release_objects hs s = Some s' \<Longrightarrow> frame s s'"
  by (induction hs arbitrary: s) (auto split: option.splits dest: frame_release intro: frame_trans)

lemma frame_retain: "retain_user_object obj count s = Some s' \<Longrightarrow> frame s s'"
  unfolding retain_user_object_def frame_def by (auto split: option.splits)

lemma push_node_ok:
  assumes ok: "graphs_ok s" and g: "gs_graphs s g = Some gr"
    and fresh: "n \<noteq> 0" "gs_nodes s n = None" and ds: "set (gn_dependencies node) \<subseteq> set (gr_nodes gr)"
    and fr: "frame s s0"
  shows "graphs_ok (push_node g n gr node s0)"
proof -
  let ?t = "push_node g n gr node s0"
  note f = fr [unfolded frame_def]
  have t: "gs_graphs ?t = (gs_graphs s)(g \<mapsto> gr\<lparr>gr_nodes := gr_nodes gr @ [n]\<rparr>)"
    "gs_nodes ?t = (gs_nodes s)(n \<mapsto> node)" "gs_lifetimes ?t = gs_lifetimes s" "gs_execs ?t = gs_execs s"
    using f by (simp_all add: push_node_def)
  have deps: "deps_of ?t = (deps_of s)(n := gn_dependencies node)"
    using t(2) by (auto simp: deps_of_def fun_eq_iff)
  have notin: "n \<notin> set (gr_nodes gr')" if "gs_graphs s g' = Some gr'" for g' gr'
    using graphs_okD(1) [OF ok that] fresh by (auto simp: graph_ok_def domIff)
  show ?thesis
    unfolding graphs_ok_def
  proof (intro conjI allI impI)
    fix g' gr' assume g': "gs_graphs ?t g' = Some gr'"
    show "graph_ok ?t gr'"
    proof (cases "g' = g")
      case True
      then have "gr' = gr\<lparr>gr_nodes := gr_nodes gr @ [n]\<rparr>" using g' t(1) by simp
      then show ?thesis
        using graphs_okD(1) [OF ok g] notin [OF g] fresh ds insertion_order_snoc
        by (auto simp: graph_ok_def deps t)
    next
      case False
      then have s: "gs_graphs s g' = Some gr'" using g' t(1) by simp
      then show ?thesis
        using graphs_okD(1) [OF ok s] notin [OF s]
        by (auto simp: graph_ok_def deps t elim!: insertion_order_cong)
    qed
  next
    fix g1 gr1 g2 gr2 assume *: "gs_graphs ?t g1 = Some gr1" "gs_graphs ?t g2 = Some gr2" "g1 \<noteq> g2"
    have "set (gr_nodes gr) \<inter> set (gr_nodes gr') = {}" if "gs_graphs s g' = Some gr'" "g' \<noteq> g" for g' gr'
      using graphs_okD(3) [OF ok g that(1)] that(2) by blast
    then show "set (gr_nodes gr1) \<inter> set (gr_nodes gr2) = {}"
      using * t(1) notin graphs_okD(3) [OF ok] by (auto split: if_splits) blast+
  next
    fix e ex assume "gs_execs ?t e = Some ex"
    then show "exec_ok ?t ex" using graphs_okD(2) [OF ok] t by (auto simp: exec_ok_def)
  qed
qed

section \<open>Preservation by the calls\<close>

named_theorems graphs_kept

lemma assign_loop_subset: "assign_loop gr self acc ds = Some rs \<Longrightarrow> set rs \<subseteq> set acc \<union> set (gr_nodes gr)"
  by (induction gr self acc ds rule: assign_loop.induct) (auto simp: graph_contains_node_def split: if_splits)

lemma assign_subset: "assign_graph_dependencies gr n dependencies c = Some ds \<Longrightarrow> set ds \<subseteq> set (gr_nodes gr)"
  using assign_loop_subset unfolding assign_graph_dependencies_def by (fastforce split: if_splits)

lemma done_push_ok:
  "done_with e out s0 = Some (e', out', s') \<Longrightarrow> graphs_ok s0 \<Longrightarrow> graphs_ok s'"
  by (rule same_graphs_ok [OF _ frame_same [OF frame_done]])

lemma frame_ok: "graphs_ok s \<Longrightarrow> frame s s' \<Longrightarrow> graphs_ok s'"
  by (rule same_graphs_ok [OF _ frame_same])

lemma add_node_ok:
  assumes "graphs_ok s" "n \<noteq> 0" "gs_nodes s n = None" "add_node g n dependencies c node s = Some (e, out, s')"
  shows "graphs_ok s'"
  using assms unfolding add_node_def
  by (auto split: option.splits dest: assign_subset [THEN subsetD]
      elim!: done_push_ok intro!: push_node_ok [where s = s])

lemma record_node_ok:
  assumes "graphs_ok s" "n \<noteq> 0" "gs_nodes s n = None" "gn_dependencies node = []"
    and "record_node g n node s = Some (e, out, s')"
  shows "graphs_ok s'"
  using assms unfolding record_node_def append_captured_graph_node_def
  by (auto split: option.splits if_splits elim!: done_push_ok intro!: push_node_ok [where s = s])

lemma append_captured_ok:
  assumes "graphs_ok s" "n \<noteq> 0" "gs_nodes s n = None" "gn_dependencies node = []" "gs_graphs s g = Some gr"
  shows "graphs_ok (append_captured_graph_node g n gr node s)"
  using assms unfolding append_captured_graph_node_def
  by (auto intro!: push_node_ok [where s = s])

subsection \<open>Adding nodes\<close>

lemma invalid_ok: "graphs_ok s \<Longrightarrow> done_with e out s = Some (e', out', s') \<Longrightarrow> graphs_ok s'"
  by (rule done_push_ok)

lemma kernel_node_ok [graphs_kept]:
  assumes "graphs_ok s" "n \<noteq> 0" "gs_nodes s n = None"
    and "cudaGraphAddKernelNode memory other n out_null g dependencies c params s = Some (e, out, s')"
  shows "graphs_ok s'"
  using assms unfolding cudaGraphAddKernelNode_def
  by (auto simp: Let_def split: if_splits option.splits prod.splits elim: invalid_ok add_node_ok)

lemma memcpy_node_ok [graphs_kept]:
  assumes "graphs_ok s" "n \<noteq> 0" "gs_nodes s n = None"
    and "cudaGraphAddMemcpyNode n out_null g dependencies c params s = Some (e, out, s')"
  shows "graphs_ok s'"
  using assms unfolding cudaGraphAddMemcpyNode_def
  by (auto split: if_splits elim: invalid_ok add_node_ok)

lemma memcpy_node_1d_ok [graphs_kept]:
  assumes "graphs_ok s" "\<And>n. address = Some n \<Longrightarrow> n \<noteq> 0 \<and> gs_nodes s n = None"
    and "cudaGraphAddMemcpyNode1D address out_null g dependencies c dst src count kind s = Some (e, out, s')"
  shows "graphs_ok s'"
  using assms unfolding cudaGraphAddMemcpyNode1D_def
  by (auto split: if_splits option.splits elim: invalid_ok add_node_ok)

lemma memset_node_ok [graphs_kept]:
  assumes "graphs_ok s" "n \<noteq> 0" "gs_nodes s n = None"
    and "cudaGraphAddMemsetNode n out_null g dependencies c params s = Some (e, out, s')"
  shows "graphs_ok s'"
  using assms unfolding cudaGraphAddMemsetNode_def
  by (auto split: if_splits elim: invalid_ok add_node_ok)

lemma host_node_ok [graphs_kept]:
  assumes "graphs_ok s" "n \<noteq> 0" "gs_nodes s n = None"
    and "cudaGraphAddHostNode n out_null g dependencies c params s = Some (e, out, s')"
  shows "graphs_ok s'"
  using assms unfolding cudaGraphAddHostNode_def
  by (auto split: if_splits option.splits elim: invalid_ok add_node_ok)

text \<open>Memory nodes also mark the lifetime object of the graph.\<close>

lemma mark_same: "same_graphs s (mark_memory gr s)"
proof -
  have l: "dom (gs_lifetimes s) \<subseteq> dom (gs_lifetimes (mark_memory gr s))"
    unfolding mark_memory_def by (auto split: option.split)
  have "gs_graphs (mark_memory gr s) = gs_graphs s" "gs_nodes (mark_memory gr s) = gs_nodes s"
    "gs_execs (mark_memory gr s) = gs_execs s"
    unfolding mark_memory_def by (simp_all split: option.split)
  then show ?thesis using l unfolding same_graphs_def by auto
qed

lemma mark_parts [simp]:
  "gs_graphs (mark_memory gr s) = gs_graphs s" "gs_nodes (mark_memory gr s) = gs_nodes s"
  "gs_execs (mark_memory gr s) = gs_execs s"
  unfolding mark_memory_def by (simp_all split: option.split)

lemma push_marked_ok:
  assumes ok: "graphs_ok s" and g: "gs_graphs s g = Some gr" and n: "n \<noteq> 0" "gs_nodes s n = None"
    and ds: "set (gn_dependencies node) \<subseteq> set (gr_nodes gr)" and f: "frame s s0"
  shows "graphs_ok (push_node g n gr node (mark_memory gr s0))"
proof -
  have "graphs_ok (mark_memory gr s0)" by (rule same_graphs_ok [OF frame_ok [OF ok f] mark_same])
  moreover have "gs_graphs (mark_memory gr s0) g = Some gr" "gs_nodes (mark_memory gr s0) n = None"
    using g n f by (simp_all add: frame_def)
  ultimately show ?thesis using push_node_ok [OF _ _ n(1) _ ds frame_refl] by blast
qed

lemma frame_runtime [simp]:
  "frame s (s\<lparr>gs_rt := rt\<rparr>)" "frame s (s\<lparr>gs_rt := rt, gs_uses := u, gs_free_placement := p\<rparr>)"
  "frame s (s\<lparr>gs_free_placement := p\<rparr>)"
  unfolding frame_def by simp_all

lemma graphs_ok_runtime [simp]: "graphs_ok (s\<lparr>gs_rt := rt\<rparr>) = graphs_ok s"
  by (auto intro: frame_ok [of s] frame_ok [of "s\<lparr>gs_rt := rt\<rparr>" s] simp: frame_def)

lemma alloc_node_ok [graphs_kept]:
  assumes "graphs_ok s" "\<And>n. address = Some n \<Longrightarrow> n \<noteq> 0 \<and> gs_nodes s n = None"
    and "cudaGraphAddMemAllocNode be address a out_null g dependencies c params s = Some (e, out, s')"
  shows "graphs_ok s'"
  using assms unfolding cudaGraphAddMemAllocNode_def Let_def
  by (auto split: if_splits option.splits prod.splits dest: assign_subset [THEN subsetD]
      elim!: done_push_ok intro!: push_marked_ok [where s = s])

lemma free_node_ok [graphs_kept]:
  assumes "graphs_ok s" "\<And>n. address = Some n \<Longrightarrow> n \<noteq> 0 \<and> gs_nodes s n = None"
    and "cudaGraphAddMemFreeNode address out_null g dependencies c dptr s = Some (e, out, s')"
  shows "graphs_ok s'"
  using assms unfolding cudaGraphAddMemFreeNode_def Let_def
  by (auto split: if_splits option.splits sum.splits dest: assign_subset [THEN subsetD]
      elim!: done_push_ok intro!: push_marked_ok [where s = s] frame_trans [OF _ frame_add])

subsection \<open>Changing nodes\<close>

lemma update_node_ok:
  assumes ok: "graphs_ok s" and keep: "\<And>v v'. f v = Some v' \<Longrightarrow> gn_dependencies v' = gn_dependencies v"
    and call: "update_node f n s = Some (e, out, s')"
  shows "graphs_ok s'"
proof -
  have "same_graphs s (s\<lparr>gs_nodes := (gs_nodes s)(n \<mapsto> v')\<rparr>)" if "gs_nodes s n = Some v" "f v = Some v'" for v v'
    using that keep by (auto simp: same_graphs_def edges_def)
  then show ?thesis
    using call ok unfolding update_node_def
    by (auto split: if_splits option.splits elim!: done_push_ok intro: same_graphs_ok)
qed

lemma snapshot_dependencies:
  "snapshot_graph_kernel_arguments memory sizes function arguments v = (ok, v') \<Longrightarrow> gn_dependencies v' = gn_dependencies v"
  unfolding snapshot_graph_kernel_arguments_def Let_def by (auto split: if_splits option.splits)

lemma node_update_dependencies:
  "kernel_node_update memory sizes p v = Some v' \<Longrightarrow> gn_dependencies v' = gn_dependencies v"
  "memcpy_node_update arrays params v = Some v' \<Longrightarrow> gn_dependencies v' = gn_dependencies v"
  "memcpy_1d_node_update dst src count kind v = Some v' \<Longrightarrow> gn_dependencies v' = gn_dependencies v"
  "memset_node_update ms v = Some v' \<Longrightarrow> gn_dependencies v' = gn_dependencies v"
  "host_node_update hn v = Some v' \<Longrightarrow> gn_dependencies v' = gn_dependencies v"
  unfolding kernel_node_update_def memcpy_node_update_def memcpy_1d_node_update_def memset_node_update_def
    host_node_update_def
  by (auto split: if_splits prod.splits option.splits dest: snapshot_dependencies)

lemma set_params_ok [graphs_kept]:
  assumes "graphs_ok s"
  shows "cudaGraphKernelNodeSetParams memory other n kparams s = Some (e, out, s') \<Longrightarrow> graphs_ok s'"
    "cudaGraphMemcpyNodeSetParams n params s = Some (e, out, s') \<Longrightarrow> graphs_ok s'"
    "cudaGraphMemcpyNodeSetParams1D n dst src count kind s = Some (e, out, s') \<Longrightarrow> graphs_ok s'"
    "cudaGraphMemsetNodeSetParams n mparams s = Some (e, out, s') \<Longrightarrow> graphs_ok s'"
    "cudaGraphHostNodeSetParams n hparams s = Some (e, out, s') \<Longrightarrow> graphs_ok s'"
  unfolding cudaGraphKernelNodeSetParams_def cudaGraphMemcpyNodeSetParams_def cudaGraphMemcpyNodeSetParams1D_def
    cudaGraphMemsetNodeSetParams_def cudaGraphHostNodeSetParams_def
  by (auto split: if_splits elim!: update_node_ok [OF assms, rotated] dest: node_update_dependencies
      intro: invalid_ok [OF assms])

lemma exec_update_ok:
  assumes ok: "graphs_ok s" and call: "update_exec_node f x n s = Some (e, out, s')"
  shows "graphs_ok s'"
proof -
  have "same_graphs s (s\<lparr>gs_execs := (gs_execs s)(x \<mapsto> ex\<lparr>ex_nodes := (ex_nodes ex)[i := v]\<rparr>)\<rparr>)"
    if "gs_execs s x = Some ex" for ex i v
    using that by (auto simp: same_graphs_def same_exec_def)
  then show ?thesis
    using call ok unfolding update_exec_node_def
    by (auto split: if_splits option.splits elim!: done_push_ok intro: same_graphs_ok)
qed

lemma exec_set_params_ok [graphs_kept]:
  assumes "graphs_ok s"
  shows "cudaGraphExecKernelNodeSetParams memory other x n kparams s = Some (e, out, s') \<Longrightarrow> graphs_ok s'"
    "cudaGraphExecMemcpyNodeSetParams x n params s = Some (e, out, s') \<Longrightarrow> graphs_ok s'"
    "cudaGraphExecMemcpyNodeSetParams1D x n dst src count kind s = Some (e, out, s') \<Longrightarrow> graphs_ok s'"
    "cudaGraphExecMemsetNodeSetParams x n mparams s = Some (e, out, s') \<Longrightarrow> graphs_ok s'"
    "cudaGraphExecHostNodeSetParams x n hparams s = Some (e, out, s') \<Longrightarrow> graphs_ok s'"
  unfolding cudaGraphExecKernelNodeSetParams_def cudaGraphExecMemcpyNodeSetParams_def
    cudaGraphExecMemcpyNodeSetParams1D_def cudaGraphExecMemsetNodeSetParams_def cudaGraphExecHostNodeSetParams_def
  by (auto split: if_splits elim: exec_update_ok [OF assms] invalid_ok [OF assms])

subsection \<open>Creating and destroying graphs\<close>

lemma enter_graph_ok:
  assumes ok: "graphs_ok s" and new: "gs_lifetimes s l = None"
  shows "graphs_ok (enter_graph g l s)"
proof -
  have d: "deps_of (enter_graph g l s) = deps_of s" by (simp add: enter_graph_def deps_of_def fun_eq_iff)
  show ?thesis
    using ok unfolding graphs_ok_def
    by (auto simp: d [unfolded enter_graph_def new_graph_def] graph_ok_def exec_ok_def enter_graph_def new_graph_def in_insertion_order_def
        split: if_splits) (blast+)?
qed

lemma create_ok [graphs_kept]:
  assumes "graphs_ok s" "gs_lifetimes s l = None"
    and "cudaGraphCreate g l out_null flags s = Some (e, out, s')"
  shows "graphs_ok s'"
  using assms unfolding cudaGraphCreate_def
  by (auto split: if_splits elim!: done_push_ok intro: enter_graph_ok)

lemma delete_nodes_parts:
  "delete_nodes ns s = Some s' \<Longrightarrow>
     gs_nodes s' = (\<lambda>n. if n \<in> set ns \<and> n \<noteq> 0 then None else gs_nodes s n) \<and> gs_graphs s' = gs_graphs s \<and>
     gs_lifetimes s' = gs_lifetimes s \<and> gs_execs s' = gs_execs s"
proof (induction ns arbitrary: s)
  case (Cons n ns)
  show ?case
  proof (cases "n = 0")
    case True
    then show ?thesis using Cons by (auto simp: fun_eq_iff)
  next
    case False
    then obtain v where v: "gs_nodes s n = Some v"
      "delete_nodes ns (drop_reference (gn_graph_allocation v) (s\<lparr>gs_nodes := (gs_nodes s)(n := None)\<rparr>)) = Some s'"
      using Cons.prems by (auto split: option.splits)
    then show ?thesis
      using Cons.IH [OF v(2)] frame_drop [of "s\<lparr>gs_nodes := (gs_nodes s)(n := None)\<rparr>" "gn_graph_allocation v"] False
      by (auto simp: frame_def fun_eq_iff)
  qed
qed (auto simp: fun_eq_iff)

lemma delete_graph_ok:
  assumes ok: "graphs_ok s" and g: "gs_graphs s g = Some gr"
    and del: "delete_nodes (gr_nodes gr) (s\<lparr>gs_graphs := (gs_graphs s)(g := None)\<rparr>) = Some s'"
  shows "graphs_ok s'"
proof -
  note p = delete_nodes_parts [OF del, simplified]
  have keep: "gs_nodes s' n = gs_nodes s n" if "n \<in> set (gr_nodes gr')" "gs_graphs s g' = Some gr'" "g' \<noteq> g" for n g' gr'
    using p graphs_okD(3) [OF ok that(2) g that(3)] that(1) by auto
  show ?thesis
    unfolding graphs_ok_def
  proof (intro conjI allI impI)
    fix g' gr' assume "gs_graphs s' g' = Some gr'"
    then have g': "gs_graphs s g' = Some gr'" "g' \<noteq> g" using p by (auto split: if_splits)
    then have "deps_of s' n = deps_of s n" if "n \<in> set (gr_nodes gr')" for n
      using keep [OF that] by (simp add: deps_of_def)
    moreover have "set (gr_nodes gr') \<subseteq> dom (gs_nodes s')"
      using keep [OF _ g'] graphs_okD(1) [OF ok g'(1)] by (auto simp: graph_ok_def domIff)
    ultimately show "graph_ok s' gr'"
      using graphs_okD(1) [OF ok g'(1)] p unfolding graph_ok_def by (auto intro: insertion_order_cong)
  next
    fix g1 gr1 g2 gr2 assume "gs_graphs s' g1 = Some gr1" "gs_graphs s' g2 = Some gr2" "g1 \<noteq> g2"
    then show "set (gr_nodes gr1) \<inter> set (gr_nodes gr2) = {}"
      using p graphs_okD(3) [OF ok, of g1 gr1 g2 gr2] by (auto split: if_splits)
  next
    fix e ex assume "gs_execs s' e = Some ex"
    then show "exec_ok s' ex" using p graphs_okD(2) [OF ok] by (auto simp: exec_ok_def)
  qed
qed

lemma destroy_ok [graphs_kept]:
  assumes "graphs_ok s" "cudaGraphDestroy g s = Some (e, out, s')"
  shows "graphs_ok s'"
  using assms unfolding cudaGraphDestroy_def
  by (auto split: if_splits option.splits elim!: done_push_ok dest: frame_release_objects delete_graph_ok
      intro: frame_ok)

text \<open>The nodes of a copy are those of the original under an injection.\<close>

lemma insertion_order_map:
  assumes o: "in_insertion_order ns deps" and inj: "inj_on f (set ns)"
    and d: "\<And>n. n \<in> set ns \<Longrightarrow> deps' (f n) = map f (deps n)"
  shows "in_insertion_order (map f ns) deps'"
  using o inj unfolding in_insertion_order_def
  by (auto simp: distinct_map d take_map)

lemma copy_nodes_parts:
  "copy_nodes fresh s ns = Inr cs \<Longrightarrow> map fst cs = map (\<lambda>n. the (fresh n)) ns \<and>
     (\<forall>n \<in> set ns. n \<noteq> 0 \<and> fresh n \<noteq> None \<and> gs_nodes s n \<noteq> None)"
  by (induction ns arbitrary: cs) (auto split: if_splits option.splits sum.splits)

lemma those_map_Some: "those (map f xs) = Some ys \<longleftrightarrow> map f xs = map Some ys"
  by (induction xs arbitrary: ys) (auto split: option.splits simp: Cons_eq_map_conv)

lemma copied_dependencies_Some:
  "copied_dependencies fresh ns ds = Some rs \<Longrightarrow> set ds \<subseteq> set ns \<and> rs = map (\<lambda>d. the (fresh d)) ds"
  unfolding copied_dependencies_def those_map_Some
proof (induction ds arbitrary: rs)
  case (Cons d ds)
  then show ?case by (cases rs) (auto split: if_splits)
qed simp

lemma copy_edges_parts:
  "copy_edges fresh s ns ms cs = Some cs' \<Longrightarrow> map fst cs = map (\<lambda>n. the (fresh n)) ms \<Longrightarrow>
     map fst cs' = map fst cs \<and> (\<forall>n \<in> set ms. \<exists>v. (the (fresh n), v) \<in> set cs' \<and>
        gn_dependencies v = map (\<lambda>d. the (fresh d)) (deps_of s n))"
proof (induction fresh s ns ms cs arbitrary: cs' rule: copy_edges.induct)
  case (1 fresh s ns m ms c cs)
  from "1.prems"(1) obtain ds cs1 where d: "copied_dependencies fresh ns (deps_of s m) = Some ds"
    "copy_edges fresh s ns ms cs = Some cs1" "cs' = (fst c, (snd c)\<lparr>gn_dependencies := ds\<rparr>) # cs1"
    by (auto split: option.splits)
  with "1.IH" [OF d(1) d(2)] "1.prems"(2) copied_dependencies_Some [OF d(1)] show ?case by fastforce
qed auto

lemma enter_nodes_parts:
  "gs_graphs (fold enter_node cs s) = gs_graphs s \<and> gs_lifetimes (fold enter_node cs s) = gs_lifetimes s \<and>
   gs_execs (fold enter_node cs s) = gs_execs s \<and> gs_nodes (fold enter_node cs s) = gs_nodes s ++ map_of (rev cs)"
proof (induction cs arbitrary: s)
  case (Cons c cs)
  let ?s1 = "s\<lparr>gs_nodes := (gs_nodes s)(fst c \<mapsto> snd c)\<rparr>"
  have "frame ?s1 (enter_node c s)" by (simp add: enter_node_def)
  then show ?case using Cons.IH [of "enter_node c s"] by (auto simp: frame_def map_add_def fun_eq_iff split: option.splits)
qed simp

lemma clone_ok [graphs_kept]:
  assumes ok: "graphs_ok s" and l: "gs_lifetimes s l = None"
    and address: "\<And>c. address = Some c \<Longrightarrow> c \<noteq> g \<and> gs_graphs s c = None"
    and fresh: "inj_on fresh {n. fresh n \<noteq> None}" "\<And>n c. fresh n = Some c \<Longrightarrow> c \<noteq> 0 \<and> gs_nodes s c = None"
    and call: "cudaGraphClone fresh address l out_null g s = Some (e, out, s')"
  shows "graphs_ok s'"
proof -
  have "graphs_ok (s1\<lparr>gs_graphs := (gs_graphs s1)(c \<mapsto> (new_graph l)\<lparr>gr_nodes := map fst cs'\<rparr>)\<rparr>)"
    if gr: "gs_graphs s g = Some gr" and c: "address = Some c"
      and cs: "copy_nodes fresh s (gr_nodes gr) = Inr cs" "copy_edges fresh s (gr_nodes gr) (gr_nodes gr) cs = Some cs'"
      and s1: "s1 = fold enter_node cs' (enter_graph c l s)" for gr c cs cs' s1
  proof -
    let ?f = "\<lambda>n. the (fresh n)" and ?t = "s1\<lparr>gs_graphs := (gs_graphs s1)(c \<mapsto> (new_graph l)\<lparr>gr_nodes := map fst cs'\<rparr>)\<rparr>"
    note n = copy_nodes_parts [OF cs(1)]
    note m = copy_edges_parts [OF cs(2) n [THEN conjunct1]]
    have ns: "map fst cs' = map ?f (gr_nodes gr)" using m n by simp
    note gk = graphs_okD(1) [OF ok gr, unfolded graph_ok_def]
    have inj: "inj_on ?f (set (gr_nodes gr))"
    proof (rule inj_onI)
      fix x y assume xy: "x \<in> set (gr_nodes gr)" "y \<in> set (gr_nodes gr)" "?f x = ?f y"
      then have "fresh x \<noteq> None" "fresh y \<noteq> None" using n by blast+
      moreover from this xy(3) have "fresh x = fresh y" by auto
      ultimately show "x = y" using inj_onD [OF fresh(1)] by blast
    qed
    have new: "?f n \<noteq> 0 \<and> gs_nodes s (?f n) = None" if "n \<in> set (gr_nodes gr)" for n
      using n that fresh(2) by fastforce
    have dist: "distinct (map fst cs')" using ns inj gk by (simp add: distinct_map in_insertion_order_def)
    have parts: "gs_graphs ?t = (gs_graphs s)(c \<mapsto> (new_graph l)\<lparr>gr_nodes := map ?f (gr_nodes gr)\<rparr>)"
      "gs_lifetimes ?t = (gs_lifetimes s)(l \<mapsto> \<lparr>gl_contains_memory_nodes = False, gl_executable_instances = 0\<rparr>)"
      "gs_execs ?t = gs_execs s" "gs_nodes ?t = gs_nodes s ++ map_of (rev cs')"
      using enter_nodes_parts [of cs' "enter_graph c l s"] ns by (simp_all add: s1 enter_graph_def)
    have copied: "gs_nodes ?t (?f n) \<noteq> None \<and> deps_of ?t (?f n) = map ?f (deps_of s n)" if "n \<in> set (gr_nodes gr)" for n
    proof -
      from m [THEN conjunct2, THEN bspec, OF that] obtain v where
        v: "(?f n, v) \<in> set cs'" "gn_dependencies v = map ?f (deps_of s n)" by (elim exE conjE)
      have "map_of (rev cs') (?f n) = Some v" using v(1) dist by (intro map_of_is_SomeI) (auto simp: rev_map [symmetric])
      then show ?thesis using v(2) parts(4) by (simp add: deps_of_def map_add_def)
    qed
    have old: "gs_nodes ?t n = gs_nodes s n" if "gs_nodes s n \<noteq> None" for n
    proof -
      have "n \<notin> fst ` set cs'"
      proof
        assume "n \<in> fst ` set cs'"
        then have "n \<in> ?f ` set (gr_nodes gr)" using ns by (metis list.set_map)
        with new that show False by auto
      qed
      then have "map_of (rev cs') n = None" by (simp add: map_of_eq_None_iff)
      then show ?thesis using parts(4) by (simp add: map_add_def)
    qed
    have part: "graph_ok ?t gr'" if g': "gs_graphs ?t g' = Some gr'" for g' gr'
    proof (cases "g' = c")
      case True
      then have "gr_nodes gr' = map ?f (gr_nodes gr)" "gr_lifetime gr' = l" using g' parts(1) ns by (auto simp: new_graph_def)
      moreover have "in_insertion_order (map ?f (gr_nodes gr)) (deps_of ?t)"
        using insertion_order_map [OF _ inj] gk copied by blast
      ultimately show ?thesis
        unfolding graph_ok_def using new copied parts(2) by (auto simp: domIff)
    next
      case False
      then have sg: "gs_graphs s g' = Some gr'" using g' parts(1) by simp
      have "gs_nodes s n \<noteq> None" if "n \<in> set (gr_nodes gr')" for n
        using graphs_okD(1) [OF ok sg] that by (auto simp: graph_ok_def)
      then have "gs_nodes ?t n = gs_nodes s n" if "n \<in> set (gr_nodes gr')" for n using old that by blast
      then have "\<And>n. n \<in> set (gr_nodes gr') \<Longrightarrow> deps_of ?t n = deps_of s n \<and> gs_nodes ?t n \<noteq> None"
        using graphs_okD(1) [OF ok sg] by (auto simp: deps_of_def graph_ok_def)
      then show ?thesis
        using graphs_okD(1) [OF ok sg] parts(2) unfolding graph_ok_def
        by (auto intro: insertion_order_cong simp: domIff)
    qed
    have apart: "?f ` set (gr_nodes gr) \<inter> set (gr_nodes gr') = {}" if "gs_graphs s g' = Some gr'" for g' gr'
      using new graphs_okD(1) [OF ok that] by (auto simp: graph_ok_def domIff)
    have "set (gr_nodes gr1) \<inter> set (gr_nodes gr2) = {}"
      if "gs_graphs ?t g1 = Some gr1" "gs_graphs ?t g2 = Some gr2" "g1 \<noteq> g2" for g1 g2 gr1 gr2
    proof -
      have c: "set (gr_nodes gr') = ?f ` set (gr_nodes gr)" if "gs_graphs ?t c = Some gr'" for gr'
        using that parts(1) by auto
      have o: "gs_graphs s g' = Some gr'" if "gs_graphs ?t g' = Some gr'" "g' \<noteq> c" for g' gr'
        using that parts(1) by simp
      note d = that
      consider "g1 = c" "g2 \<noteq> c" | "g1 \<noteq> c" "g2 = c" | "g1 \<noteq> c" "g2 \<noteq> c" using d(3) by blast
      then show ?thesis
      proof cases
        case 1
        then show ?thesis using c [of gr1] apart [OF o [OF d(2)]] d(1) by simp
      next
        case 2
        then show ?thesis using c [of gr2] apart [OF o [OF d(1)]] d(2) by (simp add: Int_commute)
      next
        case 3
        then show ?thesis using graphs_okD(3) [OF ok o [OF d(1)] o [OF d(2)] d(3)] by simp
      qed
    qed
    moreover have "exec_ok ?t ex" if "gs_execs ?t e = Some ex" for e ex
      using that parts(2,3) graphs_okD(2) [OF ok] by (auto simp: exec_ok_def)
    ultimately show ?thesis using part unfolding graphs_ok_def by blast
  qed
  note key = this
  from call consider (err) e' where "done_with e' None s = Some (e, out, s')"
    | (copy) gr c cs cs' where "gs_graphs s g = Some gr" "address = Some c" "copy_nodes fresh s (gr_nodes gr) = Inr cs"
        "copy_edges fresh s (gr_nodes gr) (gr_nodes gr) cs = Some cs'"
        "done_with cudaSuccess (Some c) ((fold enter_node cs' (enter_graph c l s))\<lparr>gs_graphs :=
           (gs_graphs (fold enter_node cs' (enter_graph c l s)))(c \<mapsto> (new_graph l)\<lparr>gr_nodes := map fst cs'\<rparr>)\<rparr>)
           = Some (e, out, s')"
    unfolding cudaGraphClone_def Let_def by (auto split: if_splits option.splits sum.splits)
  then show ?thesis
    using done_push_ok key [OF _ _ _ _ refl] ok by cases blast+
qed

subsection \<open>Executable graphs\<close>

lemma topologically_order_Some:
  "topologically_order_graph s gr = Some ord \<Longrightarrow> replay_order (gr_nodes gr) (deps_of s) ord"
  unfolding topologically_order_graph_def by (auto split: if_splits dest: order_nodes_Some)

lemma dependency_positions_Some:
  "dependency_positions s ord n = Some ps \<Longrightarrow>
     set (deps_of s n) \<subseteq> set ord \<and> sorted ps \<and> set ps = (\<lambda>d. the (index_of ord d)) ` set (deps_of s n)"
proof -
  have "map (index_of ord) ds = map Some qs \<Longrightarrow> set ds \<subseteq> set ord \<and> qs = map (\<lambda>d. the (index_of ord d)) ds" for ds qs
  proof (induction ds arbitrary: qs)
    case (Cons d ds)
    then obtain q qs' where "qs = q # qs'" "index_of ord d = Some q" by (cases qs) auto
    with Cons show ?case using index_of_Some by fastforce
  qed simp
  note positions = this
  assume "dependency_positions s ord n = Some ps"
  then obtain qs where qs: "map (index_of ord) (deps_of s n) = map Some qs" "ps = sort qs"
    unfolding dependency_positions_def by (auto simp: those_map_Some)
  from positions [OF qs(1)] show ?thesis using qs(2) by simp
qed

lemma index_in_take:
  assumes "distinct ord" "d \<in> set (take k ord)" "index_of ord d = Some i"
  shows "i < k"
proof -
  obtain j where j: "j < k" "j < length ord" "ord ! j = d" using assms(2) by (auto simp: in_set_conv_nth)
  then show ?thesis using index_of_nth [OF assms(1) j(2)] assms(3) by simp
qed

lemma positions_below:
  assumes o: "replay_order ns (deps_of s) ord" and k: "k < length ord"
    and p: "dependency_positions s ord (ord ! k) = Some ps"
  shows "\<forall>j \<in> set ps. j < k"
proof
  fix j assume "j \<in> set ps"
  then obtain d where d: "d \<in> set (deps_of s (ord ! k))" "j = the (index_of ord d)"
    using dependency_positions_Some [OF p] by auto
  then have "d \<in> set (take k ord)" using o k unfolding replay_order_def by blast
  moreover from this have "index_of ord d \<noteq> None" by (auto dest: in_set_takeD)
  then have "index_of ord d = Some j" using d(2) by auto
  ultimately show "j < k" using index_in_take [of ord d k j] o unfolding replay_order_def by simp
qed

lemma replay_copy_ok:
  assumes o: "topologically_order_graph s gr = Some ord"
    and d: "those (map (dependency_positions s ord) ord) = Some dss" and l: "lt \<in> dom (gs_lifetimes s')"
  shows "exec_ok s' (replay_copy s ord dss lt)"
proof -
  note r = topologically_order_Some [OF o]
  have m: "map (dependency_positions s ord) ord = map Some dss" using d by (simp add: those_map_Some)
  then have len: "length dss = length ord" by (metis length_map)
  have "dependency_positions s ord (ord ! k) = Some (dss ! k)" if "k < length ord" for k
    using m that len by (metis nth_map)
  then have "\<forall>j \<in> set (dss ! k). j < k" if "k < length ord" for k using positions_below [OF r] that by blast
  then show ?thesis
    using l len by (auto simp: exec_ok_def replay_copy_def dest: index_of_Some)
qed

lemma instantiate_ok [graphs_kept]:
  assumes ok: "graphs_ok s" and call: "cudaGraphInstantiate address out_null g s = Some (e, out, s')"
  shows "graphs_ok s'"
proof -
  from call consider (err) e' where "done_with e' None s = Some (e, out, s')"
    | (new) gr l l' ord dss x where "gs_graphs s g = Some gr" "gs_lifetimes s (gr_lifetime gr) = Some l"
        "topologically_order_graph s gr = Some ord" "those (map (dependency_positions s ord) ord) = Some dss"
        "done_with cudaSuccess (Some x) (add_references (ex_nodes (replay_copy s ord dss (gr_lifetime gr)))
           (s\<lparr>gs_execs := (gs_execs s)(x \<mapsto> replay_copy s ord dss (gr_lifetime gr)),
              gs_lifetimes := (gs_lifetimes s)(gr_lifetime gr \<mapsto> l')\<rparr>)) = Some (e, out, s')"
    unfolding cudaGraphInstantiate_def Let_def by (auto split: if_splits option.splits)
  then show ?thesis
  proof cases
    case err
    then show ?thesis using ok done_push_ok by blast
  next
    case new
    let ?s = "s\<lparr>gs_execs := (gs_execs s)(x \<mapsto> replay_copy s ord dss (gr_lifetime gr)),
              gs_lifetimes := (gs_lifetimes s)(gr_lifetime gr \<mapsto> l')\<rparr>"
    have "exec_ok ?s (replay_copy s ord dss (gr_lifetime gr))" by (rule replay_copy_ok [OF new(3,4)]) simp
    then have "same_graphs s ?s" unfolding same_graphs_def by auto
    then show ?thesis
      using done_push_ok [OF new(5)] frame_ok [OF same_graphs_ok [OF ok] frame_add_references] by blast
  qed
qed

lemma with_flags_ok [graphs_kept]:
  assumes "graphs_ok s" "cudaGraphInstantiateWithFlags address out_null g flags s = Some (e, out, s')"
  shows "graphs_ok s'"
proof -
  have same: "same_graphs t (t\<lparr>gs_execs := (gs_execs t)(x \<mapsto> ex\<lparr>ex_auto_free_on_launch := b\<rparr>)\<rparr>)"
    if "gs_execs t x = Some ex" for t x ex b
    using that by (auto simp: same_graphs_def same_exec_def)
  have "graphs_ok t" if "cudaGraphInstantiate address out_null g s = Some (a, b, t)" for a b t
    using instantiate_ok [OF assms(1) that] .
  then show ?thesis
    using assms unfolding cudaGraphInstantiateWithFlags_def Let_def
    by (simp split: if_splits option.splits prod.splits) (blast intro: done_push_ok same_graphs_ok [OF _ same])+
qed

lemma compare_nodes_positions:
  "compare_nodes s ord ns vs = Inr dss \<Longrightarrow> length ns = length vs \<Longrightarrow>
     map (dependency_positions s ord) ns = map Some dss \<and> map (gn_type \<circ> the \<circ> gs_nodes s) ns = map gn_type vs"
  by (induction s ord ns vs arbitrary: dss rule: compare_nodes.induct) (auto split: if_splits option.splits sum.splits)

lemma exec_update_call_ok [graphs_kept]:
  assumes ok: "graphs_ok s" and call: "cudaGraphExecUpdate x g out_null s = Some (e, out, s')"
  shows "graphs_ok s'"
proof -
  from call consider (same) e' out' where "done_with e' out' s = Some (e, out, s')"
    | (new) gr ord ex dss where "topologically_order_graph s gr = Some ord" "gs_execs s x = Some ex"
        "length ord = length (ex_nodes ex)" "compare_nodes s ord ord (ex_nodes ex) = Inr dss"
        "done_with cudaSuccess (Some (cudaGraphExecUpdateSuccess, 0)) (drop_references (ex_nodes ex)
          (add_references (map (node_copy s) ord) (s\<lparr>gs_execs := (gs_execs s)(x \<mapsto> ex\<lparr>ex_nodes := map (node_copy s) ord,
             ex_source_node_index := index_of ord, ex_dependency_indices := dss\<rparr>)\<rparr>))) = Some (e, out, s')"
    unfolding cudaGraphExecUpdate_def Let_def by (auto split: if_splits option.splits sum.splits)
  then show ?thesis
  proof cases
    case same
    then show ?thesis using ok done_push_ok by blast
  next
    case new
    let ?ex = "ex\<lparr>ex_nodes := map (node_copy s) ord, ex_source_node_index := index_of ord, ex_dependency_indices := dss\<rparr>"
    let ?s = "s\<lparr>gs_execs := (gs_execs s)(x \<mapsto> ?ex)\<rparr>"
    have "those (map (dependency_positions s ord) ord) = Some dss"
      using compare_nodes_positions [OF new(4) new(3)] by (simp add: those_map_Some)
    from replay_copy_ok [OF new(1) this, of "ex_lifetime ex" ?s] graphs_okD(2) [OF ok new(2)]
    have "exec_ok ?s ?ex" by (simp add: exec_ok_def replay_copy_def)
    then have "same_graphs s ?s" unfolding same_graphs_def by auto
    then have "graphs_ok (drop_references (ex_nodes ex) (add_references (map (node_copy s) ord) ?s))"
      using frame_ok [OF same_graphs_ok [OF ok] frame_trans [OF frame_add_references frame_drop_references]] by blast
    then show ?thesis using done_push_ok [OF new(5)] by blast
  qed
qed

lemma exec_destroy_ok [graphs_kept]:
  assumes ok: "graphs_ok s" and call: "cudaGraphExecDestroy x s = Some (e, out, s')"
  shows "graphs_ok s'"
proof -
  have "same_graphs s (s\<lparr>gs_lifetimes := (gs_lifetimes s)(l \<mapsto> l'), gs_execs := (gs_execs s)(x := None)\<rparr>)" for l l'
    unfolding same_graphs_def by (auto split: if_splits)
  then show ?thesis
    using ok call unfolding cudaGraphExecDestroy_def Let_def
    by (auto split: if_splits option.splits elim!: done_push_ok intro: frame_ok [OF same_graphs_ok frame_drop_references])
qed

subsection \<open>User objects, capture and replay\<close>

lemma set_user_objects_same: "gs_graphs s g = Some gr \<Longrightarrow> same_graphs s (set_user_objects g gr hs s)"
  unfolding set_user_objects_def same_graphs_def by (auto simp: shape_def)

lemma retain_object_ok [graphs_kept]:
  assumes ok: "graphs_ok s" and call: "cudaGraphRetainUserObject g obj c flags s = Some (e, out, s')"
  shows "graphs_ok s'"
proof -
  have "graphs_ok (set_user_objects g gr hs t)" if "gs_graphs t g = Some gr" "graphs_ok t" for gr hs t
    using same_graphs_ok [OF that(2) set_user_objects_same [OF that(1)]] .
  moreover have "graphs_ok t" if "retain_user_object obj c s = Some t" for t
    using frame_ok [OF ok frame_retain [OF that]] .
  ultimately show ?thesis
    using ok call unfolding cudaGraphRetainUserObject_def
    by (simp split: if_splits option.splits) (blast intro: done_push_ok)+
qed

lemma release_object_ok [graphs_kept]:
  assumes ok: "graphs_ok s" and call: "cudaGraphReleaseUserObject g obj c s = Some (e, out, s')"
  shows "graphs_ok s'"
proof -
  have "graphs_ok t" if "gs_graphs s g = Some gr" "release_user_object obj c (set_user_objects g gr hs s) = Some (b, t)"
    for gr hs b t
    using frame_ok [OF same_graphs_ok [OF ok set_user_objects_same [OF that(1)]] frame_release [OF that(2)]] .
  then show ?thesis
    using ok call unfolding cudaGraphReleaseUserObject_def
    by (simp split: if_splits option.splits prod.splits) (blast intro: done_push_ok)+
qed

lemma begin_capture_ok [graphs_kept]:
  assumes ok: "graphs_ok s" and l: "gs_lifetimes s l = None"
    and call: "cudaStreamBeginCapture be g l stream mode s = Some (e, out, s')"
  shows "graphs_ok s'"
proof -
  have "graphs_ok (enter_graph g l s\<lparr>gs_captures := m\<rparr>)" for m
    by (rule frame_ok [OF enter_graph_ok [OF ok l]]) (simp add: frame_def)
  then show ?thesis
    using ok call unfolding cudaStreamBeginCapture_def
    by (auto split: cudaStreamCaptureMode.splits if_splits elim: done_push_ok)
qed

lemma captured_ok [graphs_kept]:
  assumes "graphs_ok s" "n \<noteq> 0" "gs_nodes s n = None"
  shows "capture_memcpy_async be g n dst src c kind s = Some (e, out, s') \<Longrightarrow> graphs_ok s'"
    "capture_memset_async be g n dst val c s = Some (e, out, s') \<Longrightarrow> graphs_ok s'"
    "capture_launch_kernel be memory other g n func grid block sh args s = Some (e, out, s') \<Longrightarrow> graphs_ok s'"
    "capture_launch_host_func g (Some n) fn ud s = Some (e, out, s') \<Longrightarrow> graphs_ok s'"
    "capture_library_call stream (Some n) op s = Some (b, s') \<Longrightarrow> graphs_ok s'"
  unfolding capture_memcpy_async_def capture_memset_async_def capture_launch_kernel_def capture_launch_host_func_def
    capture_library_call_def Let_def
  using assms(1)
  by (auto simp: new_node_def split: if_splits option.splits prod.splits dest: snapshot_dependencies
      elim!: record_node_ok [OF assms, rotated] intro: invalid_ok [OF assms(1)] append_captured_ok [OF assms] assms(1))

lemma captured_memory_ok [graphs_kept]:
  assumes "graphs_ok s" "\<And>n. address = Some n \<Longrightarrow> n \<noteq> 0 \<and> gs_nodes s n = None"
  shows "capture_malloc_async be address a out_null g sz s = Some (e, out, s') \<Longrightarrow> graphs_ok s'"
    "capture_free_async address g dptr s = Some (e', out', s') \<Longrightarrow> graphs_ok s'"
  unfolding capture_malloc_async_def capture_free_async_def
  by (auto split: if_splits option.splits intro: done_push_ok alloc_node_ok [OF assms] free_node_ok [OF assms] assms(1))

text \<open>The operations of a replay leave graphs and executables alone; they may change all the rest.\<close>

definition calls_keep :: "launch_calls \<Rightarrow> bool" where
  "calls_keep lc \<longleftrightarrow> (\<forall>s st. (\<forall>op. frame s (snd (lc_library lc op st s))) \<and> (\<forall>v. frame s (snd (lc_kernel lc v st s))) \<and>
     (\<forall>p. frame s (snd (lc_memcpy_3d lc p st s))) \<and> (\<forall>d r c k. frame s (snd (lc_memcpy lc d r c k st s))) \<and>
     (\<forall>d v c. frame s (snd (lc_memset lc d v c st s))) \<and> (\<forall>d p w. frame s (snd (lc_fill lc d p w st s))) \<and>
     frame s (snd (lc_synchronize lc st s)) \<and> (\<forall>f d. frame s (lc_host lc f d s)))"

lemma run_node_frame: "calls_keep lc \<Longrightarrow> frame s (snd (run_node lc be st v s))"
proof -
  assume k: "calls_keep lc"
  then have "frame s (lc_host lc f d (snd (lc_synchronize lc st s)))" for f d
    unfolding calls_keep_def by (meson frame_trans)
  with k show ?thesis
    unfolding run_node_def run_memset_def with_runtime_def calls_keep_def
    by (auto split: cudaGraphNodeType.split option.split prod.split) (metis snd_conv)+
qed

lemma run_nodes_frame: "calls_keep lc \<Longrightarrow> frame s (snd (run_nodes lc be st vs s))"
proof (induction vs arbitrary: s)
  case (Cons v vs)
  then show ?case
    using run_node_frame [OF Cons.prems, of s be st v] by (auto split: prod.split intro: frame_trans)
qed simp

lemma auto_free_frame: "frame s (snd (auto_free seen vs s))"
proof (induction seen vs s rule: auto_free.induct)
  case (2 seen v vs s)
  then show ?case by (auto simp: with_runtime_def split: option.split intro: frame_trans [OF frame_runtime(1)])
qed simp

lemma launch_ok [graphs_kept]:
  assumes ok: "graphs_ok s" and k: "calls_keep lc" and call: "cudaGraphLaunch lc be x st s = Some (e, out, s')"
  shows "graphs_ok s'"
proof -
  have r: "graphs_ok (snd (run_nodes lc be st vs s))" for vs by (rule frame_ok [OF ok run_nodes_frame [OF k]])
  then have "graphs_ok (snd (auto_free [] vs (snd (run_nodes lc be st vs s))))" for vs
    by (rule frame_ok [OF _ auto_free_frame])
  with r ok call show ?thesis
    unfolding cudaGraphLaunch_def
    by (simp split: if_splits option.splits prod.splits) (metis done_push_ok snd_conv)+
qed

section \<open>Reachable states\<close>

definition new_address :: "graphs \<Rightarrow> u64 option \<Rightarrow> bool" where
  "new_address s address \<longleftrightarrow> (case address of None \<Rightarrow> True | Some n \<Rightarrow> n \<noteq> 0 \<and> gs_nodes s n = None)"

text \<open>
  One call.  New objects get addresses that are not in use; the rule \<open>other\<close> stands for every call that
  does not touch the graphs, among them the calls on user objects alone and the queries.
\<close>

inductive graph_step :: "graphs \<Rightarrow> graphs \<Rightarrow> bool" where
  create: "gs_lifetimes s l = None \<Longrightarrow> cudaGraphCreate g l out_null flags s = Some (e, out, s') \<Longrightarrow> graph_step s s'"
| clone: "gs_lifetimes s l = None \<Longrightarrow> (\<And>c. address = Some c \<Longrightarrow> c \<noteq> g \<and> gs_graphs s c = None) \<Longrightarrow>
    inj_on fresh {n. fresh n \<noteq> None} \<Longrightarrow> (\<And>n c. fresh n = Some c \<Longrightarrow> c \<noteq> 0 \<and> gs_nodes s c = None) \<Longrightarrow>
    cudaGraphClone fresh address l out_null g s = Some (e, out, s') \<Longrightarrow> graph_step s s'"
| destroy: "cudaGraphDestroy g s = Some (ed, outd, s') \<Longrightarrow> graph_step s s'"
| add_kernel: "new_address s (Some n) \<Longrightarrow>
    cudaGraphAddKernelNode memory other n out_null g ds c kparams s = Some (e, out, s') \<Longrightarrow> graph_step s s'"
| add_memcpy: "new_address s (Some n) \<Longrightarrow>
    cudaGraphAddMemcpyNode n out_null g ds c cparams s = Some (e, out, s') \<Longrightarrow> graph_step s s'"
| add_memcpy_1d: "new_address s address \<Longrightarrow>
    cudaGraphAddMemcpyNode1D address out_null g ds c dst src count kind s = Some (e, out, s') \<Longrightarrow> graph_step s s'"
| add_memset: "new_address s (Some n) \<Longrightarrow>
    cudaGraphAddMemsetNode n out_null g ds c mparams s = Some (e, out, s') \<Longrightarrow> graph_step s s'"
| add_host: "new_address s (Some n) \<Longrightarrow>
    cudaGraphAddHostNode n out_null g ds c hparams s = Some (e, out, s') \<Longrightarrow> graph_step s s'"
| add_alloc: "new_address s address \<Longrightarrow>
    cudaGraphAddMemAllocNode be address a out_null g ds c aparams s = Some (e, outa, s') \<Longrightarrow> graph_step s s'"
| add_free: "new_address s address \<Longrightarrow>
    cudaGraphAddMemFreeNode address out_null g ds c dptr s = Some (e, out, s') \<Longrightarrow> graph_step s s'"
| set_kernel: "cudaGraphKernelNodeSetParams memory other n kparams s = Some (e, outu, s') \<Longrightarrow> graph_step s s'"
| set_memcpy: "cudaGraphMemcpyNodeSetParams n cparams s = Some (e, outu, s') \<Longrightarrow> graph_step s s'"
| set_memcpy_1d: "cudaGraphMemcpyNodeSetParams1D n dst src count kind s = Some (e, outu, s') \<Longrightarrow> graph_step s s'"
| set_memset: "cudaGraphMemsetNodeSetParams n mparams s = Some (e, outu, s') \<Longrightarrow> graph_step s s'"
| set_host: "cudaGraphHostNodeSetParams n hparams s = Some (e, outu, s') \<Longrightarrow> graph_step s s'"
| retain: "cudaGraphRetainUserObject g obj k flags s = Some (e, outu, s') \<Longrightarrow> graph_step s s'"
| release: "cudaGraphReleaseUserObject g obj k s = Some (e, outu, s') \<Longrightarrow> graph_step s s'"
| instantiate: "cudaGraphInstantiateWithFlags address out_null g iflags s = Some (e, out, s') \<Longrightarrow> graph_step s s'"
| instantiate_plain: "cudaGraphInstantiate address out_null g s = Some (e, out, s') \<Longrightarrow> graph_step s s'"
| update: "cudaGraphExecUpdate x g out_null s = Some (e, outx, s') \<Longrightarrow> graph_step s s'"
| exec_destroy: "cudaGraphExecDestroy x s = Some (e, outu, s') \<Longrightarrow> graph_step s s'"
| exec_kernel: "cudaGraphExecKernelNodeSetParams memory other x n kparams s = Some (e, outu, s') \<Longrightarrow> graph_step s s'"
| exec_memcpy: "cudaGraphExecMemcpyNodeSetParams x n cparams s = Some (e, outu, s') \<Longrightarrow> graph_step s s'"
| exec_memcpy_1d: "cudaGraphExecMemcpyNodeSetParams1D x n dst src count kind s = Some (e, outu, s') \<Longrightarrow> graph_step s s'"
| exec_memset: "cudaGraphExecMemsetNodeSetParams x n mparams s = Some (e, outu, s') \<Longrightarrow> graph_step s s'"
| exec_host: "cudaGraphExecHostNodeSetParams x n hparams s = Some (e, outu, s') \<Longrightarrow> graph_step s s'"
| launch: "calls_keep lc \<Longrightarrow> cudaGraphLaunch lc be x stream s = Some (e, outu, s') \<Longrightarrow> graph_step s s'"
| begin_capture: "gs_lifetimes s l = None \<Longrightarrow>
    cudaStreamBeginCapture be g l stream mode s = Some (e, outu, s') \<Longrightarrow> graph_step s s'"
| capture_memcpy: "new_address s (Some n) \<Longrightarrow>
    capture_memcpy_async be g n dst src count kind s = Some (e, outu, s') \<Longrightarrow> graph_step s s'"
| capture_memset: "new_address s (Some n) \<Longrightarrow>
    capture_memset_async be g n dst val count s = Some (e, outu, s') \<Longrightarrow> graph_step s s'"
| capture_kernel: "new_address s (Some n) \<Longrightarrow>
    capture_launch_kernel be memory other g n func grid block sh args s = Some (e, outu, s') \<Longrightarrow> graph_step s s'"
| capture_host: "new_address s (Some n) \<Longrightarrow>
    capture_launch_host_func g (Some n) func ud s = Some (e, outu, s') \<Longrightarrow> graph_step s s'"
| capture_library: "new_address s (Some n) \<Longrightarrow>
    capture_library_call stream (Some n) op s = Some (b, s') \<Longrightarrow> graph_step s s'"
| capture_malloc: "new_address s address \<Longrightarrow>
    capture_malloc_async be address a out_null g count s = Some (e, out, s') \<Longrightarrow> graph_step s s'"
| capture_free: "new_address s address \<Longrightarrow>
    capture_free_async address g dptr s = Some (e, outu, s') \<Longrightarrow> graph_step s s'"
| other: "frame s s' \<Longrightarrow> graph_step s s'"

definition no_graphs :: "graphs \<Rightarrow> bool" where
  "no_graphs s \<longleftrightarrow> gs_graphs s = Map.empty \<and> gs_execs s = Map.empty"

definition reachable_graphs :: "graphs \<Rightarrow> bool" where
  "reachable_graphs s \<longleftrightarrow> (\<exists>s0. no_graphs s0 \<and> graph_step\<^sup>*\<^sup>* s0 s)"

lemma new_addressD: "new_address s address \<Longrightarrow> address = Some n \<Longrightarrow> n \<noteq> 0 \<and> gs_nodes s n = None"
  unfolding new_address_def by simp

lemma graph_step_ok: "graph_step s s' \<Longrightarrow> graphs_ok s \<Longrightarrow> graphs_ok s'"
proof (induction rule: graph_step.induct)
  case (clone s l address g fresh out_null e out s')
  show ?case by (rule clone_ok [OF clone.prems clone.hyps(1) clone.hyps(2) clone.hyps(3) clone.hyps(4) clone.hyps(5)])
qed (blast intro: graphs_kept dest: new_addressD frame_ok)+

lemma reachable_ok:
  assumes "reachable_graphs s"
  shows "graphs_ok s"
proof -
  obtain s0 where s0: "no_graphs s0" "graph_step\<^sup>*\<^sup>* s0 s" using assms unfolding reachable_graphs_def by blast
  from s0(2) show ?thesis
  proof (induction rule: rtranclp_induct)
    case base
    show ?case using s0(1) by (simp add: no_graphs_def graphs_ok_def)
  next
    case (step t u)
    then show ?case using graph_step_ok by blast
  qed
qed

end
