(* ===== verification/Graphs.thy ===== *)
theory Graphs
  imports GraphInvariant
begin

text \<open>
  What holds of CUDA graphs: the correctness of instantiation, update, replay and release on the
  states that calls reach.
\<close>

section \<open>Instantiation\<close>

lemma reachable_order:
  "reachable_graphs s \<Longrightarrow> gs_graphs s g = Some gr \<Longrightarrow> topologically_order_graph s gr = Some (gr_nodes gr)"
proof -
  assume r: "reachable_graphs s" and g: "gs_graphs s g = Some gr"
  have "graph_ok s gr" by (rule graphs_okD(1) [OF reachable_ok [OF r] g])
  then show ?thesis by (simp add: graph_ok_def topologically_order_graph_def order_nodes_insertion)
qed

lemma index_of_the: "x \<in> set ys \<Longrightarrow> index_of ys x = Some (the (index_of ys x))"
  by (cases "index_of ys x") auto

lemma insertion_positions_below:
  assumes o: "in_insertion_order ns deps" and k: "k < length ns"
  shows "(\<lambda>d. the (index_of ns d)) ` set (deps (ns ! k)) = {j. j < k \<and> ns ! j \<in> set (deps (ns ! k))}"
proof -
  have d: "distinct ns" and t: "set (deps (ns ! k)) \<subseteq> set (take k ns)"
    using o k unfolding in_insertion_order_def by auto
  have ix: "\<exists>j < k. d = ns ! j \<and> index_of ns d = Some j" if "d \<in> set (deps (ns ! k))" for d
  proof -
    have "d \<in> set (take k ns)" using t that by blast
    then obtain j where "j < k" "ns ! j = d" using k by (auto simp: in_set_conv_nth)
    then show ?thesis using index_of_nth [OF d, of j] k by auto
  qed
  show ?thesis
  proof (intro equalityI subsetI)
    fix j assume "j \<in> (\<lambda>d. the (index_of ns d)) ` set (deps (ns ! k))"
    then show "j \<in> {j. j < k \<and> ns ! j \<in> set (deps (ns ! k))}" using ix by fastforce
  next
    fix j assume "j \<in> {j. j < k \<and> ns ! j \<in> set (deps (ns ! k))}"
    then show "j \<in> (\<lambda>d. the (index_of ns d)) ` set (deps (ns ! k))"
      using index_of_nth [OF d, of j] k by (auto intro!: image_eqI [where x = "ns ! j"])
  qed
qed

lemma positions_defined:
  assumes "set (deps_of s n) \<subseteq> set ord"
  shows "dependency_positions s ord n \<noteq> None"
proof -
  have "map (index_of ord) (deps_of s n) = map Some (map (\<lambda>d. the (index_of ord d)) (deps_of s n))"
    using assms by (auto intro: index_of_the)
  then have "those (map (index_of ord) (deps_of s n)) = Some (map (\<lambda>d. the (index_of ord d)) (deps_of s n))"
    by (simp only: those_map_Some)
  then show ?thesis by (simp add: dependency_positions_def)
qed

lemma those_defined: "(\<And>x. x \<in> set xs \<Longrightarrow> f x \<noteq> None) \<Longrightarrow> those (map f xs) = Some (map (the \<circ> f) xs)"
  by (auto simp: those_map_Some)

definition indices_exact :: "graphs \<Rightarrow> u64 list \<Rightarrow> nat list list \<Rightarrow> bool" where
  "indices_exact s ns dss \<longleftrightarrow> length dss = length ns \<and>
     (\<forall>k < length ns. sorted (dss ! k) \<and> set (dss ! k) = {j. j < k \<and> ns ! j \<in> set (deps_of s (ns ! k))})"

lemma reachable_positions:
  assumes r: "reachable_graphs s" and g: "gs_graphs s g = Some gr"
  obtains dss where "those (map (dependency_positions s (gr_nodes gr)) (gr_nodes gr)) = Some dss"
    "indices_exact s (gr_nodes gr) dss"
proof -
  let ?ns = "gr_nodes gr"
  have o: "in_insertion_order ?ns (deps_of s)" using graphs_okD(1) [OF reachable_ok [OF r] g] by (simp add: graph_ok_def)
  have "dependency_positions s ?ns n \<noteq> None" if "n \<in> set ?ns" for n
    using positions_defined [of s n ?ns] insertion_order_closed [OF o] that
    by (fastforce simp: closed_under_def list_all_iff)
  then have t: "those (map (dependency_positions s ?ns) ?ns) = Some (map (the \<circ> dependency_positions s ?ns) ?ns)"
    and some: "\<And>k. k < length ?ns \<Longrightarrow> dependency_positions s ?ns (?ns ! k) = Some (the (dependency_positions s ?ns (?ns ! k)))"
    by (auto intro!: those_defined)
  have "indices_exact s ?ns (map (the \<circ> dependency_positions s ?ns) ?ns)"
    using dependency_positions_Some [OF some] insertion_positions_below [OF o] by (simp add: indices_exact_def)
  with t that show ?thesis by blast
qed

text \<open>
  C26: in every state the calls reach, a graph lists each of its nodes once, after all the nodes it
  depends on, the nodes are live objects, no other graph has them, and the order of replay is the
  order in which the nodes were added.
\<close>

theorem graphs_invariant:
  assumes "reachable_graphs s" and "gs_graphs s g = Some gr"
  shows "distinct (gr_nodes gr) \<and> (\<forall>k < length (gr_nodes gr). set (deps_of s (gr_nodes gr ! k)) \<subseteq> set (take k (gr_nodes gr))) \<and>
    set (gr_nodes gr) \<subseteq> dom (gs_nodes s) \<and>
    (\<forall>g' gr'. gs_graphs s g' = Some gr' \<longrightarrow> g' \<noteq> g \<longrightarrow> set (gr_nodes gr') \<inter> set (gr_nodes gr) = {}) \<and>
    topologically_order_graph s gr = Some (gr_nodes gr)"
  using graphs_okD(1) [OF reachable_ok [OF assms(1)] assms(2)] graphs_okD(3) [OF reachable_ok [OF assms(1)] _ assms(2)]
    reachable_order [OF assms] by (simp add: graph_ok_def in_insertion_order_def)

text \<open>
  C27: instantiation of a graph that the calls reached succeeds whenever a new object can be made and
  the rule of one executable for graphs with memory nodes allows it.  The executable has a copy of
  every node in the order of the graph, and for each the sorted positions of exactly the nodes it
  depends on, all of them smaller; the count of executables grows by one for a graph with memory nodes.
\<close>

theorem instantiate_complete:
  assumes "reachable_graphs s" and "g \<noteq> 0" and "gs_graphs s g = Some gr" and "gs_lifetimes s (gr_lifetime gr) = Some l"
    and "\<not> (gl_contains_memory_nodes l \<and> gl_executable_instances l \<noteq> 0)"
  shows "\<exists>s' ex. cudaGraphInstantiate (Some e) False g s = Some (cudaSuccess, Some e, s') \<and> gs_execs s' e = Some ex \<and>
    ex_nodes ex = map (node_copy s) (gr_nodes gr) \<and> indices_exact s (gr_nodes gr) (ex_dependency_indices ex) \<and>
    ex_lifetime ex = gr_lifetime gr \<and>
    gs_lifetimes s' (gr_lifetime gr) = Some (if gl_contains_memory_nodes l
      then l\<lparr>gl_executable_instances := gl_executable_instances l + 1\<rparr> else l)"
proof -
  obtain dss where d: "those (map (dependency_positions s (gr_nodes gr)) (gr_nodes gr)) = Some dss"
    "indices_exact s (gr_nodes gr) dss" using reachable_positions [OF assms(1,3)] .
  have live: "\<not> list_ex (\<lambda>n. n \<noteq> 0 \<and> gs_nodes s n = None) (gr_nodes gr)"
    using graphs_okD(1) [OF reachable_ok [OF assms(1)] assms(3)] by (auto simp: graph_ok_def list_ex_iff)
  let ?l = "if gl_contains_memory_nodes l then l\<lparr>gl_executable_instances := gl_executable_instances l + 1\<rparr> else l"
  let ?ex = "replay_copy s (gr_nodes gr) dss (gr_lifetime gr)"
  let ?s = "s\<lparr>gs_execs := (gs_execs s)(e \<mapsto> ?ex), gs_lifetimes := (gs_lifetimes s)(gr_lifetime gr \<mapsto> ?l)\<rparr>"
  have "cudaGraphInstantiate (Some e) False g s = done_with cudaSuccess (Some e) (add_references (ex_nodes ?ex) ?s)"
    unfolding cudaGraphInstantiate_def using assms(2-) live d(1) reachable_order [OF assms(1,3)] by (auto simp: Let_def)
  moreover obtain s' where s': "done_with cudaSuccess (Some e) (add_references (ex_nodes ?ex) ?s) = Some (cudaSuccess, Some e, s')"
    by (simp add: done_with_def)
  moreover have "frame ?s s'" by (rule frame_trans [OF frame_add_references frame_done [OF s']])
  ultimately show ?thesis using d(2) by (auto simp: frame_def replay_copy_def)
qed

section \<open>Update\<close>

definition exec_shape :: "cudaGraphExec \<Rightarrow> cudaGraphNodeType list \<times> nat list list" where
  "exec_shape ex = (map gn_type (ex_nodes ex), ex_dependency_indices ex)"

lemma compare_nodes_exact:
  assumes "those (map (dependency_positions s ord) ns) = Some dss" "length ns = length vs"
  shows "compare_nodes s ord ns vs = Inr dss \<or>
    (\<exists>n. compare_nodes s ord ns vs = Inl (Some n)) \<and> map gn_type vs \<noteq> map (gn_type \<circ> the \<circ> gs_nodes s) ns"
  using assms
proof (induction s ord ns vs arbitrary: dss rule: compare_nodes.induct)
  case (1 s ord n ns v vs)
  then obtain ds dss' where d: "dependency_positions s ord n = Some ds" "dss = ds # dss'"
    "those (map (dependency_positions s ord) ns) = Some dss'"
    by (auto split: option.splits)
  show ?case
  proof (cases "gn_type (the (gs_nodes s n)) = gn_type v")
    case True
    from "1.IH" [OF _ d(1) d(3)] True "1.prems"(2) d show ?thesis by auto
  qed simp
qed (auto simp: those_map_Some)

lemma update_without_memory:
  assumes "reachable_graphs s" and "g \<noteq> 0" and "x \<noteq> 0" and "gs_graphs s g = Some gr"
    and "gs_lifetimes s (gr_lifetime gr) = Some l" and "\<not> gl_contains_memory_nodes l"
    and "gs_execs s x = Some ex"
    and "cudaGraphInstantiate (Some y) False g s = Some (cudaSuccess, Some y, t)" and "gs_execs t y = Some new"
  shows "\<exists>result node s'. cudaGraphExecUpdate x g False s = Some (cudaSuccess, Some (result, node), s') \<and>
    (result = cudaGraphExecUpdateSuccess \<longleftrightarrow> exec_shape ex = exec_shape new) \<and> result \<noteq> cudaGraphExecUpdateErrorNotSupported \<and>
    gs_execs s' x = Some (if result = cudaGraphExecUpdateSuccess
      then new\<lparr>ex_lifetime := ex_lifetime ex, ex_auto_free_on_launch := ex_auto_free_on_launch ex\<rparr> else ex)"
proof -
  let ?ns = "gr_nodes gr"
  obtain dss where d: "those (map (dependency_positions s ?ns) ?ns) = Some dss"
    "indices_exact s ?ns dss" using reachable_positions [OF assms(1,4)] .
  have live: "\<not> list_ex (\<lambda>n. n \<noteq> 0 \<and> gs_nodes s n = None) ?ns"
    using graphs_okD(1) [OF reachable_ok [OF assms(1)] assms(4)] by (auto simp: graph_ok_def list_ex_iff)
  note ord = reachable_order [OF assms(1,4)]
  let ?new = "replay_copy s ?ns dss (gr_lifetime gr)"
  let ?s = "s\<lparr>gs_execs := (gs_execs s)(y \<mapsto> ?new), gs_lifetimes := (gs_lifetimes s)(gr_lifetime gr \<mapsto> l)\<rparr>"
  have "done_with cudaSuccess (Some y) (add_references (ex_nodes ?new) ?s) = Some (cudaSuccess, Some y, t)"
    using assms(8) live d(1) ord assms(2,4-6) unfolding cudaGraphInstantiate_def by (simp add: Let_def)
  then have "frame ?s t" using frame_trans [OF frame_add_references frame_done] by blast
  then have new: "new = ?new" using assms(9) by (simp add: frame_def)
  have shape: "exec_shape new = (map (gn_type \<circ> the \<circ> gs_nodes s) ?ns, dss)"
    by (simp add: new exec_shape_def replay_copy_def node_copy_def)
  let ?ex = "ex\<lparr>ex_nodes := map (node_copy s) ?ns, ex_source_node_index := index_of ?ns, ex_dependency_indices := dss\<rparr>"
  let ?u = "drop_references (ex_nodes ex) (add_references (map (node_copy s) ?ns) (s\<lparr>gs_execs := (gs_execs s)(x \<mapsto> ?ex)\<rparr>))"
  have call: "cudaGraphExecUpdate x g False s =
      (if length ?ns \<noteq> length (ex_nodes ex)
       then done_with cudaSuccess (Some (cudaGraphExecUpdateErrorTopologyChanged, 0)) s
       else case compare_nodes s ?ns ?ns (ex_nodes ex) of
         Inl (Some n) \<Rightarrow> done_with cudaSuccess (Some (cudaGraphExecUpdateErrorNodeTypeChanged, n)) s
       | Inl None \<Rightarrow> done_with cudaErrorInvalidValue (Some (cudaGraphExecUpdateError, 0)) s
       | Inr dss' \<Rightarrow>
           if dss' \<noteq> ex_dependency_indices ex
           then done_with cudaSuccess (Some (cudaGraphExecUpdateErrorTopologyChanged, 0)) s
           else done_with cudaSuccess (Some (cudaGraphExecUpdateSuccess, 0))
             (drop_references (ex_nodes ex) (add_references (map (node_copy s) ?ns) (s\<lparr>gs_execs := (gs_execs s)
                (x \<mapsto> ex\<lparr>ex_nodes := map (node_copy s) ?ns, ex_source_node_index := index_of ?ns,
                   ex_dependency_indices := dss'\<rparr>)\<rparr>))))"
    unfolding cudaGraphExecUpdate_def using assms(2-7) live ord by (simp add: Let_def split: sum.split option.split)
  show ?thesis
  proof (cases "exec_shape ex = exec_shape new")
    case True
    then have l: "length (ex_nodes ex) = length ?ns" and t: "map gn_type (ex_nodes ex) = map (gn_type \<circ> the \<circ> gs_nodes s) ?ns"
      and i: "ex_dependency_indices ex = dss"
      unfolding shape by (auto simp: exec_shape_def dest: map_eq_imp_length_eq)
    have c: "compare_nodes s ?ns ?ns (ex_nodes ex) = Inr dss"
      using compare_nodes_exact [OF d(1), of "ex_nodes ex"] l t by auto
    obtain s' where s': "done_with cudaSuccess (Some (cudaGraphExecUpdateSuccess, 0 :: u64)) ?u =
        Some (cudaSuccess, Some (cudaGraphExecUpdateSuccess, 0), s')" by (simp add: done_with_def)
    have "frame (s\<lparr>gs_execs := (gs_execs s)(x \<mapsto> ?ex)\<rparr>) s'"
      by (rule frame_trans [OF frame_trans [OF frame_add_references frame_drop_references] frame_done [OF s']])
    then have "gs_execs s' x = Some ?ex" by (simp add: frame_def)
    moreover have "?ex = new\<lparr>ex_lifetime := ex_lifetime ex, ex_auto_free_on_launch := ex_auto_free_on_launch ex\<rparr>"
      by (simp add: new replay_copy_def)
    moreover have "cudaGraphExecUpdate x g False s = Some (cudaSuccess, Some (cudaGraphExecUpdateSuccess, 0), s')"
      using call l c i s' by simp
    ultimately show ?thesis using True by auto
  next
    case False
    have "\<exists>r n s'. cudaGraphExecUpdate x g False s = Some (cudaSuccess, Some (r, n), s') \<and>
        r \<noteq> cudaGraphExecUpdateSuccess \<and> r \<noteq> cudaGraphExecUpdateErrorNotSupported \<and> gs_execs s' x = Some ex"
    proof (cases "length ?ns = length (ex_nodes ex)")
      case True
      from compare_nodes_exact [OF d(1) True] show ?thesis
      proof (elim disjE conjE exE)
        assume c: "compare_nodes s ?ns ?ns (ex_nodes ex) = Inr dss"
        then have "ex_dependency_indices ex \<noteq> dss"
          using False compare_nodes_positions [OF c True] unfolding shape by (simp add: exec_shape_def)
        then show ?thesis using call True c assms(7) by (auto simp: done_with_def)
      next
        fix n assume "compare_nodes s ?ns ?ns (ex_nodes ex) = Inl (Some n)"
        then show ?thesis using call True assms(7) by (auto simp: done_with_def)
      qed
    qed (use call assms(7) in \<open>auto simp: done_with_def\<close>)
    with False show ?thesis by auto
  qed
qed

text \<open>
  C28: updating an executable with a graph agrees with instantiating the graph anew.  Take a graph that can be
  instantiated.  The update is accepted exactly when the flag of the graph for memory nodes, which the addition of such
  a node sets, is not set and the two executables have the same node types and dependencies in order, and then the
  updated executable has the nodes, source index and dependencies of the new one.  Otherwise the executable stays as it
  was; the result says that updates are not supported exactly when the flag is set.
\<close>

theorem exec_update_as_instantiate:
  assumes "reachable_graphs s" and "g \<noteq> 0" and "x \<noteq> 0" and "gs_graphs s g = Some gr"
    and "gs_lifetimes s (gr_lifetime gr) = Some l" and "gs_execs s x = Some ex"
    and "cudaGraphInstantiate (Some y) False g s = Some (cudaSuccess, Some y, t)" and "gs_execs t y = Some new"
  shows "\<exists>result node s'. cudaGraphExecUpdate x g False s = Some (cudaSuccess, Some (result, node), s') \<and>
    (result = cudaGraphExecUpdateSuccess \<longleftrightarrow> \<not> gl_contains_memory_nodes l \<and> exec_shape ex = exec_shape new) \<and>
    (result = cudaGraphExecUpdateErrorNotSupported \<longleftrightarrow> gl_contains_memory_nodes l) \<and>
    gs_execs s' x = Some (if result = cudaGraphExecUpdateSuccess
      then new\<lparr>ex_lifetime := ex_lifetime ex, ex_auto_free_on_launch := ex_auto_free_on_launch ex\<rparr> else ex)"
proof (cases "gl_contains_memory_nodes l")
  case True
  then have "cudaGraphExecUpdate x g False s = done_with cudaSuccess (Some (cudaGraphExecUpdateErrorNotSupported, 0)) s"
    using assms(2-5) by (simp add: cudaGraphExecUpdate_def)
  then show ?thesis using True assms(6) by (auto simp: done_with_def)
next
  case False
  from update_without_memory [OF assms(1-5) False assms(6-8)] False show ?thesis by auto
qed

section \<open>Sample states\<close>

definition sample_start :: graphs where
  "sample_start = \<lparr>gs_rt = sample_runtime, gs_registry = empty_registry, gs_arrays = Map.empty, gs_nodes = Map.empty,
     gs_graphs = Map.empty, gs_lifetimes = Map.empty, gs_execs = Map.empty, gs_objects = Map.empty,
     gs_captures = Map.empty, gs_uses = (\<lambda>_. 0), gs_free_placement = (\<lambda>_. kNone), gs_destroyed = []\<rparr>"

definition sample_host :: "u64 list \<Rightarrow> Node" where
  "sample_host ds = (new_node cudaGraphNodeTypeHost)\<lparr>gn_host_fn := 7, gn_dependencies := ds\<rparr>"

definition sample_lifetime :: GraphLifetimeState where
  "sample_lifetime = \<lparr>gl_contains_memory_nodes = False, gl_executable_instances = 0\<rparr>"

text \<open>A graph at 100 with the host nodes 1 and 2, the second after the first.\<close>

definition sample_graphs :: graphs where
  "sample_graphs = sample_start\<lparr>gs_nodes := [1 \<mapsto> sample_host [], 2 \<mapsto> sample_host [1]],
     gs_graphs := [100 \<mapsto> \<lparr>gr_nodes = [1, 2], gr_lifetime = 200, gr_user_objects = []\<rparr>],
     gs_lifetimes := [200 \<mapsto> sample_lifetime]\<rparr>"

lemma sample_graphs_reachable: "reachable_graphs sample_graphs"
proof -
  let ?s1 = "enter_graph 100 200 sample_start"
  let ?gr = "\<lambda>ns. \<lparr>gr_nodes = ns, gr_lifetime = 200, gr_user_objects = []\<rparr>"
  let ?s2 = "push_node 100 1 (?gr []) (sample_host []) ?s1"
  have rt: "set_last_error cudaSuccess sample_runtime = sample_runtime"
    by (simp add: set_last_error_def sample_runtime_def)
  have "cudaGraphCreate 100 200 False 0 sample_start = Some (cudaSuccess, Some 100, ?s1)"
    by (simp add: cudaGraphCreate_def done_with_def enter_graph_def sample_start_def rt)
  then have 1: "graph_step sample_start ?s1"
    by (rule graph_step.create [rotated]) (simp add: sample_start_def)
  have "cudaGraphAddHostNode 1 False 100 None 0 (Some \<lparr>hn_fn = 7, hn_userData = 0\<rparr>) ?s1 = Some (cudaSuccess, Some 1, ?s2)"
    by (simp add: cudaGraphAddHostNode_def add_node_def done_with_def enter_graph_def new_graph_def sample_start_def rt
        assign_graph_dependencies_def push_node_def sample_host_def new_node_def)
  then have 2: "graph_step ?s1 ?s2"
    by (rule graph_step.add_host [rotated]) (simp add: sample_start_def new_address_def enter_graph_def)
  have "cudaGraphAddHostNode 2 False 100 (Some [1]) 1 (Some \<lparr>hn_fn = 7, hn_userData = 0\<rparr>) ?s2 =
      Some (cudaSuccess, Some 2, sample_graphs)"
    by (simp add: cudaGraphAddHostNode_def add_node_def done_with_def enter_graph_def new_graph_def sample_start_def rt
        assign_graph_dependencies_def push_node_def sample_host_def new_node_def graph_contains_node_def
        sample_graphs_def sample_lifetime_def)
  then have 3: "graph_step ?s2 sample_graphs"
    by (rule graph_step.add_host [rotated]) (simp add: sample_start_def new_address_def enter_graph_def push_node_def)
  have "no_graphs sample_start" by (simp add: no_graphs_def sample_start_def)
  moreover have "graph_step\<^sup>*\<^sup>* sample_start sample_graphs"
    using 1 2 3 by (meson rtranclp.rtrancl_refl rtranclp.rtrancl_into_rtrancl)
  ultimately show ?thesis unfolding reachable_graphs_def by blast
qed

lemma sample_parts:
  "gs_graphs sample_graphs 100 = Some \<lparr>gr_nodes = [1, 2], gr_lifetime = 200, gr_user_objects = []\<rparr>"
  "gs_lifetimes sample_graphs 200 = Some sample_lifetime"
  "deps_of sample_graphs 1 = []" "deps_of sample_graphs 2 = [1]" "gs_nodes sample_graphs 1 \<noteq> None"
  by (simp_all add: sample_graphs_def deps_of_def sample_host_def new_node_def)

theorem graphs_invariant_witness:
  "topologically_order_graph sample_graphs \<lparr>gr_nodes = [1, 2], gr_lifetime = 200, gr_user_objects = []\<rparr> = Some [1, 2]"
  using graphs_invariant [OF sample_graphs_reachable sample_parts(1)] by simp

theorem instantiate_complete_witness:
  "\<exists>s' ex. cudaGraphInstantiate (Some 300) False 100 sample_graphs = Some (cudaSuccess, Some 300, s') \<and>
     gs_execs s' 300 = Some ex \<and> map gn_type (ex_nodes ex) = [cudaGraphNodeTypeHost, cudaGraphNodeTypeHost] \<and>
     set (ex_dependency_indices ex ! 1) = {0}"
proof -
  have l: "gs_lifetimes sample_graphs (gr_lifetime \<lparr>gr_nodes = [1, 2], gr_lifetime = 200, gr_user_objects = []\<rparr>) = Some sample_lifetime"
    by (simp add: sample_parts)
  have m: "\<not> (gl_contains_memory_nodes sample_lifetime \<and> gl_executable_instances sample_lifetime \<noteq> 0)"
    by (simp add: sample_lifetime_def)
  obtain s' ex where *: "cudaGraphInstantiate (Some 300) False 100 sample_graphs = Some (cudaSuccess, Some 300, s')"
    "gs_execs s' 300 = Some ex" "ex_nodes ex = map (node_copy sample_graphs) [1, 2]"
    "indices_exact sample_graphs [1, 2] (ex_dependency_indices ex)"
    using instantiate_complete [OF sample_graphs_reachable _ sample_parts(1) l m, of 300] by auto
  have k: "1 < length [1, 2 :: u64]" by simp
  note *(4) [unfolded indices_exact_def, THEN conjunct2, rule_format, OF k, THEN conjunct2]
  also have "{j. j < 1 \<and> [1, 2] ! j \<in> set (deps_of sample_graphs ([1, 2] ! 1))} = {0 :: nat}"
    by (auto simp: sample_parts)
  finally have "set (ex_dependency_indices ex ! 1) = {0}" .
  with * show ?thesis
    by (auto simp: node_copy_def sample_graphs_def sample_host_def new_node_def)
qed

text \<open>An executable of the graph whose second node does not depend on the first.\<close>

definition sample_exec :: "nat list \<Rightarrow> cudaGraphExec" where
  "sample_exec ds = \<lparr>ex_nodes = [sample_host [], sample_host []], ex_source_node_index = index_of [1, 2],
     ex_dependency_indices = [[], ds], ex_lifetime = 200, ex_auto_free_on_launch = False\<rparr>"

abbreviation sample_with :: "(u64 \<Rightarrow> cudaGraphExec option) \<Rightarrow> graphs" where
  "sample_with m \<equiv> sample_graphs\<lparr>gs_execs := m\<rparr>"

lemma sample_instantiated:
  "cudaGraphInstantiate (Some y) False 100 (sample_with m) =
     Some (cudaSuccess, Some y, sample_with (m(y \<mapsto> sample_exec [0])))"
proof -
  let ?s = "sample_with m" and ?gr = "\<lparr>gr_nodes = [1, 2], gr_lifetime = 200, gr_user_objects = []\<rparr>"
  have d: "deps_of ?s = deps_of sample_graphs" by (simp add: deps_of_def fun_eq_iff)
  have "in_insertion_order [1, 2] (deps_of ?s)"
    by (auto simp: in_insertion_order_def d sample_parts less_Suc_eq)
  then have o: "topologically_order_graph ?s ?gr = Some [1, 2]"
    by (simp add: topologically_order_graph_def order_nodes_insertion)
  have p: "map (dependency_positions ?s [1, 2]) [1, 2] = [Some [], Some [0]]"
    by (simp add: dependency_positions_def d sample_parts)
  have n: "gs_nodes ?s 1 = Some (sample_host [])" "gs_nodes ?s 2 = Some (sample_host [1])"
    by (simp_all add: sample_graphs_def)
  have r: "replay_copy ?s [1, 2] [[], [0]] 200 = sample_exec [0]"
    by (simp add: replay_copy_def sample_exec_def node_copy_def sample_graphs_def sample_host_def new_node_def)
  have a: "add_references (ex_nodes (sample_exec [0])) t = t" for t
    by (simp add: add_references_def sample_exec_def sample_host_def new_node_def add_reference_def)
  have l: "(gs_lifetimes ?s)(200 \<mapsto> sample_lifetime) = gs_lifetimes ?s" by (simp add: sample_graphs_def fun_eq_iff)
  have g: "gs_graphs ?s 100 = Some ?gr" "gs_lifetimes ?s 200 = Some sample_lifetime"
    by (simp_all add: sample_graphs_def)
  have "cudaGraphInstantiate (Some y) False 100 ?s = done_with cudaSuccess (Some y)
      (?s\<lparr>gs_execs := m(y \<mapsto> sample_exec [0]), gs_lifetimes := (gs_lifetimes ?s)(200 \<mapsto> sample_lifetime)\<rparr>)"
    unfolding cudaGraphInstantiate_def using g n o p r a by (simp add: Let_def sample_lifetime_def)
  also have "\<dots> = Some (cudaSuccess, Some y, sample_with (m(y \<mapsto> sample_exec [0])))"
    unfolding l by (simp add: done_with_def sample_graphs_def sample_start_def set_last_error_def sample_runtime_def)
  finally show ?thesis .
qed

lemma sample_graphs_execs: "sample_with Map.empty = sample_graphs"
  by (simp add: sample_graphs_def sample_start_def)

lemma sample_exec_reachable: "reachable_graphs (sample_with [300 \<mapsto> sample_exec [0]])"
proof -
  have "graph_step sample_graphs (sample_with [300 \<mapsto> sample_exec [0]])"
    using sample_instantiated [of 300 Map.empty, unfolded sample_graphs_execs] by (rule graph_step.instantiate_plain)
  then show ?thesis using sample_graphs_reachable unfolding reachable_graphs_def by (meson rtranclp.rtrancl_into_rtrancl)
qed

theorem exec_update_as_instantiate_witness:
  "\<exists>node s'. cudaGraphExecUpdate 300 100 False (sample_with [300 \<mapsto> sample_exec [0]]) =
       Some (cudaSuccess, Some (cudaGraphExecUpdateSuccess, node), s') \<and> gs_execs s' 300 = Some (sample_exec [0])"
proof -
  let ?s = "sample_with [300 \<mapsto> sample_exec [0]]" and ?gr = "\<lparr>gr_nodes = [1, 2], gr_lifetime = 200, gr_user_objects = []\<rparr>"
  have parts: "gs_graphs ?s 100 = Some ?gr" "gs_lifetimes ?s (gr_lifetime ?gr) = Some sample_lifetime"
    "gs_execs ?s 300 = Some (sample_exec [0])"
    "gs_execs (sample_with ((gs_execs ?s)(301 \<mapsto> sample_exec [0]))) 301 = Some (sample_exec [0])"
    by (simp_all add: sample_graphs_def sample_lifetime_def)
  have i: "cudaGraphInstantiate (Some 301) False 100 ?s =
      Some (cudaSuccess, Some 301, sample_with ((gs_execs ?s)(301 \<mapsto> sample_exec [0])))"
    using sample_instantiated [of 301 "[300 \<mapsto> sample_exec [0]]"] by simp
  from exec_update_as_instantiate [OF sample_exec_reachable _ _ parts(1-3) i parts(4)]
  show ?thesis by (auto simp: sample_exec_def sample_lifetime_def)
qed

end
