(* ===== verification/GraphRelease.thy ===== *)
theory GraphRelease
  imports Graphs
begin

text \<open>
  Memory in CUDA graphs: a node that frees an address comes after the node that allocates it on a
  chain of dependencies, and a replay that frees automatically leaves no allocation behind.
\<close>

section \<open>The search for the allocation node\<close>

definition dep_edges :: "graphs \<Rightarrow> u64 set \<Rightarrow> (u64 \<times> u64) set" where
  "dep_edges s visited = {(n, d). d \<in> set (deps_of s n) \<and> n \<notin> visited}"

lemma reach_split:
  "(a, t) \<in> (dep_edges s V)\<^sup>* \<Longrightarrow>
     (a, t) \<in> (dep_edges s (insert n V))\<^sup>* \<or> (\<exists>m \<in> set (deps_of s n). (m, t) \<in> (dep_edges s (insert n V))\<^sup>*)"
proof (induction rule: converse_rtrancl_induct)
  case (step a b)
  then have ab: "b \<in> set (deps_of s a)" "a \<notin> V" by (auto simp: dep_edges_def)
  show ?case
  proof (cases "a = n")
    case True
    with step.IH ab show ?thesis by blast
  next
    case False
    then have "(a, b) \<in> dep_edges s (insert n V)" using ab by (simp add: dep_edges_def)
    with step.IH show ?thesis by (blast intro: converse_rtrancl_into_rtrancl)
  qed
qed simp

lemma reach_mono: "(a, t) \<in> (dep_edges s (insert n V))\<^sup>* \<Longrightarrow> (a, t) \<in> (dep_edges s V)\<^sup>*"
  by (erule rev_subsetD) (rule rtrancl_mono, auto simp: dep_edges_def)

lemma reach_visited: "n \<in> V \<Longrightarrow> (n, t) \<in> (dep_edges s V)\<^sup>* \<longleftrightarrow> n = t"
  by (auto elim: converse_rtranclE simp: dep_edges_def)

lemma reach_step:
  assumes "n \<notin> V" "n \<noteq> t"
  shows "(\<exists>m \<in> insert n S. (m, t) \<in> (dep_edges s V)\<^sup>*) \<longleftrightarrow>
    (\<exists>m \<in> set (deps_of s n) \<union> S. (m, t) \<in> (dep_edges s (insert n V))\<^sup>*)"
proof
  assume "\<exists>m \<in> insert n S. (m, t) \<in> (dep_edges s V)\<^sup>*"
  then obtain m where m: "m \<in> insert n S" "(m, t) \<in> (dep_edges s V)\<^sup>*" by blast
  from reach_split [OF m(2), of n] show "\<exists>m \<in> set (deps_of s n) \<union> S. (m, t) \<in> (dep_edges s (insert n V))\<^sup>*"
    using m(1) assms(2) reach_visited [of n "insert n V" t s] by auto
next
  assume "\<exists>m \<in> set (deps_of s n) \<union> S. (m, t) \<in> (dep_edges s (insert n V))\<^sup>*"
  then obtain m where m: "m \<in> set (deps_of s n) \<union> S" "(m, t) \<in> (dep_edges s V)\<^sup>*" using reach_mono by blast
  moreover have "(n, t) \<in> (dep_edges s V)\<^sup>*" if "m \<in> set (deps_of s n)"
    using that m(2) assms(1) by (auto simp: dep_edges_def intro: converse_rtrancl_into_rtrancl)
  ultimately show "\<exists>m \<in> insert n S. (m, t) \<in> (dep_edges s V)\<^sup>*" by blast
qed

lemma reaches_allocation_correct:
  assumes "0 \<notin> set U" "\<And>n. n \<in> set U \<Longrightarrow> set (deps_of s n) \<subseteq> set U"
  shows "set stack \<subseteq> set U \<Longrightarrow> reaches_allocation s U (Some t) visited stack =
    Some (\<exists>n \<in> set stack. (n, t) \<in> (dep_edges s (set visited))\<^sup>*)"
  using assms
proof (induction s U "Some t" visited stack rule: reaches_allocation.induct)
  case (2 s U visited n stack)
  show ?case
  proof (cases "n = t")
    case False
    have n: "n \<noteq> 0" "n \<in> set U" using "2.prems" by auto
    show ?thesis
    proof (cases "n \<in> set visited")
      case True
      then show ?thesis using "2.hyps"(1) "2.prems" False by (simp add: reach_visited)
    next
      case new: False
      have "set (deps_of s n @ stack) \<subseteq> set U" using "2.prems" n(2) by auto
      then show ?thesis
        using "2.hyps"(2) "2.prems"(2,3) False new n reach_step [OF new False, of "set stack" s] by simp
    qed
  qed simp
qed simp

section \<open>Nodes that free\<close>

lemma ordered_after_correct:
  assumes "0 \<notin> set (gr_nodes gr)" "\<And>n. n \<in> set (gr_nodes gr) \<Longrightarrow> set (deps_of s n) \<subseteq> set (gr_nodes gr)"
  shows "ordered_after s gr (Some t) found ds =
    Some (if set ds \<subseteq> set (gr_nodes gr) then Inr (found \<or> (\<exists>d \<in> set ds. (d, t) \<in> (dep_edges s {})\<^sup>*)) else Inl ())"
proof (induction ds arbitrary: found)
  case (Cons d ds)
  show ?case
  proof (cases "d \<in> set (gr_nodes gr)")
    case True
    then have c: "graph_contains_node gr d" using assms(1) by (auto simp: graph_contains_node_def)
    have "reaches_allocation s (gr_nodes gr) (Some t) [] [d] = Some ((d, t) \<in> (dep_edges s {})\<^sup>*)"
      using reaches_allocation_correct [OF assms(1) assms(2), of "[d]" t "[]"] True by simp
    then show ?thesis using Cons.IH c True by (simp add: disj_assoc)
  qed (simp add: graph_contains_node_def)
qed simp

lemma assign_loop_iff:
  assumes "0 \<notin> set (gr_nodes gr)" "self \<notin> set (gr_nodes gr)"
  shows "assign_loop gr self acc ds =
    (if set ds \<subseteq> set (gr_nodes gr) \<and> distinct ds \<and> set acc \<inter> set ds = {} then Some (acc @ ds) else None)"
  using assms by (induction gr self acc ds rule: assign_loop.induct) (auto simp: graph_contains_node_def)

text \<open>
  C29: a node that frees an address which a node of the same graph allocates is accepted exactly when
  no node of the graph frees the address already, the dependencies are distinct nodes of the graph, one
  of them is the allocation node or depends on it, through any number of nodes, and the free placement of the
  allocation is still unset (a flag that the first free node for it sets, in whatever graph, and that stays set when
  that graph is destroyed).  Then the call sets it to the owning graph, and the new node depends on the
  allocation node, so every order of replay frees after it allocates.
\<close>

theorem mem_free_ordered:
  assumes "reachable_graphs s" and "g \<noteq> 0" and "gs_graphs s g = Some gr" and "dptr \<noteq> 0"
    and "owning_node s dptr gr = Some m" and "n \<noteq> 0" and "gs_nodes s n = None" and "ds = take (unat c) xs"
  shows "\<exists>status out s'. cudaGraphAddMemFreeNode (Some n) False g (Some xs) c dptr s = Some (status, out, s') \<and>
    (status = cudaSuccess \<longleftrightarrow>
       (\<forall>f \<in> set (gr_nodes gr). \<not> frees_address s dptr f) \<and> set ds \<subseteq> set (gr_nodes gr) \<and> distinct ds \<and>
       (\<exists>d \<in> set ds. (m, d) \<in> (dependency_edges (gr_nodes gr) (deps_of s))\<^sup>*) \<and>
       gs_free_placement s (the (gn_graph_allocation (the (gs_nodes s m)))) = kNone) \<and>
    (status = cudaSuccess \<longrightarrow> (m, n) \<in> (dependency_edges (gr_nodes gr @ [n]) (deps_of s'))\<^sup>+ \<and>
       gs_free_placement s' (the (gn_graph_allocation (the (gs_nodes s m)))) = kOwningGraph)"
proof -
  note gk = graphs_okD(1) [OF reachable_ok [OF assms(1)] assms(3), unfolded graph_ok_def]
  have o: "in_insertion_order (gr_nodes gr) (deps_of s)" using gk by blast
  have closed: "set (deps_of s x) \<subseteq> set (gr_nodes gr)" if "x \<in> set (gr_nodes gr)" for x
    using insertion_order_closed [OF o] that by (auto simp: closed_under_def list_all_iff)
  have z: "0 \<notin> set (gr_nodes gr)" "n \<notin> set (gr_nodes gr)" using gk assms(7) by (auto simp: domIff)
  have m: "owns_address s dptr m" using assms(5) unfolding owning_node_def by (auto simp: find_Some_iff)
  then obtain v a where v: "gs_nodes s m = Some v" "gn_graph_allocation v = Some a"
    unfolding owns_address_def by (auto split: option.splits)
  have edges: "(d, m) \<in> (dep_edges s {})\<^sup>* \<longleftrightarrow> (m, d) \<in> (dependency_edges (gr_nodes gr) (deps_of s))\<^sup>*"
    if d: "d \<in> set (gr_nodes gr)" for d
  proof
    assume "(d, m) \<in> (dep_edges s {})\<^sup>*"
    then show "(m, d) \<in> (dependency_edges (gr_nodes gr) (deps_of s))\<^sup>*"
      using d
    proof (induction rule: converse_rtrancl_induct)
      case (step x y)
      then have "(y, x) \<in> dependency_edges (gr_nodes gr) (deps_of s)" "y \<in> set (gr_nodes gr)"
        using closed by (auto simp: dep_edges_def dependency_edges_def)
      with step.IH show ?case by (blast intro: rtrancl_into_rtrancl)
    qed simp
  next
    assume "(m, d) \<in> (dependency_edges (gr_nodes gr) (deps_of s))\<^sup>*"
    then show "(d, m) \<in> (dep_edges s {})\<^sup>*"
      by (induction rule: rtrancl_induct)
        (auto simp: dep_edges_def dependency_edges_def intro: converse_rtrancl_into_rtrancl)
  qed
  let ?path = "\<exists>d \<in> set ds. (m, d) \<in> (dependency_edges (gr_nodes gr) (deps_of s))\<^sup>*"
  have after: "ordered_after s gr (Some m) False ds = Some (if set ds \<subseteq> set (gr_nodes gr) then Inr ?path else Inl ())"
    using ordered_after_correct [OF z(1) closed, of m False ds] edges by auto
  have assign: "assign_graph_dependencies gr n (Some xs) c =
      (if set ds \<subseteq> set (gr_nodes gr) \<and> distinct ds then Some ds else None)"
    unfolding assign_graph_dependencies_def using assign_loop_iff [OF z, of "[]" ds] assms(8) by simp
  let ?node = "(new_node cudaGraphNodeTypeMemFree)\<lparr>gn_graph_free_ptr := dptr, gn_graph_allocation := Some a, gn_dependencies := ds\<rparr>"
  let ?s = "push_node g n gr ?node (mark_memory gr (add_reference (Some a)
      (s\<lparr>gs_free_placement := (gs_free_placement s)(a := kOwningGraph)\<rparr>)))"
  have call: "cudaGraphAddMemFreeNode (Some n) False g (Some xs) c dptr s =
      (if (\<exists>f \<in> set (gr_nodes gr). frees_address s dptr f) \<or> \<not> set ds \<subseteq> set (gr_nodes gr) \<or> \<not> ?path \<or> \<not> distinct ds \<or>
          gs_free_placement s a \<noteq> kNone
       then invalid_value s else done_with cudaSuccess (Some n) ?s)"
    unfolding cudaGraphAddMemFreeNode_def Let_def
    using assms(2-5,8) v after assign by (auto simp: list_ex_iff)
  have path: "(m, n) \<in> (dependency_edges (gr_nodes gr @ [n]) (deps_of s'))\<^sup>+"
    if p: ?path and s': "done_with cudaSuccess (Some n) ?s = Some (status, out, s')" for status out s'
  proof -
    have "deps_of s' = deps_of ?s" by (rule frame_deps [OF frame_done [OF s']])
    also have "\<dots> = (deps_of s)(n := ds)"
      using frame_add [of _ "Some a"] by (auto simp: deps_of_def push_node_def fun_eq_iff frame_def)
    finally have deps: "deps_of s' = (deps_of s)(n := ds)" .
    have "dependency_edges (gr_nodes gr) (deps_of s) \<subseteq> dependency_edges (gr_nodes gr @ [n]) (deps_of s')"
      using z(2) by (auto simp: deps dependency_edges_def)
    then have "(m, d) \<in> (dependency_edges (gr_nodes gr @ [n]) (deps_of s'))\<^sup>*"
      if "(m, d) \<in> (dependency_edges (gr_nodes gr) (deps_of s))\<^sup>*" for d
      using that rtrancl_mono by blast
    moreover have "(d, n) \<in> dependency_edges (gr_nodes gr @ [n]) (deps_of s')" if "d \<in> set ds" for d
      using that by (simp add: deps dependency_edges_def)
    ultimately show ?thesis using p by (blast intro: rtrancl_into_trancl1)
  qed
  have set: "gs_free_placement s' a = kOwningGraph" if s': "done_with cudaSuccess (Some n) ?s = Some (status, out, s')" for status out s'
    using s' by (auto simp: done_with_def push_node_def mark_memory_def add_reference_def split: option.splits)
  show ?thesis
    using call path set v by (auto simp: done_with_def)
qed

section \<open>Automatic release\<close>

lemma deactivate_active:
  assumes "deactivate_graph_allocation (Some a) rt = (cudaSuccess, rt')"
  shows "graph_objects rt' b = (if b = a then map_option (\<lambda>ga. ga\<lparr>ga_active := False\<rparr>) (graph_objects rt a) else graph_objects rt b)"
  using assms unfolding deactivate_graph_allocation_def by (auto split: option.splits if_splits)

lemma auto_free_releases:
  "auto_free seen vs s = (cudaSuccess, s') \<Longrightarrow> \<forall>a \<in> set seen. \<not> allocation_active a s \<Longrightarrow>
     (\<forall>a. \<not> allocation_active a s \<longrightarrow> \<not> allocation_active a s') \<and>
     (\<forall>v \<in> set vs. gn_type v = cudaGraphNodeTypeMemAlloc \<longrightarrow>
        (\<forall>a. gn_graph_allocation v = Some a \<longrightarrow> \<not> allocation_active a s'))"
proof (induction seen vs s rule: auto_free.induct)
  case (2 seen v vs s)
  show ?case
  proof (cases "gn_type v = cudaGraphNodeTypeMemAlloc \<and> gn_graph_allocation v \<noteq> None")
    case False
    then show ?thesis using "2.IH"(1,2) "2.prems" by (auto split: option.splits)
  next
    case True
    then obtain a where a: "gn_type v = cudaGraphNodeTypeMemAlloc" "gn_graph_allocation v = Some a" by auto
    consider "a \<in> set seen" | "a \<notin> set seen" "\<not> allocation_active a s" | "a \<notin> set seen" "allocation_active a s" by blast
    then show ?thesis
    proof cases
      case 1
      then show ?thesis using "2.IH"(3) [of a] "2.prems" a by auto
    next
      case 2
      then show ?thesis using "2.IH"(5) [of a] "2.prems" a by auto
    next
      case 3
      obtain e rt where d: "deactivate_graph_allocation (Some a) (gs_rt s) = (e, rt)" by fastforce
      let ?t = "s\<lparr>gs_rt := rt\<rparr>"
      have w: "with_runtime (deactivate_graph_allocation (Some a) (gs_rt s)) s = (e, ?t)" by (simp add: d with_runtime_def)
      have e: "e = cudaSuccess" "auto_free (a # seen) vs ?t = (cudaSuccess, s')"
        using "2.prems"(1) a 3 w by (auto split: if_splits)
      have t: "allocation_active b ?t \<longleftrightarrow> allocation_active b s \<and> b \<noteq> a" for b
        using deactivate_active [of a "gs_rt s" rt b] d e(1) by (auto simp: allocation_active_def split: option.splits)
      have "\<forall>b \<in> set (a # seen). \<not> allocation_active b ?t" using "2.prems"(2) t by auto
      from "2.IH"(4) [OF _ a(2) 3(1) 3(2) w [symmetric]] this e a t show ?thesis by auto
    qed
  qed
qed simp

text \<open>
  C30: a successful launch of an executable that was instantiated with automatic release leaves none of
  the allocations of its allocation nodes active, whatever its operations did and in whatever order the
  nodes ran, also when some node freed them before.
\<close>

theorem launch_releases:
  assumes "cudaGraphLaunch lc be x stream s = Some (cudaSuccess, out, s')" and "gs_execs s x = Some ex"
    and "ex_auto_free_on_launch ex" and "v \<in> set (ex_nodes ex)" and "gn_type v = cudaGraphNodeTypeMemAlloc"
    and "gn_graph_allocation v = Some a"
  shows "\<not> allocation_active a s'"
proof -
  obtain err s1 where r: "run_nodes lc be stream (ex_nodes ex) s = (err, s1)" by fastforce
  obtain err' s2 where f: "auto_free [] (ex_nodes ex) s1 = (err', s2)" by fastforce
  have *: "err = cudaSuccess" "err' = cudaSuccess" "s' = s2\<lparr>gs_rt := set_last_error cudaSuccess (gs_rt s2)\<rparr>"
    using assms(1-3) r f unfolding cudaGraphLaunch_def done_with_def by (auto split: if_splits)
  have "\<not> allocation_active a s2" using auto_free_releases [of "[]" "ex_nodes ex" s1 s2] f *(2) assms(4-6) by auto
  then show ?thesis using *(3) by (simp add: allocation_active_def set_last_error_def)
qed

section \<open>Sample states with memory\<close>

definition sample_allocation :: GraphAllocationState where
  "sample_allocation = \<lparr>ga_buffer = Some 7, ga_base = 4096, ga_alias = 0, ga_size = 64, ga_active = False,
     ga_reserved = True\<rparr>"

definition sample_memory_node :: Node where
  "sample_memory_node = (new_node cudaGraphNodeTypeMemAlloc)\<lparr>gn_pool_props := Some (an_poolProps (default_alloc_params 64)),
     gn_graph_allocation := Some 0\<rparr>"

definition sample_memory_backend :: backend where
  "sample_memory_backend = sample_backend\<lparr>be_init := cudaSuccess, be_alloc := (\<lambda>_. (cudaSuccess, Some 7)),
     be_contents := (\<lambda>_. 4096), be_device_address := (\<lambda>_. 0), be_env_addresses := None\<rparr>"

text \<open>A graph at 100 whose only node, 5, allocates 64 bytes at 4096.\<close>

definition sample_memory :: graphs where
  "sample_memory = sample_start\<lparr>gs_nodes := [5 \<mapsto> sample_memory_node],
     gs_graphs := [100 \<mapsto> \<lparr>gr_nodes = [5], gr_lifetime = 200, gr_user_objects = []\<rparr>],
     gs_lifetimes := [200 \<mapsto> \<lparr>gl_contains_memory_nodes = True, gl_executable_instances = 0\<rparr>],
     gs_rt := sample_runtime\<lparr>graph_objects := [0 \<mapsto> sample_allocation], graph_allocations := [4096 \<mapsto> 0],
       graph_reserved_current := 64, graph_reserved_high := 64\<rparr>,
     gs_uses := (\<lambda>_. 0)(0 := 1)\<rparr>"

lemma sample_memory_reachable: "reachable_graphs sample_memory"
proof -
  let ?s1 = "enter_graph 100 200 sample_start"
  have rt: "set_last_error cudaSuccess sample_runtime = sample_runtime"
    by (simp add: set_last_error_def sample_runtime_def)
  have "cudaGraphCreate 100 200 False 0 sample_start = Some (cudaSuccess, Some 100, ?s1)"
    by (simp add: cudaGraphCreate_def done_with_def enter_graph_def sample_start_def rt)
  then have 1: "graph_step sample_start ?s1"
    by (rule graph_step.create [rotated]) (simp add: sample_start_def)
  have "cudaGraphAddMemAllocNode sample_memory_backend (Some 5) 0 False 100 None 0 (Some (default_alloc_params 64)) ?s1 =
      Some (cudaSuccess, Some (5, 4096), sample_memory)"
    by (simp add: cudaGraphAddMemAllocNode_def done_with_def enter_graph_def new_graph_def sample_start_def
        sample_memory_backend_def default_alloc_params_def pool_ok_def assign_graph_dependencies_def push_node_def
        enter_allocation_def sample_runtime_def mark_memory_def use_metal_device_addresses_def Let_def
        sample_memory_def sample_memory_node_def sample_allocation_def new_node_def set_last_error_def fun_eq_iff)
  then have 2: "graph_step ?s1 sample_memory"
    by (rule graph_step.add_alloc [rotated]) (simp add: sample_start_def new_address_def enter_graph_def)
  have "no_graphs sample_start" by (simp add: no_graphs_def sample_start_def)
  moreover have "graph_step\<^sup>*\<^sup>* sample_start sample_memory"
    using 1 2 by (meson rtranclp.rtrancl_refl rtranclp.rtrancl_into_rtrancl)
  ultimately show ?thesis unfolding reachable_graphs_def by blast
qed

theorem mem_free_ordered_witness:
  "\<exists>out s'. cudaGraphAddMemFreeNode (Some 6) False 100 (Some [5]) 1 4096 sample_memory = Some (cudaSuccess, out, s') \<and>
     (5, 6) \<in> (dependency_edges [5, 6] (deps_of s'))\<^sup>+"
proof -
  let ?gr = "\<lparr>gr_nodes = [5], gr_lifetime = 200, gr_user_objects = []\<rparr>"
  have p: "gs_graphs sample_memory 100 = Some ?gr" "owning_node sample_memory 4096 ?gr = Some 5"
    "gs_nodes sample_memory 6 = None" "[5 :: u64] = take (unat (1 :: u64)) [5]"
    by (simp_all add: sample_memory_def owning_node_def owns_address_def sample_memory_node_def new_node_def
        sample_allocation_def)
  have f: "\<not> frees_address sample_memory 4096 5"
    by (simp add: frees_address_def sample_memory_def sample_memory_node_def new_node_def)
  have k: "gs_free_placement sample_memory (the (gn_graph_allocation (the (gs_nodes sample_memory 5)))) = kNone"
    by (simp add: sample_memory_def sample_start_def)
  from mem_free_ordered [OF sample_memory_reachable _ p(1) _ p(2) _ p(3) p(4)] f k show ?thesis by auto
qed

definition sample_calls :: launch_calls where
  "sample_calls = \<lparr>lc_library = (\<lambda>_ _ s. (cudaSuccess, s)), lc_kernel = (\<lambda>_ _ s. (cudaSuccess, s)),
     lc_memcpy_3d = (\<lambda>_ _ s. (cudaSuccess, s)), lc_memcpy = (\<lambda>_ _ _ _ _ s. (cudaSuccess, s)),
     lc_memset = (\<lambda>_ _ _ _ s. (cudaSuccess, s)), lc_fill = (\<lambda>_ _ _ _ s. (cudaSuccess, s)),
     lc_synchronize = (\<lambda>_ s. (cudaSuccess, s)), lc_host = (\<lambda>_ _ s. s)\<rparr>"

theorem launch_releases_witness:
  "\<exists>s'. cudaGraphLaunch sample_calls sample_memory_backend 300 0 (sample_memory\<lparr>gs_execs := [300 \<mapsto>
       (replay_copy sample_memory [5] [[]] 200)\<lparr>ex_auto_free_on_launch := True\<rparr>]\<rparr>) = Some (cudaSuccess, None, s') \<and>
     \<not> allocation_active 0 s'"
proof -
  let ?ex = "(replay_copy sample_memory [5] [[]] 200)\<lparr>ex_auto_free_on_launch := True\<rparr>"
  let ?s = "sample_memory\<lparr>gs_execs := [300 \<mapsto> ?ex]\<rparr>"
  have n: "ex_nodes ?ex = [sample_memory_node]"
    by (simp add: replay_copy_def node_copy_def sample_memory_def sample_memory_node_def new_node_def)
  have "\<exists>s'. cudaGraphLaunch sample_calls sample_memory_backend 300 0 ?s = Some (cudaSuccess, None, s')"
    using n by (simp add: cudaGraphLaunch_def run_node_def sample_memory_node_def new_node_def with_runtime_def
        activate_graph_allocation_def deactivate_graph_allocation_def sample_memory_def sample_allocation_def
        sample_runtime_def sample_start_def allocation_active_def done_with_def Let_def
        table_insert_def table_erase_def below_def from_key_def)
  then obtain s' where s': "cudaGraphLaunch sample_calls sample_memory_backend 300 0 ?s = Some (cudaSuccess, None, s')" ..
  have "\<not> allocation_active 0 s'"
    by (rule launch_releases [OF s', of ?ex sample_memory_node]) (simp_all add: n sample_memory_node_def new_node_def)
  with s' show ?thesis by blast
qed

end
