(* ===== verification/GraphUserObjects.thy ===== *)
theory GraphUserObjects
  imports GraphRelease
begin

text \<open>
  Reference counts of the user objects of CUDA graphs: \<open>c\<close> gives the references that the program holds
  itself, beside those its graphs hold.  A program that gives back no more than it has, and keeps each
  count below \<open>2 ^ 32\<close>, never sees a count that differs from the references that exist.
\<close>

section \<open>References\<close>

definition count_refs :: "u64 \<Rightarrow> (u64 \<times> u32) list \<Rightarrow> nat" where
  "count_refs obj hs = sum_list (map (\<lambda>h. if fst h = obj then unat (snd h) else 0) hs)"

definition user_objects_of :: "graphs \<Rightarrow> u64 \<Rightarrow> (u64 \<times> u32) list" where
  "user_objects_of s g = (case gs_graphs s g of None \<Rightarrow> [] | Some gr \<Rightarrow> gr_user_objects gr)"

definition graph_refs :: "graphs \<Rightarrow> u64 \<Rightarrow> nat" where
  "graph_refs s obj = (\<Sum>g \<in> UNIV. count_refs obj (user_objects_of s g))"

definition held_ok :: "(u64 \<times> u32) list \<Rightarrow> bool" where
  "held_ok hs \<longleftrightarrow> distinct (map fst hs) \<and> list_all (\<lambda>h. fst h \<noteq> 0 \<and> snd h \<noteq> 0) hs"

definition objects_ok :: "graphs \<Rightarrow> (u64 \<Rightarrow> nat) \<Rightarrow> bool" where
  "objects_ok s c \<longleftrightarrow> (\<forall>g. held_ok (user_objects_of s g)) \<and>
     (\<forall>obj. c obj + graph_refs s obj = (case gs_objects s obj of None \<Rightarrow> 0 | Some u \<Rightarrow> unat (uo_refcount u))) \<and>
     (\<forall>obj u. gs_objects s obj = Some u \<longrightarrow> uo_refcount u \<noteq> 0)"

lemma objects_okD:
  "objects_ok s c \<Longrightarrow> held_ok (user_objects_of s g)"
  "objects_ok s c \<Longrightarrow> c obj + graph_refs s obj = (case gs_objects s obj of None \<Rightarrow> 0 | Some u \<Rightarrow> unat (uo_refcount u))"
  "objects_ok s c \<Longrightarrow> gs_objects s obj = Some u \<Longrightarrow> uo_refcount u \<noteq> 0"
  unfolding objects_ok_def by blast+

lemma count_refs_simps [simp]:
  "count_refs obj [] = 0"
  "count_refs obj (h # hs) = (if fst h = obj then unat (snd h) else 0) + count_refs obj hs"
  unfolding count_refs_def by simp_all

lemma count_refs_absent: "obj \<notin> fst ` set hs \<Longrightarrow> count_refs obj hs = 0"
  by (induction hs) auto

lemma count_refs_member: "h \<in> set hs \<Longrightarrow> unat (snd h) \<le> count_refs (fst h) hs"
  by (induction hs) auto

text \<open>Changing the list of one graph.\<close>

lemma graph_refs_update:
  assumes "user_objects_of s' = (user_objects_of s)(g := hs)"
  shows "graph_refs s' obj + count_refs obj (user_objects_of s g) = graph_refs s obj + count_refs obj hs"
proof -
  have "graph_refs s' obj = count_refs obj hs + (\<Sum>x \<in> UNIV - {g}. count_refs obj (user_objects_of s x))"
    unfolding graph_refs_def assms by (subst sum.remove [of _ g]) auto
  moreover have "graph_refs s obj = count_refs obj (user_objects_of s g) +
      (\<Sum>x \<in> UNIV - {g}. count_refs obj (user_objects_of s x))"
    unfolding graph_refs_def by (subst sum.remove [of _ g]) auto
  ultimately show ?thesis by simp
qed

lemma graph_refs_ge: "count_refs obj (user_objects_of s g) \<le> graph_refs s obj"
  unfolding graph_refs_def by (rule member_le_sum) auto

lemma graph_refs_cong: "user_objects_of s' = user_objects_of s \<Longrightarrow> graph_refs s' obj = graph_refs s obj"
  unfolding graph_refs_def by simp

lemma hold_object_refs:
  "held_ok hs \<Longrightarrow> obj \<noteq> 0 \<Longrightarrow> k \<noteq> 0 \<Longrightarrow> count_refs obj hs + unat k < 2 ^ 32 \<Longrightarrow>
     held_ok (hold_object obj k hs) \<and> fst ` set (hold_object obj k hs) = insert obj (fst ` set hs) \<and>
     count_refs x (hold_object obj k hs) = count_refs x hs + (if x = obj then unat k else 0)"
proof (induction hs)
  case (Cons h hs)
  show ?case
  proof (cases "fst h = obj")
    case True
    then have "obj \<notin> fst ` set hs" using Cons.prems(1) by (auto simp: held_ok_def)
    moreover have sum: "unat (snd h + k) = unat (snd h) + unat k"
      using True Cons.prems(4) by (intro unat_add_lem [THEN iffD1]) simp
    moreover have "snd h + k \<noteq> 0"
    proof
      assume "snd h + k = 0"
      then have "unat (snd h) + unat k = 0" using sum by (simp only: unat_0)
      then have "unat k = 0" by (simp only: add_is_0)
      then show False using Cons.prems(3) by (simp only: unat_eq_0)
    qed
    ultimately show ?thesis using Cons.prems True by (auto simp: held_ok_def)
  next
    case False
    have "held_ok hs" "count_refs obj hs + unat k < 2 ^ 32" using Cons.prems False by (auto simp: held_ok_def)
    from Cons.IH [OF this(1) Cons.prems(2,3) this(2)] show ?thesis
      using Cons.prems(1) False by (auto simp: held_ok_def)
  qed
qed (auto simp: held_ok_def)

lemma release_held_refs:
  "release_held obj k hs = Some hs' \<Longrightarrow> held_ok hs \<Longrightarrow>
     held_ok hs' \<and> fst ` set hs' \<subseteq> fst ` set hs \<and> unat k \<le> count_refs obj hs \<and>
     count_refs x hs' = count_refs x hs - (if x = obj then unat k else 0)"
proof (induction hs arbitrary: hs')
  case (Cons h hs)
  show ?case
  proof (cases "fst h = obj")
    case False
    then obtain hs1 where r: "release_held obj k hs = Some hs1" "hs' = h # hs1" using Cons.prems(1) by auto
    have "held_ok hs" using Cons.prems(2) by (simp add: held_ok_def)
    with Cons.IH [OF r(1)] Cons.prems(2) False r(2) show ?thesis by (auto simp: held_ok_def)
  next
    case True
    then have k: "k \<le> snd h" and hs': "hs' = (if snd h - k = 0 then hs else (obj, snd h - k) # hs)"
      using Cons.prems(1) by (auto split: if_splits simp: not_less)
    have "obj \<notin> fst ` set hs" using Cons.prems(2) True by (auto simp: held_ok_def)
    moreover have "unat (snd h - k) = unat (snd h) - unat k" "unat k \<le> unat (snd h)"
      using k by (simp_all add: unat_sub word_le_nat_alt)
    moreover from this have "snd h - k = 0 \<Longrightarrow> unat (snd h) = unat k" by (simp add: unat_eq_0 [symmetric])
    ultimately show ?thesis
      using Cons.prems(2) True hs' count_refs_absent [of obj hs] by (auto simp: held_ok_def)
  qed
qed simp

section \<open>Releases\<close>

lemma release_user_object_refs:
  assumes ok: "objects_ok s c" and k: "obj \<noteq> 0" "k \<noteq> 0" "unat k \<le> c obj"
  shows "\<exists>s'. release_user_object obj k s = Some (True, s') \<and> objects_ok s' (c(obj := c obj - unat k)) \<and>
    gs_graphs s' = gs_graphs s"
proof -
  have pos: "unat k \<noteq> 0" using k(2) by (simp add: unat_eq_0)
  with objects_okD(2) [OF ok, of obj] k obtain u where u: "gs_objects s obj = Some u"
    "c obj + graph_refs s obj = unat (uo_refcount u)"
    by (cases "gs_objects s obj") auto
  have le: "k \<le> uo_refcount u" using u(2) k(3) by (simp add: word_le_nat_alt)
  have sub: "unat (uo_refcount u - k) = unat (uo_refcount u) - unat k" using le by (rule unat_sub)
  show ?thesis
  proof (cases "uo_refcount u - k = 0")
    case True
    then have zero: "unat (uo_refcount u) \<le> unat k" using sub by simp
    let ?s = "s\<lparr>gs_objects := (gs_objects s)(obj := None),
       gs_destroyed := gs_destroyed s @ (if uo_destroy u \<noteq> 0 then [(uo_destroy u, uo_ptr u)] else [])\<rparr>"
    have uo: "user_objects_of ?s = user_objects_of s" by (simp add: user_objects_of_def fun_eq_iff)
    have r: "release_user_object obj k s = Some (True, ?s)"
      unfolding release_user_object_def using k u(1) le True by (auto simp: not_less)
    have "objects_ok ?s (c(obj := c obj - unat k))"
      using ok zero u k(3) unfolding objects_ok_def by (auto simp: uo graph_refs_cong [OF uo])
    then show ?thesis using r by auto
  next
    case False
    let ?s = "s\<lparr>gs_objects := (gs_objects s)(obj \<mapsto> u\<lparr>uo_refcount := uo_refcount u - k\<rparr>)\<rparr>"
    have uo: "user_objects_of ?s = user_objects_of s" by (simp add: user_objects_of_def fun_eq_iff)
    have r: "release_user_object obj k s = Some (True, ?s)"
      unfolding release_user_object_def using k u(1) le False by (auto simp: not_less)
    have "objects_ok ?s (c(obj := c obj - unat k))"
      using ok sub u k(3) False unfolding objects_ok_def by (auto simp: uo graph_refs_cong [OF uo])
    then show ?thesis using r by auto
  qed
qed

text \<open>A list of references the program holds is released one by one.\<close>

lemma release_objects_refs:
  "objects_ok s (\<lambda>obj. c obj + count_refs obj hs) \<Longrightarrow> list_all (\<lambda>h. fst h \<noteq> 0 \<and> snd h \<noteq> 0) hs \<Longrightarrow>
     \<exists>s'. release_objects hs s = Some s' \<and> objects_ok s' c \<and> gs_graphs s' = gs_graphs s"
proof (induction hs arbitrary: s)
  case (Cons h hs)
  let ?c = "\<lambda>obj. c obj + count_refs obj (h # hs)"
  have "unat (snd h) \<le> ?c (fst h)" by simp
  from release_user_object_refs [OF Cons.prems(1) _ _ this] Cons.prems(2) obtain s1 where
    s1: "release_user_object (fst h) (snd h) s = Some (True, s1)"
      "objects_ok s1 (?c(fst h := ?c (fst h) - unat (snd h)))" "gs_graphs s1 = gs_graphs s" by auto
  have "?c(fst h := ?c (fst h) - unat (snd h)) = (\<lambda>obj. c obj + count_refs obj hs)" by (auto simp: fun_eq_iff)
  with Cons.IH [of s1] s1 Cons.prems(2) show ?case by auto
qed simp

section \<open>Calls\<close>

definition no_overflow :: "graphs \<Rightarrow> u64 \<Rightarrow> u32 \<Rightarrow> bool" where
  "no_overflow s obj k \<longleftrightarrow> (case gs_objects s obj of None \<Rightarrow> True | Some u \<Rightarrow> unat (uo_refcount u) + unat k < 2 ^ 32)"

definition gained :: "cudaError \<Rightarrow> u64 \<Rightarrow> nat \<Rightarrow> (u64 \<Rightarrow> nat) \<Rightarrow> u64 \<Rightarrow> nat" where
  "gained e obj k c = (if e = cudaSuccess then c(obj := c obj + k) else c)"

definition given :: "cudaError \<Rightarrow> u64 \<Rightarrow> nat \<Rightarrow> (u64 \<Rightarrow> nat) \<Rightarrow> u64 \<Rightarrow> nat" where
  "given e obj k c = (if e = cudaSuccess then c(obj := c obj - k) else c)"

text \<open>
  The calls, with the change of the references the program holds.  The move flag hands references of
  the program to the graph; \<open>quiet\<close> is any call that leaves objects and the lists of graphs alone.
\<close>

inductive object_step :: "graphs \<times> (u64 \<Rightarrow> nat) \<Rightarrow> graphs \<times> (u64 \<Rightarrow> nat) \<Rightarrow> bool" where
  create: "gs_objects s obj = None \<Longrightarrow> obj \<noteq> 0 \<Longrightarrow>
    cudaUserObjectCreate obj out_null ptr d r flags s = Some (e, out, s') \<Longrightarrow>
    object_step (s, c) (s', gained e obj (unat r) c)"
| retain: "no_overflow s obj k \<Longrightarrow> cudaUserObjectRetain obj k s = Some (e, outu, s') \<Longrightarrow>
    object_step (s, c) (s', gained e obj (unat k) c)"
| release: "unat k \<le> c obj \<Longrightarrow> cudaUserObjectRelease obj k s = Some (e, outu, s') \<Longrightarrow>
    object_step (s, c) (s', given e obj (unat k) c)"
| graph_retain: "no_overflow s obj k \<Longrightarrow> gs_objects s obj \<noteq> None \<Longrightarrow> flags \<noteq> 1 \<Longrightarrow>
    cudaGraphRetainUserObject g obj k flags s = Some (e, outu, s') \<Longrightarrow> object_step (s, c) (s', c)"
| graph_move: "unat k \<le> c obj \<Longrightarrow> cudaGraphRetainUserObject g obj k 1 s = Some (e, outu, s') \<Longrightarrow>
    object_step (s, c) (s', given e obj (unat k) c)"
| graph_release: "cudaGraphReleaseUserObject g obj k s = Some (e, outu, s') \<Longrightarrow> object_step (s, c) (s', c)"
| destroy: "cudaGraphDestroy g s = Some (e, outu, s') \<Longrightarrow> object_step (s, c) (s', c)"
| quiet: "gs_objects s' = gs_objects s \<Longrightarrow> user_objects_of s' = user_objects_of s \<Longrightarrow> object_step (s, c) (s', c)"

lemma objects_ok_cong:
  "objects_ok s c \<Longrightarrow> gs_objects s' = gs_objects s \<Longrightarrow> user_objects_of s' = user_objects_of s \<Longrightarrow> objects_ok s' c"
  unfolding objects_ok_def graph_refs_def by simp

lemma done_objects:
  "done_with e out s = Some (e', out', s') \<Longrightarrow> e' = e \<and> gs_objects s' = gs_objects s \<and> user_objects_of s' = user_objects_of s"
  unfolding done_with_def by (auto simp: user_objects_of_def fun_eq_iff)

lemma objects_ok_done:
  "done_with e out s = Some (e', out', s') \<Longrightarrow> objects_ok s c \<Longrightarrow> objects_ok s' c"
  by (rule objects_ok_cong [OF _ done_objects [THEN conjunct2, THEN conjunct1] done_objects [THEN conjunct2, THEN conjunct2]])

lemma drop_objects: "gs_objects (drop_reference a s) = gs_objects s" "gs_graphs (drop_reference a s) = gs_graphs s"
  unfolding drop_reference_def by (auto simp: Let_def split: option.split)

lemma delete_objects: "delete_nodes ns s = Some s' \<Longrightarrow> gs_objects s' = gs_objects s \<and> gs_graphs s' = gs_graphs s"
  by (induction ns arbitrary: s) (auto simp: drop_objects split: if_splits option.splits)

text \<open>More references in the count and in one holder: the program or a graph.\<close>

lemma objects_ok_gain:
  assumes ok: "objects_ok s c" and u: "gs_objects s obj = Some u" "unat (uo_refcount u) + unat k < 2 ^ 32"
    and s': "gs_objects s' = (gs_objects s)(obj \<mapsto> u\<lparr>uo_refcount := uo_refcount u + k\<rparr>)"
      "user_objects_of s' = user_objects_of s"
  shows "objects_ok s' (c(obj := c obj + unat k))"
proof -
  have sum: "unat (uo_refcount u + k) = unat (uo_refcount u) + unat k" using u(2) by (intro unat_add_lem [THEN iffD1]) simp
  have "unat (uo_refcount u) \<noteq> 0" using objects_okD(3) [OF ok u(1)] by (simp only: unat_eq_0 not_False_eq_True)
  then have "unat (uo_refcount u + k) \<noteq> 0" unfolding sum by simp
  then have nz: "uo_refcount u + k \<noteq> 0" by (metis unat_0)
  show ?thesis
    unfolding objects_ok_def
  proof (intro conjI allI impI)
    fix x show "(c(obj := c obj + unat k)) x + graph_refs s' x =
        (case gs_objects s' x of None \<Rightarrow> 0 | Some u \<Rightarrow> unat (uo_refcount u))"
      using objects_okD(2) [OF ok, of x] u(1) by (cases "x = obj") (simp_all add: s' sum graph_refs_cong [OF s'(2)])
  next
    fix x v assume "gs_objects s' x = Some v"
    then show "uo_refcount v \<noteq> 0" using nz objects_okD(3) [OF ok] by (auto simp: s'(1) split: if_splits)
  qed (use objects_okD(1) [OF ok] s'(2) in simp)
qed

lemma objects_ok_move:
  assumes ok: "objects_ok s c" and g: "gs_graphs s g = Some gr" and k: "obj \<noteq> 0" "k \<noteq> 0" "unat k \<le> c obj"
  shows "objects_ok (set_user_objects g gr (hold_object obj k (gr_user_objects gr)) s) (c(obj := c obj - unat k))"
proof -
  let ?hs = "hold_object obj k (gr_user_objects gr)" and ?t = "set_user_objects g gr (hold_object obj k (gr_user_objects gr)) s"
  have uo: "user_objects_of s g = gr_user_objects gr" using g by (simp add: user_objects_of_def)
  have "unat k \<noteq> 0" using k(2) by (simp only: unat_eq_0 not_False_eq_True)
  with objects_okD(2) [OF ok, of obj] k(3) obtain u where u: "gs_objects s obj = Some u"
    "c obj + graph_refs s obj = unat (uo_refcount u)" by (cases "gs_objects s obj") auto
  have "unat (uo_refcount u) < 2 ^ 32" using unsigned_less [of "uo_refcount u"] by simp
  then have bound: "count_refs obj (gr_user_objects gr) + unat k < 2 ^ 32"
    using graph_refs_ge [of obj s g, unfolded uo] u(2) k(3) by linarith
  note h = hold_object_refs [OF objects_okD(1) [OF ok, of g, unfolded uo] k(1,2) bound]
  have t: "user_objects_of ?t = (user_objects_of s)(g := ?hs)" "gs_objects ?t = gs_objects s"
    by (simp_all add: set_user_objects_def user_objects_of_def fun_eq_iff)
  have refs: "graph_refs ?t x = graph_refs s x + (if x = obj then unat k else 0)" for x
    using graph_refs_update [OF t(1), of x] h [of x] uo by simp
  show ?thesis
    unfolding objects_ok_def
  proof (intro conjI allI impI)
    fix x show "held_ok (user_objects_of ?t x)" using objects_okD(1) [OF ok] h t(1) by simp
  next
    fix x show "(c(obj := c obj - unat k)) x + graph_refs ?t x =
        (case gs_objects ?t x of None \<Rightarrow> 0 | Some u \<Rightarrow> unat (uo_refcount u))"
      using objects_okD(2) [OF ok, of x] k(3) by (cases "x = obj") (simp_all add: refs t(2))
  qed (use objects_okD(3) [OF ok] t(2) in simp)
qed

lemma objects_ok_take:
  assumes ok: "objects_ok s c" and g: "gs_graphs s g = Some gr" and r: "release_held obj k (gr_user_objects gr) = Some hs"
  shows "objects_ok (set_user_objects g gr hs s) (c(obj := c obj + unat k))"
proof -
  let ?t = "set_user_objects g gr hs s"
  have uo: "user_objects_of s g = gr_user_objects gr" using g by (simp add: user_objects_of_def)
  note h = release_held_refs [OF r objects_okD(1) [OF ok, of g, unfolded uo]]
  have t: "user_objects_of ?t = (user_objects_of s)(g := hs)" "gs_objects ?t = gs_objects s"
    by (simp_all add: set_user_objects_def user_objects_of_def fun_eq_iff)
  have refs: "graph_refs ?t x + (if x = obj then unat k else 0) = graph_refs s x" for x
    using graph_refs_update [OF t(1), of x] h [of x] uo graph_refs_ge [of x s g] by auto
  show ?thesis
    unfolding objects_ok_def
  proof (intro conjI allI impI)
    fix x show "held_ok (user_objects_of ?t x)" using objects_okD(1) [OF ok] h t(1) by simp
  next
    fix x show "(c(obj := c obj + unat k)) x + graph_refs ?t x =
        (case gs_objects ?t x of None \<Rightarrow> 0 | Some u \<Rightarrow> unat (uo_refcount u))"
      using objects_okD(2) [OF ok, of x] refs [of x] by (cases "x = obj") (simp_all add: t(2))
  qed (use objects_okD(3) [OF ok] t(2) in simp)
qed

lemma destroy_objects_ok:
  assumes ok: "objects_ok s c" and g: "gs_graphs s g = Some gr"
  shows "objects_ok (s\<lparr>gs_graphs := (gs_graphs s)(g := None)\<rparr>) (\<lambda>obj. c obj + count_refs obj (gr_user_objects gr))"
proof -
  let ?t = "s\<lparr>gs_graphs := (gs_graphs s)(g := None)\<rparr>"
  have uo: "user_objects_of s g = gr_user_objects gr" using g by (simp add: user_objects_of_def)
  have t: "user_objects_of ?t = (user_objects_of s)(g := [])" by (simp add: user_objects_of_def fun_eq_iff)
  have refs: "graph_refs ?t x + count_refs x (gr_user_objects gr) = graph_refs s x" for x
    using graph_refs_update [OF t, of x] uo by simp
  show ?thesis
    unfolding objects_ok_def
  proof (intro conjI allI impI)
    fix x show "held_ok (user_objects_of ?t x)" using objects_okD(1) [OF ok] t by (simp add: held_ok_def)
  next
    fix x show "c x + count_refs x (gr_user_objects gr) + graph_refs ?t x =
        (case gs_objects ?t x of None \<Rightarrow> 0 | Some u \<Rightarrow> unat (uo_refcount u))"
      using objects_okD(2) [OF ok, of x] refs [of x] by simp
  qed (use objects_okD(3) [OF ok] in simp)
qed

lemma create_objects_ok:
  assumes ok: "objects_ok s c" and new: "gs_objects s obj = None" "r \<noteq> 0"
  shows "objects_ok (s\<lparr>gs_objects := (gs_objects s)(obj \<mapsto> \<lparr>uo_ptr = ptr, uo_destroy = d, uo_refcount = r\<rparr>)\<rparr>)
    (c(obj := c obj + unat r))"
proof -
  let ?t = "s\<lparr>gs_objects := (gs_objects s)(obj \<mapsto> \<lparr>uo_ptr = ptr, uo_destroy = d, uo_refcount = r\<rparr>)\<rparr>"
  have t: "user_objects_of ?t = user_objects_of s" by (simp add: user_objects_of_def fun_eq_iff)
  have zero: "c obj = 0" "graph_refs s obj = 0" using objects_okD(2) [OF ok, of obj] new(1) by simp_all
  show ?thesis
    unfolding objects_ok_def
  proof (intro conjI allI impI)
    fix x show "held_ok (user_objects_of ?t x)" using objects_okD(1) [OF ok] t by simp
  next
    fix x show "(c(obj := c obj + unat r)) x + graph_refs ?t x =
        (case gs_objects ?t x of None \<Rightarrow> 0 | Some u \<Rightarrow> unat (uo_refcount u))"
      using objects_okD(2) [OF ok, of x] zero by (cases "x = obj") (simp_all add: graph_refs_cong [OF t])
  next
    fix x v assume "gs_objects ?t x = Some v"
    then show "uo_refcount v \<noteq> 0" using new(2) objects_okD(3) [OF ok] by (auto split: if_splits)
  qed
qed

lemma retain_ok:
  assumes ok: "objects_ok s c" and n: "no_overflow s obj k" and r: "retain_user_object obj k s = Some s'"
  shows "objects_ok s' (c(obj := c obj + unat k))" "gs_graphs s' = gs_graphs s"
proof -
  obtain u where u: "gs_objects s obj = Some u" "s' = s\<lparr>gs_objects := (gs_objects s)(obj \<mapsto> u\<lparr>uo_refcount := uo_refcount u + k\<rparr>)\<rparr>"
    using r unfolding retain_user_object_def by (auto split: option.splits)
  then have "unat (uo_refcount u) + unat k < 2 ^ 32" using n unfolding no_overflow_def by simp
  from objects_ok_gain [OF ok u(1) this, of s'] u(2)
  show "objects_ok s' (c(obj := c obj + unat k))" by (simp add: user_objects_of_def fun_eq_iff)
  show "gs_graphs s' = gs_graphs s" using u(2) by simp
qed

lemma release_cases:
  assumes ok: "objects_ok s c" and k: "unat k \<le> c obj" and r: "release_user_object obj k s = Some (b, s')"
  shows "b \<and> objects_ok s' (c(obj := c obj - unat k)) \<or> \<not> b \<and> s' = s"
proof (cases "obj = 0 \<or> k = 0")
  case True
  then show ?thesis using r unfolding release_user_object_def by simp
next
  case False
  then show ?thesis using release_user_object_refs [OF ok _ _ k] r by auto
qed

lemma object_step_ok: "object_step p q \<Longrightarrow> objects_ok (fst p) (snd p) \<Longrightarrow> objects_ok (fst q) (snd q)"
proof (induction rule: object_step.induct)
  case (create s obj out_null ptr d r flags e out s' c)
  then show ?case
    using create_objects_ok [of s c obj r ptr d] unfolding cudaUserObjectCreate_def gained_def
    by (auto split: if_splits dest: done_objects [THEN conjunct1] elim: objects_ok_done)
next
  case (retain s obj k e outu s' c)
  then show ?case
    using retain_ok [of s c obj k] unfolding cudaUserObjectRetain_def gained_def
    by (auto split: if_splits option.splits dest: done_objects [THEN conjunct1] elim: objects_ok_done)
next
  case (release k c obj s e outu s')
  then obtain b s1 where r: "release_user_object obj k s = Some (b, s1)"
    "done_with (if b then cudaSuccess else cudaErrorInvalidValue) None s1 = Some (e, outu, s')"
    unfolding cudaUserObjectRelease_def by (auto split: option.splits if_splits)
  then have "e = (if b then cudaSuccess else cudaErrorInvalidValue)" using done_objects by blast
  then show ?case
    using release_cases [OF release.prems [simplified] release.hyps(1) r(1)] objects_ok_done [OF r(2)] release.prems
    by (auto simp: given_def)
next
  case (graph_retain s obj k flags g e outu s' c)
  from graph_retain.hyps(4) consider (err) e' where "done_with e' None s = Some (e, outu, s')"
    | (ok) s1 gr where "obj \<noteq> 0" "k \<noteq> 0" "retain_user_object obj k s = Some s1" "gs_graphs s1 g = Some gr"
        "done_with cudaSuccess None (set_user_objects g gr (hold_object obj k (gr_user_objects gr)) s1) = Some (e, outu, s')"
    using graph_retain.hyps(3) unfolding cudaGraphRetainUserObject_def by (auto split: if_splits option.splits)
  then show ?case
  proof cases
    case err
    then show ?thesis using graph_retain.prems objects_ok_done by simp
  next
    case ok
    note r = retain_ok [OF graph_retain.prems [simplified] graph_retain.hyps(1) ok(3)]
    have "objects_ok (set_user_objects g gr (hold_object obj k (gr_user_objects gr)) s1)
        ((c(obj := c obj + unat k))(obj := (c(obj := c obj + unat k)) obj - unat k))"
      by (rule objects_ok_move [OF r(1) ok(4) ok(1,2)]) simp
    then show ?thesis using objects_ok_done [OF ok(5)] by simp
  qed
next
  case (graph_move k c obj g s e outu s')
  from graph_move.hyps(2) consider (err) "done_with cudaErrorInvalidValue None s = Some (e, outu, s')"
    | (ok) gr where "obj \<noteq> 0" "k \<noteq> 0" "gs_graphs s g = Some gr"
        "done_with cudaSuccess None (set_user_objects g gr (hold_object obj k (gr_user_objects gr)) s) = Some (e, outu, s')"
    unfolding cudaGraphRetainUserObject_def by (auto split: if_splits option.splits)
  then show ?case
  proof cases
    case err
    then show ?thesis using graph_move.prems objects_ok_done [OF err] done_objects [OF err] by (simp add: given_def)
  next
    case ok
    then show ?thesis
      using objects_ok_move [where c = c, OF _ ok(3,1,2) graph_move.hyps(1)] graph_move.prems objects_ok_done [OF ok(4)]
        done_objects [OF ok(4)] by (simp add: given_def fun_upd_def)
  qed
next
  case (graph_release g obj k s e outu s' c)
  from graph_release.hyps consider (err) e' where "done_with e' None s = Some (e, outu, s')"
    | (ok) gr hs b s1 e' where "gs_graphs s g = Some gr" "obj \<noteq> 0" "k \<noteq> 0" "release_held obj k (gr_user_objects gr) = Some hs"
        "release_user_object obj k (set_user_objects g gr hs s) = Some (b, s1)" "done_with e' None s1 = Some (e, outu, s')"
    unfolding cudaGraphReleaseUserObject_def by (auto split: if_splits option.splits prod.splits)
  then show ?case
  proof cases
    case err
    then show ?thesis using graph_release.prems objects_ok_done by simp
  next
    case ok
    have t: "objects_ok (set_user_objects g gr hs s) (c(obj := c obj + unat k))"
      by (rule objects_ok_take [OF _ ok(1,4)]) (use graph_release.prems in simp)
    have "objects_ok s1 ((c(obj := c obj + unat k))(obj := (c(obj := c obj + unat k)) obj - unat k))"
      using release_user_object_refs [OF t ok(2,3)] ok(5) by auto
    then show ?thesis using objects_ok_done [OF ok(6)] by simp
  qed
next
  case (destroy g s e outu s' c)
  from destroy.hyps consider (err) e' where "done_with e' None s = Some (e, outu, s')"
    | (ok) gr s1 s2 where "gs_graphs s g = Some gr"
        "delete_nodes (gr_nodes gr) (s\<lparr>gs_graphs := (gs_graphs s)(g := None)\<rparr>) = Some s1"
        "release_objects (gr_user_objects gr) s1 = Some s2" "done_with cudaSuccess None s2 = Some (e, outu, s')"
    unfolding cudaGraphDestroy_def by (auto split: if_splits option.splits)
  then show ?case
  proof cases
    case err
    then show ?thesis using destroy.prems objects_ok_done by simp
  next
    case ok
    have "objects_ok s1 (\<lambda>obj. c obj + count_refs obj (gr_user_objects gr))"
      using objects_ok_cong [OF destroy_objects_ok [OF _ ok(1), of c]] delete_objects [OF ok(2)] destroy.prems
      by (simp add: user_objects_of_def fun_eq_iff)
    moreover have "list_all (\<lambda>h. fst h \<noteq> 0 \<and> snd h \<noteq> 0) (gr_user_objects gr)"
      using objects_okD(1) [of s c g] destroy.prems ok(1) by (simp add: user_objects_of_def held_ok_def)
    ultimately have "objects_ok s2 c" using release_objects_refs ok(3) by fastforce
    then show ?thesis using objects_ok_done [OF ok(4)] by simp
  qed
next
  case (quiet s' s c)
  then show ?case using objects_ok_cong by simp
qed

definition reachable_objects :: "graphs \<Rightarrow> (u64 \<Rightarrow> nat) \<Rightarrow> bool" where
  "reachable_objects s c \<longleftrightarrow> (\<exists>s0. gs_objects s0 = Map.empty \<and> gs_graphs s0 = Map.empty \<and>
     object_step\<^sup>*\<^sup>* (s0, \<lambda>_. 0) (s, c))"

lemma reachable_objects_ok: "reachable_objects s c \<Longrightarrow> objects_ok s c"
proof -
  assume "reachable_objects s c"
  then obtain s0 where s0: "gs_objects s0 = Map.empty" "gs_graphs s0 = Map.empty" "object_step\<^sup>*\<^sup>* (s0, \<lambda>_. 0) (s, c)"
    unfolding reachable_objects_def by blast
  from s0(3) have "objects_ok (fst (s, c)) (snd (s, c))"
  proof (induction rule: rtranclp_induct)
    case base
    show ?case using s0(1,2) by (simp add: objects_ok_def user_objects_of_def graph_refs_def held_ok_def)
  next
    case (step p q)
    then show ?case using object_step_ok by blast
  qed
  then show ?thesis by simp
qed

text \<open>
  C31: user objects are neither destroyed early nor leaked.  After any calls of a program that releases
  and moves no more references than it has and keeps counts below \<open>2 ^ 32\<close>, an object is alive exactly
  while the program or some graph holds a reference, its count is the number of these references, and
  destroying a graph gives up what the graph holds, each time on an object that is still alive.
\<close>

theorem user_objects_counted:
  assumes "reachable_objects s c"
  shows "(gs_objects s obj \<noteq> None \<longleftrightarrow> 0 < c obj + graph_refs s obj) \<and>
    (\<forall>u. gs_objects s obj = Some u \<longrightarrow> unat (uo_refcount u) = c obj + graph_refs s obj) \<and>
    (\<forall>g gr. gs_graphs s g = Some gr \<longrightarrow>
       (\<exists>s'. release_objects (gr_user_objects gr) (s\<lparr>gs_graphs := (gs_graphs s)(g := None)\<rparr>) = Some s' \<and> objects_ok s' c))"
proof -
  note ok = reachable_objects_ok [OF assms]
  have alive: "gs_objects s obj \<noteq> None \<longleftrightarrow> 0 < c obj + graph_refs s obj"
  proof (cases "gs_objects s obj")
    case (Some u)
    then have "unat (uo_refcount u) \<noteq> 0" using objects_okD(3) [OF ok Some] by (simp only: unat_eq_0 not_False_eq_True)
    then show ?thesis using objects_okD(2) [OF ok, of obj] Some by simp
  qed (use objects_okD(2) [OF ok, of obj] in simp)
  have "\<exists>s'. release_objects (gr_user_objects gr) (s\<lparr>gs_graphs := (gs_graphs s)(g := None)\<rparr>) = Some s' \<and> objects_ok s' c"
    if "gs_graphs s g = Some gr" for g gr
    using release_objects_refs [OF destroy_objects_ok [OF ok that]] objects_okD(1) [OF ok, of g] that
    by (auto simp: user_objects_of_def held_ok_def)
  with alive objects_okD(2) [OF ok, of obj] show ?thesis by auto
qed

theorem user_objects_counted_witness:
  "gs_objects (sample_start\<lparr>gs_objects := [9 \<mapsto> \<lparr>uo_ptr = 1, uo_destroy = 2, uo_refcount = 3\<rparr>]\<rparr>) 9 \<noteq> None \<and>
   reachable_objects (sample_start\<lparr>gs_objects := [9 \<mapsto> \<lparr>uo_ptr = 1, uo_destroy = 2, uo_refcount = 3\<rparr>]\<rparr>) ((\<lambda>_. 0)(9 := 3))"
proof -
  let ?s = "sample_start\<lparr>gs_objects := [9 \<mapsto> \<lparr>uo_ptr = 1, uo_destroy = 2, uo_refcount = 3\<rparr>]\<rparr>"
  have "cudaUserObjectCreate 9 False 1 2 3 0 sample_start = Some (cudaSuccess, Some 9, ?s)"
    by (simp add: cudaUserObjectCreate_def done_with_def sample_start_def set_last_error_def sample_runtime_def)
  then have "object_step (sample_start, \<lambda>_. 0) (?s, gained cudaSuccess 9 (unat (3 :: u32)) (\<lambda>_. 0))"
    by (rule object_step.create [rotated 2]) (simp_all add: sample_start_def)
  then have "object_step\<^sup>*\<^sup>* (sample_start, \<lambda>_. 0) (?s, (\<lambda>_. 0)(9 := 3))" by (simp add: gained_def)
  then have r: "reachable_objects ?s ((\<lambda>_. 0)(9 := 3))"
    unfolding reachable_objects_def by (intro exI [of _ sample_start]) (simp add: sample_start_def)
  from user_objects_counted [OF r, of 9] have "gs_objects ?s 9 \<noteq> None" by simp
  with r show ?thesis by blast
qed

end
