(* ===== verification/AirValidate.thy ===== *)
theory AirValidate
  imports Metallib PtxLines
begin

text \<open>
  The validator of metallibs, \<open>compiler/air_validate\<close>: the checks of a container and of its kernels, the report,
  and the command line.

  \<open>Tools\<close> is what the program gets from the system: the output of a command, the temporary directory and
  whether the file in it could be written.  Copying bytes from outside of the file is the outcome \<open>None\<close>.
\<close>

section \<open>Commands\<close>

record CommandResult =
  cr_started :: bool
  cr_exit_code :: int
  cr_output :: string

record Tools =
  to_run :: "string \<Rightarrow> CommandResult"
  to_temp_dir :: "string option"
  to_write :: "string \<Rightarrow> bytes \<Rightarrow> string option"

definition quote_shell :: "string \<Rightarrow> string" where
  "quote_shell s = [CHR 0x27] @ concat (map (\<lambda>c. if c = CHR 0x27 then [CHR 0x27, CHR 0x5C, CHR 0x27, CHR 0x27] else [c]) s) @ [CHR 0x27]"

definition command_exists :: "Tools \<Rightarrow> string \<Rightarrow> bool" where
  "command_exists tools name =
     (let r = to_run tools (''command -v '' @ name @ '' >/dev/null 2>&1; echo $?'')
      in if \<not> cr_started r \<or> cr_exit_code r \<noteq> 0 \<or> cr_output r = [] then False else hd (cr_output r) = CHR ''0'')"

section \<open>Diagnostics\<close>

datatype Severity = kInfo | kWarning | kError

record Diagnostic =
  dg_severity :: Severity
  dg_message :: string

record ValidationOptions =
  vd_require_bitcode :: bool
  vd_require_function_list :: bool
  vd_require_kernel_metadata :: bool
  vd_verify_bitcode_with_llvm_dis :: bool
  vd_run_xcrun_validate :: bool
  vd_run_metal_library_archive :: bool
  vd_strict_magic :: bool
  vd_max_strings :: nat
  vd_metal_library_archive_command :: string

record ValidationResult =
  va_ok :: bool
  va_xcrun_exit_code :: int
  va_xcrun_output :: string
  va_archive_exit_code :: int
  va_archive_output :: string
  va_summary :: "MetallibSummary option"
  va_diagnostics :: "Diagnostic list"

definition diagnostic :: "Severity \<Rightarrow> string \<Rightarrow> Diagnostic" where
  "diagnostic severity message = \<lparr>dg_severity = severity, dg_message = message\<rparr>"

fun has_error :: "Diagnostic list \<Rightarrow> bool" where
  "has_error [] = False"
| "has_error (d # ds) = (if dg_severity d = kError then True else has_error ds)"

definition severity_to_string :: "Severity \<Rightarrow> string" where
  "severity_to_string s = (case s of kInfo \<Rightarrow> ''INFO'' | kWarning \<Rightarrow> ''WARN'' | kError \<Rightarrow> ''ERROR'')"

fun kernel_has_metadata :: "KernelMetadataField list \<Rightarrow> string \<Rightarrow> bool" where
  "kernel_has_metadata [] key = False"
| "kernel_has_metadata (f # fs) key = (if mf_key f = key then True else kernel_has_metadata fs key)"

section \<open>Kernels\<close>

definition bitcode_slice :: "bytes \<Rightarrow> KernelRecord \<Rightarrow> bytes option" where
  "bitcode_slice bs k =
     (let a = unat (kr_bitcode_offset k); b = unat (kr_bitcode_offset k + kr_bitcode_size k)
      in if a \<le> b \<and> b \<le> length bs then Some (take (b - a) (drop a bs)) else None)"

definition disassemble :: "Tools \<Rightarrow> string \<Rightarrow> bytes \<Rightarrow> KernelRecord \<Rightarrow> Diagnostic option" where
  "disassemble tools path bs k =
     (if \<not> command_exists tools ''llvm-dis''
      then Some (diagnostic kWarning (''llvm-dis not found; skipping deep bitcode check for '' @ kr_name k))
      else case to_temp_dir tools of
        None \<Rightarrow> Some (diagnostic kError (''failed to create secure temporary directory for '' @ kr_name k))
      | Some dir \<Rightarrow>
          (case bitcode_slice bs k of
             None \<Rightarrow> None
           | Some part \<Rightarrow>
               (let file = dir @ ''/kernel.bc'' in
                case to_write tools file part of
                  Some e \<Rightarrow> Some (diagnostic kError (''failed to write temporary bitcode for '' @ kr_name k @ '': '' @ e))
                | None \<Rightarrow>
                    let r = to_run tools (''llvm-dis '' @ quote_shell file @ '' -o /dev/null 2>&1'')
                    in Some (if \<not> cr_started r \<or> cr_exit_code r \<noteq> 0
                             then diagnostic kError (''llvm-dis rejected kernel '' @ kr_name k @ '' from '' @ path)
                             else diagnostic kInfo (''llvm-dis accepted kernel '' @ kr_name k @ '' bitcode'')))))"

definition validate_kernel_bitcode ::
  "Tools \<Rightarrow> string \<Rightarrow> bytes \<Rightarrow> ValidationOptions \<Rightarrow> KernelRecord \<Rightarrow> Diagnostic list option" where
  "validate_kernel_bitcode tools path bs opts k =
     (let signed = (if kr_signature_ok k
            then [diagnostic kInfo (''kernel '' @ kr_name k @ '' bitcode has LLVM signature prefix'')] else []) in
      if kr_bitcode_size k = 0 \<or> kr_bitcode_offset k + kr_bitcode_size k > file_size bs
      then Some [diagnostic kError (''kernel '' @ kr_name k @ '' has invalid bitcode bounds'')]
      else if vd_verify_bitcode_with_llvm_dis opts
      then map_option (\<lambda>d. signed @ [d]) (disassemble tools path bs k)
      else if kr_signature_ok k then Some signed
      else Some [diagnostic kWarning (''kernel '' @ kr_name k @ '' bitcode does not have a recognized LLVM signature'')])"

text \<open>The metadata of one kernel: its diagnostics, and whether it counts as a kernel.\<close>

definition validate_metadata :: "KernelRecord \<Rightarrow> Diagnostic \<times> bool" where
  "validate_metadata k =
     (if \<not> kernel_has_metadata (kr_metadata k) ''air.kernel''
      then (diagnostic kInfo (''function '' @ kr_name k @ '' is a linked helper, not an AIR kernel''), False)
      else if \<not> kernel_has_metadata (kr_metadata k) ''air.version''
      then (diagnostic kError (''kernel '' @ kr_name k @ '' is missing required metadata (air.version)''), True)
      else (diagnostic kInfo (''kernel '' @ kr_name k @ '' includes required metadata fields''), True))"

fun validate_kernels ::
  "Tools \<Rightarrow> string \<Rightarrow> bytes \<Rightarrow> ValidationOptions \<Rightarrow> KernelRecord list \<Rightarrow> nat \<Rightarrow> (Diagnostic list \<times> nat) option" where
  "validate_kernels tools path bs opts [] count = Some ([], count)"
| "validate_kernels tools path bs opts (k # ks) count =
     (case (if vd_require_bitcode opts then validate_kernel_bitcode tools path bs opts k else Some []) of
        None \<Rightarrow> None
      | Some ds \<Rightarrow>
          (let (ms, count1) = (if vd_require_kernel_metadata opts
                 then (case validate_metadata k of (d, counts) \<Rightarrow> ([d], if counts then Suc count else count)) else ([], count))
           in map_option (\<lambda>(rest, n). (ds @ ms @ rest, n)) (validate_kernels tools path bs opts ks count1)))"

section \<open>Containers\<close>

definition container_diagnostics :: "ValidationOptions \<Rightarrow> MetallibSummary \<Rightarrow> Diagnostic list" where
  "container_diagnostics opts s =
     (if ms_file_size s < 16
      then [diagnostic kError ''container is too small to be a valid metallib (expected >= 16 bytes)''] else []) @
     (if vd_strict_magic opts \<and> \<not> looks_like_metallib s
      then [diagnostic kError ''magic header does not match expected MTL* container prefix''] else []) @
     (if vd_require_bitcode opts \<and> ms_bitcode_sections s = []
      then [diagnostic kError ''no embedded LLVM bitcode signatures found in container'']
      else if ms_bitcode_sections s \<noteq> []
      then [diagnostic kInfo (''found '' @ show_nat (length (ms_bitcode_sections s)) @ '' candidate embedded bitcode section(s)'')]
      else [])"

definition function_diagnostics ::
  "Tools \<Rightarrow> string \<Rightarrow> bytes \<Rightarrow> ValidationOptions \<Rightarrow> MetallibSummary \<Rightarrow> Diagnostic list option" where
  "function_diagnostics tools path bs opts s =
     (if ms_function_list_parsed s
      then map_option (\<lambda>(ds, kernel_count).
          [diagnostic kInfo (''parsed function list via '' @ ms_function_list_parser s)] @
          (if vd_require_function_list opts \<and> ms_kernels s = []
           then [diagnostic kError ''function list is empty in parsed container''] else []) @ ds @
          (if vd_require_kernel_metadata opts \<and> kernel_count = 0
           then [diagnostic kError ''function list contains no AIR kernels''] else []))
        (validate_kernels tools path bs opts (ms_kernels s) 0)
      else if (vd_require_function_list opts \<or> vd_require_kernel_metadata opts) \<and> \<not> vd_run_metal_library_archive opts
      then Some [diagnostic kWarning (''container function table is not parsed by built-in parser (expected for Apple metallib); '' @
        ''enable MetalLibraryArchive validation for function/metadata checks'')]
      else Some [])"

text \<open>What the result of a validation command means.\<close>

definition command_diagnostic :: "string \<Rightarrow> CommandResult \<Rightarrow> Diagnostic" where
  "command_diagnostic name r =
     (if \<not> cr_started r then diagnostic kError (''failed to invoke '' @ name @ '' validation command'')
      else if cr_exit_code r \<noteq> 0
      then diagnostic kError (name @ '' validation command returned non-zero exit code '' @ show_int (cr_exit_code r))
      else diagnostic kInfo (name @ '' validation command accepted the container''))"

definition archive_command :: "string \<Rightarrow> ValidationOptions \<Rightarrow> string" where
  "archive_command path opts =
     (if vd_metal_library_archive_command opts = []
      then ''swift run --package-path tools/metal_library_archive_bridge cumetal-mla-validate '' @ quote_shell path @ '' 2>&1''
      else vd_metal_library_archive_command opts @ '' '' @ quote_shell path @ '' 2>&1'')"

definition run_xcrun :: "Tools \<Rightarrow> string \<Rightarrow> CommandResult \<times> string" where
  "run_xcrun tools path =
     (let metallib_command = ''xcrun metallib --app-store-validate '' @ quote_shell path @ '' 2>&1'';
          metal_command = ''xcrun metal -validate '' @ quote_shell path @ '' 2>&1'';
          r = to_run tools metallib_command;
          q = [CHR 0x27]; dq = [CHR 0x22]
      in if \<not> cr_started r \<or> contains_sub (cr_output r) (''unknown argument: '' @ q @ ''--app-store-validate'' @ q) \<or>
            contains_sub (cr_output r) (''unable to find utility '' @ dq @ ''metallib'' @ dq)
         then (to_run tools metal_command, metal_command) else (r, metallib_command))"

text \<open>\<open>contents\<close> is the file with the error of reading it.\<close>

definition validate_file :: "Tools \<Rightarrow> string \<Rightarrow> bytes \<times> string \<Rightarrow> ValidationOptions \<Rightarrow> ValidationResult option" where
  "validate_file tools path contents opts =
     (let bs = fst contents; io_error = snd contents in
      if bs = []
      then Some \<lparr>va_ok = False, va_xcrun_exit_code = - 1, va_xcrun_output = [], va_archive_exit_code = - 1,
        va_archive_output = [], va_summary = None,
        va_diagnostics = [diagnostic kError (if io_error = [] then ''input file is empty'' else io_error)]\<rparr>
      else case inspect_metallib_bytes path bs (vd_max_strings opts) of
        None \<Rightarrow> None
      | Some s \<Rightarrow>
          (case function_diagnostics tools path bs opts s of
             None \<Rightarrow> None
           | Some fs \<Rightarrow>
               let archive = to_run tools (archive_command path opts);
                   xcrun = run_xcrun tools path;
                   mla = vd_run_metal_library_archive opts; xc = vd_run_xcrun_validate opts;
                   ds = container_diagnostics opts s @ fs @
                     (if mla then [command_diagnostic ''MetalLibraryArchive'' archive] else []) @
                     (if xc then [command_diagnostic ''xcrun'' (fst xcrun),
                        diagnostic kInfo (''xcrun validation command: '' @ snd xcrun)] else [])
               in Some \<lparr>va_ok = \<not> has_error ds,
                    va_xcrun_exit_code = (if xc then cr_exit_code (fst xcrun) else - 1),
                    va_xcrun_output = (if xc then cr_output (fst xcrun) else []),
                    va_archive_exit_code = (if mla then cr_exit_code archive else - 1),
                    va_archive_output = (if mla then cr_output archive else []),
                    va_summary = Some s, va_diagnostics = ds\<rparr>))"

section \<open>The report\<close>

definition with_newline :: "string \<Rightarrow> string" where
  "with_newline s = (if last s \<noteq> CHR 0x0A then s @ [CHR 0x0A] else s)"

definition report_line :: "string \<Rightarrow> string" where
  "report_line s = s @ [CHR 0x0A]"

definition output_section :: "string \<Rightarrow> string \<Rightarrow> string" where
  "output_section name output =
     (if output = [] then [] else [CHR 0x0A] @ report_line (''--- '' @ name @ '' output ---'') @ with_newline output)"

text \<open>A file that could not be read has an empty summary.\<close>

definition no_summary :: MetallibSummary where
  "no_summary = \<lparr>ms_path = [], ms_file_size = 0, ms_magic = [0, 0, 0, 0], ms_magic_ascii = [], ms_word1 = 0, ms_word2 = 0,
     ms_bitcode_sections = [], ms_strings = [], ms_function_list_parsed = False, ms_function_list_parser = [],
     ms_kernels = [], ms_cumetal = no_container\<rparr>"

definition summary_of :: "ValidationResult \<Rightarrow> MetallibSummary" where
  "summary_of r = (case va_summary r of None \<Rightarrow> no_summary | Some s \<Rightarrow> s)"

definition format_report :: "ValidationResult \<Rightarrow> string" where
  "format_report r =
     (let s = summary_of r in
      report_line (''Validation result: '' @ (if va_ok r then ''PASS'' else ''FAIL'')) @
      report_line (''File: '' @ ms_path s) @
      report_line (''Size: '' @ show_nat (unat (ms_file_size s)) @ '' bytes'') @
      report_line (''Magic: '' @ ms_magic_ascii s) @
      report_line (''Bitcode sections: '' @ show_nat (length (ms_bitcode_sections s))) @
      (if ms_function_list_parsed s
       then report_line (''Function parser: '' @ ms_function_list_parser s) @
            report_line (''Kernel count: '' @ show_nat (length (ms_kernels s))) else []) @
      concat (map (\<lambda>d. report_line (''['' @ severity_to_string (dg_severity d) @ ''] '' @ dg_message d)) (va_diagnostics r)) @
      output_section ''MetalLibraryArchive'' (va_archive_output r) @ output_section ''xcrun'' (va_xcrun_output r))"

section \<open>The command line\<close>

text \<open>The options, whether the output is JSON, and the input; \<open>None\<close> is exit code 2.\<close>

definition default_options :: ValidationOptions where
  "default_options = \<lparr>vd_require_bitcode = True, vd_require_function_list = False, vd_require_kernel_metadata = False,
     vd_verify_bitcode_with_llvm_dis = False, vd_run_xcrun_validate = False, vd_run_metal_library_archive = False,
     vd_strict_magic = True, vd_max_strings = 32, vd_metal_library_archive_command = []\<rparr>"

fun parse_arguments :: "string list \<Rightarrow> ValidationOptions \<Rightarrow> bool \<Rightarrow> string \<Rightarrow> (ValidationOptions \<times> bool \<times> string) option" where
  "parse_arguments [] opts json input = (if input = [] then None else Some (opts, json, input))"
| "parse_arguments (arg # args) opts json input =
     (if arg = ''--xcrun'' then parse_arguments args (opts\<lparr>vd_run_xcrun_validate := True\<rparr>) json input
      else if arg = ''--mla'' then parse_arguments args (opts\<lparr>vd_run_metal_library_archive := True\<rparr>) json input
      else if arg = ''--mla-cmd''
      then (case args of
              [] \<Rightarrow> None
            | command # rest \<Rightarrow> parse_arguments rest (opts\<lparr>vd_metal_library_archive_command := command,
                vd_run_metal_library_archive := True\<rparr>) json input)
      else if arg = ''--require-function-list'' then parse_arguments args (opts\<lparr>vd_require_function_list := True\<rparr>) json input
      else if arg = ''--require-metadata'' then parse_arguments args (opts\<lparr>vd_require_kernel_metadata := True\<rparr>) json input
      else if arg = ''--llvm-dis'' then parse_arguments args (opts\<lparr>vd_verify_bitcode_with_llvm_dis := True\<rparr>) json input
      else if arg = ''--no-bitcode-required'' then parse_arguments args (opts\<lparr>vd_require_bitcode := False\<rparr>) json input
      else if arg = ''--relaxed-magic'' then parse_arguments args (opts\<lparr>vd_strict_magic := False\<rparr>) json input
      else if arg = ''--json'' then parse_arguments args opts True input
      else if arg \<noteq> [] \<and> hd arg = CHR ''-'' then None
      else if input = [] then parse_arguments args opts json arg
      else None)"

definition escape_char :: "char \<Rightarrow> string" where
  "escape_char c =
     (if c = CHR 0x5C then [CHR 0x5C, CHR 0x5C]
      else if c = CHR 0x22 then [CHR 0x5C, CHR 0x22]
      else if c = CHR 0x0A then [CHR 0x5C, CHR ''n'']
      else if c = CHR 0x08 then [CHR 0x5C, CHR ''b'']
      else if c = CHR 0x0C then [CHR 0x5C, CHR ''f'']
      else if c = CHR 0x0D then [CHR 0x5C, CHR ''r'']
      else if c = CHR 0x09 then [CHR 0x5C, CHR ''t'']
      else if of_char c < (32::nat)
      then [CHR 0x5C, CHR ''u'', CHR ''0'', CHR ''0'', hex_digit (of_char c div 16), hex_digit (of_char c mod 16)]
      else [c])"

definition json_escape :: "string \<Rightarrow> string" where
  "json_escape s = concat (map escape_char s)"

definition json_severity :: "Severity \<Rightarrow> string" where
  "json_severity s = (case s of kInfo \<Rightarrow> ''info'' | kWarning \<Rightarrow> ''warning'' | kError \<Rightarrow> ''error'')"

definition in_quotes :: "string \<Rightarrow> string" where
  "in_quotes s = [CHR 0x22] @ s @ [CHR 0x22]"

definition json_field :: "string \<Rightarrow> string \<Rightarrow> string" where
  "json_field name val = ''  '' @ in_quotes name @ '': '' @ val @ [CHR '','', CHR 0x0A]"

definition json_bool :: "bool \<Rightarrow> string" where
  "json_bool b = (if b then ''true'' else ''false'')"

definition json_diagnostic :: "Diagnostic \<Rightarrow> string" where
  "json_diagnostic d = ''    {'' @ in_quotes ''severity'' @ '': '' @ in_quotes (json_severity (dg_severity d)) @ '', '' @
     in_quotes ''message'' @ '': '' @ in_quotes (json_escape (dg_message d)) @ ''}''"

fun json_diagnostics :: "Diagnostic list \<Rightarrow> string" where
  "json_diagnostics [] = []"
| "json_diagnostics (d # ds) = json_diagnostic d @ (if ds = [] then [] else '','') @ [CHR 0x0A] @ json_diagnostics ds"

definition json_report :: "ValidationResult \<Rightarrow> string" where
  "json_report r =
     (let s = summary_of r in
      report_line ''{'' @ json_field ''ok'' (json_bool (va_ok r)) @
      json_field ''file'' (in_quotes (json_escape (ms_path s))) @ json_field ''size'' (show_nat (unat (ms_file_size s))) @
      json_field ''magic'' (in_quotes (json_escape (ms_magic_ascii s))) @
      json_field ''bitcode_sections'' (show_nat (length (ms_bitcode_sections s))) @
      json_field ''function_list_parsed'' (json_bool (ms_function_list_parsed s)) @
      json_field ''function_list_parser'' (in_quotes (json_escape (ms_function_list_parser s))) @
      json_field ''kernel_count'' (show_nat (length (ms_kernels s))) @
      report_line (''  '' @ in_quotes ''diagnostics'' @ '': ['') @ json_diagnostics (va_diagnostics r) @
      report_line ''  ]'' @ report_line ''}'')"

definition run_main :: "Tools \<Rightarrow> (string \<Rightarrow> bytes \<times> string) \<Rightarrow> string list \<Rightarrow> (nat \<times> string) option" where
  "run_main tools files args =
     (case parse_arguments args default_options False [] of
        None \<Rightarrow> Some (2, [])
      | Some (opts, json, input) \<Rightarrow>
          map_option (\<lambda>r. (if va_ok r then 0 else 1, if json then json_report r else format_report r))
            (validate_file tools input (files input) opts))"

section \<open>Quoting\<close>

text \<open>
  How a shell reads a word: between single quotes every character stands for itself; outside of them a backslash
  takes the special meaning of the next character, and any other character ends the word or does more.
\<close>

fun shell_word :: "bool \<Rightarrow> string \<Rightarrow> string option" where
  "shell_word True [] = None"
| "shell_word False [] = Some []"
| "shell_word True (c # cs) = (if c = CHR 0x27 then shell_word False cs else map_option (Cons c) (shell_word True cs))"
| "shell_word False (c # cs) =
     (if c = CHR 0x27 then shell_word True cs
      else if c = CHR 0x5C then (case cs of [] \<Rightarrow> None | d # ds \<Rightarrow> map_option (Cons d) (shell_word False ds))
      else None)"

lemma quoted_word:
  "shell_word True (concat (map (\<lambda>c. if c = CHR 0x27 then [CHR 0x27, CHR 0x5C, CHR 0x27, CHR 0x27] else [c]) s) @ [CHR 0x27]) = Some s"
  by (induction s) simp_all

text \<open>Whatever the path of a file is, a command has it as one word.\<close>

lemma quote_shell_word: "shell_word False (quote_shell s) = Some s"
  using quoted_word[of s] by (simp add: quote_shell_def)

text \<open>How a reader of JSON reads the characters of a string.\<close>

definition hex_value :: "char \<Rightarrow> nat" where
  "hex_value c = (if of_char c < (58::nat) then of_char c - 48 else of_char c - 87)"

fun json_read :: "string \<Rightarrow> string option" where
  "json_read [] = Some []"
| "json_read (c # cs) =
     (if c = CHR 0x22 \<or> of_char c < (32::nat) then None
      else if c \<noteq> CHR 0x5C then map_option (Cons c) (json_read cs)
      else case cs of
        [] \<Rightarrow> None
      | d # ds \<Rightarrow>
          if d = CHR ''u''
          then (case ds of
                  CHR ''0'' # CHR ''0'' # a # b # rest \<Rightarrow>
                    map_option (Cons (char_of (16 * hex_value a + hex_value b))) (json_read rest)
                | _ \<Rightarrow> None)
          else if d = CHR ''n'' then map_option (Cons (CHR 0x0A)) (json_read ds)
          else if d = CHR ''b'' then map_option (Cons (CHR 0x08)) (json_read ds)
          else if d = CHR ''f'' then map_option (Cons (CHR 0x0C)) (json_read ds)
          else if d = CHR ''r'' then map_option (Cons (CHR 0x0D)) (json_read ds)
          else if d = CHR ''t'' then map_option (Cons (CHR 0x09)) (json_read ds)
          else if d = CHR 0x5C \<or> d = CHR 0x22 then map_option (Cons d) (json_read ds)
          else None)"

lemma hex_value_digit: "d < 16 \<Longrightarrow> hex_value (hex_digit d) = d"
  by (simp add: hex_value_def hex_digit_def)

lemma json_read_escape: "json_read (escape_char c @ s) = map_option (Cons c) (json_read s)"
proof (cases "of_char c < (32::nat)")
  case True
  have v: "hex_value (hex_digit (of_char c div 16)) = of_char c div 16" "hex_value (hex_digit (of_char c mod 16)) = of_char c mod 16"
    using True by (simp_all add: hex_value_digit)
  have "16 * (of_char c div 16) + of_char c mod 16 = (of_char c :: nat)" by presburger
  then show ?thesis using True v by (simp add: escape_char_def)
next
  case False
  then show ?thesis by (auto simp: escape_char_def)
qed

lemma json_roundtrip: "json_read (json_escape s) = Some s"
  by (induction s) (simp_all add: json_escape_def json_read_escape)

section \<open>What the validator accepts\<close>

lemma has_error_iff: "has_error ds \<longleftrightarrow> (\<exists>d\<in>set ds. dg_severity d = kError)"
  by (induction ds) auto

lemma has_error_append [simp]: "has_error (xs @ ys) \<longleftrightarrow> has_error xs \<or> has_error ys"
  by (auto simp: has_error_iff)

lemma diagnostic_sel [simp]: "dg_severity (diagnostic v m) = v"
  by (simp add: diagnostic_def)

definition bitcode_accepted :: "Tools \<Rightarrow> string \<Rightarrow> bytes \<Rightarrow> ValidationOptions \<Rightarrow> KernelRecord \<Rightarrow> bool" where
  "bitcode_accepted tools path bs opts k \<longleftrightarrow> kr_bitcode_size k \<noteq> 0 \<and> kr_bitcode_offset k + kr_bitcode_size k \<le> file_size bs \<and>
     (vd_verify_bitcode_with_llvm_dis opts \<and> command_exists tools ''llvm-dis'' \<longrightarrow>
        (\<exists>dir part. to_temp_dir tools = Some dir \<and> bitcode_slice bs k = Some part \<and> to_write tools (dir @ ''/kernel.bc'') part = None \<and>
          cr_started (to_run tools (''llvm-dis '' @ quote_shell (dir @ ''/kernel.bc'') @ '' -o /dev/null 2>&1'')) \<and>
          cr_exit_code (to_run tools (''llvm-dis '' @ quote_shell (dir @ ''/kernel.bc'') @ '' -o /dev/null 2>&1'')) = 0))"

lemma bitcode_diagnostics:
  "validate_kernel_bitcode tools path bs opts k = Some ds \<Longrightarrow> \<not> has_error ds \<longleftrightarrow> bitcode_accepted tools path bs opts k"
  by (auto simp: validate_kernel_bitcode_def disassemble_def bitcode_accepted_def Let_def not_less
      split: if_splits option.splits)

definition kernel_accepted :: "Tools \<Rightarrow> string \<Rightarrow> bytes \<Rightarrow> ValidationOptions \<Rightarrow> KernelRecord \<Rightarrow> bool" where
  "kernel_accepted tools path bs opts k \<longleftrightarrow> (vd_require_bitcode opts \<longrightarrow> bitcode_accepted tools path bs opts k) \<and>
     (vd_require_kernel_metadata opts \<longrightarrow> kernel_has_metadata (kr_metadata k) ''air.kernel'' \<longrightarrow>
        kernel_has_metadata (kr_metadata k) ''air.version'')"

lemma kernels_diagnostics:
  assumes "validate_kernels tools path bs opts ks n = Some (ds, count)"
  shows "(\<not> has_error ds \<longleftrightarrow> (\<forall>k\<in>set ks. kernel_accepted tools path bs opts k)) \<and>
    count = n + (if vd_require_kernel_metadata opts
       then length (filter (\<lambda>k. kernel_has_metadata (kr_metadata k) ''air.kernel'') ks) else 0)"
  using assms
proof (induction ks arbitrary: n ds)
  case (Cons k ks)
  then show ?case
    by (auto simp: kernel_accepted_def validate_metadata_def split: option.splits if_splits prod.splits
        dest!: bitcode_diagnostics Cons.IH)
qed simp

definition container_accepted :: "Tools \<Rightarrow> string \<Rightarrow> bytes \<Rightarrow> ValidationOptions \<Rightarrow> MetallibSummary \<Rightarrow> bool" where
  "container_accepted tools path bs opts s \<longleftrightarrow> 16 \<le> ms_file_size s \<and> (vd_strict_magic opts \<longrightarrow> looks_like_metallib s) \<and>
     (vd_require_bitcode opts \<longrightarrow> ms_bitcode_sections s \<noteq> []) \<and>
     (ms_function_list_parsed s \<longrightarrow>
        (vd_require_function_list opts \<longrightarrow> ms_kernels s \<noteq> []) \<and> (\<forall>k\<in>set (ms_kernels s). kernel_accepted tools path bs opts k) \<and>
        (vd_require_kernel_metadata opts \<longrightarrow> (\<exists>k\<in>set (ms_kernels s). kernel_has_metadata (kr_metadata k) ''air.kernel'')))"

definition command_accepts :: "CommandResult \<Rightarrow> bool" where
  "command_accepts r \<longleftrightarrow> cr_started r \<and> cr_exit_code r = 0"

lemma command_diagnostic_error: "dg_severity (command_diagnostic name r) = kError \<longleftrightarrow> \<not> command_accepts r"
  by (auto simp: command_diagnostic_def command_accepts_def)

lemma function_diagnostics_error:
  assumes "function_diagnostics tools path bs opts s = Some ds"
  shows "\<not> has_error (container_diagnostics opts s @ ds) \<longleftrightarrow> container_accepted tools path bs opts s"
proof -
  have c: "\<not> has_error (container_diagnostics opts s) \<longleftrightarrow> 16 \<le> ms_file_size s \<and> (vd_strict_magic opts \<longrightarrow> looks_like_metallib s) \<and>
     (vd_require_bitcode opts \<longrightarrow> ms_bitcode_sections s \<noteq> [])"
    by (auto simp: container_diagnostics_def not_less)
  show ?thesis
  proof (cases "ms_function_list_parsed s")
    case True
    then obtain ks count where k: "validate_kernels tools path bs opts (ms_kernels s) 0 = Some (ks, count)"
      "ds = [diagnostic kInfo (''parsed function list via '' @ ms_function_list_parser s)] @
          (if vd_require_function_list opts \<and> ms_kernels s = []
           then [diagnostic kError ''function list is empty in parsed container''] else []) @ ks @
          (if vd_require_kernel_metadata opts \<and> count = 0
           then [diagnostic kError ''function list contains no AIR kernels''] else [])"
      using assms by (auto simp: function_diagnostics_def)
    show ?thesis using True c kernels_diagnostics[OF k(1)]
      by (auto simp: k(2) container_accepted_def filter_empty_conv)
  next
    case False
    then show ?thesis using assms c by (auto simp: function_diagnostics_def container_accepted_def split: if_splits)
  qed
qed

text \<open>
  The validator accepts exactly the files it is meant to.  When it returns for a file that could be read, the
  result is success iff the container has its size, its magic and bitcode as the options ask, every kernel of its
  function list has bitcode inside of the file that the disassembler takes and the metadata that the options ask
  for, the list has a kernel where one is asked for, and each outside tool that was asked for has run and accepted
  the file.
\<close>

lemma validate_file_accepts:
  assumes "validate_file tools path (bs, io_error) opts = Some r" "bs \<noteq> []"
  shows "va_ok r \<longleftrightarrow> (\<exists>s. inspect_metallib_bytes path bs (vd_max_strings opts) = Some s \<and> va_summary r = Some s \<and>
      container_accepted tools path bs opts s) \<and>
    (vd_run_metal_library_archive opts \<longrightarrow> command_accepts (to_run tools (archive_command path opts))) \<and>
    (vd_run_xcrun_validate opts \<longrightarrow> command_accepts (fst (run_xcrun tools path)))"
proof -
  obtain s fs where s: "inspect_metallib_bytes path bs (vd_max_strings opts) = Some s"
    and f: "function_diagnostics tools path bs opts s = Some fs"
    using assms by (auto simp: validate_file_def Let_def split: option.splits)
  have "va_summary r = Some s" using assms s f by (auto simp: validate_file_def Let_def)
  moreover have "va_ok r \<longleftrightarrow> \<not> has_error (container_diagnostics opts s @ fs) \<and>
      (vd_run_metal_library_archive opts \<longrightarrow> command_accepts (to_run tools (archive_command path opts))) \<and>
      (vd_run_xcrun_validate opts \<longrightarrow> command_accepts (fst (run_xcrun tools path)))"
    using assms s f
    by (cases "vd_run_metal_library_archive opts"; cases "vd_run_xcrun_validate opts")
       (auto simp: validate_file_def Let_def command_diagnostic_error split: if_splits)
  ultimately show ?thesis using function_diagnostics_error[OF f] s by auto
qed

text \<open>
  The check of a kernel adds its offset and size in 64 bits.  The copy of its bitcode leaves the file exactly when
  that sum wraps; a kernel of a container in the format of the compiler never does.
\<close>

lemma wrapped_sum: "a < M \<Longrightarrow> n < M \<Longrightarrow> (a + n) mod M = (if M \<le> a + n then a + n - M else a + n)" for M :: nat
  by (simp add: le_mod_geq)

lemma wrapped_sum_le: "a < M \<Longrightarrow> n < M \<Longrightarrow> a \<le> (a + n) mod M \<longleftrightarrow> \<not> M \<le> a + n" for M :: nat
  by (cases "M \<le> a + n") (simp_all add: wrapped_sum)

lemma slice_fault:
  assumes "length bs < 2 ^ 63" "kr_bitcode_offset k + kr_bitcode_size k \<le> file_size bs"
  shows "bitcode_slice bs k = None \<longleftrightarrow> 2 ^ 64 \<le> unat (kr_bitcode_offset k) + unat (kr_bitcode_size k)"
proof -
  let ?a = "unat (kr_bitcode_offset k)" and ?n = "unat (kr_bitcode_size k)"
  have e: "unat (kr_bitcode_offset k + kr_bitcode_size k) = (?a + ?n) mod 2 ^ 64" by (simp add: unat_add_u64)
  have le: "(?a + ?n) mod 2 ^ 64 \<le> length bs"
    using assms e by (simp add: word_le_nat_alt file_size_def unat_of_nat)
  have "?a < 2 ^ 64" "?n < 2 ^ 64" using u64_bound[of "kr_bitcode_offset k"] u64_bound[of "kr_bitcode_size k"] by simp_all
  then have "?a \<le> (?a + ?n) mod 2 ^ 64 \<longleftrightarrow> \<not> 2 ^ 64 \<le> ?a + ?n" by (rule wrapped_sum_le)
  then show ?thesis unfolding bitcode_slice_def Let_def e using le by auto
qed

lemma slice_in_container:
  assumes "kernel_in_file bs k" "length bs < 2 ^ 63"
  shows "bitcode_slice bs k \<noteq> None"
proof -
  have "unat (kr_bitcode_offset k) + unat (kr_bitcode_size k) \<le> length bs" using assms(1) by (simp add: kernel_in_file_def)
  moreover from this have "unat (kr_bitcode_offset k + kr_bitcode_size k) = unat (kr_bitcode_offset k) + unat (kr_bitcode_size k)"
    using assms(2) by (intro unat_add_u64_exact) simp
  ultimately show ?thesis by (simp add: bitcode_slice_def Let_def)
qed

text \<open>Validation of a container with one kernel, with no tools but a shell that runs nothing.\<close>

definition sample_tools :: Tools where
  "sample_tools = \<lparr>to_run = (\<lambda>_. \<lparr>cr_started = False, cr_exit_code = - 1, cr_output = []\<rparr>), to_temp_dir = None,
     to_write = (\<lambda>_ _. None)\<rparr>"

lemma sample_inspect:
  "\<exists>s. inspect_metallib_bytes ''a'' one_kernel_container 32 = Some s \<and> container_accepted sample_tools ''a'' one_kernel_container default_options s"
proof -
  have m: "take 4 (one_kernel_container @ zs) = [0x4D, 0x54, 0x4C, 0x42]" for zs
    by (simp add: one_kernel_container_def numeral_eq_Suc)
  have a: "starts_with (sanitize_magic [0x4D, 0x54, 0x4C, 0x42]) ''MTL''"
    by code_simp
  have z: "file_size one_kernel_container = 78" by (simp add: file_size_def one_kernel_container_size)
  show ?thesis
    by (simp add: inspect_metallib_bytes_def Let_def one_kernel_container_parse one_kernel_container_reads m a z scan_bitcode_sections_def
      container_accepted_def default_options_def kernel_accepted_def bitcode_accepted_def looks_like_metallib_def kernel_section_def
      del: take_append)
qed

lemma validate_sample_container:
  "\<exists>r. validate_file sample_tools ''a'' (one_kernel_container, []) default_options = Some r \<and> va_ok r"
proof -
  obtain s where s: "inspect_metallib_bytes ''a'' one_kernel_container 32 = Some s"
    "container_accepted sample_tools ''a'' one_kernel_container default_options s" using sample_inspect by blast
  have n: "one_kernel_container \<noteq> []" by (simp add: one_kernel_container_def)
  have o: "\<not> vd_verify_bitcode_with_llvm_dis default_options" "vd_max_strings default_options = 32"
    "\<not> vd_require_kernel_metadata default_options" "\<not> vd_run_metal_library_archive default_options" "\<not> vd_run_xcrun_validate default_options"
    by (simp_all add: default_options_def)
  have k: "\<exists>q. validate_kernels sample_tools ''a'' bs default_options ks m = Some q" for bs ks m
  proof (induction ks arbitrary: m)
    case (Cons a ks)
    have "\<exists>ds. validate_kernel_bitcode sample_tools ''a'' bs default_options a = Some ds"
      by (simp add: validate_kernel_bitcode_def Let_def o)
    then show ?case using Cons.IH[of m] by (cases "vd_require_bitcode default_options") (auto simp: o)
  qed simp
  have "function_diagnostics sample_tools ''a'' one_kernel_container default_options s \<noteq> None"
    using k[of one_kernel_container "ms_kernels s" 0] by (auto simp: function_diagnostics_def o)
  then obtain r where r: "validate_file sample_tools ''a'' (one_kernel_container, []) default_options = Some r"
    using s(1) n by (auto simp: validate_file_def Let_def o)
  then have "va_summary r = Some s" using s(1) n by (auto simp: validate_file_def Let_def o split: option.splits)
  then have "va_ok r" using validate_file_accepts[OF r n] s by (simp add: o)
  then show ?thesis using r by blast
qed

end
