(* ===== verification/BackendStreams.thy ===== *)
theory BackendStreams
  imports RuntimeMemory
begin

text \<open>
  The streams of the Metal backend, \<open>runtime/metal_backend/metal_backend.mm\<close>: the fences between
  submissions, the batch of dispatches a stream keeps open, the submission of copies, kernels, markers
  and host functions, and the tickets by which the host asks for completion.

  Metal itself is not code this theory translates.  A command buffer is a value that holds what was
  encoded into it: the shared-event values it waits for, the work, and the values it signals.
  \<open>bk_todo\<close> holds what was handed to Metal and the dispatch queue and has not finished, in the order of
  submission; \<open>bk_events\<close> holds the value of the shared event of each stream.  Streams, buffers and host
  functions are numbers.  The outcomes of creating Metal objects are arguments.  The event values and
  the tickets are \<open>std::uint64_t\<close> that grow by one per submission; they are numbers without a bound
  here, which is exact for the first \<open>2 ^ 64 - 1\<close> submissions of a stream.
\<close>

section \<open>State\<close>

datatype EncoderKind = kNoEncoder | kCompute | kBlit

record CommandBuffer =
  cb_id :: nat
  cb_stream :: nat
  cb_waits :: "(nat \<times> nat) list"
  cb_work :: "nat list list"
  cb_signals :: "(nat \<times> nat) list"

record OpenBatch =
  ob_buffer :: CommandBuffer
  ob_kind :: EncoderKind
  ob_reservations :: "(nat \<times> nat) list"
  ob_waits :: "(nat \<times> nat) list"
  ob_value :: nat
  ob_dispatches :: nat

record StreamImpl =
  si_participates_in_legacy_sync :: bool
  si_legacy_default :: bool
  si_next_access_value :: nat
  si_latest_submission_value :: nat
  si_latest_submission_requires_wait :: bool
  si_next_ticket :: nat
  si_completed_ticket :: nat
  si_pending_buffers :: "(nat \<times> nat) list"
  si_pending_host_operations :: nat
  si_open :: "OpenBatch option"

text \<open>A host function of a stream runs after its marker, and signals its value when it has returned.\<close>

datatype item =
    Gpu CommandBuffer
  | HostFn (host_stream: nat) (host_value: nat) (host_marker: nat) (host_function: nat)

record Backend =
  bk_default_stream :: nat
  bk_live :: "nat list"
  bk_streams :: "nat \<Rightarrow> StreamImpl"
  bk_last_access :: "nat \<Rightarrow> (nat \<times> nat) option"
  bk_events :: "nat \<Rightarrow> nat"
  bk_todo :: "item list"
  bk_next_buffer :: nat
  bk_next_stream :: nat

record BackendConfig =
  bc_max_batch_dispatches :: nat
  bc_mixed_encoders :: bool

text \<open>Which Metal objects a submission gets.\<close>

record MetalObjects =
  mo_command_buffer :: bool
  mo_encoder :: bool
  mo_batch_encoder :: bool
  mo_completion :: bool

definition new_stream :: "bool \<Rightarrow> bool \<Rightarrow> StreamImpl" where
  "new_stream participates legacy = \<lparr>si_participates_in_legacy_sync = participates, si_legacy_default = legacy,
     si_next_access_value = 1, si_latest_submission_value = 0, si_latest_submission_requires_wait = False,
     si_next_ticket = 1, si_completed_ticket = 0, si_pending_buffers = [], si_pending_host_operations = 0,
     si_open = None\<rparr>"

definition initial_backend :: Backend where
  "initial_backend = \<lparr>bk_default_stream = 0, bk_live = [], bk_streams = (\<lambda>_. new_stream True True),
     bk_last_access = Map.empty, bk_events = (\<lambda>_. 0), bk_todo = [], bk_next_buffer = 0,
     bk_next_stream = 1\<rparr>"

definition set_stream :: "nat \<Rightarrow> StreamImpl \<Rightarrow> Backend \<Rightarrow> Backend" where
  "set_stream n st s = s\<lparr>bk_streams := (bk_streams s)(n := st)\<rparr>"

text \<open>A new stream gets a number of its own; a stream is live while somebody holds it.\<close>

definition create_stream :: "bool \<Rightarrow> Backend \<Rightarrow> nat \<times> Backend" where
  "create_stream participates s =
     (let n = bk_next_stream s
      in (n, (set_stream n (new_stream participates False) s)\<lparr>bk_live := bk_live s @ [n], bk_next_stream := Suc n\<rparr>))"

definition release_stream :: "nat \<Rightarrow> Backend \<Rightarrow> Backend" where
  "release_stream n s = s\<lparr>bk_live := filter (\<lambda>m. m \<noteq> n) (bk_live s)\<rparr>"

section \<open>Command buffers\<close>

definition new_command_buffer :: "nat \<Rightarrow> Backend \<Rightarrow> CommandBuffer \<times> Backend" where
  "new_command_buffer n s =
     (\<lparr>cb_id = bk_next_buffer s, cb_stream = n, cb_waits = [], cb_work = [], cb_signals = []\<rparr>,
      s\<lparr>bk_next_buffer := Suc (bk_next_buffer s)\<rparr>)"

definition commit :: "item \<Rightarrow> Backend \<Rightarrow> Backend" where
  "commit x s = s\<lparr>bk_todo := bk_todo s @ [x]\<rparr>"

definition add_pending :: "nat \<Rightarrow> nat \<Rightarrow> Backend \<Rightarrow> nat \<times> Backend" where
  "add_pending n i s =
     (let st = bk_streams s n; ticket = si_next_ticket st
      in (ticket, set_stream n (st\<lparr>si_next_ticket := Suc ticket,
            si_pending_buffers := si_pending_buffers st @ [(ticket, i)]\<rparr>) s))"

definition encode_resource_signals :: "(nat \<times> nat) list \<Rightarrow> CommandBuffer \<Rightarrow> CommandBuffer" where
  "encode_resource_signals reservations c = c\<lparr>cb_signals := cb_signals c @ reservations\<rparr>"

text \<open>Handing a finished command buffer to Metal and to the list of its stream.\<close>

definition submit_buffer :: "CommandBuffer \<Rightarrow> Backend \<Rightarrow> nat \<times> Backend" where
  "submit_buffer c s = add_pending (cb_stream c) (cb_id c) (commit (Gpu c) s)"

section \<open>The open batch\<close>

definition begin_batch ::
  "nat \<Rightarrow> CommandBuffer \<Rightarrow> EncoderKind \<Rightarrow> (nat \<times> nat) list \<Rightarrow> (nat \<times> nat) list \<Rightarrow> nat \<Rightarrow> Backend \<Rightarrow> Backend" where
  "begin_batch n c k reservations waits batch_value s =
     set_stream n ((bk_streams s n)\<lparr>si_open := Some \<lparr>ob_buffer = c, ob_kind = k, ob_reservations = reservations,
       ob_waits = waits, ob_value = batch_value, ob_dispatches = 1\<rparr>\<rparr>) s"

text \<open>The encoder of a kind, with whether there is one; \<open>created\<close> says whether Metal makes a new one.\<close>

definition batch_encoder :: "EncoderKind \<Rightarrow> bool \<Rightarrow> OpenBatch \<Rightarrow> bool \<times> OpenBatch" where
  "batch_encoder k created b =
     (if ob_kind b = k then (True, b)
      else if created then (True, b\<lparr>ob_kind := k\<rparr>) else (False, b\<lparr>ob_kind := kNoEncoder\<rparr>))"

text \<open>The command buffer of a batch as it is committed.\<close>

definition closing :: "OpenBatch \<Rightarrow> CommandBuffer" where
  "closing b = encode_resource_signals (ob_reservations b) (ob_buffer b)"

definition flush_open_batch_locked :: "nat \<Rightarrow> Backend \<Rightarrow> nat \<times> Backend" where
  "flush_open_batch_locked n s =
     (case si_open (bk_streams s n) of
        None \<Rightarrow> (0, s)
      | Some b \<Rightarrow>
          let s1 = set_stream n ((bk_streams s n)\<lparr>si_open := None\<rparr>) s
          in add_pending n (cb_id (ob_buffer b)) (commit (Gpu (closing b)) s1))"

definition flush_open_batch :: "nat \<Rightarrow> Backend \<Rightarrow> Backend" where
  "flush_open_batch n s = snd (flush_open_batch_locked n s)"

definition flush_other_open_batches :: "nat \<Rightarrow> Backend \<Rightarrow> Backend" where
  "flush_other_open_batches self s =
     fold (\<lambda>n s. if n = self then s else flush_open_batch n s) (bk_live s @ [bk_default_stream s]) s"

section \<open>Fences\<close>

definition add_wait :: "nat \<Rightarrow> nat \<times> nat \<Rightarrow> (nat \<times> nat) list \<Rightarrow> (nat \<times> nat) list" where
  "add_wait signal_event w waits =
     (if snd w = 0 \<or> fst w = signal_event \<or> w \<in> set waits then waits else waits @ [w])"

text \<open>The streams whose latest submission the legacy default stream orders before this one.\<close>

definition legacy_sources :: "nat \<Rightarrow> Backend \<Rightarrow> nat list" where
  "legacy_sources n s =
     (if si_legacy_default (bk_streams s n)
      then filter (\<lambda>m. si_participates_in_legacy_sync (bk_streams s m)) (bk_live s)
      else if si_participates_in_legacy_sync (bk_streams s n) then [bk_default_stream s] else [])"

definition latest_of :: "Backend \<Rightarrow> nat \<Rightarrow> nat \<times> nat" where
  "latest_of s m = (m, si_latest_submission_value (bk_streams s m))"

definition fence_buffers :: "nat list \<Rightarrow> nat list" where
  "fence_buffers buffers = sort (remdups buffers)"

definition resource_waits :: "Backend \<Rightarrow> nat list \<Rightarrow> (nat \<times> nat) list" where
  "resource_waits s buffers = concat (map (\<lambda>b. case bk_last_access s b of None \<Rightarrow> [] | Some w \<Rightarrow> [w]) buffers)"

definition host_barrier :: "nat \<Rightarrow> Backend \<Rightarrow> (nat \<times> nat) list" where
  "host_barrier n s =
     (if si_latest_submission_requires_wait (bk_streams s n) \<and> si_latest_submission_value (bk_streams s n) \<noteq> 0
      then [latest_of s n] else [])"

definition touch :: "nat list \<Rightarrow> nat \<times> nat \<Rightarrow> Backend \<Rightarrow> Backend" where
  "touch buffers w s = s\<lparr>bk_last_access := (\<lambda>b. if b \<in> set buffers then Some w else bk_last_access s b)\<rparr>"

text \<open>The waits on other streams, the value to signal, and the command buffer with its waits.\<close>

definition encode_submission_waits ::
  "nat \<Rightarrow> nat list \<Rightarrow> CommandBuffer \<Rightarrow> Backend \<Rightarrow> (CommandBuffer \<times> (nat \<times> nat) list \<times> nat) \<times> Backend" where
  "encode_submission_waits n buffers c s =
     (let st = bk_streams s n;
          signal_value = si_next_access_value st;
          bufs = fence_buffers buffers;
          waits = fold (add_wait n) (map (latest_of s) (legacy_sources n s) @ resource_waits s bufs) [];
          s1 = touch bufs (n, signal_value) s
      in ((c\<lparr>cb_waits := cb_waits c @ host_barrier n s @ waits\<rparr>, waits, signal_value),
          set_stream n (st\<lparr>si_next_access_value := Suc signal_value, si_latest_submission_value := signal_value,
            si_latest_submission_requires_wait := False\<rparr>) s1))"

definition covered :: "nat \<Rightarrow> nat \<Rightarrow> (nat \<times> nat) list \<Rightarrow> nat \<times> nat \<Rightarrow> bool" where
  "covered signal_event batch_value encoded_waits w \<longleftrightarrow>
     snd w = 0 \<or> (fst w = signal_event \<and> snd w \<le> batch_value) \<or>
     list_ex (\<lambda>e. fst e = fst w \<and> snd w \<le> snd e) encoded_waits"

definition try_extend_submission ::
  "nat \<Rightarrow> nat list \<Rightarrow> nat \<Rightarrow> (nat \<times> nat) list \<Rightarrow> Backend \<Rightarrow> Backend option" where
  "try_extend_submission n buffers batch_value encoded_waits s =
     (let bufs = fence_buffers buffers
      in if list_all (covered n batch_value encoded_waits)
              (map (latest_of s) (legacy_sources n s) @ resource_waits s bufs)
         then Some (touch bufs (n, batch_value) s) else None)"

section \<open>Submissions\<close>

text \<open>The new work joins the open batch, when it can.\<close>

definition extend_batch ::
  "BackendConfig \<Rightarrow> EncoderKind \<Rightarrow> bool \<Rightarrow> nat \<Rightarrow> nat list \<Rightarrow> Backend \<Rightarrow> bool \<times> Backend" where
  "extend_batch cfg k created n buffers s =
     (case si_open (bk_streams s n) of
        None \<Rightarrow> (False, s)
      | Some b \<Rightarrow>
          if (bc_mixed_encoders cfg \<or> ob_kind b = k) \<and> ob_dispatches b < bc_max_batch_dispatches cfg
          then (case try_extend_submission n buffers (ob_value b) (ob_waits b) s of
                  None \<Rightarrow> (False, s)
                | Some s1 \<Rightarrow>
                    (case batch_encoder k created b of
                       (ok, b1) \<Rightarrow> (ok, set_stream n ((bk_streams s1 n)\<lparr>si_open :=
                         Some (if ok then b1\<lparr>ob_dispatches := Suc (ob_dispatches b1)\<rparr> else b1)\<rparr>) s1)))
          else (False, s))"

definition encode_in_batch :: "nat \<Rightarrow> nat list \<Rightarrow> Backend \<Rightarrow> Backend" where
  "encode_in_batch n buffers s =
     (case si_open (bk_streams s n) of
        None \<Rightarrow> s
      | Some b \<Rightarrow> set_stream n ((bk_streams s n)\<lparr>si_open := Some (b\<lparr>ob_buffer := (ob_buffer b)
          \<lparr>cb_work := cb_work (ob_buffer b) @ [fence_buffers buffers]\<rparr>\<rparr>)\<rparr>) s)"

definition flush_all :: "nat \<Rightarrow> Backend \<Rightarrow> Backend" where
  "flush_all n s = flush_other_open_batches n (flush_open_batch n s)"

text \<open>
  One piece of work that touches \<open>buffers\<close>: \<open>batching\<close> says whether it may share a command buffer, and
  \<open>encoded\<close> whether its arguments can be encoded.
\<close>

definition submit_work ::
  "BackendConfig \<Rightarrow> EncoderKind \<Rightarrow> bool \<Rightarrow> MetalObjects \<Rightarrow> bool \<Rightarrow> nat \<Rightarrow> nat list \<Rightarrow> Backend \<Rightarrow> cudaError \<times> Backend" where
  "submit_work cfg k batching mo encoded n buffers s =
     (case (if batching then extend_batch cfg k (mo_batch_encoder mo) n buffers s else (False, s)) of
        (True, s1) \<Rightarrow>
          if \<not> encoded then (cudaErrorInvalidValue, s1) else (cudaSuccess, encode_in_batch n buffers s1)
      | (False, s1) \<Rightarrow>
          let s2 = flush_all n s1 in
          if \<not> mo_command_buffer mo then (cudaErrorUnknown, s2)
          else case new_command_buffer n s2 of
            (c, s3) \<Rightarrow>
              (case encode_submission_waits n buffers c s3 of
                 ((c1, waits, signal_value), s4) \<Rightarrow>
                   if \<not> mo_encoder mo then (cudaErrorUnknown, s4)
                   else let s5 = (if batching then begin_batch n c1 k [(n, signal_value)] waits signal_value s4 else s4)
                   in if \<not> encoded then (cudaErrorInvalidValue, s5)
                   else if batching then (cudaSuccess, encode_in_batch n buffers s5)
                   else (cudaSuccess, snd (submit_buffer (encode_resource_signals [(n, signal_value)]
                          (c1\<lparr>cb_work := cb_work c1 @ [fence_buffers buffers]\<rparr>)) s5))))"

definition blit_copy ::
  "BackendConfig \<Rightarrow> MetalObjects \<Rightarrow> nat \<Rightarrow> nat \<Rightarrow> nat \<Rightarrow> nat \<Rightarrow> Backend \<Rightarrow> cudaError \<times> Backend" where
  "blit_copy cfg mo n dst src bytes s =
     (if bytes = 0 then (cudaSuccess, s)
      else submit_work cfg kBlit (bc_max_batch_dispatches cfg > 0) mo True n [dst, src] s)"

text \<open>An empty command buffer that waits for what the stream waits for: its number and its ticket.\<close>

definition submit_marker :: "nat \<Rightarrow> Backend \<Rightarrow> (nat \<times> nat) \<times> Backend" where
  "submit_marker n s =
     (case new_command_buffer n s of
        (c, s1) \<Rightarrow>
          (case encode_submission_waits n [] c s1 of
             ((c1, waits, signal_value), s2) \<Rightarrow>
               (case submit_buffer (encode_resource_signals [(n, signal_value)] c1) s2 of
                  (ticket, s3) \<Rightarrow> ((cb_id c, ticket), s3))))"

definition stream_record_marker :: "MetalObjects \<Rightarrow> nat \<Rightarrow> Backend \<Rightarrow> (cudaError \<times> nat) \<times> Backend" where
  "stream_record_marker mo n s =
     (let s1 = flush_all n s in
      if \<not> mo_command_buffer mo then ((cudaErrorUnknown, 0), s1)
      else case submit_marker n s1 of ((i, ticket), s2) \<Rightarrow> ((cudaSuccess, ticket), s2))"

definition reserve_host_value :: "nat \<Rightarrow> Backend \<Rightarrow> nat \<times> Backend" where
  "reserve_host_value n s =
     (let st = bk_streams s n; v = si_next_access_value st
      in (v, set_stream n (st\<lparr>si_next_access_value := Suc v, si_latest_submission_value := v,
               si_latest_submission_requires_wait := True\<rparr>) s))"

definition set_latest_host_barrier :: "nat \<Rightarrow> nat \<Rightarrow> Backend \<Rightarrow> Backend" where
  "set_latest_host_barrier n v s =
     set_stream n ((bk_streams s n)\<lparr>si_latest_submission_value := v, si_latest_submission_requires_wait := True\<rparr>) s"

definition add_pending_host_operation :: "nat \<Rightarrow> Backend \<Rightarrow> Backend" where
  "add_pending_host_operation n s =
     set_stream n ((bk_streams s n)\<lparr>si_pending_host_operations := Suc (si_pending_host_operations (bk_streams s n))\<rparr>) s"

definition complete_pending_host_operation :: "nat \<Rightarrow> Backend \<Rightarrow> Backend" where
  "complete_pending_host_operation n s =
     set_stream n ((bk_streams s n)\<lparr>si_pending_host_operations := si_pending_host_operations (bk_streams s n) - 1\<rparr>) s"

definition enqueue_host_function :: "MetalObjects \<Rightarrow> nat \<Rightarrow> nat \<Rightarrow> Backend \<Rightarrow> cudaError \<times> Backend" where
  "enqueue_host_function mo n f s =
     (let s1 = flush_all n s in
      if \<not> mo_command_buffer mo then (cudaErrorUnknown, s1)
      else case submit_marker n s1 of
        ((marker, _), s2) \<Rightarrow>
          (case reserve_host_value n s2 of
             (v, s3) \<Rightarrow>
               if \<not> mo_completion mo then (cudaErrorUnknown, s3\<lparr>bk_events := (bk_events s3)(n := v)\<rparr>)
               else (case new_command_buffer n (commit (HostFn n v marker f) s3) of
                 (c, s4) \<Rightarrow>
                   (case encode_submission_waits n [] c s4 of
                      ((c1, waits, signal_value), s5) \<Rightarrow>
                        (cudaSuccess, add_pending_host_operation n
                          (snd (submit_buffer (encode_resource_signals [(n, signal_value)] c1)
                             (set_latest_host_barrier n v s5))))))))"

section \<open>What Metal and the dispatch queue do\<close>

text \<open>
  A command buffer starts when the earlier ones of its queue have finished and every event it waits for
  has the value; it then signals its own.  A host function starts when its marker has finished.
\<close>

fun runnable :: "Backend \<Rightarrow> item list \<Rightarrow> item \<Rightarrow> bool" where
  "runnable s earlier (Gpu c) \<longleftrightarrow>
     list_all (\<lambda>x. case x of Gpu d \<Rightarrow> cb_stream d \<noteq> cb_stream c | HostFn _ _ _ _ \<Rightarrow> True) earlier \<and>
     list_all (\<lambda>(e, v). v \<le> bk_events s e) (cb_waits c)"
| "runnable s earlier (HostFn n v m f) \<longleftrightarrow>
     list_all (\<lambda>x. case x of Gpu d \<Rightarrow> cb_id d \<noteq> m | HostFn _ _ _ _ \<Rightarrow> True) (bk_todo s)"

fun signal :: "item \<Rightarrow> Backend \<Rightarrow> Backend" where
  "signal (Gpu c) s = s\<lparr>bk_events := fold (\<lambda>(e, v) ev. ev(e := v)) (cb_signals c) (bk_events s)\<rparr>"
| "signal (HostFn n v m f) s = complete_pending_host_operation n (s\<lparr>bk_events := (bk_events s)(n := v)\<rparr>)"

text \<open>The work at position \<open>i\<close> of what is outstanding finishes.\<close>

definition finish :: "nat \<Rightarrow> Backend \<Rightarrow> Backend" where
  "finish i s = (signal (bk_todo s ! i) s)\<lparr>bk_todo := take i (bk_todo s) @ drop (Suc i) (bk_todo s)\<rparr>"

definition can_finish :: "nat \<Rightarrow> Backend \<Rightarrow> bool" where
  "can_finish i s \<longleftrightarrow> i < length (bk_todo s) \<and> runnable s (take i (bk_todo s)) (bk_todo s ! i)"

end
