(* ===== verification/BackendFences.thy ===== *)
theory BackendFences
  imports BackendStreams
begin

text \<open>
  Why the fences of the Metal backend order the submissions and never block for ever.

  A batch counts as submitted when it is opened: until it is closed no other submission is made.  What
  the proofs need of a backend is its \<open>view\<close>, and the list of what is outstanding, the open batch last.
  \<open>good\<close> is the invariant over the two.
\<close>

section \<open>The view\<close>

record View =
  v_participates :: "nat \<Rightarrow> bool"
  v_legacy :: "nat \<Rightarrow> bool"
  v_next :: "nat \<Rightarrow> nat"
  v_latest :: "nat \<Rightarrow> nat"
  v_host :: "nat \<Rightarrow> bool"
  v_last :: "nat \<Rightarrow> (nat \<times> nat) option"
  v_event :: "nat \<Rightarrow> nat"
  v_live :: "nat list"
  v_default :: nat
  v_buffer :: nat
  v_stream :: nat

definition view :: "Backend \<Rightarrow> View" where
  "view s = \<lparr>v_participates = (\<lambda>n. si_participates_in_legacy_sync (bk_streams s n)),
     v_legacy = (\<lambda>n. si_legacy_default (bk_streams s n)),
     v_next = (\<lambda>n. si_next_access_value (bk_streams s n)),
     v_latest = (\<lambda>n. si_latest_submission_value (bk_streams s n)),
     v_host = (\<lambda>n. si_latest_submission_requires_wait (bk_streams s n)),
     v_last = bk_last_access s, v_event = bk_events s, v_live = bk_live s, v_default = bk_default_stream s,
     v_buffer = bk_next_buffer s, v_stream = bk_next_stream s\<rparr>"

fun stream_of :: "item \<Rightarrow> nat" where
  "stream_of (Gpu c) = cb_stream c"
| "stream_of (HostFn n v m f) = n"

fun signals_of :: "item \<Rightarrow> (nat \<times> nat) list" where
  "signals_of (Gpu c) = cb_signals c"
| "signals_of (HostFn n v m f) = [(n, v)]"

definition val_of :: "item \<Rightarrow> nat" where
  "val_of x = snd (hd (signals_of x))"

fun waits_of :: "item \<Rightarrow> (nat \<times> nat) list" where
  "waits_of (Gpu c) = cb_waits c"
| "waits_of (HostFn n v m f) = []"

fun work_of :: "item \<Rightarrow> nat list list" where
  "work_of (Gpu c) = cb_work c"
| "work_of (HostFn n v m f) = [[]]"

definition carries :: "item \<Rightarrow> bool" where
  "carries x \<longleftrightarrow> work_of x \<noteq> []"

definition uses :: "item \<Rightarrow> nat set" where
  "uses x = set (concat (work_of x))"

definition is_gpu :: "item \<Rightarrow> bool" where
  "is_gpu x = (case x of Gpu _ \<Rightarrow> True | HostFn _ _ _ _ \<Rightarrow> False)"

text \<open>The legacy default stream is ordered with every stream that takes part.\<close>

definition legacy_pair :: "View \<Rightarrow> nat \<Rightarrow> nat \<Rightarrow> bool" where
  "legacy_pair V m n \<longleftrightarrow> v_participates V m \<and> v_participates V n \<and> (m = v_default V \<or> n = v_default V)"

text \<open>\<open>y\<close>, submitted before \<open>x\<close>, must have finished before \<open>x\<close> starts.\<close>

definition precedes :: "View \<Rightarrow> item \<Rightarrow> item \<Rightarrow> bool" where
  "precedes V y x \<longleftrightarrow> carries y \<and>
     (stream_of y = stream_of x \<or> legacy_pair V (stream_of y) (stream_of x) \<or> uses y \<inter> uses x \<noteq> {})"

fun runs :: "View \<Rightarrow> item list \<Rightarrow> item \<Rightarrow> bool" where
  "runs V pre (Gpu c) \<longleftrightarrow> (\<forall>y\<in>set pre. is_gpu y \<longrightarrow> stream_of y \<noteq> cb_stream c) \<and>
     (\<forall>(e, v)\<in>set (cb_waits c). v \<le> v_event V e)"
| "runs V pre (HostFn n v m f) \<longleftrightarrow> (\<forall>c. Gpu c \<in> set pre \<longrightarrow> cb_id c \<noteq> m)"

section \<open>The invariant\<close>

definition waits_cover :: "item \<Rightarrow> item \<Rightarrow> bool" where
  "waits_cover x y \<longleftrightarrow> (\<exists>v. (stream_of y, v) \<in> set (waits_of x) \<and> val_of y \<le> v)"

definition signal_ok :: "View \<Rightarrow> item list \<Rightarrow> item \<Rightarrow> bool" where
  "signal_ok V pre x \<longleftrightarrow> signals_of x = [(stream_of x, val_of x)] \<and> v_event V (stream_of x) < val_of x \<and>
     (\<forall>y\<in>set pre. stream_of y = stream_of x \<longrightarrow> val_of y < val_of x)"

definition waits_ok :: "View \<Rightarrow> item list \<Rightarrow> item \<Rightarrow> bool" where
  "waits_ok V pre x \<longleftrightarrow> (\<forall>(e, v)\<in>set (waits_of x).
     v \<le> v_event V e \<or> (\<exists>y\<in>set pre. stream_of y = e \<and> v \<le> val_of y))"

text \<open>A later command buffer of its stream waits for a host function, or comes after one that does.\<close>

definition awaited :: "item list \<Rightarrow> nat \<Rightarrow> nat \<Rightarrow> bool" where
  "awaited L n v \<longleftrightarrow> (\<exists>d. Gpu d \<in> set L \<and> cb_stream d = n \<and> (n, v) \<in> set (cb_waits d))"

definition host_ok :: "item list \<Rightarrow> item \<Rightarrow> bool" where
  "host_ok pre x \<longleftrightarrow> (\<forall>c. x = Gpu c \<longrightarrow> (\<forall>n v m f. HostFn n v m f \<in> set pre \<longrightarrow>
     cb_id c \<noteq> m \<and> (n = cb_stream c \<longrightarrow> awaited (pre @ [x]) n v)))"

definition marker_ok :: "View \<Rightarrow> item list \<Rightarrow> item \<Rightarrow> bool" where
  "marker_ok V pre x \<longleftrightarrow> (\<forall>n v m f. x = HostFn n v m f \<longrightarrow>
     (\<exists>p c. pre = p @ [Gpu c] \<and> cb_id c = m \<and> cb_stream c = n) \<or>
     (\<forall>y\<in>set pre. stream_of y \<noteq> n \<and> \<not> precedes V y x))"

definition legacy_ok :: "View \<Rightarrow> item list \<Rightarrow> item \<Rightarrow> bool" where
  "legacy_ok V pre x \<longleftrightarrow> (is_gpu x \<longrightarrow> (\<forall>y\<in>set pre. carries y \<longrightarrow> stream_of y \<noteq> stream_of x \<longrightarrow>
     legacy_pair V (stream_of y) (stream_of x) \<longrightarrow> waits_cover x y))"

definition last_user :: "nat \<Rightarrow> item list \<Rightarrow> item \<Rightarrow> bool" where
  "last_user b L y \<longleftrightarrow> (\<exists>p q. L = p @ y # q \<and> b \<in> uses y \<and> (\<forall>z\<in>set q. b \<notin> uses z))"

definition buffers_ok :: "item list \<Rightarrow> item \<Rightarrow> bool" where
  "buffers_ok pre x \<longleftrightarrow> (\<forall>b\<in>uses x. \<forall>y. last_user b pre y \<longrightarrow> stream_of y = stream_of x \<or> waits_cover x y)"

definition sound :: "View \<Rightarrow> item list \<Rightarrow> item \<Rightarrow> bool" where
  "sound V pre x \<longleftrightarrow> signal_ok V pre x \<and> waits_ok V pre x \<and> host_ok pre x \<and> marker_ok V pre x \<and>
     legacy_ok V pre x \<and> buffers_ok pre x"

definition all_sound :: "View \<Rightarrow> item list \<Rightarrow> bool" where
  "all_sound V L \<longleftrightarrow> (\<forall>pre x post. L = pre @ x # post \<longrightarrow> sound V pre x)"

text \<open>Every reserved value has been signalled or is on its way.\<close>

definition values_ok :: "View \<Rightarrow> item list \<Rightarrow> bool" where
  "values_ok V L \<longleftrightarrow>
     (\<forall>e v. v < v_next V e \<longrightarrow> v \<le> v_event V e \<or> (\<exists>y\<in>set L. stream_of y = e \<and> v \<le> val_of y)) \<and>
     (\<forall>e. v_event V e < v_next V e \<and> v_latest V e < v_next V e) \<and> (\<forall>y\<in>set L. val_of y < v_next V (stream_of y)) \<and>
     (\<forall>b e v. v_last V b = Some (e, v) \<longrightarrow> v < v_next V e) \<and>
     (\<forall>y\<in>set L. carries y \<longrightarrow> val_of y \<le> v_latest V (stream_of y)) \<and>
     (\<forall>b y. last_user b L y \<longrightarrow> v_last V b = Some (stream_of y, val_of y))"

definition hosts_ok :: "View \<Rightarrow> item list \<Rightarrow> bool" where
  "hosts_ok V L \<longleftrightarrow>
     (\<forall>n v m f. HostFn n v m f \<in> set L \<longrightarrow> m < v_buffer V \<and> (awaited L n v \<or> (v_host V n \<and> v_latest V n = v))) \<and>
     (\<forall>c. Gpu c \<in> set L \<longrightarrow> cb_id c < v_buffer V)"

definition streams_ok :: "View \<Rightarrow> item list \<Rightarrow> bool" where
  "streams_ok V L \<longleftrightarrow>
     (\<forall>y\<in>set L. stream_of y \<in> set (v_live V) \<or> stream_of y = v_default V) \<and>
     (\<forall>n. v_legacy V n \<longleftrightarrow> n = v_default V \<or> v_stream V \<le> n) \<and> v_participates V (v_default V) \<and>
     v_default V < v_stream V \<and> v_default V \<notin> set (v_live V) \<and> (\<forall>n\<in>set (v_live V). n < v_stream V) \<and>
     (\<forall>n\<ge>v_stream V. v_next V n = 1 \<and> v_latest V n = 0 \<and> v_event V n = 0 \<and> \<not> v_host V n)"

definition good :: "View \<Rightarrow> item list \<Rightarrow> bool" where
  "good V L \<longleftrightarrow> all_sound V L \<and> values_ok V L \<and> hosts_ok V L \<and> streams_ok V L"

lemma values_okD:
  assumes "values_ok V L"
  shows "v < v_next V e \<Longrightarrow> v \<le> v_event V e \<or> (\<exists>y\<in>set L. stream_of y = e \<and> v \<le> val_of y)"
    "v_event V e < v_next V e" "v_latest V e < v_next V e" "y \<in> set L \<Longrightarrow> val_of y < v_next V (stream_of y)"
    "v_last V b = Some (e, v) \<Longrightarrow> v < v_next V e" "y \<in> set L \<Longrightarrow> carries y \<Longrightarrow> val_of y \<le> v_latest V (stream_of y)"
    "last_user b L y \<Longrightarrow> v_last V b = Some (stream_of y, val_of y)"
  using assms unfolding values_ok_def by blast+

lemmas sound_defs = sound_def signal_ok_def waits_ok_def host_ok_def marker_ok_def legacy_ok_def buffers_ok_def

lemma all_sound_snoc: "all_sound V (L @ [x]) \<longleftrightarrow> all_sound V L \<and> sound V L x"
proof
  assume a: "all_sound V (L @ [x])"
  then have "sound V L x" unfolding all_sound_def by blast
  moreover have "all_sound V L" using a unfolding all_sound_def by (metis append.assoc append_Cons)
  ultimately show "all_sound V L \<and> sound V L x" by simp
next
  assume a: "all_sound V L \<and> sound V L x"
  show "all_sound V (L @ [x])"
    unfolding all_sound_def
  proof (intro allI impI)
    fix pre y post
    assume e: "L @ [x] = pre @ y # post"
    show "sound V pre y"
    proof (cases post rule: rev_cases)
      case Nil
      then show ?thesis using e a by simp
    next
      case (snoc q z)
      then have "L = pre @ y # q" using e by simp
      then show ?thesis using a unfolding all_sound_def by blast
    qed
  qed
qed

lemma all_soundD: "all_sound V (pre @ x # post) \<Longrightarrow> sound V pre x"
  unfolding all_sound_def by blast

section \<open>Order and progress\<close>

lemma uses_gpu: "b \<in> uses x \<Longrightarrow> is_gpu x"
  by (cases x) (simp_all add: uses_def is_gpu_def)

lemma all_sound_signal: "all_sound V L \<Longrightarrow> y \<in> set L \<Longrightarrow> v_event V (stream_of y) < val_of y"
  by (metis all_soundD signal_ok_def sound_def split_list)

lemma covered_blocks:
  assumes "all_sound V L" "y \<in> set L" "waits_cover x y" "is_gpu x"
  shows "\<not> runs V pre x"
proof -
  obtain v where v: "(stream_of y, v) \<in> set (waits_of x)" "val_of y \<le> v" using assms(3) by (auto simp: waits_cover_def)
  then have "\<not> v \<le> v_event V (stream_of y)" using all_sound_signal[OF assms(1,2)] by simp
  then show ?thesis using v(1) assms(4) by (cases x) (auto simp: is_gpu_def)
qed

lemma last_user_ex:
  assumes "y \<in> set L" "b \<in> uses y"
  shows "\<exists>z. last_user b L z"
  using assms
proof (induction L rule: rev_induct)
  case (snoc x L)
  show ?case
  proof (cases "b \<in> uses x")
    case True
    then show ?thesis unfolding last_user_def by (metis empty_iff list.set(1))
  next
    case False
    then obtain z where "last_user b L z" using snoc by auto
    then obtain p q where "L = p @ z # q" "b \<in> uses z" "\<forall>w\<in>set q. b \<notin> uses w" by (auto simp: last_user_def)
    then have "last_user b (L @ [x]) z" unfolding last_user_def using False by (intro exI[of _ p] exI[of _ "q @ [x]"]) auto
    then show ?thesis by blast
  qed
qed simp

lemma last_user_in: "last_user b L y \<Longrightarrow> y \<in> set L \<and> b \<in> uses y"
  by (auto simp: last_user_def)

text \<open>What runs is the first of its stream.\<close>

lemma runs_first:
  assumes "all_sound V (pre @ x # post)" "runs V pre x" "y \<in> set pre"
  shows "stream_of y \<noteq> stream_of x"
proof
  assume eq: "stream_of y = stream_of x"
  note s = all_soundD[OF assms(1)]
  show False
  proof (cases x)
    case (Gpu c)
    have "\<not> is_gpu y" using assms(2,3) eq Gpu by auto
    then obtain n v m f where y: "y = HostFn n v m f" by (cases y) (auto simp: is_gpu_def)
    have "awaited (pre @ [x]) n v" using s assms(3) eq unfolding y Gpu by (auto simp: sound_def host_ok_def)
    then obtain d where d: "Gpu d \<in> set (pre @ [x])" "cb_stream d = n" "(n, v) \<in> set (cb_waits d)" by (auto simp: awaited_def)
    have "d = c" using d assms(2) eq Gpu y by (auto simp: is_gpu_def)
    then have "waits_cover x y" using d Gpu y by (auto simp: waits_cover_def val_of_def)
    moreover have "y \<in> set (pre @ x # post)" "is_gpu x" using assms(3) Gpu by (auto simp: is_gpu_def)
    ultimately show False using covered_blocks[OF assms(1)] assms(2) by blast
  next
    case (HostFn n v m f)
    then obtain p c where "pre = p @ [Gpu c]" "cb_id c = m"
      using s assms(3) eq by (force simp: sound_def marker_ok_def)
    then show False using assms(2) HostFn by auto
  qed
qed

lemma precedes_blocks:
  assumes "all_sound V (pre @ x # post)" "y \<in> set pre" "precedes V y x"
  shows "\<not> runs V pre x"
proof
  assume r: "runs V pre x"
  note s = all_soundD[OF assms(1)]
  have ne: "stream_of y \<noteq> stream_of x" using runs_first[OF assms(1) r assms(2)] .
  show False
  proof (cases "is_gpu x")
    case True
    show False
    proof (cases "legacy_pair V (stream_of y) (stream_of x)")
      case l: True
      have "waits_cover x y" using s assms(2,3) True ne l by (auto simp: sound_def legacy_ok_def precedes_def)
      then show False using covered_blocks[OF assms(1) _ _ True] assms(2) r by auto
    next
      case False
      then obtain b where b: "b \<in> uses y" "b \<in> uses x" using assms(3) ne by (auto simp: precedes_def)
      obtain z where z: "last_user b pre z" using last_user_ex[OF assms(2) b(1)] by blast
      then have "stream_of z = stream_of x \<or> waits_cover x z" using s b(2) by (auto simp: sound_def buffers_ok_def)
      moreover have "z \<in> set pre" using last_user_in[OF z] by simp
      ultimately show False
        using covered_blocks[OF assms(1) _ _ True, of z] runs_first[OF assms(1) r, of z] r by auto
    qed
  next
    case False
    then obtain n v m f where x: "x = HostFn n v m f" by (cases x) (auto simp: is_gpu_def)
    then have "\<exists>p c. pre = p @ [Gpu c] \<and> cb_id c = m"
      using s assms(2,3) by (auto simp: sound_def marker_ok_def)
    then show False using r x by auto
  qed
qed

lemma head_runs:
  assumes "all_sound V (x # post)"
  shows "runs V [] x"
proof -
  have "sound V [] x" using assms all_soundD[of V "[]" x post] by simp
  then show ?thesis by (cases x) (auto simp: sound_def waits_ok_def)
qed

section \<open>Something finishes\<close>

definition fired :: "item \<Rightarrow> View \<Rightarrow> View" where
  "fired x V = V\<lparr>v_event := (v_event V)(stream_of x := val_of x)\<rparr>"

lemma fired_sel [simp]:
  "v_participates (fired x V) = v_participates V" "v_legacy (fired x V) = v_legacy V" "v_next (fired x V) = v_next V"
  "v_latest (fired x V) = v_latest V" "v_host (fired x V) = v_host V" "v_last (fired x V) = v_last V"
  "v_live (fired x V) = v_live V" "v_default (fired x V) = v_default V" "v_buffer (fired x V) = v_buffer V"
  "v_stream (fired x V) = v_stream V" "v_event (fired x V) = (v_event V)(stream_of x := val_of x)"
  by (simp_all add: fired_def)

lemma precedes_fired [simp]: "precedes (fired x V) = precedes V" "legacy_pair (fired x V) = legacy_pair V"
  by (simp_all add: precedes_def legacy_pair_def fun_eq_iff)

lemma uses_carries: "b \<in> uses y \<Longrightarrow> carries y"
  by (auto simp: uses_def carries_def)

lemma last_user_remove:
  assumes "last_user b (pre @ post) z"
  shows "last_user b (pre @ x # post) z \<or> (z \<in> set pre \<and> b \<in> uses x \<and> b \<in> uses z)"
proof -
  obtain p q where l: "pre @ post = p @ z # q" "b \<in> uses z" "\<forall>w\<in>set q. b \<notin> uses w" using assms by (auto simp: last_user_def)
  show ?thesis
  proof (cases "length pre \<le> length p")
    case True
    then obtain r where "p = pre @ r" "post = r @ z # q" using l(1) by (auto simp: append_eq_append_conv2)
    then show ?thesis using l(2,3) unfolding last_user_def by (intro disjI1 exI[of _ "pre @ x # r"] exI[of _ q]) simp
  next
    case False
    then obtain r where r: "pre = p @ z # r" "q = r @ post"
      using l(1) by (auto simp: append_eq_append_conv2 append_eq_Cons_conv)
    show ?thesis
    proof (cases "b \<in> uses x")
      case True
      then show ?thesis using r l(2) by simp
    next
      case False
      then show ?thesis using r l(2,3) unfolding last_user_def by (intro disjI1 exI[of _ p] exI[of _ "r @ x # post"]) auto
    qed
  qed
qed

lemma last_user_finish:
  assumes "all_sound V (pre @ x # post)" "runs V pre x" "last_user b (pre @ r) z"
  shows "last_user b (pre @ x # r) z"
proof -
  have "precedes V z x" if "b \<in> uses x" "b \<in> uses z" using that unfolding precedes_def by (blast intro: uses_carries)
  then have "\<not> (z \<in> set pre \<and> b \<in> uses x \<and> b \<in> uses z)"
    using precedes_blocks[OF assms(1), of z] assms(2) by blast
  then show ?thesis using last_user_remove[OF assms(3), of x] by blast
qed

lemma awaited_finish:
  assumes "all_sound V (pre @ x # post)" "runs V pre x" "HostFn n v m f \<in> set (pre @ x # post)" "awaited (pre @ x # r) n v"
  shows "awaited (pre @ r) n v"
proof -
  obtain d where d: "Gpu d \<in> set (pre @ x # r)" "cb_stream d = n" "(n, v) \<in> set (cb_waits d)"
    using assms(4) by (auto simp: awaited_def)
  have "x \<noteq> Gpu d"
  proof
    assume x: "x = Gpu d"
    then have "waits_cover x (HostFn n v m f)" using d by (auto simp: waits_cover_def val_of_def)
    moreover have "is_gpu x" using x by (simp add: is_gpu_def)
    ultimately show False using covered_blocks[OF assms(1,3)] assms(2) by blast
  qed
  then show ?thesis using d unfolding awaited_def by auto
qed

lemma sound_before:
  assumes "sound V p y" "stream_of y \<noteq> stream_of x" "v_event V (stream_of x) \<le> val_of x"
  shows "sound (fired x V) p y"
  using assms by (fastforce simp: sound_def signal_ok_def waits_ok_def host_ok_def marker_ok_def legacy_ok_def buffers_ok_def)

lemma sound_after:
  assumes a: "all_sound V (pre @ x # post)" and r: "runs V pre x" and e: "post = r @ y # q"
  shows "sound (fired x V) (pre @ r) y"
proof -
  have s: "sound V (pre @ x # r) y" using all_soundD[of V "pre @ x # r" y q] a e by simp
  have x: "v_event V (stream_of x) < val_of x" using all_sound_signal[OF a, of x] by simp
  have "signal_ok (fired x V) (pre @ r) y" using s by (auto simp: sound_def signal_ok_def)
  moreover have "waits_ok (fired x V) (pre @ r) y"
    using s x unfolding sound_def waits_ok_def by (fastforce simp: split: if_splits)
  moreover have "host_ok (pre @ r) y"
    unfolding host_ok_def
  proof (intro allI impI conjI)
    fix c n v m f
    assume y: "y = Gpu c" and h: "HostFn n v m f \<in> set (pre @ r)"
    show "cb_id c \<noteq> m" using s y h by (auto simp: sound_def host_ok_def)
    assume "n = cb_stream c"
    then have "awaited (pre @ x # (r @ [y])) n v" using s y h by (auto simp: sound_def host_ok_def)
    then show "awaited ((pre @ r) @ [y]) n v"
      using awaited_finish[OF a r, of n v m f "r @ [y]"] h e by auto
  qed
  moreover have "marker_ok (fired x V) (pre @ r) y"
    unfolding marker_ok_def precedes_fired
  proof (intro allI impI)
    fix n v m f
    assume y: "y = HostFn n v m f"
    have "(\<exists>p c. pre @ x # r = p @ [Gpu c] \<and> cb_id c = m \<and> cb_stream c = n) \<or>
       (\<forall>z\<in>set (pre @ x # r). stream_of z \<noteq> n \<and> \<not> precedes V z y)"
      using s y by (auto simp: sound_def marker_ok_def)
    then show "(\<exists>p c. pre @ r = p @ [Gpu c] \<and> cb_id c = m \<and> cb_stream c = n) \<or>
       (\<forall>z\<in>set (pre @ r). stream_of z \<noteq> n \<and> \<not> precedes V z y)"
    proof (elim disjE exE conjE)
      fix p c
      assume pc: "pre @ x # r = p @ [Gpu c]" "cb_id c = m" "cb_stream c = n"
      show ?thesis
      proof (cases r rule: rev_cases)
        case Nil
        then have xc: "x = Gpu c" "stream_of x = n" using pc by auto
        have "stream_of z \<noteq> n \<and> \<not> precedes V z y" if "z \<in> set pre" for z
          using runs_first[OF a r that] precedes_blocks[OF a that] r xc y
          by (auto simp: precedes_def uses_def)
        then show ?thesis using Nil by simp
      next
        case (snoc r' z)
        then show ?thesis using pc by auto
      qed
    qed auto
  qed
  moreover have "legacy_ok (fired x V) (pre @ r) y" using s by (auto simp: sound_def legacy_ok_def)
  moreover have "buffers_ok (pre @ r) y"
    using s last_user_finish[OF a r] by (auto simp: sound_def buffers_ok_def)
  ultimately show ?thesis by (simp add: sound_def)
qed

lemma all_sound_finish:
  assumes a: "all_sound V (pre @ x # post)" and r: "runs V pre x"
  shows "all_sound (fired x V) (pre @ post)"
  unfolding all_sound_def
proof (intro allI impI)
  fix p y q
  assume e: "pre @ post = p @ y # q"
  show "sound (fired x V) p y"
  proof (cases "length pre \<le> length p")
    case True
    then obtain t where "p = pre @ t" "post = t @ y # q" using e by (auto simp: append_eq_append_conv2)
    then show ?thesis using sound_after[OF a r] by simp
  next
    case False
    then obtain t where t: "pre = p @ y # t" using e by (auto simp: append_eq_append_conv2 append_eq_Cons_conv)
    have "sound V p y" using all_soundD[of V p y "t @ x # post"] a t by simp
    moreover have "stream_of y \<noteq> stream_of x" using runs_first[OF a r] t by simp
    ultimately show ?thesis using sound_before all_sound_signal[OF a, of x] by fastforce
  qed
qed

lemma good_finish:
  assumes g: "good V (pre @ x # post)" and r: "runs V pre x"
  shows "good (fired x V) (pre @ post)"
proof -
  have a: "all_sound V (pre @ x # post)" using g by (simp add: good_def)
  have x: "v_event V (stream_of x) < val_of x" using all_sound_signal[OF a, of x] by simp
  have "values_ok (fired x V) (pre @ post)"
  proof -
    have v: "values_ok V (pre @ x # post)" using g by (simp add: good_def)
    have "v \<le> v_event (fired x V) e \<or> (\<exists>y\<in>set (pre @ post). stream_of y = e \<and> v \<le> val_of y)" if "v < v_next V e" for e v
      using v that x unfolding values_ok_def by fastforce
    then show ?thesis
      using v last_user_finish[OF a r, of _ post] unfolding values_ok_def by auto
  qed
  moreover have "hosts_ok (fired x V) (pre @ post)"
    using g awaited_finish[OF a r, of _ _ _ _ post] unfolding good_def hosts_ok_def by fastforce
  moreover have "streams_ok (fired x V) (pre @ post)"
    using g unfolding good_def streams_ok_def by fastforce
  ultimately show ?thesis using all_sound_finish[OF a r] by (simp add: good_def)
qed

section \<open>Something is submitted\<close>

definition reserved :: "nat \<Rightarrow> bool \<Rightarrow> View \<Rightarrow> View" where
  "reserved n host V = V\<lparr>v_next := (v_next V)(n := Suc (v_next V n)), v_latest := (v_latest V)(n := v_next V n),
     v_host := (v_host V)(n := host)\<rparr>"

definition touched :: "nat set \<Rightarrow> nat \<times> nat \<Rightarrow> View \<Rightarrow> View" where
  "touched B w V = V\<lparr>v_last := (\<lambda>b. if b \<in> B then Some w else v_last V b)\<rparr>"

lemma reserved_sel [simp]:
  "v_participates (reserved n h V) = v_participates V" "v_legacy (reserved n h V) = v_legacy V"
  "v_next (reserved n h V) = (v_next V)(n := Suc (v_next V n))" "v_latest (reserved n h V) = (v_latest V)(n := v_next V n)"
  "v_host (reserved n h V) = (v_host V)(n := h)" "v_last (reserved n h V) = v_last V" "v_event (reserved n h V) = v_event V"
  "v_live (reserved n h V) = v_live V" "v_default (reserved n h V) = v_default V" "v_buffer (reserved n h V) = v_buffer V"
  "v_stream (reserved n h V) = v_stream V"
  by (simp_all add: reserved_def)

lemma touched_sel [simp]:
  "v_participates (touched B w V) = v_participates V" "v_legacy (touched B w V) = v_legacy V"
  "v_next (touched B w V) = v_next V" "v_latest (touched B w V) = v_latest V" "v_host (touched B w V) = v_host V"
  "v_last (touched B w V) = (\<lambda>b. if b \<in> B then Some w else v_last V b)" "v_event (touched B w V) = v_event V"
  "v_live (touched B w V) = v_live V" "v_default (touched B w V) = v_default V" "v_buffer (touched B w V) = v_buffer V"
  "v_stream (touched B w V) = v_stream V"
  by (simp_all add: touched_def)

text \<open>Soundness of an item depends on the event values and the flags of the streams only.\<close>

lemma sound_cong:
  assumes "v_event V = v_event V'" "\<forall>y\<in>set pre. v_participates V (stream_of y) = v_participates V' (stream_of y)"
    "v_participates V (stream_of x) = v_participates V' (stream_of x)" "v_default V = v_default V'"
  shows "sound V pre x = sound V' pre x"
proof -
  have "legacy_pair V (stream_of y) (stream_of x) = legacy_pair V' (stream_of y) (stream_of x)" if "y \<in> set pre" for y
    using assms that by (simp add: legacy_pair_def)
  moreover from this have "precedes V y x = precedes V' y x" if "y \<in> set pre" for y
    using that by (simp add: precedes_def)
  ultimately have "marker_ok V pre x = marker_ok V' pre x" "legacy_ok V pre x = legacy_ok V' pre x"
    unfolding marker_ok_def legacy_ok_def by auto
  moreover have "signal_ok V pre x = signal_ok V' pre x" "waits_ok V pre x = waits_ok V' pre x"
    using assms(1) by (simp_all add: signal_ok_def waits_ok_def)
  ultimately show ?thesis by (simp add: sound_def)
qed

lemma all_sound_cong:
  assumes "v_event V = v_event V'" "\<forall>y\<in>set L. v_participates V (stream_of y) = v_participates V' (stream_of y)"
    "v_default V = v_default V'"
  shows "all_sound V L = all_sound V' L"
proof -
  have "sound V pre x = sound V' pre x" if "L = pre @ x # post" for pre x post
    by (rule sound_cong) (use assms that in auto)
  then show ?thesis unfolding all_sound_def by blast
qed

definition fence_set :: "View \<Rightarrow> nat \<Rightarrow> nat set \<Rightarrow> (nat \<times> nat) set" where
  "fence_set V n B = {(m, v_latest V m) |m. v_latest V m \<noteq> 0 \<and> m \<noteq> n \<and>
       m \<in> set (if v_legacy V n then filter (v_participates V) (v_live V)
              else if v_participates V n then [v_default V] else [])} \<union>
     {(e, v). v \<noteq> 0 \<and> e \<noteq> n \<and> (\<exists>b\<in>B. v_last V b = Some (e, v))} \<union>
     (if v_host V n \<and> v_latest V n \<noteq> 0 then {(n, v_latest V n)} else {})"

lemma last_user_snoc: "last_user b (L @ [x]) y \<longleftrightarrow> (if b \<in> uses x then y = x else last_user b L y)"
proof (cases "b \<in> uses x")
  case True
  have "y = x" if u: "last_user b (L @ [x]) y"
  proof -
    obtain p q where l: "L @ [x] = p @ y # q" "\<forall>z\<in>set q. b \<notin> uses z"
      using u unfolding last_user_def by blast
    show ?thesis
    proof (cases q rule: rev_cases)
      case Nil
      then show ?thesis using l(1) by simp
    next
      case (snoc q' z)
      then have "z = x" using l(1) by simp
      then show ?thesis using l(2) snoc True by simp
    qed
  qed
  moreover have "last_user b (L @ [x]) x" unfolding last_user_def using True by (intro exI[of _ L] exI[of _ "[]"]) simp
  ultimately show ?thesis using True by auto
next
  case False
  have "last_user b L y" if u: "last_user b (L @ [x]) y"
  proof -
    obtain p q where l: "L @ [x] = p @ y # q" "b \<in> uses y" "\<forall>z\<in>set q. b \<notin> uses z"
      using u unfolding last_user_def by blast
    show ?thesis
    proof (cases q rule: rev_cases)
      case Nil
      then show ?thesis using l False by simp
    next
      case (snoc q' z)
      then have "L = p @ y # q'" using l(1) by simp
      then show ?thesis using l(2,3) snoc unfolding last_user_def by (intro exI[of _ p] exI[of _ q']) simp
    qed
  qed
  moreover have "last_user b (L @ [x]) y" if l: "last_user b L y"
  proof -
    obtain p q where "L = p @ y # q" "b \<in> uses y" "\<forall>z\<in>set q. b \<notin> uses z" using l by (auto simp: last_user_def)
    then show ?thesis using False unfolding last_user_def by (intro exI[of _ p] exI[of _ "q @ [x]"]) auto
  qed
  ultimately show ?thesis using False by auto
qed

lemma awaited_snoc: "awaited (L @ [x]) n v \<longleftrightarrow> awaited L n v \<or> (\<exists>d. x = Gpu d \<and> cb_stream d = n \<and> (n, v) \<in> set (cb_waits d))"
  by (auto simp: awaited_def)

definition submitted :: "nat \<Rightarrow> nat set \<Rightarrow> View \<Rightarrow> View" where
  "submitted n B V = (touched B (n, v_next V n) (reserved n False V))\<lparr>v_buffer := Suc (v_buffer V)\<rparr>"

lemma submitted_sel [simp]:
  "v_participates (submitted n B V) = v_participates V" "v_legacy (submitted n B V) = v_legacy V"
  "v_next (submitted n B V) = (v_next V)(n := Suc (v_next V n))" "v_latest (submitted n B V) = (v_latest V)(n := v_next V n)"
  "v_host (submitted n B V) = (v_host V)(n := False)"
  "v_last (submitted n B V) = (\<lambda>b. if b \<in> B then Some (n, v_next V n) else v_last V b)"
  "v_event (submitted n B V) = v_event V" "v_live (submitted n B V) = v_live V" "v_default (submitted n B V) = v_default V"
  "v_buffer (submitted n B V) = Suc (v_buffer V)" "v_stream (submitted n B V) = v_stream V"
  by (simp_all add: submitted_def cong: if_cong)

lemma sound_submitted:
  assumes g: "good V L" and n: "n \<in> set (v_live V) \<or> n = v_default V"
    and c: "cb_stream c = n" "cb_id c = v_buffer V" "cb_signals c = [(n, v_next V n)]" "uses (Gpu c) = B"
      "set (cb_waits c) = fence_set V n B"
  shows "sound V L (Gpu c)"
proof -
  have v: "values_ok V L" and h: "hosts_ok V L" and st: "streams_ok V L" and a: "all_sound V L" using g by (simp_all add: good_def)
  have "val_of (Gpu c) = v_next V n" using c(3) by (simp add: val_of_def)
  moreover have "val_of y < v_next V n" if "y \<in> set L" "stream_of y = n" for y
    using values_okD(4)[OF v that(1)] that(2) by simp
  ultimately have "signal_ok V L (Gpu c)" using values_okD(2)[OF v, of n] c(1,3) unfolding signal_ok_def by simp
  moreover have "waits_ok V L (Gpu c)"
    unfolding waits_ok_def
  proof clarify
    fix e w
    assume "(e, w) \<in> set (waits_of (Gpu c))" and "\<not> (\<exists>y\<in>set L. stream_of y = e \<and> w \<le> val_of y)"
    moreover from this have "w < v_next V e"
      using values_okD(3,5)[OF v] c(5) by (auto simp: fence_set_def split: if_splits)
    ultimately show "w \<le> v_event V e" using values_okD(1)[OF v] by blast
  qed
  moreover have "host_ok L (Gpu c)"
    unfolding host_ok_def
  proof (intro allI impI conjI)
    fix d m v i f
    assume d: "Gpu c = Gpu d" and hf: "HostFn m v i f \<in> set L"
    show "cb_id d \<noteq> i" using h hf d c(2) unfolding hosts_ok_def by auto
    assume m: "m = cb_stream d"
    have "v \<noteq> 0" using all_sound_signal[OF a hf] by (simp add: val_of_def)
    moreover have "awaited L m v \<or> (v_host V m \<and> v_latest V m = v)" using h hf unfolding hosts_ok_def by auto
    ultimately show "awaited (L @ [Gpu c]) m v"
      using m d c(1,5) by (auto simp: awaited_snoc fence_set_def)
  qed
  moreover have "legacy_ok V L (Gpu c)"
    unfolding legacy_ok_def
  proof (intro impI ballI)
    fix y
    assume y: "y \<in> set L" "carries y" "stream_of y \<noteq> stream_of (Gpu c)" "legacy_pair V (stream_of y) (stream_of (Gpu c))"
    let ?m = "stream_of y"
    have val: "val_of y \<le> v_latest V ?m" using v y unfolding values_ok_def by auto
    moreover have "v_latest V ?m \<noteq> 0" using val all_sound_signal[OF a y(1)] by simp
    moreover have "?m \<in> set (if v_legacy V n then filter (v_participates V) (v_live V)
              else if v_participates V n then [v_default V] else [])"
      using y(1,3,4) n st c(1) unfolding streams_ok_def legacy_pair_def by fastforce
    ultimately show "waits_cover (Gpu c) y" using y(3) c(1,5) unfolding waits_cover_def fence_set_def by auto
  qed
  moreover have "buffers_ok L (Gpu c)"
    unfolding buffers_ok_def
  proof (intro ballI allI impI)
    fix b y
    assume b: "b \<in> uses (Gpu c)" and y: "last_user b L y"
    have "v_last V b = Some (stream_of y, val_of y)" using v y unfolding values_ok_def by blast
    moreover have "val_of y \<noteq> 0" using all_sound_signal[OF a] last_user_in[OF y] by fastforce
    ultimately show "stream_of y = stream_of (Gpu c) \<or> waits_cover (Gpu c) y"
      using b c unfolding waits_cover_def fence_set_def by auto
  qed
  ultimately show ?thesis by (simp add: sound_def marker_ok_def)
qed

lemma good_submitted:
  assumes g: "good V L" and n: "n \<in> set (v_live V) \<or> n = v_default V"
    and c: "cb_stream c = n" "cb_id c = v_buffer V" "cb_signals c = [(n, v_next V n)]" "uses (Gpu c) = B"
      "set (cb_waits c) = fence_set V n B"
  shows "good (submitted n B V) (L @ [Gpu c])"
proof -
  let ?V = "submitted n B V"
  have v: "values_ok V L" and h: "hosts_ok V L" and st: "streams_ok V L" and a: "all_sound V L" using g by (simp_all add: good_def)
  have "all_sound ?V (L @ [Gpu c])"
    using a sound_submitted[OF assms] all_sound_cong[of V ?V "L @ [Gpu c]"] by (simp add: all_sound_snoc)
  moreover have "values_ok ?V (L @ [Gpu c])"
  proof -
    have val: "val_of (Gpu c) = v_next V n" using c(3) by (simp add: val_of_def)
    have "w \<le> v_event V e \<or> (\<exists>y\<in>set (L @ [Gpu c]). stream_of y = e \<and> w \<le> val_of y)" if "w < v_next ?V e" for e w
      using v that val c(1) unfolding values_ok_def by (auto split: if_splits)
    moreover have "v_last ?V b = Some (stream_of y, val_of y)" if "last_user b (L @ [Gpu c]) y" for b y
      using v that val c(1,4) unfolding values_ok_def by (auto simp: last_user_snoc split: if_splits)
    ultimately show ?thesis
      using v val c(1) unfolding values_ok_def by (auto simp: less_Suc_eq le_less)
  qed
  moreover have "hosts_ok ?V (L @ [Gpu c])"
    unfolding hosts_ok_def
  proof (intro conjI allI impI)
    fix m w i f
    assume hf: "HostFn m w i f \<in> set (L @ [Gpu c])"
    then have hl: "HostFn m w i f \<in> set L" by simp
    then show "i < v_buffer ?V" using h unfolding hosts_ok_def by fastforce
    have "w \<noteq> 0" using all_sound_signal[OF a hl] by (simp add: val_of_def)
    moreover have "awaited L m w \<or> (v_host V m \<and> v_latest V m = w)" using h hl unfolding hosts_ok_def by auto
    ultimately show "awaited (L @ [Gpu c]) m w \<or> v_host ?V m \<and> v_latest ?V m = w"
      using c(1,5) by (cases "m = n") (auto simp: awaited_snoc fence_set_def)
  next
    fix d
    assume "Gpu d \<in> set (L @ [Gpu c])"
    then show "cb_id d < v_buffer ?V" using h c(2) unfolding hosts_ok_def by fastforce
  qed
  moreover have "streams_ok ?V (L @ [Gpu c])"
    using st n c(1) unfolding streams_ok_def by fastforce
  ultimately show ?thesis by (simp add: good_def)
qed

text \<open>A host function, right after its marker.\<close>

lemma good_host:
  assumes g: "good V L" and n: "n < v_stream V" and h: "\<not> v_host V n"
    and m: "L = p @ [Gpu c]" "cb_stream c = n"
  shows "good (reserved n True V) (L @ [HostFn n (v_next V n) (cb_id c) f])"
proof -
  let ?V = "reserved n True V" and ?x = "HostFn n (v_next V n) (cb_id c) f"
  have v: "values_ok V L" and ho: "hosts_ok V L" and st: "streams_ok V L" and a: "all_sound V L" using g by (simp_all add: good_def)
  have val: "val_of ?x = v_next V n" by (simp add: val_of_def)
  have "val_of y < v_next V n" if "y \<in> set L" "stream_of y = n" for y using values_okD(4)[OF v that(1)] that(2) by simp
  then have "signal_ok V L ?x" using values_okD(2)[OF v, of n] by (simp add: signal_ok_def val_of_def)
  then have "sound V L ?x"
    using m by (auto simp: sound_def waits_ok_def host_ok_def marker_ok_def legacy_ok_def is_gpu_def buffers_ok_def uses_def)
  then have "all_sound ?V (L @ [?x])"
    using a all_sound_cong[of V ?V "L @ [?x]"] by (simp add: all_sound_snoc)
  moreover have "values_ok ?V (L @ [?x])"
  proof -
    have "w \<le> v_event V e \<or> (\<exists>y\<in>set (L @ [?x]). stream_of y = e \<and> w \<le> val_of y)" if "w < v_next ?V e" for e w
      using v that val unfolding values_ok_def by (auto split: if_splits)
    moreover have "v_last ?V b = Some (stream_of y, val_of y)" if "last_user b (L @ [?x]) y" for b y
      using values_okD(7)[OF v] that by (auto simp: last_user_snoc uses_def)
    ultimately show ?thesis
      using v val unfolding values_ok_def by (auto simp: less_Suc_eq le_less)
  qed
  moreover have "hosts_ok ?V (L @ [?x])"
  proof -
    have "cb_id c < v_buffer V" using ho m(1) unfolding hosts_ok_def by auto
    then show ?thesis using ho h unfolding hosts_ok_def by (auto simp: awaited_snoc)
  qed
  moreover have "streams_ok ?V (L @ [?x])"
    using st n m unfolding streams_ok_def by fastforce
  ultimately show ?thesis by (simp add: good_def)
qed

definition barrier :: "nat \<Rightarrow> nat \<Rightarrow> View \<Rightarrow> View" where
  "barrier n v V = V\<lparr>v_latest := (v_latest V)(n := v), v_host := (v_host V)(n := True)\<rparr>"

lemma barrier_sel [simp]:
  "v_participates (barrier n v V) = v_participates V" "v_legacy (barrier n v V) = v_legacy V" "v_next (barrier n v V) = v_next V"
  "v_latest (barrier n v V) = (v_latest V)(n := v)" "v_host (barrier n v V) = (v_host V)(n := True)"
  "v_last (barrier n v V) = v_last V" "v_event (barrier n v V) = v_event V" "v_live (barrier n v V) = v_live V"
  "v_default (barrier n v V) = v_default V" "v_buffer (barrier n v V) = v_buffer V" "v_stream (barrier n v V) = v_stream V"
  by (simp_all add: barrier_def)

lemma good_barrier:
  assumes g: "good V L" and n: "n < v_stream V" "\<not> v_host V n" "v < v_next V n"
    and c: "\<forall>y\<in>set L. stream_of y = n \<longrightarrow> carries y \<longrightarrow> val_of y \<le> v"
  shows "good (barrier n v V) L"
proof -
  let ?V = "barrier n v V"
  have v: "values_ok V L" "hosts_ok V L" "streams_ok V L" "all_sound V L" using g by (simp_all add: good_def)
  have "hosts_ok ?V L"
    unfolding hosts_ok_def
  proof (intro conjI allI impI)
    fix k w m f
    assume "HostFn k w m f \<in> set L"
    then have "m < v_buffer V \<and> (awaited L k w \<or> (v_host V k \<and> v_latest V k = w))" using v(2) unfolding hosts_ok_def by blast
    then show "m < v_buffer ?V" "awaited L k w \<or> v_host ?V k \<and> v_latest ?V k = w" using n(2) by auto
  qed (use v(2) in \<open>auto simp: hosts_ok_def\<close>)
  moreover have "values_ok ?V L" using v(1) n(3) c unfolding values_ok_def by auto
  moreover have "streams_ok ?V L" using v(3) n(1) unfolding streams_ok_def by auto
  moreover have "all_sound ?V L" using v(4) all_sound_cong[of V ?V L] by simp
  ultimately have "values_ok ?V L" "hosts_ok ?V L" "streams_ok ?V L" "all_sound ?V L" by simp_all
  then show ?thesis by (simp add: good_def)
qed

text \<open>Work that joins the open batch, which is the last of what is outstanding.\<close>

lemma good_extended:
  assumes g: "good V (L @ [Gpu c])"
    and w: "carries (Gpu c)" "uses (Gpu (c\<lparr>cb_work := w\<rparr>)) = uses (Gpu c) \<union> B" "w \<noteq> []"
    and e: "\<forall>b\<in>B. \<forall>e v. v_last V b = Some (e, v) \<longrightarrow> v = 0 \<or> e = cb_stream c \<or> (\<exists>v'. (e, v') \<in> set (cb_waits c) \<and> v \<le> v')"
  shows "good (touched B (cb_stream c, val_of (Gpu c)) V) (L @ [Gpu (c\<lparr>cb_work := w\<rparr>)])"
proof -
  let ?x = "Gpu c" and ?y = "Gpu (c\<lparr>cb_work := w\<rparr>)"
  let ?V = "touched B (cb_stream c, val_of ?x) V"
  have v: "values_ok V (L @ [?x])" and ho: "hosts_ok V (L @ [?x])" and st: "streams_ok V (L @ [?x])" and a: "all_sound V (L @ [?x])"
    using g by (simp_all add: good_def)
  have s: "sound V L ?x" using a by (simp add: all_sound_snoc)
  have val: "val_of ?y = val_of ?x" by (simp add: val_of_def)
  have "buffers_ok L ?y"
    unfolding buffers_ok_def
  proof (intro ballI allI impI)
    fix b z
    assume b: "b \<in> uses ?y" and z: "last_user b L z"
    show "stream_of z = stream_of ?y \<or> waits_cover ?y z"
    proof (cases "b \<in> uses ?x")
      case True
      then show ?thesis using s z by (auto simp: sound_def buffers_ok_def waits_cover_def)
    next
      case False
      then have "v_last V b = Some (stream_of z, val_of z)" using values_okD(7)[OF v] z by (simp add: last_user_snoc)
      moreover have "val_of z \<noteq> 0" using all_sound_signal[OF a, of z] last_user_in[OF z] by auto
      moreover have "b \<in> B" using b w(2) False by simp
      ultimately have "stream_of z = cb_stream c \<or> (\<exists>v'. (stream_of z, v') \<in> set (cb_waits c) \<and> val_of z \<le> v')"
        using e[rule_format, of b "stream_of z" "val_of z"] by simp
      then show ?thesis by (auto simp: waits_cover_def)
    qed
  qed
  then have "sound V L ?y"
    using s by (auto simp: sound_def signal_ok_def waits_ok_def host_ok_def marker_ok_def legacy_ok_def is_gpu_def val_of_def
        waits_cover_def awaited_snoc)
  then have "all_sound ?V (L @ [?y])"
    using a all_sound_cong[of V ?V "L @ [?y]"] by (simp add: all_sound_snoc)
  moreover have "values_ok ?V (L @ [?y])"
  proof -
    have last: "v_last ?V b = Some (stream_of z, val_of z)" if "last_user b (L @ [?y]) z" for b z
      using values_okD(7)[OF v, of b z] values_okD(7)[OF v, of b ?x] that w(2) val by (auto simp: last_user_snoc split: if_splits)
    have "val_of ?x < v_next V (cb_stream c)" using values_okD(4)[OF v, of ?x] by simp
    moreover have "val_of ?x \<le> v_latest V (cb_stream c)" using values_okD(6)[OF v, of ?x] w(1) by simp
    ultimately show ?thesis
      using v val last unfolding values_ok_def by auto
  qed
  moreover have "hosts_ok ?V (L @ [?y])"
    using ho unfolding hosts_ok_def by (auto simp: awaited_snoc)
  moreover have "streams_ok ?V (L @ [?y])" using st unfolding streams_ok_def by auto
  ultimately show ?thesis by (simp add: good_def)
qed

section \<open>Streams come and go\<close>

lemma good_created:
  assumes g: "good V L" and n: "n = v_stream V"
  shows "good (V\<lparr>v_participates := (v_participates V)(n := p), v_legacy := (v_legacy V)(n := False),
    v_live := v_live V @ [n], v_stream := Suc n\<rparr>) L"
proof -
  let ?V = "V\<lparr>v_participates := (v_participates V)(n := p), v_legacy := (v_legacy V)(n := False),
    v_live := v_live V @ [n], v_stream := Suc n\<rparr>"
  have st: "streams_ok V L" using g by (simp add: good_def)
  have "stream_of y \<noteq> n" if "y \<in> set L" for y using st that n unfolding streams_ok_def by fastforce
  then have "all_sound V L = all_sound ?V L" by (intro all_sound_cong) auto
  moreover have "streams_ok ?V L" using st n unfolding streams_ok_def by (auto simp: less_Suc_eq)
  ultimately show ?thesis using g unfolding good_def values_ok_def hosts_ok_def by simp
qed

lemma good_released:
  assumes g: "good V L" and n: "\<forall>y\<in>set L. stream_of y \<noteq> n"
  shows "good (V\<lparr>v_live := filter (\<lambda>m. m \<noteq> n) (v_live V)\<rparr>) L"
proof -
  let ?V = "V\<lparr>v_live := filter (\<lambda>m. m \<noteq> n) (v_live V)\<rparr>"
  have "all_sound V L = all_sound ?V L" by (intro all_sound_cong) auto
  then show ?thesis using g n unfolding good_def values_ok_def hosts_ok_def streams_ok_def by auto
qed

end
