(* ===== verification/BackendOrder.thy ===== *)
theory BackendOrder
  imports BackendFences
begin

text \<open>
  The steps of the backend keep its invariant, so that in every reachable state the order of the
  streams holds and nothing that is outstanding blocks for ever.
\<close>

section \<open>Batches\<close>

definition batch_ok :: "nat \<Rightarrow> OpenBatch \<Rightarrow> Backend \<Rightarrow> bool" where
  "batch_ok n b s \<longleftrightarrow> cb_stream (ob_buffer b) = n \<and> cb_signals (ob_buffer b) = [] \<and>
     ob_reservations b = [(n, ob_value b)] \<and> set (ob_waits b) \<subseteq> set (cb_waits (ob_buffer b)) \<and>
     cb_work (ob_buffer b) \<noteq> [] \<and> (n \<in> set (bk_live s) \<or> n = bk_default_stream s)"

definition all_closed :: "Backend \<Rightarrow> bool" where
  "all_closed s \<longleftrightarrow> (\<forall>m. si_open (bk_streams s m) = None)"

text \<open>What is outstanding, the open batch included.\<close>

definition outstanding :: "Backend \<Rightarrow> item list \<Rightarrow> bool" where
  "outstanding s L \<longleftrightarrow> (all_closed s \<and> L = bk_todo s) \<or>
     (\<exists>n b. si_open (bk_streams s n) = Some b \<and> batch_ok n b s \<and> (\<forall>m. m \<noteq> n \<longrightarrow> si_open (bk_streams s m) = None) \<and>
        L = bk_todo s @ [Gpu (closing b)])"

definition fences_ok :: "Backend \<Rightarrow> bool" where
  "fences_ok s \<longleftrightarrow> (\<exists>L. outstanding s L \<and> good (view s) L)"

lemma set_stream_sel [simp]:
  "bk_streams (set_stream n st s) = (bk_streams s)(n := st)" "bk_default_stream (set_stream n st s) = bk_default_stream s"
  "bk_live (set_stream n st s) = bk_live s" "bk_last_access (set_stream n st s) = bk_last_access s"
  "bk_events (set_stream n st s) = bk_events s" "bk_todo (set_stream n st s) = bk_todo s"
  "bk_next_buffer (set_stream n st s) = bk_next_buffer s" "bk_next_stream (set_stream n st s) = bk_next_stream s"
  by (simp_all add: set_stream_def)

lemma commit_sel [simp]:
  "bk_streams (commit x s) = bk_streams s" "bk_default_stream (commit x s) = bk_default_stream s"
  "bk_live (commit x s) = bk_live s" "bk_last_access (commit x s) = bk_last_access s"
  "bk_events (commit x s) = bk_events s" "bk_todo (commit x s) = bk_todo s @ [x]"
  "bk_next_buffer (commit x s) = bk_next_buffer s" "bk_next_stream (commit x s) = bk_next_stream s"
  by (simp_all add: commit_def)

lemma view_eqI:
  assumes "\<forall>m. si_participates_in_legacy_sync (bk_streams s m) = si_participates_in_legacy_sync (bk_streams t m) \<and>
      si_legacy_default (bk_streams s m) = si_legacy_default (bk_streams t m) \<and>
      si_next_access_value (bk_streams s m) = si_next_access_value (bk_streams t m) \<and>
      si_latest_submission_value (bk_streams s m) = si_latest_submission_value (bk_streams t m) \<and>
      si_latest_submission_requires_wait (bk_streams s m) = si_latest_submission_requires_wait (bk_streams t m)"
    "bk_last_access s = bk_last_access t" "bk_events s = bk_events t" "bk_live s = bk_live t"
    "bk_default_stream s = bk_default_stream t" "bk_next_buffer s = bk_next_buffer t" "bk_next_stream s = bk_next_stream t"
  shows "view s = view t"
  using assms by (simp add: view_def fun_eq_iff)

lemma view_sel [simp]:
  "v_participates (view s) n = si_participates_in_legacy_sync (bk_streams s n)"
  "v_legacy (view s) n = si_legacy_default (bk_streams s n)" "v_next (view s) n = si_next_access_value (bk_streams s n)"
  "v_latest (view s) n = si_latest_submission_value (bk_streams s n)"
  "v_host (view s) n = si_latest_submission_requires_wait (bk_streams s n)" "v_last (view s) = bk_last_access s"
  "v_event (view s) = bk_events s" "v_live (view s) = bk_live s" "v_default (view s) = bk_default_stream s"
  "v_buffer (view s) = bk_next_buffer s" "v_stream (view s) = bk_next_stream s"
  by (simp_all add: view_def)

lemma view_add_pending [simp]: "view (snd (add_pending n i s)) = view s"
  by (rule view_eqI) (simp_all add: add_pending_def Let_def)

lemma add_pending_sel [simp]:
  "bk_todo (snd (add_pending n i s)) = bk_todo s" "bk_live (snd (add_pending n i s)) = bk_live s"
  "bk_default_stream (snd (add_pending n i s)) = bk_default_stream s"
  "si_open (bk_streams (snd (add_pending n i s)) m) = si_open (bk_streams s m)"
  by (simp_all add: add_pending_def Let_def)

lemma view_commit [simp]: "view (commit x s) = view s"
  by (rule view_eqI) simp_all

lemma view_flush [simp]: "view (flush_open_batch n s) = view s"
proof (cases "si_open (bk_streams s n)")
  case None
  then show ?thesis by (simp add: flush_open_batch_def flush_open_batch_locked_def)
next
  case (Some b)
  have "view (set_stream n ((bk_streams s n)\<lparr>si_open := None\<rparr>) s) = view s" by (rule view_eqI) simp_all
  then show ?thesis using Some by (simp add: flush_open_batch_def flush_open_batch_locked_def Let_def)
qed

lemma live_flush [simp]: "bk_live (flush_open_batch n s) = bk_live s" "bk_default_stream (flush_open_batch n s) = bk_default_stream s"
  using view_flush[of n s] by (metis view_sel(8), metis view_sel(9))

lemma open_flush: "si_open (bk_streams (flush_open_batch n s) m) = (if m = n then None else si_open (bk_streams s m))"
  by (simp add: flush_open_batch_def flush_open_batch_locked_def Let_def split: option.split)

lemma outstanding_open:
  assumes "outstanding s L" "si_open (bk_streams s n) = Some b"
  shows "batch_ok n b s" "\<forall>m. m \<noteq> n \<longrightarrow> si_open (bk_streams s m) = None" "L = bk_todo s @ [Gpu (closing b)]"
proof -
  obtain k a where k: "si_open (bk_streams s k) = Some a" "batch_ok k a s" "\<forall>m. m \<noteq> k \<longrightarrow> si_open (bk_streams s m) = None"
    "L = bk_todo s @ [Gpu (closing a)]"
    using assms unfolding outstanding_def all_closed_def by auto
  then have "k = n" using assms(2) by (metis option.distinct(1))
  then show "batch_ok n b s" "\<forall>m. m \<noteq> n \<longrightarrow> si_open (bk_streams s m) = None" "L = bk_todo s @ [Gpu (closing b)]"
    using k assms(2) by auto
qed

lemma outstanding_closed: "outstanding s L \<Longrightarrow> all_closed s \<Longrightarrow> L = bk_todo s"
  by (auto simp: outstanding_def all_closed_def)

lemma outstanding_flush:
  assumes "outstanding s L"
  shows "outstanding (flush_open_batch n s) L"
proof (cases "si_open (bk_streams s n)")
  case None
  then show ?thesis using assms by (simp add: flush_open_batch_def flush_open_batch_locked_def)
next
  case (Some b)
  then have "\<forall>m. m \<noteq> n \<longrightarrow> si_open (bk_streams s m) = None" "L = bk_todo s @ [Gpu (closing b)]"
    using outstanding_open[OF assms Some] by simp_all
  moreover have "bk_todo (flush_open_batch n s) = bk_todo s @ [Gpu (closing b)]"
    using Some by (simp add: flush_open_batch_def flush_open_batch_locked_def Let_def)
  ultimately show ?thesis by (simp add: outstanding_def all_closed_def open_flush)
qed

lemma fold_flush:
  assumes "outstanding s L"
  shows "let t = fold (\<lambda>n s. if n = self then s else flush_open_batch n s) ns s in
     outstanding t L \<and> view t = view s \<and>
     (\<forall>m. si_open (bk_streams t m) = (if m \<in> set ns \<and> m \<noteq> self then None else si_open (bk_streams s m)))"
  using assms by (induction ns arbitrary: s) (auto simp: Let_def outstanding_flush open_flush)

lemma flush_all_spec:
  assumes "outstanding s L"
  shows "all_closed (flush_all n s)" "bk_todo (flush_all n s) = L" "view (flush_all n s) = view s"
proof -
  let ?t = "flush_open_batch n s"
  have o: "outstanding ?t L" by (rule outstanding_flush[OF assms])
  note f = fold_flush[OF o, of n "bk_live ?t @ [bk_default_stream ?t]", folded flush_other_open_batches_def, folded flush_all_def]
  have "si_open (bk_streams (flush_all n s) m) = None" for m
  proof (cases "si_open (bk_streams s m)")
    case None
    then show ?thesis using f by (simp add: Let_def open_flush)
  next
    case (Some b)
    then show ?thesis using outstanding_open(1)[OF assms Some] f by (auto simp: Let_def open_flush batch_ok_def)
  qed
  then show c: "all_closed (flush_all n s)" by (simp add: all_closed_def)
  show "bk_todo (flush_all n s) = L" using f outstanding_closed[OF _ c, of L] by (simp add: Let_def)
  show "view (flush_all n s) = view s" using f by (simp add: Let_def)
qed

section \<open>Encoding the fences\<close>

lemma set_add_waits:
  "set (fold (add_wait n) ws acc) = set acc \<union> {w \<in> set ws. snd w \<noteq> 0 \<and> fst w \<noteq> n}"
  by (induction ws arbitrary: acc) (auto simp: add_wait_def)

lemma set_fence_buffers [simp]: "set (fence_buffers bs) = set bs"
  by (simp add: fence_buffers_def)

lemma set_resource_waits: "set (resource_waits s bs) = {w. \<exists>b\<in>set bs. bk_last_access s b = Some w}"
  by (auto simp: resource_waits_def split: option.splits)

lemma touch_sel [simp]:
  "bk_streams (touch bs w s) = bk_streams s" "bk_default_stream (touch bs w s) = bk_default_stream s"
  "bk_live (touch bs w s) = bk_live s" "bk_events (touch bs w s) = bk_events s" "bk_todo (touch bs w s) = bk_todo s"
  "bk_next_buffer (touch bs w s) = bk_next_buffer s" "bk_next_stream (touch bs w s) = bk_next_stream s"
  "bk_last_access (touch bs w s) = (\<lambda>b. if b \<in> set bs then Some w else bk_last_access s b)"
  by (simp_all add: touch_def)

lemma encode_spec:
  assumes "encode_submission_waits n bs c s = ((c1, ws, v), t)" "cb_waits c = []"
  shows "c1 = c\<lparr>cb_waits := cb_waits c1\<rparr>" "set (cb_waits c1) = fence_set (view s) n (set bs)" "set ws \<subseteq> set (cb_waits c1)"
    "v = si_next_access_value (bk_streams s n)"
    "view t = (submitted n (set bs) (view s))\<lparr>v_buffer := bk_next_buffer s\<rparr>"
    "bk_todo t = bk_todo s" "\<forall>m. si_open (bk_streams t m) = si_open (bk_streams s m)"
    "bk_live t = bk_live s" "bk_default_stream t = bk_default_stream s"
proof -
  have e: "c1 = c\<lparr>cb_waits := host_barrier n s @ ws\<rparr>"
    "ws = fold (add_wait n) (map (latest_of s) (legacy_sources n s) @ resource_waits s (fence_buffers bs)) []"
    "v = si_next_access_value (bk_streams s n)"
    "t = set_stream n ((bk_streams s n)\<lparr>si_next_access_value := Suc v, si_latest_submission_value := v,
            si_latest_submission_requires_wait := False\<rparr>) (touch (fence_buffers bs) (n, v) s)"
    using assms by (auto simp add: encode_submission_waits_def Let_def)
  show "c1 = c\<lparr>cb_waits := cb_waits c1\<rparr>" using e(1) by simp
  show "set (cb_waits c1) = fence_set (view s) n (set bs)"
    using e(1,2) by (auto simp: set_add_waits set_resource_waits fence_set_def host_barrier_def latest_of_def legacy_sources_def)
  show "set ws \<subseteq> set (cb_waits c1)" using e(1) by simp
  show "v = si_next_access_value (bk_streams s n)" by (rule e(3))
  show "view t = (submitted n (set bs) (view s))\<lparr>v_buffer := bk_next_buffer s\<rparr>"
    using e(3,4) by (simp add: view_def submitted_def touched_def reserved_def fun_eq_iff)
  show "bk_todo t = bk_todo s" "\<forall>m. si_open (bk_streams t m) = si_open (bk_streams s m)"
    "bk_live t = bk_live s" "bk_default_stream t = bk_default_stream s"
    using e(4) by simp_all
qed

section \<open>Submissions keep the invariant\<close>

definition usable :: "nat \<Rightarrow> Backend \<Rightarrow> bool" where
  "usable n s \<longleftrightarrow> n \<in> set (bk_live s) \<or> n = bk_default_stream s"

definition closed_ok :: "Backend \<Rightarrow> bool" where
  "closed_ok s \<longleftrightarrow> all_closed s \<and> good (view s) (bk_todo s)"

lemma closed_fences_ok: "closed_ok s \<Longrightarrow> fences_ok s"
  by (auto simp: closed_ok_def fences_ok_def outstanding_def)

lemma flush_all_closed: "fences_ok s \<Longrightarrow> closed_ok (flush_all n s)"
  unfolding fences_ok_def closed_ok_def by (metis flush_all_spec)

lemma flush_all_usable: "fences_ok s \<Longrightarrow> usable m (flush_all n s) = usable m s"
  unfolding fences_ok_def usable_def by (metis flush_all_spec(3) view_sel(8,9))

lemma new_command_buffer_spec:
  assumes "new_command_buffer n s = (c, t)"
  shows "c = \<lparr>cb_id = bk_next_buffer s, cb_stream = n, cb_waits = [], cb_work = [], cb_signals = []\<rparr>"
    "t = s\<lparr>bk_next_buffer := Suc (bk_next_buffer s)\<rparr>"
  using assms by (auto simp: new_command_buffer_def)

lemma fence_set_buffer [simp]: "fence_set (view (s\<lparr>bk_next_buffer := k\<rparr>)) n B = fence_set (view s) n B"
  by (simp add: fence_set_def)

lemma fresh_spec:
  assumes g: "closed_ok s" "usable n s"
    and e: "new_command_buffer n s = (c, s1)" "encode_submission_waits n bs c s1 = ((c1, ws, v), s2)"
    and w: "uses (Gpu (c1\<lparr>cb_work := w\<rparr>)) = set bs"
  shows "good (view s2) (bk_todo s @ [Gpu (c1\<lparr>cb_work := w, cb_signals := [(n, v)]\<rparr>)])" "all_closed s2" "bk_todo s2 = bk_todo s"
    "cb_stream c1 = n" "cb_id c1 = cb_id c" "cb_work c1 = []" "cb_signals c1 = []" "set ws \<subseteq> set (cb_waits c1)" "usable n s2"
    "\<not> v_host (view s2) n"
proof -
  note c = new_command_buffer_spec[OF e(1)]
  note s = encode_spec[OF e(2), unfolded c, simplified]
  have view: "view s2 = submitted n (set bs) (view s)"
    using s(5) by (simp add: view_def submitted_def touched_def reserved_def cong: if_cong)
  show f: "cb_stream c1 = n" "cb_id c1 = cb_id c" "cb_work c1 = []" "cb_signals c1 = []"
    using s(1) c by (metis CommandBuffer.select_convs(1-5) CommandBuffer.surjective CommandBuffer.update_convs(3))+
  show "set ws \<subseteq> set (cb_waits c1)" "bk_todo s2 = bk_todo s" "all_closed s2" "usable n s2"
    using s g by (simp_all add: closed_ok_def all_closed_def usable_def)
  show "\<not> v_host (view s2) n" unfolding view by simp
  have "uses (Gpu (c1\<lparr>cb_work := w, cb_signals := [(n, v)]\<rparr>)) = set bs" using w by (simp add: uses_def)
  then show "good (view s2) (bk_todo s @ [Gpu (c1\<lparr>cb_work := w, cb_signals := [(n, v)]\<rparr>)])"
    unfolding view using g f c(1) s(2,4) by (intro good_submitted) (simp_all add: closed_ok_def usable_def)
qed

lemma submit_buffer_spec:
  "bk_todo (snd (submit_buffer c s)) = bk_todo s @ [Gpu c]" "view (snd (submit_buffer c s)) = view s"
  "all_closed (snd (submit_buffer c s)) = all_closed s" "usable n (snd (submit_buffer c s)) = usable n s"
  by (simp_all add: submit_buffer_def all_closed_def usable_def)

lemma submit_marker_spec:
  assumes g: "closed_ok s" "usable n s" and m: "submit_marker n s = ((i, ticket), t)"
  shows "closed_ok t" "usable n t" "\<not> v_host (view t) n" "\<exists>c. bk_todo t = bk_todo s @ [Gpu c] \<and> cb_id c = i \<and> cb_stream c = n"
proof -
  obtain c s1 where c: "new_command_buffer n s = (c, s1)" by fastforce
  obtain c1 ws v s2 where e: "encode_submission_waits n [] c s1 = ((c1, ws, v), s2)" by (metis prod_cases3 surj_pair)
  have "uses (Gpu (c1\<lparr>cb_work := []\<rparr>)) = set []" by (simp add: uses_def)
  note f = fresh_spec[OF g c e this]
  have x: "c1\<lparr>cb_work := [], cb_signals := [(n, v)]\<rparr> = encode_resource_signals [(n, v)] c1"
    using f(6,7) by (simp add: encode_resource_signals_def)
  have t: "t = snd (submit_buffer (encode_resource_signals [(n, v)] c1) s2)" "i = cb_id c"
    using m c e by (auto simp: submit_marker_def split: prod.splits)
  show "closed_ok t" "usable n t" "\<not> v_host (view t) n"
    using f x by (simp_all add: t closed_ok_def submit_buffer_spec)
  show "\<exists>d. bk_todo t = bk_todo s @ [Gpu d] \<and> cb_id d = i \<and> cb_stream d = n"
    using f(3-5) by (simp add: t submit_buffer_spec encode_resource_signals_def)
qed

lemma record_marker_ok:
  assumes "fences_ok s" "usable n s"
  shows "fences_ok (snd (stream_record_marker mo n s))"
proof -
  have f: "closed_ok (flush_all n s)" "usable n (flush_all n s)"
    using assms by (simp_all add: flush_all_closed flush_all_usable)
  obtain i k t where "submit_marker n (flush_all n s) = ((i, k), t)" by (metis surj_pair)
  then show ?thesis
    using f submit_marker_spec(1)[OF f] closed_fences_ok by (auto simp: stream_record_marker_def Let_def)
qed

definition all_objects :: MetalObjects where
  "all_objects = \<lparr>mo_command_buffer = True, mo_encoder = True, mo_batch_encoder = True, mo_completion = True\<rparr>"

lemma view_set_barrier: "view (set_latest_host_barrier n v s) = barrier n v (view s)"
  by (simp add: view_def set_latest_host_barrier_def barrier_def fun_eq_iff)

lemma view_reserve: "reserve_host_value n s = (v, t) \<Longrightarrow> view t = reserved n True (view s) \<and> v = v_next (view s) n \<and>
    bk_todo t = bk_todo s \<and> all_closed t = all_closed s \<and> usable n t = usable n s"
proof -
  assume "reserve_host_value n s = (v, t)"
  then have t: "t = set_stream n ((bk_streams s n)\<lparr>si_next_access_value := Suc v, si_latest_submission_value := v,
      si_latest_submission_requires_wait := True\<rparr>) s" "v = si_next_access_value (bk_streams s n)"
    by (auto simp: reserve_host_value_def Let_def)
  then have "\<And>m. si_open (bk_streams t m) = si_open (bk_streams s m)" by simp
  then show ?thesis using t by (simp add: view_def reserved_def fun_eq_iff all_closed_def usable_def)
qed

lemma view_host_operation [simp]: "view (add_pending_host_operation n s) = view s"
  "bk_todo (add_pending_host_operation n s) = bk_todo s" "all_closed (add_pending_host_operation n s) = all_closed s"
  "view (complete_pending_host_operation n s) = view s" "bk_todo (complete_pending_host_operation n s) = bk_todo s"
  "si_open (bk_streams (complete_pending_host_operation n s) m) = si_open (bk_streams s m)"
proof -
  have "\<And>m. si_open (bk_streams (add_pending_host_operation n s) m) = si_open (bk_streams s m)"
    by (simp add: add_pending_host_operation_def)
  then show "all_closed (add_pending_host_operation n s) = all_closed s" by (simp add: all_closed_def)
  show "view (add_pending_host_operation n s) = view s"
    by (rule view_eqI) (simp_all add: add_pending_host_operation_def)
  show "view (complete_pending_host_operation n s) = view s"
    by (rule view_eqI) (simp_all add: complete_pending_host_operation_def)
qed (simp_all add: add_pending_host_operation_def complete_pending_host_operation_def)

lemma usable_stream: "good (view s) L \<Longrightarrow> usable n s \<Longrightarrow> n < bk_next_stream s"
  by (auto simp: good_def streams_ok_def usable_def)

lemma host_function_ok:
  assumes "fences_ok s" "usable n s"
  shows "fences_ok (snd (enqueue_host_function all_objects n f s))"
proof -
  let ?s1 = "flush_all n s"
  have f1: "closed_ok ?s1" "usable n ?s1" using assms by (simp_all add: flush_all_closed flush_all_usable)
  obtain i k s2 where m: "submit_marker n ?s1 = ((i, k), s2)" by (metis surj_pair)
  note f2 = submit_marker_spec[OF f1 m]
  obtain v s3 where r: "reserve_host_value n s2 = (v, s3)" by fastforce
  note f3 = view_reserve[OF r]
  let ?h = "HostFn n v i f"
  have "good (reserved n True (view s2)) (bk_todo s2 @ [?h])"
    using f2 f3 good_host[of "view s2" "bk_todo s2" n "bk_todo ?s1" _ f] usable_stream[of s2 "bk_todo s2" n]
    by (fastforce simp: closed_ok_def)
  then have f4: "closed_ok (commit ?h s3)" "usable n (commit ?h s3)"
    using f2 f3 by (simp_all add: closed_ok_def all_closed_def usable_def)
  obtain c s4 where c: "new_command_buffer n (commit ?h s3) = (c, s4)" by fastforce
  obtain c1 ws w s5 where e: "encode_submission_waits n [] c s4 = ((c1, ws, w), s5)" by (metis prod_cases3 surj_pair)
  have "uses (Gpu (c1\<lparr>cb_work := []\<rparr>)) = set []" by (simp add: uses_def)
  note f5 = fresh_spec[OF f4 c e this]
  let ?d = "encode_resource_signals [(n, w)] c1"
  have d: "c1\<lparr>cb_work := [], cb_signals := [(n, w)]\<rparr> = ?d" using f5(6,7) by (simp add: encode_resource_signals_def)
  let ?s6 = "snd (submit_buffer ?d (set_latest_host_barrier n v s5))"
  have L: "bk_todo ?s6 = bk_todo s2 @ [?h, Gpu ?d]" using f5(3) f3
    by (simp add: submit_buffer_spec) (simp add: set_latest_host_barrier_def)
  have g5: "good (view s5) (bk_todo s2 @ [?h, Gpu ?d])" using f5(1) f3 unfolding d by simp
  have vals: "val_of y \<le> v" if "y \<in> set (bk_todo s2 @ [?h, Gpu ?d])" "stream_of y = n" "carries y" for y
  proof -
    have "\<not> carries (Gpu ?d)" using f5(6) by (simp add: carries_def encode_resource_signals_def)
    then have "y \<in> set (bk_todo s2) \<or> y = ?h" using that(1,3) by auto
    then show ?thesis
    proof
      assume y: "y \<in> set (bk_todo s2)"
      have "values_ok (view s2) (bk_todo s2)" using f2(1) by (simp add: closed_ok_def good_def)
      then have "val_of y < v_next (view s2) n" using values_okD(4)[of "view s2" _ y] y that(2) by auto
      then show ?thesis using f3 by simp
    next
      assume "y = ?h"
      then have "val_of y = v" by (simp only: val_of_def signals_of.simps list.sel snd_conv)
      then show ?thesis by simp
    qed
  qed
  have "v < v_next (view s5) n"
    using values_okD(4)[of "view s5" "bk_todo s2 @ [?h, Gpu ?d]" ?h] g5 by (simp add: good_def val_of_def)
  then have "good (barrier n v (view s5)) (bk_todo s2 @ [?h, Gpu ?d])"
    using g5 f5(9,10) vals usable_stream[OF g5] by (intro good_barrier) auto
  then have "good (view ?s6) (bk_todo ?s6)" using L by (simp add: submit_buffer_spec view_set_barrier)
  moreover have "all_closed ?s6" using f5(2) by (simp add: submit_buffer_spec) (simp add: set_latest_host_barrier_def all_closed_def)
  moreover have "snd (enqueue_host_function all_objects n f s) = add_pending_host_operation n ?s6"
    using m r c e by (simp add: enqueue_host_function_def Let_def all_objects_def)
  ultimately show ?thesis by (auto intro!: closed_fences_ok simp: closed_ok_def)
qed

lemma extend_cases:
  assumes "extend_batch cfg k True n bs s = (ok, s1)"
  obtains "\<not> ok" "s1 = s"
  | b j d where "ok" "si_open (bk_streams s n) = Some b"
      "list_all (covered n (ob_value b) (ob_waits b)) (resource_waits s (fence_buffers bs))"
      "s1 = set_stream n ((bk_streams s n)\<lparr>si_open := Some (b\<lparr>ob_kind := j, ob_dispatches := d\<rparr>)\<rparr>)
         (touch (fence_buffers bs) (n, ob_value b) s)"
proof (cases ok)
  case False
  then have "s1 = s"
    using assms by (auto simp: extend_batch_def batch_encoder_def split: option.splits if_splits prod.splits)
  then show ?thesis using that(1) False by blast
next
  case True
  then obtain b t where b: "si_open (bk_streams s n) = Some b" "try_extend_submission n bs (ob_value b) (ob_waits b) s = Some t"
    "s1 = set_stream n ((bk_streams t n)\<lparr>si_open := Some ((snd (batch_encoder k True b))
       \<lparr>ob_dispatches := Suc (ob_dispatches (snd (batch_encoder k True b)))\<rparr>)\<rparr>) t"
    using assms by (auto simp: extend_batch_def split: option.splits if_splits prod.splits)
  then have t: "t = touch (fence_buffers bs) (n, ob_value b) s"
    "list_all (covered n (ob_value b) (ob_waits b)) (resource_waits s (fence_buffers bs))"
    by (auto simp: try_extend_submission_def Let_def split: if_splits)
  have "\<exists>j d. (snd (batch_encoder k True b))\<lparr>ob_dispatches := Suc (ob_dispatches (snd (batch_encoder k True b)))\<rparr> =
     b\<lparr>ob_kind := j, ob_dispatches := d\<rparr>"
    by (cases b) (auto simp: batch_encoder_def)
  then show ?thesis using that(2) True b t by auto
qed

lemma closing_batch:
  assumes "outstanding s L" "si_open (bk_streams s n) = Some b"
  shows "cb_stream (closing b) = n" "val_of (Gpu (closing b)) = ob_value b" "carries (Gpu (closing b))"
    "set (ob_waits b) \<subseteq> set (cb_waits (closing b))"
  using outstanding_open(1)[OF assms] by (auto simp: batch_ok_def closing_def encode_resource_signals_def val_of_def carries_def)

lemma extended_ok:
  assumes g: "outstanding s L" "good (view s) L" and o: "si_open (bk_streams s n) = Some b"
    and c: "list_all (covered n (ob_value b) (ob_waits b)) (resource_waits s (fence_buffers bs))"
    and t: "t = set_stream n ((bk_streams s n)\<lparr>si_open := Some (b\<lparr>ob_kind := j, ob_dispatches := d\<rparr>)\<rparr>)
         (touch (fence_buffers bs) (n, ob_value b) s)"
  shows "fences_ok (encode_in_batch n bs t)"
proof -
  let ?c = "closing b" and ?w = "cb_work (ob_buffer b) @ [fence_buffers bs]"
  let ?b = "b\<lparr>ob_kind := j, ob_dispatches := d, ob_buffer := (ob_buffer b)\<lparr>cb_work := ?w\<rparr>\<rparr>"
  note b = outstanding_open[OF g(1) o] and cb = closing_batch[OF g(1) o]
  have r: "encode_in_batch n bs t = set_stream n ((bk_streams s n)\<lparr>si_open := Some ?b\<rparr>) (touch (fence_buffers bs) (n, ob_value b) s)"
    unfolding encode_in_batch_def t by (simp add: set_stream_def)
  have w: "closing ?b = ?c\<lparr>cb_work := ?w\<rparr>" by (simp add: closing_def encode_resource_signals_def)
  have view: "view (encode_in_batch n bs t) = touched (set bs) (cb_stream ?c, val_of (Gpu ?c)) (view s)"
    unfolding r cb(1,2) by (simp add: view_def touched_def fun_eq_iff)
  have "good (touched (set bs) (cb_stream ?c, val_of (Gpu ?c)) (view s)) (bk_todo s @ [Gpu (?c\<lparr>cb_work := ?w\<rparr>)])"
  proof (rule good_extended)
    show "good (view s) (bk_todo s @ [Gpu ?c])" using g(2) b(3) by simp
    show "uses (Gpu (?c\<lparr>cb_work := ?w\<rparr>)) = uses (Gpu ?c) \<union> set bs"
      by (auto simp: uses_def closing_def encode_resource_signals_def)
    show "\<forall>a\<in>set bs. \<forall>e v. v_last (view s) a = Some (e, v) \<longrightarrow>
        v = 0 \<or> e = cb_stream ?c \<or> (\<exists>v'. (e, v') \<in> set (cb_waits ?c) \<and> v \<le> v')"
    proof (intro ballI allI impI)
      fix a e v
      assume "a \<in> set bs" "v_last (view s) a = Some (e, v)"
      then have "(e, v) \<in> set (resource_waits s (fence_buffers bs))" by (auto simp: set_resource_waits)
      then have "covered n (ob_value b) (ob_waits b) (e, v)" using c by (simp add: list_all_iff)
      then show "v = 0 \<or> e = cb_stream ?c \<or> (\<exists>v'. (e, v') \<in> set (cb_waits ?c) \<and> v \<le> v')"
        using cb(1,4) by (auto simp: covered_def list_ex_iff)
    qed
  qed (use cb in simp_all)
  moreover have "outstanding (encode_in_batch n bs t) (bk_todo s @ [Gpu (closing ?b)])"
    unfolding outstanding_def r
    using b by (intro disjI2 exI[of _ n] exI[of _ ?b]) (auto simp: batch_ok_def)
  ultimately show ?thesis unfolding fences_ok_def view w by blast
qed

lemma begun_ok:
  assumes f: "good (view s) (bk_todo s @ [Gpu (c\<lparr>cb_work := [fence_buffers bs], cb_signals := [(n, v)]\<rparr>)])" "all_closed s" "usable n s"
    and c: "cb_stream c = n" "cb_work c = []" "cb_signals c = []" "set ws \<subseteq> set (cb_waits c)"
  shows "fences_ok (encode_in_batch n bs (begin_batch n c k [(n, v)] ws v s))"
proof -
  let ?b = "\<lparr>ob_buffer = c\<lparr>cb_work := [fence_buffers bs]\<rparr>, ob_kind = k, ob_reservations = [(n, v)], ob_waits = ws,
     ob_value = v, ob_dispatches = 1\<rparr>"
  let ?t = "encode_in_batch n bs (begin_batch n c k [(n, v)] ws v s)"
  have r: "?t = set_stream n ((bk_streams s n)\<lparr>si_open := Some ?b\<rparr>) s"
    using c(2) by (simp add: encode_in_batch_def begin_batch_def set_stream_def)
  have w: "closing ?b = c\<lparr>cb_work := [fence_buffers bs], cb_signals := [(n, v)]\<rparr>"
    using c(3) by (simp add: closing_def encode_resource_signals_def)
  have "view ?t = view s" unfolding r by (rule view_eqI) simp_all
  moreover have "outstanding ?t (bk_todo s @ [Gpu (closing ?b)])"
    unfolding outstanding_def r
    using f(2,3) c by (intro disjI2 exI[of _ n] exI[of _ ?b]) (auto simp: batch_ok_def all_closed_def usable_def)
  ultimately show ?thesis using f(1) unfolding fences_ok_def w by metis
qed

lemma all_objects_sel [simp]: "mo_command_buffer all_objects" "mo_encoder all_objects" "mo_batch_encoder all_objects"
    "mo_completion all_objects"
  by (simp_all add: all_objects_def)

lemma submit_work_ok:
  assumes g: "fences_ok s" "usable n s"
  shows "fences_ok (snd (submit_work cfg k batching all_objects True n bs s))"
proof -
  obtain ok s1 where e: "(if batching then extend_batch cfg k True n bs s else (False, s)) = (ok, s1)" by fastforce
  then have e': "(if batching then extend_batch cfg k (mo_batch_encoder all_objects) n bs s else (False, s)) = (ok, s1)"
    by (cases batching) simp_all
  show ?thesis
  proof (cases ok)
    case True
    then have "extend_batch cfg k True n bs s = (True, s1)" using e by (cases batching) auto
    then have "fences_ok (encode_in_batch n bs s1)"
    proof (cases rule: extend_cases)
      case (2 b j d)
      obtain L where "outstanding s L" "good (view s) L" using g(1) by (auto simp: fences_ok_def)
      then show ?thesis using extended_ok 2 by blast
    qed simp
    then show ?thesis unfolding submit_work_def e' by (simp add: True)
  next
    case False
    have s1: "s1 = s"
    proof (cases batching)
      case True
      then have "extend_batch cfg k True n bs s = (False, s1)" using e False by simp
      then show ?thesis by (cases rule: extend_cases) simp_all
    qed (use e in simp)
    let ?s2 = "flush_all n s"
    have f: "closed_ok ?s2" "usable n ?s2" using g by (simp_all add: flush_all_closed flush_all_usable)
    obtain c s3 where c: "new_command_buffer n ?s2 = (c, s3)" by fastforce
    obtain c1 ws v s4 where w: "encode_submission_waits n bs c s3 = ((c1, ws, v), s4)" by (metis prod_cases3 surj_pair)
    have "uses (Gpu (c1\<lparr>cb_work := [fence_buffers bs]\<rparr>)) = set bs" by (simp add: uses_def)
    note f4 = fresh_spec[OF f c w this]
    have r: "snd (submit_work cfg k batching all_objects True n bs s) =
      (if batching then encode_in_batch n bs (begin_batch n c1 k [(n, v)] ws v s4)
       else snd (submit_buffer (encode_resource_signals [(n, v)] (c1\<lparr>cb_work := cb_work c1 @ [fence_buffers bs]\<rparr>)) s4))"
      unfolding submit_work_def e' by (simp add: False s1 c w Let_def)
    show ?thesis
    proof (cases batching)
      case True
      have "fences_ok (encode_in_batch n bs (begin_batch n c1 k [(n, v)] ws v s4))"
        by (rule begun_ok) (use f4 in simp_all)
      then show ?thesis using True unfolding r by simp
    next
      case b: False
      have "c1\<lparr>cb_work := [fence_buffers bs], cb_signals := [(n, v)]\<rparr> =
          encode_resource_signals [(n, v)] (c1\<lparr>cb_work := cb_work c1 @ [fence_buffers bs]\<rparr>)"
        using f4(6,7) by (simp add: encode_resource_signals_def)
      then have "closed_ok (snd (submit_buffer (encode_resource_signals [(n, v)] (c1\<lparr>cb_work := cb_work c1 @ [fence_buffers bs]\<rparr>)) s4))"
        using f4(1-3) by (simp add: closed_ok_def submit_buffer_spec)
      then show ?thesis using b closed_fences_ok unfolding r by simp
    qed
  qed
qed

lemma flush_ok: "fences_ok s \<Longrightarrow> fences_ok (flush_open_batch n s)"
  unfolding fences_ok_def using outstanding_flush by fastforce

section \<open>The other steps\<close>

lemma create_stream_ok:
  assumes "fences_ok s"
  shows "fences_ok (snd (create_stream p s))"
proof -
  let ?n = "bk_next_stream s" and ?t = "snd (create_stream p s)"
  obtain L where L: "outstanding s L" "good (view s) L" using assms by (auto simp: fences_ok_def)
  have st: "streams_ok (view s) L" using L(2) by (simp add: good_def)
  then have n: "\<forall>m\<ge>?n. si_next_access_value (bk_streams s m) = 1 \<and> si_latest_submission_value (bk_streams s m) = 0 \<and>
      \<not> si_latest_submission_requires_wait (bk_streams s m)" "?n \<notin> set (bk_live s)" "?n \<noteq> bk_default_stream s"
    unfolding streams_ok_def by fastforce+
  have "view ?t = (view s)\<lparr>v_participates := (v_participates (view s))(?n := p), v_legacy := (v_legacy (view s))(?n := False),
    v_live := v_live (view s) @ [?n], v_stream := Suc ?n\<rparr>"
    using n(1) by (simp add: view_def create_stream_def Let_def new_stream_def fun_eq_iff)
  then have "good (view ?t) L" using good_created[OF L(2)] by simp
  moreover have "outstanding ?t L"
  proof (cases "all_closed s")
    case True
    then have "all_closed ?t" by (simp add: all_closed_def create_stream_def Let_def new_stream_def)
    moreover have "bk_todo ?t = bk_todo s" by (simp add: create_stream_def Let_def)
    ultimately show ?thesis using outstanding_closed[OF L(1) True] by (simp add: outstanding_def)
  next
    case False
    then obtain k b where k: "si_open (bk_streams s k) = Some b" by (auto simp: all_closed_def)
    note o = outstanding_open[OF L(1) k]
    have "k \<noteq> ?n" using o(1) n(2,3) by (auto simp: batch_ok_def)
    then show ?thesis
      unfolding outstanding_def using k o
      by (intro disjI2 exI[of _ k] exI[of _ b]) (auto simp: create_stream_def Let_def new_stream_def batch_ok_def)
  qed
  ultimately show ?thesis by (auto simp: fences_ok_def)
qed

definition idle :: "nat \<Rightarrow> Backend \<Rightarrow> bool" where
  "idle n s \<longleftrightarrow> n \<noteq> bk_default_stream s \<and> si_open (bk_streams s n) = None \<and> list_all (\<lambda>x. stream_of x \<noteq> n) (bk_todo s)"

lemma release_ok:
  assumes "fences_ok s" "idle n s"
  shows "fences_ok (release_stream n s)"
proof -
  obtain L where L: "outstanding s L" "good (view s) L" using assms(1) by (auto simp: fences_ok_def)
  have i: "n \<noteq> bk_default_stream s" "si_open (bk_streams s n) = None" "\<forall>x\<in>set (bk_todo s). stream_of x \<noteq> n"
    using assms(2) by (auto simp: idle_def list_all_iff)
  have "outstanding (release_stream n s) L \<and> (\<forall>x\<in>set L. stream_of x \<noteq> n)"
  proof (cases "all_closed s")
    case True
    then show ?thesis using outstanding_closed[OF L(1) True] i(3)
      by (simp add: outstanding_def all_closed_def release_stream_def)
  next
    case False
    then obtain k b where k: "si_open (bk_streams s k) = Some b" by (auto simp: all_closed_def)
    note o = outstanding_open[OF L(1) k]
    have "k \<noteq> n" using i(2) k by auto
    moreover from this have "outstanding (release_stream n s) L"
      unfolding outstanding_def using k o
      by (intro disjI2 exI[of _ k] exI[of _ b]) (auto simp: release_stream_def batch_ok_def)
    ultimately show ?thesis using o i(3) closing_batch(1)[OF L(1) k] by auto
  qed
  moreover have "view (release_stream n s) = (view s)\<lparr>v_live := filter (\<lambda>m. m \<noteq> n) (v_live (view s))\<rparr>"
    by (simp add: view_def release_stream_def)
  ultimately show ?thesis using good_released[OF L(2)] by (auto simp: fences_ok_def)
qed

lemma runnable_runs: "runnable s pre x \<Longrightarrow> set pre \<subseteq> set (bk_todo s) \<Longrightarrow> runs (view s) pre x"
  by (cases x) (auto simp: list_all_iff is_gpu_def split: item.splits)

lemma signal_view:
  assumes "signals_of x = [(stream_of x, val_of x)]"
  shows "view (signal x s) = fired x (view s)" "bk_todo (signal x s) = bk_todo s"
    "si_open (bk_streams (signal x s) m) = si_open (bk_streams s m)"
  using assms by (cases x; simp add: fired_def view_def complete_pending_host_operation_def fun_eq_iff)+

lemma finish_ok:
  assumes "fences_ok s" "can_finish i s"
  shows "fences_ok (finish i s)"
proof -
  obtain L where L: "outstanding s L" "good (view s) L" using assms(1) by (auto simp: fences_ok_def)
  let ?pre = "take i (bk_todo s)" and ?x = "bk_todo s ! i" and ?post = "drop (Suc i) (bk_todo s)"
  have t: "bk_todo s = ?pre @ ?x # ?post" and r: "runnable s ?pre ?x"
    using assms(2) by (simp_all add: can_finish_def id_take_nth_drop)
  have runs: "runs (view s) ?pre ?x" using runnable_runs[OF r] by (auto dest: in_set_takeD)
  obtain q where q: "L = ?pre @ ?x # ?post @ q" "all_closed s \<Longrightarrow> q = []"
    "\<And>n b. si_open (bk_streams s n) = Some b \<Longrightarrow> q = [Gpu (closing b)]"
  proof (cases "all_closed s")
    case True
    then show ?thesis using that[of "[]"] outstanding_closed[OF L(1) True] t by (auto simp: all_closed_def)
  next
    case False
    then obtain k b where k: "si_open (bk_streams s k) = Some b" by (auto simp: all_closed_def)
    note o = outstanding_open[OF L(1) k]
    have "L = ?pre @ ?x # ?post @ [Gpu (closing b)]" using o(3) t by (metis append_Cons append_assoc)
    moreover have "c = b" if "si_open (bk_streams s n) = Some c" for n c using o(2) k that by (metis option.distinct(1) option.inject)
    ultimately show ?thesis using that[of "[Gpu (closing b)]"] False by blast
  qed
  have "sound (view s) ?pre ?x" using L(2) q(1) all_soundD[of "view s" ?pre ?x "?post @ q"] by (simp add: good_def)
  then have sig: "signals_of ?x = [(stream_of ?x, val_of ?x)]" by (simp add: sound_def signal_ok_def)
  note v = signal_view[OF sig]
  have "good (view (finish i s)) (?pre @ ?post @ q)"
    using good_finish[of "view s" ?pre ?x "?post @ q"] L(2) q(1) runs v(1)[of s]
    by (simp add: finish_def view_def)
  moreover have "outstanding (finish i s) (?pre @ ?post @ q)"
  proof (cases "all_closed s")
    case True
    then show ?thesis using q(2) v(3) by (simp add: outstanding_def all_closed_def finish_def)
  next
    case False
    then obtain k b where k: "si_open (bk_streams s k) = Some b" by (auto simp: all_closed_def)
    note o = outstanding_open[OF L(1) k]
    have "bk_live (signal ?x s) = bk_live s" "bk_default_stream (signal ?x s) = bk_default_stream s"
      using v(1)[of s] by (metis fired_sel(7) view_sel(8), metis fired_sel(8) view_sel(9))
    then show ?thesis
      unfolding outstanding_def using k o q(3)[OF k] v(3)
      by (intro disjI2 exI[of _ k] exI[of _ b]) (simp add: finish_def batch_ok_def)
  qed
  ultimately show ?thesis by (auto simp: fences_ok_def)
qed

lemma initial_ok: "fences_ok initial_backend"
proof -
  have "good (view initial_backend) []"
    by (simp add: good_def all_sound_def values_ok_def hosts_ok_def streams_ok_def last_user_def initial_backend_def new_stream_def)
       auto
  then show ?thesis
    by (auto simp: fences_ok_def outstanding_def all_closed_def initial_backend_def new_stream_def)
qed

section \<open>Reachable backends\<close>

text \<open>
  A submission is granted when Metal makes every object it is asked for once the submission has reserved a value;
  the command buffer itself, which comes before, may be refused, and then the call only closes the open batches.
\<close>

definition granted :: "MetalObjects \<Rightarrow> bool" where
  "granted mo \<longleftrightarrow> mo_batch_encoder mo \<and> (mo_command_buffer mo \<longrightarrow> mo_encoder mo \<and> mo_completion mo)"

lemma granted_all [simp]: "granted all_objects"
  by (simp add: granted_def)

lemma granted_work:
  assumes "granted mo"
  shows "snd (submit_work cfg k batching mo True n bs s) = snd (submit_work cfg k batching all_objects True n bs s) \<or>
    snd (submit_work cfg k batching mo True n bs s) = flush_all n s"
proof -
  have g: "mo_batch_encoder mo" using assms by (simp add: granted_def)
  obtain ok s1 where r: "(if batching then extend_batch cfg k True n bs s else (False, s)) = (ok, s1)" by fastforce
  then have r': "(if batching then extend_batch cfg k (mo_batch_encoder all_objects) n bs s else (False, s)) = (ok, s1)"
    "(if batching then extend_batch cfg k (mo_batch_encoder mo) n bs s else (False, s)) = (ok, s1)" using g by (auto split: if_splits)
  have s1: "s1 = s" if "\<not> ok"
  proof (cases batching)
    case True
    then have "extend_batch cfg k True n bs s = (ok, s1)" using r by simp
    then show ?thesis by (cases rule: extend_cases) (use that in blast)+
  qed (use r in simp)
  show ?thesis unfolding submit_work_def r' using s1 assms by (cases ok; cases "mo_command_buffer mo") (simp_all add: granted_def Let_def)
qed

lemma granted_host:
  assumes "granted mo"
  shows "snd (enqueue_host_function mo n f s) = snd (enqueue_host_function all_objects n f s) \<or>
    snd (enqueue_host_function mo n f s) = flush_all n s"
  using assms by (cases "mo_command_buffer mo") (simp_all add: granted_def enqueue_host_function_def Let_def)

lemma flush_all_ok: "fences_ok s \<Longrightarrow> fences_ok (flush_all n s)"
  using flush_all_closed closed_fences_ok by blast

lemma granted_ok:
  assumes "fences_ok s" "usable n s" "granted mo"
  shows "fences_ok (snd (submit_work cfg k batching mo True n bs s))" "fences_ok (snd (enqueue_host_function mo n f s))"
  using granted_work[OF assms(3), of cfg k batching n bs s] granted_host[OF assms(3), of n f s]
    submit_work_ok[OF assms(1,2)] host_function_ok[OF assms(1,2)] flush_all_ok[OF assms(1)] by metis+

text \<open>
  The calls of the runtime and what Metal does, in any order.  Work is a copy or a kernel whose arguments can be bound,
  with or without batching.
\<close>

inductive granted_step :: "BackendConfig \<Rightarrow> Backend \<Rightarrow> Backend \<Rightarrow> bool" for cfg where
  create: "granted_step cfg s (snd (create_stream participates s))"
| release: "idle n s \<Longrightarrow> granted_step cfg s (release_stream n s)"
| work: "usable n s \<Longrightarrow> granted mo \<Longrightarrow> granted_step cfg s (snd (submit_work cfg k batching mo True n buffers s))"
| copy: "usable n s \<Longrightarrow> granted mo \<Longrightarrow> granted_step cfg s (snd (blit_copy cfg mo n dst src bytes s))"
| marker: "usable n s \<Longrightarrow> granted_step cfg s (snd (stream_record_marker mo n s))"
| host: "usable n s \<Longrightarrow> granted mo \<Longrightarrow> granted_step cfg s (snd (enqueue_host_function mo n f s))"
| flush: "granted_step cfg s (flush_open_batch n s)"
| finishes: "can_finish i s \<Longrightarrow> granted_step cfg s (finish i s)"

inductive granted_reachable :: "BackendConfig \<Rightarrow> Backend \<Rightarrow> bool" for cfg where
  initial: "granted_reachable cfg initial_backend"
| step: "granted_reachable cfg s \<Longrightarrow> granted_step cfg s t \<Longrightarrow> granted_reachable cfg t"

lemma step_ok: "granted_step cfg s t \<Longrightarrow> fences_ok s \<Longrightarrow> fences_ok t"
  by (induction rule: granted_step.induct)
     (simp_all add: create_stream_ok release_ok granted_ok blit_copy_def record_marker_ok flush_ok finish_ok)

lemma reachable_fences_ok: "granted_reachable cfg s \<Longrightarrow> fences_ok s"
  by (induction rule: granted_reachable.induct) (auto intro: initial_ok step_ok)

lemma fences_ok_sound: "fences_ok s \<Longrightarrow> \<exists>q. all_sound (view s) (bk_todo s @ q)"
  by (auto simp: fences_ok_def outstanding_def good_def intro: exI[of _ "[]"])

lemma all_sound_prefix: "all_sound V (L @ q) \<Longrightarrow> all_sound V L"
  by (induction q rule: rev_induct) (auto simp: all_sound_snoc simp flip: append_assoc)

lemma reachable_sound: "granted_reachable cfg s \<Longrightarrow> all_sound (view s) (bk_todo s)"
  using reachable_fences_ok fences_ok_sound all_sound_prefix by blast

text \<open>
  C32: The fences order what must be ordered, as long as Metal makes what the submissions ask for.  Take any state
  reached by submissions, batches, flushes and completions in which the arguments of every kernel can be bound and in
  which Metal, once a submission has reserved its value, creates every encoder and every completion buffer (it may
  refuse the command buffer itself).  In such a state an outstanding command buffer or host function cannot start while
  an earlier submission that carries work is outstanding on its own stream, on the other side of the legacy default
  stream, or on a buffer that both use.  Without the condition this is false (lemma \<open>refused_completion_overtakes\<close>).
\<close>

theorem fences_order:
  assumes "granted_reachable cfg s" "bk_todo s = earlier @ x # later" "y \<in> set earlier" "precedes (view s) y x"
  shows "\<not> runnable s earlier x"
proof -
  have "\<not> runs (view s) earlier x"
    using precedes_blocks[of "view s" earlier x later y] reachable_sound[OF assms(1)] assms(2-4) by simp
  then show ?thesis using runnable_runs[of s earlier x] assms(2) by auto
qed

definition sample_config :: BackendConfig where
  "sample_config = \<lparr>bc_max_batch_dispatches = 256, bc_mixed_encoders = True\<rparr>"

text \<open>A buffer used on a stream that does not block, and then on the default stream.\<close>

lemmas backend_eval = flush_all_def flush_open_batch_def flush_open_batch_locked_def flush_other_open_batches_def
  new_command_buffer_def encode_submission_waits_def host_barrier_def legacy_sources_def latest_of_def resource_waits_def
  fence_buffers_def add_wait_def initial_backend_def new_stream_def Let_def all_objects_def touch_def set_stream_def
  submit_buffer_def add_pending_def commit_def encode_resource_signals_def create_stream_def extend_batch_def numeral_2_eq_2

definition sample_first :: Backend where
  "sample_first = snd (submit_work sample_config kCompute False all_objects True 1 [7] (snd (create_stream False initial_backend)))"

definition sample_fences :: Backend where
  "sample_fences = snd (submit_work sample_config kCompute False all_objects True 0 [7] sample_first)"

lemma sample_first_eq:
  "bk_default_stream sample_first = 0" "bk_live sample_first = [1]" "bk_events sample_first = (\<lambda>_. 0)"
  "bk_last_access sample_first = (\<lambda>b. if b = 7 then Some (1, 1) else None)" "bk_next_buffer sample_first = 1"
  "bk_todo sample_first = [Gpu \<lparr>cb_id = 0, cb_stream = 1, cb_waits = [], cb_work = [[7]], cb_signals = [(1, 1)]\<rparr>]"
  "bk_streams sample_first = (\<lambda>_. new_stream True True)(1 := (new_stream False False)\<lparr>si_next_access_value := 2,
     si_latest_submission_value := 1, si_next_ticket := 2, si_pending_buffers := [(1, 0)]\<rparr>)"
  by (simp_all add: sample_first_def submit_work_def backend_eval cong: if_cong)

lemma sample_fences_reachable: "granted_reachable sample_config sample_fences"
proof -
  let ?s1 = "snd (create_stream False initial_backend)"
  have s1: "granted_reachable sample_config ?s1"
    by (rule granted_reachable.step[OF granted_reachable.initial granted_step.create])
  have u1: "usable 1 ?s1" by (simp add: usable_def create_stream_def initial_backend_def set_stream_def)
  have s2: "granted_reachable sample_config sample_first"
    unfolding sample_first_def by (rule granted_reachable.step[OF s1 granted_step.work[OF u1 granted_all]])
  have u2: "usable 0 sample_first" by (simp add: usable_def sample_first_eq)
  show ?thesis unfolding sample_fences_def by (rule granted_reachable.step[OF s2 granted_step.work[OF u2 granted_all]])
qed

lemma sample_fences_todo: "bk_todo sample_fences =
    [Gpu \<lparr>cb_id = 0, cb_stream = 1, cb_waits = [], cb_work = [[7]], cb_signals = [(1, 1)]\<rparr>] @
     Gpu \<lparr>cb_id = 1, cb_stream = 0, cb_waits = [(1, 1)], cb_work = [[7]], cb_signals = [(0, 1)]\<rparr> # []"
  by (simp add: sample_fences_def submit_work_def backend_eval sample_first_eq cong: if_cong)

theorem fences_order_witness:
  "\<not> runnable sample_fences [Gpu \<lparr>cb_id = 0, cb_stream = 1, cb_waits = [], cb_work = [[7]], cb_signals = [(1, 1)]\<rparr>]
     (Gpu \<lparr>cb_id = 1, cb_stream = 0, cb_waits = [(1, 1)], cb_work = [[7]], cb_signals = [(0, 1)]\<rparr>)"
  by (rule fences_order[OF sample_fences_reachable sample_fences_todo list.set_intros(1)])
     (simp add: precedes_def carries_def uses_def)

lemma head_runnable:
  assumes "all_sound (view s) (bk_todo s)" "bk_todo s = x # later"
  shows "can_finish 0 s"
proof -
  have r: "runs (view s) [] x" using head_runs[of "view s" x later] assms by simp
  have "runnable s [] x"
  proof (cases x)
    case (Gpu c)
    then show ?thesis using r by (simp add: list_all_iff)
  next
    case (HostFn n v m f)
    have "cb_id c \<noteq> m" if c: "Gpu c \<in> set later" for c
    proof -
      obtain p q where "later = p @ Gpu c # q" using split_list[OF c] by blast
      then have "host_ok (x # p) (Gpu c)"
        using all_soundD[of "view s" "x # p" "Gpu c" q] assms by (simp add: sound_def)
      then show ?thesis using HostFn by (auto simp: host_ok_def)
    qed
    then have "list_all (\<lambda>x. case x of Gpu d \<Rightarrow> cb_id d \<noteq> m | HostFn _ _ _ _ \<Rightarrow> True) later"
      by (auto simp: list_all_iff split: item.split)
    then show ?thesis using HostFn assms(2) by simp
  qed
  then show ?thesis using assms(2) by (simp add: can_finish_def)
qed

lemma todo_finish: "can_finish 0 s \<Longrightarrow> bk_todo (finish 0 s) = tl (bk_todo s)"
  by (cases "bk_todo s") (simp_all add: can_finish_def finish_def)

lemma fences_drain:
  assumes "fences_ok s"
  shows "(\<forall>i<length (bk_todo s). can_finish 0 ((finish 0 ^^ i) s)) \<and> bk_todo ((finish 0 ^^ length (bk_todo s)) s) = []"
  using assms
proof (induction "bk_todo s" arbitrary: s)
  case Nil
  then show ?case by simp
next
  case (Cons x later)
  have sound: "all_sound (view s) (bk_todo s)" using fences_ok_sound[OF Cons.prems] all_sound_prefix by blast
  have can: "can_finish 0 s" using head_runnable[OF sound] Cons.hyps(2) by metis
  have t: "bk_todo (finish 0 s) = later" using todo_finish[OF can] Cons.hyps(2) by (metis list.sel(3))
  have "can_finish 0 ((finish 0 ^^ i) s)" if "i < length (bk_todo s)" for i
  proof (cases i)
    case 0
    then show ?thesis using can by simp
  next
    case (Suc j)
    then have "j < length (bk_todo (finish 0 s))" using that t Cons.hyps(2) by (metis Suc_less_eq length_Cons)
    then have "can_finish 0 ((finish 0 ^^ j) (finish 0 s))"
      using Cons.hyps(1)[OF t[symmetric] finish_ok[OF Cons.prems can]] by blast
    then show ?thesis by (simp add: Suc funpow_swap1)
  qed
  moreover have "bk_todo ((finish 0 ^^ length (bk_todo s)) s) = []"
  proof -
    have "bk_todo ((finish 0 ^^ length later) (finish 0 s)) = []"
      using Cons.hyps(1)[OF t[symmetric] finish_ok[OF Cons.prems can]] t by blast
    then show ?thesis using Cons.hyps(2) by (metis comp_apply funpow_Suc_right length_Cons)
  qed
  ultimately show ?case by blast
qed

text \<open>
  C33: The fences never block for ever, as long as Metal makes what the submissions ask for.  Take any state reached by
  submissions, batches, flushes and completions in which the arguments of every kernel can be bound and in which Metal,
  once a submission has reserved its value, creates every encoder and every completion buffer (it may refuse the
  command buffer itself).  In such a state, with an open batch or without, the oldest of what is outstanding can finish,
  and after it the next, until nothing is outstanding: no set of streams waits for itself.  Without the condition
  this is false (lemma \<open>refused_encoder_blocks\<close>).
\<close>

theorem fences_progress:
  assumes "granted_reachable cfg s"
  shows "(\<forall>i<length (bk_todo s). can_finish 0 ((finish 0 ^^ i) s)) \<and> bk_todo ((finish 0 ^^ length (bk_todo s)) s) = []"
  by (rule fences_drain[OF reachable_fences_ok[OF assms]])

theorem fences_progress_witness: "can_finish 0 sample_fences \<and> bk_todo ((finish 0 ^^ 2) sample_fences) = []"
  using fences_progress[OF sample_fences_reachable] by (auto simp: sample_fences_todo numeral_2_eq_2)

text \<open>
  A submission that fails after it has reserved its value leaves a value that nothing signals: here the
  encoder of a copy is refused, and the next marker of the default stream waits for ever.
\<close>

lemma refused_encoder_blocks:
  fixes cfg
  defines "s1 \<equiv> snd (create_stream True initial_backend)"
  defines "s2 \<equiv> snd (blit_copy cfg (all_objects\<lparr>mo_encoder := False\<rparr>) 1 7 8 4 s1)"
  defines "s3 \<equiv> snd (stream_record_marker all_objects 0 s2)"
  shows "length (bk_todo s3) = 1" "\<not> can_finish i s3" "si_open (bk_streams s3 n) = None"
proof -
  have s1: "s1 = initial_backend\<lparr>bk_live := [1], bk_streams := (bk_streams initial_backend)(1 := new_stream True False),
      bk_next_stream := 2\<rparr>"
    by (simp add: s1_def create_stream_def initial_backend_def set_stream_def)
  have e: "(if b then extend_batch cfg kBlit False 1 [7, 8] s1 else (False, s1)) = (False, s1)" for b
    by (simp add: s1 extend_batch_def initial_backend_def new_stream_def)
  have s2: "s2 = set_stream 1 ((new_stream True False)\<lparr>si_next_access_value := 2, si_latest_submission_value := 1\<rparr>)
      (touch [7, 8] (1, 1) (s1\<lparr>bk_next_buffer := 1\<rparr>))"
    using e[of True] by (simp add: s2_def blit_copy_def submit_work_def s1 backend_eval cong: if_cong)
  have "can_finish i s3 \<Longrightarrow> i = 0" if "length (bk_todo s3) = 1" using that by (simp add: can_finish_def)
  moreover have "length (bk_todo s3) = 1" "\<not> can_finish 0 s3" "si_open (bk_streams s3 n) = None"
    by (simp_all add: s3_def s2 s1 backend_eval stream_record_marker_def submit_marker_def can_finish_def)
  ultimately show "length (bk_todo s3) = 1" "\<not> can_finish i s3" "si_open (bk_streams s3 n) = None" by auto
qed

text \<open>
  A host function whose completion buffer is refused signals its value at once, before the marker it would have waited
  for: work of the default stream that has to come after the stream starts while a kernel of the stream is outstanding.
\<close>

lemma refused_completion_overtakes:
  fixes cfg
  defines "s1 \<equiv> snd (create_stream True initial_backend)"
  defines "s2 \<equiv> snd (submit_work cfg kCompute False all_objects True 1 [7] s1)"
  defines "s3 \<equiv> snd (enqueue_host_function (all_objects\<lparr>mo_completion := False\<rparr>) 1 0 s2)"
  defines "s4 \<equiv> snd (submit_work cfg kCompute False all_objects True 0 [8] s3)"
  shows "can_finish 2 s4" "bk_todo s4 ! 0 = Gpu \<lparr>cb_id = 0, cb_stream = 1, cb_waits = [], cb_work = [[7]], cb_signals = [(1, 1)]\<rparr>"
    "precedes (view s4) (bk_todo s4 ! 0) (bk_todo s4 ! 2)"
proof -
  have s1: "s1 = initial_backend\<lparr>bk_live := [1], bk_streams := (bk_streams initial_backend)(1 := new_stream True False),
      bk_next_stream := 2\<rparr>"
    by (simp add: s1_def create_stream_def initial_backend_def set_stream_def)
  let ?c = "\<lparr>cb_id = 0, cb_stream = 1, cb_waits = [], cb_work = [[7]], cb_signals = [(1, 1)]\<rparr>"
  let ?m = "\<lparr>cb_id = 1, cb_stream = 1, cb_waits = [], cb_work = [], cb_signals = [(1, 2)]\<rparr>"
  have s2: "s2 = s1\<lparr>bk_streams := (bk_streams s1)(1 := (new_stream True False)\<lparr>si_next_access_value := 2,
      si_latest_submission_value := 1, si_next_ticket := 2, si_pending_buffers := [(1, 0)]\<rparr>),
      bk_last_access := (\<lambda>b. if b = 7 then Some (1, 1) else None), bk_todo := [Gpu ?c], bk_next_buffer := 1\<rparr>"
    by (simp add: s2_def submit_work_def s1 backend_eval fun_eq_iff cong: if_cong)
  have s3: "s3 = s2\<lparr>bk_streams := (bk_streams s2)(1 := (new_stream True False)\<lparr>si_next_access_value := 4,
      si_latest_submission_value := 3, si_latest_submission_requires_wait := True, si_next_ticket := 3,
      si_pending_buffers := [(1, 0), (2, 1)]\<rparr>), bk_todo := [Gpu ?c, Gpu ?m], bk_next_buffer := 2,
      bk_events := (bk_events s2)(1 := 3)\<rparr>"
    by (simp add: s3_def enqueue_host_function_def submit_marker_def reserve_host_value_def s2 s1 backend_eval fun_eq_iff cong: if_cong)
  have t: "bk_todo s4 = [Gpu ?c, Gpu ?m, Gpu \<lparr>cb_id = 2, cb_stream = 0, cb_waits = [(1, 3)], cb_work = [[8]], cb_signals = [(0, 1)]\<rparr>]"
    "bk_events s4 = (bk_events s2)(1 := 3)"
    by (simp_all add: s4_def submit_work_def s3 s2 s1 backend_eval cong: if_cong)
  show "can_finish 2 s4" "bk_todo s4 ! 0 = Gpu ?c" using t by (simp_all add: can_finish_def numeral_2_eq_2)
  have "bk_default_stream s4 = 0" "si_participates_in_legacy_sync (bk_streams s4 1)" "si_participates_in_legacy_sync (bk_streams s4 0)"
    by (simp_all add: s4_def submit_work_def s3 s2 s1 backend_eval cong: if_cong)
  then show "precedes (view s4) (bk_todo s4 ! 0) (bk_todo s4 ! 2)"
    using t by (simp add: precedes_def carries_def legacy_pair_def view_def numeral_2_eq_2)
qed

end
