(* ===== verification/BackendTickets.thy ===== *)
theory BackendTickets
  imports BackendOrder
begin

text \<open>
  Waiting for the streams of the Metal backend, \<open>runtime/metal_backend/metal_backend.mm\<close>: the tickets of
  the command buffers of a stream, the polling of those that have finished, and the calls that return
  when a ticket, a stream or every stream is complete.

  \<open>status\<close> gives the result of a finished command buffer.  \<open>wait\<close> and \<open>wait_host\<close> are what happens while
  the host thread sleeps: until a command buffer has finished, and until the host functions of a stream
  have run.
\<close>

section \<open>Tickets\<close>

definition in_flight :: "nat \<Rightarrow> Backend \<Rightarrow> bool" where
  "in_flight i s = list_ex (\<lambda>x. case x of Gpu c \<Rightarrow> cb_id c = i | HostFn _ _ _ _ \<Rightarrow> False) (bk_todo s)"

definition tail_ticket :: "nat \<Rightarrow> Backend \<Rightarrow> nat \<times> Backend" where
  "tail_ticket n s = (let s1 = flush_open_batch n s in (si_next_ticket (bk_streams s1 n) - 1, s1))"

fun poll_pending ::
  "(nat \<Rightarrow> cudaError) \<Rightarrow> Backend \<Rightarrow> (nat \<times> nat) list \<Rightarrow> nat \<Rightarrow> cudaError \<times> nat \<times> (nat \<times> nat) list" where
  "poll_pending status s [] completed = (cudaSuccess, completed, [])"
| "poll_pending status s ((ticket, i) # rest) completed =
     (if in_flight i s then (cudaSuccess, completed, (ticket, i) # rest)
      else if status i \<noteq> cudaSuccess then (status i, ticket, rest)
      else poll_pending status s rest ticket)"

definition set_completed :: "nat \<Rightarrow> nat \<Rightarrow> (nat \<times> nat) list \<Rightarrow> Backend \<Rightarrow> Backend" where
  "set_completed n completed pending s =
     set_stream n ((bk_streams s n)\<lparr>si_completed_ticket := completed, si_pending_buffers := pending\<rparr>) s"

definition poll_completed :: "(nat \<Rightarrow> cudaError) \<Rightarrow> nat \<Rightarrow> Backend \<Rightarrow> cudaError \<times> Backend" where
  "poll_completed status n s =
     (let s1 = flush_open_batch n s; st = bk_streams s1 n
      in case poll_pending status s1 (si_pending_buffers st) (si_completed_ticket st) of
           (e, completed, pending) \<Rightarrow> (e, set_completed n completed pending s1))"

text \<open>Whether the ticket is complete, when the call succeeds.\<close>

definition query_ticket :: "(nat \<Rightarrow> cudaError) \<Rightarrow> nat \<Rightarrow> nat \<Rightarrow> Backend \<Rightarrow> (cudaError \<times> bool option) \<times> Backend" where
  "query_ticket status n ticket s =
     (let s1 = flush_open_batch n s in
      if ticket = 0 then ((cudaSuccess, Some True), s1)
      else case poll_completed status n s1 of
        (e, s2) \<Rightarrow>
          if e \<noteq> cudaSuccess then ((e, None), s2)
          else if si_next_ticket (bk_streams s2 n) \<le> ticket then ((cudaErrorInvalidValue, None), s2)
          else ((cudaSuccess, Some (ticket \<le> si_completed_ticket (bk_streams s2 n))), s2))"

partial_function (option) wait_loop ::
  "(nat \<Rightarrow> cudaError) \<Rightarrow> (nat \<Rightarrow> Backend \<Rightarrow> Backend) \<Rightarrow> nat \<Rightarrow> nat \<Rightarrow> Backend \<Rightarrow> (cudaError \<times> Backend) option" where
  "wait_loop status wait n ticket s =
     (case poll_completed status n s of
        (e, s1) \<Rightarrow>
          if e \<noteq> cudaSuccess then Some (e, s1)
          else if si_next_ticket (bk_streams s1 n) \<le> ticket then Some (cudaErrorInvalidValue, s1)
          else if ticket \<le> si_completed_ticket (bk_streams s1 n) then Some (cudaSuccess, s1)
          else case si_pending_buffers (bk_streams s1 n) of
            [] \<Rightarrow> Some (cudaErrorUnknown, s1)
          | (_, i) # _ \<Rightarrow>
              let s2 = wait i s1
              in if status i \<noteq> cudaSuccess then Some (status i, s2) else wait_loop status wait n ticket s2)"

definition wait_ticket ::
  "(nat \<Rightarrow> cudaError) \<Rightarrow> (nat \<Rightarrow> Backend \<Rightarrow> Backend) \<Rightarrow> nat \<Rightarrow> nat \<Rightarrow> Backend \<Rightarrow> (cudaError \<times> Backend) option" where
  "wait_ticket status wait n ticket s =
     (let s1 = flush_open_batch n s
      in if ticket = 0 then Some (cudaSuccess, s1) else wait_loop status wait n ticket s1)"

definition stream_synchronize ::
  "(nat \<Rightarrow> cudaError) \<Rightarrow> (nat \<Rightarrow> Backend \<Rightarrow> Backend) \<Rightarrow> (nat \<Rightarrow> Backend \<Rightarrow> Backend) \<Rightarrow> nat \<Rightarrow> Backend \<Rightarrow>
     (cudaError \<times> Backend) option" where
  "stream_synchronize status wait wait_host n s =
     (case tail_ticket n (wait_host n s) of (ticket, s1) \<Rightarrow> wait_ticket status wait n ticket s1)"

definition destroy_stream ::
  "(nat \<Rightarrow> cudaError) \<Rightarrow> (nat \<Rightarrow> Backend \<Rightarrow> Backend) \<Rightarrow> (nat \<Rightarrow> Backend \<Rightarrow> Backend) \<Rightarrow> nat \<Rightarrow> Backend \<Rightarrow>
     (cudaError \<times> Backend) option" where
  "destroy_stream status wait wait_host n s = stream_synchronize status wait wait_host n s"

fun synchronize_streams ::
  "(nat \<Rightarrow> cudaError) \<Rightarrow> (nat \<Rightarrow> Backend \<Rightarrow> Backend) \<Rightarrow> (nat \<Rightarrow> Backend \<Rightarrow> Backend) \<Rightarrow> nat list \<Rightarrow> Backend \<Rightarrow>
     (cudaError \<times> Backend) option" where
  "synchronize_streams status wait wait_host [] s = Some (cudaSuccess, s)"
| "synchronize_streams status wait wait_host (n # ns) s =
     (case stream_synchronize status wait wait_host n s of
        None \<Rightarrow> None
      | Some (e, s1) \<Rightarrow>
          if e \<noteq> cudaSuccess then Some (e, s1) else synchronize_streams status wait wait_host ns s1)"

definition synchronize ::
  "(nat \<Rightarrow> cudaError) \<Rightarrow> (nat \<Rightarrow> Backend \<Rightarrow> Backend) \<Rightarrow> (nat \<Rightarrow> Backend \<Rightarrow> Backend) \<Rightarrow> Backend \<Rightarrow>
     (cudaError \<times> Backend) option" where
  "synchronize status wait wait_host s =
     synchronize_streams status wait wait_host (bk_live s @ [bk_default_stream s]) s"

section \<open>The invariant of the tickets\<close>

text \<open>
  The pending tickets of a stream are those after the completed one; what is in flight is pending on its
  stream; and the host functions of a stream are counted, all but \<open>k\<close> of them.
\<close>

definition host_count :: "nat \<Rightarrow> item list \<Rightarrow> nat" where
  "host_count n L = length (filter (\<lambda>x. \<not> is_gpu x \<and> stream_of x = n) L)"

definition stream_tickets_ok :: "StreamImpl \<Rightarrow> bool" where
  "stream_tickets_ok st \<longleftrightarrow> si_completed_ticket st < si_next_ticket st \<and>
     map fst (si_pending_buffers st) = [Suc (si_completed_ticket st)..<si_next_ticket st]"

definition tickets_off :: "(nat \<Rightarrow> nat) \<Rightarrow> Backend \<Rightarrow> bool" where
  "tickets_off k s \<longleftrightarrow> (\<forall>n. stream_tickets_ok (bk_streams s n)) \<and>
     (\<forall>c. Gpu c \<in> set (bk_todo s) \<longrightarrow> cb_id c \<in> snd ` set (si_pending_buffers (bk_streams s (cb_stream c)))) \<and>
     (\<forall>n. si_pending_host_operations (bk_streams s n) + k n = host_count n (bk_todo s)) \<and>
     (\<forall>n b. si_open (bk_streams s n) = Some b \<longrightarrow> cb_stream (ob_buffer b) = n)"

abbreviation tickets_ok :: "Backend \<Rightarrow> bool" where
  "tickets_ok \<equiv> tickets_off (\<lambda>_. 0)"

lemma stream_tickets_push:
  assumes "stream_tickets_ok st"
  shows "stream_tickets_ok (st\<lparr>si_next_ticket := Suc (si_next_ticket st),
    si_pending_buffers := si_pending_buffers st @ [(si_next_ticket st, i)]\<rparr>)"
proof -
  have "Suc (si_completed_ticket st) \<le> si_next_ticket st" using assms by (simp add: stream_tickets_ok_def)
  then show ?thesis using assms by (simp add: stream_tickets_ok_def)
qed

lemma tickets_submit:
  assumes "tickets_off k s"
  shows "tickets_off k (snd (submit_buffer c s))"
proof -
  let ?n = "cb_stream c"
  have t: "snd (submit_buffer c s) = set_stream ?n ((bk_streams s ?n)\<lparr>si_next_ticket := Suc (si_next_ticket (bk_streams s ?n)),
      si_pending_buffers := si_pending_buffers (bk_streams s ?n) @ [(si_next_ticket (bk_streams s ?n), cb_id c)]\<rparr>) (commit (Gpu c) s)"
    by (simp add: submit_buffer_def add_pending_def Let_def)
  have "stream_tickets_ok (bk_streams s m)" for m using assms by (simp add: tickets_off_def)
  then have "stream_tickets_ok (bk_streams (snd (submit_buffer c s)) m)" for m
    unfolding t by (simp add: stream_tickets_push)
  moreover have "cb_id d \<in> snd ` set (si_pending_buffers (bk_streams (snd (submit_buffer c s)) (cb_stream d)))"
    if "Gpu d \<in> set (bk_todo (snd (submit_buffer c s)))" for d
  proof (cases "d = c")
    case False
    then have "cb_id d \<in> snd ` set (si_pending_buffers (bk_streams s (cb_stream d)))"
      using that assms by (auto simp: t tickets_off_def)
    then show ?thesis unfolding t by (cases "cb_stream d = ?n") auto
  qed (simp add: t)
  ultimately show ?thesis using assms unfolding tickets_off_def by (simp add: t host_count_def is_gpu_def)
qed

text \<open>A change that keeps the tickets, the counts and the batches of every stream.\<close>

lemma tickets_same:
  assumes "tickets_off k s" "bk_todo t = bk_todo s"
    "\<And>m. si_next_ticket (bk_streams t m) = si_next_ticket (bk_streams s m) \<and>
      si_completed_ticket (bk_streams t m) = si_completed_ticket (bk_streams s m) \<and>
      si_pending_buffers (bk_streams t m) = si_pending_buffers (bk_streams s m) \<and>
      si_pending_host_operations (bk_streams t m) = si_pending_host_operations (bk_streams s m)"
    "\<And>m b. si_open (bk_streams t m) = Some b \<Longrightarrow> cb_stream (ob_buffer b) = m"
  shows "tickets_off k t"
  using assms by (simp add: tickets_off_def stream_tickets_ok_def)

lemma tickets_flush:
  assumes "tickets_off k s"
  shows "tickets_off k (flush_open_batch n s)"
proof (cases "si_open (bk_streams s n)")
  case None
  then show ?thesis using assms by (simp add: flush_open_batch_def flush_open_batch_locked_def)
next
  case (Some b)
  let ?s = "set_stream n ((bk_streams s n)\<lparr>si_open := None\<rparr>) s"
  have b: "cb_stream (ob_buffer b) = n" using assms Some by (simp add: tickets_off_def)
  have "tickets_off k ?s" by (rule tickets_same[OF assms]) (use assms in \<open>auto simp: tickets_off_def split: if_splits\<close>)
  moreover have "flush_open_batch n s = snd (submit_buffer (closing b) ?s)"
    using Some b by (simp add: flush_open_batch_def flush_open_batch_locked_def submit_buffer_def Let_def closing_def
        encode_resource_signals_def)
  ultimately show ?thesis using tickets_submit by simp
qed

lemma tickets_flush_all: "tickets_off k s \<Longrightarrow> tickets_off k (flush_all n s)"
proof -
  have "tickets_off k (fold (\<lambda>n s. if n = m then s else flush_open_batch n s) ns s)" if "tickets_off k s" for m ns s
    using that by (induction ns arbitrary: s) (auto intro: tickets_flush)
  then show "tickets_off k s \<Longrightarrow> tickets_off k (flush_all n s)"
    by (simp add: flush_all_def flush_other_open_batches_def tickets_flush)
qed

lemma tickets_new_buffer: "tickets_off k s \<Longrightarrow> tickets_off k (snd (new_command_buffer n s))"
  by (rule tickets_same) (auto simp: new_command_buffer_def tickets_off_def)

lemma tickets_encode:
  assumes "tickets_off k s"
  shows "tickets_off k (snd (encode_submission_waits n bs c s))"
  by (rule tickets_same[OF assms]) (use assms in \<open>auto simp: encode_submission_waits_def Let_def tickets_off_def split: if_splits\<close>)

lemma tickets_submit_marker:
  assumes "tickets_off k s"
  shows "tickets_off k (snd (submit_marker n s))"
proof -
  obtain c s1 where c: "new_command_buffer n s = (c, s1)" by fastforce
  obtain c1 ws v s2 where e: "encode_submission_waits n [] c s1 = ((c1, ws, v), s2)" by (metis prod_cases3 surj_pair)
  have "tickets_off k s2" using tickets_encode[OF tickets_new_buffer[OF assms, of n], of n "[]" c] c e by simp
  then show ?thesis using c e tickets_submit by (simp add: submit_marker_def split: prod.split) (metis snd_conv)
qed

lemma tickets_marker: "tickets_off k s \<Longrightarrow> tickets_off k (snd (stream_record_marker mo n s))"
  using tickets_submit_marker[of k "flush_all n s" n] tickets_flush_all[of k s n]
  by (auto simp: stream_record_marker_def Let_def split: prod.split)

lemma tickets_submit_work:
  assumes "tickets_off k s"
  shows "tickets_off k (snd (submit_work cfg e batching all_objects True n bs s))"
proof -
  obtain ok s1 where r: "(if batching then extend_batch cfg e (mo_batch_encoder all_objects) n bs s else (False, s)) = (ok, s1)"
    by fastforce
  have s1: "tickets_off k s1 \<and> (ok \<longrightarrow> tickets_off k (encode_in_batch n bs s1))"
  proof (cases batching)
    case True
    then have x: "extend_batch cfg e True n bs s = (ok, s1)" using r by simp
    then show ?thesis
    proof (cases rule: extend_cases)
      case (2 b j d)
      have b: "cb_stream (ob_buffer b) = n" using assms 2(2) by (simp add: tickets_off_def)
      have "tickets_off k s1"
        unfolding 2(4) by (rule tickets_same[OF assms]) (use assms b in \<open>auto simp: tickets_off_def split: if_splits\<close>)
      then have "tickets_off k (encode_in_batch n bs s1)"
        by (rule tickets_same) (use assms b 2(4) in \<open>auto simp: tickets_off_def encode_in_batch_def split: if_splits option.splits\<close>)
      then show ?thesis using \<open>tickets_off k s1\<close> by blast
    qed (use assms in simp)
  qed (use assms r in simp)
  show ?thesis
  proof (cases ok)
    case True
    then show ?thesis using s1 r unfolding submit_work_def r by simp
  next
    case False
    let ?s2 = "flush_all n s1"
    obtain c s3 where c: "new_command_buffer n ?s2 = (c, s3)" by fastforce
    obtain c1 ws v s4 where w: "encode_submission_waits n bs c s3 = ((c1, ws, v), s4)" by (metis prod_cases3 surj_pair)
    have "tickets_off k ?s2" using s1 by (simp add: tickets_flush_all)
    then have "tickets_off k s3" using tickets_new_buffer[of k ?s2 n] c by simp
    then have t4: "tickets_off k s4" using tickets_encode[of k s3 n bs c] w by simp
    have "cb_stream c = n" using c by (auto simp: new_command_buffer_def)
    then have c1: "cb_stream c1 = n" using w by (auto simp: encode_submission_waits_def Let_def)
    have "tickets_off k (encode_in_batch n bs (begin_batch n c1 e [(n, v)] ws v s4))"
      by (rule tickets_same[OF t4])
         (use t4 c1 in \<open>auto simp: tickets_off_def encode_in_batch_def begin_batch_def split: if_splits\<close>)
    then show ?thesis
      unfolding submit_work_def r using False c w t4 by (cases batching) (simp_all add: Let_def tickets_submit)
  qed
qed

lemma tickets_count:
  assumes "tickets_off (\<lambda>m. if m = n then 1 else 0) s"
  shows "tickets_ok (add_pending_host_operation n s)"
proof -
  have "si_pending_host_operations (bk_streams s m) + (if m = n then 1 else 0) = host_count m (bk_todo s)" for m
    using assms by (simp add: tickets_off_def)
  then have "si_pending_host_operations (bk_streams (add_pending_host_operation n s) m) = host_count m (bk_todo s)" for m
  proof -
    have "si_pending_host_operations (bk_streams s m) + (if m = n then 1 else 0) = host_count m (bk_todo s)" by fact
    then show ?thesis by (cases "m = n") (simp_all add: add_pending_host_operation_def)
  qed
  moreover have "bk_todo (add_pending_host_operation n s) = bk_todo s"
    "si_next_ticket (bk_streams (add_pending_host_operation n s) m) = si_next_ticket (bk_streams s m)"
    "si_completed_ticket (bk_streams (add_pending_host_operation n s) m) = si_completed_ticket (bk_streams s m)"
    "si_pending_buffers (bk_streams (add_pending_host_operation n s) m) = si_pending_buffers (bk_streams s m)"
    "si_open (bk_streams (add_pending_host_operation n s) m) = si_open (bk_streams s m)" for m
    by (simp_all add: add_pending_host_operation_def)
  ultimately show ?thesis
    using assms unfolding tickets_off_def stream_tickets_ok_def by simp
qed

lemma tickets_host:
  assumes "tickets_ok s"
  shows "tickets_ok (snd (enqueue_host_function all_objects n f s))"
proof -
  let ?s1 = "flush_all n s" and ?k = "\<lambda>m. if m = n then 1 else 0"
  obtain i t s2 where m: "submit_marker n ?s1 = ((i, t), s2)" by (metis surj_pair)
  have s2: "tickets_ok s2" using tickets_submit_marker[OF tickets_flush_all[OF assms], of n n] m by simp
  obtain v s3 where r: "reserve_host_value n s2 = (v, s3)" by fastforce
  have s3: "tickets_ok s3"
    by (rule tickets_same[OF s2]) (use s2 r in \<open>auto simp: reserve_host_value_def Let_def tickets_off_def split: if_splits\<close>)
  have h: "tickets_off ?k (commit (HostFn n v i f) s3)"
    using s3 by (auto simp: tickets_off_def host_count_def is_gpu_def)
  obtain c s4 where c: "new_command_buffer n (commit (HostFn n v i f) s3) = (c, s4)" by fastforce
  obtain c1 ws w s5 where e: "encode_submission_waits n [] c s4 = ((c1, ws, w), s5)" by (metis prod_cases3 surj_pair)
  have s5: "tickets_off ?k s5" using tickets_encode[OF tickets_new_buffer[OF h, of n], of n "[]" c] c e by simp
  have "tickets_off ?k (set_latest_host_barrier n v s5)"
    by (rule tickets_same[OF s5]) (use s5 in \<open>auto simp: set_latest_host_barrier_def tickets_off_def split: if_splits\<close>)
  then have "tickets_off ?k (snd (submit_buffer (encode_resource_signals [(n, w)] c1) (set_latest_host_barrier n v s5)))"
    by (rule tickets_submit)
  then have "tickets_ok (add_pending_host_operation n
      (snd (submit_buffer (encode_resource_signals [(n, w)] c1) (set_latest_host_barrier n v s5))))"
    by (rule tickets_count)
  then show ?thesis using m r c e by (simp add: enqueue_host_function_def Let_def)
qed

lemma host_count_remove: "host_count n (pre @ x # post) = host_count n (pre @ post) + (if \<not> is_gpu x \<and> stream_of x = n then 1 else 0)"
  by (simp add: host_count_def)

lemma tickets_finish:
  assumes "tickets_ok s" "can_finish i s"
  shows "tickets_ok (finish i s)"
proof -
  let ?pre = "take i (bk_todo s)" and ?x = "bk_todo s ! i" and ?post = "drop (Suc i) (bk_todo s)"
  have t: "bk_todo s = ?pre @ ?x # ?post" using assms(2) by (simp add: can_finish_def id_take_nth_drop)
  have count: "host_count n (?pre @ ?post) + (if \<not> is_gpu ?x \<and> stream_of ?x = n then 1 else 0) =
      si_pending_host_operations (bk_streams s n)" for n
    using assms(1) host_count_remove[of n ?pre ?x ?post] t by (metis (no_types, lifting) add_0_right tickets_off_def)
  have sub: "set (?pre @ ?post) \<subseteq> set (bk_todo s)" by (auto dest: in_set_takeD in_set_dropD)
  have streams: "bk_streams (finish i s) m = bk_streams (signal ?x s) m" for m by (simp add: finish_def)
  have todo: "bk_todo (finish i s) = ?pre @ ?post" by (simp add: finish_def)
  have sig: "bk_streams (signal ?x s) m = (if \<not> is_gpu ?x \<and> stream_of ?x = m
      then (bk_streams s m)\<lparr>si_pending_host_operations := si_pending_host_operations (bk_streams s m) - 1\<rparr> else bk_streams s m)" for m
    by (cases ?x) (simp_all add: is_gpu_def complete_pending_host_operation_def)
  have "si_pending_host_operations (bk_streams (finish i s) m) = host_count m (?pre @ ?post)" for m
    using count[of m] by (cases "\<not> is_gpu ?x \<and> stream_of ?x = m") (auto simp: streams sig)
  then show ?thesis
    using assms(1) sub by (auto simp: tickets_off_def streams sig todo stream_tickets_ok_def split: if_splits)
qed

lemma tickets_create:
  assumes "tickets_ok s" "fences_ok s"
  shows "tickets_ok (snd (create_stream p s))"
proof -
  let ?n = "bk_next_stream s"
  obtain L where "outstanding s L" "good (view s) L" using assms(2) by (auto simp: fences_ok_def)
  then have "\<forall>y\<in>set (bk_todo s). stream_of y \<noteq> ?n"
    unfolding good_def streams_ok_def outstanding_def by fastforce
  then have "host_count ?n (bk_todo s) = 0" "\<forall>c. Gpu c \<in> set (bk_todo s) \<longrightarrow> cb_stream c \<noteq> ?n"
    by (auto simp: host_count_def filter_empty_conv)
  then show ?thesis
    using assms(1) by (auto simp: tickets_off_def create_stream_def Let_def new_stream_def stream_tickets_ok_def)
qed

lemma tickets_release: "tickets_ok s \<Longrightarrow> tickets_ok (release_stream n s)"
  by (simp add: tickets_off_def release_stream_def)

lemma tickets_granted:
  assumes "tickets_ok s" "granted mo"
  shows "tickets_ok (snd (submit_work cfg k batching mo True n bs s))" "tickets_ok (snd (enqueue_host_function mo n f s))"
  using granted_work[OF assms(2), of cfg k batching n bs s] granted_host[OF assms(2), of n f s]
    tickets_submit_work[OF assms(1)] tickets_host[OF assms(1)] tickets_flush_all[OF assms(1)] by metis+

lemma tickets_step: "granted_step cfg s t \<Longrightarrow> fences_ok s \<Longrightarrow> tickets_ok s \<Longrightarrow> tickets_ok t"
  by (induction rule: granted_step.induct)
     (simp_all add: tickets_create tickets_release tickets_granted blit_copy_def tickets_marker tickets_flush tickets_finish)

lemma reachable_tickets: "granted_reachable cfg s \<Longrightarrow> tickets_ok s"
proof (induction rule: granted_reachable.induct)
  case initial
  show ?case by (simp add: tickets_off_def initial_backend_def new_stream_def stream_tickets_ok_def host_count_def)
qed (blast intro: tickets_step reachable_fences_ok)

section \<open>What happens while the host waits\<close>

definition state_ok :: "Backend \<Rightarrow> bool" where
  "state_ok s \<longleftrightarrow> fences_ok s \<and> tickets_ok s"

inductive completions :: "Backend \<Rightarrow> Backend \<Rightarrow> bool" where
  none: "completions s s"
| one: "completions s t \<Longrightarrow> can_finish i t \<Longrightarrow> completions s (finish i t)"

lemma finish_streams:
  "si_next_ticket (bk_streams (finish i s) n) = si_next_ticket (bk_streams s n)"
  "si_completed_ticket (bk_streams (finish i s) n) = si_completed_ticket (bk_streams s n)"
  "si_pending_buffers (bk_streams (finish i s) n) = si_pending_buffers (bk_streams s n)"
  "si_open (bk_streams (finish i s) n) = si_open (bk_streams s n)"
  "bk_live (finish i s) = bk_live s" "bk_default_stream (finish i s) = bk_default_stream s"
  "set (bk_todo (finish i s)) \<subseteq> set (bk_todo s)"
  by (cases "bk_todo s ! i"; auto simp: finish_def complete_pending_host_operation_def dest: in_set_takeD in_set_dropD)+

lemma completions_same:
  assumes "completions s t"
  shows "si_next_ticket (bk_streams t n) = si_next_ticket (bk_streams s n)"
    "si_completed_ticket (bk_streams t n) = si_completed_ticket (bk_streams s n)"
    "si_pending_buffers (bk_streams t n) = si_pending_buffers (bk_streams s n)"
    "si_open (bk_streams t n) = si_open (bk_streams s n)"
    "bk_live t = bk_live s" "bk_default_stream t = bk_default_stream s" "set (bk_todo t) \<subseteq> set (bk_todo s)"
  using assms finish_streams by (induction rule: completions.induct) (simp_all, blast)

lemma completions_ok: "completions s t \<Longrightarrow> state_ok s \<Longrightarrow> state_ok t"
  by (induction rule: completions.induct) (simp_all add: state_ok_def finish_ok tickets_finish)

lemma host_count_zero: "host_count n L = 0 \<longleftrightarrow> (\<forall>x\<in>set L. is_gpu x \<or> stream_of x \<noteq> n)"
  by (auto simp: host_count_def filter_empty_conv)

text \<open>Running all of what is outstanding, oldest first.\<close>

definition run_all :: "Backend \<Rightarrow> Backend" where
  "run_all s = (finish 0 ^^ length (bk_todo s)) s"

lemma run_all_spec:
  assumes "state_ok s"
  shows "completions s (run_all s)" "bk_todo (run_all s) = []"
proof -
  have f: "\<forall>i<length (bk_todo s). can_finish 0 ((finish 0 ^^ i) s)" "bk_todo (run_all s) = []"
    using fences_drain[of s] assms by (simp_all add: state_ok_def run_all_def)
  have "completions s ((finish 0 ^^ k) s)" if "k \<le> length (bk_todo s)" for k
    using that
  proof (induction k)
    case 0
    show ?case by (simp add: completions.none)
  next
    case (Suc k)
    then have "completions s ((finish 0 ^^ k) s)" "can_finish 0 ((finish 0 ^^ k) s)" using f(1) by simp_all
    then show ?case using completions.one by simp
  qed
  then show "completions s (run_all s)" by (simp add: run_all_def)
  show "bk_todo (run_all s) = []" by (rule f(2))
qed

section \<open>Polling\<close>

lemma poll_pending_spec:
  assumes "poll_pending status s ps c = (e, c', ps')"
  shows "\<exists>qs. ps = qs @ ps' \<and> (\<forall>q\<in>set qs. \<not> in_flight (snd q) s) \<and> c' = (if qs = [] then c else fst (last qs)) \<and>
     (if e = cudaSuccess then ps' = [] \<or> in_flight (snd (hd ps')) s else \<exists>i. e = status i)"
  using assms
proof (induction status s ps c rule: poll_pending.induct)
  case (2 status s t i rest c)
  consider "in_flight i s" | "\<not> in_flight i s" "status i \<noteq> cudaSuccess" | "\<not> in_flight i s" "status i = cudaSuccess" by blast
  then show ?case
  proof cases
    case 2
    then show ?thesis using 2 "2.prems" by (intro exI[of _ "[(t, i)]"]) auto
  next
    case 3
    then obtain qs where "rest = qs @ ps'" "\<forall>q\<in>set qs. \<not> in_flight (snd q) s" "c' = (if qs = [] then t else fst (last qs))"
      "if e = cudaSuccess then ps' = [] \<or> in_flight (snd (hd ps')) s else \<exists>i. e = status i"
      using "2.IH" "2.prems" by auto
    then show ?thesis using 3 by (intro exI[of _ "(t, i) # qs"]) auto
  qed (use "2.prems" in auto)
qed auto

lemma state_ok_flush: "state_ok s \<Longrightarrow> state_ok (flush_open_batch n s)"
  by (simp add: state_ok_def flush_ok tickets_flush)

lemma in_flight_iff: "in_flight i s \<longleftrightarrow> (\<exists>c. Gpu c \<in> set (bk_todo s) \<and> cb_id c = i)"
proof
  assume "in_flight i s"
  then obtain x where x: "x \<in> set (bk_todo s)" "case x of Gpu c \<Rightarrow> cb_id c = i | HostFn _ _ _ _ \<Rightarrow> False"
    unfolding in_flight_def list_ex_iff by blast
  show "\<exists>c. Gpu c \<in> set (bk_todo s) \<and> cb_id c = i" using x by (cases x rule: item.exhaust) auto
next
  assume "\<exists>c. Gpu c \<in> set (bk_todo s) \<and> cb_id c = i"
  then obtain c where c: "Gpu c \<in> set (bk_todo s)" "cb_id c = i" by blast
  show "in_flight i s" unfolding in_flight_def list_ex_iff by (rule bexI[OF _ c(1)]) (simp add: c(2))
qed

lemma flush_closed: "si_open (bk_streams s n) = None \<Longrightarrow> flush_open_batch n s = s"
  by (simp add: flush_open_batch_def flush_open_batch_locked_def)

lemma set_completed_fences: "fences_ok s \<Longrightarrow> fences_ok (set_completed n c ps s)"
proof -
  assume "fences_ok s"
  then obtain L where L: "outstanding s L" "good (view s) L" by (auto simp: fences_ok_def)
  have "view (set_completed n c ps s) = view s" by (rule view_eqI) (simp_all add: set_completed_def)
  moreover have "si_open (bk_streams (set_completed n c ps s) m) = si_open (bk_streams s m)" for m
    by (simp add: set_completed_def)
  then have "outstanding (set_completed n c ps s) L"
    using L(1) by (simp add: outstanding_def all_closed_def batch_ok_def set_completed_def)
  ultimately show ?thesis using L(2) by (auto simp: fences_ok_def)
qed

lemma upt_split: "xs @ y # ys = [a..<b] \<Longrightarrow> y < b \<and> ys = [Suc y..<b]"
proof (induction xs arbitrary: a)
  case Nil
  then have "[a..<b] = y # ys" by simp
  then show ?case by (auto simp: upt_eq_Cons_conv)
next
  case (Cons x xs)
  then have "[a..<b] = x # xs @ y # ys" by simp
  then have "xs @ y # ys = [Suc a..<b]" by (auto simp: upt_eq_Cons_conv)
  then show ?case by (rule Cons.IH)
qed

lemma stream_tickets_suffix:
  assumes "stream_tickets_ok st" "si_pending_buffers st = qs @ ps" "c = (if qs = [] then si_completed_ticket st else fst (last qs))"
  shows "stream_tickets_ok (st\<lparr>si_completed_ticket := c, si_pending_buffers := ps\<rparr>)"
proof (cases qs rule: rev_cases)
  case Nil
  then show ?thesis using assms by (simp add: stream_tickets_ok_def)
next
  case (snoc qs' q)
  have u: "map fst qs' @ fst q # map fst ps = [Suc (si_completed_ticket st)..<si_next_ticket st]"
    using assms(1,2) snoc by (simp add: stream_tickets_ok_def)
  then have "fst q < si_next_ticket st" "map fst ps = [Suc (fst q)..<si_next_ticket st]"
    using upt_split by blast+
  then show ?thesis using snoc assms(3) by (simp add: stream_tickets_ok_def)
qed

lemma poll_spec:
  assumes s: "state_ok s" and p: "poll_completed status n s = (e, t)"
  defines "s1 \<equiv> flush_open_batch n s"
  shows "state_ok t" "bk_todo t = bk_todo s1" "si_open (bk_streams t m) = si_open (bk_streams s1 m)" "bk_live t = bk_live s"
    "bk_default_stream t = bk_default_stream s" "si_next_ticket (bk_streams t m) = si_next_ticket (bk_streams s1 m)"
    "length (si_pending_buffers (bk_streams t n)) \<le> length (si_pending_buffers (bk_streams s1 n))"
    "si_pending_buffers (bk_streams s1 n) \<noteq> [] \<Longrightarrow> \<not> in_flight (snd (hd (si_pending_buffers (bk_streams s1 n)))) s1 \<Longrightarrow>
       length (si_pending_buffers (bk_streams t n)) < length (si_pending_buffers (bk_streams s1 n)) \<or> e \<noteq> cudaSuccess"
    "e \<noteq> cudaSuccess \<Longrightarrow> \<exists>i. e = status i"
proof -
  let ?st = "bk_streams s1 n"
  have s1: "state_ok s1" using state_ok_flush[OF s] by (simp add: s1_def)
  obtain c ps where pp: "poll_pending status s1 (si_pending_buffers ?st) (si_completed_ticket ?st) = (e, c, ps)"
    and t: "t = set_completed n c ps s1"
    using p by (auto simp: poll_completed_def Let_def s1_def split: prod.splits)
  obtain qs where q: "si_pending_buffers ?st = qs @ ps" "\<forall>q\<in>set qs. \<not> in_flight (snd q) s1"
    "c = (if qs = [] then si_completed_ticket ?st else fst (last qs))"
    "if e = cudaSuccess then ps = [] \<or> in_flight (snd (hd ps)) s1 else \<exists>i. e = status i"
    using poll_pending_spec[OF pp] by blast
  show same: "bk_todo t = bk_todo s1" "\<And>m. si_open (bk_streams t m) = si_open (bk_streams s1 m)" "bk_live t = bk_live s"
    "bk_default_stream t = bk_default_stream s" "\<And>m. si_next_ticket (bk_streams t m) = si_next_ticket (bk_streams s1 m)"
    by (simp_all add: t set_completed_def s1_def)
  have tk: "tickets_ok s1" using s1 by (simp add: state_ok_def)
  have st: "bk_streams t m = (if m = n then ?st\<lparr>si_completed_ticket := c, si_pending_buffers := ps\<rparr> else bk_streams s1 m)" for m
    by (simp add: t set_completed_def)
  have "cb_id d \<in> snd ` set (si_pending_buffers (bk_streams t (cb_stream d)))" if d: "Gpu d \<in> set (bk_todo s1)" for d
  proof (cases "cb_stream d = n")
    case True
    have "cb_id d \<in> snd ` set (si_pending_buffers (bk_streams s1 (cb_stream d)))" using tk d by (simp add: tickets_off_def)
    then have "cb_id d \<in> snd ` set (qs @ ps)" using True q(1) by simp
    moreover have "cb_id d \<notin> snd ` set qs" using q(2) d by (auto simp: in_flight_iff)
    ultimately show ?thesis using True by (auto simp: st)
  next
    case False
    then show ?thesis using tk d by (simp add: st tickets_off_def)
  qed
  moreover have "stream_tickets_ok (bk_streams t m)" for m
    using stream_tickets_suffix[of ?st qs ps c] tk q by (simp add: st tickets_off_def)
  ultimately have "tickets_ok t"
    using tk same(1,2) by (auto simp: tickets_off_def st)
  then show "state_ok t" using set_completed_fences s1 by (simp add: state_ok_def t)
  show "length (si_pending_buffers (bk_streams t n)) \<le> length (si_pending_buffers ?st)" using q(1) by (simp add: st)
  show "length (si_pending_buffers (bk_streams t n)) < length (si_pending_buffers ?st) \<or> e \<noteq> cudaSuccess"
    if "si_pending_buffers ?st \<noteq> []" "\<not> in_flight (snd (hd (si_pending_buffers ?st))) s1"
    using that q(1,4) by (cases qs) (auto simp: st)
  show "\<exists>i. e = status i" if "e \<noteq> cudaSuccess" using that q(4) by simp
qed

section \<open>Waiting\<close>

text \<open>What the calls rely on while the host sleeps: only outstanding work finishes, and the wait ends when what it is for has.\<close>

locale metal_host =
  fixes wait :: "nat \<Rightarrow> Backend \<Rightarrow> Backend" and wait_host :: "nat \<Rightarrow> Backend \<Rightarrow> Backend"
  assumes wait_completes: "state_ok s \<Longrightarrow> completions s (wait i s) \<and> \<not> in_flight i (wait i s)"
    and wait_host_completes: "state_ok s \<Longrightarrow>
      completions s (wait_host n s) \<and> si_pending_host_operations (bk_streams (wait_host n s) n) = 0"
begin

lemma wait_loop_spec:
  assumes "state_ok s" "ticket < si_next_ticket (bk_streams (flush_open_batch n s) n)"
  shows "\<exists>e t. wait_loop status wait n ticket s = Some (e, t) \<and> state_ok t \<and>
     (\<forall>m. si_open (bk_streams t m) = si_open (bk_streams (flush_open_batch n s) m)) \<and>
     si_next_ticket (bk_streams t n) = si_next_ticket (bk_streams (flush_open_batch n s) n) \<and>
     bk_live t = bk_live s \<and> bk_default_stream t = bk_default_stream s \<and>
     set (bk_todo t) \<subseteq> set (bk_todo (flush_open_batch n s)) \<and>
     (if e = cudaSuccess then ticket \<le> si_completed_ticket (bk_streams t n) else \<exists>i. e = status i)"
  using assms
proof (induction "length (si_pending_buffers (bk_streams (snd (poll_completed status n s)) n))" arbitrary: s rule: less_induct)
  case less
  obtain e s1 where p: "poll_completed status n s = (e, s1)" by fastforce
  note q = poll_spec[OF less.prems(1) p]
  let ?f = "flush_open_batch n s"
  consider "e \<noteq> cudaSuccess" | "e = cudaSuccess" "ticket \<le> si_completed_ticket (bk_streams s1 n)"
    | "e = cudaSuccess" "\<not> ticket \<le> si_completed_ticket (bk_streams s1 n)" by blast
  then show ?case
  proof cases
    case 1
    then show ?thesis using p q by (subst wait_loop.simps) auto
  next
    case 2
    then show ?thesis using p q less.prems(2) by (subst wait_loop.simps) auto
  next
    case 3
    have tk: "stream_tickets_ok (bk_streams s1 n)" using q(1) by (simp add: state_ok_def tickets_off_def)
    have lt: "ticket < si_next_ticket (bk_streams s1 n)" using q(6) less.prems(2) by simp
    have "map fst (si_pending_buffers (bk_streams s1 n)) \<noteq> []" using tk lt 3(2) by (simp add: stream_tickets_ok_def)
    then obtain k i rest where ps: "si_pending_buffers (bk_streams s1 n) = (k, i) # rest"
      by (cases "si_pending_buffers (bk_streams s1 n)") auto
    let ?s2 = "wait i s1"
    have w: "completions s1 ?s2" "\<not> in_flight i ?s2" using wait_completes[OF q(1)] by blast+
    note c = completions_same[OF w(1)]
    have s2: "state_ok ?s2" by (rule completions_ok[OF w(1) q(1)])
    have closed: "si_open (bk_streams ?s2 n) = None" using c(4) q(3) by (simp add: open_flush)
    then have fl: "flush_open_batch n ?s2 = ?s2" by (rule flush_closed)
    show ?thesis
    proof (cases "status i = cudaSuccess")
      case True
      obtain e2 s3 where p2: "poll_completed status n ?s2 = (e2, s3)" by fastforce
      have r: "wait_loop status wait n ticket s = wait_loop status wait n ticket ?s2"
        using p 3 lt ps True by (subst wait_loop.simps) simp
      have "\<exists>e' t. wait_loop status wait n ticket ?s2 = Some (e', t) \<and> state_ok t \<and>
         (\<forall>m. si_open (bk_streams t m) = si_open (bk_streams ?s2 m)) \<and>
         si_next_ticket (bk_streams t n) = si_next_ticket (bk_streams ?s2 n) \<and>
         bk_live t = bk_live ?s2 \<and> bk_default_stream t = bk_default_stream ?s2 \<and> set (bk_todo t) \<subseteq> set (bk_todo ?s2) \<and>
         (if e' = cudaSuccess then ticket \<le> si_completed_ticket (bk_streams t n) else \<exists>i. e' = status i)"
      proof (cases "e2 = cudaSuccess")
        case True
        have "length (si_pending_buffers (bk_streams s3 n)) < length (si_pending_buffers (bk_streams s1 n))"
          using poll_spec(8)[OF s2 p2] w(2) fl c(3) ps True by simp
        then show ?thesis using less.hyps[of ?s2] p p2 s2 lt c(1) fl by simp
      next
        case False
        note q2 = poll_spec[OF s2 p2]
        show ?thesis using p2 False q2 fl by (subst wait_loop.simps) auto
      qed
      then obtain e' t where t: "wait_loop status wait n ticket ?s2 = Some (e', t)" "state_ok t"
        "\<forall>m. si_open (bk_streams t m) = si_open (bk_streams ?s2 m)"
        "si_next_ticket (bk_streams t n) = si_next_ticket (bk_streams ?s2 n)"
        "bk_live t = bk_live ?s2" "bk_default_stream t = bk_default_stream ?s2" "set (bk_todo t) \<subseteq> set (bk_todo ?s2)"
        "if e' = cudaSuccess then ticket \<le> si_completed_ticket (bk_streams t n) else \<exists>i. e' = status i" by blast
      show ?thesis unfolding r
        by (rule exI[of _ e'], rule exI[of _ t], intro conjI) (use t c q in \<open>simp_all, blast?\<close>)
    next
      case False
      then show ?thesis using p 3 lt ps c q s2 by (subst wait_loop.simps) auto
    qed
  qed
qed

lemma stream_synchronize_spec:
  assumes s: "state_ok s"
  shows "\<exists>e t. stream_synchronize status wait wait_host n s = Some (e, t) \<and> state_ok t \<and>
     (\<forall>m. si_open (bk_streams t m) = (if m = n then None else si_open (bk_streams s m))) \<and>
     bk_live t = bk_live s \<and> bk_default_stream t = bk_default_stream s \<and>
     (\<forall>x\<in>set (bk_todo t). x \<in> set (bk_todo s) \<or> stream_of x = n) \<and>
     (if e = cudaSuccess then \<forall>x\<in>set (bk_todo t). stream_of x \<noteq> n else \<exists>i. e = status i)"
proof -
  let ?s0 = "wait_host n s" and ?s1 = "flush_open_batch n (wait_host n s)"
  have w: "completions s ?s0" "si_pending_host_operations (bk_streams ?s0 n) = 0" using wait_host_completes[OF s] by blast+
  note c = completions_same[OF w(1)]
  have s0: "state_ok ?s0" by (rule completions_ok[OF w(1) s])
  have s1: "state_ok ?s1" by (rule state_ok_flush[OF s0])
  have fl: "flush_open_batch n ?s1 = ?s1"
    by (rule flush_closed) (simp add: open_flush)
  let ?k = "si_next_ticket (bk_streams ?s1 n) - 1"
  have r: "stream_synchronize status wait wait_host n s =
      (if ?k = 0 then Some (cudaSuccess, ?s1) else wait_loop status wait n ?k ?s1)"
    by (simp add: stream_synchronize_def tail_ticket_def wait_ticket_def Let_def fl)
  have sub1: "\<forall>x\<in>set (bk_todo ?s1). x \<in> set (bk_todo s) \<or> stream_of x = n"
    using c(7) s0 by (auto simp: flush_open_batch_def flush_open_batch_locked_def Let_def closing_def encode_resource_signals_def
        state_ok_def tickets_off_def split: option.splits)
  have hosts: "\<forall>x\<in>set (bk_todo ?s1). is_gpu x \<or> stream_of x \<noteq> n"
  proof -
    have "\<forall>x\<in>set (bk_todo ?s0). is_gpu x \<or> stream_of x \<noteq> n"
      using s0 w(2) by (simp add: state_ok_def tickets_off_def flip: host_count_zero)
    then show ?thesis
      by (auto simp: flush_open_batch_def flush_open_batch_locked_def Let_def is_gpu_def split: option.splits)
  qed
  have tk: "stream_tickets_ok (bk_streams t n)" if "state_ok t" for t using that by (simp add: state_ok_def tickets_off_def)
  have gone: "\<forall>x\<in>set (bk_todo t). stream_of x \<noteq> n"
    if t: "state_ok t" "si_pending_buffers (bk_streams t n) = []" "set (bk_todo t) \<subseteq> set (bk_todo ?s1)" for t
  proof
    fix x
    assume x: "x \<in> set (bk_todo t)"
    show "stream_of x \<noteq> n"
    proof (cases x)
      case (Gpu d)
      then have "cb_id d \<in> snd ` set (si_pending_buffers (bk_streams t (cb_stream d)))"
        using t(1) x by (simp add: state_ok_def tickets_off_def)
      then show ?thesis using t(2) Gpu by auto
    next
      case (HostFn a b d f)
      have "is_gpu x \<or> stream_of x \<noteq> n" using hosts x t(3) by blast
      then show ?thesis using HostFn by (simp add: is_gpu_def)
    qed
  qed
  show ?thesis
  proof (cases "?k = 0")
    case True
    then have "si_pending_buffers (bk_streams ?s1 n) = []" using tk[OF s1] by (auto simp: stream_tickets_ok_def)
    then have "\<forall>x\<in>set (bk_todo ?s1). stream_of x \<noteq> n" using gone[OF s1] by blast
    then show ?thesis unfolding r using True s1 c sub1 by (auto simp: open_flush)
  next
    case False
    then have "?k < si_next_ticket (bk_streams (flush_open_batch n ?s1) n)" by (simp add: fl)
    then obtain e t where t: "wait_loop status wait n ?k ?s1 = Some (e, t)" "state_ok t"
      "\<forall>m. si_open (bk_streams t m) = si_open (bk_streams ?s1 m)" "si_next_ticket (bk_streams t n) = si_next_ticket (bk_streams ?s1 n)"
      "bk_live t = bk_live ?s1" "bk_default_stream t = bk_default_stream ?s1" "set (bk_todo t) \<subseteq> set (bk_todo ?s1)"
      "if e = cudaSuccess then ?k \<le> si_completed_ticket (bk_streams t n) else \<exists>i. e = status i"
      using wait_loop_spec[OF s1, of ?k n status] unfolding fl by blast
    have "\<forall>x\<in>set (bk_todo t). stream_of x \<noteq> n" if "e = cudaSuccess"
    proof (rule gone[OF t(2) _ t(7)])
      have "si_next_ticket (bk_streams t n) = Suc (si_completed_ticket (bk_streams t n))"
        using tk[OF t(2)] t(4,8) that False by (auto simp: stream_tickets_ok_def)
      then show "si_pending_buffers (bk_streams t n) = []" using tk[OF t(2)] by (simp add: stream_tickets_ok_def)
    qed
    moreover have "\<forall>x\<in>set (bk_todo t). x \<in> set (bk_todo s) \<or> stream_of x = n" using sub1 t(7) by blast
    ultimately show ?thesis unfolding r using False t(1-3,5,6,8) c(4-6) by (simp add: open_flush)
  qed
qed

lemma synchronize_streams_spec:
  assumes "state_ok s" "\<forall>m. m \<notin> set ns \<longrightarrow> (\<forall>x\<in>set (bk_todo s). stream_of x \<noteq> m) \<and> si_open (bk_streams s m) = None"
  shows "\<exists>e t. synchronize_streams status wait wait_host ns s = Some (e, t) \<and> state_ok t \<and>
     (if e = cudaSuccess then bk_todo t = [] \<and> all_closed t else \<exists>i. e = status i)"
  using assms
proof (induction ns arbitrary: s)
  case Nil
  then have "bk_todo s = []" by (cases "bk_todo s") auto
  then show ?case using Nil by (simp add: all_closed_def)
next
  case (Cons n ns)
  obtain e t where t: "stream_synchronize status wait wait_host n s = Some (e, t)" "state_ok t"
    "\<forall>m. si_open (bk_streams t m) = (if m = n then None else si_open (bk_streams s m))"
    "\<forall>x\<in>set (bk_todo t). x \<in> set (bk_todo s) \<or> stream_of x = n"
    "if e = cudaSuccess then \<forall>x\<in>set (bk_todo t). stream_of x \<noteq> n else \<exists>i. e = status i"
    using stream_synchronize_spec[OF Cons.prems(1)] by blast
  show ?case
  proof (cases "e = cudaSuccess")
    case True
    have "(\<forall>x\<in>set (bk_todo t). stream_of x \<noteq> m) \<and> si_open (bk_streams t m) = None" if m: "m \<notin> set ns" for m
    proof (cases "m = n")
      case m_eq: True
      show ?thesis using t(3,5) True m_eq by auto
    next
      case False
      then have "m \<notin> set (n # ns)" using m by simp
      then have "\<forall>x\<in>set (bk_todo s). stream_of x \<noteq> m" "si_open (bk_streams s m) = None" using Cons.prems(2) by blast+
      then show ?thesis using t(3,4) False by auto
    qed
    then show ?thesis using Cons.IH[OF t(2)] t(1) True by simp
  qed (use t in auto)
qed

lemma synchronize_spec:
  assumes "state_ok s"
  shows "\<exists>e t. synchronize status wait wait_host s = Some (e, t) \<and> state_ok t \<and>
     (if e = cudaSuccess then bk_todo t = [] \<and> all_closed t else \<exists>i. e = status i)"
proof -
  obtain L where L: "outstanding s L" "good (view s) L" using assms by (auto simp: state_ok_def fences_ok_def)
  have streams: "\<forall>y\<in>set L. stream_of y \<in> set (bk_live s) \<or> stream_of y = bk_default_stream s"
    using L(2) by (simp add: good_def streams_ok_def)
  have "(\<forall>x\<in>set (bk_todo s). stream_of x \<noteq> m) \<and> si_open (bk_streams s m) = None"
    if m: "m \<notin> set (bk_live s @ [bk_default_stream s])" for m
  proof (intro conjI ballI)
    fix x
    assume "x \<in> set (bk_todo s)"
    then have "x \<in> set L" using L(1) by (auto simp: outstanding_def)
    then show "stream_of x \<noteq> m" using streams m by auto
  next
    show "si_open (bk_streams s m) = None"
      using m L(1) by (cases "si_open (bk_streams s m)") (auto dest: outstanding_open(1) simp: batch_ok_def)
  qed
  then show ?thesis unfolding synchronize_def by (intro synchronize_streams_spec[OF assms]) blast
qed

end

interpretation run: metal_host "\<lambda>_. run_all" "\<lambda>_. run_all"
proof
  fix s :: Backend and i n
  assume s: "state_ok s"
  note r = run_all_spec[OF s]
  show "completions s (run_all s) \<and> \<not> in_flight i (run_all s)" using r by (simp add: in_flight_iff)
  have "state_ok (run_all s)" by (rule completions_ok[OF r(1) s])
  then show "completions s (run_all s) \<and> si_pending_host_operations (bk_streams (run_all s) n) = 0"
    using r by (simp add: state_ok_def tickets_off_def host_count_def)
qed

section \<open>The calls of the host return\<close>

lemma reachable_state_ok: "granted_reachable cfg s \<Longrightarrow> state_ok s"
  by (simp add: state_ok_def reachable_fences_ok reachable_tickets)

text \<open>
  C34: Synchronising the device returns, and means what it says, as long as Metal makes what the submissions ask for.
  Take any state reached by submissions, batches, flushes and completions in which the arguments of every kernel can be
  bound and in which Metal, once a submission has reserved its value, creates every encoder and every completion buffer
  (it may refuse the command buffer itself).  From such a state, however Metal and the dispatch queue interleave the work
  while the host sleeps, the call returns; its result is the failure of a command buffer, or success, and then nothing
  is outstanding on any stream and no batch is open.  The error results for an unknown ticket and for a stream with
  nothing left to wait for do not occur.
\<close>

theorem synchronize_complete:
  assumes "granted_reachable cfg s" "metal_host wait wait_host"
  shows "\<exists>e t. synchronize status wait wait_host s = Some (e, t) \<and>
     (if e = cudaSuccess then bk_todo t = [] \<and> all_closed t else \<exists>i. e = status i)"
  using metal_host.synchronize_spec[OF assms(2) reachable_state_ok[OF assms(1)]] by blast

theorem synchronize_complete_witness:
  "\<exists>t. synchronize (\<lambda>_. cudaSuccess) (\<lambda>_. run_all) (\<lambda>_. run_all) sample_fences = Some (cudaSuccess, t) \<and>
     bk_todo t = [] \<and> all_closed t"
  using synchronize_complete[OF sample_fences_reachable run.metal_host_axioms, of "\<lambda>_. cudaSuccess"]
  by (elim exE conjE) (auto split: if_splits)

end
