(* ===== verification/BackendMarkers.thy ===== *)
theory BackendMarkers
  imports BackendTickets
begin

text \<open>
  What a marker of a stream tells: once its ticket is complete, nothing that was submitted to the stream
  before it is outstanding, whatever was submitted, finished, polled or waited for in between.

  A marker is followed through the states of the backend by the value it signals.  \<open>behind n N a s\<close> says
  that after the prefix \<open>a\<close> of what is outstanding, the stream \<open>n\<close> signals no value below \<open>N\<close>; the marker
  is the last of the prefix until it finishes, and then the prefix is empty.
\<close>

section \<open>States that follow one another\<close>

text \<open>Steps that release no stream, and the polling of tickets.\<close>

definition keeps_streams :: "Backend \<Rightarrow> Backend \<Rightarrow> bool" where
  "keeps_streams s t \<longleftrightarrow> set (bk_live s) \<subseteq> set (bk_live t) \<and> bk_default_stream t = bk_default_stream s"

inductive advances :: "Backend \<Rightarrow> Backend \<Rightarrow> bool" where
  none: "advances s s"
| act: "advances s t \<Longrightarrow> granted_step cfg t u \<Longrightarrow> keeps_streams t u \<Longrightarrow> advances s u"
| poll: "advances s t \<Longrightarrow> advances s (snd (poll_completed status n t))"

lemma advances_trans: "advances t u \<Longrightarrow> advances s t \<Longrightarrow> advances s u"
  by (induction rule: advances.induct) (auto intro: advances.intros)

lemma advances_step: "granted_step cfg s t \<Longrightarrow> keeps_streams s t \<Longrightarrow> advances s t"
  by (rule advances.act[OF advances.none])

lemma step_state_ok: "granted_step cfg s t \<Longrightarrow> state_ok s \<Longrightarrow> state_ok t"
  by (simp add: state_ok_def step_ok tickets_step)

lemma poll_state_ok: "state_ok s \<Longrightarrow> state_ok (snd (poll_completed status n s))"
  by (rule poll_spec(1)[OF _ surjective_pairing])

lemma advances_ok: "advances s t \<Longrightarrow> state_ok s \<Longrightarrow> state_ok t"
  by (induction rule: advances.induct) (auto intro: step_state_ok poll_state_ok)

lemma completions_advance: "completions s t \<Longrightarrow> advances s t"
  by (induction rule: completions.induct)
     (auto intro: advances.intros granted_step.finishes simp: keeps_streams_def finish_streams)

lemma flush_advances: "advances s (flush_open_batch n s)"
  by (rule advances_step[OF granted_step.flush]) (simp add: keeps_streams_def)

lemma advances_usable: "advances s t \<Longrightarrow> usable n s \<Longrightarrow> usable n t"
  by (induction rule: advances.induct)
     (auto simp: keeps_streams_def usable_def poll_completed_def set_completed_def Let_def split: prod.splits)

lemma tail_advances: "tail_ticket n s = (k, t) \<Longrightarrow> advances s t"
  using flush_advances[of s n] by (auto simp: tail_ticket_def Let_def)

lemma query_advances: "query_ticket status n k s = (r, t) \<Longrightarrow> advances s t"
proof -
  assume q: "query_ticket status n k s = (r, t)"
  have "advances s (snd (poll_completed status n (flush_open_batch n s)))" by (rule advances.poll[OF flush_advances])
  then show "advances s t"
    using q flush_advances[of s n] by (auto simp: query_ticket_def Let_def split: if_splits prod.splits)
qed

lemma wait_loop_moves:
  assumes "wait_loop status wait n k s = Some y" "metal_host wait wait_host" "state_ok s"
  shows "advances s (snd y) \<and> (fst y = cudaSuccess \<longrightarrow> k \<le> si_completed_ticket (bk_streams (snd y) n))"
proof -
  let ?P = "\<lambda>status wait n k s y. metal_host wait wait_host \<longrightarrow> state_ok s \<longrightarrow>
     advances s (snd y) \<and> (fst y = cudaSuccess \<longrightarrow> k \<le> si_completed_ticket (bk_streams (snd y) n))"
  have "?P status wait n k s y"
  proof (rule wait_loop.raw_induct[of ?P, OF _ assms(1)], intro impI)
    fix f status wait n k s y
    assume IH: "\<And>wait n k s st z. f wait n k s st = Some z \<Longrightarrow> ?P wait n k s st z"
      and y: "(case poll_completed status n s of (e, s1) \<Rightarrow>
          if e \<noteq> cudaSuccess then Some (e, s1)
          else if si_next_ticket (bk_streams s1 n) \<le> k then Some (cudaErrorInvalidValue, s1)
          else if k \<le> si_completed_ticket (bk_streams s1 n) then Some (cudaSuccess, s1)
          else case si_pending_buffers (bk_streams s1 n) of
            [] \<Rightarrow> Some (cudaErrorUnknown, s1)
          | (_, i) # _ \<Rightarrow> let s2 = wait i s1
              in if status i \<noteq> cudaSuccess then Some (status i, s2) else f status wait n k s2) = Some y"
      and h: "metal_host wait wait_host" and s: "state_ok s"
    obtain e s1 where p: "poll_completed status n s = (e, s1)" by fastforce
    have a: "advances s s1" using advances.poll[OF advances.none[of s], of status n] p by simp
    have s1: "state_ok s1" by (rule advances_ok[OF a s])
    show "advances s (snd y) \<and> (fst y = cudaSuccess \<longrightarrow> k \<le> si_completed_ticket (bk_streams (snd y) n))"
    proof (cases "e \<noteq> cudaSuccess \<or> si_next_ticket (bk_streams s1 n) \<le> k \<or> k \<le> si_completed_ticket (bk_streams s1 n) \<or>
        si_pending_buffers (bk_streams s1 n) = []")
      case True
      then show ?thesis using y[unfolded p prod.case] a by (auto split: if_splits)
    next
      case False
      then obtain j i rest where ps: "si_pending_buffers (bk_streams s1 n) = (j, i) # rest"
        by (cases "si_pending_buffers (bk_streams s1 n)") auto
      let ?s2 = "wait i s1"
      have c: "completions s1 ?s2" using metal_host.wait_completes[OF h s1] by blast
      have a2: "advances s ?s2" by (rule advances_trans[OF completions_advance[OF c] a])
      show ?thesis
      proof (cases "status i = cudaSuccess")
        case True
        then have r: "f status wait n k ?s2 = Some y" using y False p ps by (simp add: Let_def)
        show ?thesis using IH[OF r] h completions_ok[OF c s1] advances_trans[OF _ a2] by blast
      next
        case st: False
        then show ?thesis using y False p ps a2 by (auto simp: Let_def)
      qed
    qed
  qed
  then show ?thesis using assms(2,3) by blast
qed

lemma wait_ticket_moves:
  assumes "wait_ticket status wait n k s = Some (e, t)" "metal_host wait wait_host" "state_ok s"
  shows "advances s t" "e = cudaSuccess \<Longrightarrow> k \<le> si_completed_ticket (bk_streams t n)"
proof -
  have "advances s t \<and> (e = cudaSuccess \<longrightarrow> k \<le> si_completed_ticket (bk_streams t n))"
  proof (cases "k = 0")
    case True
    then show ?thesis using assms(1) flush_advances[of s n] by (auto simp: wait_ticket_def Let_def)
  next
    case False
    then have "wait_loop status wait n k (flush_open_batch n s) = Some (e, t)" using assms(1) by (simp add: wait_ticket_def Let_def)
    from wait_loop_moves[OF this assms(2) state_ok_flush[OF assms(3)]] show ?thesis
      using advances_trans[OF _ flush_advances[of s n]] by auto
  qed
  then show "advances s t" "e = cudaSuccess \<Longrightarrow> k \<le> si_completed_ticket (bk_streams t n)" by auto
qed

lemma query_complete: "query_ticket status n k s = ((cudaSuccess, Some True), t) \<Longrightarrow> k \<le> si_completed_ticket (bk_streams t n)"
  by (auto simp: query_ticket_def Let_def split: if_splits prod.splits)

lemma stream_synchronize_moves:
  assumes "stream_synchronize status wait wait_host n s = Some (e, t)" "metal_host wait wait_host" "state_ok s"
  shows "advances s t"
proof -
  have c: "completions s (wait_host n s)" using metal_host.wait_host_completes[OF assms(2,3)] by blast
  obtain k s1 where k: "tail_ticket n (wait_host n s) = (k, s1)" by fastforce
  note a = advances_trans[OF tail_advances[OF k] completions_advance[OF c]]
  have "wait_ticket status wait n k s1 = Some (e, t)" using assms(1) k by (simp add: stream_synchronize_def)
  from wait_ticket_moves(1)[OF this assms(2) advances_ok[OF a assms(3)]] show ?thesis by (rule advances_trans[OF _ a])
qed

lemma synchronize_streams_moves:
  assumes "synchronize_streams status wait wait_host ns s = Some (e, t)" "metal_host wait wait_host" "state_ok s"
  shows "advances s t"
  using assms
proof (induction ns arbitrary: s)
  case (Cons n ns)
  obtain e1 s1 where r: "stream_synchronize status wait wait_host n s = Some (e1, s1)"
    using Cons.prems(1) by (auto split: option.splits)
  note a = stream_synchronize_moves[OF r Cons.prems(2,3)]
  show ?case
  proof (cases "e1 = cudaSuccess")
    case True
    then show ?thesis
      using Cons.IH[OF _ Cons.prems(2) advances_ok[OF a Cons.prems(3)]] Cons.prems(1) r advances_trans[OF _ a] by simp
  qed (use Cons.prems(1) r a in auto)
qed (simp add: advances.none)

lemma synchronize_moves:
  "synchronize status wait wait_host s = Some (e, t) \<Longrightarrow> metal_host wait wait_host \<Longrightarrow> state_ok s \<Longrightarrow> advances s t"
  unfolding synchronize_def by (rule synchronize_streams_moves)

section \<open>The values of a stream after a marker\<close>

definition ready :: "nat \<Rightarrow> nat \<Rightarrow> Backend \<Rightarrow> bool" where
  "ready n N s \<longleftrightarrow> n < bk_next_stream s \<and> N \<le> si_next_access_value (bk_streams s n) \<and>
     (\<forall>b. si_open (bk_streams s n) = Some b \<longrightarrow> N \<le> val_of (Gpu (closing b)))"

definition fresh :: "nat \<Rightarrow> nat \<Rightarrow> item list \<Rightarrow> bool" where
  "fresh n N q \<longleftrightarrow> (\<forall>y\<in>set q. stream_of y = n \<longrightarrow> N \<le> val_of y)"

definition behind :: "nat \<Rightarrow> nat \<Rightarrow> item list \<Rightarrow> Backend \<Rightarrow> bool" where
  "behind n N a s \<longleftrightarrow> ready n N s \<and> (\<exists>b. bk_todo s = a @ b \<and> fresh n N b)"

definition passed :: "nat \<Rightarrow> nat \<Rightarrow> Backend \<Rightarrow> bool" where
  "passed n N s \<longleftrightarrow> behind n N [] s"

definition tracked :: "nat \<Rightarrow> nat \<Rightarrow> nat \<Rightarrow> Backend \<Rightarrow> bool" where
  "tracked n N k s \<longleftrightarrow> passed n N s \<or> (\<exists>a c. behind n N (a @ [Gpu c]) s \<and> cb_stream c = n \<and>
     (k, cb_id c) \<in> set (si_pending_buffers (bk_streams s n)))"

lemma fresh_simps [simp]: "fresh n N []" "fresh n N (x # q) \<longleftrightarrow> (stream_of x = n \<longrightarrow> N \<le> val_of x) \<and> fresh n N q"
  "fresh n N (p @ q) \<longleftrightarrow> fresh n N p \<and> fresh n N q"
  by (auto simp: fresh_def)

text \<open>A change that only appends to what is outstanding and to the pending tickets.\<close>

definition grows :: "nat \<Rightarrow> nat \<Rightarrow> Backend \<Rightarrow> Backend \<Rightarrow> bool" where
  "grows n N s t \<longleftrightarrow> ready n N t \<and> (\<exists>q. bk_todo t = bk_todo s @ q \<and> fresh n N q) \<and>
     set (si_pending_buffers (bk_streams s n)) \<subseteq> set (si_pending_buffers (bk_streams t n))"

lemma growsI:
  "ready n N t \<Longrightarrow> bk_todo t = bk_todo s @ q \<Longrightarrow> fresh n N q \<Longrightarrow>
     set (si_pending_buffers (bk_streams s n)) \<subseteq> set (si_pending_buffers (bk_streams t n)) \<Longrightarrow> grows n N s t"
  by (auto simp: grows_def)

lemma grows_refl: "ready n N s \<Longrightarrow> grows n N s s"
  by (rule growsI[of _ _ _ _ "[]"]) simp_all

lemma grows_trans: "grows n N s t \<Longrightarrow> grows n N t u \<Longrightarrow> grows n N s u"
  by (fastforce simp: grows_def)

lemma grows_ready: "grows n N s t \<Longrightarrow> ready n N t"
  by (simp add: grows_def)

lemma behind_grows: "behind n N a s \<Longrightarrow> grows n N s t \<Longrightarrow> behind n N a t"
  by (auto simp: behind_def grows_def)

lemma tracked_grows:
  assumes "tracked n N k s" "grows n N s t"
  shows "tracked n N k t"
proof -
  have "set (si_pending_buffers (bk_streams s n)) \<subseteq> set (si_pending_buffers (bk_streams t n))" using assms(2) by (simp add: grows_def)
  then show ?thesis using assms behind_grows[OF _ assms(2)] unfolding tracked_def passed_def by blast
qed

section \<open>Submissions\<close>

definition batches_placed :: "Backend \<Rightarrow> bool" where
  "batches_placed s \<longleftrightarrow> (\<forall>m b. si_open (bk_streams s m) = Some b \<longrightarrow> cb_stream (ob_buffer b) = m)"

lemma placed: "state_ok s \<Longrightarrow> batches_placed s"
  by (simp add: state_ok_def tickets_off_def batches_placed_def)

lemma grows_submit:
  assumes "ready n N s" "cb_stream c = n \<Longrightarrow> N \<le> val_of (Gpu c)"
  shows "grows n N s (snd (submit_buffer c s))"
  by (rule growsI[of _ _ _ _ "[Gpu c]"])
     (use assms in \<open>auto simp: submit_buffer_def add_pending_def Let_def ready_def\<close>)

lemma grows_flush:
  assumes "ready n N s" "batches_placed s"
  shows "grows n N s (flush_open_batch m s)"
proof (cases "si_open (bk_streams s m)")
  case None
  then show ?thesis using assms by (simp add: flush_closed grows_refl)
next
  case (Some b)
  have b: "cb_stream (closing b) = m" using assms(2) Some by (simp add: batches_placed_def closing_def encode_resource_signals_def)
  have f: "flush_open_batch m s = snd (submit_buffer (closing b) (set_stream m ((bk_streams s m)\<lparr>si_open := None\<rparr>) s))"
    using Some b by (simp add: flush_open_batch_def flush_open_batch_locked_def submit_buffer_def Let_def closing_def
        encode_resource_signals_def)
  show ?thesis unfolding f
    by (rule growsI[of _ _ _ _ "[Gpu (closing b)]"])
       (use assms(1) b Some in \<open>auto simp: submit_buffer_def add_pending_def Let_def ready_def\<close>)
qed

lemma placed_flush: "batches_placed s \<Longrightarrow> batches_placed (flush_open_batch m s)"
  by (auto simp: batches_placed_def open_flush)

lemma grows_flush_all:
  assumes "ready n N s" "batches_placed s"
  shows "grows n N s (flush_all m s) \<and> batches_placed (flush_all m s)"
proof -
  have "grows n N s (fold (\<lambda>k s. if k = m then s else flush_open_batch k s) ns s) \<and>
      batches_placed (fold (\<lambda>k s. if k = m then s else flush_open_batch k s) ns s)"
    if "ready n N s" "batches_placed s" for ns s
    using that
  proof (induction ns arbitrary: s)
    case (Cons k ns)
    have g: "grows n N s (if k = m then s else flush_open_batch k s)"
      using Cons.prems by (simp add: grows_flush grows_refl)
    show ?case
      using Cons.IH[OF grows_ready[OF g]] grows_trans[OF g] Cons.prems(2) by (simp add: placed_flush)
  qed (simp add: grows_refl)
  note this[OF grows_ready[OF grows_flush[OF assms, of m]] placed_flush[OF assms(2)],
      of "bk_live (flush_open_batch m s) @ [bk_default_stream (flush_open_batch m s)]"]
  then show ?thesis
    unfolding flush_all_def flush_other_open_batches_def using grows_trans[OF grows_flush[OF assms, of m]] by blast
qed

lemma grows_buffer:
  assumes "new_command_buffer m s = (c, t)" "ready n N s"
  shows "grows n N s t" "cb_stream c = m" "cb_signals c = []"
  by (rule growsI[of _ _ _ _ "[]"]) (use assms in \<open>auto simp: new_command_buffer_def ready_def\<close>)

lemma grows_encode:
  assumes "encode_submission_waits m bs c s = ((c1, ws, v), t)" "ready n N s"
  shows "grows n N s t" "cb_stream c1 = cb_stream c" "cb_signals c1 = cb_signals c" "cb_id c1 = cb_id c" "m = n \<Longrightarrow> N \<le> v"
    "si_open (bk_streams t k) = si_open (bk_streams s k)"
proof -
  have r: "c1 = c\<lparr>cb_waits := cb_waits c @ host_barrier m s @ ws\<rparr>" "v = si_next_access_value (bk_streams s m)"
    "bk_todo t = bk_todo s" "bk_next_stream t = bk_next_stream s"
    "bk_streams t = (bk_streams s)(m := (bk_streams s m)\<lparr>si_next_access_value := Suc v, si_latest_submission_value := v,
       si_latest_submission_requires_wait := False\<rparr>)"
    using assms(1) by (auto simp: encode_submission_waits_def Let_def touch_def)
  show "grows n N s t"
    by (rule growsI[of _ _ _ _ "[]"]) (use assms(2) r in \<open>auto simp: ready_def\<close>)
  show "cb_stream c1 = cb_stream c" "cb_signals c1 = cb_signals c" "cb_id c1 = cb_id c" "m = n \<Longrightarrow> N \<le> v"
    "si_open (bk_streams t k) = si_open (bk_streams s k)"
    using r assms(2) by (simp_all add: ready_def)
qed

lemma val_signal: "cb_signals c = [] \<Longrightarrow> val_of (Gpu (encode_resource_signals [(n, v)] c)) = v"
  by (simp add: val_of_def encode_resource_signals_def)

lemma grows_submit_marker:
  assumes "submit_marker m s = (r, t)" "ready n N s"
  shows "grows n N s t"
proof -
  obtain c s1 where c: "new_command_buffer m s = (c, s1)" by fastforce
  obtain c1 ws v s2 where e: "encode_submission_waits m [] c s1 = ((c1, ws, v), s2)" by (metis prod_cases3 surj_pair)
  note b = grows_buffer[OF c assms(2)]
  note w = grows_encode[OF e grows_ready[OF b(1)]]
  have t: "t = snd (submit_buffer (encode_resource_signals [(m, v)] c1) s2)"
    using assms(1) c e by (auto simp: submit_marker_def split: prod.splits)
  have "grows n N s2 t" unfolding t
    using w(2,3,5) b(2,3) val_signal[of c1 m v] by (intro grows_submit[OF grows_ready[OF w(1)]]) (simp add: encode_resource_signals_def)
  then show ?thesis using b(1) w(1) grows_trans by blast
qed

lemma grows_record:
  assumes "ready n N s" "batches_placed s"
  shows "grows n N s (snd (stream_record_marker mo m s))"
proof -
  note f = grows_flush_all[OF assms, of m]
  obtain r t where m: "submit_marker m (flush_all m s) = (r, t)" by fastforce
  have "grows n N s t" using grows_submit_marker[OF m] f grows_ready grows_trans by blast
  then show ?thesis using f m by (auto simp: stream_record_marker_def Let_def split: prod.splits)
qed

lemma grows_work:
  assumes "ready n N s" "batches_placed s"
  shows "grows n N s (snd (submit_work cfg e batching all_objects True m bs s))"
proof -
  obtain ok s1 where r: "(if batching then extend_batch cfg e (mo_batch_encoder all_objects) m bs s else (False, s)) = (ok, s1)"
    by fastforce
  consider "\<not> ok" "s1 = s" | b j d where "ok" "si_open (bk_streams s m) = Some b"
      "s1 = set_stream m ((bk_streams s m)\<lparr>si_open := Some (b\<lparr>ob_kind := j, ob_dispatches := d\<rparr>)\<rparr>)
         (touch (fence_buffers bs) (m, ob_value b) s)"
  proof (cases batching)
    case True
    then have x: "extend_batch cfg e True m bs s = (ok, s1)" using r by simp
    then show ?thesis by (cases rule: extend_cases) (use that in blast)+
  next
    case False
    then show ?thesis using that(1) r by simp
  qed
  then show ?thesis
  proof cases
    case 1
    let ?s2 = "flush_all m s"
    note f = conjunct1[OF grows_flush_all[OF assms, of m]]
    obtain c s3 where c: "new_command_buffer m ?s2 = (c, s3)" by fastforce
    obtain c1 ws v s4 where w: "encode_submission_waits m bs c s3 = ((c1, ws, v), s4)" by (metis prod_cases3 surj_pair)
    note b = grows_buffer[OF c grows_ready[OF f]]
    note en = grows_encode[OF w grows_ready[OF b(1)]]
    have g: "grows n N s s4" using f b(1) en(1) grows_trans by blast
    have res: "snd (submit_work cfg e batching all_objects True m bs s) =
      (if batching then encode_in_batch m bs (begin_batch m c1 e [(m, v)] ws v s4)
       else snd (submit_buffer (encode_resource_signals [(m, v)] (c1\<lparr>cb_work := cb_work c1 @ [fence_buffers bs]\<rparr>)) s4))"
      unfolding submit_work_def r by (simp add: 1 c w Let_def)
    have "grows n N s4 (encode_in_batch m bs (begin_batch m c1 e [(m, v)] ws v s4))"
      by (rule growsI[of _ _ _ _ "[]"])
         (use grows_ready[OF g] en b in \<open>auto simp: encode_in_batch_def begin_batch_def ready_def closing_def
            encode_resource_signals_def val_of_def\<close>)
    moreover have "grows n N s4 (snd (submit_buffer (encode_resource_signals [(m, v)] (c1\<lparr>cb_work := cb_work c1 @ [fence_buffers bs]\<rparr>)) s4))"
      using en b by (intro grows_submit[OF grows_ready[OF g]]) (simp_all add: encode_resource_signals_def val_of_def)
    ultimately show ?thesis unfolding res using grows_trans[OF g] by simp
  next
    case 2
    have "snd (submit_work cfg e batching all_objects True m bs s) = encode_in_batch m bs s1"
      unfolding submit_work_def r using 2(1) by simp
    moreover have "grows n N s (encode_in_batch m bs s1)"
      by (rule growsI[of _ _ _ _ "[]"])
         (use assms(1) 2(2) in \<open>auto simp: 2(3) encode_in_batch_def ready_def closing_def encode_resource_signals_def val_of_def touch_def\<close>)
    ultimately show ?thesis by simp
  qed
qed

lemma grows_host:
  assumes "ready n N s" "batches_placed s"
  shows "grows n N s (snd (enqueue_host_function all_objects m f s))"
proof -
  note f = conjunct1[OF grows_flush_all[OF assms, of m]]
  obtain i k s2 where m: "submit_marker m (flush_all m s) = ((i, k), s2)" by (metis surj_pair)
  note g2 = grows_submit_marker[OF m grows_ready[OF f]]
  obtain v s3 where r: "reserve_host_value m s2 = (v, s3)" by fastforce
  let ?s3 = "commit (HostFn m v i f) s3"
  have g3: "grows n N s2 ?s3"
    by (rule growsI[of _ _ _ _ "[HostFn m v i f]"])
       (use grows_ready[OF g2] r in \<open>auto simp: reserve_host_value_def Let_def ready_def val_of_def split: if_splits\<close>)
  obtain c s4 where c: "new_command_buffer m ?s3 = (c, s4)" by fastforce
  obtain c1 ws w s5 where e: "encode_submission_waits m [] c s4 = ((c1, ws, w), s5)" by (metis prod_cases3 surj_pair)
  note b = grows_buffer[OF c grows_ready[OF g3]]
  note en = grows_encode[OF e grows_ready[OF b(1)]]
  let ?s5 = "set_latest_host_barrier m v s5"
  have g5: "grows n N s5 ?s5"
    by (rule growsI[of _ _ _ _ "[]"]) (use grows_ready[OF en(1)] in \<open>auto simp: set_latest_host_barrier_def ready_def\<close>)
  let ?s6 = "snd (submit_buffer (encode_resource_signals [(m, w)] c1) ?s5)"
  have g6: "grows n N ?s5 ?s6"
    using en(2,3,5) b(2,3) val_signal[of c1 m w] by (intro grows_submit[OF grows_ready[OF g5]]) (simp add: encode_resource_signals_def)
  have "grows n N ?s6 (add_pending_host_operation m ?s6)"
    by (rule growsI[of _ _ _ _ "[]"]) (use grows_ready[OF g6] in \<open>auto simp: add_pending_host_operation_def ready_def\<close>)
  note grows_trans[OF g6 this]
  note grows_trans[OF g5 this]
  note grows_trans[OF en(1) this]
  note grows_trans[OF b(1) this]
  note grows_trans[OF g3 this]
  note grows_trans[OF g2 this]
  note grows_trans[OF f this]
  then show ?thesis using m r c e by (simp add: enqueue_host_function_def Let_def)
qed

section \<open>Markers\<close>

lemma grows_create:
  assumes "ready n N s"
  shows "grows n N s (snd (create_stream p s))"
  by (rule growsI[of _ _ _ _ "[]"]) (use assms in \<open>auto simp: create_stream_def Let_def ready_def\<close>)

lemma grows_release: "ready n N s \<Longrightarrow> grows n N s (release_stream m s)"
  by (rule growsI[of _ _ _ _ "[]"]) (auto simp: release_stream_def ready_def)

lemma grows_granted:
  assumes "ready n N s" "batches_placed s" "granted mo"
  shows "grows n N s (snd (submit_work cfg k batching mo True m bs s))" "grows n N s (snd (enqueue_host_function mo m f s))"
  using granted_work[OF assms(3), of cfg k batching m bs s] granted_host[OF assms(3), of m f s]
    grows_work[OF assms(1,2)] grows_host[OF assms(1,2)] grows_flush_all[OF assms(1,2)] by metis+

lemma grows_step:
  assumes "granted_step cfg s t" "state_ok s" "ready n N s"
  shows "grows n N s t \<or> (\<exists>i. can_finish i s \<and> t = finish i s)"
  using assms
proof (induction rule: granted_step.induct)
  case (copy m s mo dst src bytes)
  then show ?case
    using grows_granted(1)[OF copy.prems(2) placed[OF copy.prems(1)] copy.hyps(2), of cfg kBlit "bc_max_batch_dispatches cfg > 0" m "[dst, src]"]
    by (auto simp: blit_copy_def grows_refl)
qed (auto intro: grows_create grows_release grows_granted grows_record grows_flush dest: placed)

text \<open>The order of the fences in a state that keeps the invariant.\<close>

lemma ordered_before:
  assumes "fences_ok s" "bk_todo s = earlier @ x # later" "y \<in> set earlier" "runnable s earlier x"
  shows "\<not> precedes (view s) y x"
proof
  assume p: "precedes (view s) y x"
  have "all_sound (view s) (bk_todo s)" using fences_ok_sound[OF assms(1)] all_sound_prefix by blast
  then have "\<not> runs (view s) earlier x" using precedes_blocks[of "view s" earlier x later y] assms(2,3) p by simp
  then show False using runnable_runs[of s earlier x] assms(2,4) by auto
qed

lemma stream_first:
  assumes "fences_ok s" "bk_todo s = earlier @ Gpu c # later" "runnable s earlier (Gpu c)" "y \<in> set earlier"
  shows "stream_of y \<noteq> cb_stream c"
proof (cases y)
  case (Gpu d)
  then show ?thesis using assms(3,4) by (auto simp: list_all_iff)
next
  case (HostFn m v i f)
  then have "carries y" by (simp add: carries_def)
  then show ?thesis using ordered_before[OF assms(1,2,4,3)] by (simp add: precedes_def)
qed

lemma finish_ready: "ready n N s \<Longrightarrow> ready n N (finish i s)"
proof -
  have "bk_next_stream (finish i s) = bk_next_stream s" "si_next_access_value (bk_streams (finish i s) n) = si_next_access_value (bk_streams s n)"
    by (cases "bk_todo s ! i"; simp add: finish_def complete_pending_host_operation_def)+
  then show "ready n N s \<Longrightarrow> ready n N (finish i s)" by (simp add: ready_def finish_streams)
qed

lemma tracked_finish:
  assumes "tracked n N k s" "fences_ok s" "can_finish i s"
  shows "tracked n N k (finish i s)"
proof -
  let ?pre = "take i (bk_todo s)" and ?x = "bk_todo s ! i" and ?post = "drop (Suc i) (bk_todo s)"
  have t: "bk_todo s = ?pre @ ?x # ?post" and r: "runnable s ?pre ?x"
    using assms(3) by (simp_all add: can_finish_def id_take_nth_drop)
  have f: "bk_todo (finish i s) = ?pre @ ?post" by (simp add: finish_def)
  have rdy: "ready n N (finish i s)" using assms(1) finish_ready by (auto simp: tracked_def passed_def behind_def)
  from assms(1) consider "fresh n N (bk_todo s)"
    | a c b where "bk_todo s = a @ Gpu c # b" "fresh n N b" "cb_stream c = n" "(k, cb_id c) \<in> set (si_pending_buffers (bk_streams s n))"
    by (auto simp: tracked_def passed_def behind_def)
  then show ?thesis
  proof cases
    case 1
    then have "fresh n N (?pre @ ?post)" by (subst (asm) t) simp
    then show ?thesis using rdy f by (simp add: tracked_def passed_def behind_def)
  next
    case 2
    from t 2(1) have "?pre @ ?x # ?post = a @ Gpu c # b" by simp
    then consider "?pre = a" "?x = Gpu c" "?post = b" | q where "a = ?pre @ ?x # q" "?post = q @ Gpu c # b"
      | q where "?pre = a @ Gpu c # q" "b = q @ ?x # ?post"
      by (auto simp: append_eq_append_conv2 Cons_eq_append_conv append_eq_Cons_conv)
    then show ?thesis
    proof cases
      case 1
      have "bk_todo s = ?pre @ Gpu c # ?post" using t 1(2) by simp
      from stream_first[OF assms(2) this] r 1(2) 2(3) have "fresh n N ?pre" by (auto simp: fresh_def)
      then show ?thesis using rdy f 1(3) 2(2) by (simp add: tracked_def passed_def behind_def)
    next
      case (2 q)
      have "bk_todo (finish i s) = ((?pre @ q) @ [Gpu c]) @ b" using f 2(2) by simp
      then have "behind n N ((?pre @ q) @ [Gpu c]) (finish i s)"
        unfolding behind_def using rdy \<open>fresh n N b\<close> by blast
      then show ?thesis
        using \<open>cb_stream c = n\<close> \<open>(k, cb_id c) \<in> _\<close> unfolding tracked_def finish_streams(3) by blast
    next
      case (3 q)
      have "fresh n N (q @ ?post)" using \<open>fresh n N b\<close> 3(2) by simp
      moreover have "bk_todo (finish i s) = (a @ [Gpu c]) @ (q @ ?post)" using f 3(1) by simp
      ultimately have "behind n N (a @ [Gpu c]) (finish i s)" unfolding behind_def using rdy by blast
      then show ?thesis
        using \<open>cb_stream c = n\<close> \<open>(k, cb_id c) \<in> _\<close> unfolding tracked_def finish_streams(3) by blast
    qed
  qed
qed

section \<open>What follows a marker\<close>

lemma poll_pending_keeps:
  assumes "poll_pending status s ps c = (e, c', rest)" "(k, i) \<in> set ps" "in_flight i s"
  shows "(k, i) \<in> set rest"
proof -
  obtain qs where "ps = qs @ rest" "\<forall>q\<in>set qs. \<not> in_flight (snd q) s" using poll_pending_spec[OF assms(1)] by blast
  then show ?thesis using assms(2,3) by auto
qed

lemma tracked_poll:
  assumes "tracked n N k s" "state_ok s"
  shows "tracked n N k (snd (poll_completed status m s))"
proof -
  let ?s = "flush_open_batch m s"
  have r: "ready n N s" using assms(1) by (auto simp: tracked_def passed_def behind_def)
  have t: "tracked n N k ?s" by (rule tracked_grows[OF assms(1) grows_flush[OF r placed[OF assms(2)]]])
  obtain e c ps where p: "poll_pending status ?s (si_pending_buffers (bk_streams ?s m)) (si_completed_ticket (bk_streams ?s m)) = (e, c, ps)"
    by (metis prod_cases3)
  have u: "snd (poll_completed status m s) = set_completed m c ps ?s" using p by (simp add: poll_completed_def Let_def)
  have b: "behind n N a (set_completed m c ps ?s) \<longleftrightarrow> behind n N a ?s" for a
    by (auto simp: behind_def ready_def set_completed_def)
  have kept: "(k, cb_id d) \<in> set (si_pending_buffers (bk_streams (set_completed m c ps ?s) n))"
    if "(k, cb_id d) \<in> set (si_pending_buffers (bk_streams ?s n))" "Gpu d \<in> set (bk_todo ?s)" for d
    using that poll_pending_keeps[OF p, of k "cb_id d"] by (auto simp: set_completed_def in_flight_iff)
  from t show ?thesis unfolding u tracked_def passed_def b
    using kept by (fastforce simp: behind_def)
qed

lemma tracked_advances:
  assumes "advances s t" "tracked n N k s" "state_ok s"
  shows "tracked n N k t"
  using assms
proof (induction rule: advances.induct)
  case (act s t cfg u)
  have t: "tracked n N k t" "state_ok t" using act by (auto intro: advances_ok)
  then have "ready n N t" by (auto simp: tracked_def passed_def behind_def)
  from grows_step[OF act.hyps(2) t(2) this] t show ?case
    using tracked_grows tracked_finish by (auto simp: state_ok_def)
next
  case (poll s t status m)
  then show ?case using tracked_poll advances_ok by blast
qed

lemma tracked_complete:
  assumes "tracked n N k s" "state_ok s" "k \<le> si_completed_ticket (bk_streams s n)"
  shows "passed n N s"
proof -
  have "map fst (si_pending_buffers (bk_streams s n)) = [Suc (si_completed_ticket (bk_streams s n))..<si_next_ticket (bk_streams s n)]"
    using assms(2) by (simp add: state_ok_def tickets_off_def stream_tickets_ok_def)
  then have "fst ` set (si_pending_buffers (bk_streams s n)) = {Suc (si_completed_ticket (bk_streams s n))..<si_next_ticket (bk_streams s n)}"
    by (metis list.set_map set_upt)
  then have "(k, i) \<notin> set (si_pending_buffers (bk_streams s n))" for i
    using assms(3) by (metis atLeastLessThan_iff fst_conv image_eqI not_less_eq_eq)
  then show ?thesis using assms(1) by (auto simp: tracked_def)
qed

lemma usable_ready: "usable n s \<Longrightarrow> fences_ok s \<Longrightarrow> ready n 0 s"
  by (auto simp: usable_def fences_ok_def good_def streams_ok_def ready_def)

lemma record_tracked:
  assumes "stream_record_marker mo n s = ((cudaSuccess, k), t)" "state_ok s" "usable n s"
  shows "tracked n (si_next_access_value (bk_streams t n)) k t" "0 < k" "state_ok t"
proof -
  let ?s = "flush_all n s" and ?N = "si_next_access_value (bk_streams t n)"
  obtain c s1 where c: "new_command_buffer n ?s = (c, s1)" by fastforce
  obtain c1 ws v s2 where e: "encode_submission_waits n [] c s1 = ((c1, ws, v), s2)" by (metis prod_cases3 surj_pair)
  let ?c = "encode_resource_signals [(n, v)] c1"
  have m: "submit_marker n ?s = ((cb_id c, fst (submit_buffer ?c s2)), snd (submit_buffer ?c s2))"
    by (simp add: submit_marker_def c e split: prod.splits)
  have k: "k = fst (submit_buffer ?c s2)" "t = snd (submit_buffer ?c s2)"
    using assms(1) by (auto simp: stream_record_marker_def Let_def m split: if_splits)
  show ok: "state_ok t"
    using step_state_ok[OF granted_step.marker[OF assms(3), of undefined mo] assms(2)] assms(1) by simp
  have cs: "cb_stream ?c = n" "cb_id ?c = cb_id c"
    using c e by (auto simp: new_command_buffer_def encode_resource_signals_def encode_submission_waits_def Let_def)
  have todo: "bk_todo t = bk_todo s2 @ [Gpu ?c]" "(k, cb_id ?c) \<in> set (si_pending_buffers (bk_streams t n))"
    "si_next_ticket (bk_streams t n) = Suc k" "si_open (bk_streams t n) = si_open (bk_streams s2 n)"
    using cs(1) by (auto simp: k submit_buffer_def add_pending_def Let_def)
  have "si_open (bk_streams s2 n) = None"
    using flush_all_closed[of s n] assms(2) c e
    by (auto simp: state_ok_def closed_ok_def all_closed_def new_command_buffer_def encode_submission_waits_def Let_def)
  moreover have "ready n 0 t"
    using grows_ready[OF grows_record[of n 0 s mo n]] usable_ready[OF assms(3)] assms(1,2) placed by (simp add: state_ok_def)
  ultimately have "ready n ?N t" using todo(4) by (simp add: ready_def)
  then have "behind n ?N (bk_todo s2 @ [Gpu ?c]) t" using todo(1) by (simp add: behind_def)
  then show "tracked n ?N k t" using todo(2) cs(1) unfolding tracked_def by blast
  have "map fst (si_pending_buffers (bk_streams t n)) = [Suc (si_completed_ticket (bk_streams t n))..<Suc k]"
    using ok todo(3) by (simp add: state_ok_def tickets_off_def stream_tickets_ok_def)
  moreover have "k \<in> set (map fst (si_pending_buffers (bk_streams t n)))" using todo(2) by force
  ultimately show "0 < k" by (metis atLeastLessThan_iff gr0I not_less_eq_eq set_upt zero_le)
qed

lemma outstanding_value:
  assumes "fences_ok s" "y \<in> set (bk_todo s)"
  shows "val_of y < si_next_access_value (bk_streams s (stream_of y))"
proof -
  obtain L where "outstanding s L" "values_ok (view s) L" using assms(1) by (auto simp: fences_ok_def good_def)
  moreover have "y \<in> set L" using calculation(1) assms(2) by (auto simp: outstanding_def)
  ultimately show ?thesis using values_okD(4)[of "view s" L y] by simp
qed

lemma passed_gone:
  assumes "passed n (si_next_access_value (bk_streams s n)) t" "fences_ok s" "y \<in> set (bk_todo s)" "stream_of y = n"
  shows "y \<notin> set (bk_todo t)"
proof -
  have "val_of y < si_next_access_value (bk_streams s n)"
    using outstanding_value[OF assms(2,3)] assms(4) by simp
  moreover have "fresh n (si_next_access_value (bk_streams s n)) (bk_todo t)" using assms(1) by (auto simp: passed_def behind_def)
  ultimately show ?thesis using assms(4) by (auto simp: fresh_def)
qed

text \<open>The calls of the runtime that do not wait.\<close>

lemma keeps_flush_all: "fences_ok s \<Longrightarrow> keeps_streams s (flush_all n s)"
  unfolding fences_ok_def keeps_streams_def by (metis flush_all_spec(3) view_sel(8,9) order_refl)

lemma live_submit:
  "bk_live (snd (submit_buffer c s)) = bk_live s" "bk_default_stream (snd (submit_buffer c s)) = bk_default_stream s"
  "new_command_buffer n s = (d, t) \<Longrightarrow> bk_live t = bk_live s \<and> bk_default_stream t = bk_default_stream s"
  "encode_submission_waits n bs c s = (r, t) \<Longrightarrow> bk_live t = bk_live s \<and> bk_default_stream t = bk_default_stream s"
  "reserve_host_value n s = (v, t) \<Longrightarrow> bk_live t = bk_live s \<and> bk_default_stream t = bk_default_stream s"
  by (auto simp: submit_buffer_def new_command_buffer_def encode_submission_waits_def reserve_host_value_def add_pending_def Let_def)

lemma keeps_submit_marker: "keeps_streams s (snd (submit_marker n s))"
proof -
  obtain c s1 where c: "new_command_buffer n s = (c, s1)" by fastforce
  obtain c1 ws v s2 where e: "encode_submission_waits n [] c s1 = ((c1, ws, v), s2)" by (metis prod_cases3 surj_pair)
  have "snd (submit_marker n s) = snd (submit_buffer (encode_resource_signals [(n, v)] c1) s2)"
    by (simp add: submit_marker_def c e split: prod.splits)
  then show ?thesis using live_submit(3)[OF c] live_submit(4)[OF e] by (simp add: keeps_streams_def live_submit(1,2))
qed

lemma keeps_streams_trans: "keeps_streams s t \<Longrightarrow> keeps_streams t u \<Longrightarrow> keeps_streams s u"
  by (auto simp: keeps_streams_def)

lemma create_advances: "advances s (snd (create_stream p s))"
  by (rule advances_step[OF granted_step.create]) (auto simp: keeps_streams_def create_stream_def Let_def)

lemma record_advances:
  assumes "state_ok s" "usable n s"
  shows "advances s (snd (stream_record_marker mo n s))"
proof (rule advances_step[OF granted_step.marker[OF assms(2)]])
  have k: "keeps_streams s (flush_all n s)" using keeps_flush_all assms(1) by (simp add: state_ok_def)
  then show "keeps_streams s (snd (stream_record_marker mo n s))"
    using keeps_streams_trans[OF k keeps_submit_marker[of "flush_all n s" n]]
    by (auto simp: stream_record_marker_def Let_def split: prod.splits)
qed

lemma host_function_advances:
  assumes "state_ok s" "usable n s" "granted mo"
  shows "advances s (snd (enqueue_host_function mo n f s))"
proof (rule advances_step[OF granted_step.host[OF assms(2,3)]])
  let ?s = "flush_all n s"
  have k: "keeps_streams s ?s" using keeps_flush_all assms(1) by (simp add: state_ok_def)
  obtain i k t where m: "submit_marker n ?s = ((i, k), t)" by (metis surj_pair)
  have "keeps_streams s t" using keeps_streams_trans[OF k keeps_submit_marker[of ?s n]] m by simp
  moreover have "keeps_streams t (snd (enqueue_host_function all_objects n f s))"
  proof -
    obtain v s3 where r: "reserve_host_value n t = (v, s3)" by fastforce
    obtain c s4 where c: "new_command_buffer n (commit (HostFn n v i f) s3) = (c, s4)" by fastforce
    obtain c1 ws w s5 where e: "encode_submission_waits n [] c s4 = ((c1, ws, w), s5)" by (metis prod_cases3 surj_pair)
    show ?thesis using live_submit(5)[OF r] live_submit(3)[OF c] live_submit(4)[OF e]
      by (simp add: enqueue_host_function_def m r c e keeps_streams_def all_objects_def live_submit(1,2)
          add_pending_host_operation_def set_latest_host_barrier_def)
  qed
  ultimately have "keeps_streams s (snd (enqueue_host_function all_objects n f s))" by (rule keeps_streams_trans)
  then show "keeps_streams s (snd (enqueue_host_function mo n f s))" using k granted_host[OF assms(3), of n f s] by auto
qed

end
