(* ===== verification/MslAst.thy ===== *)
theory MslAst
  imports IrTypes PtxText
begin

text \<open>
  The syntax tree of Metal source and its printer, \<open>compiler/metal/include/cumetal/metal/msl_ast.h\<close> and
  \<open>compiler/metal/src/msl_ast.cpp\<close>.

  A null pointer of the tree is a constructor of its own, and the alternatives of a \<open>std::variant\<close> are
  the constructors of a datatype.  A printer returns what it appends to the output stream and to the list
  of errors.
\<close>

section \<open>Types\<close>

datatype MslAddressSpace = MslNone | MslDevice | MslConstant | MslThreadgroup | MslThread

datatype MslTypeKind = MslVoid | MslBool | MslInt | MslUInt | MslHalf | MslFloat | MslDouble | MslVector
  | MslPointer | MslReference | MslStructKind

datatype MslType = MslType (mt_kind: MslTypeKind) (mt_lanes: u32) (mt_address_space: MslAddressSpace)
  (mt_element: "MslType option") (mt_struct_name: string)

definition msl_type :: "MslTypeKind \<Rightarrow> u32 \<Rightarrow> MslType" where
  "msl_type k lanes = MslType k lanes MslNone None []"

definition msl_void_type :: MslType where
  "msl_void_type = msl_type MslVoid 1"

definition msl_boolean :: MslType where
  "msl_boolean = msl_type MslBool 1"

definition msl_sint :: "u32 \<Rightarrow> MslType" where
  "msl_sint bits = msl_type MslInt bits"

definition msl_uint :: "u32 \<Rightarrow> MslType" where
  "msl_uint bits = msl_type MslUInt bits"

definition msl_floating :: "u32 \<Rightarrow> MslType" where
  "msl_floating bits = (if bits = 16 then msl_type MslHalf 1 else if bits = 64 then msl_type MslDouble 1
     else msl_type MslFloat 1)"

definition msl_vector :: "MslType \<Rightarrow> u32 \<Rightarrow> MslType" where
  "msl_vector element lanes = MslType MslVector lanes MslNone (Some element) []"

definition msl_pointer :: "MslType \<Rightarrow> MslAddressSpace \<Rightarrow> MslType" where
  "msl_pointer target address_space = MslType MslPointer 1 address_space (Some target) []"

definition msl_reference :: "MslType \<Rightarrow> MslAddressSpace \<Rightarrow> MslType" where
  "msl_reference referent address_space = MslType MslReference 1 address_space (Some referent) []"

fun msl_type_eq :: "MslType \<Rightarrow> MslType \<Rightarrow> bool" where
  "msl_type_eq (MslType k l a e n) (MslType k' l' a' e' n') \<longleftrightarrow>
     k = k' \<and> l = l' \<and> a = a' \<and> n = n' \<and>
     (case e of None \<Rightarrow> e' = None | Some t \<Rightarrow> (case e' of None \<Rightarrow> False | Some t' \<Rightarrow> msl_type_eq t t'))"

section \<open>Expressions and statements\<close>

datatype MslExpr = NullExpr | MslExpression (expr_type: MslType) (expr_value: MslNode) (expr_location: SourceLocation)
and MslNode =
    MslIdentifier string
  | MslLiteral string
  | MslUnary string MslExpr
  | MslBinary string MslExpr MslExpr
  | MslCall string "MslExpr list"
  | MslAggregateInit MslType "MslExpr list"
  | MslCast MslType MslExpr bool bool
  | MslSubscript MslExpr MslExpr
  | MslMember MslExpr string
  | MslConditional MslExpr MslExpr MslExpr
  | MslVoteMask MslExpr

datatype MslStmt = NullStmt | MslStatement (stmt_value: MslStmtNode) (stmt_location: SourceLocation)
and MslStmtNode =
    MslVariableDeclaration MslType string "MslExpr option" bool
  | MslAssignment MslExpr MslExpr
  | MslExpressionStatement MslExpr
  | MslIf MslExpr "MslStmt list" "MslStmt list"
  | MslWhile MslExpr "MslStmt list"
  | MslThreadgroupByteArray string u64
  | MslPrivateByteArray string u64
  | MslSwitch MslExpr "MslSwitchCase list"
  | MslReturn "MslExpr option"
  | MslBreak
  | MslContinue
and MslSwitchCase = MslSwitchCase MslExpr "MslStmt list"

definition mk_expression :: "MslType \<Rightarrow> MslNode \<Rightarrow> MslExpr" where
  "mk_expression ty node = MslExpression ty node no_location"

definition msl_identifier :: "string \<Rightarrow> MslType \<Rightarrow> MslExpr" where
  "msl_identifier name ty = mk_expression ty (MslIdentifier name)"

definition msl_literal :: "string \<Rightarrow> MslType \<Rightarrow> MslExpr" where
  "msl_literal spelling ty = mk_expression ty (MslLiteral spelling)"

definition msl_unary :: "string \<Rightarrow> MslExpr \<Rightarrow> MslType \<Rightarrow> MslExpr" where
  "msl_unary op operand ty = mk_expression ty (MslUnary op operand)"

definition msl_binary :: "string \<Rightarrow> MslExpr \<Rightarrow> MslExpr \<Rightarrow> MslType \<Rightarrow> MslExpr" where
  "msl_binary op left right ty = mk_expression ty (MslBinary op left right)"

definition msl_call :: "string \<Rightarrow> MslExpr list \<Rightarrow> MslType \<Rightarrow> MslExpr" where
  "msl_call callee arguments ty = mk_expression ty (MslCall callee arguments)"

definition msl_aggregate_init :: "MslType \<Rightarrow> MslExpr list \<Rightarrow> MslExpr" where
  "msl_aggregate_init ty elements = mk_expression ty (MslAggregateInit ty elements)"

definition msl_cast :: "MslType \<Rightarrow> MslExpr \<Rightarrow> bool \<Rightarrow> MslExpr" where
  "msl_cast target operand reinterpret = mk_expression target (MslCast target operand reinterpret False)"

definition msl_bitcast :: "MslType \<Rightarrow> MslExpr \<Rightarrow> MslExpr" where
  "msl_bitcast target operand = mk_expression target (MslCast target operand False True)"

definition msl_subscript :: "MslExpr \<Rightarrow> MslExpr \<Rightarrow> MslType \<Rightarrow> MslExpr" where
  "msl_subscript base index ty = mk_expression ty (MslSubscript base index)"

definition msl_member :: "MslExpr \<Rightarrow> string \<Rightarrow> MslType \<Rightarrow> MslExpr" where
  "msl_member base member_name ty = mk_expression ty (MslMember base member_name)"

definition msl_conditional :: "MslExpr \<Rightarrow> MslExpr \<Rightarrow> MslExpr \<Rightarrow> MslType \<Rightarrow> MslExpr" where
  "msl_conditional condition true_value false_value ty = mk_expression ty (MslConditional condition true_value false_value)"

definition msl_vote_mask :: "MslExpr \<Rightarrow> MslExpr" where
  "msl_vote_mask vote = mk_expression (msl_uint 32) (MslVoteMask vote)"

definition mk_statement :: "MslStmtNode \<Rightarrow> MslStmt" where
  "mk_statement node = MslStatement node no_location"

definition msl_variable :: "MslType \<Rightarrow> string \<Rightarrow> MslExpr option \<Rightarrow> bool \<Rightarrow> MslStmt" where
  "msl_variable ty name initializer is_const = mk_statement (MslVariableDeclaration ty name initializer is_const)"

definition msl_assignment :: "MslExpr \<Rightarrow> MslExpr \<Rightarrow> MslStmt" where
  "msl_assignment target val = mk_statement (MslAssignment target val)"

definition msl_expression_statement :: "MslExpr \<Rightarrow> MslStmt" where
  "msl_expression_statement e = mk_statement (MslExpressionStatement e)"

definition msl_if_statement :: "MslExpr \<Rightarrow> MslStmt list \<Rightarrow> MslStmt list \<Rightarrow> MslStmt" where
  "msl_if_statement condition then_statements else_statements = mk_statement (MslIf condition then_statements else_statements)"

definition msl_while_statement :: "MslExpr \<Rightarrow> MslStmt list \<Rightarrow> MslStmt" where
  "msl_while_statement condition statements = mk_statement (MslWhile condition statements)"

definition msl_threadgroup_byte_array :: "string \<Rightarrow> u64 \<Rightarrow> MslStmt" where
  "msl_threadgroup_byte_array name byte_size = mk_statement (MslThreadgroupByteArray name byte_size)"

definition msl_private_byte_array :: "string \<Rightarrow> u64 \<Rightarrow> MslStmt" where
  "msl_private_byte_array name byte_size = mk_statement (MslPrivateByteArray name byte_size)"

definition msl_switch_statement :: "MslExpr \<Rightarrow> MslSwitchCase list \<Rightarrow> MslStmt" where
  "msl_switch_statement selector cases = mk_statement (MslSwitch selector cases)"

definition msl_return_statement :: "MslExpr option \<Rightarrow> MslStmt" where
  "msl_return_statement val = mk_statement (MslReturn val)"

definition msl_break_statement :: MslStmt where
  "msl_break_statement = mk_statement MslBreak"

definition msl_continue_statement :: MslStmt where
  "msl_continue_statement = mk_statement MslContinue"

section \<open>Modules\<close>

record MslAttribute =
  at_name :: string
  at_index :: "u32 option"

record MslParameter =
  mp_type :: MslType
  mp_name :: string
  mp_attributes :: "MslAttribute list"

record MslFunction =
  mf_name :: string
  mf_return_type :: MslType
  mf_is_kernel :: bool
  mf_parameters :: "MslParameter list"
  mf_statements :: "MslStmt list"

record MslStructField =
  sf_type :: MslType
  sf_name :: string

record MslStruct =
  ms_name :: string
  ms_fields :: "MslStructField list"

record MslGlobalByteArray =
  ga_name :: string
  ga_bytes :: bytes
  ga_alignment :: u32

record MslModule =
  mm_language_major :: u32
  mm_language_minor :: u32
  mm_comments :: "string list"
  mm_includes :: "string list"
  mm_structs :: "MslStruct list"
  mm_global_byte_arrays :: "MslGlobalByteArray list"
  mm_functions :: "MslFunction list"

record MslPrintResult =
  pr_ok :: bool
  pr_source :: string
  pr_errors :: "string list"

section \<open>Identifiers and types as text\<close>

definition reserved_words :: "string list" where
  "reserved_words = [''alignas'', ''alignof'', ''and'', ''asm'', ''atomic'', ''auto'', ''bool'', ''break'', ''case'',
     ''char'', ''class'', ''constant'', ''continue'', ''default'', ''device'', ''do'', ''double'',
     ''else'', ''enum'', ''false'', ''float'', ''for'', ''friend'', ''goto'', ''half'', ''if'', ''inline'',
     ''int'', ''kernel'', ''long'', ''namespace'', ''operator'', ''or'', ''private'', ''protected'',
     ''public'', ''register'', ''return'', ''short'', ''signed'', ''sizeof'', ''static'', ''struct'',
     ''switch'', ''template'', ''this'', ''thread'', ''threadgroup'', ''true'', ''typedef'', ''typename'',
     ''uint'', ''ulong'', ''union'', ''unsigned'', ''using'', ''virtual'', ''void'', ''volatile'', ''while'',
     ''constinit'', ''consteval'', ''concept'', ''requires'', ''co_await'', ''co_return'', ''co_yield'',
     ''char8_t'', ''constexpr'', ''const'', ''export'', ''new'', ''delete'', ''try'', ''catch'', ''throw'',
     ''nullptr'', ''static_assert'', ''static_cast'', ''reinterpret_cast'', ''const_cast'',
     ''dynamic_cast'', ''decltype'', ''noexcept'', ''explicit'', ''extern'', ''mutable'', ''not'',
     ''xor'', ''compl'', ''bitand'', ''bitor'', ''typeid'', ''wchar_t'', ''char16_t'', ''char32_t'']"

definition identifier_char :: "char \<Rightarrow> bool" where
  "identifier_char c \<longleftrightarrow> is_alnum c \<or> c = CHR ''_''"

definition sanitize_identifier :: "string \<Rightarrow> string" where
  "sanitize_identifier name =
     (let out = map (\<lambda>c. if identifier_char c then c else CHR ''_'') name;
          out = (if out = [] then ''unnamed'' else out);
          out = (if is_digit_char (hd out) then CHR ''_'' # out else out)
      in if out \<in> set reserved_words \<or> take 2 out = ''__'' then ''cm_'' @ out else out)"

fun address_space_spelling :: "MslAddressSpace \<Rightarrow> string" where
  "address_space_spelling MslNone = ''''"
| "address_space_spelling MslDevice = ''device''"
| "address_space_spelling MslConstant = ''constant''"
| "address_space_spelling MslThreadgroup = ''threadgroup''"
| "address_space_spelling MslThread = ''thread''"

definition space_prefix :: "MslAddressSpace \<Rightarrow> string" where
  "space_prefix a = (if address_space_spelling a = [] then [] else address_space_spelling a @ '' '')"

definition space_suffix :: "MslAddressSpace \<Rightarrow> string" where
  "space_suffix a = (if address_space_spelling a = [] then [] else '' '' @ address_space_spelling a)"

definition indirection :: "MslTypeKind \<Rightarrow> string" where
  "indirection k = (if k = MslPointer then ''*'' else ''&'')"

definition is_indirect :: "MslTypeKind \<Rightarrow> bool" where
  "is_indirect k \<longleftrightarrow> k = MslPointer \<or> k = MslReference"

definition integer_name :: "string \<Rightarrow> u32 \<Rightarrow> string" where
  "integer_name pre lanes = pre @ (if lanes = 8 then ''char'' else if lanes = 16 then ''short''
     else if lanes = 64 then ''long'' else ''int'')"

fun msl_str :: "MslType \<Rightarrow> string" where
  "msl_str (MslType k lanes a e n) =
     (case k of
        MslVoid \<Rightarrow> ''void''
      | MslBool \<Rightarrow> ''bool''
      | MslInt \<Rightarrow> integer_name [] lanes
      | MslUInt \<Rightarrow> integer_name ''u'' lanes
      | MslHalf \<Rightarrow> ''half''
      | MslFloat \<Rightarrow> ''float''
      | MslDouble \<Rightarrow> ''double''
      | MslVector \<Rightarrow> (case e of None \<Rightarrow> ''uint'' | Some t \<Rightarrow> msl_str t) @ show_u32 lanes
      | MslStructKind \<Rightarrow> sanitize_identifier n
      | _ \<Rightarrow>
          (case e of
             None \<Rightarrow> space_prefix a @ ''void'' @ indirection k
           | Some t \<Rightarrow>
               if is_indirect (mt_kind t) then msl_str t @ space_suffix a @ indirection k
               else space_prefix a @ msl_str t @ indirection k))"

definition is_alias_scalar :: "MslTypeKind \<Rightarrow> bool" where
  "is_alias_scalar k \<longleftrightarrow> k \<in> {MslBool, MslInt, MslUInt, MslHalf, MslFloat}"

definition may_alias_spelling :: "MslType \<Rightarrow> string" where
  "may_alias_spelling t =
     (case mt_element t of
        None \<Rightarrow> msl_str t
      | Some e \<Rightarrow>
          if \<not> is_indirect (mt_kind t) then msl_str t
          else if is_alias_scalar (mt_kind e) \<or>
            (mt_kind e = MslVector \<and> 2 \<le> mt_lanes e \<and> mt_lanes e \<le> 4 \<and>
             (case mt_element e of None \<Rightarrow> False | Some x \<Rightarrow> is_alias_scalar (mt_kind x)))
          then space_prefix (mt_address_space t) @ ''cm_alias_'' @ msl_str e @ indirection (mt_kind t)
          else msl_str t)"

section \<open>Printing expressions\<close>

definition binary_precedence :: "string \<Rightarrow> nat option" where
  "binary_precedence op =
     (if op = '','' then Some 1 else if op = ''='' then Some 2 else if op = ''||'' then Some 3
      else if op = ''&&'' then Some 4 else if op = ''|'' then Some 5 else if op = ''^'' then Some 6
      else if op = ''&'' then Some 7 else if op = ''=='' \<or> op = ''!='' then Some 8
      else if op = ''<'' \<or> op = ''<='' \<or> op = ''>'' \<or> op = ''>='' then Some 9
      else if op = ''<<'' \<or> op = ''>>'' then Some 10 else if op = ''+'' \<or> op = ''-'' then Some 11
      else if op = ''*'' \<or> op = ''/'' \<or> op = ''%'' then Some 12 else None)"

fun precedence :: "MslNode \<Rightarrow> nat" where
  "precedence (MslConditional c t f) = 2"
| "precedence (MslBinary op l r) = (case binary_precedence op of Some p \<Rightarrow> p | None \<Rightarrow> 14)"
| "precedence (MslUnary op x) = 13"
| "precedence (MslCast t x r b) = 13"
| "precedence _ = 14"

type_synonym printed = "string \<times> string list"

definition txt_of :: "string \<Rightarrow> printed" where
  "txt_of s = (s, [])"

definition err_of :: "string \<Rightarrow> printed" where
  "err_of e = ([], [e])"

definition cat :: "printed list \<Rightarrow> printed" where
  "cat ps = (concat (map fst ps), concat (map snd ps))"

definition separated :: "string \<Rightarrow> printed list \<Rightarrow> printed" where
  "separated sep ps = (joined sep (map fst ps), concat (map snd ps))"

fun print_expression :: "MslExpr \<Rightarrow> nat \<Rightarrow> printed"
and print_node :: "MslNode \<Rightarrow> nat \<Rightarrow> printed" where
  "print_expression NullExpr parent = (''/* invalid */'', [''null MSL expression''])"
| "print_expression (MslExpression ty node loc) parent =
     (if precedence node < parent then cat [txt_of ''('', print_node node (precedence node), txt_of '')'']
      else print_node node (precedence node))"
| "print_node (MslIdentifier name) current = txt_of (sanitize_identifier name)"
| "print_node (MslLiteral spelling) current = txt_of spelling"
| "print_node (MslUnary op x) current = cat [txt_of op, print_expression x current]"
| "print_node (MslBinary op l r) current =
     cat [print_expression l current, txt_of ('' '' @ op @ '' ''), print_expression r (current + 1)]"
| "print_node (MslCall callee args) current =
     cat [txt_of (sanitize_identifier callee @ ''(''), separated '', '' (map (\<lambda>x. print_expression x 0) args), txt_of '')'']"
| "print_node (MslAggregateInit ty elements) current =
     cat [txt_of (msl_str ty @ ''{''), separated '', '' (map (\<lambda>x. print_expression x 0) elements), txt_of ''}'']"
| "print_node (MslCast target x reinterpret bitcast) current =
     cat [txt_of (if bitcast then ''as_type<'' @ msl_str target @ ''>(''
                  else if reinterpret then ''reinterpret_cast<'' @ may_alias_spelling target @ ''>(''
                  else msl_str target @ ''(''),
          print_expression x 0, txt_of '')'']"
| "print_node (MslSubscript base index) current =
     cat [print_expression base current, txt_of ''['', print_expression index 0, txt_of '']'']"
| "print_node (MslMember base member_name) current =
     cat [print_expression base current, txt_of (''.'' @ sanitize_identifier member_name)]"
| "print_node (MslConditional c t f) current =
     cat [print_expression c current, txt_of '' ? '', print_expression t current, txt_of '' : '', print_expression f current]"
| "print_node (MslVoteMask vote) current =
     cat [txt_of ''uint(simd_vote::vote_t('', print_expression vote 0, txt_of ''))'']"

section \<open>Printing statements\<close>

definition indent :: "nat \<Rightarrow> string" where
  "indent depth = concat (replicate depth ''    '')"

definition line :: "nat \<Rightarrow> printed list \<Rightarrow> printed" where
  "line depth ps = cat (txt_of (indent depth) # ps @ [txt_of [CHR 0x0A]])"

fun print_stmt :: "MslStmt \<Rightarrow> nat \<Rightarrow> printed"
and print_stmt_node :: "MslStmtNode \<Rightarrow> nat \<Rightarrow> printed"
and print_case :: "MslSwitchCase \<Rightarrow> nat \<Rightarrow> printed" where
  "print_stmt NullStmt depth = err_of ''null MSL statement''"
| "print_stmt (MslStatement node loc) depth = print_stmt_node node depth"
| "print_stmt_node (MslVariableDeclaration ty name initializer is_const) depth =
     line depth [txt_of (msl_str ty @ (if is_const then '' const'' else []) @ '' '' @ sanitize_identifier name),
       (case initializer of None \<Rightarrow> txt_of [] | Some e \<Rightarrow> cat [txt_of '' = '', print_expression e 2]), txt_of '';'']"
| "print_stmt_node (MslAssignment target val) depth =
     line depth [print_expression target 0, txt_of '' = '', print_expression val 2, txt_of '';'']"
| "print_stmt_node (MslExpressionStatement e) depth = line depth [print_expression e 0, txt_of '';'']"
| "print_stmt_node (MslIf condition then_statements else_statements) depth =
     cat [line depth [txt_of ''if ('', print_expression condition 0, txt_of '') {''],
       cat (map (\<lambda>s. print_stmt s (Suc depth)) then_statements),
       (if else_statements = [] then line depth [txt_of ''}'']
        else cat [line depth [txt_of ''} else {''], cat (map (\<lambda>s. print_stmt s (Suc depth)) else_statements),
                  line depth [txt_of ''}'']])]"
| "print_stmt_node (MslWhile condition statements) depth =
     cat [line depth [txt_of ''while ('', print_expression condition 0, txt_of '') {''],
       cat (map (\<lambda>s. print_stmt s (Suc depth)) statements), line depth [txt_of ''}'']]"
| "print_stmt_node (MslThreadgroupByteArray name byte_size) depth =
     line depth [txt_of (''threadgroup uchar '' @ sanitize_identifier name @ ''['' @ show_nat (unat byte_size) @ ''];'')]"
| "print_stmt_node (MslPrivateByteArray name byte_size) depth =
     line depth [txt_of (''thread uchar '' @ sanitize_identifier name @ ''['' @ show_nat (unat byte_size) @ ''];'')]"
| "print_stmt_node (MslSwitch selector cases) depth =
     cat [line depth [txt_of ''switch ('', print_expression selector 0, txt_of '') {''],
       cat (map (\<lambda>c. print_case c (Suc depth)) cases), line depth [txt_of ''}'']]"
| "print_stmt_node (MslReturn val) depth =
     line depth [txt_of ''return'', (case val of None \<Rightarrow> txt_of [] | Some e \<Rightarrow> cat [txt_of '' '', print_expression e 0]), txt_of '';'']"
| "print_stmt_node MslBreak depth = line depth [txt_of ''break;'']"
| "print_stmt_node MslContinue depth = line depth [txt_of ''continue;'']"
| "print_case (MslSwitchCase val statements) depth =
     cat [line depth [txt_of ''case '', print_expression val 0, txt_of '': {''],
       cat (map (\<lambda>s. print_stmt s (Suc depth)) statements), line depth [txt_of ''}'']]"

section \<open>Printing modules\<close>

definition newline :: string where
  "newline = [CHR 0x0A]"

definition print_comment :: "string \<Rightarrow> printed" where
  "print_comment comment =
     (if CHR 0x0A \<in> set comment \<or> CHR 0x0D \<in> set comment then err_of ''MSL metadata comments must be single-line''
      else txt_of (''// '' @ comment @ newline))"

definition print_include :: "string \<Rightarrow> printed" where
  "print_include name =
     (if name = [] then err_of ''MSL include name cannot be empty'' else txt_of (''#include <'' @ name @ ''>'' @ newline))"

definition alias_lines :: "string \<Rightarrow> string" where
  "alias_lines scalar =
     concat (map (\<lambda>n. ''typedef '' @ scalar @ n @ '' __attribute__((may_alias)) cm_alias_'' @ scalar @ n @ '';'' @ newline)
       [[], ''2'', ''3'', ''4''])"

definition alias_scalars :: "string list" where
  "alias_scalars = [''bool'', ''char'', ''uchar'', ''short'', ''ushort'', ''int'', ''uint'', ''long'', ''ulong'', ''half'', ''float'']"

definition duplicate_declaration :: "string \<Rightarrow> printed" where
  "duplicate_declaration name = err_of (''duplicate MSL declaration: '' @ name)"

text \<open>A declaration is printed under a name that none before it has.\<close>

definition declare_name :: "string \<Rightarrow> (string \<Rightarrow> printed) \<Rightarrow> string set \<Rightarrow> printed \<times> string set" where
  "declare_name raw body names =
     (let name = sanitize_identifier raw
      in if name \<in> names then (duplicate_declaration name, names) else (body name, insert name names))"

definition print_struct :: "MslStruct \<Rightarrow> string set \<Rightarrow> printed \<times> string set" where
  "print_struct s = declare_name (ms_name s) (\<lambda>name. txt_of (''struct '' @ name @ '' {'' @ newline @
     concat (map (\<lambda>f. ''    '' @ msl_str (sf_type f) @ '' '' @ sanitize_identifier (sf_name f) @ '';'' @ newline) (ms_fields s)) @
     ''};'' @ newline @ newline))"

definition hex_byte :: "u8 \<Rightarrow> string" where
  "hex_byte b = [''0123456789abcdef'' ! (unat b div 16), ''0123456789abcdef'' ! (unat b mod 16)]"

definition print_global_byte_array :: "MslGlobalByteArray \<Rightarrow> string set \<Rightarrow> printed \<times> string set" where
  "print_global_byte_array g = declare_name (ga_name g) (\<lambda>name.
     if ga_bytes g = [] then err_of (''global byte array cannot be empty: '' @ name)
     else txt_of ((if 1 < ga_alignment g then ''alignas('' @ show_u32 (ga_alignment g) @ '') '' else []) @
       ''constant uchar '' @ name @ ''['' @ show_nat (length (ga_bytes g)) @ ''] = {'' @
       joined '', '' (map (\<lambda>b. ''0x'' @ hex_byte b) (ga_bytes g)) @ ''};'' @ newline @ newline))"

definition print_prototype :: "MslFunction \<Rightarrow> string" where
  "print_prototype f = msl_str (mf_return_type f) @ '' '' @ sanitize_identifier (mf_name f) @ ''('' @
     joined '', '' (map (\<lambda>p. msl_str (mp_type p) @ '' '' @ sanitize_identifier (mp_name p)) (mf_parameters f)) @
     '');'' @ newline"

definition print_msl_attribute :: "MslAttribute \<Rightarrow> string" where
  "print_msl_attribute a = '' [['' @ at_name a @
     (case at_index a of None \<Rightarrow> [] | Some i \<Rightarrow> ''('' @ show_u32 i @ '')'') @ '']]''"

fun print_parameters :: "string \<Rightarrow> MslParameter list \<Rightarrow> string set \<Rightarrow> printed" where
  "print_parameters fname [] names = txt_of []"
| "print_parameters fname (p # ps) names =
     (let name = sanitize_identifier (mp_name p)
      in cat [(if name \<in> names then err_of (''duplicate parameter '' @ quoted name @ '' in function '' @ quoted fname)
               else txt_of []),
           txt_of (''    '' @ msl_str (mp_type p) @ '' '' @ name @ concat (map print_msl_attribute (mp_attributes p)) @
             (if ps = [] then newline else '','' @ newline)),
           print_parameters fname ps (insert name names)])"

definition print_msl_function :: "MslFunction \<Rightarrow> string set \<Rightarrow> printed \<times> string set" where
  "print_msl_function f = declare_name (mf_name f) (\<lambda>name.
     cat [txt_of ((if mf_is_kernel f then ''kernel '' else []) @ msl_str (mf_return_type f) @ '' '' @ name @ ''('' @ newline),
       print_parameters name (mf_parameters f) {}, txt_of ('') {'' @ newline),
       cat (map (\<lambda>s. print_stmt s 1) (mf_statements f)), txt_of (''}'' @ newline @ newline)])"

fun print_all :: "('a \<Rightarrow> string set \<Rightarrow> printed \<times> string set) \<Rightarrow> 'a list \<Rightarrow> string set \<Rightarrow> printed \<times> string set" where
  "print_all f [] names = (txt_of [], names)"
| "print_all f (x # xs) names =
     (case f x names of (p, names1) \<Rightarrow> (case print_all f xs names1 of (q, names2) \<Rightarrow> (cat [p, q], names2)))"

definition print_prototypes :: "MslFunction list \<Rightarrow> printed" where
  "print_prototypes fs = txt_of (concat (map print_prototype (filter (\<lambda>f. \<not> mf_is_kernel f) fs)) @
     (if list_ex (\<lambda>f. \<not> mf_is_kernel f) fs then newline else []))"

definition print_module_text :: "MslModule \<Rightarrow> printed" where
  "print_module_text m =
     (case print_all print_struct (mm_structs m) {} of (structs, names1) \<Rightarrow>
      (case print_all print_global_byte_array (mm_global_byte_arrays m) names1 of (globals, names2) \<Rightarrow>
      (case print_all print_msl_function (mm_functions m) names2 of (functions, names3) \<Rightarrow>
        cat [cat (map print_comment (mm_comments m)), txt_of (if mm_comments m \<noteq> [] then newline else []),
          cat (map print_include (mm_includes m)), txt_of (''using namespace metal;'' @ newline @ newline),
          txt_of (concat (map alias_lines alias_scalars) @ newline),
          structs, globals, print_prototypes (mm_functions m), functions])))"

definition print_msl :: "MslModule \<Rightarrow> MslPrintResult" where
  "print_msl m = (case print_module_text m of (source, errors) \<Rightarrow>
     \<lparr>pr_ok = (errors = []), pr_source = source, pr_errors = errors\<rparr>)"

lemma msl_type_eq_iff: "msl_type_eq s t \<longleftrightarrow> s = t"
  by (induction s t rule: msl_type_eq.induct) (auto split: option.splits)

end
