(* ===== verification/MslPrint.thy ===== *)
theory MslPrint
  imports MslAst
begin

text \<open>
  What the printer of Metal source guarantees.  \<open>reads\<close> is the grammar of C++ expressions, over text:
  \<open>reads p s e\<close> says that \<open>s\<close> is the expression \<open>e\<close> at the level of precedence \<open>p\<close>, from the comma (1) to the
  primary expressions (14).  The printer puts its parentheses so that the text it prints is read as the
  tree it was given, for the trees in which no operand escapes the parentheses it needs (\<open>printable\<close>).
\<close>

section \<open>Identifiers\<close>

definition valid_identifier :: "string \<Rightarrow> bool" where
  "valid_identifier s \<longleftrightarrow> s \<noteq> [] \<and> \<not> is_digit_char (hd s) \<and> list_all identifier_char s \<and>
     s \<notin> set reserved_words \<and> take 2 s \<noteq> ''__''"

lemma reserved_prefix: "s \<in> set reserved_words \<Longrightarrow> take 3 s \<noteq> ''cm_''"
  by (auto simp: reserved_words_def)

lemma identifier_chars:
  "identifier_char CHR ''_''" "list_all identifier_char ''unnamed''" "list_all identifier_char ''cm_''"
  "\<not> is_digit_char CHR ''_''" "\<not> is_digit_char CHR ''u''" "\<not> is_digit_char CHR ''c''"
  by (simp_all add: identifier_char_def is_alnum_def is_alpha_char_def is_digit_char_def)

lemma sanitized_valid: "valid_identifier (sanitize_identifier name)"
proof -
  define a where "a = map (\<lambda>c. if identifier_char c then c else CHR ''_'') name"
  define b where "b = (if a = [] then ''unnamed'' else a)"
  define c where "c = (if is_digit_char (hd b) then CHR ''_'' # b else b)"
  have eq: "sanitize_identifier name = (if c \<in> set reserved_words \<or> take 2 c = ''__'' then ''cm_'' @ c else c)"
    by (simp only: sanitize_identifier_def Let_def a_def b_def c_def)
  have "list_all identifier_char a" by (auto simp: a_def list_all_iff identifier_chars)
  then have c: "c \<noteq> []" "list_all identifier_char c" "\<not> is_digit_char (hd c)"
    using identifier_chars by (auto simp: b_def c_def)
  have "''cm_'' @ c \<notin> set reserved_words" using reserved_prefix[of "''cm_'' @ c"] by auto
  then show ?thesis unfolding eq valid_identifier_def using c identifier_chars by auto
qed

lemma sanitize_valid: "valid_identifier s \<Longrightarrow> sanitize_identifier s = s"
proof -
  assume v: "valid_identifier s"
  then have "map (\<lambda>c. if identifier_char c then c else CHR ''_'') s = s"
    by (auto simp: valid_identifier_def list_all_iff intro!: map_idI)
  with v show ?thesis by (simp add: valid_identifier_def sanitize_identifier_def Let_def)
qed

section \<open>The grammar\<close>

text \<open>The part of a tree that the text shows.\<close>

datatype syn =
    SName string
  | SLiteral string
  | SUnary string syn
  | SBinary string syn syn
  | SCall string "syn list"
  | SInit string "syn list"
  | SIndex syn syn
  | SMember syn string
  | SCond syn syn syn

definition cast_name :: "MslType \<Rightarrow> bool \<Rightarrow> bool \<Rightarrow> string" where
  "cast_name target reinterpret bitcast =
     (if bitcast then ''as_type<'' @ msl_str target @ ''>''
      else if reinterpret then ''reinterpret_cast<'' @ may_alias_spelling target @ ''>''
      else msl_str target)"

fun syntax_of :: "MslExpr \<Rightarrow> syn" and node_syntax :: "MslNode \<Rightarrow> syn" where
  "syntax_of NullExpr = SLiteral []"
| "syntax_of (MslExpression ty node loc) = node_syntax node"
| "node_syntax (MslIdentifier name) = SName (sanitize_identifier name)"
| "node_syntax (MslLiteral spelling) = SLiteral spelling"
| "node_syntax (MslUnary op x) = SUnary op (syntax_of x)"
| "node_syntax (MslBinary op l r) = SBinary op (syntax_of l) (syntax_of r)"
| "node_syntax (MslCall callee args) = SCall (sanitize_identifier callee) (map syntax_of args)"
| "node_syntax (MslAggregateInit ty elements) = SInit (msl_str ty) (map syntax_of elements)"
| "node_syntax (MslCast target x reinterpret bitcast) = SCall (cast_name target reinterpret bitcast) [syntax_of x]"
| "node_syntax (MslSubscript base index) = SIndex (syntax_of base) (syntax_of index)"
| "node_syntax (MslMember base member_name) = SMember (syntax_of base) (sanitize_identifier member_name)"
| "node_syntax (MslConditional c t f) = SCond (syntax_of c) (syntax_of t) (syntax_of f)"
| "node_syntax (MslVoteMask vote) = SCall ''uint'' [SCall ''simd_vote::vote_t'' [syntax_of vote]]"

text \<open>A sign in front of the same sign is another token.\<close>

definition unary_ops :: "string list" where
  "unary_ops = [''!'', ''~'', ''*'', ''-'', ''+'', ''&'']"

definition joins :: "string \<Rightarrow> string \<Rightarrow> bool" where
  "joins op s \<longleftrightarrow> op \<in> set [''-'', ''+'', ''&''] \<and> s \<noteq> [] \<and> hd s = hd op"

definition literal_level :: "string \<Rightarrow> nat" where
  "literal_level s =
     (case s of [] \<Rightarrow> 0 | c # t \<Rightarrow> if is_alnum c then 14
        else if c = CHR ''-'' \<and> t \<noteq> [] \<and> is_alnum (hd t) then 13 else 0)"

inductive reads :: "nat \<Rightarrow> string \<Rightarrow> syn \<Rightarrow> bool" where
  up: "reads q s e \<Longrightarrow> p \<le> q \<Longrightarrow> reads p s e"
| parens: "reads 1 s e \<Longrightarrow> reads 14 (''('' @ s @ '')'') e"
| name: "valid_identifier x \<Longrightarrow> reads 14 x (SName x)"
| literal: "literal_level s = p \<Longrightarrow> 0 < p \<Longrightarrow> reads p s (SLiteral s)"
| unary: "op \<in> set unary_ops \<Longrightarrow> \<not> joins op s \<Longrightarrow> reads 13 s e \<Longrightarrow> reads 13 (op @ s) (SUnary op e)"
| binary: "binary_precedence op = Some p \<Longrightarrow> op \<noteq> ''='' \<Longrightarrow> reads p s e \<Longrightarrow> reads (Suc p) t f \<Longrightarrow>
    reads p (s @ '' '' @ op @ '' '' @ t) (SBinary op e f)"
| assign: "reads 3 s e \<Longrightarrow> reads 2 t f \<Longrightarrow> reads 2 (s @ '' = '' @ t) (SBinary ''='' e f)"
| conditional: "reads 3 s c \<Longrightarrow> reads 1 t e \<Longrightarrow> reads 2 u f \<Longrightarrow> reads 2 (s @ '' ? '' @ t @ '' : '' @ u) (SCond c e f)"
| call: "list_all2 (reads 2) ts es \<Longrightarrow> reads 14 (f @ ''('' @ joined '', '' ts @ '')'') (SCall f es)"
| init: "list_all2 (reads 2) ts es \<Longrightarrow> reads 14 (ty @ ''{'' @ joined '', '' ts @ ''}'') (SInit ty es)"
| index: "reads 14 s e \<Longrightarrow> reads 1 t i \<Longrightarrow> reads 14 (s @ ''['' @ t @ '']'') (SIndex e i)"
| member_of: "reads 14 s e \<Longrightarrow> reads 14 (s @ ''.'' @ m) (SMember e m)"

section \<open>Printable trees\<close>

fun is_literal_node :: "MslNode \<Rightarrow> bool" where
  "is_literal_node (MslLiteral spelling) = True"
| "is_literal_node _ = False"

definition is_literal :: "MslExpr \<Rightarrow> bool" where
  "is_literal e = (case e of NullExpr \<Rightarrow> False | MslExpression _ node _ \<Rightarrow> is_literal_node node)"

definition level_of :: "MslExpr \<Rightarrow> nat" where
  "level_of e = (case e of NullExpr \<Rightarrow> 0 | MslExpression _ node _ \<Rightarrow> precedence node)"

text \<open>
  No null pointer, operators of the language, no comma among arguments, no assignment or conditional on the
  left of an assignment or in the condition of a conditional, no sign before the same sign, and no literal
  that is indexed.
\<close>

fun printable :: "MslExpr \<Rightarrow> bool" and printable_node :: "MslNode \<Rightarrow> bool" where
  "printable NullExpr = False"
| "printable (MslExpression ty node loc) = printable_node node"
| "printable_node (MslIdentifier name) = True"
| "printable_node (MslLiteral spelling) = (0 < literal_level spelling)"
| "printable_node (MslUnary op x) =
     (printable x \<and> op \<in> set unary_ops \<and> \<not> joins op (fst (print_expression x 13)))"
| "printable_node (MslBinary op l r) =
     (printable l \<and> printable r \<and> binary_precedence op \<noteq> None \<and> (op = ''='' \<longrightarrow> 2 < level_of l))"
| "printable_node (MslCall callee args) = list_all (\<lambda>x. printable x \<and> 1 < level_of x) args"
| "printable_node (MslAggregateInit ty elements) = list_all (\<lambda>x. printable x \<and> 1 < level_of x) elements"
| "printable_node (MslCast target x reinterpret bitcast) = (printable x \<and> 1 < level_of x)"
| "printable_node (MslSubscript base index) = (printable base \<and> \<not> is_literal base \<and> printable index)"
| "printable_node (MslMember base member_name) = (printable base \<and> \<not> is_literal base)"
| "printable_node (MslConditional c t f) = (printable c \<and> printable t \<and> printable f \<and> 2 < level_of c)"
| "printable_node (MslVoteMask vote) = (printable vote \<and> 1 < level_of vote)"

lemma binary_level: "binary_precedence op = Some p \<Longrightarrow> 1 \<le> p \<and> p \<le> 12 \<and> (op = ''='' \<longleftrightarrow> p = 2)"
  by (auto simp: binary_precedence_def split: if_splits)

lemma precedence_pos: "1 \<le> precedence node \<and> precedence node \<le> 14"
  by (cases node) (auto split: option.split dest: binary_level)

section \<open>Printed trees are read back\<close>

definition node_level :: "MslNode \<Rightarrow> nat" where
  "node_level node = (case node of MslLiteral s \<Rightarrow> literal_level s | _ \<Rightarrow> precedence node)"

definition read_level :: "MslExpr \<Rightarrow> nat" where
  "read_level e = (case e of NullExpr \<Rightarrow> 0 | MslExpression _ node _ \<Rightarrow> node_level node)"

lemma literal_level_cases: "literal_level s \<in> {0, 13, 14}"
  by (auto simp: literal_level_def split: list.split)

lemma node_level_cases: "node_level node = precedence node \<or> is_literal_node node"
  by (cases node) (simp_all add: node_level_def)

lemma node_level_literal: "is_literal_node node \<Longrightarrow> printable_node node \<Longrightarrow> 13 \<le> node_level node \<and> precedence node = 14"
  by (cases node; cases "literal_level (case node of MslLiteral s \<Rightarrow> s | _ \<Rightarrow> [])")
     (use literal_level_cases[of "case node of MslLiteral s \<Rightarrow> s | _ \<Rightarrow> []"] in \<open>auto simp: node_level_def\<close>)

lemma read_level_pos: "printable e \<Longrightarrow> 1 \<le> read_level e"
proof (cases e)
  case (MslExpression ty node loc)
  then show "printable e \<Longrightarrow> 1 \<le> read_level e"
    using node_level_cases[of node] node_level_literal[of node] precedence_pos[of node] by (auto simp: read_level_def)
qed simp

lemma read_level_ge: "printable e \<Longrightarrow> q \<le> 13 \<Longrightarrow> q \<le> level_of e \<Longrightarrow> q \<le> read_level e"
proof (cases e)
  case (MslExpression ty node loc)
  then show "printable e \<Longrightarrow> q \<le> 13 \<Longrightarrow> q \<le> level_of e \<Longrightarrow> q \<le> read_level e"
    using node_level_cases[of node] node_level_literal[of node] by (auto simp: read_level_def level_of_def)
qed simp

lemma read_level_14: "printable e \<Longrightarrow> \<not> is_literal e \<Longrightarrow> read_level e = level_of e"
  using node_level_cases by (cases e) (auto simp: read_level_def level_of_def is_literal_def)

text \<open>What is known of a printed operand, in the forms the nodes need.\<close>

definition printed_ok :: "MslExpr \<Rightarrow> nat \<Rightarrow> bool" where
  "printed_ok e q \<longleftrightarrow> snd (print_expression e q) = [] \<and>
     reads (if level_of e < q then 14 else read_level e) (fst (print_expression e q)) (syntax_of e)"

lemma printed_at:
  assumes "printed_ok e q" "printable e" "p \<le> q \<or> p \<le> level_of e" "p \<le> 13 \<or> \<not> is_literal e" "p \<le> 14"
  shows "reads p (fst (print_expression e q)) (syntax_of e)"
proof -
  have "p \<le> (if level_of e < q then 14 else read_level e)"
    using assms(2-5) read_level_ge[of e p] read_level_14[of e] by (cases "p \<le> 13") auto
  with assms(1) show ?thesis by (auto simp: printed_ok_def intro: reads.up)
qed

lemmas print_defs = cat_def txt_of_def separated_def

lemmas read_rules = reads.call[simplified] reads.init[simplified] reads.index[simplified] reads.member_of[simplified]

lemma arguments_read:
  assumes "\<forall>x\<in>set xs. printed_ok x 0 \<and> printable x \<and> 1 < level_of x"
  shows "list_all2 (reads 2) (map (\<lambda>x. fst (print_expression x 0)) xs) (map syntax_of xs)"
    "concat (map (\<lambda>x. snd (print_expression x 0)) xs) = []"
  using assms by (auto simp: list.rel_map printed_ok_def intro!: list.rel_refl_strong printed_at)

lemma argument_read:
  "printed_ok x 0 \<Longrightarrow> printable x \<Longrightarrow> 1 < level_of x \<Longrightarrow>
     reads 14 (f @ ''('' @ fst (print_expression x 0) @ '')'') (SCall f [syntax_of x])"
  using reads.call[of "[fst (print_expression x 0)]" "[syntax_of x]" f] by (simp add: printed_at)

definition node_ok :: "MslNode \<Rightarrow> bool" where
  "node_ok node \<longleftrightarrow> snd (print_node node (precedence node)) = [] \<and>
     reads (node_level node) (fst (print_node node (precedence node))) (node_syntax node)"

lemma expression_ok:
  assumes "node_ok node" "printable_node node"
  shows "printed_ok (MslExpression ty node loc) q"
proof -
  have "reads 1 (fst (print_node node (precedence node))) (node_syntax node)"
    using assms read_level_pos[of "MslExpression ty node loc"] by (auto simp: node_ok_def read_level_def intro: reads.up)
  from reads.parens[OF this] show ?thesis
    using assms(1) by (simp add: printed_ok_def node_ok_def level_of_def read_level_def print_defs)
qed

lemma unary_ok: "printed_ok x 13 \<Longrightarrow> printable_node (MslUnary op x) \<Longrightarrow> node_ok (MslUnary op x)"
  using printed_at[of x 13 13] by (simp add: node_ok_def node_level_def print_defs printed_ok_def reads.unary)

lemma binary_ok:
  assumes "printed_ok l (precedence (MslBinary op l r))" "printed_ok r (Suc (precedence (MslBinary op l r)))"
    "printable_node (MslBinary op l r)"
  shows "node_ok (MslBinary op l r)"
proof -
  obtain p where p: "binary_precedence op = Some p" using assms(3) by auto
  let ?s = "fst (print_expression l p)" and ?t = "fst (print_expression r (Suc p))"
  have "reads p (?s @ '' '' @ op @ '' '' @ ?t) (SBinary op (syntax_of l) (syntax_of r))"
  proof (cases "op = ''=''")
    case True
    then have "p = 2" using binary_level[OF p] by simp
    moreover have "reads 3 (fst (print_expression l 2)) (syntax_of l)"
      using assms p True \<open>p = 2\<close> by (intro printed_at) auto
    moreover have "reads 2 (fst (print_expression r 3)) (syntax_of r)"
      using assms p \<open>p = 2\<close> by (intro printed_at) auto
    ultimately show ?thesis using reads.assign True by simp
  next
    case False
    have "reads p ?s (syntax_of l)" "reads (Suc p) ?t (syntax_of r)"
      using assms p binary_level[OF p] by (auto intro!: printed_at)
    from reads.binary[OF p False this] show ?thesis .
  qed
  then show ?thesis using assms p by (simp add: node_ok_def node_level_def print_defs printed_ok_def)
qed

lemma conditional_ok:
  assumes "printed_ok c 2" "printed_ok t 2" "printed_ok f 2" "printable_node (MslConditional c t f)"
  shows "node_ok (MslConditional c t f)"
proof -
  have "reads 3 (fst (print_expression c 2)) (syntax_of c)" "reads 1 (fst (print_expression t 2)) (syntax_of t)"
    "reads 2 (fst (print_expression f 2)) (syntax_of f)"
    using assms by (auto intro!: printed_at)
  from reads.conditional[OF this] show ?thesis using assms by (simp add: node_ok_def node_level_def print_defs printed_ok_def)
qed

lemma subscript_ok:
  assumes "printed_ok base 14" "printed_ok index 0" "printable_node (MslSubscript base index)"
  shows "node_ok (MslSubscript base index)"
proof -
  have "reads 14 (fst (print_expression base 14)) (syntax_of base)" using assms by (auto intro!: printed_at)
  moreover have "reads 1 (fst (print_expression index 0)) (syntax_of index)"
    using assms read_level_pos[of index] by (auto simp: printed_ok_def intro: reads.up)
  ultimately show ?thesis using assms by (simp add: node_ok_def node_level_def print_defs printed_ok_def read_rules)
qed

lemma member_ok: "printed_ok base 14 \<Longrightarrow> printable_node (MslMember base m) \<Longrightarrow> node_ok (MslMember base m)"
  using printed_at[of base 14 14] by (simp add: node_ok_def node_level_def print_defs printed_ok_def read_rules)

lemma cast_ok:
  assumes "printed_ok x 0" "printable_node (MslCast target x reinterpret bitcast)"
  shows "node_ok (MslCast target x reinterpret bitcast)"
proof -
  have r: "reads 13 (f @ CHR ''('' # fst (print_expression x 0) @ '')'') (SCall f [syntax_of x])" for f
    using reads.up[OF argument_read[of x f], of 13] assms by simp
  show ?thesis using assms r[of "cast_name target reinterpret bitcast"]
    by (cases reinterpret; cases bitcast) (simp_all add: node_ok_def node_level_def print_defs printed_ok_def cast_name_def)
qed

lemma vote_ok:
  assumes "printed_ok x 0" "printable_node (MslVoteMask x)"
  shows "node_ok (MslVoteMask x)"
proof -
  have "reads 2 (''simd_vote::vote_t('' @ fst (print_expression x 0) @ '')'') (SCall ''simd_vote::vote_t'' [syntax_of x])"
    using reads.up[OF argument_read[of x "''simd_vote::vote_t''"], of 2] assms by simp
  from reads.call[of "[_]" "[_]" "''uint''", simplified, OF this] show ?thesis
    using assms by (simp add: node_ok_def node_level_def print_defs printed_ok_def)
qed

lemma print_nodes: "printable e \<Longrightarrow> printed_ok e q" "printable_node node \<Longrightarrow> node_ok node"
proof (induction e and node arbitrary: q and)
  case (MslExpression ty node loc)
  then show ?case using expression_ok by simp
next
  case (MslIdentifier name)
  then show ?case by (simp add: node_ok_def node_level_def print_defs reads.name sanitized_valid)
next
  case (MslLiteral spelling)
  then show ?case by (simp add: node_ok_def node_level_def print_defs reads.literal)
next
  case (MslCall callee args)
  then have "\<forall>x\<in>set args. printed_ok x 0 \<and> printable x \<and> 1 < level_of x" by (simp add: list_all_iff)
  from arguments_read[OF this] show ?case
    by (simp add: node_ok_def node_level_def print_defs comp_def read_rules del: concat_eq_Nil_conv)
next
  case (MslAggregateInit ty elements)
  then have "\<forall>x\<in>set elements. printed_ok x 0 \<and> printable x \<and> 1 < level_of x" by (simp add: list_all_iff)
  from arguments_read[OF this] show ?case
    by (simp add: node_ok_def node_level_def print_defs comp_def read_rules del: concat_eq_Nil_conv)
qed (auto intro: unary_ok binary_ok conditional_ok subscript_ok member_ok cast_ok vote_ok)

text \<open>
  C39: Printed Metal expressions are read back as the tree they came from.  Take a tree with known operators and
  without null nodes, in which no comma expression is an argument, no assignment or conditional stands on the left of an
  assignment or in the condition of a conditional, no sign comes before the same sign, and no literal is indexed or has
  members (literals are told by their first character: a letter or digit, or a minus sign before one).  The printer
  reports no error for it, and the precedence grammar of C++ expressions reads the text as that tree, at the level of
  precedence the context asked for: parentheses are there wherever they are needed.
\<close>

theorem print_expression_reads:
  assumes "printable e" "q \<le> 14" "is_literal e \<Longrightarrow> q \<le> 13"
  shows "snd (print_expression e q) = [] \<and> reads (max 1 q) (fst (print_expression e q)) (syntax_of e)"
proof -
  note ok = print_nodes(1)[OF assms(1), of q]
  have "reads (max 1 q) (fst (print_expression e q)) (syntax_of e)"
  proof (cases "q = 0")
    case True
    then show ?thesis using ok read_level_pos[OF assms(1)] by (auto simp: printed_ok_def intro: reads.up)
  next
    case False
    then show ?thesis using assms(2,3) by (auto simp: max_def intro!: printed_at[OF ok assms(1)])
  qed
  then show ?thesis using ok by (simp add: printed_ok_def)
qed

text \<open>A difference whose right operand is a difference, under the sign that its left operand shows.\<close>

definition sample_expression :: MslExpr where
  "sample_expression = (let i = (\<lambda>n. msl_identifier n (msl_floating 32)) in
     msl_unary ''-'' (msl_binary ''-'' (i ''a'') (msl_binary ''-'' (i ''b'') (i ''int'') (msl_floating 32))
       (msl_floating 32)) (msl_floating 32))"

lemmas msl_makers = mk_expression_def msl_identifier_def msl_literal_def msl_unary_def msl_binary_def msl_conditional_def

lemma sample_names: "sanitize_identifier ''a'' = ''a''" "sanitize_identifier ''b'' = ''b''"
  "sanitize_identifier ''int'' = ''cm_int''" "sanitize_identifier ''c'' = ''c''" "sanitize_identifier ''d'' = ''d''"
  "sanitize_identifier ''e'' = ''e''"
  by (simp_all add: sanitize_identifier_def identifier_char_def is_alnum_def is_alpha_char_def is_digit_char_def
      Let_def reserved_words_def)

theorem print_expression_reads_witness:
  "fst (print_expression sample_expression 0) = ''-(a - (b - cm_int))'' \<and>
   reads 1 ''-(a - (b - cm_int))'' (SUnary ''-'' (SBinary ''-'' (SName ''a'')
     (SBinary ''-'' (SName ''b'') (SName ''cm_int''))))"
  using print_expression_reads[of sample_expression 0]
  by (simp add: sample_expression_def msl_makers print_defs binary_precedence_def sample_names joins_def unary_ops_def Let_def)

text \<open>
  Outside of these trees the text is that of another tree, or of none: a conditional in the condition of a
  conditional, an assignment on the left of an assignment, a comma among arguments, and a sign before the
  same sign lose the parentheses they need.
\<close>

lemma conditional_condition_printed:
  "print_expression (msl_conditional (msl_conditional a b c ta) d e tb) 0 =
   print_expression (msl_conditional a b (msl_conditional c d e tb) ta) 0"
  by (simp add: msl_makers print_defs)

lemma assignment_target_printed:
  "print_expression (msl_binary ''='' (msl_binary ''='' (msl_identifier ''a'' t) (msl_identifier ''b'' t) t) (msl_identifier ''c'' t) t) 0 =
   (''a = b = c'', [])"
  by (simp add: msl_makers print_defs binary_precedence_def sample_names)

lemma comma_argument_printed:
  "fst (print_expression (msl_call ''c'' [msl_binary '','' (msl_identifier ''a'' t) (msl_identifier ''b'' t) t] t) 0) = ''c(a , b)''"
  by (simp add: msl_makers msl_call_def print_defs binary_precedence_def sample_names)

lemma negation_printed:
  "fst (print_expression (msl_unary ''-'' (msl_unary ''-'' (msl_identifier ''a'' t) t) t) 0) = ''--a''"
  by (simp add: msl_makers print_defs sample_names)

section \<open>Modules that print\<close>

fun complete_expression :: "MslExpr \<Rightarrow> bool" and complete_node :: "MslNode \<Rightarrow> bool" where
  "complete_expression NullExpr = False"
| "complete_expression (MslExpression ty node loc) = complete_node node"
| "complete_node (MslUnary op x) = complete_expression x"
| "complete_node (MslBinary op l r) = (complete_expression l \<and> complete_expression r)"
| "complete_node (MslCall callee args) = list_all complete_expression args"
| "complete_node (MslAggregateInit ty elements) = list_all complete_expression elements"
| "complete_node (MslCast target x reinterpret bitcast) = complete_expression x"
| "complete_node (MslSubscript base index) = (complete_expression base \<and> complete_expression index)"
| "complete_node (MslMember base member_name) = complete_expression base"
| "complete_node (MslConditional c t f) = (complete_expression c \<and> complete_expression t \<and> complete_expression f)"
| "complete_node (MslVoteMask vote) = complete_expression vote"
| "complete_node _ = True"

definition complete_option :: "MslExpr option \<Rightarrow> bool" where
  "complete_option x = (case x of None \<Rightarrow> True | Some e \<Rightarrow> complete_expression e)"

fun complete_stmt :: "MslStmt \<Rightarrow> bool" and complete_stmt_node :: "MslStmtNode \<Rightarrow> bool"
and complete_case :: "MslSwitchCase \<Rightarrow> bool" where
  "complete_stmt NullStmt = False"
| "complete_stmt (MslStatement node loc) = complete_stmt_node node"
| "complete_stmt_node (MslVariableDeclaration ty name initializer is_const) = complete_option initializer"
| "complete_stmt_node (MslAssignment target val) = (complete_expression target \<and> complete_expression val)"
| "complete_stmt_node (MslExpressionStatement e) = complete_expression e"
| "complete_stmt_node (MslIf c ts es) = (complete_expression c \<and> list_all complete_stmt ts \<and> list_all complete_stmt es)"
| "complete_stmt_node (MslWhile c ss) = (complete_expression c \<and> list_all complete_stmt ss)"
| "complete_stmt_node (MslSwitch selector cases) = (complete_expression selector \<and> list_all complete_case cases)"
| "complete_stmt_node (MslReturn val) = complete_option val"
| "complete_stmt_node _ = True"
| "complete_case (MslSwitchCase val ss) = (complete_expression val \<and> list_all complete_stmt ss)"

lemma complete_expression_errors:
  "snd (print_expression e q) = [] \<longleftrightarrow> complete_expression e" "snd (print_node node q) = [] \<longleftrightarrow> complete_node node"
  by (induction e and node arbitrary: q and q) (auto simp: print_defs list_all_iff)

lemma complete_option_errors:
  "(case x of None \<Rightarrow> [] | Some e \<Rightarrow> snd (print_expression e q)) = [] \<longleftrightarrow> complete_option x"
  by (simp add: complete_option_def complete_expression_errors split: option.split)

lemma complete_stmt_errors:
  "snd (print_stmt st d) = [] \<longleftrightarrow> complete_stmt st" "snd (print_stmt_node sn d) = [] \<longleftrightarrow> complete_stmt_node sn"
  "snd (print_case sc d) = [] \<longleftrightarrow> complete_case sc"
  by (induction st and sn and sc arbitrary: d and d and d)
     (auto simp: print_defs line_def err_of_def list_all_iff complete_expression_errors complete_option_def split: option.splits)

lemma fresh_names:
  "(\<forall>x\<in>A. g x \<noteq> b \<and> g x \<notin> N \<and> Q x) \<longleftrightarrow> b \<notin> g ` A \<and> (\<forall>x\<in>A. g x \<notin> N \<and> Q x)"
  "(\<forall>x\<in>A. g x \<noteq> b \<and> g x \<notin> N) \<longleftrightarrow> b \<notin> g ` A \<and> (\<forall>x\<in>A. g x \<notin> N)"
  by (force simp: image_iff)+

lemma parameter_errors:
  "snd (print_parameters fname ps names) = [] \<longleftrightarrow>
     distinct (map (\<lambda>p. sanitize_identifier (mp_name p)) ps) \<and>
     (\<forall>p\<in>set ps. sanitize_identifier (mp_name p) \<notin> names)"
  by (induction ps arbitrary: names) (auto simp: print_defs err_of_def Let_def fresh_names)

lemma print_all_declares:
  assumes "\<And>x. f x = declare_name (nm x) (body x)"
  shows "snd (print_all f xs names) = names \<union> (\<lambda>x. sanitize_identifier (nm x)) ` set xs"
    "snd (fst (print_all f xs names)) = [] \<longleftrightarrow> distinct (map (\<lambda>x. sanitize_identifier (nm x)) xs) \<and>
       (\<forall>x\<in>set xs. sanitize_identifier (nm x) \<notin> names \<and> snd (body x (sanitize_identifier (nm x))) = [])"
  by (induction xs arbitrary: names)
     (auto simp: assms declare_name_def duplicate_declaration_def err_of_def Let_def cat_def txt_of_def case_prod_beta fresh_names)

definition function_prints :: "MslFunction \<Rightarrow> bool" where
  "function_prints f \<longleftrightarrow> distinct (map (\<lambda>p. sanitize_identifier (mp_name p)) (mf_parameters f)) \<and>
     list_all complete_stmt (mf_statements f)"

text \<open>
  C40: The printer of Metal source reports success for exactly the modules it should.  Every comment is one
  line and every include has a name, no global array is empty, no expression or statement is missing, and
  after the names have been made into identifiers no two declarations of the module share one, and no two
  parameters of a function.
\<close>

theorem print_msl_ok_iff:
  "pr_ok (print_msl m) \<longleftrightarrow>
     (\<forall>c\<in>set (mm_comments m). CHR 0x0A \<notin> set c \<and> CHR 0x0D \<notin> set c) \<and> [] \<notin> set (mm_includes m) \<and>
     (\<forall>g\<in>set (mm_global_byte_arrays m). ga_bytes g \<noteq> []) \<and> (\<forall>f\<in>set (mm_functions m). function_prints f) \<and>
     distinct (map sanitize_identifier (map ms_name (mm_structs m) @ map ga_name (mm_global_byte_arrays m) @
       map mf_name (mm_functions m)))"
proof -
  note structs = print_all_declares[of print_struct ms_name, OF print_struct_def]
  note globals = print_all_declares[of print_global_byte_array ga_name, OF print_global_byte_array_def]
  note funs = print_all_declares[of print_msl_function mf_name, OF print_msl_function_def]
  have c: "snd (cat (map print_comment cs)) = [] \<longleftrightarrow> (\<forall>c\<in>set cs. CHR 0x0A \<notin> set c \<and> CHR 0x0D \<notin> set c)" for cs
    by (auto simp: cat_def print_comment_def err_of_def txt_of_def)
  have i: "snd (cat (map print_include is)) = [] \<longleftrightarrow> [] \<notin> set is" for "is"
    by (auto simp: cat_def print_include_def err_of_def txt_of_def)
  have ok: "pr_ok (print_msl m) \<longleftrightarrow> snd (print_module_text m) = []"
    by (simp add: print_msl_def split: prod.split)
  have parts: "snd (print_module_text m) = [] \<longleftrightarrow>
     snd (cat (map print_comment (mm_comments m))) = [] \<and> snd (cat (map print_include (mm_includes m))) = [] \<and>
     snd (fst (print_all print_struct (mm_structs m) {})) = [] \<and>
     snd (fst (print_all print_global_byte_array (mm_global_byte_arrays m) (snd (print_all print_struct (mm_structs m) {})))) = [] \<and>
     snd (fst (print_all print_msl_function (mm_functions m) (snd (print_all print_global_byte_array (mm_global_byte_arrays m)
       (snd (print_all print_struct (mm_structs m) {})))))) = []"
    by (auto simp: print_module_text_def print_prototypes_def cat_def txt_of_def split: prod.split)
  show ?thesis unfolding ok parts c i
    by (auto simp: structs globals funs function_prints_def parameter_errors complete_stmt_errors print_defs err_of_def
        list_all_iff comp_def) (metis imageI)+
qed

text \<open>A module of two functions; with the second called \<open>int\<close> its name is made that of the first.\<close>

definition sample_module :: "string \<Rightarrow> MslModule" where
  "sample_module name = (let f = (\<lambda>n. \<lparr>mf_name = n, mf_return_type = msl_void_type, mf_is_kernel = True, mf_parameters = [],
       mf_statements = [msl_return_statement None]\<rparr>) in
     \<lparr>mm_language_major = 3, mm_language_minor = 1, mm_comments = [''a''], mm_includes = [''b''], mm_structs = [],
      mm_global_byte_arrays = [], mm_functions = [f ''cm_int'', f name]\<rparr>)"

theorem print_msl_ok_iff_witness: "pr_ok (print_msl (sample_module ''a'')) \<and> \<not> pr_ok (print_msl (sample_module ''int''))"
proof -
  have n: "sanitize_identifier ''cm_int'' = ''cm_int''"
    by (simp add: sanitize_identifier_def identifier_char_def is_alnum_def is_alpha_char_def is_digit_char_def Let_def reserved_words_def)
  show ?thesis
    by (simp add: print_msl_ok_iff sample_module_def function_prints_def msl_return_statement_def mk_statement_def
        sample_names n Let_def complete_option_def)
qed

end
