(* ===== verification/NvrtcOptions.thy ===== *)
theory NvrtcOptions
  imports PtxText
begin

text \<open>
  The options of the runtime compiler, \<open>runtime/rt/nvrtc_options.cpp\<close>: the options of a stock caller
  are translated to arguments of the compiler driver, dropped with a note, or reported as unknown.
\<close>

section \<open>Translation\<close>

record TranslatedOptions =
  to_compiler_args :: "string list"
  to_ignored :: "string list"
  to_unrecognized :: "string list"
  to_ptx_requested :: bool
  to_arch :: string

definition after :: "string \<Rightarrow> string \<Rightarrow> string" where
  "after val pre = drop (length pre) val"

definition macro_name :: "string \<Rightarrow> string" where
  "macro_name d = takeWhile (\<lambda>c. c \<noteq> CHR ''='') d"

definition strip_arch_suffix :: "string \<Rightarrow> string" where
  "strip_arch_suffix arch = rev (dropWhile (\<lambda>c. c = CHR ''a'' \<or> c = CHR ''f'') (rev arch))"

definition ignorable_exact :: "string list" where
  "ignorable_exact = [''--extra-device-vectorization'', ''-extra-device-vectorization'', ''--restrict'', ''-restrict'',
     ''--generate-line-info'', ''-lineinfo'', ''--device-debug'', ''-G'', ''--dopt=on'', ''-dopt=on'',
     ''--relocatable-device-code=true'', ''--relocatable-device-code=false'', ''-rdc=true'', ''-rdc=false'', ''-dlto'',
     ''--dlto'', ''--device-int128'', ''--builtin-move-forward=true'', ''--builtin-move-forward=false'',
     ''--builtin-initializer-list=true'', ''--builtin-initializer-list=false'', ''-pch'', ''--pch'', ''--pch-create'',
     ''--pch-use'', ''--split-compile=0'', ''--minimal'', ''-minimal'']"

definition ignorable_prefixes :: "string list" where
  "ignorable_prefixes = [''--diag-suppress='', ''-diag-suppress='', ''--diag-error='', ''--diag-warn='', ''--ftz='', ''-ftz='',
     ''--prec-div='', ''-prec-div='', ''--prec-sqrt='', ''-prec-sqrt='', ''--maxrregcount='', ''-maxrregcount='',
     ''--Ofast-compile='', ''-Ofast-compile='', ''--pch-dir='', ''--pch-create='', ''--pch-use='',
     ''--fdevice-time-trace='', ''--split-compile='', ''--optimization-info='', ''--gen-opt-lto'']"

definition is_ignorable :: "string \<Rightarrow> bool" where
  "is_ignorable opt \<longleftrightarrow> opt \<in> set ignorable_exact \<or> starts_with_any opt ignorable_prefixes"

record OptionState =
  os_result :: TranslatedOptions
  os_include_dirs :: "string list"
  os_defines :: "string list"
  os_arch_seen :: bool

definition initial_options :: OptionState where
  "initial_options = \<lparr>os_result = \<lparr>to_compiler_args = [], to_ignored = [], to_unrecognized = [],
     to_ptx_requested = False, to_arch = ''sm_80''\<rparr>, os_include_dirs = [], os_defines = [''__CUDACC_RTC__=1''],
     os_arch_seen = False\<rparr>"

definition remove_define :: "string \<Rightarrow> OptionState \<Rightarrow> OptionState" where
  "remove_define name st = st\<lparr>os_defines := filter (\<lambda>d. macro_name d \<noteq> name) (os_defines st)\<rparr>"

text \<open>The architecture; \<open>None\<close> is a name the code does not know.\<close>

definition set_arch :: "string \<Rightarrow> OptionState \<Rightarrow> OptionState option" where
  "set_arch val st =
     (if starts_with val ''compute_''
      then Some (st\<lparr>os_result := (os_result st)\<lparr>to_ptx_requested := True,
             to_arch := ''sm_'' @ strip_arch_suffix (after val ''compute_'')\<rparr>, os_arch_seen := True\<rparr>)
      else if starts_with val ''sm_''
      then Some (st\<lparr>os_result := (os_result st)\<lparr>to_ptx_requested := False,
             to_arch := ''sm_'' @ strip_arch_suffix (after val ''sm_'')\<rparr>, os_arch_seen := True\<rparr>)
      else None)"

text \<open>The value of an option, joined or the next argument, and the arguments that are left.\<close>

definition value_of :: "string \<Rightarrow> string \<Rightarrow> string \<Rightarrow> string list \<Rightarrow> (string \<times> string list) option" where
  "value_of long short opt rest =
     (if starts_with opt long then Some (after opt long, rest)
      else if opt = short then (case rest of [] \<Rightarrow> None | v # vs \<Rightarrow> Some (v, vs))
      else if starts_with opt short then Some (after opt short, rest)
      else None)"

definition unrecognized_option :: "string \<Rightarrow> OptionState \<Rightarrow> OptionState" where
  "unrecognized_option opt st =
     st\<lparr>os_result := (os_result st)\<lparr>to_unrecognized := to_unrecognized (os_result st) @ [opt]\<rparr>\<rparr>"

definition pass_args :: "string list \<Rightarrow> OptionState \<Rightarrow> OptionState" where
  "pass_args args st = st\<lparr>os_result := (os_result st)\<lparr>to_compiler_args := to_compiler_args (os_result st) @ args\<rparr>\<rparr>"

definition arch_option :: "string \<Rightarrow> string \<Rightarrow> OptionState \<Rightarrow> OptionState" where
  "arch_option opt val st = (case set_arch val st of None \<Rightarrow> unrecognized_option opt st | Some st' \<Rightarrow> st')"

text \<open>The options without a value, and those that nothing matched.\<close>

definition flag_option :: "string \<Rightarrow> OptionState \<Rightarrow> OptionState" where
  "flag_option opt st =
     (if is_ignorable opt
      then st\<lparr>os_result := (os_result st)\<lparr>to_ignored := to_ignored (os_result st) @ [opt]\<rparr>\<rparr>
      else unrecognized_option opt st)"

definition late_option :: "string \<Rightarrow> string list \<Rightarrow> OptionState \<Rightarrow> OptionState \<times> string list" where
  "late_option opt rest st =
     (case value_of ''--std='' ''-std='' opt rest of
        Some (v, rest') \<Rightarrow> (pass_args [''-std='' @ (if v = ''c++03'' then ''c++11'' else v)] st, rest')
      | None \<Rightarrow>
        if opt = ''--device-as-default-execution-space'' \<or> opt = ''-default-device''
        then (pass_args [''--device-as-default-execution-space''] st, rest)
        else if opt = ''--use_fast_math'' \<or> opt = ''-use_fast_math'' then (pass_args [''--use_fast_math''] st, rest)
        else case value_of ''--fmad='' ''-fmad='' opt rest of
          Some (v, rest') \<Rightarrow> (pass_args [''--fmad='' @ v] st, rest')
        | None \<Rightarrow>
            (case value_of ''--pre-include='' ''-include'' opt rest of
               Some (v, rest') \<Rightarrow> (if v \<noteq> [] then pass_args [''--cuda-include'', v] st else st, rest')
             | None \<Rightarrow> (flag_option opt st, rest)))"

definition translate_option :: "string \<Rightarrow> string list \<Rightarrow> OptionState \<Rightarrow> OptionState \<times> string list" where
  "translate_option opt rest st =
     (case value_of ''--include-path='' ''-I'' opt rest of
        Some (v, rest') \<Rightarrow> (if v \<noteq> [] then st\<lparr>os_include_dirs := os_include_dirs st @ [v]\<rparr> else st, rest')
      | None \<Rightarrow>
        case value_of ''--define-macro='' ''-D'' opt rest of
          Some (v, rest') \<Rightarrow> (if v \<noteq> [] then st\<lparr>os_defines := os_defines st @ [v]\<rparr> else st, rest')
        | None \<Rightarrow>
          case value_of ''--undefine-macro='' ''-U'' opt rest of
            Some (v, rest') \<Rightarrow> (if v \<noteq> [] then remove_define (macro_name v) st else st, rest')
          | None \<Rightarrow>
            case value_of ''--gpu-architecture='' ''-arch='' opt rest of
              Some (v, rest') \<Rightarrow> (arch_option opt v st, rest')
            | None \<Rightarrow>
              if opt = ''--gpu-architecture'' \<or> opt = ''-arch''
              then (case rest of
                      [] \<Rightarrow> (unrecognized_option opt st, [])
                    | v # rest' \<Rightarrow> (arch_option opt v st, rest'))
              else late_option opt rest st)"

lemma value_of_rest: "value_of long short opt rest = Some (v, rest') \<Longrightarrow> length rest' \<le> length rest"
  unfolding value_of_def by (auto split: if_splits list.splits)

lemma value_of_snd: "value_of long short opt rest = Some x \<Longrightarrow> length (snd x) \<le> length rest"
  by (cases x) (simp add: value_of_rest)

lemma late_option_rest: "length (snd (late_option opt rest st)) \<le> length rest"
  unfolding late_option_def
  by (cases "value_of ''--std='' ''-std='' opt rest"; cases "value_of ''--fmad='' ''-fmad='' opt rest";
      cases "value_of ''--pre-include='' ''-include'' opt rest") (simp_all add: case_prod_beta value_of_snd)

lemma translate_option_rest: "length (snd (translate_option opt rest st)) \<le> length rest"
  unfolding translate_option_def
  by (cases "value_of ''--include-path='' ''-I'' opt rest"; cases "value_of ''--define-macro='' ''-D'' opt rest";
      cases "value_of ''--undefine-macro='' ''-U'' opt rest"; cases "value_of ''--gpu-architecture='' ''-arch='' opt rest")
     (simp_all add: late_option_rest case_prod_beta value_of_snd split: list.split)

function translate_loop :: "string list \<Rightarrow> OptionState \<Rightarrow> OptionState" where
  "translate_loop [] st = st"
| "translate_loop (opt # rest) st =
     (if opt = [] then translate_loop rest st
      else translate_loop (snd (translate_option opt rest st)) (fst (translate_option opt rest st)))"
  by pat_completeness auto

termination
  by (relation "measure (\<lambda>(opts, st). length opts)") (simp_all add: le_imp_less_Suc translate_option_rest)

definition finish_options :: "OptionState \<Rightarrow> TranslatedOptions" where
  "finish_options st =
     (let r = (if os_arch_seen st then os_result st else (os_result st)\<lparr>to_arch := ''sm_80''\<rparr>)
      in r\<lparr>to_compiler_args := [''--cuda-arch'', to_arch r, ''--clang-arg=-Wno-macro-redefined''] @
             concat (map (\<lambda>d. [''-I'', d]) (os_include_dirs st)) @ concat (map (\<lambda>d. [''-D'', d]) (os_defines st)) @
             to_compiler_args r\<rparr>)"

definition translate_options :: "string list \<Rightarrow> TranslatedOptions" where
  "translate_options options = finish_options (translate_loop options initial_options)"

section \<open>Options one after the other\<close>

text \<open>An option that takes the next argument as its value, and a list that ends in such an option.\<close>

definition awaits_value :: "string \<Rightarrow> bool" where
  "awaits_value opt \<longleftrightarrow> opt \<in> set [''-I'', ''-D'', ''-U'', ''-arch='', ''--gpu-architecture'', ''-arch'', ''-std='', ''-fmad='',
     ''-include'']"

fun ends_open :: "string list \<Rightarrow> bool" where
  "ends_open [] = False"
| "ends_open [opt] = awaits_value opt"
| "ends_open (opt # v # rest) = (if awaits_value opt then ends_open rest else ends_open (v # rest))"

lemma value_of_append:
  "rest \<noteq> [] \<or> opt \<noteq> short \<Longrightarrow> value_of long short opt (rest @ ys) =
     map_option (\<lambda>(v, rest'). (v, rest' @ ys)) (value_of long short opt rest)"
  unfolding value_of_def by (cases rest) auto

lemma late_option_append:
  "rest \<noteq> [] \<or> \<not> awaits_value opt \<Longrightarrow>
     late_option opt (rest @ ys) st = apsnd (\<lambda>r. r @ ys) (late_option opt rest st)"
  unfolding late_option_def awaits_value_def by (auto simp: value_of_append split: option.split)

lemma translate_option_append:
  assumes "rest \<noteq> [] \<or> \<not> awaits_value opt"
  shows "translate_option opt (rest @ ys) st = apsnd (\<lambda>r. r @ ys) (translate_option opt rest st)"
proof -
  have v: "value_of long s opt (rest @ ys) = map_option (\<lambda>(v, rest'). (v, rest' @ ys)) (value_of long s opt rest)"
    if "awaits_value s" for long s
    by (rule value_of_append) (use assms that in auto)
  note vs = v[of "''-I''"] v[of "''-D''"] v[of "''-U''"] v[of "''-arch=''"]
  have d: "\<exists>w r. rest = w # r" if "opt = ''--gpu-architecture'' \<or> opt = ''-arch''"
    using assms that by (cases rest) (auto simp: awaits_value_def)
  have aw: "awaits_value ''-I''" "awaits_value ''-D''" "awaits_value ''-U''" "awaits_value ''-arch=''"
    by (simp_all add: awaits_value_def)
  show ?thesis
    unfolding translate_option_def late_option_append[OF assms] vs(1)[OF aw(1)] vs(2)[OF aw(2)] vs(3)[OF aw(3)] vs(4)[OF aw(4)]
    by (cases "value_of ''--include-path='' ''-I'' opt rest"; cases "value_of ''--define-macro='' ''-D'' opt rest";
        cases "value_of ''--undefine-macro='' ''-U'' opt rest"; cases "value_of ''--gpu-architecture='' ''-arch='' opt rest")
       (use d in \<open>auto simp: case_prod_beta\<close>)
qed

text \<open>An option consumes the next argument when it awaits a value, and nothing otherwise.\<close>

lemma value_of_takes: "value_of long short opt rest = Some (v, rest') \<Longrightarrow> opt \<noteq> short \<Longrightarrow> rest' = rest"
  unfolding value_of_def by (auto split: if_splits)

lemma value_of_snd_eq: "value_of long short opt rest = Some x \<Longrightarrow> opt \<noteq> short \<Longrightarrow> snd x = rest"
  by (cases x) (simp add: value_of_takes)

lemma late_option_takes_none: "\<not> awaits_value opt \<Longrightarrow> snd (late_option opt rest st) = rest"
  unfolding late_option_def awaits_value_def
  by (cases "value_of ''--std='' ''-std='' opt rest"; cases "value_of ''--fmad='' ''-fmad='' opt rest";
      cases "value_of ''--pre-include='' ''-include'' opt rest") (simp_all add: case_prod_beta value_of_snd_eq)

lemma translate_option_takes_none: "\<not> awaits_value opt \<Longrightarrow> snd (translate_option opt rest st) = rest"
  using late_option_takes_none[of opt rest st]
  unfolding translate_option_def awaits_value_def
  by (cases "value_of ''--include-path='' ''-I'' opt rest"; cases "value_of ''--define-macro='' ''-D'' opt rest";
      cases "value_of ''--undefine-macro='' ''-U'' opt rest"; cases "value_of ''--gpu-architecture='' ''-arch='' opt rest")
     (simp_all add: case_prod_beta value_of_snd_eq)

lemma translate_option_takes_one: "awaits_value opt \<Longrightarrow> snd (translate_option opt (v # rest) st) = rest"
  unfolding awaits_value_def
  by (auto simp: translate_option_def late_option_def value_of_def starts_with_def)

lemma translate_loop_append: "\<not> ends_open xs \<Longrightarrow> translate_loop (xs @ zs) st = translate_loop zs (translate_loop xs st)"
proof (induction xs arbitrary: st rule: ends_open.induct)
  case 1
  show ?case by simp
next
  case (2 opt)
  then have "snd (translate_option opt zs st) = zs" "translate_option opt zs st = apsnd (\<lambda>r. r @ zs) (translate_option opt [] st)"
    using translate_option_append[of "[]" opt zs st] by (simp_all add: translate_option_takes_none)
  then show ?case by simp
next
  case (3 opt v rest)
  have app: "translate_option opt ((v # rest) @ zs) st = apsnd (\<lambda>r. r @ zs) (translate_option opt (v # rest) st)"
    by (rule translate_option_append) simp
  show ?case
  proof (cases "awaits_value opt")
    case True
    then have "opt \<noteq> []" by (auto simp: awaits_value_def)
    then show ?thesis using 3 True app by (simp add: translate_option_takes_one)
  next
    case False
    then show ?thesis using 3 app by (simp add: translate_option_takes_none)
  qed
qed

section \<open>The ignored options\<close>

text \<open>What the branches before the ignored options test for.\<close>

definition option_starts :: "string list" where
  "option_starts = [''--include-path='', ''-I'', ''--define-macro='', ''-D'', ''--undefine-macro='', ''-U'',
     ''--gpu-architecture='', ''-arch='', ''--gpu-architecture'', ''-arch'', ''--std='', ''-std='',
     ''--device-as-default-execution-space'', ''-default-device'', ''--use_fast_math'', ''-use_fast_math'', ''--fmad='',
     ''-fmad='', ''--pre-include='', ''-include'']"

fun clash :: "string \<Rightarrow> string \<Rightarrow> bool" where
  "clash (a # as) (b # bs) \<longleftrightarrow> a \<noteq> b \<or> clash as bs"
| "clash as bs \<longleftrightarrow> False"

lemma clash_starts: "clash p q \<Longrightarrow> \<not> starts_with (p @ t) q"
  by (induction p q rule: clash.induct) (auto simp: starts_with_def)

lemma exact_clear: "list_all (\<lambda>opt. list_all (\<lambda>q. clash opt q) option_starts) ignorable_exact"
  by code_simp

lemma prefix_clear: "list_all (\<lambda>p. list_all (\<lambda>q. clash p q) option_starts) ignorable_prefixes"
  by code_simp

lemma ignorable_clear:
  assumes "is_ignorable opt" "q \<in> set option_starts"
  shows "\<not> starts_with opt q"
proof -
  obtain p t where p: "p \<in> set ignorable_exact \<union> set ignorable_prefixes" "opt = p @ t"
    using assms(1) by (fastforce simp: is_ignorable_def starts_with_any_def list_ex_iff starts_with_iff_prefix prefix_def)
  then have "clash p q"
    using exact_clear prefix_clear assms(2) by (auto simp: list_all_iff)
  then show ?thesis using p(2) by (simp add: clash_starts)
qed

lemma starts_with_refl: "starts_with s s"
  by (simp add: starts_with_def)

lemma value_of_clear: "\<not> starts_with opt long \<Longrightarrow> \<not> starts_with opt short \<Longrightarrow> value_of long short opt rest = None"
  by (auto simp: value_of_def starts_with_refl)

lemma ignorable_option:
  assumes "is_ignorable opt"
  shows "translate_option opt rest st =
    (st\<lparr>os_result := (os_result st)\<lparr>to_ignored := to_ignored (os_result st) @ [opt]\<rparr>\<rparr>, rest)"
proof -
  note c = ignorable_clear[OF assms, unfolded option_starts_def]
  have n: "opt \<noteq> q" if "q \<in> set option_starts" for q
    using ignorable_clear[OF assms that] by (auto simp: starts_with_refl)
  note n = n[unfolded option_starts_def]
  show ?thesis
    unfolding translate_option_def late_option_def flag_option_def by (simp add: value_of_clear c n assms)
qed

lemma ignorable_nonempty: "is_ignorable opt \<Longrightarrow> opt \<noteq> []"
  by (auto simp: is_ignorable_def starts_with_any_def ignorable_exact_def ignorable_prefixes_def starts_with_def)

section \<open>What the ignored options leave alone\<close>

text \<open>The state without the list of ignored options, which nothing but the result reads.\<close>

definition mute :: "OptionState \<Rightarrow> OptionState" where
  "mute st = st\<lparr>os_result := (os_result st)\<lparr>to_ignored := []\<rparr>\<rparr>"

lemma mute_pass_args: "mute (pass_args args st) = pass_args args (mute st)"
  by (simp add: mute_def pass_args_def)

lemma mute_unrecognized: "mute (unrecognized_option opt st) = unrecognized_option opt (mute st)"
  by (simp add: mute_def unrecognized_option_def)

lemma mute_remove_define: "mute (remove_define name st) = remove_define name (mute st)"
  by (simp add: mute_def remove_define_def)

lemma mute_arch_option: "mute (arch_option opt v st) = arch_option opt v (mute st)"
  by (simp add: arch_option_def set_arch_def mute_unrecognized) (simp add: mute_def)

lemma mute_flag_option: "mute (flag_option opt st) = mute (flag_option opt (mute st))"
  by (simp add: flag_option_def mute_unrecognized) (simp add: mute_def unrecognized_option_def)

lemma mute_dirs: "mute (st\<lparr>os_include_dirs := d\<rparr>) = (mute st)\<lparr>os_include_dirs := d\<rparr>"
  "mute (st\<lparr>os_defines := d\<rparr>) = (mute st)\<lparr>os_defines := d\<rparr>"
  "os_include_dirs (mute st) = os_include_dirs st" "os_defines (mute st) = os_defines st" "mute (mute st) = mute st"
  by (simp_all add: mute_def)

lemmas mute_simps = mute_pass_args mute_unrecognized mute_remove_define mute_arch_option mute_dirs

lemma mute_late_option:
  "mute (fst (late_option opt rest st)) = mute (fst (late_option opt rest (mute st))) \<and>
   snd (late_option opt rest st) = snd (late_option opt rest (mute st))"
  unfolding late_option_def
  by (cases "value_of ''--std='' ''-std='' opt rest"; cases "value_of ''--fmad='' ''-fmad='' opt rest";
      cases "value_of ''--pre-include='' ''-include'' opt rest")
     (simp_all add: case_prod_beta mute_simps mute_flag_option[symmetric])

lemma mute_translate_option:
  "mute (fst (translate_option opt rest st)) = mute (fst (translate_option opt rest (mute st))) \<and>
   snd (translate_option opt rest st) = snd (translate_option opt rest (mute st))"
  using mute_late_option[of opt rest st] unfolding translate_option_def
  by (cases "value_of ''--include-path='' ''-I'' opt rest"; cases "value_of ''--define-macro='' ''-D'' opt rest";
      cases "value_of ''--undefine-macro='' ''-U'' opt rest"; cases "value_of ''--gpu-architecture='' ''-arch='' opt rest")
     (simp_all add: case_prod_beta mute_simps split: list.split)

lemma mute_translate_loop: "mute st = mute st' \<Longrightarrow> mute (translate_loop opts st) = mute (translate_loop opts st')"
proof (induction opts st arbitrary: st' rule: translate_loop.induct)
  case (1 st)
  then show ?case by simp
next
  case (2 opt rest st)
  show ?case
  proof (cases "opt = []")
    case False
    have "mute (fst (translate_option opt rest st)) = mute (fst (translate_option opt rest st'))"
      "snd (translate_option opt rest st) = snd (translate_option opt rest st')"
      using mute_translate_option[of opt rest st] mute_translate_option[of opt rest st'] 2(3) by (auto simp del: mute_dirs)
    then show ?thesis using 2(2)[OF False] False by simp
  qed (use 2 in auto)
qed

lemma finish_mute: "(finish_options st)\<lparr>to_ignored := []\<rparr> = finish_options (mute st)"
  by (simp add: finish_options_def mute_def Let_def)

text \<open>
  C38: An option that the translation only tolerates never reaches another branch of it, whatever value is joined to it, and
  never changes anything but the list of the ignored options: wherever it stands, unless the option before it takes it as its
  value, the compiler gets the same arguments and architecture, and the same options are reported as unknown, as without it.
\<close>

theorem ignorable_options_irrelevant:
  assumes "is_ignorable opt" "\<not> ends_open xs"
  shows "(translate_options (xs @ opt # ys))\<lparr>to_ignored := []\<rparr> = (translate_options (xs @ ys))\<lparr>to_ignored := []\<rparr>"
proof -
  let ?st = "translate_loop xs initial_options"
  have "mute (translate_loop (opt # ys) ?st) = mute (translate_loop ys ?st)"
    using ignorable_nonempty[OF assms(1)]
    by (simp add: ignorable_option[OF assms(1)]) (rule mute_translate_loop, simp add: mute_def)
  then show ?thesis
    by (simp add: translate_options_def translate_loop_append[OF assms(2)] finish_mute)
qed

theorem ignorable_options_irrelevant_witness:
  "(translate_options [''-I'', ''inc'', ''--maxrregcount=32'', ''-DX=1''])\<lparr>to_ignored := []\<rparr> =
   (translate_options [''-I'', ''inc'', ''-DX=1''])\<lparr>to_ignored := []\<rparr>"
  using ignorable_options_irrelevant[of "''--maxrregcount=32''" "[''-I'', ''inc'']" "[''-DX=1'']"]
  by (simp add: is_ignorable_def ignorable_exact_def ignorable_prefixes_def starts_with_any_def starts_with_def awaits_value_def)

end
