(* ===== verification/RuntimeStreams.thy ===== *)
theory RuntimeStreams
  imports GraphCapture BackendTickets
begin

text \<open>
  Streams and events of the CUDA runtime, \<open>runtime/rt/cuda_runtime.cpp\<close>, over the streams of the Metal
  backend: handles, creation and destruction, synchronisation and queries, events, the waits of one stream
  for another, callbacks and host functions.

  \<open>async\<close> is the part of the state these calls use, as one host thread sees it.  A backend stream is its
  number.  \<open>as_functions\<close> says what each host function that was enqueued does.  A call that does not return,
  or that reads an event that was destroyed, has the outcome \<open>None\<close>.  \<open>Host\<close> is what one call gets from
  Metal; \<open>now\<close> is the clock.
\<close>

section \<open>State\<close>

record StreamRecord =
  sr_backend :: nat
  sr_flags :: u32

record CUevent =
  ev_disable_timing :: bool
  ev_recorded_once :: bool
  ev_complete :: bool
  ev_timing_valid :: bool
  ev_stream :: "nat option"
  ev_ticket :: nat
  ev_timestamp :: nat
  ev_capture_graph :: u64

text \<open>
  What a host function does.  A copy has the bytes of its source when they were staged; a volume is a block of
  rows and planes in memory, from a position on.
\<close>

record Volume =
  vo_base :: u64
  vo_pitch :: u64
  vo_height :: u64
  vo_pos :: cudaPos

datatype HostOperation =
    NoOperation
  | UserFunction u64 u64
  | CopyBytes u64 u64 u64 cudaMemcpyKind "bytes option"
  | CopyRows u64 u64 u64 u64 u64 u64 "bytes option"
  | CopyVolume Volume Volume cudaExtent "bytes option"
  | SetBytes u64 u32 u64
  | SetRows u64 u64 u32 u64 u64
  | SetVolume u64 u64 u64 u32 cudaExtent
  | FreeMemory u64 "nat option"

record Callback =
  ca_stream :: u64
  ca_backend :: nat
  ca_ticket :: nat
  ca_callback :: u64
  ca_user_data :: u64

record async =
  as_graphs :: graphs
  as_backend :: Backend
  as_streams :: "u64 \<Rightarrow> StreamRecord option"
  as_per_thread_stream :: "nat option"
  as_pending_launch_error :: cudaError
  as_events :: "u64 \<Rightarrow> CUevent option"
  as_functions :: "nat \<Rightarrow> HostOperation option"
  as_next_function :: nat
  as_callbacks :: "Callback list"
  as_pending_async_frees :: "u64 set"

record Host =
  ho_init :: cudaError
  ho_create_stream :: cudaError
  ho_objects :: MetalObjects
  ho_config :: BackendConfig
  ho_status :: "nat \<Rightarrow> cudaError"
  ho_wait :: "nat \<Rightarrow> Backend \<Rightarrow> Backend"
  ho_wait_host :: "nat \<Rightarrow> Backend \<Rightarrow> Backend"

type_synonym 'o outcome = "(cudaError \<times> 'o option \<times> async) option"

definition keep_error :: "cudaError \<Rightarrow> async \<Rightarrow> async" where
  "keep_error e s = s\<lparr>as_graphs := (as_graphs s)\<lparr>gs_rt := set_last_error e (gs_rt (as_graphs s))\<rparr>\<rparr>"

definition answer :: "cudaError \<Rightarrow> 'o option \<Rightarrow> async \<Rightarrow> 'o outcome" where
  "answer e out s = Some (e, out, keep_error e s)"

definition lift_graphs :: "'o result \<Rightarrow> async \<Rightarrow> 'o outcome" where
  "lift_graphs r s = (case r of None \<Rightarrow> None | Some (e, out, g) \<Rightarrow> Some (e, out, s\<lparr>as_graphs := g\<rparr>))"

text \<open>The error of a launch that failed before it was enqueued.\<close>

definition record_pending_launch_error :: "cudaError \<Rightarrow> async \<Rightarrow> async" where
  "record_pending_launch_error e s =
     (if e \<noteq> cudaSuccess \<and> as_pending_launch_error s = cudaSuccess then s\<lparr>as_pending_launch_error := e\<rparr> else s)"

definition take_pending_launch_error :: "async \<Rightarrow> cudaError \<times> async" where
  "take_pending_launch_error s = (as_pending_launch_error s, s\<lparr>as_pending_launch_error := cudaSuccess\<rparr>)"

section \<open>Stream handles\<close>

definition cudaStreamLegacy :: u64 where
  "cudaStreamLegacy = 1"

definition cudaStreamPerThread :: u64 where
  "cudaStreamPerThread = 2"

definition cudaStreamDefault :: u32 where
  "cudaStreamDefault = 0"

definition cudaStreamNonBlocking :: u32 where
  "cudaStreamNonBlocking = 1"

definition is_legacy_stream_handle :: "u64 \<Rightarrow> bool" where
  "is_legacy_stream_handle stream \<longleftrightarrow> stream = 0 \<or> stream = cudaStreamLegacy"

definition is_per_thread_stream_handle :: "u64 \<Rightarrow> bool" where
  "is_per_thread_stream_handle stream \<longleftrightarrow> stream = cudaStreamPerThread"

definition resolve_stream_handle :: "u64 \<Rightarrow> async \<Rightarrow> nat option" where
  "resolve_stream_handle stream s = (if stream = 0 then None else map_option sr_backend (as_streams s stream))"

definition resolve_stream_flags :: "u64 \<Rightarrow> async \<Rightarrow> u32 option" where
  "resolve_stream_flags stream s =
     (if is_legacy_stream_handle stream \<or> is_per_thread_stream_handle stream then Some cudaStreamDefault
      else map_option sr_flags (as_streams s stream))"

definition ensure_per_thread_stream :: "Host \<Rightarrow> async \<Rightarrow> (cudaError + nat) \<times> async" where
  "ensure_per_thread_stream h s =
     (case as_per_thread_stream s of
        Some n \<Rightarrow> (Inr n, s)
      | None \<Rightarrow>
          if ho_create_stream h \<noteq> cudaSuccess then (Inl (ho_create_stream h), s)
          else case create_stream False (as_backend s) of
            (n, b) \<Rightarrow> (Inr n, s\<lparr>as_backend := b, as_per_thread_stream := Some n\<rparr>))"

definition resolve_runtime_stream :: "Host \<Rightarrow> u64 \<Rightarrow> async \<Rightarrow> (cudaError + nat) \<times> async" where
  "resolve_runtime_stream h stream s =
     (if is_legacy_stream_handle stream
      then (if ho_init h \<noteq> cudaSuccess then (Inl cudaErrorInitializationError, s)
            else (Inr (bk_default_stream (as_backend s)), s))
      else if is_per_thread_stream_handle stream then ensure_per_thread_stream h s
      else case resolve_stream_handle stream s of
        None \<Rightarrow> (Inl cudaErrorInvalidValue, s)
      | Some n \<Rightarrow> (Inr n, s))"

definition erase_stream_handle :: "u64 \<Rightarrow> async \<Rightarrow> (nat \<times> async) option" where
  "erase_stream_handle stream s =
     (case resolve_stream_handle stream s of
        None \<Rightarrow> None
      | Some n \<Rightarrow> Some (n, s\<lparr>as_streams := (as_streams s)(stream := None)\<rparr>))"

text \<open>\<open>handle\<close> is the address of the new object, if there is memory for it.\<close>

definition cudaStreamCreateWithFlags :: "Host \<Rightarrow> u64 option \<Rightarrow> bool \<Rightarrow> u32 \<Rightarrow> async \<Rightarrow> u64 outcome" where
  "cudaStreamCreateWithFlags h handle stream_null flags s =
     (if stream_null \<or> (flags \<noteq> cudaStreamDefault \<and> flags \<noteq> cudaStreamNonBlocking) then answer cudaErrorInvalidValue None s
      else if ho_init h \<noteq> cudaSuccess then answer (ho_init h) None s
      else if ho_create_stream h \<noteq> cudaSuccess then answer (ho_create_stream h) None s
      else case create_stream (flags = cudaStreamDefault) (as_backend s) of
        (n, b) \<Rightarrow>
          (case handle of
             None \<Rightarrow> answer cudaErrorMemoryAllocation None (s\<lparr>as_backend := release_stream n b\<rparr>)
           | Some address \<Rightarrow>
               answer cudaSuccess (Some address)
                 (s\<lparr>as_backend := b,
                    as_streams := (as_streams s)(address \<mapsto> \<lparr>sr_backend = n, sr_flags = flags\<rparr>)\<rparr>)))"

definition cudaStreamCreate :: "Host \<Rightarrow> u64 option \<Rightarrow> bool \<Rightarrow> async \<Rightarrow> u64 outcome" where
  "cudaStreamCreate h handle stream_null s = cudaStreamCreateWithFlags h handle stream_null cudaStreamDefault s"

definition cudaStreamCreateWithPriority :: "Host \<Rightarrow> u64 option \<Rightarrow> bool \<Rightarrow> u32 \<Rightarrow> int \<Rightarrow> async \<Rightarrow> u64 outcome" where
  "cudaStreamCreateWithPriority h handle stream_null flags priority s = cudaStreamCreateWithFlags h handle stream_null flags s"

definition cudaStreamGetFlags :: "Host \<Rightarrow> u64 \<Rightarrow> bool \<Rightarrow> async \<Rightarrow> u32 outcome" where
  "cudaStreamGetFlags h stream flags_null s =
     (if flags_null then answer cudaErrorInvalidValue None s
      else if ho_init h \<noteq> cudaSuccess then answer (ho_init h) None s
      else case resolve_stream_flags stream s of
        None \<Rightarrow> answer cudaErrorInvalidValue None s
      | Some f \<Rightarrow> answer cudaSuccess (Some f) s)"

definition backend_call :: "(cudaError \<times> Backend) option \<Rightarrow> async \<Rightarrow> unit outcome" where
  "backend_call r s = (case r of None \<Rightarrow> None | Some (e, b) \<Rightarrow> answer e None (s\<lparr>as_backend := b\<rparr>))"

definition cudaStreamDestroy :: "Host \<Rightarrow> u64 \<Rightarrow> async \<Rightarrow> unit outcome" where
  "cudaStreamDestroy h stream s =
     (if stream = 0 \<or> stream = cudaStreamLegacy \<or> stream = cudaStreamPerThread then answer cudaErrorInvalidValue None s
      else if ho_init h \<noteq> cudaSuccess then answer (ho_init h) None s
      else case erase_stream_handle stream s of
        None \<Rightarrow> answer cudaErrorInvalidValue None s
      | Some (n, s1) \<Rightarrow> backend_call (destroy_stream (ho_status h) (ho_wait h) (ho_wait_host h) n (as_backend s1)) s1)"

definition cudaStreamSynchronize :: "Host \<Rightarrow> u64 \<Rightarrow> async \<Rightarrow> unit outcome" where
  "cudaStreamSynchronize h stream s =
     (if ho_init h \<noteq> cudaSuccess then answer (ho_init h) None s
      else case resolve_runtime_stream h stream s of
        (Inl e, s1) \<Rightarrow> answer e None s1
      | (Inr n, s1) \<Rightarrow> backend_call (stream_synchronize (ho_status h) (ho_wait h) (ho_wait_host h) n (as_backend s1)) s1)"

definition cudaStreamQuery :: "Host \<Rightarrow> u64 \<Rightarrow> async \<Rightarrow> unit outcome" where
  "cudaStreamQuery h stream s =
     (if ho_init h \<noteq> cudaSuccess then answer (ho_init h) None s
      else case resolve_runtime_stream h stream s of
        (Inl e, s1) \<Rightarrow> answer e None s1
      | (Inr n, s1) \<Rightarrow>
          (case tail_ticket n (as_backend s1) of
             (ticket, b) \<Rightarrow>
               (case query_ticket (ho_status h) n ticket b of
                  ((e, complete), b1) \<Rightarrow>
                    answer (if e \<noteq> cudaSuccess then e else if complete = Some True then cudaSuccess else cudaErrorNotReady)
                      None (s1\<lparr>as_backend := b1\<rparr>))))"

definition cudaDeviceSynchronize :: "Host \<Rightarrow> async \<Rightarrow> unit outcome" where
  "cudaDeviceSynchronize h s =
     (if ho_init h \<noteq> cudaSuccess then answer (ho_init h) None s
      else case synchronize (ho_status h) (ho_wait h) (ho_wait_host h) (as_backend s) of
        None \<Rightarrow> None
      | Some (e, b) \<Rightarrow>
          (case take_pending_launch_error (s\<lparr>as_backend := b\<rparr>) of
             (pending, s1) \<Rightarrow> answer (if e \<noteq> cudaSuccess then e else pending) None s1))"

section \<open>Host functions\<close>

definition enqueue_function :: "Host \<Rightarrow> nat \<Rightarrow> HostOperation \<Rightarrow> async \<Rightarrow> cudaError \<times> async" where
  "enqueue_function h n op s =
     (if ho_init h \<noteq> cudaSuccess then (cudaErrorInitializationError, s)
      else let f = as_next_function s
      in case enqueue_host_function (ho_objects h) n f (as_backend s) of
           (e, b) \<Rightarrow> (e, s\<lparr>as_backend := b, as_functions := (as_functions s)(f \<mapsto> op), as_next_function := Suc f\<rparr>))"

definition enqueue_stream_host_op :: "Host \<Rightarrow> u64 \<Rightarrow> HostOperation \<Rightarrow> async \<Rightarrow> cudaError \<times> async" where
  "enqueue_stream_host_op h stream op s =
     (case resolve_runtime_stream h stream s of
        (Inl e, s1) \<Rightarrow> (e, s1)
      | (Inr n, s1) \<Rightarrow> enqueue_function h n op s1)"

definition synchronize_stream_for_host_op :: "Host \<Rightarrow> u64 \<Rightarrow> async \<Rightarrow> (cudaError \<times> async) option" where
  "synchronize_stream_for_host_op h stream s =
     (case resolve_runtime_stream h stream s of
        (Inl e, s1) \<Rightarrow> Some (e, s1)
      | (Inr n, s1) \<Rightarrow>
          (case stream_synchronize (ho_status h) (ho_wait h) (ho_wait_host h) n (as_backend s1) of
             None \<Rightarrow> None
           | Some (e, b) \<Rightarrow> Some (e, s1\<lparr>as_backend := b\<rparr>)))"

definition cudaLaunchHostFunc :: "Host \<Rightarrow> u64 option \<Rightarrow> u64 \<Rightarrow> u64 \<Rightarrow> u64 \<Rightarrow> async \<Rightarrow> unit outcome" where
  "cudaLaunchHostFunc h address stream fn user_data s =
     (if fn = 0 then answer cudaErrorInvalidValue None s
      else if get_capture_graph stream (as_graphs s) \<noteq> 0
      then lift_graphs (capture_launch_host_func (get_capture_graph stream (as_graphs s)) address fn user_data (as_graphs s)) s
      else if ho_init h \<noteq> cudaSuccess then answer (ho_init h) None s
      else case enqueue_stream_host_op h stream (UserFunction fn user_data) s of
        (e, s1) \<Rightarrow> answer e None s1)"

text \<open>A thread of its own waits for the ticket and calls the function.\<close>

definition cudaStreamAddCallback :: "Host \<Rightarrow> u64 \<Rightarrow> u64 \<Rightarrow> u64 \<Rightarrow> u32 \<Rightarrow> async \<Rightarrow> unit outcome" where
  "cudaStreamAddCallback h stream callback user_data flags s =
     (if callback = 0 \<or> flags \<noteq> 0 then answer cudaErrorInvalidValue None s
      else if ho_init h \<noteq> cudaSuccess then answer (ho_init h) None s
      else case resolve_runtime_stream h stream s of
        (Inl e, s1) \<Rightarrow> answer e None s1
      | (Inr n, s1) \<Rightarrow>
          (case tail_ticket n (as_backend s1) of
             (ticket, b) \<Rightarrow> answer cudaSuccess None (s1\<lparr>as_backend := b,
               as_callbacks := as_callbacks s1 @ [\<lparr>ca_stream = stream, ca_backend = n, ca_ticket = ticket,
                 ca_callback = callback, ca_user_data = user_data\<rparr>]\<rparr>)))"

definition run_callback :: "Host \<Rightarrow> async \<Rightarrow> (Callback \<times> cudaError \<times> async) option" where
  "run_callback h s =
     (case as_callbacks s of
        [] \<Rightarrow> None
      | c # cs \<Rightarrow>
          (case wait_ticket (ho_status h) (ho_wait h) (ca_backend c) (ca_ticket c) (as_backend s) of
             None \<Rightarrow> None
           | Some (e, b) \<Rightarrow> Some (c, e, s\<lparr>as_backend := b, as_callbacks := cs\<rparr>)))"

section \<open>Events\<close>

definition cudaEventBlockingSync :: u32 where
  "cudaEventBlockingSync = 1"

definition cudaEventDisableTiming :: u32 where
  "cudaEventDisableTiming = 2"

definition set_event :: "u64 \<Rightarrow> CUevent \<Rightarrow> async \<Rightarrow> async" where
  "set_event event e s = s\<lparr>as_events := (as_events s)(event \<mapsto> e)\<rparr>"

definition mark_complete :: "nat \<Rightarrow> CUevent \<Rightarrow> CUevent" where
  "mark_complete now e =
     (let e1 = e\<lparr>ev_complete := True\<rparr>
      in if \<not> ev_disable_timing e \<and> \<not> ev_timing_valid e then e1\<lparr>ev_timestamp := now, ev_timing_valid := True\<rparr> else e1)"

definition update_event_completion :: "Host \<Rightarrow> nat \<Rightarrow> u64 \<Rightarrow> bool \<Rightarrow> async \<Rightarrow> (cudaError \<times> async) option" where
  "update_event_completion h now event wait_for_completion s =
     (if event = 0 then Some (cudaErrorInvalidValue, s)
      else case as_events s event of
        None \<Rightarrow> None
      | Some e \<Rightarrow>
          if ev_complete e then Some (cudaSuccess, s)
          else let marked = set_event event (mark_complete now e)
          in (case (ev_stream e, ev_ticket e) of
            (None, _) \<Rightarrow> Some (cudaSuccess, marked s)
          | (Some n, ticket) \<Rightarrow>
              if ticket = 0 then Some (cudaSuccess, marked s)
              else if wait_for_completion
              then (case wait_ticket (ho_status h) (ho_wait h) n ticket (as_backend s) of
                      None \<Rightarrow> None
                    | Some (status, b) \<Rightarrow>
                        Some (if status \<noteq> cudaSuccess then (status, s\<lparr>as_backend := b\<rparr>)
                              else (cudaSuccess, marked (s\<lparr>as_backend := b\<rparr>))))
              else (case query_ticket (ho_status h) n ticket (as_backend s) of
                      ((status, complete), b) \<Rightarrow>
                        Some (if status \<noteq> cudaSuccess then (status, s\<lparr>as_backend := b\<rparr>)
                              else if complete \<noteq> Some True then (cudaErrorNotReady, s\<lparr>as_backend := b\<rparr>)
                              else (cudaSuccess, marked (s\<lparr>as_backend := b\<rparr>))))))"

definition cudaEventCreateWithFlags :: "u64 option \<Rightarrow> bool \<Rightarrow> u32 \<Rightarrow> async \<Rightarrow> u64 outcome" where
  "cudaEventCreateWithFlags address event_null flags s =
     (if event_null \<or> and flags (NOT (or cudaEventBlockingSync cudaEventDisableTiming)) \<noteq> 0
      then answer cudaErrorInvalidValue None s
      else case address of
        None \<Rightarrow> answer cudaErrorMemoryAllocation None s
      | Some event \<Rightarrow>
          answer cudaSuccess (Some event) (set_event event
            \<lparr>ev_disable_timing = and flags cudaEventDisableTiming \<noteq> 0, ev_recorded_once = False, ev_complete = True,
             ev_timing_valid = False, ev_stream = None, ev_ticket = 0, ev_timestamp = 0, ev_capture_graph = 0\<rparr> s))"

definition cudaEventCreate :: "u64 option \<Rightarrow> bool \<Rightarrow> async \<Rightarrow> u64 outcome" where
  "cudaEventCreate address event_null s = cudaEventCreateWithFlags address event_null 0 s"

definition cudaEventDestroy :: "u64 \<Rightarrow> async \<Rightarrow> unit outcome" where
  "cudaEventDestroy event s =
     (if event = 0 then answer cudaErrorInvalidValue None s
      else case as_events s event of
        None \<Rightarrow> None
      | Some e \<Rightarrow> answer cudaSuccess None (s\<lparr>as_events := (as_events s)(event := None)\<rparr>))"

definition cudaEventRecord :: "Host \<Rightarrow> nat \<Rightarrow> u64 \<Rightarrow> u64 \<Rightarrow> async \<Rightarrow> unit outcome" where
  "cudaEventRecord h now event stream s =
     (if event = 0 then answer cudaErrorInvalidValue None s
      else if ho_init h \<noteq> cudaSuccess then answer (ho_init h) None s
      else case as_events s event of
        None \<Rightarrow> None
      | Some e \<Rightarrow>
          if get_capture_graph stream (as_graphs s) \<noteq> 0
          then answer cudaSuccess None (set_event event (e\<lparr>ev_capture_graph := get_capture_graph stream (as_graphs s),
                 ev_recorded_once := True, ev_complete := True, ev_timing_valid := False\<rparr>) s)
          else case resolve_runtime_stream h stream s of
            (Inl status, s1) \<Rightarrow> answer status None s1
          | (Inr n, s1) \<Rightarrow>
              (case stream_record_marker (ho_objects h) n (as_backend s1) of
                 ((status, ticket), b) \<Rightarrow>
                   if status \<noteq> cudaSuccess then answer status None (s1\<lparr>as_backend := b\<rparr>)
                   else answer cudaSuccess None (set_event event
                     (e\<lparr>ev_stream := Some n, ev_ticket := ticket, ev_recorded_once := True, ev_complete := False,
                        ev_timing_valid := \<not> ev_disable_timing e, ev_capture_graph := 0,
                        ev_timestamp := (if ev_disable_timing e then ev_timestamp e else now)\<rparr>) (s1\<lparr>as_backend := b\<rparr>))))"

definition cudaEventRecordWithFlags :: "Host \<Rightarrow> nat \<Rightarrow> u64 \<Rightarrow> u64 \<Rightarrow> u32 \<Rightarrow> async \<Rightarrow> unit outcome" where
  "cudaEventRecordWithFlags h now event stream flags s =
     (if and flags (NOT 1) \<noteq> 0 then answer cudaErrorInvalidValue None s else cudaEventRecord h now event stream s)"

definition answer_status :: "(cudaError \<times> async) option \<Rightarrow> unit outcome" where
  "answer_status r = (case r of None \<Rightarrow> None | Some (e, s) \<Rightarrow> answer e None s)"

definition cudaEventSynchronize :: "Host \<Rightarrow> nat \<Rightarrow> u64 \<Rightarrow> async \<Rightarrow> unit outcome" where
  "cudaEventSynchronize h now event s = answer_status (update_event_completion h now event True s)"

definition cudaEventQuery :: "Host \<Rightarrow> nat \<Rightarrow> u64 \<Rightarrow> async \<Rightarrow> unit outcome" where
  "cudaEventQuery h now event s = answer_status (update_event_completion h now event False s)"

text \<open>The elapsed time in units of the clock, before it is made a number of milliseconds.\<close>

definition timed :: "u64 \<Rightarrow> async \<Rightarrow> nat option" where
  "timed event s =
     (case as_events s event of
        None \<Rightarrow> None
      | Some e \<Rightarrow> if ev_disable_timing e \<or> \<not> ev_recorded_once e \<or> \<not> ev_timing_valid e then None
                  else Some (ev_timestamp e))"

definition cudaEventElapsedTime :: "Host \<Rightarrow> nat \<Rightarrow> bool \<Rightarrow> u64 \<Rightarrow> u64 \<Rightarrow> async \<Rightarrow> int outcome" where
  "cudaEventElapsedTime h now ms_null start end_event s =
     (if ms_null \<or> start = 0 \<or> end_event = 0 then answer cudaErrorInvalidValue None s
      else case update_event_completion h now start False s of
        None \<Rightarrow> None
      | Some (e, s1) \<Rightarrow>
          if e \<noteq> cudaSuccess then answer e None s1
          else case update_event_completion h now end_event False s1 of
            None \<Rightarrow> None
          | Some (e, s2) \<Rightarrow>
              if e \<noteq> cudaSuccess then answer e None s2
              else case (timed start s2, timed end_event s2) of
                (Some a, Some b) \<Rightarrow> answer cudaSuccess (Some (int b - int a)) s2
              | _ \<Rightarrow> answer cudaErrorInvalidValue None s2)"

section \<open>Waiting for an event\<close>

definition capture_active :: "u64 \<Rightarrow> graphs \<Rightarrow> bool" where
  "capture_active graph g \<longleftrightarrow>
     (\<exists>stream. case gs_captures g stream of None \<Rightarrow> False | Some c \<Rightarrow> cs_capturing c \<and> cs_graph c = graph)"

definition join_capture :: "u64 \<Rightarrow> u64 \<Rightarrow> async \<Rightarrow> unit outcome" where
  "join_capture stream graph s =
     (let g = as_graphs s
      in if (case gs_captures g stream of None \<Rightarrow> False | Some c \<Rightarrow> cs_capturing c \<and> cs_graph c \<noteq> graph)
         then answer cudaErrorInvalidValue None s
         else answer cudaSuccess None (s\<lparr>as_graphs := g\<lparr>gs_captures := (gs_captures g)
                (stream \<mapsto> \<lparr>cs_capturing = True, cs_graph = graph\<rparr>)\<rparr>\<rparr>))"

definition cudaStreamWaitEvent :: "Host \<Rightarrow> nat \<Rightarrow> u64 \<Rightarrow> u64 \<Rightarrow> u32 \<Rightarrow> async \<Rightarrow> unit outcome" where
  "cudaStreamWaitEvent h now stream event flags s =
     (if event = 0 \<or> and flags (NOT 1) \<noteq> 0 then answer cudaErrorInvalidValue None s
      else case as_events s event of
        None \<Rightarrow> None
      | Some e \<Rightarrow>
          if ev_capture_graph e \<noteq> 0 \<and> capture_active (ev_capture_graph e) (as_graphs s)
          then join_capture stream (ev_capture_graph e) s
          else case (if is_legacy_stream_handle stream then (Inr 0, s) else resolve_runtime_stream h stream s) of
            (Inl status, s1) \<Rightarrow> answer status None s1
          | (Inr _, s1) \<Rightarrow> answer_status (update_event_completion h now event True s1))"

end
