(* ===== verification/RuntimeEvents.thy ===== *)
theory RuntimeEvents
  imports RuntimeStreams BackendMarkers Graphs
begin

text \<open>
  What an event tells: the order that cudaEventRecord, cudaEventQuery, cudaEventSynchronize and
  cudaStreamWaitEvent promise, over every interleaving of the calls on streams and events with one another,
  with submissions to the backend and with what Metal finishes.
\<close>

section \<open>Calls that leave the events alone\<close>

text \<open>The backend streams that a handle or the per-thread stream refers to stay alive.\<close>

definition held :: "nat \<Rightarrow> async \<Rightarrow> bool" where
  "held n s \<longleftrightarrow> (\<exists>x r. as_streams s x = Some r \<and> sr_backend r = n) \<or> as_per_thread_stream s = Some n"

definition async_ok :: "async \<Rightarrow> bool" where
  "async_ok s \<longleftrightarrow> state_ok (as_backend s) \<and> (\<forall>n. held n s \<longrightarrow> usable n (as_backend s))"

definition good_host :: "Host \<Rightarrow> bool" where
  "good_host h \<longleftrightarrow> granted (ho_objects h) \<and> metal_host (ho_wait h) (ho_wait_host h)"

definition moves :: "async \<Rightarrow> async \<Rightarrow> bool" where
  "moves s t \<longleftrightarrow> advances (as_backend s) (as_backend t) \<and> async_ok t \<and> as_events t = as_events s"

lemma keep_error_sel [simp]:
  "as_backend (keep_error e s) = as_backend s" "as_streams (keep_error e s) = as_streams s"
  "as_per_thread_stream (keep_error e s) = as_per_thread_stream s" "as_events (keep_error e s) = as_events s"
  by (simp_all add: keep_error_def)

lemma moves_refl: "async_ok s \<Longrightarrow> moves s s"
  by (simp add: moves_def advances.none)

lemma moves_trans: "moves s t \<Longrightarrow> moves t u \<Longrightarrow> moves s u"
  by (auto simp: moves_def intro: advances_trans)

lemma moves_error: "moves s t \<Longrightarrow> moves s (keep_error e t)"
  by (simp add: moves_def async_ok_def held_def)

text \<open>A change of the backend alone.\<close>

lemma moves_backend:
  assumes "async_ok s" "advances (as_backend s) (as_backend t)" "\<And>n. held n t \<Longrightarrow> held n s \<or> usable n (as_backend t)"
    "as_events t = as_events s"
  shows "moves s t"
  using assms advances_ok advances_usable by (fastforce simp: moves_def async_ok_def)

lemma resolve_moves:
  assumes "resolve_runtime_stream h stream s = (r, t)" "async_ok s"
  shows "moves s t" "as_graphs t = as_graphs s" "r = Inr n \<Longrightarrow> usable n (as_backend t)"
proof -
  have c: "advances b c" "usable n c" "m = n \<or> \<not> usable m b \<or> usable m c" if "create_stream p b = (n, c)" for p b n m c
    using create_advances[of b p] that advances_usable by (auto simp: create_stream_def usable_def Let_def)
  show m: "moves s t"
    using assms c
    by (auto simp: resolve_runtime_stream_def ensure_per_thread_stream_def moves_refl held_def split: if_splits option.splits prod.splits
        intro!: moves_backend[OF assms(2)])
  show "as_graphs t = as_graphs s"
    using assms by (auto simp: resolve_runtime_stream_def ensure_per_thread_stream_def split: if_splits option.splits prod.splits)
  have "r = Inr n \<Longrightarrow> n = bk_default_stream (as_backend t) \<or> held n t"
    using assms(1)
    by (auto simp: resolve_runtime_stream_def ensure_per_thread_stream_def resolve_stream_handle_def held_def
        split: if_splits option.splits prod.splits)
  then show "r = Inr n \<Longrightarrow> usable n (as_backend t)" using m by (auto simp: moves_def async_ok_def usable_def)
qed

text \<open>The calls on streams and the host functions.\<close>

lemma answer_moves: "answer e out t = Some (r, out', u) \<Longrightarrow> moves s t \<Longrightarrow> moves s u"
  by (auto simp: answer_def moves_error)

lemma create_moves:
  assumes "cudaStreamCreateWithFlags h (Some address) nullp flags s = Some (r, out, t)" "async_ok s"
  shows "moves s t"
proof -
  have new: "advances b c \<and> usable n c" if "create_stream p b = (n, c)" for p b n c
    using create_advances[of b p] that by (auto simp: create_stream_def usable_def Let_def)
  show ?thesis
    using assms new
    by (auto simp: cudaStreamCreateWithFlags_def held_def async_ok_def split: if_splits option.splits prod.splits
        elim!: answer_moves intro!: moves_refl moves_backend[OF assms(2)]) blast+
qed

lemma backend_call_moves:
  assumes "backend_call r s = Some (e, out, t)" "async_ok s" "\<And>e b. r = Some (e, b) \<Longrightarrow> advances (as_backend s) b"
  shows "moves s t"
  using assms
  by (auto simp: backend_call_def held_def split: option.splits prod.splits elim!: answer_moves intro!: moves_backend[OF assms(2)])

lemma erase_moves: "erase_stream_handle stream s = Some (n, t) \<Longrightarrow> async_ok s \<Longrightarrow> moves s t"
  by (auto simp: erase_stream_handle_def held_def advances.none split: option.splits if_splits intro!: moves_backend) blast

lemma moves_ok: "moves s t \<Longrightarrow> async_ok t" "moves s t \<Longrightarrow> state_ok (as_backend t)"
  by (simp_all add: moves_def async_ok_def)

lemma synchronized_moves:
  assumes "backend_call (stream_synchronize (ho_status h) (ho_wait h) (ho_wait_host h) n (as_backend s)) s = Some (e, out, t)"
    "async_ok s" "good_host h"
  shows "moves s t"
  using assms stream_synchronize_moves by (intro backend_call_moves[OF assms(1,2)]) (auto simp: good_host_def async_ok_def)

lemma destroy_moves:
  assumes "cudaStreamDestroy h stream s = Some (r, out, t)" "async_ok s" "good_host h"
  shows "moves s t"
proof -
  have "moves s t" if "erase_stream_handle stream s = Some (n, u)"
    "backend_call (stream_synchronize (ho_status h) (ho_wait h) (ho_wait_host h) n (as_backend u)) u = Some (r, out, t)" for n u
    using erase_moves[OF that(1) assms(2)] synchronized_moves[OF that(2) _ assms(3)] moves_ok moves_trans by blast
  then show ?thesis
    using assms by (auto simp: cudaStreamDestroy_def destroy_stream_def split: if_splits option.splits prod.splits
        elim!: answer_moves intro!: moves_refl)
qed

lemma stream_synchronized_moves:
  assumes "cudaStreamSynchronize h stream s = Some (r, out, t)" "async_ok s" "good_host h"
  shows "moves s t"
proof -
  obtain x u where x: "resolve_runtime_stream h stream s = (x, u)" by fastforce
  note m = resolve_moves(1)[OF x assms(2)]
  show ?thesis
    using assms x m synchronized_moves[OF _ moves_ok(1)[OF m] assms(3)] moves_trans[OF m]
    by (auto simp: cudaStreamSynchronize_def split: if_splits sum.splits elim!: answer_moves intro!: moves_refl)
qed

lemma device_synchronized_moves:
  assumes "cudaDeviceSynchronize h s = Some (r, out, t)" "async_ok s" "good_host h"
  shows "moves s t"
  using assms synchronize_moves[of "ho_status h" "ho_wait h" "ho_wait_host h" "as_backend s"]
  by (auto simp: cudaDeviceSynchronize_def take_pending_launch_error_def good_host_def async_ok_def held_def split: if_splits option.splits
      elim!: answer_moves intro!: moves_refl moves_backend[OF assms(2)])

lemma queried_moves:
  assumes "cudaStreamQuery h stream s = Some (r, out, t)" "async_ok s"
  shows "moves s t"
proof -
  obtain x u where x: "resolve_runtime_stream h stream s = (x, u)" by fastforce
  note m = resolve_moves(1)[OF x assms(2)]
  have "moves s (u\<lparr>as_backend := c\<rparr>)"
    if "tail_ticket n (as_backend u) = (k, b)" "query_ticket st n k b = (q, c)" for n k b st q c
    using moves_trans[OF m moves_backend[OF moves_ok(1)[OF m], of "u\<lparr>as_backend := c\<rparr>"]]
      advances_trans[OF query_advances[OF that(2)] tail_advances[OF that(1)]] by (simp add: held_def)
  then show ?thesis
    using assms x m
    by (auto simp: cudaStreamQuery_def split: if_splits sum.splits prod.splits elim!: answer_moves intro!: moves_refl)
qed

lemma function_moves:
  assumes "enqueue_function h n op s = (r, t)" "async_ok s" "good_host h" "usable n (as_backend s)"
  shows "moves s t"
proof -
  have "advances (as_backend s) b" if "enqueue_host_function (ho_objects h) n f (as_backend s) = (q, b)" for f q b
    using host_function_advances[of "as_backend s" n "ho_objects h" f] assms(2-4) that by (simp add: async_ok_def good_host_def)
  then show ?thesis
    using assms by (auto simp: enqueue_function_def good_host_def held_def Let_def split: if_splits prod.splits
        intro!: moves_refl moves_backend[OF assms(2)])
qed

lemma host_op_moves:
  assumes "enqueue_stream_host_op h stream op s = (r, t)" "async_ok s" "good_host h"
  shows "moves s t"
proof -
  obtain x u where x: "resolve_runtime_stream h stream s = (x, u)" by fastforce
  note m = resolve_moves[OF x assms(2)]
  show ?thesis
    using assms(1) x m function_moves[OF _ moves_ok(1)[OF m(1)] assms(3)] moves_trans[OF m(1)]
    by (auto simp: enqueue_stream_host_op_def split: sum.splits)
qed

lemma moves_graphs: "moves s t \<Longrightarrow> moves s (t\<lparr>as_graphs := g\<rparr>)"
  by (simp add: moves_def async_ok_def held_def)

lemma launched_moves:
  assumes "cudaLaunchHostFunc h address stream fn user_data s = Some (r, out, t)" "async_ok s" "good_host h"
  shows "moves s t"
  using assms host_op_moves[OF _ assms(2,3)]
  by (auto simp: cudaLaunchHostFunc_def lift_graphs_def split: if_splits option.splits prod.splits
      elim!: answer_moves intro!: moves_refl moves_graphs)

lemma callback_moves:
  assumes "cudaStreamAddCallback h stream callback user_data flags s = Some (r, out, t)" "async_ok s"
  shows "moves s t"
proof -
  obtain x u where x: "resolve_runtime_stream h stream s = (x, u)" by fastforce
  note m = resolve_moves(1)[OF x assms(2)]
  have "moves s (u\<lparr>as_backend := b, as_callbacks := cs\<rparr>)" if "tail_ticket n (as_backend u) = (k, b)" for n k b cs
    using moves_trans[OF m moves_backend[OF moves_ok(1)[OF m], of "u\<lparr>as_backend := b, as_callbacks := cs\<rparr>"]]
      tail_advances[OF that] by (simp add: held_def)
  then show ?thesis
    using assms x m
    by (auto simp: cudaStreamAddCallback_def split: if_splits sum.splits prod.splits elim!: answer_moves intro!: moves_refl)
qed

lemma called_moves:
  assumes "run_callback h s = Some (c, r, t)" "async_ok s" "good_host h"
  shows "moves s t"
  using assms wait_ticket_moves(1)[of "ho_status h" "ho_wait h" _ _ "as_backend s"]
  by (auto simp: run_callback_def good_host_def async_ok_def held_def split: list.splits option.splits
      intro!: moves_backend[OF assms(2)])

section \<open>Following an event\<close>

lemma update_event:
  assumes "update_event_completion h now x w s = Some (r, t)" "async_ok s" "good_host h" "as_events s x = Some ev"
  shows "advances (as_backend s) (as_backend t)" "async_ok t" "y \<noteq> x \<Longrightarrow> as_events t y = as_events s y"
    "r \<noteq> cudaSuccess \<Longrightarrow> as_events t x = Some ev"
    "r = cudaSuccess \<Longrightarrow> (\<exists>ev'. as_events t x = Some ev' \<and> ev_complete ev' \<and> ev_capture_graph ev' = ev_capture_graph ev) \<and>
       (ev_complete ev \<or> ev_stream ev = None \<or> ev_ticket ev = 0 \<or>
        (\<exists>m. ev_stream ev = Some m \<and> ev_ticket ev \<le> si_completed_ticket (bk_streams (as_backend t) m)))"
proof -
  have q: "advances (as_backend s) b" "r' = (cudaSuccess, Some True) \<Longrightarrow> k \<le> si_completed_ticket (bk_streams b m)"
    if "query_ticket st m k (as_backend s) = (r', b)" for st m k r' b
    using query_advances[OF that] query_complete that by auto
  have w: "advances (as_backend s) b" "r' = cudaSuccess \<Longrightarrow> k \<le> si_completed_ticket (bk_streams b m)"
    if "wait_ticket (ho_status h) (ho_wait h) m k (as_backend s) = Some (r', b)" for m k r' b
    using wait_ticket_moves[OF that] assms(2,3) by (auto simp: good_host_def async_ok_def)
  have ev: "(\<exists>b. t = s\<lparr>as_backend := b\<rparr> \<and> r \<noteq> cudaSuccess \<and> advances (as_backend s) b) \<or>
     (t = s \<and> (r = cudaSuccess \<longrightarrow> ev_complete ev)) \<or>
     (\<exists>b. t = set_event x (mark_complete now ev) (s\<lparr>as_backend := b\<rparr>) \<and> r = cudaSuccess \<and> advances (as_backend s) b \<and>
       (ev_stream ev = None \<or> ev_ticket ev = 0 \<or>
        (\<exists>m. ev_stream ev = Some m \<and> ev_ticket ev \<le> si_completed_ticket (bk_streams b m))))"
  proof (cases "x = 0 \<or> ev_complete ev")
    case True
    then show ?thesis
      using assms(1,4) by (auto simp: update_event_completion_def split: if_splits)
  next
    case False
    have n: "s = s\<lparr>as_backend := as_backend s\<rparr>" by simp
    note u = assms(1)[unfolded update_event_completion_def, unfolded assms(4) if_not_P[OF conjunct1[OF False[unfolded de_Morgan_disj]]]
        option.case if_not_P[OF conjunct2[OF False[unfolded de_Morgan_disj]]] Let_def]
    show ?thesis
    proof (cases "ev_stream ev = None \<or> ev_ticket ev = 0")
      case True
      have "t = set_event x (mark_complete now ev) s \<and> r = cudaSuccess" using u True by (cases "ev_stream ev") auto
      then have "t = set_event x (mark_complete now ev) (s\<lparr>as_backend := as_backend s\<rparr>) \<and> r = cudaSuccess" using n by metis
      then show ?thesis using True advances.none by blast
    next
      case False
      then obtain m where "ev_stream ev = Some m" "ev_ticket ev \<noteq> 0" by auto
      then show ?thesis using u q w by (fastforce split: if_splits option.splits prod.splits)
    qed
  qed
  then show "advances (as_backend s) (as_backend t)" using advances.none by (auto simp: set_event_def)
  then show "async_ok t"
    using ev assms(2) advances_ok advances_usable by (fastforce simp: async_ok_def held_def set_event_def)
  show "y \<noteq> x \<Longrightarrow> as_events t y = as_events s y"
    "r \<noteq> cudaSuccess \<Longrightarrow> as_events t x = Some ev"
    "r = cudaSuccess \<Longrightarrow> (\<exists>ev'. as_events t x = Some ev' \<and> ev_complete ev' \<and> ev_capture_graph ev' = ev_capture_graph ev) \<and>
       (ev_complete ev \<or> ev_stream ev = None \<or> ev_ticket ev = 0 \<or>
        (\<exists>m. ev_stream ev = Some m \<and> ev_ticket ev \<le> si_completed_ticket (bk_streams (as_backend t) m)))"
    using ev assms(4) by (auto simp: set_event_def mark_complete_def Let_def)
qed

definition follows :: "nat \<Rightarrow> nat \<Rightarrow> nat \<Rightarrow> u64 \<Rightarrow> async \<Rightarrow> bool" where
  "follows n N k e s \<longleftrightarrow> async_ok s \<and> (\<exists>ev. as_events s e = Some ev \<and> ev_capture_graph ev = 0 \<and>
     (if ev_complete ev then passed n N (as_backend s)
      else ev_stream ev = Some n \<and> ev_ticket ev = k \<and> tracked n N k (as_backend s)))"

lemma passed_advances:
  assumes "advances s t" "passed n N s" "state_ok s"
  shows "passed n N t"
  using tracked_complete[of n N 0 t] tracked_advances[of s t n N 0] advances_ok assms by (simp add: tracked_def)

lemma follows_advances:
  assumes "follows n N k e s" "advances (as_backend s) (as_backend t)" "async_ok t" "as_events t e = as_events s e"
  shows "follows n N k e t"
  using assms passed_advances tracked_advances by (auto simp: follows_def async_ok_def)

lemma follows_moves: "follows n N k e s \<Longrightarrow> moves s t \<Longrightarrow> follows n N k e t"
  using follows_advances by (simp add: moves_def)

lemma follows_update:
  assumes "follows n N k e s" "update_event_completion h now x w s = Some (r, t)" "good_host h" "0 < k" "as_events s x = Some ev"
  shows "follows n N k e t" "x = e \<Longrightarrow> r = cudaSuccess \<Longrightarrow> passed n N (as_backend t)"
proof -
  have ok: "async_ok s" using assms(1) by (simp add: follows_def)
  note u = update_event[OF assms(2) ok assms(3,5)]
  have p: "passed n N (as_backend t)" if "x = e" "r = cudaSuccess"
  proof (cases "ev_complete ev")
    case True
    then show ?thesis using assms(1,5) that(1) passed_advances[OF u(1)] by (auto simp: follows_def async_ok_def)
  next
    case False
    then have "ev_stream ev = Some n" "ev_ticket ev = k" "tracked n N k (as_backend s)"
      using assms(1,5) that(1) by (auto simp: follows_def)
    then show ?thesis
      using u(2,5) that(2) False assms(4) tracked_complete[of n N k "as_backend t"] tracked_advances[OF u(1)] ok
      by (auto simp: async_ok_def)
  qed
  then show "x = e \<Longrightarrow> r = cudaSuccess \<Longrightarrow> passed n N (as_backend t)" .
  show "follows n N k e t"
  proof (cases "x = e \<and> r = cudaSuccess")
    case True
    then show ?thesis using p u(2,5) assms(1,5) by (auto simp: follows_def)
  next
    case False
    then have "as_events t e = as_events s e" using u(3,4) assms(5) by metis
    then show ?thesis by (rule follows_advances[OF assms(1) u(1,2)])
  qed
qed

section \<open>Everything that may happen in between\<close>

text \<open>
  The calls of the program on streams and on events, in any order, but for a new record of \<open>e\<close> or its end.
  A new event has an address that no event has.  The other calls of the runtime find streams, change the part of the
  state with the graphs, captures, host functions and errors (\<open>rest\<close>), and make steps of the backend that release
  no stream to which a handle refers; Metal makes such steps too.
\<close>

inductive between :: "u64 \<Rightarrow> async \<Rightarrow> async \<Rightarrow> bool" for e where
  nothing: "between e s s"
| created: "between e s t \<Longrightarrow> cudaStreamCreateWithFlags h (Some address) nullp flags t = Some (r, out, u) \<Longrightarrow> between e s u"
| destroyed: "between e s t \<Longrightarrow> good_host h \<Longrightarrow> cudaStreamDestroy h stream t = Some (r, out', u) \<Longrightarrow> between e s u"
| synchronized: "between e s t \<Longrightarrow> good_host h \<Longrightarrow> cudaStreamSynchronize h stream t = Some (r, out', u) \<Longrightarrow> between e s u"
| device: "between e s t \<Longrightarrow> good_host h \<Longrightarrow> cudaDeviceSynchronize h t = Some (r, out', u) \<Longrightarrow> between e s u"
| queried: "between e s t \<Longrightarrow> cudaStreamQuery h stream t = Some (r, out', u) \<Longrightarrow> between e s u"
| launched: "between e s t \<Longrightarrow> good_host h \<Longrightarrow> cudaLaunchHostFunc h node stream fn user_data t = Some (r, out', u) \<Longrightarrow> between e s u"
| callback: "between e s t \<Longrightarrow> cudaStreamAddCallback h stream fn user_data flags t = Some (r, out', u) \<Longrightarrow> between e s u"
| called: "between e s t \<Longrightarrow> good_host h \<Longrightarrow> run_callback h t = Some (c, r, u) \<Longrightarrow> between e s u"
| event_created: "between e s t \<Longrightarrow> as_events t x = None \<Longrightarrow> cudaEventCreateWithFlags (Some x) nullp flags t = Some (r, out, u) \<Longrightarrow> between e s u"
| event_destroyed: "between e s t \<Longrightarrow> x \<noteq> e \<Longrightarrow> cudaEventDestroy x t = Some (r, out', u) \<Longrightarrow> between e s u"
| recorded: "between e s t \<Longrightarrow> x \<noteq> e \<Longrightarrow> good_host h \<Longrightarrow> cudaEventRecord h now x stream t = Some (r, out', u) \<Longrightarrow> between e s u"
| event_synchronized: "between e s t \<Longrightarrow> good_host h \<Longrightarrow> cudaEventSynchronize h now x t = Some (r, out', u) \<Longrightarrow> between e s u"
| event_queried: "between e s t \<Longrightarrow> good_host h \<Longrightarrow> cudaEventQuery h now x t = Some (r, out', u) \<Longrightarrow> between e s u"
| waited: "between e s t \<Longrightarrow> good_host h \<Longrightarrow> cudaStreamWaitEvent h now stream x flags t = Some (r, out', u) \<Longrightarrow> between e s u"
| timed: "between e s t \<Longrightarrow> good_host h \<Longrightarrow> cudaEventElapsedTime h now ms_null x y t = Some (r, out_time, u) \<Longrightarrow> between e s u"
| resolved: "between e s t \<Longrightarrow> resolve_runtime_stream h stream t = (found, u) \<Longrightarrow> between e s u"
| rest: "between e s t \<Longrightarrow> as_backend u = as_backend t \<Longrightarrow> as_streams u = as_streams t \<Longrightarrow>
     as_per_thread_stream u = as_per_thread_stream t \<Longrightarrow> as_events u = as_events t \<Longrightarrow> between e s u"
| backend: "between e s t \<Longrightarrow> granted_step cfg (as_backend t) b \<Longrightarrow> (\<And>n. held n t \<Longrightarrow> usable n b) \<Longrightarrow>
     between e s (t\<lparr>as_backend := b\<rparr>)"

lemma follows_ok: "follows n N k e s \<Longrightarrow> async_ok s"
  by (simp add: follows_def)

lemma follows_error: "follows n N k e (keep_error r s) = follows n N k e s"
  by (simp add: follows_def async_ok_def held_def)

lemma follows_answer: "answer_status z = Some (r, out, u) \<Longrightarrow> (\<And>t. z = Some (r, t) \<Longrightarrow> follows n N k e t) \<Longrightarrow> follows n N k e u"
  by (auto simp: answer_status_def answer_def follows_error split: option.splits)

lemma update_none: "as_events s x = None \<Longrightarrow> update_event_completion h now x w s = Some (r, t) \<Longrightarrow> t = s \<and> r \<noteq> cudaSuccess"
  by (auto simp: update_event_completion_def split: if_splits)

lemma follows_updated:
  assumes "answer_status (update_event_completion h now x w s) = Some (r, out, t)" "follows n N k e s" "good_host h" "0 < k"
  shows "follows n N k e t" "x = e \<Longrightarrow> r = cudaSuccess \<Longrightarrow> passed n N (as_backend t)"
proof -
  obtain u where u: "update_event_completion h now x w s = Some (r, u)" "t = keep_error r u"
    using assms(1) by (auto simp: answer_status_def answer_def split: option.splits)
  show "follows n N k e t"
    using follows_update(1)[OF assms(2) u(1) assms(3,4)] update_none[OF _ u(1)] assms(2) u(2)
    by (cases "as_events s x") (auto simp: follows_error)
  show "x = e \<Longrightarrow> r = cudaSuccess \<Longrightarrow> passed n N (as_backend t)"
    using follows_update(2)[OF assms(2) u(1) assms(3,4)] update_none[OF _ u(1)] u(2)
    by (cases "as_events s x") auto
qed

lemma follows_timed:
  assumes "cudaEventElapsedTime h now ms_null x y s = Some (r, out, t)" "follows n N k e s" "good_host h" "0 < k"
  shows "follows n N k e t"
proof -
  have one: "follows n N k e v" if "update_event_completion h now z False w = Some (q, v)" "follows n N k e w" for z w q v
    using follows_update(1)[OF that(2,1) assms(3,4)] update_none[OF _ that(1)] that(2) by (cases "as_events w z") auto
  show ?thesis
    using assms(1,2) by (auto simp: cudaEventElapsedTime_def answer_def follows_error split: if_splits option.splits dest!: one)
qed

lemma follows_recorded:
  assumes "cudaEventRecord h now x stream s = Some (r, out, t)" "x \<noteq> e" "good_host h" "follows n N k e s"
  shows "follows n N k e t"
proof -
  obtain y u where y: "resolve_runtime_stream h stream s = (y, u)" by fastforce
  note m = resolve_moves[OF y follows_ok[OF assms(4)]]
  have set: "follows n N k e (set_event x z v) = follows n N k e v" if "async_ok v" for z v
    using that assms(2) by (simp add: follows_def set_event_def async_ok_def held_def)
  have marked: "follows n N k e (u\<lparr>as_backend := b\<rparr>) \<and> async_ok (u\<lparr>as_backend := b\<rparr>)"
    if "stream_record_marker mo i (as_backend u) = (q, b)" "y = Inr i" for mo i q b
  proof -
    have "advances (as_backend u) b" using record_advances[of "as_backend u" i mo] moves_ok[OF m(1)] m(3) that by simp
    then have "moves u (u\<lparr>as_backend := b\<rparr>)" by (intro moves_backend[OF moves_ok(1)[OF m(1)]]) (simp_all add: held_def)
    then show ?thesis using follows_moves[OF follows_moves[OF assms(4) m(1)]] moves_ok(1) by blast
  qed
  show ?thesis
    using assms follows_moves[OF assms(4) m(1)] follows_ok[OF assms(4)] y
    by (auto simp: cudaEventRecord_def answer_def follows_error set marked split: if_splits option.splits sum.splits prod.splits
        dest!: marked)
qed

lemma resolve_error: "resolve_runtime_stream h stream s = (Inl q, t) \<Longrightarrow> q \<noteq> cudaSuccess"
  by (auto simp: resolve_runtime_stream_def ensure_per_thread_stream_def split: if_splits option.splits prod.splits)

lemma follows_waited:
  assumes "cudaStreamWaitEvent h now stream x flags s = Some (r, out, t)" "good_host h" "follows n N k e s" "0 < k"
  shows "follows n N k e t" "x = e \<Longrightarrow> r = cudaSuccess \<Longrightarrow> passed n N (as_backend t)"
proof -
  obtain q u where y: "(if is_legacy_stream_handle stream then (Inr 0, s) else resolve_runtime_stream h stream s) = (q, u)" by fastforce
  have u: "follows n N k e u"
    using y follows_moves[OF assms(3) resolve_moves(1)[OF _ follows_ok[OF assms(3)]]] assms(3) by (auto split: if_splits)
  have join: "follows n N k e v" if "join_capture stream graph s = Some (r, out, v)" for graph v
    using that assms(3)
    by (auto simp: join_capture_def answer_def follows_error Let_def split: if_splits)
       (auto simp: follows_def async_ok_def held_def)
  have gone: "x = e \<Longrightarrow> as_events s x = Some ev \<Longrightarrow> ev_capture_graph ev = 0" for ev using assms(3) by (auto simp: follows_def)
  show "follows n N k e t"
    using assms(1,3) y u join follows_updated(1)[OF _ u assms(2,4)]
    by (auto simp: cudaStreamWaitEvent_def answer_def follows_error split: if_splits option.splits sum.splits)
  show "x = e \<Longrightarrow> r = cudaSuccess \<Longrightarrow> passed n N (as_backend t)"
    using assms(1) y gone follows_updated(2)[OF _ u assms(2,4)] resolve_error
    by (auto simp: cudaStreamWaitEvent_def answer_def split: if_splits option.splits sum.splits)
qed

lemma follows_same:
  assumes "follows n N k e s" "as_backend t = as_backend s" "as_streams t = as_streams s"
    "as_per_thread_stream t = as_per_thread_stream s" "as_events t e = as_events s e"
  shows "follows n N k e t"
  using assms(1) unfolding follows_def async_ok_def held_def assms(2-5) .

lemma follows_new_event:
  assumes "cudaEventCreateWithFlags (Some x) nullp flags s = Some (r, out, t)" "as_events s x = None" "follows n N k e s"
  shows "follows n N k e t"
proof -
  have "as_events t e = as_events s e \<and> as_backend t = as_backend s \<and> as_streams t = as_streams s \<and>
      as_per_thread_stream t = as_per_thread_stream s"
    using assms by (auto simp: cudaEventCreateWithFlags_def answer_def follows_def set_event_def split: if_splits)
  then show ?thesis using follows_same[OF assms(3)] by blast
qed

lemma follows_ended:
  assumes "cudaEventDestroy x s = Some (r, out, t)" "x \<noteq> e" "follows n N k e s"
  shows "follows n N k e t"
proof -
  have "as_events t e = as_events s e \<and> as_backend t = as_backend s \<and> as_streams t = as_streams s \<and>
      as_per_thread_stream t = as_per_thread_stream s"
    using assms by (auto simp: cudaEventDestroy_def answer_def split: if_splits option.splits)
  then show ?thesis using follows_same[OF assms(3)] by blast
qed

lemma passed_iff: "state_ok s \<Longrightarrow> passed n N s \<longleftrightarrow> tracked n N 0 s"
  using tracked_complete[of n N 0 s] by (auto simp: tracked_def)

lemma tracked_step:
  assumes "granted_step cfg s t" "state_ok s" "tracked n N k s"
  shows "tracked n N k t"
proof -
  have "ready n N s" using assms(3) by (auto simp: tracked_def passed_def behind_def)
  from grows_step[OF assms(1,2) this] show ?thesis
    using tracked_grows[OF assms(3)] tracked_finish[OF assms(3)] assms(2) by (auto simp: state_ok_def)
qed

lemma follows_step:
  assumes "granted_step cfg (as_backend s) b" "\<And>n. held n s \<Longrightarrow> usable n b" "follows n N k e s"
  shows "follows n N k e (s\<lparr>as_backend := b\<rparr>)"
  using assms tracked_step step_state_ok by (auto simp: follows_def async_ok_def held_def passed_iff)

lemma between_follows:
  assumes "between e s t" "follows n N k e s" "0 < k"
  shows "follows n N k e t"
  using assms
proof (induction rule: between.induct)
  case recorded
  then show ?case using follows_recorded by blast
next
  case event_synchronized
  then show ?case using follows_updated(1) by (simp add: cudaEventSynchronize_def)
next
  case event_queried
  then show ?case using follows_updated(1) by (simp add: cudaEventQuery_def)
next
  case waited
  then show ?case using follows_waited(1) by blast
next
  case timed
  then show ?case using follows_timed by blast
next
  case rest
  then show ?case using follows_same by metis
qed (auto intro: follows_moves follows_ok follows_new_event follows_ended follows_step create_moves destroy_moves resolve_moves(1)
    stream_synchronized_moves device_synchronized_moves queried_moves launched_moves callback_moves called_moves)

lemma record_follows:
  assumes "cudaEventRecord h now e stream s = Some (cudaSuccess, out, t)" "async_ok s" "get_capture_graph stream (as_graphs s) = 0"
    "resolve_runtime_stream h stream s = (Inr n, s')"
  shows "\<exists>k>0. follows n (si_next_access_value (bk_streams (as_backend t) n)) k e t"
proof -
  note m = resolve_moves[OF assms(4,2)]
  obtain k b ev where r: "stream_record_marker (ho_objects h) n (as_backend s') = ((cudaSuccess, k), b)"
    and t: "as_backend t = b" "as_events t e = Some ev" "ev_stream ev = Some n" "ev_ticket ev = k" "\<not> ev_complete ev"
      "ev_capture_graph ev = 0" "as_streams t = as_streams s'" "as_per_thread_stream t = as_per_thread_stream s'"
    using assms(1,3,4) by (auto simp: cudaEventRecord_def answer_def set_event_def split: if_splits option.splits prod.splits)
  note k = record_tracked[OF r moves_ok(2)[OF m(1)] m(3)[OF refl]]
  have "advances (as_backend s') b" using record_advances[OF moves_ok(2)[OF m(1)] m(3)[OF refl], of "ho_objects h"] r by simp
  then have "async_ok t"
    using k(3) moves_ok(1)[OF m(1)] advances_usable by (auto simp: async_ok_def held_def t(1,7,8))
  then show ?thesis using k(1,2) t by (auto simp: follows_def intro!: exI[of _ k])
qed

text \<open>
  C35: what has been recorded before an event is done once the event is, as long as Metal makes what it is asked for.
  Start in a state that keeps the invariants of the backend and whose handles refer to live streams (\<open>async_ok\<close>).  After
  cudaEventRecord on a stream outside of a capture, let the program make any calls on streams and events, timing
  and captures included, but a new record of the event or its end, let the rest of the runtime submit any work, and
  let Metal finish work in any order, what the host sleeps for included; but let Metal create every encoder and completion buffer that a submission asks
  for once it has reserved its value (it may refuse the command buffer itself), and let the arguments of every kernel
  be bound.  When cudaEventQuery, cudaEventSynchronize or cudaStreamWaitEvent for the event then succeeds, no command
  buffer and no host function of the stream is outstanding that was outstanding when the event was recorded.  A refused
  completion buffer breaks this, as it breaks the order of the fences (lemma \<open>refused_completion_overtakes\<close>).
\<close>

theorem event_completes_stream:
  assumes "async_ok s" "get_capture_graph stream (as_graphs s) = 0" "resolve_runtime_stream h stream s = (Inr n, s')"
    and "cudaEventRecord h now e stream s = Some (cudaSuccess, out, s1)" "between e s1 s2" "good_host h'"
    and "cudaEventQuery h' now' e s2 = Some (cudaSuccess, out', t) \<or>
      cudaEventSynchronize h' now' e s2 = Some (cudaSuccess, out', t) \<or>
      cudaStreamWaitEvent h' now' stream' e flags s2 = Some (cudaSuccess, out', t)"
    and "y \<in> set (bk_todo (as_backend s1))" "stream_of y = n"
  shows "y \<notin> set (bk_todo (as_backend t))"
proof -
  let ?N = "si_next_access_value (bk_streams (as_backend s1) n)"
  obtain k where k: "0 < k" "follows n ?N k e s1" using record_follows[OF assms(4,1,2,3)] by blast
  have f: "follows n ?N k e s2" by (rule between_follows[OF assms(5) k(2,1)])
  have "passed n ?N (as_backend t)"
    using assms(7) follows_updated(2)[OF _ f assms(6) k(1) refl refl] follows_waited(2)[OF _ assms(6) f k(1) refl refl]
    by (auto simp: cudaEventQuery_def cudaEventSynchronize_def)
  moreover have "fences_ok (as_backend s1)" using k(2) by (simp add: follows_def async_ok_def state_ok_def)
  ultimately show ?thesis using passed_gone assms(8,9) by blast
qed

text \<open>An event on the legacy stream of a new program, whose marker Metal then finishes.\<close>

definition sample_calls :: Host where
  "sample_calls = \<lparr>ho_init = cudaSuccess, ho_create_stream = cudaSuccess, ho_objects = all_objects, ho_config = sample_config,
     ho_status = (\<lambda>_. cudaSuccess), ho_wait = (\<lambda>_. run_all), ho_wait_host = (\<lambda>_. run_all)\<rparr>"

definition sample_async :: async where
  "sample_async = \<lparr>as_graphs = sample_start, as_backend = initial_backend, as_streams = Map.empty,
     as_per_thread_stream = None, as_pending_launch_error = cudaSuccess,
     as_events = [16 \<mapsto> \<lparr>ev_disable_timing = True, ev_recorded_once = False, ev_complete = True,
       ev_timing_valid = False, ev_stream = None, ev_ticket = 0, ev_timestamp = 0, ev_capture_graph = 0\<rparr>],
     as_functions = Map.empty, as_next_function = 0, as_callbacks = [], as_pending_async_frees = {}\<rparr>"

definition sample_marker :: CommandBuffer where
  "sample_marker = \<lparr>cb_id = 0, cb_stream = 0, cb_waits = [], cb_work = [], cb_signals = [(0, 1)]\<rparr>"

definition sample_recorded :: async where
  "sample_recorded = snd (snd (the (cudaEventRecord sample_calls 4 16 0 sample_async)))"

lemma sample_async_ok: "async_ok sample_async"
proof -
  have "tickets_ok initial_backend"
    by (simp add: tickets_off_def stream_tickets_ok_def host_count_def initial_backend_def new_stream_def)
  then show ?thesis by (simp add: async_ok_def state_ok_def initial_ok held_def sample_async_def)
qed

definition sample_marked :: Backend where
  "sample_marked = snd (stream_record_marker all_objects 0 initial_backend)"

lemma sample_marked_eq:
  "sample_marked = initial_backend\<lparr>bk_streams := (\<lambda>_. new_stream True True)(0 := (new_stream True True)\<lparr>si_next_access_value := 2,
       si_latest_submission_value := 1, si_next_ticket := 2, si_pending_buffers := [(1, 0)]\<rparr>),
     bk_todo := [Gpu sample_marker], bk_next_buffer := 1\<rparr>"
  "stream_record_marker all_objects 0 initial_backend = ((cudaSuccess, 1), sample_marked)"
  by (simp_all add: sample_marked_def stream_record_marker_def submit_marker_def backend_eval sample_marker_def fun_eq_iff)

lemma sample_recorded_eq:
  "cudaEventRecord sample_calls 4 16 0 sample_async = Some (cudaSuccess, None, sample_recorded)"
  "as_backend sample_recorded = sample_marked"
  "as_events sample_recorded 16 = Some \<lparr>ev_disable_timing = True, ev_recorded_once = True, ev_complete = False,
       ev_timing_valid = False, ev_stream = Some 0, ev_ticket = 1, ev_timestamp = 0, ev_capture_graph = 0\<rparr>"
  by (simp_all add: sample_recorded_def cudaEventRecord_def sample_calls_def sample_async_def get_capture_graph_def sample_start_def
      resolve_runtime_stream_def is_legacy_stream_handle_def initial_backend_def[THEN arg_cong, of bk_default_stream]
      sample_marked_eq(2) answer_def set_event_def)

definition sample_finished :: async where
  "sample_finished = sample_recorded\<lparr>as_backend := finish 0 sample_marked\<rparr>"

lemma sample_between: "between 16 sample_recorded sample_finished"
proof -
  have f: "can_finish 0 sample_marked" by (simp add: can_finish_def sample_marked_eq sample_marker_def)
  have "usable n (finish 0 sample_marked)" if "held n sample_recorded" for n
    using that by (auto simp: held_def sample_recorded_def cudaEventRecord_def sample_calls_def sample_async_def get_capture_graph_def
        sample_start_def resolve_runtime_stream_def is_legacy_stream_handle_def initial_backend_def[THEN arg_cong, of bk_default_stream]
        sample_marked_eq(2) answer_def set_event_def)
  moreover have "granted_step sample_config (as_backend sample_recorded) (finish 0 sample_marked)"
    using granted_step.finishes[OF f] by (simp add: sample_recorded_eq(2))
  ultimately show ?thesis unfolding sample_finished_def by (rule between.backend[OF between.nothing, rotated])
qed

lemma sample_query: "\<exists>t. cudaEventQuery sample_calls 9 16 sample_finished = Some (cudaSuccess, None, t)"
proof -
  have d: "bk_todo (finish 0 sample_marked) = []" "bk_streams (finish 0 sample_marked) = bk_streams sample_marked"
    by (simp_all add: finish_def sample_marked_eq(1) sample_marker_def)
  have m: "si_open (bk_streams sample_marked 0) = None" "si_pending_buffers (bk_streams sample_marked 0) = [(1, 0)]"
    "si_next_ticket (bk_streams sample_marked 0) = 2"
    by (simp_all add: sample_marked_eq(1) new_stream_def)
  have "fst (query_ticket (\<lambda>_. cudaSuccess) 0 1 (finish 0 sample_marked)) = (cudaSuccess, Some True)"
    by (simp add: query_ticket_def poll_completed_def in_flight_def flush_open_batch_def flush_open_batch_locked_def d m
      set_completed_def)
  then obtain b where "query_ticket (\<lambda>_. cudaSuccess) 0 1 (finish 0 sample_marked) = ((cudaSuccess, Some True), b)"
    by (metis prod.collapse)
  then show ?thesis
    by (simp add: cudaEventQuery_def update_event_completion_def sample_finished_def sample_recorded_eq sample_calls_def
      answer_status_def answer_def)
qed

theorem event_completes_stream_witness:
  "\<exists>t. cudaEventQuery sample_calls 9 16 sample_finished = Some (cudaSuccess, None, t) \<and> Gpu sample_marker \<notin> set (bk_todo (as_backend t))"
proof -
  obtain t where t: "cudaEventQuery sample_calls 9 16 sample_finished = Some (cudaSuccess, None, t)" using sample_query by blast
  have r: "resolve_runtime_stream sample_calls 0 sample_async = (Inr 0, sample_async)"
    by (simp add: resolve_runtime_stream_def is_legacy_stream_handle_def sample_calls_def sample_async_def initial_backend_def)
  have g: "good_host sample_calls" using run.metal_host_axioms by (simp add: good_host_def sample_calls_def)
  have "Gpu sample_marker \<notin> set (bk_todo (as_backend t))"
    by (rule event_completes_stream[OF sample_async_ok _ r sample_recorded_eq(1) sample_between g disjI1[OF t]])
       (simp_all add: get_capture_graph_def sample_async_def sample_start_def sample_recorded_eq sample_marked_eq sample_marker_def)
  then show ?thesis using t by blast
qed

end
