(* ===== verification/RuntimeCopies.thy ===== *)
theory RuntimeCopies
  imports RuntimeEvents
begin

text \<open>
  Copies and fills of the CUDA runtime, \<open>runtime/rt/cuda_runtime.cpp\<close>, and what the host functions do that the
  asynchronous ones put on a stream.

  A memory maps addresses to bytes.  The memory given to a call that waits is the memory once its wait is over,
  and to an asynchronous call the memory at the call; a call that writes returns the new memory.
\<close>

section \<open>Memory\<close>

type_synonym memory = "u64 \<Rightarrow> u8"

definition read_bytes :: "memory \<Rightarrow> u64 \<Rightarrow> u64 \<Rightarrow> bytes" where
  "read_bytes m p n = map (\<lambda>i. m (p + of_nat i)) [0..<unat n]"

definition write_bytes :: "u64 \<Rightarrow> bytes \<Rightarrow> memory \<Rightarrow> memory" where
  "write_bytes p bs m = (\<lambda>a. if unat (a - p) < length bs then bs ! unat (a - p) else m a)"

definition fill_bytes :: "u64 \<Rightarrow> u32 \<Rightarrow> u64 \<Rightarrow> memory \<Rightarrow> memory" where
  "fill_bytes p v n m = write_bytes p (replicate (unat n) (ucast v)) m"

text \<open>The pointers inside of a copied aggregate follow the direction of the copy.\<close>

definition copied :: "backend \<Rightarrow> table \<Rightarrow> cudaMemcpyKind \<Rightarrow> bytes \<Rightarrow> bytes" where
  "copied be t kind bs =
     (if kind = cudaMemcpyHostToDevice then relocate_embedded_device_pointers be t bs
      else if kind = cudaMemcpyDeviceToHost then restore_embedded_host_pointers be t bs else bs)"

text \<open>A source is memory from an address on, or bytes that were staged.\<close>

definition source_bytes :: "u64 \<Rightarrow> bytes option \<Rightarrow> memory \<Rightarrow> u64 \<Rightarrow> u64 \<Rightarrow> bytes" where
  "source_bytes src staged m offset n =
     (case staged of None \<Rightarrow> read_bytes m (src + offset) n | Some bs \<Rightarrow> take (unat n) (drop (unat offset) bs))"

definition copy_rows :: "u64 \<Rightarrow> u64 \<Rightarrow> u64 \<Rightarrow> u64 \<Rightarrow> u64 \<Rightarrow> u64 \<Rightarrow> bytes option \<Rightarrow> memory \<Rightarrow> memory" where
  "copy_rows d dpitch src spitch width height staged m =
     fold (\<lambda>row m. write_bytes (d + of_nat row * dpitch) (source_bytes src staged m (of_nat row * spitch) width) m)
       [0..<unat height] m"

definition row_of :: "Volume \<Rightarrow> nat \<Rightarrow> nat \<Rightarrow> u64" where
  "row_of v z y = (pos_z (vo_pos v) + of_nat z) * vo_pitch v * vo_height v + (pos_y (vo_pos v) + of_nat y) * vo_pitch v +
     pos_x (vo_pos v)"

definition rows_of :: "cudaExtent \<Rightarrow> (nat \<times> nat) list" where
  "rows_of e = concat (map (\<lambda>z. map (Pair z) [0..<unat (ex_height e)]) [0..<unat (ex_depth e)])"

definition copy_volume :: "Volume \<Rightarrow> Volume \<Rightarrow> cudaExtent \<Rightarrow> bytes option \<Rightarrow> memory \<Rightarrow> memory" where
  "copy_volume d v e staged m =
     fold (\<lambda>(z, y) m. write_bytes (vo_base d + row_of d z y) (source_bytes (vo_base v) staged m (row_of v z y) (ex_width e)) m)
       (rows_of e) m"

definition fill_rows :: "u64 \<Rightarrow> u64 \<Rightarrow> u32 \<Rightarrow> u64 \<Rightarrow> u64 \<Rightarrow> memory \<Rightarrow> memory" where
  "fill_rows d pitch v width height m = fold (\<lambda>row. fill_bytes (d + of_nat row * pitch) v width) [0..<unat height] m"

definition fill_volume :: "u64 \<Rightarrow> u64 \<Rightarrow> u64 \<Rightarrow> u32 \<Rightarrow> cudaExtent \<Rightarrow> memory \<Rightarrow> memory" where
  "fill_volume base plane_size pitch v e m =
     fold (\<lambda>(z, y). fill_bytes (base + of_nat z * plane_size + of_nat y * pitch) v (ex_width e)) (rows_of e) m"

section \<open>Host functions\<close>

abbreviation runtime_of :: "async \<Rightarrow> runtime" where
  "runtime_of s \<equiv> gs_rt (as_graphs s)"

abbreviation table_of :: "async \<Rightarrow> table" where
  "table_of s \<equiv> allocations (runtime_of s)"

text \<open>What a host function writes; the table is the one when it runs.\<close>

fun run_operation :: "backend \<Rightarrow> table \<Rightarrow> HostOperation \<Rightarrow> memory \<Rightarrow> memory" where
  "run_operation be t (CopyBytes d src n kind staged) m =
     (if n = 0 then m
      else case staged of
        Some bs \<Rightarrow> write_bytes d bs m
      | None \<Rightarrow> if kind = cudaMemcpyDeviceToHost then write_bytes d (restore_embedded_host_pointers be t (read_bytes m src n)) m
                else write_bytes d (read_bytes m src n) m)"
| "run_operation be t (CopyRows d dpitch src spitch width height staged) m =
     (if width = 0 then m else copy_rows d dpitch src spitch width height staged m)"
| "run_operation be t (CopyVolume d v e staged) m = copy_volume d v e staged m"
| "run_operation be t (SetBytes d v n) m = (if n = 0 then m else fill_bytes d v n m)"
| "run_operation be t (SetRows d pitch v width height) m = (if width = 0 then m else fill_rows d pitch v width height m)"
| "run_operation be t (SetVolume base plane_size pitch v e) m =
     (if ex_width e = 0 then m else fill_volume base plane_size pitch v e m)"
| "run_operation be t NoOperation m = m"
| "run_operation be t (UserFunction fn user_data) m = m"
| "run_operation be t (FreeMemory p a) m = m"

text \<open>The deferred release of an allocation; it then gives up its reference to the allocation of a graph.\<close>

definition run_free :: "u64 \<Rightarrow> nat option \<Rightarrow> async \<Rightarrow> async" where
  "run_free p a s =
     (let g = as_graphs s;
          g1 = (if a \<noteq> None then g\<lparr>gs_rt := snd (deactivate_graph_allocation a (gs_rt g))\<rparr>
                else g\<lparr>gs_rt := (gs_rt g)\<lparr>allocations := snd (table_erase p (allocations (gs_rt g)))\<rparr>\<rparr>)
      in s\<lparr>as_graphs := drop_reference a g1, as_pending_async_frees := as_pending_async_frees s - {p}\<rparr>)"

section \<open>Calls that wait\<close>

definition is_pageable_host_memory :: "u64 \<Rightarrow> async \<Rightarrow> bool" where
  "is_pageable_host_memory ptr s = (ptr \<noteq> 0 \<and> table_resolve ptr (table_of s) = None)"

definition host_pointer :: "backend \<Rightarrow> u64 \<Rightarrow> u64 \<Rightarrow> async \<Rightarrow> u64" where
  "host_pointer be ptr n s = (case host_accessible_pointer be ptr n (runtime_of s) of None \<Rightarrow> 0 | Some a \<Rightarrow> a)"

definition inaccessible :: "backend \<Rightarrow> u64 \<Rightarrow> u64 \<Rightarrow> async \<Rightarrow> bool" where
  "inaccessible be ptr n s = (host_accessible_pointer be ptr n (runtime_of s) = None)"

definition synchronized :: "Host \<Rightarrow> (async \<Rightarrow> 'o outcome) \<Rightarrow> async \<Rightarrow> 'o outcome" where
  "synchronized h k s =
     (case synchronize (ho_status h) (ho_wait h) (ho_wait_host h) (as_backend s) of
        None \<Rightarrow> None
      | Some (e, b) \<Rightarrow> if e \<noteq> cudaSuccess then answer e None (s\<lparr>as_backend := b\<rparr>) else k (s\<lparr>as_backend := b\<rparr>))"

definition cudaMemcpy ::
  "Host \<Rightarrow> backend \<Rightarrow> memory \<Rightarrow> u64 \<Rightarrow> u64 \<Rightarrow> u64 \<Rightarrow> cudaMemcpyKind \<Rightarrow> async \<Rightarrow> memory outcome" where
  "cudaMemcpy h be m dst src count kind s =
     (if (dst = 0 \<or> src = 0) \<and> count > 0 then answer cudaErrorInvalidValue None s
      else if ho_init h \<noteq> cudaSuccess then answer (ho_init h) None s
      else case resolve_memcpy_kind dst src kind (runtime_of s) of
        Inl e \<Rightarrow> answer e None s
      | Inr resolved \<Rightarrow> synchronized h (\<lambda>s.
          if count = 0 then answer cudaSuccess (Some m) s
          else if inaccessible be dst count s \<or> inaccessible be src count s then answer cudaErrorInvalidValue None s
          else answer cudaSuccess (Some (write_bytes (host_pointer be dst count s)
            (copied be (table_of s) resolved (read_bytes m (host_pointer be src count s) count)) m)) s) s)"

definition cudaMemset :: "Host \<Rightarrow> backend \<Rightarrow> memory \<Rightarrow> u64 \<Rightarrow> u32 \<Rightarrow> u64 \<Rightarrow> async \<Rightarrow> memory outcome" where
  "cudaMemset h be m dev_ptr v count s =
     (if dev_ptr = 0 \<and> count > 0 then answer cudaErrorInvalidValue None s
      else if ho_init h \<noteq> cudaSuccess then answer (ho_init h) None s
      else synchronized h (\<lambda>s.
        if count = 0 then answer cudaSuccess (Some m) s
        else if inaccessible be dev_ptr count s then answer cudaErrorInvalidValue None s
        else answer cudaSuccess (Some (fill_bytes (host_pointer be dev_ptr count s) v count m)) s) s)"

text \<open>The bytes that rows with a pitch span.\<close>

definition rows_span :: "u64 \<Rightarrow> u64 \<Rightarrow> u64 \<Rightarrow> u64" where
  "rows_span pitch width height = (if height = 0 then 0 else (height - 1) * pitch + width)"

definition cudaMemcpy2D ::
  "Host \<Rightarrow> backend \<Rightarrow> memory \<Rightarrow> u64 \<Rightarrow> u64 \<Rightarrow> u64 \<Rightarrow> u64 \<Rightarrow> u64 \<Rightarrow> u64 \<Rightarrow> cudaMemcpyKind \<Rightarrow> async \<Rightarrow> memory outcome" where
  "cudaMemcpy2D h be m dst dpitch src spitch width height kind s =
     (let some = (width > 0 \<and> height > 0) in
      if (dst = 0 \<or> src = 0) \<and> some then answer cudaErrorInvalidValue None s
      else if ho_init h \<noteq> cudaSuccess then answer (ho_init h) None s
      else case (if some then resolve_memcpy_kind dst src kind (runtime_of s) else Inr kind) of
        Inl e \<Rightarrow> answer e None s
      | Inr _ \<Rightarrow> synchronized h (\<lambda>s.
          let dspan = rows_span dpitch width height; sspan = rows_span spitch width height in
          if (inaccessible be dst dspan s \<or> inaccessible be src sspan s) \<and> some then answer cudaErrorInvalidValue None s
          else answer cudaSuccess (Some (if width = 0 then m
            else copy_rows (host_pointer be dst dspan s) dpitch (host_pointer be src sspan s) spitch width height None m)) s) s)"

definition cudaMemset2D :: "Host \<Rightarrow> backend \<Rightarrow> memory \<Rightarrow> u64 \<Rightarrow> u64 \<Rightarrow> u32 \<Rightarrow> u64 \<Rightarrow> u64 \<Rightarrow> async \<Rightarrow> memory outcome" where
  "cudaMemset2D h be m dev_ptr pitch v width height s =
     (let some = (width > 0 \<and> height > 0); span = rows_span pitch width height in
      if dev_ptr = 0 \<and> some then answer cudaErrorInvalidValue None s
      else if ho_init h \<noteq> cudaSuccess then answer (ho_init h) None s
      else if inaccessible be dev_ptr span s \<and> some then answer cudaErrorInvalidValue None s
      else answer cudaSuccess (Some (if width = 0 then m
        else fill_rows (host_pointer be dev_ptr span s) pitch v width height m)) s)"

definition has_extent :: "cudaExtent \<Rightarrow> bool" where
  "has_extent e \<longleftrightarrow> ex_width e > 0 \<and> ex_height e > 0 \<and> ex_depth e > 0"

definition plane_span :: "cudaPitchedPtr \<Rightarrow> cudaExtent \<Rightarrow> u64" where
  "plane_span p e =
     (if ex_depth e = 0 \<or> ex_height e = 0 then 0
      else (ex_depth e - 1) * (pp_pitch p * pp_ysize p) + (ex_height e - 1) * pp_pitch p + ex_width e)"

definition cudaMemset3D :: "Host \<Rightarrow> backend \<Rightarrow> memory \<Rightarrow> cudaPitchedPtr \<Rightarrow> u32 \<Rightarrow> cudaExtent \<Rightarrow> async \<Rightarrow> memory outcome" where
  "cudaMemset3D h be m p v e s =
     (if pp_ptr p = 0 \<and> has_extent e then answer cudaErrorInvalidValue None s
      else if ho_init h \<noteq> cudaSuccess then answer (ho_init h) None s
      else if inaccessible be (pp_ptr p) (plane_span p e) s \<and> has_extent e then answer cudaErrorInvalidValue None s
      else answer cudaSuccess (Some (if ex_width e = 0 then m
        else fill_volume (host_pointer be (pp_ptr p) (plane_span p e) s) (pp_pitch p * pp_ysize p) (pp_pitch p) v e m)) s)"

text \<open>The two ends of a copy of a volume between pointers.\<close>

definition linear_volume :: "u64 \<Rightarrow> cudaPitchedPtr \<Rightarrow> cudaPos \<Rightarrow> cudaExtent \<Rightarrow> Volume" where
  "linear_volume base p position e =
     \<lparr>vo_base = base, vo_pitch = (if pp_pitch p = 0 then ex_width e else pp_pitch p),
      vo_height = (if pp_ysize p = 0 then ex_height e else pp_ysize p), vo_pos = position\<rparr>"

definition volume_span :: "Volume \<Rightarrow> cudaExtent \<Rightarrow> u64" where
  "volume_span v e =
     (if ex_depth e = 0 \<or> ex_height e = 0 then 0
      else (pos_z (vo_pos v) + ex_depth e - 1) * vo_pitch v * vo_height v +
        (pos_y (vo_pos v) + ex_height e - 1) * vo_pitch v + pos_x (vo_pos v) + ex_width e)"

definition linear_side :: "backend \<Rightarrow> cudaPitchedPtr \<Rightarrow> cudaPos \<Rightarrow> cudaExtent \<Rightarrow> async \<Rightarrow> bool \<times> Volume" where
  "linear_side be p position e s =
     (let span = volume_span (linear_volume 0 p position e) e
      in (inaccessible be (pp_ptr p) span s, linear_volume (host_pointer be (pp_ptr p) span s) p position e))"

text \<open>An end that is an array, or a pointer beside an array; \<open>w\<close> is the width in bytes and \<open>sz\<close> the size of an element.\<close>

definition array_side ::
  "backend \<Rightarrow> CuMetalArray option \<Rightarrow> cudaPitchedPtr \<Rightarrow> cudaPos \<Rightarrow> cudaExtent \<Rightarrow> u64 \<Rightarrow> u64 \<Rightarrow> async \<Rightarrow> Volume" where
  "array_side be array p position e w sz s =
     (case array of
        Some a \<Rightarrow> \<lparr>vo_base = ca_data a, vo_pitch = ca_width a * sz, vo_height = ca_height a,
                    vo_pos = position\<lparr>pos_x := pos_x position * sz\<rparr>\<rparr>
      | None \<Rightarrow>
          let span = (case linear_3d_span p position w (ex_height e) (ex_depth e) of None \<Rightarrow> 0 | Some n \<Rightarrow> n)
          in \<lparr>vo_base = host_pointer be (pp_ptr p) span s, vo_pitch = (if pp_pitch p = 0 then w else pp_pitch p),
              vo_height = (if pp_ysize p = 0 then ex_height e else pp_ysize p), vo_pos = position\<rparr>)"

definition array_width :: "(u64 \<Rightarrow> CuMetalArray option) \<Rightarrow> cudaMemcpy3DParms \<Rightarrow> u64" where
  "array_width arrays p =
     (let source = resolve_array_handle arrays (cp_srcArray p);
          shape = (if source \<noteq> None then source else resolve_array_handle arrays (cp_dstArray p))
      in case Option.bind shape array_element_size of None \<Rightarrow> 0 | Some sz \<Rightarrow> ex_width (cp_extent p) * sz)"

definition copy_array_3d :: "backend \<Rightarrow> memory \<Rightarrow> cudaMemcpy3DParms \<Rightarrow> async \<Rightarrow> memory outcome" where
  "copy_array_3d be m p s =
     (let arrays = gs_arrays (as_graphs s); e = cp_extent p; w = array_width arrays p; sz = w div ex_width e;
          source = array_side be (resolve_array_handle arrays (cp_srcArray p)) (cp_srcPtr p) (cp_srcPos p) e w sz s;
          destination = array_side be (resolve_array_handle arrays (cp_dstArray p)) (cp_dstPtr p) (cp_dstPos p) e w sz s
      in if validate_array_memcpy_3d arrays p \<noteq> cudaSuccess then answer (validate_array_memcpy_3d arrays p) None s
         else if vo_base source = 0 \<or> vo_base destination = 0 then answer cudaErrorInvalidValue None s
         else answer cudaSuccess (Some (copy_volume destination source (e\<lparr>ex_width := w\<rparr>) None m)) s)"

definition cudaMemcpy3D :: "Host \<Rightarrow> backend \<Rightarrow> memory \<Rightarrow> cudaMemcpy3DParms option \<Rightarrow> async \<Rightarrow> memory outcome" where
  "cudaMemcpy3D h be m params s =
     (case params of
        None \<Rightarrow> answer cudaErrorInvalidValue None s
      | Some p \<Rightarrow>
          if validate_memcpy_kind (cp_kind p) \<noteq> cudaSuccess \<or> (cp_srcArray p = 0) = (pp_ptr (cp_srcPtr p) = 0) \<or>
             (cp_dstArray p = 0) = (pp_ptr (cp_dstPtr p) = 0)
          then answer cudaErrorInvalidValue None s
          else if \<not> has_extent (cp_extent p) then answer cudaSuccess (Some m) s
          else if cp_srcArray p \<noteq> 0 \<or> cp_dstArray p \<noteq> 0 then copy_array_3d be m p s
          else if ho_init h \<noteq> cudaSuccess then answer (ho_init h) None s
          else case (linear_side be (cp_srcPtr p) (cp_srcPos p) (cp_extent p) s,
                     linear_side be (cp_dstPtr p) (cp_dstPos p) (cp_extent p) s) of
            ((bad_src, v), (bad_dst, d)) \<Rightarrow>
              if bad_src \<or> bad_dst then answer cudaErrorInvalidValue None s
              else answer cudaSuccess (Some (copy_volume d v (cp_extent p) None m)) s)"

definition cudaMemcpyPeer ::
  "Host \<Rightarrow> backend \<Rightarrow> memory \<Rightarrow> u64 \<Rightarrow> int \<Rightarrow> u64 \<Rightarrow> int \<Rightarrow> u64 \<Rightarrow> async \<Rightarrow> memory outcome" where
  "cudaMemcpyPeer h be m dst dst_device src src_device count s = cudaMemcpy h be m dst src count cudaMemcpyDefault s"

section \<open>Asynchronous calls\<close>

definition enqueue_stream_host_op_pageable ::
  "Host \<Rightarrow> u64 \<Rightarrow> bool \<Rightarrow> HostOperation \<Rightarrow> async \<Rightarrow> (cudaError \<times> async) option" where
  "enqueue_stream_host_op_pageable h stream complete_before_return op s =
     (case enqueue_stream_host_op h stream op s of
        (e, s1) \<Rightarrow>
          if e \<noteq> cudaSuccess \<or> \<not> complete_before_return then Some (e, s1) else synchronize_stream_for_host_op h stream s1)"

text \<open>The copy on the GPU, when both ends are allocations that hold it: whether it was submitted.\<close>

definition try_blit :: "Host \<Rightarrow> u64 \<Rightarrow> u64 \<Rightarrow> u64 \<Rightarrow> u64 \<Rightarrow> async \<Rightarrow> bool \<times> async" where
  "try_blit h dst src count stream s =
     (case (if count > 0 then (table_resolve dst (table_of s), table_resolve src (table_of s)) else (None, None)) of
        (Some d, Some r) \<Rightarrow>
          if dst = 0 \<or> src = 0 \<or> r_remaining d < count \<or> r_remaining r < count then (False, s)
          else (case resolve_runtime_stream h stream s of
            (Inl _, s1) \<Rightarrow> (False, s1)
          | (Inr n, s1) \<Rightarrow>
              (case blit_copy (ho_config h) (ho_objects h) n (r_buffer d) (r_buffer r) (unat count) (as_backend s1) of
                 (e, b) \<Rightarrow> (e = cudaSuccess, s1\<lparr>as_backend := b\<rparr>)))
      | _ \<Rightarrow> (False, s))"

definition copy_on_host ::
  "Host \<Rightarrow> backend \<Rightarrow> memory \<Rightarrow> u64 \<Rightarrow> u64 \<Rightarrow> u64 \<Rightarrow> cudaMemcpyKind \<Rightarrow> u64 \<Rightarrow> async \<Rightarrow> unit outcome" where
  "copy_on_host h be m dst src count resolved stream s =
     (if (inaccessible be dst count s \<or> inaccessible be src count s) \<and> count > 0 then answer cudaErrorInvalidValue None s
      else let d = host_pointer be dst count s; r = host_pointer be src count s;
               staged = (if count > 0 \<and> resolved = cudaMemcpyHostToDevice
                         then Some (relocate_embedded_device_pointers be (table_of s) (read_bytes m r count)) else None)
      in answer_status (enqueue_stream_host_op_pageable h stream (count > 0 \<and> is_pageable_host_memory dst s)
           (CopyBytes d r count resolved staged) s))"

text \<open>\<open>node\<close> is the address of the node that a stream which is being captured records.\<close>

definition cudaMemcpyAsync ::
  "Host \<Rightarrow> backend \<Rightarrow> memory \<Rightarrow> u64 \<Rightarrow> u64 \<Rightarrow> u64 \<Rightarrow> u64 \<Rightarrow> cudaMemcpyKind \<Rightarrow> u64 \<Rightarrow> async \<Rightarrow> unit outcome" where
  "cudaMemcpyAsync h be m node dst src count kind stream s =
     (let g = get_capture_graph stream (as_graphs s) in
      if (dst = 0 \<or> src = 0) \<and> count > 0 then answer cudaErrorInvalidValue None s
      else if ho_init h \<noteq> cudaSuccess then answer (ho_init h) None s
      else if g \<noteq> 0
      then lift_graphs (record_node g node ((new_node cudaGraphNodeTypeMemcpy)\<lparr>gn_dst := dst, gn_src := src, gn_count := count,
             gn_memcpy_kind := kind\<rparr>) (as_graphs s)) s
      else case resolve_memcpy_kind dst src kind (runtime_of s) of
        Inl e \<Rightarrow> answer e None s
      | Inr resolved \<Rightarrow>
          (case try_blit h dst src count stream s of
             (sent, s1) \<Rightarrow>
               if sent then answer cudaSuccess None s1 else copy_on_host h be m dst src count resolved stream s1))"

definition cudaMemcpyPeerAsync ::
  "Host \<Rightarrow> backend \<Rightarrow> memory \<Rightarrow> u64 \<Rightarrow> u64 \<Rightarrow> int \<Rightarrow> u64 \<Rightarrow> int \<Rightarrow> u64 \<Rightarrow> u64 \<Rightarrow> async \<Rightarrow> unit outcome" where
  "cudaMemcpyPeerAsync h be m node dst dst_device src src_device count stream s =
     cudaMemcpyAsync h be m node dst src count cudaMemcpyDefault stream s"

definition cudaMemsetAsync :: "Host \<Rightarrow> backend \<Rightarrow> u64 \<Rightarrow> u64 \<Rightarrow> u32 \<Rightarrow> u64 \<Rightarrow> u64 \<Rightarrow> async \<Rightarrow> unit outcome" where
  "cudaMemsetAsync h be node dev_ptr v count stream s =
     (let g = get_capture_graph stream (as_graphs s) in
      if dev_ptr = 0 \<and> count > 0 then answer cudaErrorInvalidValue None s
      else if ho_init h \<noteq> cudaSuccess then answer (ho_init h) None s
      else if g \<noteq> 0
      then lift_graphs (record_node g node ((new_node cudaGraphNodeTypeMemset)\<lparr>gn_dst := dev_ptr, gn_memset_value := v,
             gn_count := count\<rparr>) (as_graphs s)) s
      else if inaccessible be dev_ptr count s \<and> count > 0 then answer cudaErrorInvalidValue None s
      else answer_status (enqueue_stream_host_op_pageable h stream (count > 0 \<and> is_pageable_host_memory dev_ptr s)
             (SetBytes (host_pointer be dev_ptr count s) v count) s))"

definition cudaMemcpy2DAsync ::
  "Host \<Rightarrow> backend \<Rightarrow> memory \<Rightarrow> u64 \<Rightarrow> u64 \<Rightarrow> u64 \<Rightarrow> u64 \<Rightarrow> u64 \<Rightarrow> u64 \<Rightarrow> cudaMemcpyKind \<Rightarrow> u64 \<Rightarrow> async \<Rightarrow> unit outcome" where
  "cudaMemcpy2DAsync h be m dst dpitch src spitch width height kind stream s =
     (let some = (width > 0 \<and> height > 0); dspan = rows_span dpitch width height; sspan = rows_span spitch width height;
          d = host_pointer be dst dspan s; r = host_pointer be src sspan s in
      if (inaccessible be dst dspan s \<or> inaccessible be src sspan s) \<and> some then answer cudaErrorInvalidValue None s
      else answer_status (enqueue_stream_host_op_pageable h stream (some \<and> is_pageable_host_memory dst s)
        (CopyRows d dpitch r spitch width height
          (if sspan > 0 \<and> width > 0 \<and> is_pageable_host_memory src s then Some (read_bytes m r sspan) else None)) s))"

definition cudaMemset2DAsync ::
  "Host \<Rightarrow> backend \<Rightarrow> u64 \<Rightarrow> u64 \<Rightarrow> u32 \<Rightarrow> u64 \<Rightarrow> u64 \<Rightarrow> u64 \<Rightarrow> async \<Rightarrow> unit outcome" where
  "cudaMemset2DAsync h be dev_ptr pitch v width height stream s =
     (let some = (width > 0 \<and> height > 0); span = rows_span pitch width height in
      if inaccessible be dev_ptr span s \<and> some then answer cudaErrorInvalidValue None s
      else answer_status (enqueue_stream_host_op_pageable h stream (some \<and> is_pageable_host_memory dev_ptr s)
        (SetRows (host_pointer be dev_ptr span s) pitch v width height) s))"

definition cudaMemset3DAsync :: "Host \<Rightarrow> backend \<Rightarrow> cudaPitchedPtr \<Rightarrow> u32 \<Rightarrow> cudaExtent \<Rightarrow> u64 \<Rightarrow> async \<Rightarrow> unit outcome" where
  "cudaMemset3DAsync h be p v e stream s =
     (if inaccessible be (pp_ptr p) (plane_span p e) s \<and> has_extent e then answer cudaErrorInvalidValue None s
      else answer_status (enqueue_stream_host_op_pageable h stream (has_extent e \<and> is_pageable_host_memory (pp_ptr p) s)
        (SetVolume (host_pointer be (pp_ptr p) (plane_span p e) s) (pp_pitch p * pp_ysize p) (pp_pitch p) v e) s))"

text \<open>A copy that has an array at one end is done at once, by the call that waits for nothing.\<close>

definition cudaMemcpy3DAsync ::
  "Host \<Rightarrow> backend \<Rightarrow> memory \<Rightarrow> cudaMemcpy3DParms option \<Rightarrow> u64 \<Rightarrow> async \<Rightarrow> memory outcome" where
  "cudaMemcpy3DAsync h be m params stream s =
     (case params of
        None \<Rightarrow> answer cudaErrorInvalidValue None s
      | Some p \<Rightarrow>
          if cp_srcArray p \<noteq> 0 \<or> cp_dstArray p \<noteq> 0 then cudaMemcpy3D h be m params s
          else case (linear_side be (cp_srcPtr p) (cp_srcPos p) (cp_extent p) s,
                     linear_side be (cp_dstPtr p) (cp_dstPos p) (cp_extent p) s) of
            ((bad_src, v), (bad_dst, d)) \<Rightarrow>
              if (bad_src \<or> bad_dst) \<and> has_extent (cp_extent p) then answer cudaErrorInvalidValue None s
              else let span = volume_span v (cp_extent p); some = has_extent (cp_extent p)
              in case enqueue_stream_host_op_pageable h stream (some \<and> is_pageable_host_memory (pp_ptr (cp_dstPtr p)) s)
                   (CopyVolume d v (cp_extent p)
                     (if some \<and> span > 0 \<and> is_pageable_host_memory (pp_ptr (cp_srcPtr p)) s
                      then Some (read_bytes m (vo_base v) span) else None)) s of
                   None \<Rightarrow> None
                 | Some (e, s1) \<Rightarrow> answer e None s1)"

section \<open>Symbols\<close>

definition resolve_memcpy_to_symbol_kind :: "u64 \<Rightarrow> cudaMemcpyKind \<Rightarrow> runtime \<Rightarrow> cudaError + cudaMemcpyKind" where
  "resolve_memcpy_to_symbol_kind src kind s =
     (let src_is_device = is_device_pointer src s in
      case kind of
        cudaMemcpyDefault \<Rightarrow> Inr (if src_is_device then cudaMemcpyDeviceToDevice else cudaMemcpyHostToDevice)
      | cudaMemcpyHostToDevice \<Rightarrow> Inr kind
      | cudaMemcpyDeviceToDevice \<Rightarrow> if \<not> src_is_device then Inl cudaErrorInvalidDevicePointer else Inr kind
      | _ \<Rightarrow> Inl cudaErrorInvalidValue)"

definition resolve_memcpy_from_symbol_kind :: "u64 \<Rightarrow> cudaMemcpyKind \<Rightarrow> runtime \<Rightarrow> cudaError + cudaMemcpyKind" where
  "resolve_memcpy_from_symbol_kind dst kind s =
     (let dst_is_device = is_device_pointer dst s in
      case kind of
        cudaMemcpyDefault \<Rightarrow> Inr (if dst_is_device then cudaMemcpyDeviceToDevice else cudaMemcpyDeviceToHost)
      | cudaMemcpyDeviceToHost \<Rightarrow> Inr kind
      | cudaMemcpyDeviceToDevice \<Rightarrow> if \<not> dst_is_device then Inl cudaErrorInvalidDevicePointer else Inr kind
      | _ \<Rightarrow> Inl cudaErrorInvalidValue)"

text \<open>\<open>other\<close> is the table of the symbols of fat binaries; a symbol of neither table is its own address.\<close>

definition checked_symbol_ptr ::
  "backend \<Rightarrow> (u64 \<Rightarrow> (u64 \<times> u64) option) \<Rightarrow> u64 \<Rightarrow> u64 \<Rightarrow> u64 \<Rightarrow> async \<Rightarrow> cudaError + u64" where
  "checked_symbol_ptr be other symbol count offset s =
     (let found = (case lookup_symbol (be_contents be) symbol (gs_registry (as_graphs s)) of
            Some r \<Rightarrow> Some r | None \<Rightarrow> other symbol) in
      if symbol = 0 then Inl cudaErrorInvalidValue
      else if (case found of None \<Rightarrow> False | Some (_, n) \<Rightarrow> n > 0 \<and> (offset > n \<or> count > n - offset))
      then Inl cudaErrorInvalidValue
      else if offset > - 1 - count then Inl cudaErrorInvalidValue
      else Inr ((case found of None \<Rightarrow> symbol | Some (a, _) \<Rightarrow> a) + offset))"

text \<open>The checks that the calls on symbols share; \<open>k\<close> is what follows, with the address in the symbol.\<close>

definition with_symbol ::
  "Host \<Rightarrow> backend \<Rightarrow> (u64 \<Rightarrow> (u64 \<times> u64) option) \<Rightarrow> u64 \<Rightarrow> u64 \<Rightarrow> u64 \<Rightarrow> u64 \<Rightarrow> (cudaError + cudaMemcpyKind) \<Rightarrow>
     (u64 \<Rightarrow> 'o outcome) \<Rightarrow> async \<Rightarrow> 'o outcome" where
  "with_symbol h be other symbol ptr count offset resolved k s =
     (if symbol = 0 \<or> (ptr = 0 \<and> count > 0) then answer cudaErrorInvalidValue None s
      else if ho_init h \<noteq> cudaSuccess then answer (ho_init h) None s
      else case resolved of
        Inl e \<Rightarrow> answer e None s
      | Inr _ \<Rightarrow> (case checked_symbol_ptr be other symbol count offset s of Inl e \<Rightarrow> answer e None s | Inr a \<Rightarrow> k a))"

definition cudaMemcpyToSymbol ::
  "Host \<Rightarrow> backend \<Rightarrow> (u64 \<Rightarrow> (u64 \<times> u64) option) \<Rightarrow> memory \<Rightarrow> u64 \<Rightarrow> u64 \<Rightarrow> u64 \<Rightarrow> u64 \<Rightarrow> cudaMemcpyKind \<Rightarrow> async \<Rightarrow>
     memory outcome" where
  "cudaMemcpyToSymbol h be other m symbol src count offset kind s =
     with_symbol h be other symbol src count offset (resolve_memcpy_to_symbol_kind src kind (runtime_of s))
       (\<lambda>a. synchronized h (answer cudaSuccess (Some (if count = 0 then m else write_bytes a (read_bytes m src count) m))) s) s"

definition cudaMemcpyFromSymbol ::
  "Host \<Rightarrow> backend \<Rightarrow> (u64 \<Rightarrow> (u64 \<times> u64) option) \<Rightarrow> memory \<Rightarrow> u64 \<Rightarrow> u64 \<Rightarrow> u64 \<Rightarrow> u64 \<Rightarrow> cudaMemcpyKind \<Rightarrow> async \<Rightarrow>
     memory outcome" where
  "cudaMemcpyFromSymbol h be other m dst symbol count offset kind s =
     with_symbol h be other symbol dst count offset (resolve_memcpy_from_symbol_kind dst kind (runtime_of s))
       (\<lambda>a. synchronized h (answer cudaSuccess (Some (if count = 0 then m else write_bytes dst (read_bytes m a count) m))) s) s"

text \<open>These copies move no pointers, as the copy of bytes between two addresses of the host does.\<close>

definition cudaMemcpyToSymbolAsync ::
  "Host \<Rightarrow> backend \<Rightarrow> (u64 \<Rightarrow> (u64 \<times> u64) option) \<Rightarrow> memory \<Rightarrow> u64 \<Rightarrow> u64 \<Rightarrow> u64 \<Rightarrow> u64 \<Rightarrow> cudaMemcpyKind \<Rightarrow> u64 \<Rightarrow> async \<Rightarrow>
     unit outcome" where
  "cudaMemcpyToSymbolAsync h be other m symbol src count offset kind stream s =
     with_symbol h be other symbol src count offset (resolve_memcpy_to_symbol_kind src kind (runtime_of s))
       (\<lambda>a. case enqueue_stream_host_op h stream (CopyBytes a src count cudaMemcpyHostToHost
               (if count > 0 \<and> is_pageable_host_memory src s then Some (read_bytes m src count) else None)) s of
          (e, s1) \<Rightarrow> answer e None s1) s"

definition cudaMemcpyFromSymbolAsync ::
  "Host \<Rightarrow> backend \<Rightarrow> (u64 \<Rightarrow> (u64 \<times> u64) option) \<Rightarrow> u64 \<Rightarrow> u64 \<Rightarrow> u64 \<Rightarrow> u64 \<Rightarrow> cudaMemcpyKind \<Rightarrow> u64 \<Rightarrow> async \<Rightarrow>
     unit outcome" where
  "cudaMemcpyFromSymbolAsync h be other dst symbol count offset kind stream s =
     with_symbol h be other symbol dst count offset (resolve_memcpy_from_symbol_kind dst kind (runtime_of s))
       (\<lambda>a. answer_status (enqueue_stream_host_op_pageable h stream (count > 0 \<and> is_pageable_host_memory dst s)
          (CopyBytes dst a count cudaMemcpyHostToHost None) s)) s"

section \<open>Allocation in stream order\<close>

definition lift_runtime :: "cudaError \<times> 'o option \<times> runtime \<Rightarrow> async \<Rightarrow> 'o outcome" where
  "lift_runtime r s = (case r of (e, out, rt) \<Rightarrow> Some (e, out, s\<lparr>as_graphs := (as_graphs s)\<lparr>gs_rt := rt\<rparr>\<rparr>))"

text \<open>\<open>a\<close> is the number of the allocation object that a capture creates, and \<open>node\<close> the address of its node.\<close>

definition cudaMallocAsync ::
  "Host \<Rightarrow> backend \<Rightarrow> u64 option \<Rightarrow> nat \<Rightarrow> bool \<Rightarrow> u64 \<Rightarrow> u64 \<Rightarrow> async \<Rightarrow> u64 outcome" where
  "cudaMallocAsync h be node a dev_ptr_null sz stream s =
     (let g = get_capture_graph stream (as_graphs s) in
      if dev_ptr_null \<or> sz = 0 then answer cudaErrorInvalidValue None s
      else if g \<noteq> 0 then lift_graphs (capture_malloc_async be node a dev_ptr_null g sz (as_graphs s)) s
      else case enqueue_stream_host_op h stream NoOperation s of
        (e, s1) \<Rightarrow> if e \<noteq> cudaSuccess then answer e None s1 else lift_runtime (cudaMalloc be dev_ptr_null sz (runtime_of s1)) s1)"

definition cudaMallocFromPoolAsync ::
  "Host \<Rightarrow> backend \<Rightarrow> u64 option \<Rightarrow> nat \<Rightarrow> bool \<Rightarrow> u64 \<Rightarrow> u64 \<Rightarrow> u64 \<Rightarrow> async \<Rightarrow> u64 outcome" where
  "cudaMallocFromPoolAsync h be node a dev_ptr_null sz pool stream s = cudaMallocAsync h be node a dev_ptr_null sz stream s"

definition held_allocation :: "u64 \<Rightarrow> runtime \<Rightarrow> nat option" where
  "held_allocation p s =
     (case graph_allocations s p of None \<Rightarrow> None | Some a \<Rightarrow> if graph_objects s a = None then None else Some a)"

definition cudaFreeAsync :: "Host \<Rightarrow> u64 option \<Rightarrow> u64 \<Rightarrow> u64 \<Rightarrow> async \<Rightarrow> unit outcome" where
  "cudaFreeAsync h node dev_ptr stream s =
     (let g = get_capture_graph stream (as_graphs s) in
      if dev_ptr = 0 then answer cudaSuccess None s
      else if g \<noteq> 0 then lift_graphs (capture_free_async node g dev_ptr (as_graphs s)) s
      else case table_resolve dev_ptr (table_of s) of
        None \<Rightarrow> answer cudaErrorInvalidDevicePointer None s
      | Some r \<Rightarrow>
          if r_offset r \<noteq> 0 \<or> dev_ptr \<in> as_pending_async_frees s then answer cudaErrorInvalidDevicePointer None s
          else let a = held_allocation dev_ptr (runtime_of s);
                   s1 = s\<lparr>as_pending_async_frees := insert dev_ptr (as_pending_async_frees s)\<rparr>
          in case enqueue_stream_host_op h stream (FreeMemory dev_ptr a) s1 of
               (e, s2) \<Rightarrow>
                 if e \<noteq> cudaSuccess
                 then answer e None (s2\<lparr>as_pending_async_frees := as_pending_async_frees s2 - {dev_ptr}\<rparr>)
                 else answer cudaSuccess None (s2\<lparr>as_graphs := add_reference a (as_graphs s2)\<rparr>))"

definition in_allocation :: "u64 \<Rightarrow> u64 \<Rightarrow> async \<Rightarrow> bool" where
  "in_allocation p n s = (case table_resolve p (table_of s) of None \<Rightarrow> False | Some r \<Rightarrow> n \<le> r_remaining r)"

definition cudaMemPrefetchAsync :: "Host \<Rightarrow> u64 \<Rightarrow> u64 \<Rightarrow> int \<Rightarrow> u64 \<Rightarrow> async \<Rightarrow> unit outcome" where
  "cudaMemPrefetchAsync h dev_ptr count dst_device stream s =
     (if dev_ptr = 0 \<or> count = 0 \<or> (dst_device \<noteq> - 1 \<and> dst_device \<noteq> 0) \<or> \<not> in_allocation dev_ptr count s
      then answer cudaErrorInvalidValue None s
      else case enqueue_stream_host_op h stream NoOperation s of (e, s1) \<Rightarrow> answer e None s1)"

definition cudaStreamAttachMemAsync :: "Host \<Rightarrow> u64 \<Rightarrow> u64 \<Rightarrow> u64 \<Rightarrow> u32 \<Rightarrow> async \<Rightarrow> unit outcome" where
  "cudaStreamAttachMemAsync h stream dev_ptr len flags s =
     (if dev_ptr = 0 \<or> (flags \<noteq> 1 \<and> flags \<noteq> 2 \<and> flags \<noteq> 4) \<or> \<not> in_allocation dev_ptr len s
      then answer cudaErrorInvalidValue None s
      else case enqueue_stream_host_op h stream NoOperation s of (e, s1) \<Rightarrow> answer e None s1)"

section \<open>Memory that programs own\<close>

lemma resolve_frame:
  assumes "resolve_runtime_stream h stream s = (r, t)"
  shows "as_functions t = as_functions s" "as_next_function t = as_next_function s" "as_graphs t = as_graphs s"
  using assms by (auto simp: resolve_runtime_stream_def ensure_per_thread_stream_def split: if_splits option.splits prod.splits)

lemma enqueue_committed:
  assumes "enqueue_host_function mo n f s = (cudaSuccess, t)"
  shows "\<exists>v m. HostFn n v m f \<in> set (bk_todo t)"
proof -
  obtain i k s2 where m: "submit_marker n (flush_all n s) = ((i, k), s2)" by (metis surj_pair)
  obtain v s3 where r: "reserve_host_value n s2 = (v, s3)" by fastforce
  obtain c s4 where c: "new_command_buffer n (commit (HostFn n v i f) s3) = (c, s4)" by fastforce
  obtain c1 ws w s5 where e: "encode_submission_waits n [] c s4 = ((c1, ws, w), s5)" by (metis prod_cases3 surj_pair)
  have "bk_todo s5 = bk_todo s4" using e by (auto simp: encode_submission_waits_def Let_def)
  moreover have "HostFn n v i f \<in> set (bk_todo s4)" using c by (auto simp: new_command_buffer_def)
  moreover have "t = add_pending_host_operation n
      (snd (submit_buffer (encode_resource_signals [(n, w)] c1) (set_latest_host_barrier n v s5)))"
    using assms[unfolded enqueue_host_function_def Let_def m prod.case r c e] by (auto split: if_splits)
  ultimately have "HostFn n v i f \<in> set (bk_todo t)"
    by (simp add: add_pending_host_operation_def set_latest_host_barrier_def submit_buffer_def add_pending_def Let_def)
  then show ?thesis by blast
qed

lemma advances_default: "advances s t \<Longrightarrow> bk_default_stream t = bk_default_stream s"
  by (induction rule: advances.induct)
     (auto simp: keeps_streams_def poll_completed_def set_completed_def Let_def split: prod.splits)

lemma resolve_again:
  assumes "resolve_runtime_stream h stream s = (Inr n, u)" "as_streams t = as_streams u"
    "as_per_thread_stream t = as_per_thread_stream u" "bk_default_stream (as_backend t) = bk_default_stream (as_backend u)"
  shows "resolve_runtime_stream h stream t = (Inr n, t)"
  using assms by (auto simp: resolve_runtime_stream_def ensure_per_thread_stream_def resolve_stream_handle_def
      split: if_splits option.splits prod.splits)

lemma enqueue_frame:
  assumes "enqueue_stream_host_op h stream op s = (cudaSuccess, t)"
  shows "as_graphs t = as_graphs s" "as_functions t = (as_functions s)(as_next_function s \<mapsto> op)"
proof -
  obtain n u where r: "resolve_runtime_stream h stream s = (Inr n, u)"
    using assms(1) resolve_error by (auto simp: enqueue_stream_host_op_def split: sum.splits prod.splits)
  then have "enqueue_function h n op u = (cudaSuccess, t)" using assms(1) by (simp add: enqueue_stream_host_op_def)
  then show "as_graphs t = as_graphs s" "as_functions t = (as_functions s)(as_next_function s \<mapsto> op)"
    using resolve_frame[OF r] by (auto simp: enqueue_function_def Let_def split: if_splits prod.splits)
qed

lemma pageable_frame:
  assumes "enqueue_stream_host_op_pageable h stream complete op s = Some (cudaSuccess, t)"
  shows "as_graphs t = as_graphs s" "as_functions t = (as_functions s)(as_next_function s \<mapsto> op)"
proof -
  obtain u where u: "enqueue_stream_host_op h stream op s = (cudaSuccess, u)"
    using assms by (auto simp: enqueue_stream_host_op_pageable_def split: prod.splits if_splits)
  obtain x w where x: "resolve_runtime_stream h stream u = (x, w)" by fastforce
  have "as_graphs t = as_graphs u \<and> as_functions t = as_functions u"
    using assms u x resolve_frame[OF x]
    by (auto simp: enqueue_stream_host_op_pageable_def synchronize_stream_for_host_op_def split: if_splits sum.splits option.splits)
  then show "as_graphs t = as_graphs s" "as_functions t = (as_functions s)(as_next_function s \<mapsto> op)"
    using enqueue_frame[OF u] by simp_all
qed

text \<open>
  The host function that a call from \<open>s\<close> adds has run by \<open>t\<close>: it was put on the stream \<open>n\<close> of the handle, which gave
  the backend \<open>b\<close>, and in the backend of \<open>t\<close>, which follows from \<open>b\<close>, nothing of that stream is outstanding.
\<close>

definition has_run :: "Host \<Rightarrow> u64 \<Rightarrow> async \<Rightarrow> async \<Rightarrow> bool" where
  "has_run h stream s t \<longleftrightarrow> (\<exists>n s0 b v m. resolve_runtime_stream h stream s = (Inr n, s0) \<and>
     enqueue_host_function (ho_objects h) n (as_next_function s) (as_backend s0) = (cudaSuccess, b) \<and>
     HostFn n v m (as_next_function s) \<in> set (bk_todo b) \<and> advances b (as_backend t) \<and>
     (\<forall>y\<in>set (bk_todo (as_backend t)). stream_of y \<noteq> n))"

lemma enqueued:
  assumes "enqueue_stream_host_op h stream op s = (cudaSuccess, t)" "async_ok s" "good_host h"
  obtains n u v m where "resolve_runtime_stream h stream s = (Inr n, u)" "resolve_runtime_stream h stream t = (Inr n, t)"
    "enqueue_host_function (ho_objects h) n (as_next_function s) (as_backend u) = (cudaSuccess, as_backend t)"
    "HostFn n v m (as_next_function s) \<in> set (bk_todo (as_backend t))"
proof -
  obtain n u where r: "resolve_runtime_stream h stream s = (Inr n, u)"
    using assms(1) resolve_error by (auto simp: enqueue_stream_host_op_def split: sum.splits prod.splits)
  note f = resolve_frame[OF r]
  note mu = resolve_moves[OF r assms(2)]
  have e: "enqueue_function h n op u = (cudaSuccess, t)" using assms(1) r by (simp add: enqueue_stream_host_op_def)
  have m: "moves u t" by (rule function_moves[OF e moves_ok(1)[OF mu(1)] assms(3) mu(3)[OF refl]])
  have c: "as_streams t = as_streams u" "as_per_thread_stream t = as_per_thread_stream u"
    "enqueue_host_function (ho_objects h) n (as_next_function s) (as_backend u) = (cudaSuccess, as_backend t)"
    using e f by (auto simp: enqueue_function_def Let_def split: if_splits prod.splits)
  have "bk_default_stream (as_backend t) = bk_default_stream (as_backend u)" using m advances_default by (simp add: moves_def)
  from that[OF r resolve_again[OF r c(1,2) this] c(3)] enqueue_committed[OF c(3)] show thesis by blast
qed

lemma pageable_op:
  assumes "enqueue_stream_host_op_pageable h stream True op s = Some (cudaSuccess, t)" "async_ok s" "good_host h"
  shows "has_run h stream s t"
proof -
  obtain u where u: "enqueue_stream_host_op h stream op s = (cudaSuccess, u)"
    using assms(1) by (auto simp: enqueue_stream_host_op_pageable_def split: prod.splits if_splits)
  obtain n s0 v m where n: "resolve_runtime_stream h stream s = (Inr n, s0)" "resolve_runtime_stream h stream u = (Inr n, u)"
    "enqueue_host_function (ho_objects h) n (as_next_function s) (as_backend s0) = (cudaSuccess, as_backend u)"
    "HostFn n v m (as_next_function s) \<in> set (bk_todo (as_backend u))" by (rule enqueued[OF u assms(2,3)])
  obtain b where b: "t = u\<lparr>as_backend := b\<rparr>"
      "stream_synchronize (ho_status h) (ho_wait h) (ho_wait_host h) n (as_backend u) = Some (cudaSuccess, b)"
    using assms(1) u n(2)
    by (auto simp: enqueue_stream_host_op_pageable_def synchronize_stream_for_host_op_def split: if_splits option.splits)
  have ok: "state_ok (as_backend u)" using moves_ok(2)[OF host_op_moves[OF u assms(2,3)]] .
  have h: "metal_host (ho_wait h) (ho_wait_host h)" using assms(3) by (simp add: good_host_def)
  have "\<forall>x\<in>set (bk_todo b). stream_of x \<noteq> n"
    using metal_host.stream_synchronize_spec[OF h ok, of "ho_status h" n] b(2) by auto
  moreover have "advances (as_backend u) b" by (rule stream_synchronize_moves[OF b(2) h ok])
  ultimately show ?thesis unfolding has_run_def using n b(1) by auto
qed

section \<open>The contract of asynchronous copies\<close>

lemma no_blit:
  assumes "is_pageable_host_memory dst s \<or> is_pageable_host_memory src s"
  shows "try_blit h dst src count stream s = (False, s)"
  using assms by (auto simp: try_blit_def is_pageable_host_memory_def split: option.splits)

lemma try_blit_frame:
  assumes "try_blit h dst src count stream s = (sent, u)"
  shows "as_graphs u = as_graphs s" "as_functions u = as_functions s" "as_next_function u = as_next_function s"
proof -
  obtain x w where x: "resolve_runtime_stream h stream s = (x, w)" by fastforce
  have "u = s \<or> u = w \<or> (\<exists>b. u = w\<lparr>as_backend := b\<rparr>)"
    using assms x by (auto simp: try_blit_def split: if_splits option.splits prod.splits sum.splits)
  then show "as_graphs u = as_graphs s" "as_functions u = as_functions s" "as_next_function u = as_next_function s"
    using resolve_frame[OF x] by auto
qed

text \<open>The host function of a copy that was not sent to the GPU.\<close>

abbreviation copy_op :: "backend \<Rightarrow> memory \<Rightarrow> u64 \<Rightarrow> u64 \<Rightarrow> u64 \<Rightarrow> cudaMemcpyKind \<Rightarrow> async \<Rightarrow> HostOperation" where
  "copy_op be m dst src count k s \<equiv> CopyBytes (host_pointer be dst count s) (host_pointer be src count s) count k
       (if k = cudaMemcpyHostToDevice
        then Some (relocate_embedded_device_pointers be (table_of s) (read_bytes m (host_pointer be src count s) count)) else None)"

lemma kind_error: "resolve_memcpy_kind dst src kind s \<noteq> Inl cudaSuccess"
  by (auto simp: resolve_memcpy_kind_def Let_def split: cudaMemcpyKind.splits)

lemma async_copy_function:
  assumes "get_capture_graph stream (as_graphs s) = 0"
    and "cudaMemcpyAsync h be m node dst src count kind stream s = Some (cudaSuccess, out, t)" "0 < count"
    and "try_blit h dst src count stream s = (False, s1)"
  obtains k u where "resolve_memcpy_kind dst src kind (runtime_of s) = Inr k" "\<not> inaccessible be dst count s" "\<not> inaccessible be src count s"
    "t = keep_error cudaSuccess u" "as_functions t (as_next_function s) = Some (copy_op be m dst src count k s)"
    "enqueue_stream_host_op_pageable h stream (is_pageable_host_memory dst s) (copy_op be m dst src count k s) s1 = Some (cudaSuccess, u)"
proof -
  note f = try_blit_frame[OF assms(4)]
  have same: "inaccessible be p n s1 = inaccessible be p n s" "host_pointer be p n s1 = host_pointer be p n s"
    "is_pageable_host_memory p s1 = is_pageable_host_memory p s" for p n
    by (simp_all add: inaccessible_def host_pointer_def is_pageable_host_memory_def f(1))
  obtain k where k: "resolve_memcpy_kind dst src kind (runtime_of s) = Inr k" "copy_on_host h be m dst src count k stream s1 = Some (cudaSuccess, out, t)"
    using assms(1,2,4) kind_error by (auto simp: cudaMemcpyAsync_def Let_def answer_def split: if_splits sum.splits)
  have acc: "\<not> inaccessible be dst count s" "\<not> inaccessible be src count s"
    using k(2) assms(3) by (auto simp: copy_on_host_def answer_def same split: if_splits)
  then obtain u where u: "enqueue_stream_host_op_pageable h stream (is_pageable_host_memory dst s) (copy_op be m dst src count k s) s1 = Some (cudaSuccess, u)"
    "t = keep_error cudaSuccess u"
    using k(2)[unfolded copy_on_host_def same f(1) Let_def] assms(3) by (auto simp: answer_status_def answer_def split: option.splits)
  have "as_functions t (as_next_function s) = Some (copy_op be m dst src count k s)"
    using pageable_frame(2)[OF u(1)] f(3) u(2) by (simp add: keep_error_def)
  from that[OF k(1) acc u(2) this u(1)] show thesis .
qed

text \<open>
  C36: cudaMemcpyAsync and pageable memory, which the program may free or reuse when the call returns.  Take a copy
  of some bytes to or from such memory that succeeds outside of a capture, in a state that keeps the invariants of the
  backend and whose handles refer to live streams, with Metal making what the submission asks for and finishing what the
  host sleeps for.  When it goes to the device, its source has been
  read already: its host function writes the bytes of the source at the call, with their pointers moved, whatever
  memory and allocations are when it runs.  When its destination is pageable, its host function was put on the stream
  of the handle and has run by the time the call returns: nothing of that stream is outstanding any more.  A copy from
  pageable into pinned host memory is neither (lemma \<open>host_copy_reads_late\<close>).
\<close>

theorem async_copy_pageable:
  assumes "async_ok s" "good_host h" "get_capture_graph stream (as_graphs s) = 0"
    and "cudaMemcpyAsync h be m node dst src count kind stream s = Some (cudaSuccess, out, t)" "0 < count"
    and "is_pageable_host_memory dst s \<or> is_pageable_host_memory src s"
  shows "\<exists>k op. resolve_memcpy_kind dst src kind (runtime_of s) = Inr k \<and> as_functions t (as_next_function s) = Some op \<and>
    (k = cudaMemcpyHostToDevice \<longrightarrow> (\<forall>t' m'. run_operation be t' op m' = write_bytes (host_pointer be dst count s)
       (relocate_embedded_device_pointers be (table_of s) (read_bytes m (host_pointer be src count s) count)) m')) \<and>
    (is_pageable_host_memory dst s \<longrightarrow> has_run h stream s t)"
proof -
  obtain k u where *: "resolve_memcpy_kind dst src kind (runtime_of s) = Inr k" "\<not> inaccessible be dst count s" "\<not> inaccessible be src count s"
    "t = keep_error cudaSuccess u" "as_functions t (as_next_function s) = Some (copy_op be m dst src count k s)"
    "enqueue_stream_host_op_pageable h stream (is_pageable_host_memory dst s) (copy_op be m dst src count k s) s = Some (cudaSuccess, u)"
    by (rule async_copy_function[OF assms(3-5) no_blit[OF assms(6)]])
  have "has_run h stream s t" if "is_pageable_host_memory dst s"
    using pageable_op[of h stream _ s u] *(6) that assms(1,2) by (simp add: has_run_def *(4))
  then show ?thesis
    using assms(5) *(1,5) by (intro exI[of _ k] exI[of _ "copy_op be m dst src count k s"] conjI) auto
qed

text \<open>
  C37: an asynchronous copy has the effect of the synchronous one.  When cudaMemcpyAsync of some bytes succeeds outside of a capture
  without having sent the copy to the GPU (an end is pageable, or the submission there failed), and neither the bytes of
  the source nor the table of allocations have changed when its host function runs, then the host function changes
  memory just as a successful cudaMemcpy of the same arguments would at that time, the pointers inside of the data
  included.
\<close>

theorem async_copy_as_sync:
  assumes "get_capture_graph stream (as_graphs s) = 0"
    and "cudaMemcpyAsync h be m node dst src count kind stream s = Some (cudaSuccess, out, t)" "0 < count"
    and "\<not> fst (try_blit h dst src count stream s)"
    and "read_bytes m' (host_pointer be src count s) count = read_bytes m (host_pointer be src count s) count"
    and "table_of later = table_of s"
    and "cudaMemcpy h' be m' dst src count kind later = Some (cudaSuccess, Some m2, t')"
  shows "\<exists>op. as_functions t (as_next_function s) = Some op \<and> run_operation be (table_of later) op m' = m2"
proof -
  have b: "try_blit h dst src count stream s = (False, snd (try_blit h dst src count stream s))" using assms(4) by (simp add: prod_eq_iff)
  obtain k u where *: "resolve_memcpy_kind dst src kind (runtime_of s) = Inr k" "\<not> inaccessible be dst count s" "\<not> inaccessible be src count s"
    "as_functions t (as_next_function s) = Some (copy_op be m dst src count k s)"
    by (rule async_copy_function[OF assms(1-3) b])
  have same: "host_pointer be p n later = host_pointer be p n s" "inaccessible be p n later = inaccessible be p n s"
    "resolve_memcpy_kind dst src kind (runtime_of later) = resolve_memcpy_kind dst src kind (runtime_of s)" for p n
    by (simp_all add: host_pointer_def inaccessible_def host_accessible_pointer_def resolve_memcpy_kind_def is_device_pointer_def assms(6))
  have backend: "host_pointer be p n (x\<lparr>as_backend := c\<rparr>) = host_pointer be p n x"
    "inaccessible be p n (x\<lparr>as_backend := c\<rparr>) = inaccessible be p n x" for p n x c
    by (simp_all add: host_pointer_def inaccessible_def)
  have "m2 = write_bytes (host_pointer be dst count s)
      (copied be (table_of s) k (read_bytes m' (host_pointer be src count s) count)) m'"
    using assms(3,7) *(1) same
    by (auto simp: cudaMemcpy_def synchronized_def answer_def backend assms(6) split: if_splits option.splits prod.splits)
  then show ?thesis using *(4) assms(3,5,6) by (auto simp: copied_def)
qed

text \<open>
  A copy between addresses of the host whose destination is pinned and whose source is pageable reads the source
  when the host function runs, which may be after the call has returned: it is neither staged nor waited for.
\<close>

lemma host_copy_reads_late:
  assumes "get_capture_graph stream (as_graphs s) = 0"
    and "cudaMemcpyAsync h be m node dst src count cudaMemcpyHostToHost stream s = Some (cudaSuccess, out, t)" "0 < count"
    and "is_pageable_host_memory src s"
  shows "\<exists>d. as_functions t (as_next_function s) = Some (CopyBytes d (host_pointer be src count s) count cudaMemcpyHostToHost None)"
proof -
  obtain k u where "resolve_memcpy_kind dst src cudaMemcpyHostToHost (runtime_of s) = Inr k" "\<not> inaccessible be dst count s"
    "\<not> inaccessible be src count s" "as_functions t (as_next_function s) = Some (copy_op be m dst src count k s)"
    by (rule async_copy_function[OF assms(1-3) no_blit[OF disjI2[OF assms(4)]]])
  then show ?thesis by (auto simp: resolve_memcpy_kind_def validate_memcpy_kind_def Let_def)
qed

text \<open>An allocation is released once: until the host function has run, a second release is refused.\<close>

lemma host_op_pending: "enqueue_stream_host_op h stream op s = (r, t) \<Longrightarrow> as_pending_async_frees t = as_pending_async_frees s"
  by (auto simp: enqueue_stream_host_op_def enqueue_function_def resolve_runtime_stream_def ensure_per_thread_stream_def Let_def
      split: if_splits option.splits sum.splits prod.splits)

lemma free_async_twice:
  assumes "cudaFreeAsync h node p stream s = Some (cudaSuccess, out, t)" "get_capture_graph stream (as_graphs s) = 0" "p \<noteq> 0"
  shows "p \<in> as_pending_async_frees t"
    "get_capture_graph stream' (as_graphs t) = 0 \<Longrightarrow> cudaFreeAsync h' node' p stream' t = answer cudaErrorInvalidDevicePointer None t"
    "p \<notin> as_pending_async_frees (run_free p a t)"
proof -
  show p: "p \<in> as_pending_async_frees t"
    using assms host_op_pending by (fastforce simp: cudaFreeAsync_def answer_def keep_error_def Let_def
        split: if_splits option.splits prod.splits)
  show "get_capture_graph stream' (as_graphs t) = 0 \<Longrightarrow> cudaFreeAsync h' node' p stream' t = answer cudaErrorInvalidDevicePointer None t"
    using p assms(3) by (simp add: cudaFreeAsync_def split: option.split)
  show "p \<notin> as_pending_async_frees (run_free p a t)" by (simp add: run_free_def Let_def)
qed

text \<open>A copy between two addresses of the host, on the legacy stream of a new program.\<close>

lemma sample_good: "good_host sample_calls"
  using run.metal_host_axioms by (simp add: good_host_def sample_calls_def)

lemma sample_sel:
  "ho_init sample_calls = cudaSuccess" "ho_objects sample_calls = all_objects" "ho_status sample_calls = (\<lambda>_. cudaSuccess)"
  "ho_wait sample_calls = (\<lambda>_. run_all)" "ho_wait_host sample_calls = (\<lambda>_. run_all)"
  by (simp_all add: sample_calls_def)

lemma sample_resolve: "resolve_runtime_stream sample_calls 0 s = (Inr (bk_default_stream (as_backend s)), s)"
  by (simp add: resolve_runtime_stream_def is_legacy_stream_handle_def sample_calls_def)

lemma sample_pageable:
  assumes "async_ok s"
  shows "\<exists>t. enqueue_stream_host_op_pageable sample_calls 0 c op s = Some (cudaSuccess, t)"
proof -
  have "fst (enqueue_host_function all_objects n f b) = cudaSuccess" for n f b
    by (simp add: enqueue_host_function_def all_objects_def Let_def split: prod.split)
  then have "fst (enqueue_stream_host_op sample_calls 0 op s) = cudaSuccess"
    by (simp add: enqueue_stream_host_op_def sample_resolve enqueue_function_def sample_sel Let_def split: prod.split)
      (metis fst_conv)
  then obtain t where t: "enqueue_stream_host_op sample_calls 0 op s = (cudaSuccess, t)" by (metis prod.collapse)
  have ok: "state_ok (as_backend t)" using moves_ok(2)[OF host_op_moves[OF t assms sample_good]] .
  obtain b where "stream_synchronize (\<lambda>_. cudaSuccess) (\<lambda>_. run_all) (\<lambda>_. run_all) (bk_default_stream (as_backend t)) (as_backend t) =
      Some (cudaSuccess, b)"
    using run.stream_synchronize_spec[OF ok, of "\<lambda>_. cudaSuccess"] by (metis (full_types))
  then show ?thesis
    by (simp add: enqueue_stream_host_op_pageable_def t synchronize_stream_for_host_op_def sample_resolve sample_sel)
qed

lemma sample_table: "table_resolve a (table_of sample_async) = None"
  by (simp add: table_resolve_def up_to_def sample_async_def sample_start_def sample_runtime_def)

lemma sample_ends: "host_pointer sample_backend 4096 4 sample_async = 4096" "host_pointer sample_backend 8192 4 sample_async = 8192"
  "\<not> inaccessible sample_backend 4096 4 sample_async" "\<not> inaccessible sample_backend 8192 4 sample_async"
  "is_pageable_host_memory 4096 sample_async" "resolve_memcpy_kind 4096 8192 cudaMemcpyDefault (runtime_of sample_async) = Inr cudaMemcpyHostToHost"
  by (simp_all add: host_pointer_def inaccessible_def host_accessible_pointer_def is_pageable_host_memory_def sample_table
      resolve_memcpy_kind_def is_device_pointer_def validate_memcpy_kind_def)

lemma sample_copy:
  "\<exists>t. cudaMemcpyAsync sample_calls sample_backend (\<lambda>_. 7) 0 4096 8192 4 cudaMemcpyDefault 0 sample_async = Some (cudaSuccess, None, t)"
proof -
  have "get_capture_graph 0 (as_graphs sample_async) = 0" by (simp add: get_capture_graph_def sample_async_def sample_start_def)
  moreover have "try_blit sample_calls 4096 8192 4 0 sample_async = (False, sample_async)"
    using sample_ends(5) by (intro no_blit) simp
  moreover obtain t where "enqueue_stream_host_op_pageable sample_calls 0 True (CopyBytes 4096 8192 4 cudaMemcpyHostToHost None) sample_async =
      Some (cudaSuccess, t)"
    using sample_pageable[OF sample_async_ok] by blast
  ultimately show ?thesis
    by (simp add: cudaMemcpyAsync_def sample_sel sample_ends copy_on_host_def answer_status_def answer_def)
qed

lemma sample_memcpy:
  "\<exists>t. cudaMemcpy sample_calls sample_backend (\<lambda>_. 7) 4096 8192 4 cudaMemcpyDefault sample_async =
    Some (cudaSuccess, Some (\<lambda>_. 7), t)"
proof -
  have "state_ok (as_backend sample_async)" using sample_async_ok by (simp add: async_ok_def)
  then obtain b where "synchronize (\<lambda>_. cudaSuccess) (\<lambda>_. run_all) (\<lambda>_. run_all) (as_backend sample_async) = Some (cudaSuccess, b)"
    using run.synchronize_spec[of "as_backend sample_async" "\<lambda>_. cudaSuccess"] by (metis (full_types))
  moreover have "write_bytes 4096 (read_bytes (\<lambda>_. 7) 8192 4) (\<lambda>_. 7) = (\<lambda>_. 7)"
    by (auto simp: write_bytes_def read_bytes_def)
  ultimately show ?thesis
    using sample_ends
    by (simp add: cudaMemcpy_def sample_sel synchronized_def answer_def copied_def inaccessible_def host_pointer_def)
qed

theorem async_copy_pageable_witness:
  "\<exists>t op. cudaMemcpyAsync sample_calls sample_backend (\<lambda>_. 7) 0 4096 8192 4 cudaMemcpyDefault 0 sample_async = Some (cudaSuccess, None, t) \<and>
     as_functions t 0 = Some op \<and> has_run sample_calls 0 sample_async t"
proof -
  obtain t where t: "cudaMemcpyAsync sample_calls sample_backend (\<lambda>_. 7) 0 4096 8192 4 cudaMemcpyDefault 0 sample_async = Some (cudaSuccess, None, t)"
    using sample_copy by blast
  have "get_capture_graph 0 (as_graphs sample_async) = 0" by (simp add: get_capture_graph_def sample_async_def sample_start_def)
  from async_copy_pageable[OF sample_async_ok sample_good this t _ disjI1[OF sample_ends(5)]] sample_ends(5) t
  show ?thesis by (auto simp: sample_async_def)
qed

theorem async_copy_as_sync_witness:
  "\<exists>t op. cudaMemcpyAsync sample_calls sample_backend (\<lambda>_. 7) 0 4096 8192 4 cudaMemcpyDefault 0 sample_async = Some (cudaSuccess, None, t) \<and>
     as_functions t 0 = Some op \<and> run_operation sample_backend (table_of sample_async) op (\<lambda>_. 7) = (\<lambda>_. 7)"
proof -
  obtain t where t: "cudaMemcpyAsync sample_calls sample_backend (\<lambda>_. 7) 0 4096 8192 4 cudaMemcpyDefault 0 sample_async = Some (cudaSuccess, None, t)"
    using sample_copy by blast
  obtain t' where t': "cudaMemcpy sample_calls sample_backend (\<lambda>_. 7) 4096 8192 4 cudaMemcpyDefault sample_async =
    Some (cudaSuccess, Some (\<lambda>_. 7), t')" using sample_memcpy by blast
  have g: "get_capture_graph 0 (as_graphs sample_async) = 0" "as_next_function sample_async = 0"
    by (simp_all add: get_capture_graph_def sample_async_def sample_start_def)
  have b: "\<not> fst (try_blit sample_calls 4096 8192 4 0 sample_async)" using no_blit[OF disjI1[OF sample_ends(5)]] by simp
  from async_copy_as_sync[OF g(1) t _ b refl refl t'] t g(2)
  show ?thesis by auto
qed

end
