(* ===== verification/Spec2Isabelle.thy ===== *)
theory Spec2Isabelle
  imports Prelude Allocation RuntimeMemory IrTypes IrDominators IrCallGraph IrVerify IrPrint
    FatbinPtx FatbinElf ModuleCache Metallib PtxText PtxLines Regex PtxModule PtxPasses
    IntrinsicLower PrintfLower Phase1 NativeRegistry GraphOrder GraphNodes GraphState
    GraphMemory GraphEdit GraphObjects GraphExec GraphCapture GraphInvariant Graphs
    GraphRelease GraphUserObjects AirValidate BackendFences BackendMarkers BackendOrder
    BackendStreams BackendTickets MslAst MslPrint NvrtcOptions RuntimeCopies RuntimeEvents
    RuntimeStreams
begin

text \<open>
  CuMetal runs CUDA programs on Apple's Metal.  Its program side is a set of compilers: PTX text
  (taken from fat binaries) is parsed, rewritten by passes and lowered to Metal code, and a typed
  intermediate representation stands between the importers and the emitters.  Its runtime side is
  an implementation of the CUDA runtime API: allocations with host and device addresses, modules
  registered by compiled programs, caches of staged binaries, streams with events and asynchronous copies, and
  graphs of recorded work.  This
  development is a shallow embedding of the parts below, function by function, with the theorems
  that make them correct.  It has no axioms; code outside the repository (Metal, the
  file system, the environment) is an argument of the definitions that use it.

  Theories and sources (paths below \<open>src/\<close>):

  \<^item> \<open>Prelude\<close>: machine integers (\<open>u8\<close>, \<open>u32\<close>, \<open>u64\<close>), bytes and strings, and lemmas on words, lists,
    maps and files that the components share.  Strings are lists of characters or bytes.

  \<^item> \<open>Allocation\<close> (\<open>runtime/rt/allocation_table.cpp\<close>): the ordered table from base addresses to
    allocations.  The locale \<open>allocation_map\<close> is the contract a client sees (owners of addresses and
    live bases, what insertion and removal do to them); the interpretation \<open>am\<close> discharges it for the
    code's table, and the refinement theorem holds for every history of calls.

  \<^item> \<open>RuntimeMemory\<close> (memory calls of \<open>runtime/rt/cuda_runtime.cpp\<close>): the record \<open>runtime\<close> is the part
    of \<open>RuntimeState\<close> that the calls use; each call takes and returns it, with the error code that
    the code returns and stores as the last error.  The backend record holds the results of Metal.

  \<^item> \<open>IrTypes\<close>, \<open>IrDominators\<close>, \<open>IrCallGraph\<close>, \<open>IrVerify\<close>, \<open>IrPrint\<close> (\<open>compiler/ir\<close>): types, operations and
    modules of the IR, the dominator fixpoint, the recursion check on the call graph, the verifier
    with its diagnostics in order, and the printer.  Accepted modules are in SSA form over all walks of
    the control flow graph (an inductive relation), and their call graph has no cycle.

  \<^item> \<open>FatbinPtx\<close>, \<open>FatbinElf\<close> (\<open>runtime/common\<close>): the readers of fat binaries and of ELF images that hold
    them.  A read outside the file is the outcome \<open>None\<close>, so the safety theorems say it never occurs.

  \<^item> \<open>ModuleCache\<close> (\<open>runtime/cache/module_cache.cpp\<close>): packed module images and the content-addressed
    staging of metallibs over a model of a file system.

  \<^item> \<open>Metallib\<close> (\<open>compiler/common/src/metallib.cpp\<close>): the readers of both metallib formats, again with
    reads outside the file as an outcome, and the scans for kernels, strings and reflection counts.

  \<^item> \<open>PtxText\<close>, \<open>PtxLines\<close>, \<open>Regex\<close>, \<open>PtxModule\<close> (\<open>compiler/ptx/src/parser.cpp\<close>): comments, balanced
    bodies and operands; the line parser with its scopes and register renaming; the part of
    \<open>std::regex\<close> the parser uses, as a backtracking matcher with the greedy order of ECMAScript; the
    module parser.  Overflow of a version number is the outcome \<open>None\<close>.

  \<^item> \<open>PtxPasses\<close>, \<open>IntrinsicLower\<close>, \<open>PrintfLower\<close>, \<open>Phase1\<close> (\<open>compiler/passes\<close>): address spaces, metadata and
    threadgroup tiling; the tables that map opcodes to AIR intrinsics; the format table of device
    printf; and the pipeline that runs the parser and all passes in order.

  \<^item> \<open>NativeRegistry\<close> (\<open>runtime/registration/native_registration.cpp\<close>): validation of a module
    descriptor, registration, lookup and removal on a record of maps, and the invariant of all states
    that the inductive relation \<open>registry_step\<close> reaches.

  \<^item> \<open>GraphOrder\<close>, \<open>GraphNodes\<close>, \<open>GraphState\<close>, \<open>GraphMemory\<close>, \<open>GraphEdit\<close>, \<open>GraphObjects\<close>, \<open>GraphExec\<close>, \<open>GraphCapture\<close>, \<open>GraphInvariant\<close>, \<open>Graphs\<close>, \<open>GraphRelease\<close>, \<open>GraphUserObjects\<close> (graphs in \<open>runtime/rt/cuda_runtime.cpp\<close>): the replay order of a graph
    and its correctness, the nodes with their parameter checks,
    graphs and memory nodes over the record \<open>graphs\<close> of all objects by address, user objects,
    executable graphs and their replay, and the capture of streams.  \<open>GraphInvariant\<close> has the relation
    \<open>graph_step\<close> of all these calls and proves that each keeps graphs in insertion order with live
    nodes; \<open>Graphs\<close> uses it for instantiation and update, \<open>GraphRelease\<close> for the order of allocation
    and release, and \<open>GraphUserObjects\<close> proves the reference counts of user objects exact.

  \<^item> \<open>NvrtcOptions\<close> (\<open>runtime/rt/nvrtc_options.cpp\<close>): the translation of the options of the runtime compiler
    into arguments of \<open>cumetalc\<close>, with those it tolerates and those it does not know.

  \<^item> \<open>BackendStreams\<close>, \<open>BackendFences\<close>, \<open>BackendOrder\<close>, \<open>BackendTickets\<close> (\<open>runtime/metal_backend/metal_backend.mm\<close>):
    the streams of the Metal backend.  \<open>BackendStreams\<close> has the state of a stream, its open batch, the waits and
    signals of a submission, and the calls that submit copies, kernel work, markers and host functions; a command
    buffer is what was encoded into it, and \<open>can_finish\<close> says which outstanding work Metal may finish next.
    \<open>BackendFences\<close> states the invariant of what is outstanding over the part of the state it needs (\<open>view\<close>);
    \<open>BackendOrder\<close> shows that each call keeps it, and has the relation \<open>granted_step\<close> of the calls and of Metal
    in any interleaving.  \<open>BackendTickets\<close> adds the calls that wait; the locale \<open>metal_host\<close> is what they rely on
    while the host sleeps, interpreted by running all that is outstanding.

  \<^item> \<open>BackendMarkers\<close> (\<open>runtime/metal_backend/metal_backend.mm\<close>): what the completion of a marker tells about its
    stream.  \<open>advances\<close> is any sequence of backend calls that releases no stream; \<open>tracked\<close> follows a marker
    through it, by the values its stream signals, until nothing before it is outstanding.

  \<^item> \<open>RuntimeStreams\<close>, \<open>RuntimeEvents\<close>, \<open>RuntimeCopies\<close> (\<open>runtime/rt/cuda_runtime.cpp\<close>): the runtime calls over
    these streams.  The record \<open>async\<close> holds the graphs with the allocations, the backend, the handles and the
    events; a host function is a number, and \<open>as_functions\<close> says what it does.  \<open>RuntimeEvents\<close> has the relation
    \<open>between\<close> of the calls that may happen between the record of an event and its completion.
    \<open>RuntimeCopies\<close> has the copies and fills, with \<open>run_operation\<close> for what the host functions of the
    asynchronous ones do to memory.

  \<^item> \<open>MslAst\<close>, \<open>MslPrint\<close> (\<open>compiler/metal/src/msl_ast.cpp\<close>): the syntax tree of Metal source with its constructors,
    and its printer.  \<open>reads\<close> is the precedence grammar of expressions, against which the printer is correct.

  \<^item> \<open>AirValidate\<close> (\<open>compiler/air_validate\<close>): the validator of metallibs over the summary that \<open>Metallib\<close> makes,
    its report, and its command line with the JSON output.

  How the parts interact: a program registers a fat binary; the readers take PTX out of it, the
  parser and the passes turn it into an entry with metadata, and the module cache stages the
  resulting metallib, whose container \<open>Metallib\<close> reads back.  Programs compiled ahead of time pass a
  descriptor to \<open>NativeRegistry\<close> instead.  The runtime calls resolve every pointer through the
  allocation table; the pointers inside kernel arguments are relocated with it before and restored
  after a launch.  Streams, events and asynchronous copies are submissions to the backend, which orders them with
  Metal's shared events; what must run on the host is a host function in the order of its stream.  Graph
  nodes snapshot kernel arguments with the sizes the registry knows.

  Lemma groups and kinds of theorem.  Safety of the readers: no access outside the input for any
  bytes.  Round trips: allocation and release, packed images, operand lists, pointers inside
  arguments, registration.  Refinement and equivalence: the table against its contract, the pipeline against the
  composition of its passes, the balanced body and the replay order against declarative definitions.
  The asynchronous copies have the effect of the synchronous ones.  Order and progress of the backend: no work
  overtakes what it depends on, the fences never block for ever, every wait ends, and an event that is complete
  has all earlier work of its stream behind it.  Invariants: the table, the registry, the printf table, the
  parsed instructions.  Termination: every loop is a total function; those that are not structural have a measure.

  Bounds and fuel.  The star of the regular expressions takes the length of the text as fuel, since
  each round consumes at least one character; the removal of braces around an instruction takes
  the length of the line plus one for the same reason.  Addresses and sizes are 64-bit words with
  wrap-around where the code has it; counters of lines and nesting are unbounded in the model, and so are the
  tickets and event values of the backend (exact for the first \<open>2^64 - 1\<close> submissions of a stream).  The steps of
  the backend (\<open>granted_step\<close>) may be refused a command buffer, but assume that Metal creates every encoder and
  completion buffer once a submission has reserved its value, and that the arguments of kernels can be bound; the
  lemmas \<open>refused_encoder_blocks\<close> and \<open>refused_completion_overtakes\<close> show what happens otherwise, and the
  theorems on the backend, on events and on copies carry this condition.

  Not modelled, and why: Metal itself: devices, pipelines, heaps and the binding of arguments are calls into
  Objective-C frameworks, so the backend is modelled up to the objects it asks Metal for, and a kernel launch
  from where its work is submitted.  The AIR emitter, the
  runtime compiler and \<open>cumetalc\<close> start subprocesses over temporary files; the NVVM importer works on LLVM, which
  is not in the repository; the math libraries are floating-point kernels and calls into Accelerate and MPS;
  NVML and the library conflict check ask the operating system.  The large text emitters (\<open>lower_to_llvm\<close>,
  \<open>lower_to_metal\<close>, \<open>lower_to_msl\<close>), the PTX importer, the driver API, the decoding of fat-binary handles, the
  single-rank NCCL are pure enough to model and are left out for their size; what they
  read and what they produce (parsed modules, the IR, the Metal syntax tree, fat binaries, metallibs) is modelled.
\<close>

end
